(* ===== verification/Prelude.thy ===== *)
theory Prelude
  imports
    Main
    "HOL-Library.Char_ord"
    "HOL-Library.List_Lexorder"
    "HOL-Library.Product_Lexorder"
    "HOL-Library.AList"
    "HOL-Library.Multiset"
    "HOL-Library.Word"
begin

text \<open>
  Shared ground of the development: the text model, the keyed lists, the stable sorts and the
  reachability principle that the component theories use.

  Text. A Rust \<open>String\<close> is its UTF-8 byte sequence, modelled as an Isabelle \<open>string\<close> whose
  characters are bytes. \<open>str::len\<close>, \<open>==\<close>, \<open>cmp\<close> and \<open>find\<close> work on bytes there as here; an
  operation that counts or steps over scalar values (\<open>chars\<close>, \<open>trim\<close>) is defined below on the
  encoding, through the continuation bytes and the encoded white-space characters.
\<close>

named_theorems wf_intros \<open>rules that establish an invariant after an operation\<close>
named_theorems get_simps \<open>what a lookup returns after an update\<close>

section \<open>Bytes and text\<close>

abbreviation nl :: char where "nl \<equiv> CHR 0x0A"

definition quoted :: "string \<Rightarrow> string" where
  "quoted s = CHR 0x27 # s @ [CHR 0x27]"

definition is_cont_byte :: "char \<Rightarrow> bool" where
  "is_cont_byte c \<longleftrightarrow> (let b = (of_char c :: nat) in 128 \<le> b \<and> b < 192)"

definition utf8_len :: "char \<Rightarrow> nat" where
  "utf8_len c = (let b = (of_char c :: nat) in
     if b < 128 then 1 else if b < 224 then 2 else if b < 240 then 3 else 4)"

lemma utf8_len_pos [simp]: "0 < utf8_len c"
  by (simp add: utf8_len_def Let_def)

text \<open>\<open>s.chars().count()\<close>: every scalar value has exactly one byte that is no continuation.\<close>

definition chars_count :: "string \<Rightarrow> nat" where
  "chars_count s = length (filter (\<lambda>c. \<not> is_cont_byte c) s)"

text \<open>\<open>s.chars().take(n).collect()\<close>: stop before the lead byte of scalar value number \<open>n\<close>.\<close>

fun chars_take :: "nat \<Rightarrow> string \<Rightarrow> string" where
  "chars_take n [] = []"
| "chars_take n (c # cs) =
     (if is_cont_byte c then c # chars_take n cs
      else case n of 0 \<Rightarrow> [] | Suc m \<Rightarrow> c # chars_take m cs)"

lemma chars_count_Nil [simp]: "chars_count [] = 0"
  by (simp add: chars_count_def)

lemma chars_count_Cons [simp]:
  "chars_count (c # cs) = (if is_cont_byte c then 0 else 1) + chars_count cs"
  by (simp add: chars_count_def)

lemma chars_count_append [simp]: "chars_count (s @ t) = chars_count s + chars_count t"
  by (simp add: chars_count_def)

lemma chars_count_take_le: "chars_count (chars_take n s) \<le> n"
  by (induction n s rule: chars_take.induct) (auto split: nat.splits)

definition is_ascii_digit :: "char \<Rightarrow> bool" where
  "is_ascii_digit c \<longleftrightarrow> (let b = (of_char c :: nat) in 48 \<le> b \<and> b \<le> 57)"

definition is_ascii_upper :: "char \<Rightarrow> bool" where
  "is_ascii_upper c \<longleftrightarrow> (let b = (of_char c :: nat) in 65 \<le> b \<and> b \<le> 90)"

definition is_ascii_lower :: "char \<Rightarrow> bool" where
  "is_ascii_lower c \<longleftrightarrow> (let b = (of_char c :: nat) in 97 \<le> b \<and> b \<le> 122)"

definition is_ascii_alphanumeric :: "char \<Rightarrow> bool" where
  "is_ascii_alphanumeric c \<longleftrightarrow> is_ascii_digit c \<or> is_ascii_upper c \<or> is_ascii_lower c"

definition ascii_lower :: "char \<Rightarrow> char" where
  "ascii_lower c = (if is_ascii_upper c then char_of ((of_char c :: nat) + 32) else c)"

definition to_ascii_lowercase :: "string \<Rightarrow> string" where
  "to_ascii_lowercase s = map ascii_lower s"

section \<open>Searching and trimming\<close>

fun strip_prefix :: "string \<Rightarrow> string \<Rightarrow> string option" where
  "strip_prefix [] s = Some s"
| "strip_prefix (p # ps) [] = None"
| "strip_prefix (p # ps) (c # cs) = (if p = c then strip_prefix ps cs else None)"

definition starts_with :: "string \<Rightarrow> string \<Rightarrow> bool" where
  "starts_with s p \<longleftrightarrow> strip_prefix p s \<noteq> None"

text \<open>\<open>s.find(p)\<close>: the byte position of the first occurrence.\<close>

fun find_sub :: "string \<Rightarrow> string \<Rightarrow> nat option" where
  "find_sub p [] = (if p = [] then Some 0 else None)"
| "find_sub p (c # cs) =
     (if strip_prefix p (c # cs) \<noteq> None then Some 0 else map_option Suc (find_sub p cs))"

definition str_contains :: "string \<Rightarrow> string \<Rightarrow> bool" where
  "str_contains s p \<longleftrightarrow> find_sub p s \<noteq> None"

lemma strip_prefix_Some_iff: "strip_prefix p s = Some r \<longleftrightarrow> s = p @ r"
  by (induction p s rule: strip_prefix.induct) auto

lemma strip_prefix_None_iff: "strip_prefix p s = None \<longleftrightarrow> (\<forall>r. s \<noteq> p @ r)"
  by (induction p s rule: strip_prefix.induct) auto

lemma starts_with_iff: "starts_with s p \<longleftrightarrow> (\<exists>r. s = p @ r)"
  by (auto simp: starts_with_def strip_prefix_None_iff)

lemma find_sub_Some:
  "find_sub p s = Some k \<Longrightarrow> \<exists>r. s = take k s @ p @ r \<and> k + length p \<le> length s"
proof (induction p s arbitrary: k rule: find_sub.induct)
  case (1 p)
  then show ?case by (auto split: if_splits)
next
  case (2 p c cs)
  show ?case
  proof (cases "strip_prefix p (c # cs)")
    case None
    with 2 show ?thesis by fastforce
  next
    case (Some r)
    with 2 show ?thesis by (auto simp: strip_prefix_Some_iff intro: arg_cong [where f = length])
  qed
qed

lemma find_sub_first:
  "find_sub p s = Some k \<Longrightarrow> j < k \<Longrightarrow> strip_prefix p (drop j s) = None"
proof (induction p s arbitrary: k j rule: find_sub.induct)
  case (1 p)
  then show ?case by (auto split: if_splits)
next
  case (2 p c cs)
  then show ?case by (cases j) (auto split: if_splits)
qed

lemma find_sub_None: "find_sub p s = None \<Longrightarrow> strip_prefix p (drop j s) = None"
proof (induction p s arbitrary: j rule: find_sub.induct)
  case (1 p)
  then show ?case by (cases p) auto
next
  case (2 p c cs)
  then show ?case by (cases j) (auto split: if_splits)
qed

lemma find_sub_append: "find_sub p (a @ p @ b) \<noteq> None"
proof
  assume "find_sub p (a @ p @ b) = None"
  then have "strip_prefix p (drop (length a) (a @ p @ b)) = None" by (rule find_sub_None)
  then show False by (simp add: strip_prefix_None_iff)
qed

lemma str_contains_iff: "str_contains s p \<longleftrightarrow> (\<exists>a b. s = a @ p @ b)"
  using find_sub_append find_sub_Some unfolding str_contains_def by (metis not_Some_eq)

text \<open>
  The scalar values with the Unicode property \<open>White_Space\<close>, encoded: what \<open>str::trim\<close> and
  \<open>split_whitespace\<close> remove. No encoding is a prefix or a suffix of another one.
\<close>

definition ws_chars :: "string list" where
  "ws_chars = [[CHR 0x20], [CHR 0x09], [CHR 0x0A], [CHR 0x0B], [CHR 0x0C], [CHR 0x0D],
     [CHR 0xC2, CHR 0x85], [CHR 0xC2, CHR 0xA0], [CHR 0xE1, CHR 0x9A, CHR 0x80],
     [CHR 0xE2, CHR 0x80, CHR 0x80], [CHR 0xE2, CHR 0x80, CHR 0x81],
     [CHR 0xE2, CHR 0x80, CHR 0x82], [CHR 0xE2, CHR 0x80, CHR 0x83],
     [CHR 0xE2, CHR 0x80, CHR 0x84], [CHR 0xE2, CHR 0x80, CHR 0x85],
     [CHR 0xE2, CHR 0x80, CHR 0x86], [CHR 0xE2, CHR 0x80, CHR 0x87],
     [CHR 0xE2, CHR 0x80, CHR 0x88], [CHR 0xE2, CHR 0x80, CHR 0x89],
     [CHR 0xE2, CHR 0x80, CHR 0x8A], [CHR 0xE2, CHR 0x80, CHR 0xA8],
     [CHR 0xE2, CHR 0x80, CHR 0xA9], [CHR 0xE2, CHR 0x80, CHR 0xAF],
     [CHR 0xE2, CHR 0x81, CHR 0x9F], [CHR 0xE3, CHR 0x80, CHR 0x80]]"

fun strip_any :: "string list \<Rightarrow> string \<Rightarrow> string option" where
  "strip_any [] s = None"
| "strip_any (p # ps) s = (case strip_prefix p s of Some r \<Rightarrow> Some r | None \<Rightarrow> strip_any ps s)"

text \<open>\<open>trim_start_matches\<close>: drop patterns while one is a prefix.\<close>

function trim_pats :: "string list \<Rightarrow> string \<Rightarrow> string" where
  "trim_pats ps s = (case strip_any ps s of None \<Rightarrow> s
     | Some r \<Rightarrow> if length r < length s then trim_pats ps r else s)"
  by pat_completeness auto
termination
  by (relation "measure (\<lambda>(ps, s). length s)") auto

declare trim_pats.simps [simp del]

definition trim_start :: "string \<Rightarrow> string" where
  "trim_start s = trim_pats ws_chars s"

definition trim_end_pats :: "string list \<Rightarrow> string \<Rightarrow> string" where
  "trim_end_pats ps s = rev (trim_pats (map rev ps) (rev s))"

definition trim_end :: "string \<Rightarrow> string" where
  "trim_end s = trim_end_pats ws_chars s"

definition trim :: "string \<Rightarrow> string" where
  "trim s = trim_end (trim_start s)"

lemma strip_any_Some: "strip_any ps s = Some r \<Longrightarrow> \<exists>p \<in> set ps. s = p @ r"
  by (induction ps) (auto split: option.splits simp: strip_prefix_Some_iff)

lemma trim_pats_suffix: "\<exists>a. s = a @ trim_pats ps s"
proof (induction ps s rule: trim_pats.induct)
  case (1 ps s)
  show ?case
  proof (cases "strip_any ps s")
    case None
    then show ?thesis by (simp add: trim_pats.simps)
  next
    case (Some r)
    obtain p where p: "s = p @ r" using strip_any_Some [OF Some] by blast
    show ?thesis
    proof (cases "length r < length s")
      case True
      then obtain a where a: "r = a @ trim_pats ps r" using 1 [OF Some True] by blast
      have "s = (p @ a) @ trim_pats ps r" using p a by simp
      moreover have "trim_pats ps s = trim_pats ps r"
        using Some True by (simp add: trim_pats.simps [of ps s])
      ultimately show ?thesis by metis
    next
      case False
      with Some show ?thesis by (simp add: trim_pats.simps [of ps s])
    qed
  qed
qed

lemma length_trim_pats: "length (trim_pats ps s) \<le> length s"
  using trim_pats_suffix [of s ps] by (metis length_append le_add2)

lemma trim_end_pats_prefix: "\<exists>b. s = trim_end_pats ps s @ b"
  using trim_pats_suffix [of "rev s" "map rev ps"]
  by (metis rev_append rev_rev_ident trim_end_pats_def)

lemma trim_infix: "\<exists>a b. s = a @ trim s @ b"
  using trim_pats_suffix [of s ws_chars] trim_end_pats_prefix [of "trim_start s" ws_chars]
  by (metis trim_def trim_end_def trim_start_def)

lemma trim_Nil [simp]: "trim [] = []"
  using trim_infix [of "[]"] by auto

lemma strip_any_None:
  assumes "s \<noteq> []" and "\<And>p. p \<in> set ps \<Longrightarrow> p \<noteq> [] \<and> hd p \<noteq> hd s"
  shows "strip_any ps s = None"
proof (rule ccontr)
  assume "strip_any ps s \<noteq> None"
  then obtain p r where "p \<in> set ps" "s = p @ r" using strip_any_Some by blast
  then show False using assms by (metis hd_append2)
qed

lemma trim_pats_Nil_last:
  assumes "trim_pats ps s = []" and "s \<noteq> []"
  shows "\<exists>p \<in> set ps. p \<noteq> [] \<and> last s = last p"
  using assms
proof (induction ps s rule: trim_pats.induct)
  case (1 ps s)
  then obtain r where r: "strip_any ps s = Some r" "length r < length s"
    by (auto simp: trim_pats.simps [of ps s] split: option.splits if_splits)
  obtain p where p: "p \<in> set ps" "s = p @ r" using strip_any_Some [OF r(1)] by blast
  show ?case
  proof (cases "r = []")
    case True
    then show ?thesis using p 1(3) by auto
  next
    case False
    have "trim_pats ps r = []" using 1(2) r by (simp add: trim_pats.simps [of ps s])
    then show ?thesis using 1(1) [OF r _ False] p False by simp
  qed
qed

lemma trim_not_blank:
  assumes "s \<noteq> []" and "last s \<notin> last ` set ws_chars"
  shows "trim s \<noteq> []"
proof
  assume blank: "trim s = []"
  have ne: "trim_start s \<noteq> []"
    using trim_pats_Nil_last [of ws_chars s] assms unfolding trim_start_def by blast
  obtain a where a: "s = a @ trim_start s"
    using trim_pats_suffix [of s ws_chars] unfolding trim_start_def by blast
  have last: "hd (rev (trim_start s)) = last s" using a ne by (metis hd_rev last_append)
  have "strip_any (map rev ws_chars) (rev (trim_start s)) = None"
  proof (rule strip_any_None)
    fix p assume "p \<in> set (map rev ws_chars)"
    then obtain q where q: "q \<in> set ws_chars" "p = rev q" by auto
    moreover have "q \<noteq> []" using q(1) by (auto simp: ws_chars_def)
    ultimately show "p \<noteq> [] \<and> hd p \<noteq> hd (rev (trim_start s))"
      using assms(2) last by (metis hd_rev image_eqI rev_is_Nil_conv)
  qed (use ne in simp)
  then show False
    using blank ne by (simp add: trim_def trim_end_def trim_end_pats_def trim_pats.simps)
qed

lemma find_SomeD: "find P xs = Some x \<Longrightarrow> x \<in> set xs \<and> P x"
  by (induction xs) (auto split: if_splits)

lemma set_map_filter: "y \<in> set (List.map_filter f xs) \<longleftrightarrow> (\<exists>x \<in> set xs. f x = Some y)"
  by (induction xs) (auto split: option.splits)

lemma map_filter_append: "List.map_filter f (xs @ ys) = List.map_filter f xs @ List.map_filter f ys"
  by (simp add: List.map_filter_def)

lemma length_map_filter:
  "(\<And>d. d \<in> set ds \<Longrightarrow> f d \<noteq> None) \<Longrightarrow> length (List.map_filter f ds) = length ds"
  by (induction ds) (auto split: option.splits)

section \<open>Assembling text\<close>

text \<open>\<open>s.split(c)\<close>, and \<open>s.lines()\<close>: the pieces between newlines, a carriage return at their end dropped,
  no empty last one.\<close>

fun split_on :: "char \<Rightarrow> string \<Rightarrow> string list" where
  "split_on c [] = [[]]"
| "split_on c (x # xs) =
     (if x = c then [] # split_on c xs
      else (case split_on c xs of p # ps \<Rightarrow> (x # p) # ps | [] \<Rightarrow> [[x]]))"

lemma split_on_append:
  "c \<notin> set xs \<Longrightarrow> split_on c (xs @ c # ys) = xs # split_on c ys"
  by (induction xs) auto

lemma split_on_single: "c \<notin> set xs \<Longrightarrow> split_on c xs = [xs]"
  by (induction xs) auto

definition strip_cr :: "string \<Rightarrow> string" where
  "strip_cr l = (if l \<noteq> [] \<and> last l = CHR 0x0D then butlast l else l)"

definition text_lines :: "string \<Rightarrow> string list" where
  "text_lines s = (let ps = split_on (CHR 0x0A) s in
     map strip_cr (butlast ps) @ (if last ps = [] then [] else [last ps]))"

fun join :: "string \<Rightarrow> string list \<Rightarrow> string" where
  "join sep [] = []"
| "join sep [x] = x"
| "join sep (x # y # zs) = x @ sep @ join sep (y # zs)"

fun digit_char :: "nat \<Rightarrow> char" where
  "digit_char n = char_of (48 + n)"

text \<open>Decimal display of an unsigned integer.\<close>

fun nat_to_string :: "nat \<Rightarrow> string" where
  "nat_to_string n = (if n < 10 then [digit_char n] else nat_to_string (n div 10) @ [digit_char (n mod 10)])"

declare nat_to_string.simps [simp del]

fun digits_value :: "string \<Rightarrow> nat \<Rightarrow> nat" where
  "digits_value [] a = a"
| "digits_value (c # cs) a = digits_value cs (10 * a + (of_char c - 48))"

lemma digits_value_append: "digits_value (s @ t) a = digits_value t (digits_value s a)"
  by (induction s a rule: digits_value.induct) auto

lemma digit_char_value: "n < 10 \<Longrightarrow> of_char (digit_char n) - 48 = n"
  by (simp add: of_char_of)

lemma digits_value_nat_to_string: "digits_value (nat_to_string n) 0 = n"
proof (induction n rule: nat_to_string.induct)
  case (1 n)
  show ?case
  proof (cases "n < 10")
    case True
    then show ?thesis using digit_char_value [of n] by (simp add: nat_to_string.simps [of n])
  next
    case False
    then show ?thesis
      using 1 digit_char_value [of "n mod 10"]
      by (simp add: nat_to_string.simps [of n] digits_value_append)
  qed
qed

lemma inj_nat_to_string: "inj nat_to_string"
  by (metis digits_value_nat_to_string injI)

section \<open>Sorting\<close>

lemma sort_key_map: "sort_key f (map g xs) = map g (sort_key (\<lambda>x. f (g x)) xs)"
proof -
  have "insort_key f (g x) (map g ys) = map g (insort_key (\<lambda>x. f (g x)) x ys)" for x ys
    by (induction ys) auto
  then show ?thesis by (induction xs) simp_all
qed

section \<open>Keyed lists\<close>

text \<open>
  A \<open>Vec\<close> of structs that the code searches by id (\<open>iter().find\<close>) and edits in place
  (\<open>iter_mut().find\<close>): both touch the first element that carries the id.
\<close>

definition find_key :: "('a \<Rightarrow> 'k) \<Rightarrow> 'k \<Rightarrow> 'a list \<Rightarrow> 'a option" where
  "find_key key k xs = find (\<lambda>x. key x = k) xs"

fun modify_key :: "('a \<Rightarrow> 'k) \<Rightarrow> 'k \<Rightarrow> ('a \<Rightarrow> 'a) \<Rightarrow> 'a list \<Rightarrow> 'a list" where
  "modify_key key k f [] = []"
| "modify_key key k f (x # xs) = (if key x = k then f x # xs else x # modify_key key k f xs)"

lemma find_key_Nil [simp]: "find_key key k [] = None"
  by (simp add: find_key_def)

lemma find_key_Cons [simp]:
  "find_key key k (x # xs) = (if key x = k then Some x else find_key key k xs)"
  by (simp add: find_key_def)

lemma find_key_append:
  "find_key key k (xs @ ys) = (case find_key key k xs of Some x \<Rightarrow> Some x | None \<Rightarrow> find_key key k ys)"
  by (induction xs) auto

lemma find_key_Some: "find_key key k xs = Some x \<Longrightarrow> key x = k \<and> x \<in> set xs"
  by (induction xs) (auto split: if_splits)

lemma find_key_None_iff: "find_key key k xs = None \<longleftrightarrow> k \<notin> key ` set xs"
  by (induction xs) auto

lemma find_key_distinct:
  "distinct (map key xs) \<Longrightarrow> x \<in> set xs \<longleftrightarrow> find_key key (key x) xs = Some x"
proof (induction xs)
  case (Cons y ys)
  then show ?case by (auto simp: image_iff dest: find_key_Some)
qed simp

lemma find_key_modify:
  assumes "\<And>x. key (f x) = key x"
  shows "find_key key i (modify_key key k f xs) =
    (if i = k then map_option f (find_key key i xs) else find_key key i xs)"
  using assms by (induction xs) auto

lemma map_key_modify:
  assumes "\<And>x. key (f x) = key x"
  shows "map key (modify_key key k f xs) = map key xs"
  using assms by (induction xs) auto

lemma set_modify_key_subset: "set (modify_key key k f xs) \<subseteq> set xs \<union> f ` set xs"
  by (induction xs) auto

lemma modify_key_map:
  assumes "distinct (map key xs)"
  shows "modify_key key k f xs = map (\<lambda>x. if key x = k then f x else x) xs"
  using assms by (induction xs) (auto simp: image_iff intro!: map_idI [symmetric])

text \<open>
  The interface the graph and the plan operations rely on: a store that is searched by id,
  extended at the end and edited by id.
\<close>

locale keyed_store =
  fixes get :: "'s \<Rightarrow> string \<Rightarrow> 'v option"
    and push :: "'s \<Rightarrow> 'v \<Rightarrow> 's"
    and modify :: "'s \<Rightarrow> string \<Rightarrow> ('v \<Rightarrow> 'v) \<Rightarrow> 's"
    and key :: "'v \<Rightarrow> string"
    and elems :: "'s \<Rightarrow> 'v list"
  assumes get_key: "get s i = Some v \<Longrightarrow> key v = i"
    and get_None: "get s i = None \<longleftrightarrow> i \<notin> key ` set (elems s)"
    and get_elems: "distinct (map key (elems s)) \<Longrightarrow> v \<in> set (elems s) \<longleftrightarrow> get s (key v) = Some v"
    and get_push: "get (push s v) i =
      (case get s i of Some w \<Rightarrow> Some w | None \<Rightarrow> if key v = i then Some v else None)"
    and elems_push: "elems (push s v) = elems s @ [v]"
    and get_modify: "(\<And>w. key (f w) = key w) \<Longrightarrow>
      get (modify s k f) i = (if i = k then map_option f (get s i) else get s i)"
    and keys_modify: "(\<And>w. key (f w) = key w) \<Longrightarrow>
      map key (elems (modify s k f)) = map key (elems s)"
begin

lemma get_push_fresh: "get s (key v) = None \<Longrightarrow> get (push s v) (key v) = Some v"
  by (simp add: get_push)

lemma get_push_kept: "get s i = Some w \<Longrightarrow> get (push s v) i = Some w"
  by (simp add: get_push)

lemma get_push_cases:
  assumes "get (push s v) i = Some w"
  shows "get s i = Some w \<or> (get s i = None \<and> w = v \<and> key v = i)"
  using assms by (auto simp: get_push split: option.splits if_splits)

lemma get_pushes:
  "get (foldl push s vs) i = (case get s i of Some w \<Rightarrow> Some w | None \<Rightarrow> find_key key i vs)"
proof (induction vs arbitrary: s)
  case (Cons v vs)
  then show ?case by (auto simp: get_push split: option.splits)
qed (simp split: option.splits)

lemma elems_pushes: "elems (foldl push s vs) = elems s @ vs"
  by (induction vs arbitrary: s) (simp_all add: elems_push)

lemma get_Some_elems: "get s i = Some v \<Longrightarrow> v \<in> set (elems s)" if "distinct (map key (elems s))"
  using that get_elems get_key by metis

end

section \<open>Stable sorts with a canonical order\<close>

text \<open>
  \<open>sort_by_key\<close> is stable, so its result depends on the input order in general. Where the key
  decides the identity of an element and identities are distinct, it does not.
\<close>

locale canonical_order =
  fixes key :: "'a \<Rightarrow> 'k::linorder"
    and ident :: "'a \<Rightarrow> 'i"
  assumes key_ident: "key x = key y \<Longrightarrow> ident x = ident y"
begin

lemma inj_on_key: "distinct (map ident xs) \<Longrightarrow> inj_on key (set xs)"
  by (auto simp: inj_on_def distinct_map dest: key_ident)

lemma sort_canonical:
  assumes "mset xs = mset ys" and "distinct (map ident xs)"
  shows "sort_key key xs = sort_key key ys"
proof (rule sort_key_inj_key_eq)
  show "mset xs = mset (sort_key key ys)" using assms(1) by simp
  show "inj_on key (set xs)" using assms(2) by (rule inj_on_key)
  show "sorted (map key (sort_key key ys))" by simp
qed

lemma sorted_sort: "sorted (map key (sort_key key xs))"
  by simp

end

section \<open>Reachable states\<close>

locale invariant_system =
  fixes step :: "'s \<Rightarrow> 's \<Rightarrow> bool"
    and inv :: "'s \<Rightarrow> bool"
  assumes step_inv: "step s t \<Longrightarrow> inv s \<Longrightarrow> inv t"
begin

lemma steps_inv: "step\<^sup>*\<^sup>* s t \<Longrightarrow> inv s \<Longrightarrow> inv t"
  by (induction rule: rtranclp_induct) (auto intro: step_inv)

end

section \<open>Results\<close>

text \<open>A Rust \<open>Result\<close> is a sum with the error on the left; \<open>?\<close> propagates it.\<close>

definition and_then :: "'e + 'a \<Rightarrow> ('a \<Rightarrow> 'e + 'b) \<Rightarrow> 'e + 'b" where
  "and_then r f = (case r of Inl e \<Rightarrow> Inl e | Inr a \<Rightarrow> f a)"

lemma and_then_simps [simp]: "and_then (Inl e) f = Inl e" "and_then (Inr a) f = f a"
  by (simp_all add: and_then_def)

lemma and_then_Inr: "and_then r f = Inr b \<longleftrightarrow> (\<exists>a. r = Inr a \<and> f a = Inr b)"
  by (cases r) auto

text \<open>The first error of a validation loop, in iteration order.\<close>

text \<open>
  Calls that may fail after they have changed the state: \<open>run_tx\<close> runs a transaction, whose error rolls it back,
  \<open>run_read\<close> a call that only reads, and \<open>and_do\<close> goes on when the call before it succeeded.
\<close>

definition run_tx :: "('s \<Rightarrow> 'e + ('a \<times> 's)) \<Rightarrow> 's \<Rightarrow> ('e + 'a) \<times> 's" where
  "run_tx f s = (case f s of Inl e \<Rightarrow> (Inl e, s) | Inr (a, s') \<Rightarrow> (Inr a, s'))"

definition run_read :: "('s \<Rightarrow> 'e + 'a) \<Rightarrow> 's \<Rightarrow> ('e + 'a) \<times> 's" where
  "run_read f s = (f s, s)"

definition and_do :: "('e + 'a) \<times> 's \<Rightarrow> ('a \<Rightarrow> 's \<Rightarrow> ('e + 'b) \<times> 's) \<Rightarrow> ('e + 'b) \<times> 's" where
  "and_do r f = (case r of (Inl e, s) \<Rightarrow> (Inl e, s) | (Inr a, s) \<Rightarrow> f a s)"

lemma and_do_simps [simp]: "and_do (Inl e, s) f = (Inl e, s)" "and_do (Inr a, s) f = f a s"
  by (simp_all add: and_do_def)

lemma and_do_Inr: "and_do r f = (Inr b, s'') \<longleftrightarrow> (\<exists>a s'. r = (Inr a, s') \<and> f a s' = (Inr b, s''))"
  by (auto simp: and_do_def split: prod.splits sum.splits)

lemma and_do_read: "and_do (run_read f s) k = (case f s of Inl e \<Rightarrow> (Inl e, s) | Inr a \<Rightarrow> k a s)"
  by (simp add: run_read_def and_do_def split: sum.splits)

fun check_all :: "('a \<Rightarrow> 'e option) \<Rightarrow> 'a list \<Rightarrow> 'e + unit" where
  "check_all f [] = Inr ()"
| "check_all f (x # xs) = (case f x of Some e \<Rightarrow> Inl e | None \<Rightarrow> check_all f xs)"

lemma check_all_ok [simp]: "check_all f xs = Inr u \<longleftrightarrow> (\<forall>x \<in> set xs. f x = None)"
  by (induction xs) (auto split: option.splits)

end
