(* ===== verification/Kahn.thy ===== *)
theory Kahn
  imports Prelude
begin

text \<open>
  The worklist of Kahn's algorithm, which the repository has twice: over the nodes of a task graph
  (\<open>TaskGraph::cycle_nodes\<close>) and over the items of a plan (\<open>cycle_item_ids\<close>). Both keep a map of
  in-degrees, a stack of ids whose degree reached zero and the set of visited ids; they differ in
  how the degrees are counted and in how the dependents of a popped id are found, which are the
  parameters here. The hash map of degrees is an association list, the \<open>Vec\<close> used as a stack is a
  list with its top first.
\<close>

section \<open>The loop\<close>

text \<open>
  The inner loop: every dependent of the popped id loses one in-degree (saturating), and is pushed
  when that leaves none.
\<close>

fun relax :: "string list \<Rightarrow> (string \<times> nat) list \<Rightarrow> string list \<Rightarrow> (string \<times> nat) list \<times> string list" where
  "relax [] deg queue = (deg, queue)"
| "relax (child # children) deg queue = (case map_of deg child of
     None \<Rightarrow> relax children deg queue
   | Some d \<Rightarrow> relax children (AList.update child (d - 1) deg)
       (if d - 1 = 0 then child # queue else queue))"

lemma relax_keys: "fst ` set (fst (relax cs deg queue)) = fst ` set deg"
proof (induction cs deg queue rule: relax.induct)
  case (2 c cs deg queue)
  show ?case
  proof (cases "map_of deg c")
    case (Some d)
    then have "c \<in> fst ` set deg" by (metis map_of_eq_None_iff option.distinct(1))
    with 2 Some show ?thesis by (auto simp: dom_update)
  qed (use 2 in simp)
qed simp

lemma relax_queue: "set (snd (relax cs deg queue)) \<subseteq> set queue \<union> fst ` set deg"
proof (induction cs deg queue rule: relax.induct)
  case (2 c cs deg queue)
  show ?case
  proof (cases "map_of deg c")
    case (Some d)
    then have "c \<in> fst ` set deg" by (metis map_of_eq_None_iff option.distinct(1))
    with 2(2) [OF Some] Some show ?thesis by (auto simp: dom_update split: if_splits)
  qed (use 2 in simp)
qed simp

function kahn_loop :: "(string \<Rightarrow> string list) \<Rightarrow> string list \<Rightarrow> string list \<Rightarrow> (string \<times> nat) list
    \<Rightarrow> string list \<times> (string \<times> nat) list" where
  "kahn_loop children [] visited deg = (visited, deg)"
| "kahn_loop children (i # queue) visited deg =
     (if i \<in> set visited then kahn_loop children queue visited deg
      else kahn_loop children (snd (relax (children i) deg queue)) (i # visited)
             (fst (relax (children i) deg queue)))"
  by pat_completeness auto

text \<open>
  Termination: a popped id is either skipped, which shortens the stack, or newly visited, which
  shrinks the finite set of ids that are known to the degree map or the stack and not yet visited.
\<close>

termination
proof (relation "inv_image (finite_psubset <*lex*> less_than)
    (\<lambda>(children, queue, visited, deg). ((fst ` set deg \<union> set queue) - set visited, length queue))")
  fix children :: "string \<Rightarrow> string list" and i :: string and queue visited :: "string list" and deg :: "(string \<times> nat) list"
  assume "i \<in> set visited"
  then show "((children, queue, visited, deg), children, i # queue, visited, deg)
    \<in> inv_image (finite_psubset <*lex*> less_than) (\<lambda>(children, queue, visited, deg).
        ((fst ` set deg \<union> set queue) - set visited, length queue))"
    by (auto simp: finite_psubset_def)
next
  fix children :: "string \<Rightarrow> string list" and i :: string and queue visited :: "string list" and deg :: "(string \<times> nat) list"
  assume "i \<notin> set visited"
  then show "((children, snd (relax (children i) deg queue), i # visited, fst (relax (children i) deg queue)),
      children, i # queue, visited, deg)
    \<in> inv_image (finite_psubset <*lex*> less_than) (\<lambda>(children, queue, visited, deg).
        ((fst ` set deg \<union> set queue) - set visited, length queue))"
    using relax_keys [of "children i" deg queue] relax_queue [of "children i" deg queue]
    by (auto simp: finite_psubset_def)
qed auto

section \<open>What one relaxation does\<close>

lemma relax_map:
  "map_of deg n = Some d \<Longrightarrow> map_of (fst (relax cs deg queue)) n = Some (d - count_list cs n)"
proof (induction cs arbitrary: deg queue d)
  case (Cons c cs)
  show ?case
  proof (cases "c = n")
    case True
    have "map_of (AList.update c (d - 1) deg) n = Some (d - 1)"
      using True by (simp add: update_conv)
    from Cons.IH [OF this] Cons.prems True show ?thesis by simp
  next
    case False
    then have up: "map_of (AList.update c e deg) n = Some d" for e
      using Cons.prems by (simp add: update_conv)
    show ?thesis
      using Cons.IH [OF Cons.prems] Cons.IH [OF up] False by (simp split: option.split)
  qed
qed simp

lemma relax_queue_kept: "n \<in> set queue \<Longrightarrow> n \<in> set (snd (relax cs deg queue))"
  by (induction cs deg queue rule: relax.induct) (auto split: option.splits)

lemma relax_pushed:
  "map_of deg n = Some d \<Longrightarrow> n \<in> set cs \<Longrightarrow> d \<le> count_list cs n \<Longrightarrow>
   n \<in> set (snd (relax cs deg queue))"
proof (induction cs arbitrary: deg queue d)
  case (Cons c cs)
  show ?case
  proof (cases "c = n")
    case False
    then have up: "map_of (AList.update c e deg) n = Some d" for e
      using Cons.prems(1) by (simp add: update_conv)
    have "n \<in> set cs" "d \<le> count_list cs n" using Cons.prems(2,3) False by auto
    then show ?thesis
      using Cons.IH [OF Cons.prems(1)] Cons.IH [OF up] by (simp split: option.split)
  next
    case True
    have up: "map_of (AList.update c (d - 1) deg) n = Some (d - 1)"
      using True by (simp add: update_conv)
    show ?thesis
    proof (cases "d - 1 = 0")
      case d1: True
      then show ?thesis using Cons.prems(1) True by (simp add: relax_queue_kept)
    next
      case False
      then have "count_list cs n \<noteq> 0" using Cons.prems(3) True by simp
      then have "n \<in> set cs" by (metis count_notin)
      moreover have "d - 1 \<le> count_list cs n" using Cons.prems(3) True by simp
      ultimately show ?thesis using Cons.IH [OF up] Cons.prems(1) True False by simp
    qed
  qed
qed simp

lemma relax_queue_cases:
  "n \<in> set (snd (relax cs deg queue)) \<Longrightarrow> n \<in> set queue \<or>
     (n \<in> set cs \<and> (\<exists>d. map_of deg n = Some d \<and> d \<le> count_list cs n))"
proof (induction cs deg queue rule: relax.induct)
  case (2 c cs deg queue)
  show ?case
  proof (cases "map_of deg c")
    case None
    with 2 show ?thesis by auto
  next
    case (Some e)
    let ?q = "if e - 1 = 0 then c # queue else queue"
    let ?d = "AList.update c (e - 1) deg"
    have "n \<in> set (snd (relax cs ?d ?q))" using 2(3) Some by simp
    from 2(2) [OF Some this] show ?thesis
    proof
      assume "n \<in> set ?q"
      then show ?thesis using Some by (auto split: if_splits)
    next
      assume "n \<in> set cs \<and> (\<exists>d. map_of ?d n = Some d \<and> d \<le> count_list cs n)"
      then show ?thesis using Some by (cases "c = n") (auto simp: update_conv)
    qed
  qed
qed simp

section \<open>Counting in-degrees\<close>

text \<open>\<open>*map.entry(k).or_insert(0) += w\<close>, which with \<open>w = 0\<close> only makes sure the key is there.\<close>

definition degree_entry :: "(string \<times> nat) list \<Rightarrow> string \<Rightarrow> nat \<Rightarrow> (string \<times> nat) list" where
  "degree_entry m k w = AList.update k ((case map_of m k of None \<Rightarrow> 0 | Some d \<Rightarrow> d) + w) m"

lemma degree_entry_keys: "fst ` set (degree_entry m k w) = insert k (fst ` set m)"
  by (simp add: degree_entry_def dom_update)

lemma degree_entry_distinct: "distinct (map fst m) \<Longrightarrow> distinct (map fst (degree_entry m k w))"
  by (simp add: degree_entry_def distinct_update)

lemma degree_entries_keys:
  "fst ` set (foldl (\<lambda>m x. degree_entry m (k x) (w x)) m xs) = fst ` set m \<union> k ` set xs"
  by (induction xs arbitrary: m) (auto simp: degree_entry_keys)

lemma degree_entries_distinct:
  "distinct (map fst m) \<Longrightarrow> distinct (map fst (foldl (\<lambda>m x. degree_entry m (k x) (w x)) m xs))"
  by (induction xs arbitrary: m) (auto simp: degree_entry_distinct)

lemma degree_entries_value:
  "map_of m n = Some d \<Longrightarrow> map_of (foldl (\<lambda>m x. degree_entry m (k x) (w x)) m xs) n =
     Some (d + sum_list (map w (filter (\<lambda>x. k x = n) xs)))"
proof (induction xs arbitrary: m d)
  case (Cons x xs)
  show ?case
  proof (cases "k x = n")
    case True
    then have "map_of (degree_entry m (k x) (w x)) n = Some (d + w x)"
      using Cons.prems by (simp add: degree_entry_def update_conv)
    from Cons.IH [OF this] True show ?thesis by simp
  next
    case False
    then have "map_of (degree_entry m (k x) (w x)) n = Some d"
      using Cons.prems by (simp add: degree_entry_def update_conv)
    from Cons.IH [OF this] False show ?thesis by simp
  qed
qed simp

lemma degree_entries_zero_aux:
  "(\<And>u v. map_of m u = Some v \<Longrightarrow> v = 0) \<Longrightarrow>
   map_of (foldl (\<lambda>m x. degree_entry m (k x) 0) m xs) u = Some v \<Longrightarrow> v = 0"
proof (induction xs arbitrary: m)
  case (Cons x xs)
  have "v = 0" if "map_of (degree_entry m (k x) 0) u = Some v" for u v
    using that Cons.prems(1)
    by (auto simp: degree_entry_def update_conv split: if_splits option.splits)
  from Cons.IH [OF this] Cons.prems(2) show ?case by simp
qed simp

lemma degree_entries_zero:
  assumes "n \<in> k ` set xs"
  shows "map_of (foldl (\<lambda>m x. degree_entry m (k x) 0) [] xs) n = Some 0"
proof -
  have "n \<in> fst ` set (foldl (\<lambda>m x. degree_entry m (k x) 0) [] xs)"
    using assms by (simp add: degree_entries_keys)
  then obtain v where "map_of (foldl (\<lambda>m x. degree_entry m (k x) 0) [] xs) n = Some v"
    by (metis map_of_eq_None_iff option.exhaust)
  with degree_entries_zero_aux [OF _ this] show ?thesis by auto
qed

text \<open>The ids that start on the stack: those without an in-degree.\<close>

definition zero_degree :: "(string \<times> nat) list \<Rightarrow> string list" where
  "zero_degree deg = map fst (filter (\<lambda>(k, d). d = 0) deg)"

lemma set_zero_degree:
  assumes "distinct (map fst deg)"
  shows "set (zero_degree deg) = {n \<in> fst ` set deg. map_of deg n = Some 0}"
  using assms by (force simp: zero_degree_def dest: map_of_SomeD intro: map_of_is_SomeI)

lemma sum_count_edges:
  assumes "finite K"
  shows "(\<Sum>d \<in> K. count_list (map k (filter (\<lambda>x. d \<in> set (deps x)) xs)) n) =
    sum_list (map (\<lambda>x. card (set (deps x) \<inter> K)) (filter (\<lambda>x. k x = n) xs))"
proof (induction xs)
  case (Cons x xs)
  have "(\<Sum>d \<in> K. if d \<in> set (deps x) then 1 else 0 :: nat) = card (set (deps x) \<inter> K)"
    using assms by (simp add: sum.If_cases Int_commute)
  moreover have "(\<Sum>d \<in> K. count_list (map k (filter (\<lambda>x. d \<in> set (deps x)) (x # xs))) n) =
    (\<Sum>d \<in> K. (if k x = n then (if d \<in> set (deps x) then 1 else 0) else 0) +
        count_list (map k (filter (\<lambda>x. d \<in> set (deps x)) xs)) n)"
    by (rule sum.cong) auto
  ultimately show ?case using Cons.IH by (simp add: sum.distrib)
qed simp

section \<open>A cycle check, as its clients see it\<close>

text \<open>
  What the mutations and the status summary rely on: the check names exactly the ids that no
  topological order can place. Edges point from a dependency to its dependent.
\<close>

locale cycle_check =
  fixes ids :: "'g \<Rightarrow> string list"
    and edges :: "'g \<Rightarrow> (string \<times> string) set"
    and detect :: "'g \<Rightarrow> string list"
  assumes edges_ids: "edges g \<subseteq> set (ids g) \<times> set (ids g)"
    and detect_set: "set (detect g) = set (ids g) - Wellfounded.acc (edges g)"
begin

lemma finite_edges: "finite (edges g)"
  using edges_ids by (rule finite_subset) simp

lemma detect_Nil_iff: "detect g = [] \<longleftrightarrow> acyclic (edges g)"
proof
  assume "detect g = []"
  then have "set (ids g) \<subseteq> Wellfounded.acc (edges g)" using detect_set [of g] by auto
  then have "x \<in> Wellfounded.acc (edges g)" for x
    using edges_ids [of g] by (cases "x \<in> set (ids g)") (auto intro: accI)
  then have "wf (edges g)" by (simp add: wf_iff_acc)
  then show "acyclic (edges g)" by (rule wf_acyclic)
next
  assume "acyclic (edges g)"
  then have "wf (edges g)" by (rule finite_acyclic_wf [OF finite_edges])
  then have "Wellfounded.acc (edges g) = UNIV" by (auto simp: wf_iff_acc)
  then have "set (detect g) = {}" using detect_set [of g] by simp
  then show "detect g = []" by simp
qed

lemma acc_ancestors:
  assumes "\<And>j. (j, i) \<in> (edges g)\<^sup>* \<Longrightarrow> (j, j) \<notin> (edges g)\<^sup>+"
  shows "i \<in> Wellfounded.acc (edges g)"
proof -
  define A where "A = {j. (j, i) \<in> (edges g)\<^sup>*}"
  define R where "R = edges g \<inter> A \<times> A"
  have "acyclic R"
  proof (rule acyclicI, intro allI notI)
    fix x assume x: "(x, x) \<in> R\<^sup>+"
    then have "x \<in> A" unfolding R_def by (metis IntE SigmaE2 converse_tranclE)
    moreover have "(x, x) \<in> (edges g)\<^sup>+" using x unfolding R_def by (rule trancl_mono) simp
    ultimately show False using assms by (auto simp: A_def)
  qed
  moreover have "finite R" unfolding R_def using finite_edges by blast
  ultimately have "wf R" by (simp add: finite_acyclic_wf)
  then have "x \<in> A \<longrightarrow> x \<in> Wellfounded.acc (edges g)" for x
  proof (induction x rule: wf_induct_rule)
    case (less x)
    show ?case
    proof
      assume x: "x \<in> A"
      show "x \<in> Wellfounded.acc (edges g)"
      proof (rule accI)
        fix y assume y: "(y, x) \<in> edges g"
        with x have "y \<in> A" by (auto simp: A_def)
        with less x y show "y \<in> Wellfounded.acc (edges g)" by (auto simp: R_def)
      qed
    qed
  qed
  then show ?thesis by (simp add: A_def)
qed

lemma acc_no_cycle: "(j, i) \<in> (edges g)\<^sup>* \<Longrightarrow> (j, j) \<in> (edges g)\<^sup>+ \<Longrightarrow> i \<notin> Wellfounded.acc (edges g)"
proof
  assume ji: "(j, i) \<in> (edges g)\<^sup>*" and jj: "(j, j) \<in> (edges g)\<^sup>+" and i: "i \<in> Wellfounded.acc (edges g)"
  have "j \<in> Wellfounded.acc (edges g)" using acc_downwards [OF i ji] .
  then show False using jj
  proof (induction j rule: acc_induct_rule)
    case (1 x)
    obtain y where y: "(y, x) \<in> edges g" "(x, y) \<in> (edges g)\<^sup>*"
      using tranclD2 [OF "1.prems"] by blast
    then have "(y, y) \<in> (edges g)\<^sup>+" by (metis rtrancl_into_trancl2)
    with "1.IH" [OF y(1)] show False .
  qed
qed

lemma detect_iff:
  "i \<in> set (detect g) \<longleftrightarrow>
   i \<in> set (ids g) \<and> (\<exists>j. (j, i) \<in> (edges g)\<^sup>* \<and> (j, j) \<in> (edges g)\<^sup>+)"
  using acc_ancestors [of i g] acc_no_cycle [of _ i g] detect_set [of g] by blast

end

section \<open>The worklist computes it\<close>

locale kahn_source =
  fixes ids :: "'g \<Rightarrow> string list"
    and children :: "'g \<Rightarrow> string \<Rightarrow> string list"
    and indegree :: "'g \<Rightarrow> (string \<times> nat) list"
  assumes indegree_keys: "fst ` set (indegree g) = set (ids g)"
    and indegree_count: "n \<in> set (ids g) \<Longrightarrow>
      map_of (indegree g) n = Some (\<Sum>d \<in> set (ids g). count_list (children g d) n)"
    and children_ids: "set (children g d) \<subseteq> set (ids g)"
begin

definition dep_edges :: "'g \<Rightarrow> (string \<times> string) set" where
  "dep_edges g = {(d, n). d \<in> set (ids g) \<and> n \<in> set (children g d)}"

definition loop_inv :: "'g \<Rightarrow> string list \<Rightarrow> string list \<Rightarrow> (string \<times> nat) list \<Rightarrow> bool" where
  "loop_inv g queue visited deg \<longleftrightarrow>
     set queue \<subseteq> set (ids g) \<and> set visited \<subseteq> set (ids g) \<and>
     (\<forall>n \<in> set (ids g). map_of deg n =
        Some (\<Sum>d \<in> set (ids g) - set visited. count_list (children g d) n)) \<and>
     (\<forall>n \<in> set (ids g). map_of deg n = Some 0 \<longrightarrow> n \<in> set visited \<union> set queue) \<and>
     (\<forall>n \<in> set queue. map_of deg n = Some 0) \<and>
     set visited \<subseteq> Wellfounded.acc (dep_edges g)"

lemma degree_zero:
  "(\<Sum>d \<in> set (ids g) - V. count_list (children g d) n) = 0 \<longleftrightarrow>
   (\<forall>d. (d, n) \<in> dep_edges g \<longrightarrow> d \<in> V)"
  by (auto simp: dep_edges_def count_list_0_iff)

lemma loop_inv_relax:
  assumes inv: "loop_inv g (i # queue) visited deg" and i: "i \<notin> set visited"
  shows "loop_inv g (snd (relax (children g i) deg queue)) (i # visited)
           (fst (relax (children g i) deg queue))"
proof -
  let ?V = "set visited" and ?c = "\<lambda>n d. count_list (children g d) n"
  let ?deg = "fst (relax (children g i) deg queue)" and ?q = "snd (relax (children g i) deg queue)"
  have i_ids: "i \<in> set (ids g)" and i0: "map_of deg i = Some 0"
    using inv by (auto simp: loop_inv_def)
  have deg: "map_of deg n = Some (sum (?c n) (set (ids g) - ?V))" if "n \<in> set (ids g)" for n
    using inv that by (simp add: loop_inv_def)
  have split: "sum (?c n) (set (ids g) - ?V) = ?c n i + sum (?c n) (set (ids g) - insert i ?V)" for n
  proof -
    have "sum (?c n) (set (ids g) - ?V) = ?c n i + sum (?c n) (set (ids g) - ?V - {i})"
      using i i_ids by (simp add: sum.remove)
    also have "set (ids g) - ?V - {i} = set (ids g) - insert i ?V" by auto
    finally show ?thesis .
  qed
  have deg': "map_of ?deg n = Some (sum (?c n) (set (ids g) - insert i ?V))"
    if "n \<in> set (ids g)" for n
    using relax_map [OF deg [OF that]] split [of n] by simp
  have acc_i: "i \<in> Wellfounded.acc (dep_edges g)"
  proof (rule accI)
    fix d assume "(d, i) \<in> dep_edges g"
    moreover have "sum (?c i) (set (ids g) - ?V) = 0" using deg [OF i_ids] i0 by simp
    ultimately show "d \<in> Wellfounded.acc (dep_edges g)"
      using degree_zero [of g i ?V] inv by (auto simp: loop_inv_def)
  qed
  have queue_ids: "set ?q \<subseteq> set (ids g)"
    using inv children_ids [of g i] by (auto simp: loop_inv_def dest!: relax_queue_cases)
  have zero_queued: "n \<in> insert i ?V \<union> set ?q" if n: "n \<in> set (ids g)" and "map_of ?deg n = Some 0" for n
  proof (cases "n \<in> set (children g i)")
    case True
    have "sum (?c n) (set (ids g) - ?V) \<le> ?c n i" using that deg' [OF n] split [of n] by simp
    with True show ?thesis using relax_pushed [OF deg [OF n]] by simp
  next
    case False
    then have "?c n i = 0" by simp
    then have "map_of deg n = Some 0" using that deg' [OF n] deg [OF n] split [of n] by simp
    with n inv show ?thesis by (auto simp: loop_inv_def intro: relax_queue_kept)
  qed
  have queued_zero: "map_of ?deg n = Some 0" if n: "n \<in> set ?q" for n
  proof -
    have n_ids: "n \<in> set (ids g)" using queue_ids n by blast
    have "sum (?c n) (set (ids g) - ?V) \<le> ?c n i"
      using relax_queue_cases [OF n] inv deg [OF n_ids] by (auto simp: loop_inv_def)
    then show ?thesis using deg' [OF n_ids] split [of n] by simp
  qed
  show ?thesis
    using inv i_ids acc_i queue_ids deg' zero_queued queued_zero by (simp add: loop_inv_def)
qed

lemma kahn_loop_inv:
  assumes "loop_inv g queue visited deg"
  shows "loop_inv g [] (fst (kahn_loop (children g) queue visited deg))
           (snd (kahn_loop (children g) queue visited deg))"
  using assms
proof (induction "children g" queue visited deg rule: kahn_loop.induct)
  case (2 i queue visited deg)
  show ?case
  proof (cases "i \<in> set visited")
    case True
    then have "loop_inv g queue visited deg" using "2.prems" by (auto simp: loop_inv_def)
    with "2.hyps"(1) [OF True] True show ?thesis by simp
  next
    case False
    with "2.hyps"(2) [OF False] loop_inv_relax [OF "2.prems" False] show ?thesis by simp
  qed
qed simp

lemma loop_inv_init:
  assumes "set queue = {n \<in> set (ids g). map_of (indegree g) n = Some 0}"
  shows "loop_inv g queue [] (indegree g)"
  using assms by (auto simp: loop_inv_def indegree_count)

lemma loop_inv_final:
  assumes "loop_inv g [] visited deg"
  shows "set visited = set (ids g) \<inter> Wellfounded.acc (dep_edges g)"
proof
  show "set visited \<subseteq> set (ids g) \<inter> Wellfounded.acc (dep_edges g)" using assms by (auto simp: loop_inv_def)
  have "n \<in> set (ids g) \<longrightarrow> n \<in> set visited" if "n \<in> Wellfounded.acc (dep_edges g)" for n
    using that
  proof (induction n rule: acc_induct_rule)
    case (1 n)
    show ?case
    proof
      assume n: "n \<in> set (ids g)"
      have "(\<Sum>d \<in> set (ids g) - set visited. count_list (children g d) n) = 0"
        using "1.IH" by (auto simp: degree_zero) (auto simp: dep_edges_def)
      then have "map_of deg n = Some 0" using assms n by (simp add: loop_inv_def)
      with n assms show "n \<in> set visited" by (auto simp: loop_inv_def)
    qed
  qed
  then show "set (ids g) \<inter> Wellfounded.acc (dep_edges g) \<subseteq> set visited" by blast
qed

lemma visited_eq:
  assumes "set queue = {n \<in> set (ids g). map_of (indegree g) n = Some 0}"
  shows "set (fst (kahn_loop (children g) queue [] (indegree g))) = set (ids g) \<inter> Wellfounded.acc (dep_edges g)"
  by (rule loop_inv_final [OF kahn_loop_inv [OF loop_inv_init [OF assms]]])

lemma degree_pos_iff:
  assumes q: "set queue = {n \<in> set (ids g). map_of (indegree g) n = Some 0}"
    and n: "n \<in> set (ids g)"
    and v: "n \<notin> set (fst (kahn_loop (children g) queue [] (indegree g)))"
  shows "\<exists>d > 0. map_of (snd (kahn_loop (children g) queue [] (indegree g))) n = Some d"
proof -
  obtain visited deg where r: "kahn_loop (children g) queue [] (indegree g) = (visited, deg)"
    by fastforce
  have inv: "loop_inv g [] visited deg"
    using kahn_loop_inv [OF loop_inv_init [OF q]] r by simp
  obtain d where d: "map_of deg n = Some d" using inv n by (auto simp: loop_inv_def)
  have "map_of deg n \<noteq> Some 0" using inv n v r by (auto simp: loop_inv_def)
  with d have "d \<noteq> 0" by auto
  with d r show ?thesis by auto
qed

lemma dep_edges_ids: "dep_edges g \<subseteq> set (ids g) \<times> set (ids g)"
  using children_ids by (auto simp: dep_edges_def)

end

end
