(* ===== verification/Confidence.thy ===== *)
theory Confidence
  imports Prelude Complex_Main "HOL-Library.Log_Nat"
begin

text \<open>
  The confidence rung of a handoff artifact: \<open>ConfidenceLevel\<close>, \<open>ConfidenceLevel::parse\<close> and
  \<open>extract_leading_number\<close> of \<open>crates/jcode-plan/src/dag/mod.rs\<close>, with the part of \<open>f64\<close> they
  use. A non-negative double is a rational, infinity or NaN; every operation rounds its exact
  result to 53 bits, ties to even, as IEEE 754 and Rust's \<open>str::parse\<close> do.
\<close>

section \<open>Non-negative doubles\<close>

datatype f64 = F64 rat | F64Inf | F64NaN

definition round_half_even :: "rat \<Rightarrow> int" where
  "round_half_even q = (let f = \<lfloor>q\<rfloor>; d = q - of_int f in
     if d < 1 / 2 then f else if d > 1 / 2 then f + 1 else if even f then f else f + 1)"

definition pow2 :: "int \<Rightarrow> rat" where
  "pow2 e = (if 0 \<le> e then 2 ^ nat e else 1 / 2 ^ nat (- e))"

text \<open>The exponent \<open>e\<close> with \<open>2 ^ e \<le> q < 2 ^ (e + 1)\<close>, from the bit lengths of the fraction.\<close>

definition ilog2 :: "rat \<Rightarrow> int" where
  "ilog2 q = (let (n, d) = quotient_of q; k = bitlen n - bitlen d in
     if pow2 k \<le> q then k else k - 1)"

definition f64_round :: "rat \<Rightarrow> f64" where
  "f64_round q = (if q \<le> 0 then F64 0
     else let u = pow2 (max (ilog2 q) (- 1022) - 52); v = of_int (round_half_even (q / u)) * u
          in if 1024 \<le> ilog2 v then F64Inf else F64 v)"

fun f64_mul :: "f64 \<Rightarrow> f64 \<Rightarrow> f64" where
  "f64_mul (F64 a) (F64 b) = f64_round (a * b)"
| "f64_mul F64NaN y = F64NaN"
| "f64_mul x F64NaN = F64NaN"
| "f64_mul F64Inf (F64 b) = (if b = 0 then F64NaN else F64Inf)"
| "f64_mul (F64 a) F64Inf = (if a = 0 then F64NaN else F64Inf)"
| "f64_mul F64Inf F64Inf = F64Inf"

fun f64_div :: "f64 \<Rightarrow> f64 \<Rightarrow> f64" where
  "f64_div (F64 a) (F64 b) =
     (if b = 0 then (if a = 0 then F64NaN else F64Inf) else f64_round (a / b))"
| "f64_div F64NaN y = F64NaN"
| "f64_div x F64NaN = F64NaN"
| "f64_div F64Inf (F64 b) = F64Inf"
| "f64_div (F64 a) F64Inf = F64 0"
| "f64_div F64Inf F64Inf = F64NaN"

text \<open>Comparison with a constant; a comparison with NaN is false.\<close>

fun f64_less :: "f64 \<Rightarrow> rat \<Rightarrow> bool" where
  "f64_less (F64 a) c = (a < c)"
| "f64_less F64Inf c = False"
| "f64_less F64NaN c = False"

fun f64_le :: "f64 \<Rightarrow> rat \<Rightarrow> bool" where
  "f64_le (F64 a) c = (a \<le> c)"
| "f64_le F64Inf c = False"
| "f64_le F64NaN c = False"

fun f64_greater :: "f64 \<Rightarrow> rat \<Rightarrow> bool" where
  "f64_greater (F64 a) c = (a > c)"
| "f64_greater F64Inf c = True"
| "f64_greater F64NaN c = False"

text \<open>
  \<open>str::parse::<f64>\<close> on a token of digits and dots: one dot at most, and a digit on one side of
  it at least.
\<close>

definition parse_f64 :: "string \<Rightarrow> f64 option" where
  "parse_f64 tok = (let ip = takeWhile is_ascii_digit tok; r = dropWhile is_ascii_digit tok in
     case r of
       [] \<Rightarrow> if ip = [] then None else Some (f64_round (of_nat (digits_value ip 0)))
     | c # fp \<Rightarrow>
         if c = CHR ''.'' \<and> list_all is_ascii_digit fp \<and> (ip \<noteq> [] \<or> fp \<noteq> [])
         then Some (f64_round (of_nat (digits_value (ip @ fp) 0) / 10 ^ length fp))
         else None)"

section \<open>The rung\<close>

datatype ConfidenceLevel = ConfLow | ConfMedium | ConfHigh

definition is_num_char :: "char \<Rightarrow> bool" where
  "is_num_char c \<longleftrightarrow> is_ascii_digit c \<or> c = CHR ''.''"

definition extract_leading_number :: "string \<Rightarrow> (f64 \<times> string \<times> string) option" where
  "extract_leading_number s = (let rest = dropWhile (\<lambda>c. \<not> is_num_char c) s in
     if rest = [] then None
     else let token = takeWhile is_num_char rest in
       case parse_f64 token of
         None \<Rightarrow> None
       | Some value \<Rightarrow> Some (value, token, dropWhile is_num_char rest))"

definition NEGATIONS :: "string list" where
  "NEGATIONS = [''not high'', ''not confident'', ''not certain'', ''not sure'',
     ''no confidence'', ''unsure'', ''uncertain'']"

definition parse_denominator :: "string \<Rightarrow> f64 option" where
  "parse_denominator after = (let a = trim_start after;
      rest = (case strip_prefix ''/'' a of Some r \<Rightarrow> Some r
        | None \<Rightarrow> (case strip_prefix ''out of '' a of Some r \<Rightarrow> Some r
            | None \<Rightarrow> strip_prefix ''of '' a))
    in case rest of
         None \<Rightarrow> None
       | Some r \<Rightarrow> (case extract_leading_number (trim_start r) of
           None \<Rightarrow> None
         | Some (d, _, _) \<Rightarrow> if f64_greater d 0 then Some d else None))"

definition percent_of :: "string \<Rightarrow> f64 \<times> string \<times> string \<Rightarrow> f64" where
  "percent_of normalized = (\<lambda>(value, raw_token, after).
     case parse_denominator after of
       Some denominator \<Rightarrow> f64_mul (f64_div value denominator) (F64 100)
     | None \<Rightarrow>
         if str_contains normalized ''%'' \<or> f64_greater value 10 then value
         else if f64_le value 1 \<and> str_contains raw_token ''.'' then f64_mul value (F64 100)
         else f64_mul value (F64 10))"

definition level_of_percent :: "f64 \<Rightarrow> ConfidenceLevel" where
  "level_of_percent p =
     (if f64_less p 50 then ConfLow else if f64_less p 80 then ConfMedium else ConfHigh)"

definition confidence_parse :: "string \<Rightarrow> ConfidenceLevel option" where
  "confidence_parse raw = (let normalized = to_ascii_lowercase (trim raw) in
     if normalized = [] then None
     else if list_ex (str_contains normalized) NEGATIONS then Some ConfLow
     else if str_contains normalized ''low'' then Some ConfLow
     else if str_contains normalized ''med'' \<or> str_contains normalized ''moderate''
       then Some ConfMedium
     else if str_contains normalized ''high'' \<or> str_contains normalized ''certain''
         \<or> str_contains normalized ''confident'' then Some ConfHigh
     else map_option (\<lambda>n. level_of_percent (percent_of normalized n))
            (extract_leading_number normalized))"

fun confidence_as_str :: "ConfidenceLevel \<Rightarrow> string" where
  "confidence_as_str ConfLow = ''low''"
| "confidence_as_str ConfMedium = ''medium''"
| "confidence_as_str ConfHigh = ''high''"

lemma confidence_parse_as_str: "confidence_parse (confidence_as_str l) = Some l"
proof (cases l)
  case ConfLow
  show ?thesis unfolding ConfLow by code_simp
next
  case ConfMedium
  show ?thesis unfolding ConfMedium by code_simp
next
  case ConfHigh
  show ?thesis unfolding ConfHigh by code_simp
qed

lemma confidence_parse_low:
  assumes "str_contains (to_ascii_lowercase (trim raw)) ''low''"
  shows "confidence_parse raw = Some ConfLow"
  using assms by (auto simp: confidence_parse_def Let_def str_contains_def)

text \<open>
  The word rungs are substrings, so an affirmation that only quotes a longer word with \<open>med\<close> or
  \<open>low\<close> inside it is read at that rung.
\<close>

lemma confidence_parse_confirmed:
  "confidence_parse ''High: confirmed by tests'' = Some ConfMedium"
  by code_simp

lemma confidence_parse_following:
  "confidence_parse ''High, following the docs'' = Some ConfLow"
  by code_simp

text \<open>C13 Every rung parses back from its own name; a text that says \<open>low\<close> anywhere, in any case, is read as
  LOW, before any word of a higher rung; and because the rungs are substrings, an affirmed HIGH whose
  text quotes \<open>confirmed\<close> is read as MEDIUM and one that quotes \<open>following\<close> as LOW.\<close>

theorem confidence_rungs:
  "confidence_parse (confidence_as_str l) = Some l \<and>
   (str_contains (to_ascii_lowercase (trim raw)) ''low'' \<longrightarrow> confidence_parse raw = Some ConfLow) \<and>
   confidence_parse ''High: confirmed by tests'' = Some ConfMedium \<and>
   confidence_parse ''High, following the docs'' = Some ConfLow"
  using confidence_parse_as_str confidence_parse_low confidence_parse_confirmed confidence_parse_following
  by blast

theorem confidence_rungs_witness: "confidence_parse '' rather LOW'' = Some ConfLow"
proof -
  have "str_contains (to_ascii_lowercase (trim '' rather LOW'')) ''low''" by code_simp
  then show ?thesis using confidence_rungs [of ConfLow "'' rather LOW''"] by blast
qed

end
