(* ===== verification/Dag_Model.thy ===== *)
theory Dag_Model
  imports Kahn Confidence
begin

text \<open>
  The task graph of \<open>crates/jcode-plan/src/dag/mod.rs\<close>: modes, node kinds, statuses and origins,
  the typed handoff artifact, the nodes, the errors of the validated mutations, the graph as a
  vector of nodes searched by id, and its cycle check.
\<close>

section \<open>Modes, kinds, statuses\<close>

datatype Mode = Deep | Light

definition requires_gates :: "Mode \<Rightarrow> bool" where
  "requires_gates m \<longleftrightarrow> m = Deep"

lemma requires_gates_simps [simp]: "requires_gates Deep" "\<not> requires_gates Light"
  by (simp_all add: requires_gates_def)

datatype NodeOrigin = OriginSeed | OriginExpand | OriginGap | OriginGate

datatype NodeKind = Explore | Implement | Verify | Fix | Synthesize | Critique

definition is_gate_kind :: "NodeKind \<Rightarrow> bool" where
  "is_gate_kind k \<longleftrightarrow> k = Critique \<or> k = Verify"

fun gate_kind :: "NodeKind \<Rightarrow> NodeKind" where
  "gate_kind Implement = Verify"
| "gate_kind Fix = Verify"
| "gate_kind _ = Critique"

datatype NodeStatus = NodeQueued | NodeRunning | NodeDone | NodeFailed

section \<open>Artifacts\<close>

record HandoffArtifact =
  ha_findings :: string
  ha_evidence :: "string list"
  ha_edge_cases_considered :: "string list"
  ha_validation :: "string option"
  ha_open_questions :: "string list"
  ha_confidence :: "string option"
  ha_what_i_did_not_check :: "string list"

definition artifact_default :: HandoffArtifact where
  "artifact_default = \<lparr>ha_findings = [], ha_evidence = [], ha_edge_cases_considered = [],
     ha_validation = None, ha_open_questions = [], ha_confidence = None,
     ha_what_i_did_not_check = []\<rparr>"

definition brief :: "string \<Rightarrow> HandoffArtifact" where
  "brief findings = artifact_default\<lparr>ha_findings := findings\<rparr>"

definition confidence_level :: "HandoffArtifact \<Rightarrow> ConfidenceLevel option" where
  "confidence_level a = Option.bind (ha_confidence a) confidence_parse"

definition render_section :: "HandoffArtifact \<Rightarrow> string \<Rightarrow> string \<Rightarrow> string" where
  "render_section a i kind =
     ''## '' @ i @ '' ('' @ kind @ '')'' @ [nl] @
     (if trim (ha_findings a) \<noteq> [] then ha_findings a @ [nl] else []) @
     (if ha_evidence a \<noteq> [] then ''Evidence: '' @ join ''; '' (ha_evidence a) @ [nl] else []) @
     (if ha_edge_cases_considered a \<noteq> []
      then ''Edge cases considered: '' @ join ''; '' (ha_edge_cases_considered a) @ [nl] else []) @
     (case ha_validation a of Some v \<Rightarrow> ''Validation: '' @ v @ [nl] | None \<Rightarrow> []) @
     (if ha_open_questions a \<noteq> []
      then ''Open questions: '' @ join ''; '' (ha_open_questions a) @ [nl] else []) @
     (case ha_confidence a of Some c \<Rightarrow> ''Confidence: '' @ c @ [nl] | None \<Rightarrow> []) @
     (if ha_what_i_did_not_check a \<noteq> []
      then ''What was not checked: '' @ join ''; '' (ha_what_i_did_not_check a) @ [nl] else [])"

section \<open>Nodes, specs and errors\<close>

type_synonym NodeId = string

record TaskNode =
  tn_id :: NodeId
  tn_content :: string
  tn_kind :: NodeKind
  tn_status :: NodeStatus
  tn_owner :: "string option"
  tn_parent :: "NodeId option"
  tn_depends_on :: "NodeId list"
  tn_expanded :: bool
  tn_is_gate :: bool
  tn_planner :: "string option"
  tn_priority :: "8 word"
  tn_output :: "HandoffArtifact option"
  tn_origin :: "NodeOrigin option"

definition is_composite :: "TaskNode \<Rightarrow> bool" where
  "is_composite n = tn_expanded n"

definition is_done :: "TaskNode \<Rightarrow> bool" where
  "is_done n \<longleftrightarrow> tn_status n = NodeDone"

definition is_terminal :: "TaskNode \<Rightarrow> bool" where
  "is_terminal n \<longleftrightarrow> tn_status n = NodeDone \<or> tn_status n = NodeFailed"

record NodeSpec =
  ns_id :: "NodeId option"
  ns_content :: string
  ns_kind :: NodeKind
  ns_depends_on :: "NodeId list"
  ns_priority :: "8 word"

definition node_spec_new :: "string \<Rightarrow> string \<Rightarrow> NodeKind \<Rightarrow> NodeSpec" where
  "node_spec_new i content kind =
     \<lparr>ns_id = Some i, ns_content = content, ns_kind = kind, ns_depends_on = [], ns_priority = 0\<rparr>"

datatype DagError =
    UnknownNode NodeId
  | DuplicateNode NodeId
  | UnknownDependency NodeId NodeId
  | WouldCreateCycle "NodeId list"
  | NotOwner NodeId string
  | InvalidState NodeId NodeStatus
  | ThinArtifact NodeId string
  | UnaddressedLowConfidence NodeId "NodeId list"
  | UncoveredSiblings NodeId "NodeId list"
  | StaleGateScope NodeId "NodeId list"
  | GateMisuse string

fun node_status_debug :: "NodeStatus \<Rightarrow> string" where
  "node_status_debug NodeQueued = ''Queued''"
| "node_status_debug NodeRunning = ''Running''"
| "node_status_debug NodeDone = ''Done''"
| "node_status_debug NodeFailed = ''Failed''"

definition dag_error_display :: "DagError \<Rightarrow> string" where
  "dag_error_display e = (case e of
     UnknownNode i \<Rightarrow> ''unknown node '' @ quoted i
   | DuplicateNode i \<Rightarrow> ''duplicate node id '' @ quoted i
   | UnknownDependency node dependency \<Rightarrow> ''node '' @ quoted node @ '' depends on unknown node '' @ quoted dependency
   | WouldCreateCycle ids \<Rightarrow> ''operation would create a cycle among: '' @ join '', '' ids
   | NotOwner node actor \<Rightarrow> ''actor '' @ quoted actor @ '' does not own node '' @ quoted node
   | InvalidState node status \<Rightarrow> ''node '' @ quoted node @ '' is in invalid state '' @ node_status_debug status @
     '' for this operation''
   | ThinArtifact node reason \<Rightarrow> ''node '' @ quoted node @ '' artifact rejected: '' @ reason
   | UnaddressedLowConfidence gate nodes \<Rightarrow> ''gate '' @ quoted gate @ '' cannot pass: sibling node(s) ['' @ join '', '' nodes @
     ''] completed with LOW confidence and the gate artifact does not address them. Either '' @
     ''inject_gap with follow-up nodes that shore up that work, or name each '' @
     ''id in your findings with why its low confidence is acceptable''
   | UncoveredSiblings gate nodes \<Rightarrow> ''gate '' @ quoted gate @ '' cannot pass: completed node(s) ['' @ join '', '' nodes @
     ''] in its audit scope are not addressed in the gate artifact. A passing deep gate must '' @
     ''account for every node it audits: name each id in findings/open_questions with what '' @
     ''you checked, or inject_gap with follow-up nodes for anything shaky''
   | StaleGateScope gate pending \<Rightarrow> ''gate '' @ quoted gate @ '' cannot pass: node(s) ['' @ join '', '' pending @
     ''] entered its audit scope after it was dispatched and are not finished. The gate's view '' @
     ''is stale; it re-runs after they drain''
   | GateMisuse msg \<Rightarrow> ''gate misuse: '' @ msg)"

section \<open>The graph\<close>

record TaskGraph =
  tg_mode :: Mode
  tg_nodes :: "TaskNode list"

definition task_graph_new :: "Mode \<Rightarrow> TaskGraph" where
  "task_graph_new m = \<lparr>tg_mode = m, tg_nodes = []\<rparr>"

definition tg_get :: "TaskGraph \<Rightarrow> NodeId \<Rightarrow> TaskNode option" where
  "tg_get g i = find_key tn_id i (tg_nodes g)"

text \<open>\<open>get_mut\<close> and the edit of the node it returns; no node, no edit.\<close>

definition tg_modify :: "TaskGraph \<Rightarrow> NodeId \<Rightarrow> (TaskNode \<Rightarrow> TaskNode) \<Rightarrow> TaskGraph" where
  "tg_modify g i f = g\<lparr>tg_nodes := modify_key tn_id i f (tg_nodes g)\<rparr>"

definition tg_contains :: "TaskGraph \<Rightarrow> NodeId \<Rightarrow> bool" where
  "tg_contains g i \<longleftrightarrow> list_ex (\<lambda>n. tn_id n = i) (tg_nodes g)"

definition tg_push :: "TaskGraph \<Rightarrow> TaskNode \<Rightarrow> TaskGraph" where
  "tg_push g n = g\<lparr>tg_nodes := tg_nodes g @ [n]\<rparr>"

definition children_of :: "TaskGraph \<Rightarrow> NodeId \<Rightarrow> TaskNode list" where
  "children_of g i = filter (\<lambda>n. tn_parent n = Some i \<and> \<not> tn_is_gate n) (tg_nodes g)"

definition gate_of :: "TaskGraph \<Rightarrow> NodeId \<Rightarrow> TaskNode option" where
  "gate_of g i = find (\<lambda>n. tn_parent n = Some i \<and> tn_is_gate n) (tg_nodes g)"

definition output_level :: "TaskNode \<Rightarrow> ConfidenceLevel option" where
  "output_level n = Option.bind (tn_output n) confidence_level"

definition low_confidence_done_ids :: "TaskGraph \<Rightarrow> NodeId list" where
  "low_confidence_done_ids g = map tn_id (filter (\<lambda>n. output_level n = Some ConfLow)
     (filter (\<lambda>n. is_done n \<and> \<not> tn_is_gate n) (tg_nodes g)))"

definition all_terminal :: "TaskGraph \<Rightarrow> bool" where
  "all_terminal g \<longleftrightarrow> list_all is_terminal (tg_nodes g)"

lemma tg_contains_iff: "tg_contains g i \<longleftrightarrow> i \<in> tn_id ` set (tg_nodes g)"
  by (auto simp: tg_contains_def list_ex_iff)

lemma tg_contains_get: "tg_contains g i \<longleftrightarrow> tg_get g i \<noteq> None"
  by (auto simp: tg_contains_iff tg_get_def find_key_None_iff)

interpretation graph: keyed_store tg_get tg_push tg_modify tn_id tg_nodes
proof unfold_locales
  fix g i v
  show "tg_get g i = Some v \<Longrightarrow> tn_id v = i"
    by (auto simp: tg_get_def dest: find_key_Some)
qed (auto simp: tg_get_def tg_push_def tg_modify_def find_key_append find_key_None_iff
    find_key_modify map_key_modify find_key_distinct dest!: find_key_Some split: option.split)

lemma tg_mode_simps [simp]: "tg_mode (tg_push g n) = tg_mode g" "tg_mode (tg_modify g i f) = tg_mode g"
  by (simp_all add: tg_push_def tg_modify_def)

lemmas graph_elems = graph.elems_push graph.keys_modify

section \<open>The cycle check\<close>

text \<open>
  \<open>TaskGraph::cycle_nodes\<close>: each unique in-graph dependency of a node counts once, and a popped id
  relaxes every node that names it at least once.
\<close>

definition dag_ids :: "TaskGraph \<Rightarrow> NodeId list" where
  "dag_ids g = map tn_id (tg_nodes g)"

definition unique_deps :: "TaskGraph \<Rightarrow> TaskNode \<Rightarrow> NodeId list" where
  "unique_deps g n = remdups (filter (\<lambda>d. d \<in> set (dag_ids g)) (tn_depends_on n))"

definition dag_indegree :: "TaskGraph \<Rightarrow> (NodeId \<times> nat) list" where
  "dag_indegree g = foldl (\<lambda>m n. degree_entry m (tn_id n) (length (unique_deps g n)))
     (foldl (\<lambda>m n. degree_entry m (tn_id n) 0) [] (tg_nodes g)) (tg_nodes g)"

definition dag_dependents :: "TaskGraph \<Rightarrow> NodeId \<Rightarrow> NodeId list" where
  "dag_dependents g i = map tn_id (filter (\<lambda>n. i \<in> set (tn_depends_on n)) (tg_nodes g))"

definition cycle_nodes :: "TaskGraph \<Rightarrow> NodeId list" where
  "cycle_nodes g = (let deg = dag_indegree g;
     queue = rev (sort (zero_degree deg));
     visited = fst (kahn_loop (dag_dependents g) queue [] deg)
   in sort (filter (\<lambda>i. i \<notin> set visited) (dag_ids g)))"

text \<open>The dependency relation the check is about, from a dependency to its dependent.\<close>

definition dep_rel :: "TaskGraph \<Rightarrow> (NodeId \<times> NodeId) set" where
  "dep_rel g = {(d, tn_id n) | d n. n \<in> set (tg_nodes g) \<and> d \<in> set (tn_depends_on n) \<and>
     d \<in> set (dag_ids g)}"

lemma dag_indegree_distinct: "distinct (map fst (dag_indegree g))"
  unfolding dag_indegree_def by (intro degree_entries_distinct) simp

interpretation dag_kahn: kahn_source dag_ids dag_dependents dag_indegree
proof unfold_locales
  fix g
  show "fst ` set (dag_indegree g) = set (dag_ids g)"
    by (simp add: dag_indegree_def degree_entries_keys dag_ids_def)
next
  fix n g assume n: "n \<in> set (dag_ids g)"
  have "map_of (dag_indegree g) n = Some (0 + sum_list (map (\<lambda>m. length (unique_deps g m))
      (filter (\<lambda>m. tn_id m = n) (tg_nodes g))))"
    unfolding dag_indegree_def using n
    by (intro degree_entries_value degree_entries_zero) (auto simp: dag_ids_def)
  also have "map (\<lambda>m. length (unique_deps g m)) (filter (\<lambda>m. tn_id m = n) (tg_nodes g)) =
      map (\<lambda>m. card (set (tn_depends_on m) \<inter> set (dag_ids g))) (filter (\<lambda>m. tn_id m = n) (tg_nodes g))"
    by (simp add: unique_deps_def length_remdups_card_conv Int_def conj_commute)
  finally show "map_of (dag_indegree g) n =
      Some (\<Sum>d \<in> set (dag_ids g). count_list (dag_dependents g d) n)"
    by (simp add: dag_dependents_def sum_count_edges)
qed (auto simp: dag_dependents_def dag_ids_def)

lemma dag_kahn_edges: "dag_kahn.dep_edges g = dep_rel g"
  by (auto simp: dag_kahn.dep_edges_def dep_rel_def dag_dependents_def)

interpretation dag_check: cycle_check dag_ids dep_rel cycle_nodes
proof unfold_locales
  fix g
  show "dep_rel g \<subseteq> set (dag_ids g) \<times> set (dag_ids g)"
    by (auto simp: dep_rel_def dag_ids_def)
  have q: "set (rev (sort (zero_degree (dag_indegree g)))) =
      {n \<in> set (dag_ids g). map_of (dag_indegree g) n = Some 0}"
    by (simp add: set_zero_degree [OF dag_indegree_distinct] dag_kahn.indegree_keys)
  show "set (cycle_nodes g) = set (dag_ids g) - Wellfounded.acc (dep_rel g)"
    using dag_kahn.visited_eq [OF q] by (auto simp: cycle_nodes_def Let_def dag_kahn_edges)
qed

end
