(* ===== verification/Dag_Schedule.thy ===== *)
theory Dag_Schedule
  imports Dag_Model
begin

text \<open>
  The scheduler of \<open>crates/jcode-plan/src/dag/schedule.rs\<close>: which nodes are runnable and in which
  order, the dispatch of one of them, and the input assembled from its finished dependencies.
\<close>

section \<open>Operations\<close>

definition LIGHT_MODE_SUGGESTED_WORKERS :: nat where
  "LIGHT_MODE_SUGGESTED_WORKERS = 16"

definition deps_satisfied :: "TaskGraph \<Rightarrow> TaskNode \<Rightarrow> bool" where
  "deps_satisfied g n = list_all (\<lambda>d. case tg_get g d of Some m \<Rightarrow> is_done m | None \<Rightarrow> False)
     (tn_depends_on n)"

definition sched_key :: "TaskNode \<Rightarrow> 8 word \<times> NodeId" where
  "sched_key n = (tn_priority n, tn_id n)"

definition ready_nodes :: "TaskGraph \<Rightarrow> TaskNode list" where
  "ready_nodes g = sort_key sched_key
     (filter (\<lambda>n. tn_status n = NodeQueued \<and> deps_satisfied g n) (tg_nodes g))"

definition dispatch :: "TaskGraph \<Rightarrow> NodeId \<Rightarrow> string \<Rightarrow> bool \<times> TaskGraph" where
  "dispatch g i worker =
     (let dispatchable = (case tg_get g i of
        Some n \<Rightarrow> tn_status n = NodeQueued \<and> deps_satisfied g n | None \<Rightarrow> False)
      in if \<not> dispatchable then (False, g)
         else (True, tg_modify g i (\<lambda>n. n\<lparr>tn_owner := Some worker, tn_status := NodeRunning\<rparr>)))"

fun kind_label :: "NodeKind \<Rightarrow> string" where
  "kind_label Explore = ''explore''"
| "kind_label Implement = ''implement''"
| "kind_label Verify = ''verify''"
| "kind_label Fix = ''fix''"
| "kind_label Synthesize = ''synthesize''"
| "kind_label Critique = ''critique''"

definition render_dependency :: "TaskNode \<Rightarrow> string" where
  "render_dependency d = nl # (case tn_output d of
     Some a \<Rightarrow> render_section a (tn_id d) (kind_label (tn_kind d))
   | None \<Rightarrow> ''## '' @ tn_id d @ '' ('' @ kind_label (tn_kind d) @ '')'' @ [nl])"

definition assemble_input :: "TaskGraph \<Rightarrow> NodeId \<Rightarrow> string" where
  "assemble_input g i = (case tg_get g i of
     None \<Rightarrow> []
   | Some node \<Rightarrow>
       (let upstream = filter is_done (List.map_filter (tg_get g) (tn_depends_on node))
        in if upstream = [] then tn_content node
           else tn_content node @ [nl, nl] @ ''# Inputs from completed dependencies'' @ [nl] @
             concat (map render_dependency upstream)))"

section \<open>Scheduling order and dispatch\<close>

interpretation sched_order: canonical_order sched_key tn_id
  by unfold_locales (simp add: sched_key_def)

lemma deps_satisfied_iff:
  "deps_satisfied g n \<longleftrightarrow> (\<forall>d \<in> set (tn_depends_on n). \<exists>m. tg_get g d = Some m \<and> is_done m)"
  by (force simp: deps_satisfied_def list_all_iff split: option.splits)

lemma set_ready_nodes:
  "n \<in> set (ready_nodes g) \<longleftrightarrow>
   n \<in> set (tg_nodes g) \<and> tn_status n = NodeQueued \<and> deps_satisfied g n"
  by (auto simp: ready_nodes_def)

lemma dispatch_iff:
  assumes "distinct (dag_ids g)"
  shows "fst (dispatch g i w) \<longleftrightarrow> i \<in> tn_id ` set (ready_nodes g)"
proof -
  have "fst (dispatch g i w) \<longleftrightarrow>
      (\<exists>n. tg_get g i = Some n \<and> tn_status n = NodeQueued \<and> deps_satisfied g n)"
    by (auto simp: dispatch_def Let_def split: option.splits)
  also have "\<dots> \<longleftrightarrow> i \<in> tn_id ` set (ready_nodes g)"
    using graph.get_elems graph.get_key assms
    by (fastforce simp: set_ready_nodes dag_ids_def image_iff)
  finally show ?thesis .
qed

lemma dispatch_True:
  assumes "dispatch g i w = (True, g')"
  obtains n where "tg_get g i = Some n" "tn_status n = NodeQueued" "deps_satisfied g n"
    "g' = tg_modify g i (\<lambda>n. n\<lparr>tn_owner := Some w, tn_status := NodeRunning\<rparr>)"
  using assms by (auto simp: dispatch_def Let_def split: option.splits if_splits)

lemma sorted_ready_nodes: "sorted (map sched_key (ready_nodes g))"
  by (simp add: ready_nodes_def)

lemma ready_nodes_canonical:
  assumes "mset (tg_nodes g) = mset (tg_nodes h)" and "distinct (dag_ids g)"
  shows "ready_nodes g = ready_nodes h"
proof -
  have d: "distinct (map tn_id (tg_nodes g))" "distinct (map tn_id (tg_nodes h))"
    using assms mset_eq_imp_distinct_iff [of "map tn_id (tg_nodes g)" "map tn_id (tg_nodes h)"]
    by (simp_all add: dag_ids_def)
  have set: "set (tg_nodes g) = set (tg_nodes h)" using assms(1) by (rule mset_eq_setD)
  have get: "tg_get g i = tg_get h i" for i
    using graph.get_elems [OF d(1)] graph.get_elems [OF d(2)] graph.get_key set
    by (metis not_None_eq)
  have "deps_satisfied g = deps_satisfied h" by (auto simp: fun_eq_iff deps_satisfied_def get)
  then show ?thesis
    unfolding ready_nodes_def using assms(1) d(1)
    by (intro sched_order.sort_canonical) (simp_all add: distinct_map_filter)
qed

section \<open>Properties\<close>

definition demo_node :: "string \<Rightarrow> 8 word \<Rightarrow> NodeStatus \<Rightarrow> NodeId list \<Rightarrow> TaskNode" where
  "demo_node i p st deps = \<lparr>tn_id = i, tn_content = i, tn_kind = Explore, tn_status = st,
     tn_owner = None, tn_parent = None, tn_depends_on = deps, tn_expanded = False,
     tn_is_gate = False, tn_planner = None, tn_priority = p, tn_output = None, tn_origin = None\<rparr>"

definition demo_graph :: TaskGraph where
  "demo_graph = \<lparr>tg_mode = Light, tg_nodes =
     [demo_node ''a'' 0 NodeDone [], demo_node ''c'' 1 NodeQueued [''a''],
      demo_node ''b'' 1 NodeQueued [''a''], demo_node ''d'' 0 NodeQueued [''c'']]\<rparr>"

text \<open>The ready list of a graph with distinct ids depends only on the set of its nodes, not on the
  order in which they were pushed: it is sorted by (priority, id), and holds exactly the queued nodes
  all of whose dependencies are present and done.\<close>

theorem ready_nodes_spec:
  assumes "mset (tg_nodes g) = mset (tg_nodes h)" and "distinct (dag_ids g)"
  shows "ready_nodes g = ready_nodes h \<and>
    sorted (map (\<lambda>n. (tn_priority n, tn_id n)) (ready_nodes g)) \<and>
    (\<forall>n. n \<in> set (ready_nodes g) \<longleftrightarrow> n \<in> set (tg_nodes g) \<and> tn_status n = NodeQueued \<and>
       (\<forall>d \<in> set (tn_depends_on n). \<exists>m. tg_get g d = Some m \<and> tn_status m = NodeDone))"
proof (intro conjI)
  show "sorted (map (\<lambda>n. (tn_priority n, tn_id n)) (ready_nodes g))"
    using sorted_ready_nodes [of g] by (simp add: sched_key_def [abs_def])
  show "ready_nodes g = ready_nodes h" by (rule ready_nodes_canonical [OF assms])
qed (simp add: set_ready_nodes deps_satisfied_iff is_done_def)

theorem ready_nodes_spec_witness:
  "ready_nodes demo_graph = ready_nodes (demo_graph\<lparr>tg_nodes := rev (tg_nodes demo_graph)\<rparr>) \<and>
   map tn_id (ready_nodes demo_graph) = [''b'', ''c'']"
proof
  show "ready_nodes demo_graph = ready_nodes (demo_graph\<lparr>tg_nodes := rev (tg_nodes demo_graph)\<rparr>)"
  proof (rule ready_nodes_spec [THEN conjunct1])
    show "mset (tg_nodes demo_graph) = mset (tg_nodes (demo_graph\<lparr>tg_nodes := rev (tg_nodes demo_graph)\<rparr>))"
      by simp
    show "distinct (dag_ids demo_graph)" by code_simp
  qed
qed code_simp

text \<open>Dispatch succeeds exactly on the ids of the ready list; then it changes only that node's status
  and owner, and afterwards the node is no longer ready. A refused dispatch leaves the graph as it
  was.\<close>

theorem dispatch_exactly_ready:
  assumes "distinct (dag_ids g)"
  shows "(fst (dispatch g i w) \<longleftrightarrow> i \<in> tn_id ` set (ready_nodes g)) \<and>
    (\<not> fst (dispatch g i w) \<longrightarrow> snd (dispatch g i w) = g) \<and>
    (fst (dispatch g i w) \<longrightarrow>
       (\<forall>j. tg_get (snd (dispatch g i w)) j = (if j = i
          then map_option (\<lambda>n. n\<lparr>tn_owner := Some w, tn_status := NodeRunning\<rparr>) (tg_get g i)
          else tg_get g j)) \<and>
       i \<notin> tn_id ` set (ready_nodes (snd (dispatch g i w))))"
proof -
  have d: "distinct (dag_ids (snd (dispatch g i w)))"
    using assms by (auto simp: dispatch_def Let_def dag_ids_def graph.keys_modify)
  have refused: "snd (dispatch g i w) = g" if "\<not> fst (dispatch g i w)"
    using that by (auto simp: dispatch_def Let_def)
  have get: "tg_get (snd (dispatch g i w)) j = (if j = i
      then map_option (\<lambda>n. n\<lparr>tn_owner := Some w, tn_status := NodeRunning\<rparr>) (tg_get g i)
      else tg_get g j)" if "fst (dispatch g i w)" for j
    using that by (auto simp: dispatch_def Let_def graph.get_modify split: if_splits)
  have "\<not> fst (dispatch (snd (dispatch g i w)) i w')" if "fst (dispatch g i w)" for w'
    using get [OF that, of i]
    by (auto simp: dispatch_def [of "snd (dispatch g i w)"] Let_def split: option.splits if_splits)
  then show ?thesis using dispatch_iff [OF assms] dispatch_iff [OF d] refused get by blast
qed

theorem dispatch_exactly_ready_witness:
  "fst (dispatch demo_graph ''b'' ''w1'') \<and> \<not> fst (dispatch demo_graph ''d'' ''w1'')"
proof -
  have d: "distinct (dag_ids demo_graph)" by code_simp
  have r: "tn_id ` set (ready_nodes demo_graph) = {''b'', ''c''}" by code_simp
  show ?thesis
    using dispatch_exactly_ready [OF d, of "''b''" "''w1''"] dispatch_exactly_ready [OF d, of "''d''" "''w1''"] r
    by simp
qed

end
