(* ===== verification/Dag_Ops.thy ===== *)
theory Dag_Ops
  imports Dag_Schedule
begin

text \<open>
  The validated mutations of \<open>crates/jcode-plan/src/dag/ops.rs\<close>: seeding, expansion, completion,
  failure, gap injection and re-queueing. An operation returns the error or the new graph; the Rust
  code writes \<open>*graph\<close> only on success, so an error leaves the caller's graph as it was.
\<close>

section \<open>Shared helpers\<close>

text \<open>\<open>for id in ids { if !deps.contains(&id) { deps.push(id) } }\<close>\<close>

definition push_missing :: "'a list \<Rightarrow> 'a list \<Rightarrow> 'a list" where
  "push_missing deps ids = foldl (\<lambda>ds i. if i \<in> set ds then ds else ds @ [i]) deps ids"

definition validated_spec_id :: "NodeSpec \<Rightarrow> string \<Rightarrow> DagError + string" where
  "validated_spec_id spec op = (case ns_id spec of
     None \<Rightarrow> Inl (GateMisuse (op @ '' specs must carry explicit ids''))
   | Some i \<Rightarrow> if trim i = [] then Inl (GateMisuse (op @ '' specs must carry non-empty ids''))
       else Inr i)"

definition spec_to_node :: "NodeSpec \<Rightarrow> NodeId option \<Rightarrow> NodeOrigin \<Rightarrow> TaskNode" where
  "spec_to_node spec parent origin = \<lparr>
     tn_id = (case ns_id spec of Some i \<Rightarrow> i | None \<Rightarrow> []), tn_content = ns_content spec,
     tn_kind = ns_kind spec, tn_status = NodeQueued, tn_owner = None, tn_parent = parent,
     tn_depends_on = push_missing [] (ns_depends_on spec), tn_expanded = False,
     tn_is_gate = False, tn_planner = None, tn_priority = ns_priority spec, tn_output = None,
     tn_origin = Some origin\<rparr>"

text \<open>The counter of the source is a \<open>u32\<close>; a graph holds fewer than \<open>2^32\<close> nodes.\<close>

definition gate_candidates :: "TaskGraph \<Rightarrow> string \<Rightarrow> nat \<Rightarrow> nat set" where
  "gate_candidates g base n = {k. n \<le> k \<and> tg_contains g (base @ nat_to_string k)}"

lemma finite_gate_candidates: "finite (gate_candidates g base n)"
proof (rule inj_on_finite)
  show "inj_on (\<lambda>k. base @ nat_to_string k) (gate_candidates g base n)"
    using inj_nat_to_string by (auto simp: inj_on_def dest: injD)
  show "(\<lambda>k. base @ nat_to_string k) ` gate_candidates g base n \<subseteq> tn_id ` set (tg_nodes g)"
    by (auto simp: gate_candidates_def tg_contains_iff)
qed simp

function gate_id_from :: "TaskGraph \<Rightarrow> string \<Rightarrow> nat \<Rightarrow> string" where
  "gate_id_from g base n = (let candidate = base @ nat_to_string n
     in if \<not> tg_contains g candidate then candidate else gate_id_from g base (n + 1))"
  by pat_completeness auto
termination
proof (relation "measure (\<lambda>(g, base, n). card (gate_candidates g base n))")
  fix g base n x
  assume "x = base @ nat_to_string n" "\<not> \<not> tg_contains g x"
  then have "n \<in> gate_candidates g base n - gate_candidates g base (n + 1)"
    by (simp add: gate_candidates_def)
  moreover have "gate_candidates g base (n + 1) \<subseteq> gate_candidates g base n"
    by (auto simp: gate_candidates_def)
  ultimately have "gate_candidates g base (n + 1) \<subset> gate_candidates g base n" by blast
  then show "((g, base, n + 1), (g, base, n)) \<in> measure (\<lambda>(g, base, n). card (gate_candidates g base n))"
    by (simp add: psubset_card_mono finite_gate_candidates)
qed simp

declare gate_id_from.simps [simp del]

definition unique_gate_id :: "TaskGraph \<Rightarrow> NodeId \<Rightarrow> NodeId" where
  "unique_gate_id g i = (let base = i @ ''::gate''
     in if \<not> tg_contains g base then base else gate_id_from g base 2)"

definition gate_content :: "NodeKind \<Rightarrow> NodeId \<Rightarrow> string" where
  "gate_content kind parent = (case kind of
     Verify \<Rightarrow> ''Verify the work of '' @ quoted parent @
       '': run the declared acceptance checks (build, tests, lint). '' @
       ''If anything fails, emit fix nodes back into the graph; do not pass until they drain.''
   | _ \<Rightarrow> ''Critique the work of '' @ quoted parent @ '' adversarially. Read every child'' @ [CHR 0x27] @
       ''s '' @ quoted ''what_i_did_not_check'' @
       '' and find unexplored gaps given this task'' @ [CHR 0x27] @
       ''s stated scope. For each gap, emit a new child node; '' @
       ''do not pass until no gaps remain.'')"

definition root_gate_content :: "NodeKind \<Rightarrow> string" where
  "root_gate_content kind = (case kind of
     Verify \<Rightarrow> ''Final plan-wide verify: run the acceptance checks for the whole '' @
       ''plan'' @ [CHR 0x27] @ ''s declared scope (build, tests, lint) across everything the plan changed. If '' @
       ''anything fails, inject fix nodes; the plan cannot finish until they drain.''
   | _ \<Rightarrow> ''Final plan-wide critique: audit the ENTIRE plan adversarially before it may '' @
       ''finish. Read every completed node'' @ [CHR 0x27] @ ''s artifact, especially each '' @
       quoted ''what_i_did_not_check'' @ '' and every open question, and hunt for whole facets the '' @
       ''plan never covered. For each gap, inject a new node; the plan cannot finish '' @
       ''until they drain.'')"

text \<open>The node an automatically inserted gate is pushed as.\<close>

definition gate_node :: "NodeId \<Rightarrow> string \<Rightarrow> NodeKind \<Rightarrow> NodeId option \<Rightarrow> NodeId list \<Rightarrow> TaskNode" where
  "gate_node i content kind parent deps = \<lparr>
     tn_id = i, tn_content = content, tn_kind = kind, tn_status = NodeQueued, tn_owner = None,
     tn_parent = parent, tn_depends_on = deps, tn_expanded = False, tn_is_gate = True,
     tn_planner = None, tn_priority = 0, tn_output = None, tn_origin = Some OriginGate\<rparr>"

section \<open>Seeding\<close>

definition dependency_sets_equal :: "NodeId list \<Rightarrow> NodeId list \<Rightarrow> bool" where
  "dependency_sets_equal left right \<longleftrightarrow> set left = set right"

definition seed_specs_equivalent :: "NodeSpec \<Rightarrow> NodeSpec \<Rightarrow> bool" where
  "seed_specs_equivalent left right \<longleftrightarrow>
     ns_id left = ns_id right \<and> ns_content left = ns_content right \<and>
     ns_kind left = ns_kind right \<and> ns_priority left = ns_priority right \<and>
     dependency_sets_equal (ns_depends_on left) (ns_depends_on right)"

definition seed_spec_matches_existing :: "TaskGraph \<Rightarrow> TaskNode \<Rightarrow> NodeSpec \<Rightarrow> bool" where
  "seed_spec_matches_existing g node spec =
     (if tn_parent node \<noteq> None \<or> tn_is_gate node \<or>
         \<not> (tn_origin node = None \<or> tn_origin node = Some OriginSeed) \<or>
         tn_content node \<noteq> ns_content spec \<or> tn_kind node \<noteq> ns_kind spec \<or>
         tn_priority node \<noteq> ns_priority spec
      then False
      else (let declared_dependencies = filter (\<lambda>dependency. case tg_get g dependency of
              None \<Rightarrow> True | Some candidate \<Rightarrow> tn_parent candidate \<noteq> Some (tn_id node))
            (tn_depends_on node)
        in dependency_sets_equal declared_dependencies (ns_depends_on spec)))"

fun seed_collect :: "NodeSpec list \<Rightarrow> NodeSpec list \<Rightarrow> DagError + NodeSpec list" where
  "seed_collect [] unique_specs = Inr unique_specs"
| "seed_collect (spec # specs) unique_specs =
     and_then (validated_spec_id spec ''seed'') (\<lambda>i.
       case find (\<lambda>u. ns_id u = Some i) unique_specs of
         Some existing \<Rightarrow> if \<not> seed_specs_equivalent existing spec then Inl (DuplicateNode i)
           else seed_collect specs unique_specs
       | None \<Rightarrow> seed_collect specs (unique_specs @ [spec]))"

definition spec_ids :: "NodeSpec list \<Rightarrow> NodeId list" where
  "spec_ids specs = map (\<lambda>s. case ns_id s of Some i \<Rightarrow> i | None \<Rightarrow> []) specs"

text \<open>The first dependency, in spec order, that is neither among the new ids nor in the graph.\<close>

definition check_dependencies :: "TaskGraph \<Rightarrow> NodeSpec list \<Rightarrow> DagError + unit" where
  "check_dependencies g specs = check_all (\<lambda>(node, dep).
       if dep \<notin> set (spec_ids specs) \<and> \<not> tg_contains g dep then Some (UnknownDependency node dep)
       else None)
     (concat (map (\<lambda>(s, i). map (Pair i) (ns_depends_on s)) (zip specs (spec_ids specs))))"

fun seed_apply :: "TaskGraph \<Rightarrow> NodeSpec list \<Rightarrow> TaskGraph \<Rightarrow> DagError + TaskGraph" where
  "seed_apply g [] staged = Inr staged"
| "seed_apply g (spec # specs) staged =
     (let i = (case ns_id spec of Some i \<Rightarrow> i | None \<Rightarrow> []) in
      case tg_get g i of
        Some existing \<Rightarrow> if \<not> seed_spec_matches_existing g existing spec then Inl (DuplicateNode i)
          else seed_apply g specs staged
      | None \<Rightarrow> seed_apply g specs (tg_push staged (spec_to_node spec None OriginSeed)))"

definition root_work :: "TaskGraph \<Rightarrow> TaskNode list" where
  "root_work g = filter (\<lambda>n. tn_parent n = None \<and> \<not> tn_is_gate n) (tg_nodes g)"

text \<open>The edit of an existing root gate: new root work re-opens a finished audit.\<close>

definition widen_gate :: "NodeId list \<Rightarrow> TaskNode \<Rightarrow> TaskNode" where
  "widen_gate root_ids gate =
     (let widened = list_ex (\<lambda>i. i \<notin> set (tn_depends_on gate)) root_ids;
          gate' = gate\<lparr>tn_depends_on := push_missing (tn_depends_on gate) root_ids\<rparr>
      in if widened \<and> is_terminal gate' then gate'\<lparr>tn_status := NodeQueued, tn_owner := None\<rparr>
         else gate')"

definition ensure_root_gate :: "TaskGraph \<Rightarrow> TaskGraph" where
  "ensure_root_gate g = (let root_ids = map tn_id (root_work g) in
     if root_ids = [] then g
     else case find (\<lambda>n. tn_is_gate n \<and> tn_parent n = None) (tg_nodes g) of
       Some found \<Rightarrow> tg_modify g (tn_id found) (widen_gate root_ids)
     | None \<Rightarrow>
         (let all_code = list_all (\<lambda>n. tn_kind n = Implement \<or> tn_kind n = Fix) (root_work g);
              kind = (if all_code then Verify else Critique);
              gate_id = unique_gate_id g ''plan''
          in tg_push g (gate_node gate_id (root_gate_content kind) kind None root_ids)))"

definition reject_cycle :: "TaskGraph \<Rightarrow> DagError + TaskGraph" where
  "reject_cycle staged = (let cyc = cycle_nodes staged
     in if cyc \<noteq> [] then Inl (WouldCreateCycle cyc) else Inr staged)"

definition seed :: "TaskGraph \<Rightarrow> NodeSpec list \<Rightarrow> DagError + TaskGraph" where
  "seed g specs =
     and_then (seed_collect specs []) (\<lambda>unique_specs.
     and_then (check_dependencies g unique_specs) (\<lambda>_.
     and_then (seed_apply g unique_specs g) (\<lambda>staged.
       reject_cycle (if requires_gates (tg_mode staged) then ensure_root_gate staged else staged))))"

section \<open>Expansion and gap injection\<close>

record ExpandOutcome =
  eo_child_ids :: "NodeId list"
  eo_gate_id :: "NodeId option"

text \<open>The guards the owner-side operations share, in the order each operation checks them.\<close>

definition owned_node :: "TaskGraph \<Rightarrow> NodeId \<Rightarrow> string \<Rightarrow> DagError + TaskNode" where
  "owned_node g i actor = (case tg_get g i of
     None \<Rightarrow> Inl (UnknownNode i)
   | Some node \<Rightarrow> if tn_owner node \<noteq> Some actor then Inl (NotOwner i actor) else Inr node)"

text \<open>The validated ids of a batch of new specs; none may exist in the graph or repeat.\<close>

fun collect_new_ids :: "TaskGraph \<Rightarrow> string \<Rightarrow> NodeSpec list \<Rightarrow> NodeId list \<Rightarrow> DagError + NodeId list" where
  "collect_new_ids g op [] seen = Inr []"
| "collect_new_ids g op (spec # specs) seen =
     and_then (validated_spec_id spec op) (\<lambda>i.
       if tg_contains g i \<or> i \<in> set seen then Inl (DuplicateNode i)
       else and_then (collect_new_ids g op specs (i # seen)) (\<lambda>ids. Inr (i # ids)))"

definition push_specs :: "TaskGraph \<Rightarrow> NodeSpec list \<Rightarrow> NodeId option \<Rightarrow> NodeOrigin \<Rightarrow> TaskGraph" where
  "push_specs g specs parent origin =
     foldl tg_push g (map (\<lambda>s. spec_to_node s parent origin) specs)"

text \<open>The node flips to a join over its children and gate; the planner is its last owner.\<close>

definition flip_composite :: "NodeId list \<Rightarrow> TaskNode \<Rightarrow> TaskNode" where
  "flip_composite synth_deps node =
     node\<lparr>tn_expanded := True, tn_status := NodeQueued,
       tn_planner := (if tn_planner node = None then tn_owner node else tn_planner node),
       tn_owner := None,
       tn_depends_on := push_missing (tn_depends_on node) synth_deps\<rparr>"

definition expand_node ::
  "TaskGraph \<Rightarrow> NodeId \<Rightarrow> string \<Rightarrow> NodeSpec list \<Rightarrow> DagError + (TaskGraph \<times> ExpandOutcome)" where
  "expand_node g i actor children =
     and_then (owned_node g i actor) (\<lambda>node.
       if tn_is_gate node
       then Inl (GateMisuse (''gate node '' @ quoted i @ '' cannot be decomposed''))
       else if tn_expanded node \<or> tn_status node \<noteq> NodeRunning
       then Inl (InvalidState i (tn_status node))
       else if children = [] then Inl (GateMisuse ''expand requires at least one child'')
       else and_then (collect_new_ids g ''expand'' children []) (\<lambda>child_ids.
         and_then (check_dependencies g children) (\<lambda>_.
           let staged = push_specs g children (Some i) OriginExpand;
               kind = gate_kind (case tg_get staged i of Some n \<Rightarrow> tn_kind n | None \<Rightarrow> Explore);
               gate_id = (if requires_gates (tg_mode staged) then Some (unique_gate_id staged i)
                          else None);
               staged = (case gate_id of
                   Some gid \<Rightarrow> tg_push staged (gate_node gid (gate_content kind i) kind (Some i) child_ids)
                 | None \<Rightarrow> staged);
               synth_deps = child_ids @ (case gate_id of Some gid \<Rightarrow> [gid] | None \<Rightarrow> []);
               staged = tg_modify staged i (flip_composite synth_deps)
           in and_then (reject_cycle staged) (\<lambda>g'.
                Inr (g', \<lparr>eo_child_ids = child_ids, eo_gate_id = gate_id\<rparr>)))))"

definition requeue_gate :: "NodeId list \<Rightarrow> TaskNode \<Rightarrow> TaskNode" where
  "requeue_gate new_ids gate = gate\<lparr>tn_status := NodeQueued, tn_owner := None,
     tn_depends_on := push_missing (tn_depends_on gate) new_ids\<rparr>"

definition add_dependencies :: "NodeId list \<Rightarrow> TaskNode \<Rightarrow> TaskNode" where
  "add_dependencies new_ids node =
     node\<lparr>tn_depends_on := push_missing (tn_depends_on node) new_ids\<rparr>"

definition inject_from_gate ::
  "TaskGraph \<Rightarrow> NodeId \<Rightarrow> string \<Rightarrow> NodeSpec list \<Rightarrow> DagError + (TaskGraph \<times> NodeId list)" where
  "inject_from_gate g gate_id actor new_nodes =
     and_then (owned_node g gate_id actor) (\<lambda>gate.
       if \<not> tn_is_gate gate
       then Inl (GateMisuse (''node '' @ quoted gate_id @
              '' is not a gate; use expand_node to decompose work''))
       else if tn_status gate \<noteq> NodeRunning then Inl (InvalidState gate_id (tn_status gate))
       else if new_nodes = [] then Inl (GateMisuse ''inject_from_gate requires at least one new node'')
       else and_then (collect_new_ids g ''inject_from_gate'' new_nodes []) (\<lambda>new_ids.
         and_then (check_dependencies g new_nodes) (\<lambda>_.
           let staged = push_specs g new_nodes (tn_parent gate) OriginGap;
               staged = tg_modify staged gate_id (requeue_gate new_ids);
               staged = (case tn_parent gate of
                   Some parent_id \<Rightarrow> tg_modify staged parent_id (add_dependencies new_ids)
                 | None \<Rightarrow> staged)
           in and_then (reject_cycle staged) (\<lambda>g'. Inr (g', new_ids)))))"

section \<open>Completion\<close>

definition is_id_char :: "char \<Rightarrow> bool" where
  "is_id_char c \<longleftrightarrow> is_ascii_alphanumeric c \<or> c \<in> set ''-_.:''"

definition mention_end_ok :: "string \<Rightarrow> bool" where
  "mention_end_ok rest = (case rest of
     [] \<Rightarrow> True
   | c # cs \<Rightarrow> if c = CHR ''.'' \<or> c = CHR '':''
       then (case cs of [] \<Rightarrow> True | d # _ \<Rightarrow> \<not> is_id_char d)
       else \<not> is_id_char c)"

text \<open>
  The scan for a standalone mention, on byte positions. An id character is ASCII, so the byte before
  and the byte after the match decide what \<open>chars()\<close> decides there.
\<close>

lemma scan_progress: "\<not> l \<le> s + p + k \<Longrightarrow> 0 < (k::nat) \<Longrightarrow> l - (s + p + k) < l - s"
  by arith

function mentions_from :: "string \<Rightarrow> string \<Rightarrow> nat \<Rightarrow> bool" where
  "mentions_from txt i start = (case find_sub i (drop start txt) of
     None \<Rightarrow> False
   | Some pos \<Rightarrow>
      (let begin = start + pos;
           before_ok = (begin = 0 \<or> \<not> is_id_char (txt ! (begin - 1)));
           after_ok = mention_end_ok (drop (begin + length i) txt)
       in if before_ok \<and> after_ok then True
          else let next = begin + (case drop begin txt of [] \<Rightarrow> 1 | c # _ \<Rightarrow> utf8_len c)
            in if length txt \<le> next then False else mentions_from txt i next))"
  by pat_completeness auto
termination
  by (relation "measure (\<lambda>(txt, i, start). length txt - start)")
    (auto split: list.split intro!: scan_progress)

declare mentions_from.simps [simp del]

definition mentions_node_id :: "string \<Rightarrow> string \<Rightarrow> bool" where
  "mentions_node_id txt i = (if i = [] then False else mentions_from txt i 0)"

definition validate_artifact :: "Mode \<Rightarrow> NodeId \<Rightarrow> bool \<Rightarrow> HandoffArtifact \<Rightarrow> DagError + unit" where
  "validate_artifact mode i gate artifact =
     (if \<not> requires_gates mode then Inr ()
      else if gate then Inr ()
      else if trim (ha_findings artifact) = []
      then Inl (ThinArtifact i ''deep-mode artifact requires non-empty findings'')
      else if ha_what_i_did_not_check artifact = []
      then Inl (ThinArtifact i (''deep-mode artifact must list '' @ quoted ''what_i_did_not_check'' @
             '' (use an explicit '' @ quoted ''nothing, fully covered'' @
             '' entry only when truly exhaustive)''))
      else if confidence_level artifact = None
      then Inl (ThinArtifact i (''deep-mode artifact must state a confidence of low, medium, or high '' @
             ''(honest '' @ quoted ''low'' @ '' is welcome: it routes follow-up work instead of '' @
             ''penalizing you)''))
      else Inr ())"

definition GATE_COVERAGE_ENUMERATION_CAP :: nat where
  "GATE_COVERAGE_ENUMERATION_CAP = 20"

definition gate_audit_scope :: "TaskGraph \<Rightarrow> TaskNode \<Rightarrow> TaskNode list" where
  "gate_audit_scope g gate =
     filter (\<lambda>n. \<not> tn_is_gate n) (List.map_filter (tg_get g) (tn_depends_on gate))"

definition addressed_by :: "HandoffArtifact \<Rightarrow> NodeId \<Rightarrow> bool" where
  "addressed_by artifact i \<longleftrightarrow> mentions_node_id (ha_findings artifact) i \<or>
     list_ex (\<lambda>q. mentions_node_id q i) (ha_open_questions artifact)"

definition validate_gate_pass :: "TaskGraph \<Rightarrow> NodeId \<Rightarrow> HandoffArtifact \<Rightarrow> DagError + unit" where
  "validate_gate_pass g gate_id artifact = (case tg_get g gate_id of
     None \<Rightarrow> Inr ()
   | Some gate \<Rightarrow>
      (let scope = gate_audit_scope g gate;
           pending = map tn_id (filter (\<lambda>n. \<not> is_done n) scope);
           confidence_debts = map tn_id (filter (\<lambda>n. \<not> addressed_by artifact (tn_id n))
             (filter (\<lambda>n. output_level n = Some ConfLow) scope));
           uncovered = (if length scope \<le> GATE_COVERAGE_ENUMERATION_CAP
             then map tn_id (filter (\<lambda>n. \<not> addressed_by artifact (tn_id n)) scope)
             else map tn_id (filter (\<lambda>n. \<not> addressed_by artifact (tn_id n))
               (filter (\<lambda>n. output_level n \<noteq> Some ConfHigh) scope)))
       in if scope = [] then Inr ()
          else if pending \<noteq> [] then Inl (StaleGateScope gate_id pending)
          else if confidence_debts \<noteq> [] then Inl (UnaddressedLowConfidence gate_id confidence_debts)
          else if uncovered \<noteq> [] then Inl (UncoveredSiblings gate_id uncovered)
          else Inr ()))"

definition complete_node ::
  "TaskGraph \<Rightarrow> NodeId \<Rightarrow> string \<Rightarrow> HandoffArtifact \<Rightarrow> DagError + TaskGraph" where
  "complete_node g i actor artifact =
     and_then (owned_node g i actor) (\<lambda>node.
       if tn_status node \<noteq> NodeRunning then Inl (InvalidState i (tn_status node))
       else and_then (validate_artifact (tg_mode g) i (tn_is_gate node) artifact) (\<lambda>_.
         and_then (if tn_is_gate node \<and> requires_gates (tg_mode g)
                   then validate_gate_pass g i artifact else Inr ()) (\<lambda>_.
           Inr (tg_modify g i (\<lambda>n. n\<lparr>tn_status := NodeDone, tn_output := Some artifact\<rparr>)))))"

definition fail_node :: "TaskGraph \<Rightarrow> NodeId \<Rightarrow> string \<Rightarrow> DagError + TaskGraph" where
  "fail_node g i actor =
     and_then (owned_node g i actor) (\<lambda>node.
       if tn_status node \<noteq> NodeRunning then Inl (InvalidState i (tn_status node))
       else Inr (tg_modify g i (\<lambda>n. n\<lparr>tn_status := NodeFailed\<rparr>)))"

definition requeue_failed :: "TaskGraph \<Rightarrow> NodeId \<Rightarrow> DagError + TaskGraph" where
  "requeue_failed g i = (case tg_get g i of
     None \<Rightarrow> Inl (UnknownNode i)
   | Some node \<Rightarrow> if tn_status node \<noteq> NodeFailed then Inl (InvalidState i (tn_status node))
       else Inr (tg_modify g i (\<lambda>n. n\<lparr>tn_status := NodeQueued, tn_owner := None\<rparr>)))"

end
