(* ===== verification/Dag_Invariant.thy ===== *)
theory Dag_Invariant
  imports Dag_Ops
begin

text \<open>
  The invariant of a task graph and its preservation by every operation. The structural part says
  how composites, children and gates are wired, the status part says what a running or finished
  node may rely on. Both are stated over the set of nodes; \<open>dag_wf\<close> adds distinct ids and
  acyclicity.
\<close>

section \<open>The invariant\<close>

definition siblings :: "TaskNode set \<Rightarrow> TaskNode \<Rightarrow> TaskNode set" where
  "siblings N x = {c \<in> N. \<not> tn_is_gate c \<and> tn_parent c = tn_parent x}"

definition joined :: "TaskNode set \<Rightarrow> TaskNode \<Rightarrow> NodeId \<Rightarrow> bool" where
  "joined N n p \<longleftrightarrow> (\<exists>q \<in> N. tn_id q = p \<and> tn_expanded q \<and> \<not> tn_is_gate q \<and>
     tn_id n \<in> set (tn_depends_on q))"

definition gated :: "TaskNode set \<Rightarrow> NodeId option \<Rightarrow> bool" where
  "gated N p \<longleftrightarrow> (\<exists>x \<in> N. tn_is_gate x \<and> tn_parent x = p)"

text \<open>
  Every dependency is a node; a node with a parent is joined by that parent; gates exist only in deep
  mode, are not decomposed, and wait for exactly the work nodes under their own parent; one parent
  has at most one gate, and in deep mode every composite, and the root level once it holds work, has
  one.
\<close>

definition deps_ok :: "TaskNode set \<Rightarrow> TaskNode \<Rightarrow> bool" where
  "deps_ok N n \<longleftrightarrow> set (tn_depends_on n) \<subseteq> tn_id ` N \<and> distinct (tn_depends_on n) \<and> trim (tn_id n) \<noteq> []"

definition gate_ok :: "Mode \<Rightarrow> TaskNode set \<Rightarrow> TaskNode \<Rightarrow> bool" where
  "gate_ok m N x \<longleftrightarrow> m = Deep \<and> \<not> tn_expanded x \<and>
     set (tn_depends_on x) = tn_id ` siblings N x \<and>
     (\<forall>y \<in> N. tn_is_gate y \<longrightarrow> tn_parent x = tn_parent y \<longrightarrow> tn_id x = tn_id y)"

definition cover_ok :: "TaskNode set \<Rightarrow> TaskNode \<Rightarrow> bool" where
  "cover_ok N q \<longleftrightarrow> (tn_expanded q \<longrightarrow> gated N (Some (tn_id q))) \<and>
     (\<not> tn_is_gate q \<longrightarrow> tn_parent q = None \<longrightarrow> gated N None)"

definition struct_ok :: "Mode \<Rightarrow> TaskNode set \<Rightarrow> bool" where
  "struct_ok m N \<longleftrightarrow> inj_on tn_id N \<and> (\<forall>n \<in> N. deps_ok N n \<and>
     (\<forall>p. tn_parent n = Some p \<longrightarrow> joined N n p) \<and>
     (tn_is_gate n \<longrightarrow> gate_ok m N n) \<and> (m = Deep \<longrightarrow> cover_ok N n))"

definition relies_on_deps :: "TaskNode \<Rightarrow> bool" where
  "relies_on_deps n \<longleftrightarrow> is_done n \<or> (tn_status n = NodeRunning \<and> \<not> tn_is_gate n)"

text \<open>A passed audit: what the artifact of a done gate accounts for.\<close>

definition must_address :: "TaskNode \<Rightarrow> TaskNode \<Rightarrow> bool" where
  "must_address x c \<longleftrightarrow>
     length (tn_depends_on x) \<le> GATE_COVERAGE_ENUMERATION_CAP \<or> output_level c \<noteq> Some ConfHigh"

definition audited :: "TaskNode set \<Rightarrow> TaskNode \<Rightarrow> HandoffArtifact \<Rightarrow> bool" where
  "audited N x a \<longleftrightarrow> (\<forall>c \<in> N. tn_id c \<in> set (tn_depends_on x) \<longrightarrow> must_address x c \<longrightarrow> addressed_by a (tn_id c))"

definition substantive :: "HandoffArtifact \<Rightarrow> bool" where
  "substantive a \<longleftrightarrow> trim (ha_findings a) \<noteq> [] \<and> ha_what_i_did_not_check a \<noteq> [] \<and>
     confidence_level a \<noteq> None"

definition output_ok :: "Mode \<Rightarrow> TaskNode set \<Rightarrow> TaskNode \<Rightarrow> bool" where
  "output_ok m N n \<longleftrightarrow> (\<exists>a. tn_output n = Some a \<and>
     (if tn_is_gate n then audited N n a else m = Deep \<longrightarrow> substantive a))"

definition status_ok :: "Mode \<Rightarrow> TaskNode set \<Rightarrow> bool" where
  "status_ok m N \<longleftrightarrow>
     (\<forall>n \<in> N. relies_on_deps n \<longrightarrow> (\<forall>c \<in> N. tn_id c \<in> set (tn_depends_on n) \<longrightarrow> is_done c)) \<and>
     (\<forall>n \<in> N. is_done n \<longrightarrow> output_ok m N n) \<and>
     (\<forall>n \<in> N. (tn_status n = NodeRunning \<longrightarrow> tn_owner n \<noteq> None) \<and>
        (tn_status n = NodeQueued \<longrightarrow> tn_owner n = None))"

definition dag_wf :: "TaskGraph \<Rightarrow> bool" where
  "dag_wf g \<longleftrightarrow> distinct (dag_ids g) \<and> acyclic (dep_rel g) \<and>
     struct_ok (tg_mode g) (set (tg_nodes g)) \<and> status_ok (tg_mode g) (set (tg_nodes g))"

lemma dag_wf_new [wf_intros]: "dag_wf (task_graph_new m)"
  by (simp add: dag_wf_def task_graph_new_def dag_ids_def dep_rel_def struct_ok_def status_ok_def
      acyclic_def)

text \<open>The parts of the structural invariant, one rule each.\<close>

lemma struct_same_id: "struct_ok m N \<Longrightarrow> x \<in> N \<Longrightarrow> y \<in> N \<Longrightarrow> tn_id x = tn_id y \<Longrightarrow> x = y"
  by (simp add: struct_ok_def inj_on_def)

lemma struct_dep:
  assumes "struct_ok m N" and "n \<in> N" and "d \<in> set (tn_depends_on n)"
  shows "\<exists>c \<in> N. tn_id c = d"
proof -
  have "set (tn_depends_on n) \<subseteq> tn_id ` N" using assms(1,2) by (simp add: struct_ok_def deps_ok_def)
  with assms(3) show ?thesis by blast
qed

lemma struct_deps_distinct: "struct_ok m N \<Longrightarrow> n \<in> N \<Longrightarrow> distinct (tn_depends_on n)"
  by (simp add: struct_ok_def deps_ok_def)

lemma struct_nonblank: "struct_ok m N \<Longrightarrow> n \<in> N \<Longrightarrow> trim (tn_id n) \<noteq> []"
  by (simp add: struct_ok_def deps_ok_def)

lemma struct_joined: "struct_ok m N \<Longrightarrow> n \<in> N \<Longrightarrow> tn_parent n = Some p \<Longrightarrow> joined N n p"
  by (simp add: struct_ok_def)

lemma struct_gate_scope:
  "struct_ok m N \<Longrightarrow> x \<in> N \<Longrightarrow> tn_is_gate x \<Longrightarrow> set (tn_depends_on x) = tn_id ` siblings N x"
  by (simp add: struct_ok_def gate_ok_def)

lemma struct_gate_plain:
  "struct_ok m N \<Longrightarrow> x \<in> N \<Longrightarrow> tn_is_gate x \<Longrightarrow> m = Deep \<and> \<not> tn_expanded x"
  by (simp add: struct_ok_def gate_ok_def)

lemma struct_one_gate:
  assumes "struct_ok m N" and "x \<in> N" and "y \<in> N" and "tn_is_gate x" and "tn_is_gate y"
    and "tn_parent x = tn_parent y"
  shows "x = y"
proof (rule struct_same_id [OF assms(1-3)])
  have "gate_ok m N x" using assms(1,2,4) by (simp add: struct_ok_def)
  then show "tn_id x = tn_id y" using assms(3,5,6) by (simp add: gate_ok_def)
qed

lemma struct_gated: "struct_ok Deep N \<Longrightarrow> q \<in> N \<Longrightarrow> tn_expanded q \<Longrightarrow> gated N (Some (tn_id q))"
  by (simp add: struct_ok_def cover_ok_def)

lemma struct_root_gated:
  "struct_ok Deep N \<Longrightarrow> c \<in> N \<Longrightarrow> \<not> tn_is_gate c \<Longrightarrow> tn_parent c = None \<Longrightarrow> gated N None"
  by (simp add: struct_ok_def cover_ok_def)

text \<open>The parts of the status invariant.\<close>

lemma status_deps:
  "status_ok m N \<Longrightarrow> n \<in> N \<Longrightarrow> relies_on_deps n \<Longrightarrow> c \<in> N \<Longrightarrow> tn_id c \<in> set (tn_depends_on n) \<Longrightarrow> is_done c"
  by (simp add: status_ok_def)

lemma status_output: "status_ok m N \<Longrightarrow> n \<in> N \<Longrightarrow> is_done n \<Longrightarrow> output_ok m N n"
  by (simp add: status_ok_def)

lemma status_owner:
  "status_ok m N \<Longrightarrow> n \<in> N \<Longrightarrow> (tn_status n = NodeRunning \<longrightarrow> tn_owner n \<noteq> None) \<and>
     (tn_status n = NodeQueued \<longrightarrow> tn_owner n = None)"
  by (simp add: status_ok_def)

section \<open>The node set after an operation\<close>

lemma push_missing_set [simp]: "set (push_missing ds is) = set ds \<union> set is"
  by (induction "is" arbitrary: ds) (auto simp: push_missing_def)

lemma push_missing_distinct: "distinct ds \<Longrightarrow> distinct (push_missing ds is)"
  by (induction "is" arbitrary: ds) (auto simp: push_missing_def)

lemma push_missing_same: "set is \<subseteq> set ds \<Longrightarrow> push_missing ds is = ds"
  by (induction "is" arbitrary: ds) (auto simp: push_missing_def)

lemma nodes_push [simp]: "tg_nodes (tg_push g n) = tg_nodes g @ [n]"
  by (simp add: tg_push_def)

lemma nodes_push_specs [simp]:
  "tg_nodes (push_specs g specs p orig) = tg_nodes g @ map (\<lambda>s. spec_to_node s p orig) specs"
  by (simp add: push_specs_def graph.elems_pushes)

lemma mode_push_specs [simp]: "tg_mode (push_specs g specs p orig) = tg_mode g"
proof -
  have "tg_mode (foldl tg_push g ns) = tg_mode g" for ns
    by (induction ns arbitrary: g) simp_all
  then show ?thesis by (simp add: push_specs_def)
qed

lemma nodes_modify:
  "distinct (dag_ids g) \<Longrightarrow>
   tg_nodes (tg_modify g i f) = map (\<lambda>n. if tn_id n = i then f n else n) (tg_nodes g)"
  by (simp add: tg_modify_def dag_ids_def modify_key_map)

lemma dag_ids_push [simp]: "dag_ids (tg_push g n) = dag_ids g @ [tn_id n]"
  by (simp add: dag_ids_def)

lemma dag_ids_push_specs [simp]: "dag_ids (push_specs g specs p orig) = dag_ids g @ spec_ids specs"
  by (simp add: dag_ids_def spec_ids_def spec_to_node_def cong: option.case_cong)

lemma dag_ids_modify: "(\<And>n. tn_id (f n) = tn_id n) \<Longrightarrow> dag_ids (tg_modify g i f) = dag_ids g"
  by (simp add: dag_ids_def graph.keys_modify)

lemma tg_get_iff:
  "distinct (dag_ids g) \<Longrightarrow> tg_get g i = Some n \<longleftrightarrow> n \<in> set (tg_nodes g) \<and> tn_id n = i"
  using graph.get_elems [of g n] graph.get_key [of g i n] by (auto simp: dag_ids_def)

lemma dag_ids_iff: "i \<in> set (dag_ids g) \<longleftrightarrow> tg_contains g i"
  by (auto simp: dag_ids_def tg_contains_iff)

section \<open>Consequences of acyclicity\<close>

lemma dep_rel_intro:
  assumes "struct_ok m (set (tg_nodes g))" and "n \<in> set (tg_nodes g)" and "d \<in> set (tn_depends_on n)"
  shows "(d, tn_id n) \<in> dep_rel g"
  using struct_dep [OF assms] assms(2,3) unfolding dep_rel_def dag_ids_def by auto

lemma finite_dep_rel: "finite (dep_rel g)"
  by (rule dag_check.finite_edges)

text \<open>Through the composites above it, every node is below the root gate.\<close>

lemma below_root_gate:
  assumes ok: "struct_ok m (set (tg_nodes g))" and ac: "acyclic (dep_rel g)"
    and x: "x \<in> set (tg_nodes g)" "tn_is_gate x" "tn_parent x = None"
    and y: "y \<in> set (tg_nodes g)"
  shows "tn_id y = tn_id x \<or> (tn_id y, tn_id x) \<in> (dep_rel g)\<^sup>+"
proof -
  have wf: "wf ((dep_rel g)\<inverse>)" using finite_dep_rel ac by (rule finite_acyclic_wf_converse)
  show ?thesis using y
  proof (induction "tn_id y" arbitrary: y rule: wf_induct_rule [OF wf])
    case 1
    show ?case
    proof (cases "tn_parent y")
      case None
      show ?thesis
      proof (cases "tn_is_gate y")
        case True
        then show ?thesis using struct_one_gate [OF ok 1(2) x(1)] x None by simp
      next
        case False
        then have "tn_id y \<in> set (tn_depends_on x)"
          using struct_gate_scope [OF ok x(1,2)] 1(2) x None by (simp add: siblings_def)
        then show ?thesis using dep_rel_intro [OF ok x(1)] by blast
      qed
    next
      case (Some p)
      then have "joined (set (tg_nodes g)) y p" by (rule struct_joined [OF ok 1(2)])
      then obtain q where q: "q \<in> set (tg_nodes g)" "tn_id y \<in> set (tn_depends_on q)"
        by (auto simp: joined_def)
      have e: "(tn_id y, tn_id q) \<in> dep_rel g" using dep_rel_intro [OF ok q] .
      then have "tn_id q = tn_id x \<or> (tn_id q, tn_id x) \<in> (dep_rel g)\<^sup>+"
        using 1(1) [OF _ q(1)] by simp
      then show ?thesis using e by (auto intro: r_into_trancl trancl_into_trancl2)
    qed
  qed
qed

lemma no_dependent_of_root_gate:
  assumes ok: "struct_ok m (set (tg_nodes g))" and ac: "acyclic (dep_rel g)"
    and x: "x \<in> set (tg_nodes g)" "tn_is_gate x" "tn_parent x = None"
    and n: "n \<in> set (tg_nodes g)"
  shows "tn_id x \<notin> set (tn_depends_on n)"
proof
  assume "tn_id x \<in> set (tn_depends_on n)"
  then have e: "(tn_id x, tn_id n) \<in> dep_rel g" by (rule dep_rel_intro [OF ok n])
  have "tn_id n = tn_id x \<or> (tn_id n, tn_id x) \<in> (dep_rel g)\<^sup>+"
    by (rule below_root_gate [OF ok ac x n])
  then have "(tn_id x, tn_id x) \<in> (dep_rel g)\<^sup>+"
    using e by (auto intro: r_into_trancl trancl_into_trancl2)
  then show False using ac by (simp add: acyclic_def)
qed

section \<open>Extending and editing the node set\<close>

text \<open>
  Every operation edits some nodes and pushes fresh ones. These two rules reduce the preservation of
  the invariant to what the operation does to the wiring and to the statuses.
\<close>

lemma siblings_image:
  assumes "\<And>n. n \<in> N \<Longrightarrow> tn_id (upd n) = tn_id n \<and> tn_parent (upd n) = tn_parent n \<and>
      tn_is_gate (upd n) = tn_is_gate n"
    and "tn_parent y = tn_parent x"
  shows "tn_id ` siblings (upd ` N \<union> New) y = tn_id ` siblings (N \<union> New) x"
  using assms by (force simp: siblings_def image_iff)

lemma struct_extend:
  assumes ok: "struct_ok m N"
    and same: "\<And>n. n \<in> N \<Longrightarrow> tn_id (upd n) = tn_id n \<and> tn_parent (upd n) = tn_parent n \<and>
      tn_is_gate (upd n) = tn_is_gate n"
    and deps: "\<And>n. n \<in> N \<Longrightarrow> set (tn_depends_on n) \<subseteq> set (tn_depends_on (upd n)) \<and>
      set (tn_depends_on (upd n)) \<subseteq> tn_id ` N \<union> tn_id ` New \<and> distinct (tn_depends_on (upd n))"
    and expanded: "\<And>n. n \<in> N \<Longrightarrow> tn_expanded n \<Longrightarrow> tn_expanded (upd n)"
    and old_gates: "\<And>x. x \<in> N \<Longrightarrow> tn_is_gate x \<Longrightarrow> \<not> tn_expanded (upd x) \<and>
      set (tn_depends_on (upd x)) = set (tn_depends_on x) \<union> tn_id ` siblings New x"
    and fresh: "inj_on tn_id New" "tn_id ` New \<inter> tn_id ` N = {}"
    and new: "\<And>c. c \<in> New \<Longrightarrow> \<not> tn_expanded c \<and> distinct (tn_depends_on c) \<and> trim (tn_id c) \<noteq> [] \<and>
      set (tn_depends_on c) \<subseteq> tn_id ` N \<union> tn_id ` New"
    and parents: "\<And>c p. c \<in> New \<Longrightarrow> tn_parent c = Some p \<Longrightarrow> joined (upd ` N) c p"
    and new_gates: "\<And>x. x \<in> New \<Longrightarrow> tn_is_gate x \<Longrightarrow> m = Deep \<and>
      set (tn_depends_on x) = tn_id ` siblings (N \<union> New) x \<and>
      (\<forall>y \<in> N \<union> New. tn_is_gate y \<longrightarrow> tn_parent y = tn_parent x \<longrightarrow> tn_id y = tn_id x)"
    and composites: "\<And>q. m = Deep \<Longrightarrow> q \<in> N \<Longrightarrow> tn_expanded (upd q) \<Longrightarrow>
      tn_expanded q \<or> gated New (Some (tn_id q))"
    and roots: "\<And>c. m = Deep \<Longrightarrow> c \<in> New \<Longrightarrow> \<not> tn_is_gate c \<Longrightarrow> tn_parent c = None \<Longrightarrow> gated (N \<union> New) None"
  shows "struct_ok m (upd ` N \<union> New)"
proof -
  have old_ids: "tn_id ` upd ` N = tn_id ` N" using same by (simp add: image_image cong: image_cong)
  then have ids: "tn_id ` (upd ` N \<union> New) = tn_id ` N \<union> tn_id ` New" by (simp add: image_Un)
  have gated_mono: "gated (upd ` N \<union> New) p" if "gated (N \<union> New) p" for p
    using that same unfolding gated_def by blast
  have inj: "inj_on tn_id (upd ` N \<union> New)"
  proof -
    have "upd x = upd y" if "x \<in> N" "y \<in> N" "tn_id (upd x) = tn_id (upd y)" for x y
      using struct_same_id [OF ok that(1,2)] that(3) same [OF that(1)] same [OF that(2)] by simp
    then have "inj_on tn_id (upd ` N)" by (simp add: inj_on_def)
    moreover have "tn_id ` (upd ` N - New) \<inter> tn_id ` (New - upd ` N) = {}"
      using fresh(2) old_ids by blast
    ultimately show ?thesis using fresh(1) by (simp add: inj_on_Un)
  qed
  have old: "deps_ok (upd ` N \<union> New) (upd n)" if "n \<in> N" for n
    using deps [OF that] struct_nonblank [OF ok that] same [OF that] ids by (simp add: deps_ok_def)
  have old_joined: "joined (upd ` N \<union> New) (upd n) p" if n: "n \<in> N" and p: "tn_parent (upd n) = Some p" for n p
  proof -
    have "joined N n p" using struct_joined [OF ok n] p same [OF n] by simp
    then obtain q where "q \<in> N" "tn_id q = p" "tn_expanded q" "\<not> tn_is_gate q" "tn_id n \<in> set (tn_depends_on q)"
      by (auto simp: joined_def)
    then show ?thesis
      unfolding joined_def using same [of q] same [OF n] deps [of q] expanded [of q]
      by (intro bexI [of _ "upd q"]) auto
  qed
  have old_gate: "gate_ok m (upd ` N \<union> New) (upd x)" if x: "x \<in> N" and g: "tn_is_gate (upd x)" for x
  proof -
    have gx: "tn_is_gate x" using g same [OF x] by simp
    have "set (tn_depends_on (upd x)) = tn_id ` siblings (N \<union> New) x"
      using old_gates [OF x gx] struct_gate_scope [OF ok x gx] by (auto simp: siblings_def image_Un)
    also have "\<dots> = tn_id ` siblings (upd ` N \<union> New) (upd x)"
      using siblings_image [OF same, of N "upd x" x New] same [OF x] by simp
    finally have scope: "set (tn_depends_on (upd x)) = tn_id ` siblings (upd ` N \<union> New) (upd x)" .
    have uniq: "tn_id (upd x) = tn_id y"
      if y: "y \<in> upd ` N \<union> New" "tn_is_gate y" "tn_parent (upd x) = tn_parent y" for y
    proof (cases "y \<in> New")
      case True
      then show ?thesis using new_gates [OF True y(2)] x gx same [OF x] y(3) by simp
    next
      case False
      then obtain n where n: "n \<in> N" "y = upd n" using y(1) by blast
      then show ?thesis using struct_one_gate [OF ok x n(1) gx] y same [OF x] same [OF n(1)] by simp
    qed
    show ?thesis
      using scope uniq old_gates [OF x gx] struct_gate_plain [OF ok x gx] by (simp add: gate_ok_def)
  qed
  have old_cover: "cover_ok (upd ` N \<union> New) (upd q)" if d: "m = Deep" and q: "q \<in> N" for q
  proof -
    have "gated (N \<union> New) (Some (tn_id q))" if "tn_expanded (upd q)"
      using composites [OF d q that] struct_gated [of N q] ok d q by (auto simp: gated_def)
    moreover have "gated (N \<union> New) None" if "\<not> tn_is_gate q" "tn_parent q = None"
      using struct_root_gated [of N q] ok d q that by (auto simp: gated_def)
    ultimately show ?thesis using gated_mono same [OF q] by (simp add: cover_ok_def)
  qed
  have new_joined: "joined (upd ` N \<union> New) c p" if "c \<in> New" "tn_parent c = Some p" for c p
    using parents [OF that] by (auto simp: joined_def)
  have new_gate: "gate_ok m (upd ` N \<union> New) x" if x: "x \<in> New" and g: "tn_is_gate x" for x
  proof -
    have "tn_id x = tn_id y"
      if y: "y \<in> upd ` N \<union> New" "tn_is_gate y" "tn_parent x = tn_parent y" for y
      using y new_gates [OF x g] same by fastforce
    then show ?thesis
      using new_gates [OF x g] new [OF x] siblings_image [OF same, of N x x New] by (simp add: gate_ok_def)
  qed
  have new_cover: "cover_ok (upd ` N \<union> New) c" if "m = Deep" "c \<in> New" for c
    using new [OF that(2)] roots [OF that] gated_mono by (simp add: cover_ok_def)
  have new_deps: "deps_ok (upd ` N \<union> New) c" if "c \<in> New" for c
    using new [OF that] ids by (simp add: deps_ok_def)
  show ?thesis
    unfolding struct_ok_def
    using inj old old_joined old_gate old_cover new_joined new_gate new_cover new_deps by blast
qed

lemma struct_update:
  assumes ok: "struct_ok m N"
    and same: "\<And>n. n \<in> N \<Longrightarrow> tn_id (upd n) = tn_id n \<and> tn_parent (upd n) = tn_parent n \<and>
      tn_is_gate (upd n) = tn_is_gate n \<and> tn_depends_on (upd n) = tn_depends_on n \<and>
      tn_expanded (upd n) = tn_expanded n"
  shows "struct_ok m (upd ` N)"
proof -
  have "struct_ok m (upd ` N \<union> {})"
  proof (rule struct_extend [OF ok])
    fix n assume n: "n \<in> N"
    show "set (tn_depends_on n) \<subseteq> set (tn_depends_on (upd n)) \<and>
        set (tn_depends_on (upd n)) \<subseteq> tn_id ` N \<union> tn_id ` {} \<and> distinct (tn_depends_on (upd n))"
      using same [OF n] ok n by (auto simp: struct_ok_def deps_ok_def)
  qed (use same struct_gate_plain [OF ok] in \<open>auto simp: siblings_def\<close>)
  then show ?thesis by simp
qed

lemma output_ok_cong:
  assumes "output_ok m N n"
    and "\<And>c'. c' \<in> N' \<Longrightarrow> tn_id c' \<in> set (tn_depends_on n) \<Longrightarrow>
      \<exists>c \<in> N. tn_id c = tn_id c' \<and> tn_output c = tn_output c'"
  shows "output_ok m N' n"
proof -
  have "audited N' n a" if a: "audited N n a" for a
    unfolding audited_def
  proof (intro ballI impI)
    fix c' assume c': "c' \<in> N'" "tn_id c' \<in> set (tn_depends_on n)" "must_address n c'"
    obtain c where c: "c \<in> N" "tn_id c = tn_id c'" "tn_output c = tn_output c'"
      using assms(2) [OF c'(1,2)] by blast
    then have "must_address n c" using c'(3) by (simp add: must_address_def output_level_def)
    then show "addressed_by a (tn_id c')" using a c c'(2) by (auto simp: audited_def)
  qed
  then show ?thesis using assms(1) unfolding output_ok_def by (auto split: if_splits)
qed

lemma status_extend:
  assumes sok: "struct_ok m N" and ok: "status_ok m N"
    and id: "\<And>n. n \<in> N \<Longrightarrow> tn_id (upd n) = tn_id n"
    and step: "\<And>n. n \<in> N \<Longrightarrow> upd n = n \<or> \<not> relies_on_deps (upd n) \<or>
      (tn_depends_on (upd n) = tn_depends_on n \<and>
       (\<forall>c \<in> N. tn_id c \<in> set (tn_depends_on n) \<longrightarrow> is_done c) \<and>
       (is_done (upd n) \<longrightarrow> output_ok m N (upd n)))"
    and kept: "\<And>n. n \<in> N \<Longrightarrow> is_done n \<Longrightarrow> upd n = n \<or> (\<forall>k \<in> N. tn_id n \<notin> set (tn_depends_on k))"
    and owner: "\<And>n. n \<in> N \<Longrightarrow> (tn_status (upd n) = NodeRunning \<longrightarrow> tn_owner (upd n) \<noteq> None) \<and>
      (tn_status (upd n) = NodeQueued \<longrightarrow> tn_owner (upd n) = None)"
    and new: "\<And>c. c \<in> New \<Longrightarrow> tn_status c = NodeQueued \<and> tn_owner c = None"
    and fresh: "tn_id ` New \<inter> tn_id ` N = {}"
  shows "status_ok m (upd ` N \<union> New)"
proof -
  have dep: "\<exists>c \<in> N. c' = c \<and> is_done c"
    if n: "n \<in> N" "relies_on_deps (upd n)" and c': "c' \<in> upd ` N \<union> New" "tn_id c' \<in> set (tn_depends_on (upd n))"
    for n c'
  proof -
    have "tn_depends_on (upd n) = tn_depends_on n \<and>
        (\<forall>c \<in> N. tn_id c \<in> set (tn_depends_on n) \<longrightarrow> is_done c)"
    proof (cases "upd n = n")
      case True
      then show ?thesis using n(2) status_deps [OF ok n(1)] by simp
    next
      case False
      then show ?thesis using step [OF n(1)] n(2) by blast
    qed
    then have deps: "tn_depends_on (upd n) = tn_depends_on n"
      and dn: "\<And>c. c \<in> N \<Longrightarrow> tn_id c \<in> set (tn_depends_on n) \<Longrightarrow> is_done c" by blast+
    have "tn_id c' \<in> set (tn_depends_on n)" using c'(2) deps by simp
    from struct_dep [OF sok n(1) this] obtain d where d: "d \<in> N" "tn_id d = tn_id c'" by blast
    have "c' \<notin> New" using d fresh by force
    then obtain c where c: "c \<in> N" "c' = upd c" using c'(1) by blast
    have "tn_id c = tn_id d" unfolding d(2) c(2) by (rule id [OF c(1), symmetric])
    then have "c = d" by (rule struct_same_id [OF sok c(1) d(1)])
    have dep_c: "tn_id c \<in> set (tn_depends_on n)" using \<open>c = d\<close> d(2) c'(2) deps by simp
    then have dc: "is_done c" using dn [OF c(1)] by blast
    then have "upd c = c" using kept [OF c(1)] dep_c n(1) by blast
    then show ?thesis using c dc by (intro bexI [of _ c]) simp_all
  qed
  have out: "output_ok m (upd ` N \<union> New) (upd n)" if n: "n \<in> N" "is_done (upd n)" for n
  proof (rule output_ok_cong)
    show "output_ok m N (upd n)" using step [OF n(1)] n status_output [OF ok n(1)]
      by (auto simp: relies_on_deps_def)
    show "\<exists>c \<in> N. tn_id c = tn_id c' \<and> tn_output c = tn_output c'"
      if "c' \<in> upd ` N \<union> New" "tn_id c' \<in> set (tn_depends_on (upd n))" for c'
    proof -
      have "relies_on_deps (upd n)" using n(2) by (simp add: relies_on_deps_def)
      from dep [OF n(1) this that] show ?thesis by blast
    qed
  qed
  have new': "\<not> relies_on_deps c \<and> \<not> is_done c" if "c \<in> New" for c
    using new [OF that] by (simp add: relies_on_deps_def is_done_def)
  show ?thesis
    unfolding status_ok_def
  proof (intro conjI ballI impI)
    fix n c assume "n \<in> upd ` N \<union> New" "relies_on_deps n" "c \<in> upd ` N \<union> New"
      "tn_id c \<in> set (tn_depends_on n)"
    then show "is_done c" using dep new' by blast
  next
    fix n assume "n \<in> upd ` N \<union> New" "is_done n"
    then show "output_ok m (upd ` N \<union> New) n" using out new' by blast
  qed (use owner new in auto)
qed

end
