(* ===== verification/Dag_Preserve.thy ===== *)
theory Dag_Preserve
  imports Dag_Invariant
begin

text \<open>
  Every operation of the task graph, the dispatch of the scheduler included, preserves the invariant
  \<open>dag_wf\<close>; the graphs reachable from an empty one are an invariant system.
\<close>

section \<open>Operations that change one status\<close>

abbreviation nodes_of :: "TaskGraph \<Rightarrow> TaskNode set" where
  "nodes_of g \<equiv> set (tg_nodes g)"

lemma dag_wfD:
  assumes "dag_wf g"
  shows "distinct (dag_ids g)" "acyclic (dep_rel g)"
    "struct_ok (tg_mode g) (nodes_of g)" "status_ok (tg_mode g) (nodes_of g)"
  using assms by (simp_all add: dag_wf_def)

lemma get_node:
  assumes "dag_wf g" and "tg_get g i = Some r"
  shows "r \<in> nodes_of g" "tn_id r = i" "\<And>n. n \<in> nodes_of g \<Longrightarrow> tn_id n = i \<Longrightarrow> n = r"
proof -
  show r: "r \<in> nodes_of g" "tn_id r = i"
    using assms(2) by (simp_all add: tg_get_iff [OF dag_wfD(1) [OF assms(1)]])
  show "n = r" if "n \<in> nodes_of g" "tn_id n = i" for n
    using struct_same_id [OF dag_wfD(3) [OF assms(1)] that(1) r(1)] that(2) r(2) by simp
qed

lemma dag_wf_update:
  assumes wf: "dag_wf g" and r: "tg_get g i = Some r"
    and same: "\<And>n. tn_id (f n) = tn_id n \<and> tn_parent (f n) = tn_parent n \<and>
      tn_is_gate (f n) = tn_is_gate n \<and> tn_depends_on (f n) = tn_depends_on n \<and>
      tn_expanded (f n) = tn_expanded n"
    and step: "\<not> relies_on_deps (f r) \<or>
      (\<forall>c \<in> nodes_of g. tn_id c \<in> set (tn_depends_on r) \<longrightarrow> is_done c) \<and>
      (is_done (f r) \<longrightarrow> output_ok (tg_mode g) (nodes_of g) (f r))"
    and not_done: "\<not> is_done r"
    and owner: "(tn_status (f r) = NodeRunning \<longrightarrow> tn_owner (f r) \<noteq> None) \<and>
      (tn_status (f r) = NodeQueued \<longrightarrow> tn_owner (f r) = None)"
  shows "dag_wf (tg_modify g i f)"
proof -
  let ?upd = "\<lambda>n. if tn_id n = i then f n else n"
  have N: "nodes_of (tg_modify g i f) = ?upd ` nodes_of g"
    by (simp add: nodes_modify [OF dag_wfD(1) [OF wf]])
  have ids: "dag_ids (tg_modify g i f) = dag_ids g" using same by (simp add: dag_ids_modify)
  have "{(d, tn_id n) | d n. n \<in> ?upd ` nodes_of g \<and> d \<in> set (tn_depends_on n) \<and> d \<in> I} =
      {(d, tn_id n) | d n. n \<in> nodes_of g \<and> d \<in> set (tn_depends_on n) \<and> d \<in> I}" (is "?A = ?B") for I
  proof (intro equalityI subsetI)
    show "e \<in> ?B" if "e \<in> ?A" for e using that same by (auto split: if_splits)
    fix e assume "e \<in> ?B"
    then obtain d n where e: "e = (d, tn_id n)" "n \<in> nodes_of g" "d \<in> set (tn_depends_on n)" "d \<in> I" by blast
    then have "e = (d, tn_id (?upd n))" "?upd n \<in> ?upd ` nodes_of g" "d \<in> set (tn_depends_on (?upd n))"
      by (simp_all add: same)
    with e(4) show "e \<in> ?A" by blast
  qed
  then have "dep_rel (tg_modify g i f) = dep_rel g" unfolding dep_rel_def N ids .
  moreover have "struct_ok (tg_mode g) (?upd ` nodes_of g)"
    by (rule struct_update [OF dag_wfD(3) [OF wf]]) (simp add: same)
  moreover have "status_ok (tg_mode g) (?upd ` nodes_of g \<union> {})"
  proof (rule status_extend [OF dag_wfD(3,4) [OF wf]])
    fix n assume n: "n \<in> nodes_of g"
    have cases: "n = r \<and> ?upd n = f r \<or> ?upd n = n"
      using get_node(3) [OF wf r n] by auto
    show "tn_id (?upd n) = tn_id n" by (simp add: same)
    show "?upd n = n \<or> \<not> relies_on_deps (?upd n) \<or>
        tn_depends_on (?upd n) = tn_depends_on n \<and>
        (\<forall>c \<in> nodes_of g. tn_id c \<in> set (tn_depends_on n) \<longrightarrow> is_done c) \<and>
        (is_done (?upd n) \<longrightarrow> output_ok (tg_mode g) (nodes_of g) (?upd n))"
      using cases
    proof
      assume "n = r \<and> ?upd n = f r"
      then show ?thesis using step same [of r] by simp
    qed blast
    show "?upd n = n \<or> (\<forall>k \<in> nodes_of g. tn_id n \<notin> set (tn_depends_on k))" if "is_done n"
      using cases not_done that by blast
    show "(tn_status (?upd n) = NodeRunning \<longrightarrow> tn_owner (?upd n) \<noteq> None) \<and>
        (tn_status (?upd n) = NodeQueued \<longrightarrow> tn_owner (?upd n) = None)"
      using cases
    proof
      assume "n = r \<and> ?upd n = f r"
      then have e: "?upd n = f r" by (rule conjunct2)
      show ?thesis unfolding e by (rule owner)
    qed (use status_owner [OF dag_wfD(4) [OF wf] n] in simp)
  qed simp_all
  ultimately show ?thesis using dag_wfD(1,2) [OF wf] by (simp add: dag_wf_def N ids)
qed

lemma deps_done:
  assumes wf: "dag_wf g" and "n \<in> nodes_of g"
  shows "deps_satisfied g n \<longleftrightarrow> (\<forall>c \<in> nodes_of g. tn_id c \<in> set (tn_depends_on n) \<longrightarrow> is_done c)"
proof -
  have "(\<exists>m. tg_get g d = Some m \<and> is_done m) \<longleftrightarrow> (\<forall>c \<in> nodes_of g. tn_id c = d \<longrightarrow> is_done c)"
    if d: "d \<in> set (tn_depends_on n)" for d
  proof -
    obtain c where c: "c \<in> nodes_of g" "tn_id c = d"
      using struct_dep [OF dag_wfD(3) [OF wf] assms(2) d] by blast
    then have get: "tg_get g d = Some c" by (simp add: tg_get_iff [OF dag_wfD(1) [OF wf]])
    have "(\<forall>c' \<in> nodes_of g. tn_id c' = d \<longrightarrow> is_done c') \<longleftrightarrow> is_done c"
      using c get_node(3) [OF wf get] by blast
    then show ?thesis unfolding get by simp
  qed
  then show ?thesis unfolding deps_satisfied_iff by blast
qed

lemma dispatch_wf [wf_intros]:
  assumes wf: "dag_wf g"
  shows "dag_wf (snd (dispatch g i w))"
proof (cases "dispatch g i w")
  case (Pair ok g')
  show ?thesis
  proof (cases ok)
    case True
    with Pair have "dispatch g i w = (True, g')" by simp
    then obtain r where r: "tg_get g i = Some r" "tn_status r = NodeQueued" "deps_satisfied g r"
      "g' = tg_modify g i (\<lambda>n. n\<lparr>tn_owner := Some w, tn_status := NodeRunning\<rparr>)"
      by (rule dispatch_True)
    have "dag_wf g'"
      unfolding r(4)
      by (rule dag_wf_update [OF wf r(1)])
        (use r(2,3) deps_done [OF wf get_node(1) [OF wf r(1)]] in \<open>simp_all add: is_done_def\<close>)
    then show ?thesis using Pair by simp
  next
    case False
    then show ?thesis using Pair wf by (auto simp: dispatch_def Let_def split: if_splits)
  qed
qed

lemma owned_node_Inr:
  "owned_node g i actor = Inr r \<longleftrightarrow> tg_get g i = Some r \<and> tn_owner r = Some actor"
  by (auto simp: owned_node_def split: option.splits)

lemma fail_node_wf [wf_intros]:
  assumes wf: "dag_wf g" and "fail_node g i actor = Inr g'"
  shows "dag_wf g'"
proof -
  obtain r where r: "tg_get g i = Some r" "tn_status r = NodeRunning"
    "g' = tg_modify g i (\<lambda>n. n\<lparr>tn_status := NodeFailed\<rparr>)"
    using assms(2) by (auto simp: fail_node_def and_then_Inr owned_node_Inr split: if_splits)
  show ?thesis
    unfolding r(3)
    by (rule dag_wf_update [OF wf r(1)]) (use r(2) in \<open>simp_all add: is_done_def relies_on_deps_def\<close>)
qed

lemma requeue_failed_wf [wf_intros]:
  assumes wf: "dag_wf g" and "requeue_failed g i = Inr g'"
  shows "dag_wf g'"
proof -
  obtain r where r: "tg_get g i = Some r" "tn_status r = NodeFailed"
    "g' = tg_modify g i (\<lambda>n. n\<lparr>tn_status := NodeQueued, tn_owner := None\<rparr>)"
    using assms(2) by (auto simp: requeue_failed_def split: option.splits if_splits)
  show ?thesis
    unfolding r(3)
    by (rule dag_wf_update [OF wf r(1)]) (use r(2) in \<open>simp_all add: is_done_def relies_on_deps_def\<close>)
qed

section \<open>Completion\<close>

lemma gate_scope_nodes:
  assumes wf: "dag_wf g" and x: "x \<in> nodes_of g" "tn_is_gate x"
  shows "set (gate_audit_scope g x) = {c \<in> nodes_of g. tn_id c \<in> set (tn_depends_on x)}"
    "length (gate_audit_scope g x) = length (tn_depends_on x)"
proof -
  have get: "\<exists>c. tg_get g d = Some c \<and> \<not> tn_is_gate c" if "d \<in> set (tn_depends_on x)" for d
  proof -
    have "d \<in> tn_id ` siblings (nodes_of g) x"
      using struct_gate_scope [OF dag_wfD(3) [OF wf] x] that by simp
    then show ?thesis using tg_get_iff [OF dag_wfD(1) [OF wf]] by (auto simp: siblings_def)
  qed
  have set: "set (List.map_filter (tg_get g) (tn_depends_on x)) =
      {c \<in> nodes_of g. tn_id c \<in> set (tn_depends_on x)}"
    using tg_get_iff [OF dag_wfD(1) [OF wf]] by (auto simp: set_map_filter)
  have "\<not> tn_is_gate c" if "c \<in> set (List.map_filter (tg_get g) (tn_depends_on x))" for c
    using that get by (fastforce simp: set_map_filter)
  then have all: "gate_audit_scope g x = List.map_filter (tg_get g) (tn_depends_on x)"
    by (simp add: gate_audit_scope_def)
  show "set (gate_audit_scope g x) = {c \<in> nodes_of g. tn_id c \<in> set (tn_depends_on x)}"
    using set all by simp
  show "length (gate_audit_scope g x) = length (tn_depends_on x)"
    unfolding all by (rule length_map_filter) (use get in fastforce)
qed

text \<open>Passing the gate checks is being audited, with everything in scope done.\<close>

lemma validate_gate_pass_iff:
  assumes wf: "dag_wf g" and x: "x \<in> nodes_of g" "tn_is_gate x"
  shows "validate_gate_pass g (tn_id x) a = Inr () \<longleftrightarrow>
    (\<forall>c \<in> nodes_of g. tn_id c \<in> set (tn_depends_on x) \<longrightarrow> is_done c) \<and> audited (nodes_of g) x a"
proof -
  have get: "tg_get g (tn_id x) = Some x" using tg_get_iff [OF dag_wfD(1) [OF wf]] x by simp
  show ?thesis
    unfolding validate_gate_pass_def get audited_def must_address_def
      gate_scope_nodes(2) [OF wf x, symmetric]
    using gate_scope_nodes(1) [OF wf x]
    by (auto simp: Let_def filter_empty_conv)
qed

lemma complete_node_wf [wf_intros]:
  assumes wf: "dag_wf g" and "complete_node g i actor a = Inr g'"
  shows "dag_wf g'"
proof -
  obtain r where r: "tg_get g i = Some r" "tn_status r = NodeRunning"
    "validate_artifact (tg_mode g) i (tn_is_gate r) a = Inr ()"
    "tn_is_gate r \<and> requires_gates (tg_mode g) \<Longrightarrow> validate_gate_pass g i a = Inr ()"
    "g' = tg_modify g i (\<lambda>n. n\<lparr>tn_status := NodeDone, tn_output := Some a\<rparr>)"
    using assms(2) by (auto simp: complete_node_def and_then_Inr owned_node_Inr split: if_splits)
  note node = get_node [OF wf r(1)]
  have gate: "(\<forall>c \<in> nodes_of g. tn_id c \<in> set (tn_depends_on r) \<longrightarrow> is_done c) \<and> audited (nodes_of g) r a"
    if "tn_is_gate r"
    using r(4) that struct_gate_plain [OF dag_wfD(3) [OF wf] node(1) that]
      validate_gate_pass_iff [OF wf node(1) that, of a] node(2) by (simp add: requires_gates_def)
  have work: "\<forall>c \<in> nodes_of g. tn_id c \<in> set (tn_depends_on r) \<longrightarrow> is_done c" if "\<not> tn_is_gate r"
    using status_deps [OF dag_wfD(4) [OF wf] node(1)] r(2) that by (simp add: relies_on_deps_def)
  have thick: "tg_mode g = Deep \<longrightarrow> substantive a" if "\<not> tn_is_gate r"
    using r(3) that by (auto simp: validate_artifact_def substantive_def requires_gates_def split: if_splits)
  have out: "output_ok (tg_mode g) (nodes_of g) (r\<lparr>tn_status := NodeDone, tn_output := Some a\<rparr>)"
    using gate thick by (simp add: output_ok_def audited_def must_address_def)
  show ?thesis
    unfolding r(5)
    by (rule dag_wf_update [OF wf r(1)]) (use r(2) gate work out in \<open>auto simp: is_done_def\<close>)
qed

section \<open>Batches of new nodes\<close>

definition fresh_batch :: "TaskGraph \<Rightarrow> NodeSpec list \<Rightarrow> bool" where
  "fresh_batch g specs \<longleftrightarrow> distinct (spec_ids specs) \<and> set (spec_ids specs) \<inter> set (dag_ids g) = {} \<and>
     (\<forall>s \<in> set specs. ns_id s \<noteq> None) \<and> (\<forall>i \<in> set (spec_ids specs). trim i \<noteq> [])"

lemma validated_spec_id_Inr: "validated_spec_id s op = Inr i \<longleftrightarrow> ns_id s = Some i \<and> trim i \<noteq> []"
  by (auto simp: validated_spec_id_def split: option.splits)

lemma spec_ids_simps [simp]:
  "spec_ids [] = []" "spec_ids (s # ss) = (case ns_id s of Some i \<Rightarrow> i | None \<Rightarrow> []) # spec_ids ss"
  "length (spec_ids ss) = length ss"
  by (simp_all add: spec_ids_def)

lemma collect_new_ids_Inr:
  assumes "collect_new_ids g op specs seen = Inr ids"
  shows "ids = spec_ids specs \<and> fresh_batch g specs \<and> set ids \<inter> set seen = {}"
  using assms
proof (induction g op specs seen arbitrary: ids rule: collect_new_ids.induct)
  case (1 g op seen)
  then show ?case by (simp add: fresh_batch_def)
next
  case (2 g op spec specs seen)
  then obtain i js where i: "validated_spec_id spec op = Inr i" "\<not> (tg_contains g i \<or> i \<in> set seen)"
    "collect_new_ids g op specs (i # seen) = Inr js" "ids = i # js"
    by (auto simp: and_then_Inr split: if_splits)
  have "js = spec_ids specs \<and> fresh_batch g specs \<and> set js \<inter> set (i # seen) = {}"
    using 2(1) [OF i(2,3)] .
  then show ?case
    using i by (auto simp: fresh_batch_def validated_spec_id_Inr dag_ids_iff)
qed

lemma check_dependencies_Inr:
  "check_dependencies g specs = Inr u \<Longrightarrow> s \<in> set specs \<Longrightarrow> d \<in> set (ns_depends_on s) \<Longrightarrow>
   d \<in> set (spec_ids specs) \<or> d \<in> set (dag_ids g)"
proof -
  assume ok: "check_dependencies g specs = Inr u" and s: "s \<in> set specs" and d: "d \<in> set (ns_depends_on s)"
  obtain k where k: "k < length specs" "specs ! k = s" using s by (auto simp: in_set_conv_nth)
  then have "(s, spec_ids specs ! k) \<in> set (zip specs (spec_ids specs))"
    by (auto simp: in_set_conv_nth intro!: exI [of _ k])
  then have "(spec_ids specs ! k, d) \<in> set (concat (map (\<lambda>(s, i). map (Pair i) (ns_depends_on s)) (zip specs (spec_ids specs))))"
    using d by force
  then show ?thesis using ok unfolding check_dependencies_def dag_ids_iff by (fastforce split: if_splits)
qed

text \<open>The nodes a fresh, checked batch becomes.\<close>

abbreviation batch_nodes :: "NodeSpec list \<Rightarrow> NodeId option \<Rightarrow> NodeOrigin \<Rightarrow> TaskNode set" where
  "batch_nodes specs parent orig \<equiv> (\<lambda>s. spec_to_node s parent orig) ` set specs"

lemma spec_to_node_simps [simp]:
  "tn_parent (spec_to_node s p orig) = p" "tn_status (spec_to_node s p orig) = NodeQueued"
  "tn_owner (spec_to_node s p orig) = None" "\<not> tn_expanded (spec_to_node s p orig)"
  "\<not> tn_is_gate (spec_to_node s p orig)" "set (tn_depends_on (spec_to_node s p orig)) = set (ns_depends_on s)"
  "distinct (tn_depends_on (spec_to_node s p orig))"
  by (simp_all add: spec_to_node_def push_missing_distinct)

lemma gate_node_simps [simp]:
  "tn_id (gate_node i c k p ds) = i" "tn_parent (gate_node i c k p ds) = p"
  "tn_status (gate_node i c k p ds) = NodeQueued" "tn_owner (gate_node i c k p ds) = None"
  "\<not> tn_expanded (gate_node i c k p ds)" "tn_is_gate (gate_node i c k p ds)"
  "tn_depends_on (gate_node i c k p ds) = ds"
  by (simp_all add: gate_node_def)

lemma batch_ids: "tn_id ` batch_nodes specs p orig = set (spec_ids specs)"
  by (auto simp: spec_ids_def spec_to_node_def image_iff cong: option.case_cong)

lemma batch_inj: "distinct (spec_ids specs) \<Longrightarrow> inj_on tn_id (batch_nodes specs p orig)"
  by (simp add: spec_ids_def spec_to_node_def distinct_map inj_on_def cong: option.case_cong) blast

lemma batch_siblings:
  "siblings (batch_nodes specs p orig) x = (if tn_parent x = p then batch_nodes specs p orig else {})"
  by (auto simp: siblings_def)

lemma siblings_Un: "siblings (A \<union> B) x = siblings A x \<union> siblings B x"
  by (auto simp: siblings_def)

lemma siblings_gate [simp]: "tn_is_gate y \<Longrightarrow> siblings (insert y A) x = siblings A x"
  by (auto simp: siblings_def)

lemma unique_gate_id_fresh: "\<not> tg_contains g (unique_gate_id g i)"
proof -
  have "\<not> tg_contains g (gate_id_from g base n)" for base n
  proof (induction g base n rule: gate_id_from.induct)
    case (1 g base n)
    then show ?case by (subst gate_id_from.simps) (simp add: Let_def)
  qed
  then show ?thesis by (simp add: unique_gate_id_def Let_def)
qed

lemma last_digit_char: "n < 10 \<Longrightarrow> digit_char n \<notin> last ` set ws_chars"
proof -
  assume "n < 10"
  then have "n \<in> {0,1,2,3,4,5,6,7,8,9}" by auto
  then show ?thesis by (elim insertE emptyE) (simp_all only:, code_simp+)
qed

lemma unique_gate_id_nonblank: "trim (unique_gate_id g i) \<noteq> []"
proof -
  have digit: "nat_to_string n \<noteq> [] \<and> last (nat_to_string n) \<notin> last ` set ws_chars" for n
    using last_digit_char [of n] last_digit_char [of "n mod 10"]
    by (subst (1 2) nat_to_string.simps) auto
  have "\<exists>n. gate_id_from g base k = base @ nat_to_string n" for base k
  proof (induction g base k rule: gate_id_from.induct)
    case (1 g base n)
    then show ?case by (subst gate_id_from.simps) (auto simp: Let_def)
  qed
  then obtain n where "unique_gate_id g i = i @ ''::gate'' \<or>
      unique_gate_id g i = (i @ ''::gate'') @ nat_to_string n"
    unfolding unique_gate_id_def Let_def by (metis append_assoc)
  moreover have "trim (i @ ''::gate'') \<noteq> []"
  proof (rule trim_not_blank)
    have "CHR ''e'' \<notin> last ` set ws_chars" by code_simp
    then show "last (i @ ''::gate'') \<notin> last ` set ws_chars" by simp
  qed simp
  moreover have "trim ((i @ ''::gate'') @ nat_to_string n) \<noteq> []"
    by (rule trim_not_blank) (use digit [of n] in simp_all)
  ultimately show ?thesis by metis
qed

end
