(* ===== verification/Dag_Growth.thy ===== *)
theory Dag_Growth
  imports Dag_Preserve
begin

text \<open>
  The operations that add nodes, expansion, gap injection and seeding, preserve the invariant; the
  step relation over all operations and its reachable graphs.
\<close>

lemma reject_cycle_Inr: "reject_cycle s = Inr g \<longleftrightarrow> g = s \<and> acyclic (dep_rel s)"
  using dag_check.detect_Nil_iff [of s] by (auto simp: reject_cycle_def Let_def)

lemma map_edit_image:
  assumes "\<And>c. c \<in> New \<Longrightarrow> tn_id c \<noteq> i"
  shows "(\<lambda>n. if tn_id n = i then f n else n) ` (N \<union> New) = (\<lambda>n. if tn_id n = i then f n else n) ` N \<union> New"
  using assms by (auto simp: image_Un image_iff)

lemma unique_gate_id_new: "unique_gate_id g i \<notin> set (dag_ids g)"
  by (simp add: dag_ids_iff unique_gate_id_fresh)

lemma fresh_batch_ids:
  assumes "fresh_batch g specs"
  shows "tn_id ` batch_nodes specs p orig \<inter> tn_id ` nodes_of g = {}"
    "c \<in> batch_nodes specs p orig \<Longrightarrow> trim (tn_id c) \<noteq> []"
    "c \<in> batch_nodes specs p orig \<Longrightarrow> tn_id c \<notin> set (dag_ids g)"
proof -
  show disj: "tn_id ` batch_nodes specs p orig \<inter> tn_id ` nodes_of g = {}"
    using assms by (auto simp: batch_ids fresh_batch_def dag_ids_def)
  assume c: "c \<in> batch_nodes specs p orig"
  have "tn_id c \<in> tn_id ` batch_nodes specs p orig" using c by (rule imageI)
  then have "tn_id c \<in> set (spec_ids specs)" by (simp only: batch_ids)
  then show "trim (tn_id c) \<noteq> []" "tn_id c \<notin> set (dag_ids g)" using assms by (auto simp: fresh_batch_def)
qed

section \<open>Expansion\<close>

definition expand_gates :: "TaskGraph \<Rightarrow> NodeId \<Rightarrow> TaskNode \<Rightarrow> NodeSpec list \<Rightarrow> TaskNode list" where
  "expand_gates g i r children = (if requires_gates (tg_mode g)
     then [gate_node (unique_gate_id (push_specs g children (Some i) OriginExpand) i)
       (gate_content (gate_kind (tn_kind r)) i) (gate_kind (tn_kind r)) (Some i) (spec_ids children)]
     else [])"

lemma expand_node_Inr:
  assumes wf: "dag_wf g" and ok: "expand_node g i actor children = Inr (g', out)"
  obtains r where "tg_get g i = Some r" "tn_owner r = Some actor" "\<not> tn_is_gate r" "\<not> tn_expanded r"
    "tn_status r = NodeRunning" "children \<noteq> []" "fresh_batch g children"
    "check_dependencies g children = Inr ()" "tg_mode g' = tg_mode g"
    "distinct (dag_ids g')" "acyclic (dep_rel g')"
    "nodes_of g' = (\<lambda>n. if tn_id n = i
        then flip_composite (spec_ids children @ map tn_id (expand_gates g i r children)) n else n) ` nodes_of g
      \<union> (batch_nodes children (Some i) OriginExpand \<union> set (expand_gates g i r children))"
    "out = \<lparr>eo_child_ids = spec_ids children,
       eo_gate_id = (case expand_gates g i r children of [] \<Rightarrow> None | x # _ \<Rightarrow> Some (tn_id x))\<rparr>"
proof -
  let ?s1 = "push_specs g children (Some i) OriginExpand"
  let ?s2 = "\<lambda>r. foldl tg_push ?s1 (expand_gates g i r children)"
  let ?f = "\<lambda>r. flip_composite (spec_ids children @ map tn_id (expand_gates g i r children))"
  obtain r where r: "tg_get g i = Some r" "tn_owner r = Some actor" "\<not> tn_is_gate r" "\<not> tn_expanded r"
      "tn_status r = NodeRunning" "children \<noteq> []"
    and ids: "fresh_batch g children" "check_dependencies g children = Inr ()"
    and g': "reject_cycle (tg_modify (?s2 r) i (?f r)) = Inr g'"
    and out: "out = \<lparr>eo_child_ids = spec_ids children,
       eo_gate_id = (case expand_gates g i r children of [] \<Rightarrow> None | x # _ \<Rightarrow> Some (tn_id x))\<rparr>"
  proof -
    have get1: "tg_get ?s1 i = Some r" if "tg_get g i = Some r" for r
      using that by (simp add: push_specs_def graph.get_pushes)
    show ?thesis
      using ok that
      by (cases "tg_get g i"; cases "tg_mode g")
        (auto simp: expand_node_def and_then_Inr owned_node_Inr get1 expand_gates_def Let_def
          requires_gates_def owned_node_def dest!: collect_new_ids_Inr split: if_splits)
  qed
  note fresh = ids(1)
  have s2: "dag_ids (?s2 r) = dag_ids g @ spec_ids children @ map tn_id (expand_gates g i r children)"
    "tg_nodes (?s2 r) = tg_nodes g @ map (\<lambda>s. spec_to_node s (Some i) OriginExpand) children @ expand_gates g i r children"
    "tg_mode (?s2 r) = tg_mode g"
    by (simp_all add: expand_gates_def)
  have gate_fresh: "tn_id x \<notin> set (dag_ids ?s1)" if "x \<in> set (expand_gates g i r children)" for x
    using that unique_gate_id_new [of ?s1 i] by (auto simp: expand_gates_def split: if_splits)
  have d: "distinct (dag_ids (?s2 r))"
    using dag_wfD(1) [OF wf] fresh gate_fresh unfolding s2
    by (auto simp: fresh_batch_def expand_gates_def)
  have i: "i \<in> set (dag_ids g)" using get_node(1,2) [OF wf r(1)] by (auto simp: dag_ids_def)
  have g'_eq: "g' = tg_modify (?s2 r) i (?f r)" and ac: "acyclic (dep_rel g')"
    using g' by (auto simp: reject_cycle_Inr)
  have new_ids: "tn_id c \<noteq> i" if "c \<in> batch_nodes children (Some i) OriginExpand \<union> set (expand_gates g i r children)" for c
  proof -
    have "tn_id c \<notin> set (dag_ids g)"
      using that gate_fresh fresh_batch_ids(3) [OF fresh, of c "Some i" OriginExpand]
      unfolding dag_ids_push_specs by auto
    then show ?thesis using i by metis
  qed
  show ?thesis
  proof (rule that [OF r fresh ids(2)])
    show "tg_mode g' = tg_mode g" using s2 by (simp add: g'_eq)
    show "distinct (dag_ids g')" using d by (simp add: g'_eq dag_ids_modify flip_composite_def)
    show "nodes_of g' = (\<lambda>n. if tn_id n = i then ?f r n else n) ` nodes_of g
      \<union> (batch_nodes children (Some i) OriginExpand \<union> set (expand_gates g i r children))"
      unfolding g'_eq nodes_modify [OF d] s2 set_map set_append by (rule map_edit_image [OF new_ids])
  qed (use ac out in auto)
qed

lemma not_done_running: "tn_status n = NodeRunning \<Longrightarrow> \<not> is_done n"
  by (simp add: is_done_def)

lemma no_orphans:
  assumes ok: "struct_ok m N" and r: "r \<in> N" "\<not> tn_expanded r" and n: "n \<in> N"
  shows "tn_parent n \<noteq> Some (tn_id r)"
  using struct_joined [OF ok n, of "tn_id r"] struct_same_id [OF ok _ r(1)] r(2)
  by (auto simp: joined_def)

lemma dependency_known:
  "check_dependencies g specs = Inr () \<Longrightarrow> c \<in> batch_nodes specs p orig \<Longrightarrow>
   set (tn_depends_on c) \<subseteq> tn_id ` nodes_of g \<union> tn_id ` batch_nodes specs p orig"
  using check_dependencies_Inr [of g specs] unfolding batch_ids by (fastforce simp: dag_ids_def)

lemma expand_struct:
  assumes ok: "struct_ok m N" and r: "r \<in> N" "\<not> tn_is_gate r" "\<not> tn_expanded r"
    and upd: "\<And>n. upd n = (if tn_id n = tn_id r then flip_composite (map tn_id (cs @ xs)) n else n)"
    and cs: "\<And>c. c \<in> set cs \<Longrightarrow> tn_parent c = Some (tn_id r) \<and> \<not> tn_is_gate c \<and> \<not> tn_expanded c \<and>
      distinct (tn_depends_on c) \<and> trim (tn_id c) \<noteq> [] \<and> set (tn_depends_on c) \<subseteq> tn_id ` N \<union> tn_id ` set cs"
    and fresh: "distinct (map tn_id (cs @ xs))" "tn_id ` set (cs @ xs) \<inter> tn_id ` N = {}"
    and gate: "if m = Deep then \<exists>x. xs = [x] \<and> tn_is_gate x \<and> tn_parent x = Some (tn_id r) \<and>
      \<not> tn_expanded x \<and> tn_depends_on x = map tn_id cs \<and> trim (tn_id x) \<noteq> [] else xs = []"
  shows "struct_ok m (upd ` N \<union> set (cs @ xs))"
proof -
  have upd_r: "upd n = flip_composite (map tn_id (cs @ xs)) r" if "n \<in> N" "tn_id n = tn_id r" for n
    using struct_same_id [OF ok that(1) r(1) that(2)] upd by simp
  have gates: "x \<in> set xs \<Longrightarrow> tn_is_gate x \<and> m = Deep \<and> xs = [x] \<and> tn_parent x = Some (tn_id r) \<and>
      \<not> tn_expanded x \<and> tn_depends_on x = map tn_id cs \<and> trim (tn_id x) \<noteq> []" for x
    using gate by (auto split: if_splits)
  have sib: "siblings (N \<union> set (cs @ xs)) x = set cs" if "tn_parent x = Some (tn_id r)" for x
    using that cs gates no_orphans [OF ok r(1,3)] by (auto simp: siblings_def)
  have no_sib: "siblings (set (cs @ xs)) x = {}" if "x \<in> N" for x
    using no_orphans [OF ok r(1,3) that] cs gates by (auto simp: siblings_def)
  show ?thesis
  proof (rule struct_extend [OF ok])
    show "inj_on tn_id (set (cs @ xs))" using fresh(1) by (simp only: distinct_map)
    show "tn_id ` set (cs @ xs) \<inter> tn_id ` N = {}" by (rule fresh(2))
    fix n assume n: "n \<in> N"
    show "tn_id (upd n) = tn_id n \<and> tn_parent (upd n) = tn_parent n \<and> tn_is_gate (upd n) = tn_is_gate n"
      by (simp add: upd flip_composite_def)
    have kn: "set (tn_depends_on n) \<subseteq> tn_id ` N" using struct_dep [OF ok n] by (force simp: image_iff)
    then show "set (tn_depends_on n) \<subseteq> set (tn_depends_on (upd n)) \<and>
        set (tn_depends_on (upd n)) \<subseteq> tn_id ` N \<union> tn_id ` set (cs @ xs) \<and> distinct (tn_depends_on (upd n))"
      using struct_deps_distinct [OF ok n]
      by (auto simp: upd flip_composite_def push_missing_distinct)
    show "tn_expanded n \<Longrightarrow> tn_expanded (upd n)" by (simp add: upd flip_composite_def)
    show "\<not> tn_expanded (upd n) \<and>
        set (tn_depends_on (upd n)) = set (tn_depends_on n) \<union> tn_id ` siblings (set (cs @ xs)) n"
      if "tn_is_gate n"
    proof -
      have "tn_id n \<noteq> tn_id r" using struct_same_id [OF ok n r(1)] that r(2) by metis
      then show ?thesis using struct_gate_plain [OF ok n that] no_sib [OF n] by (simp add: upd)
    qed
    show "tn_expanded n \<or> gated (set (cs @ xs)) (Some (tn_id n))" if "m = Deep" "tn_expanded (upd n)"
      using that gate by (auto simp: upd gated_def split: if_splits)
  next
    fix c p assume c: "c \<in> set (cs @ xs)" "tn_parent c = Some p"
    have "p = tn_id r" using c cs gate by (auto split: if_splits)
    then show "joined (upd ` N) c p"
      unfolding joined_def using r c(1) by (intro bexI [of _ "upd r"]) (auto simp: upd flip_composite_def)
  next
    fix c assume c: "c \<in> set (cs @ xs)"
    show "\<not> tn_expanded c \<and> distinct (tn_depends_on c) \<and> trim (tn_id c) \<noteq> [] \<and>
        set (tn_depends_on c) \<subseteq> tn_id ` N \<union> tn_id ` set (cs @ xs)"
      using c cs gate fresh(1) by (auto split: if_splits)
    show "gated (N \<union> set (cs @ xs)) None" if "\<not> tn_is_gate c" "tn_parent c = None"
      using c cs gate that by (auto split: if_splits)
    show "m = Deep \<and> set (tn_depends_on c) = tn_id ` siblings (N \<union> set (cs @ xs)) c \<and>
        (\<forall>y \<in> N \<union> set (cs @ xs). tn_is_gate y \<longrightarrow> tn_parent y = tn_parent c \<longrightarrow> tn_id y = tn_id c)"
      if g: "tn_is_gate c"
    proof -
      have cx: "c \<in> set xs" using c cs g by auto
      note x = gates [OF cx]
      have "y = c" if y: "y \<in> N \<union> set (cs @ xs)" "tn_is_gate y" "tn_parent y = tn_parent c" for y
        using y x cs no_orphans [OF ok r(1,3), of y] by auto
      then show ?thesis using x sib [of c] by auto
    qed
  qed
qed

lemma expand_node_wf [wf_intros]:
  assumes wf: "dag_wf g" and ok: "expand_node g i actor children = Inr (g', out)"
  shows "dag_wf g'"
proof (rule expand_node_Inr [OF wf ok])
  fix r
  assume r: "tg_get g i = Some r" "tn_owner r = Some actor" "\<not> tn_is_gate r" "\<not> tn_expanded r"
      "tn_status r = NodeRunning"
    and fresh: "fresh_batch g children" and deps: "check_dependencies g children = Inr ()"
    and g': "tg_mode g' = tg_mode g" "distinct (dag_ids g')" "acyclic (dep_rel g')"
    and N: "nodes_of g' = (\<lambda>n. if tn_id n = i
        then flip_composite (spec_ids children @ map tn_id (expand_gates g i r children)) n else n) ` nodes_of g
      \<union> (batch_nodes children (Some i) OriginExpand \<union> set (expand_gates g i r children))"
  let ?cs = "map (\<lambda>s. spec_to_node s (Some i) OriginExpand) children"
  let ?xs = "expand_gates g i r children"
  let ?upd = "\<lambda>n. if tn_id n = i then flip_composite (map tn_id (?cs @ ?xs)) n else n"
  note ok = dag_wfD(3,4) [OF wf] and node = get_node [OF wf r(1)]
  have ids: "map tn_id ?cs = spec_ids children"
    by (simp add: spec_ids_def spec_to_node_def cong: option.case_cong)
  have N': "nodes_of g' = ?upd ` nodes_of g \<union> set (?cs @ ?xs)"
    unfolding N by (simp only: map_append ids set_append set_map)
  have new_id: "tn_id x \<notin> set (dag_ids g) \<and> tn_id x \<notin> set (spec_ids children)" if "x \<in> set ?xs" for x
    using that unique_gate_id_new [of "push_specs g children (Some i) OriginExpand" i]
    by (auto simp: expand_gates_def split: if_splits)
  have disj: "tn_id ` set (?cs @ ?xs) \<inter> tn_id ` nodes_of g = {}"
  proof -
    have "tn_id ` set ?xs \<inter> tn_id ` nodes_of g = {}"
      using new_id unfolding dag_ids_def set_map by blast
    then show ?thesis
      using fresh_batch_ids(1) [OF fresh, of "Some i" OriginExpand]
      by (simp add: image_Un Int_Un_distrib2)
  qed
  have struct: "struct_ok (tg_mode g) (?upd ` nodes_of g \<union> set (?cs @ ?xs))"
  proof (rule expand_struct [OF ok(1) node(1) r(3,4)])
    show "?upd n = (if tn_id n = tn_id r then flip_composite (map tn_id (?cs @ ?xs)) n else n)" for n
      by (simp add: node(2))
    show "distinct (map tn_id (?cs @ ?xs))"
      unfolding map_append ids using fresh new_id by (auto simp: fresh_batch_def expand_gates_def)
    show "tn_id ` set (?cs @ ?xs) \<inter> tn_id ` nodes_of g = {}" by (rule disj)
    show "if tg_mode g = Deep then \<exists>x. ?xs = [x] \<and> tn_is_gate x \<and> tn_parent x = Some (tn_id r) \<and>
      \<not> tn_expanded x \<and> tn_depends_on x = map tn_id ?cs \<and> trim (tn_id x) \<noteq> [] else ?xs = []"
      unfolding ids by (simp add: expand_gates_def requires_gates_def unique_gate_id_nonblank node(2))
    fix c assume "c \<in> set ?cs"
    then have c: "c \<in> batch_nodes children (Some i) OriginExpand" by simp
    show "tn_parent c = Some (tn_id r) \<and> \<not> tn_is_gate c \<and> \<not> tn_expanded c \<and> distinct (tn_depends_on c) \<and>
        trim (tn_id c) \<noteq> [] \<and> set (tn_depends_on c) \<subseteq> tn_id ` nodes_of g \<union> tn_id ` set ?cs"
      using c fresh_batch_ids(2) [OF fresh c] dependency_known [OF deps c] by (auto simp: node(2))
  qed
  have status: "status_ok (tg_mode g) (?upd ` nodes_of g \<union> set (?cs @ ?xs))"
  proof (rule status_extend [OF ok])
    fix n assume n: "n \<in> nodes_of g"
    have cases: "n = r \<and> tn_id n = i \<or> tn_id n \<noteq> i" using node(3) [OF n] by blast
    show "tn_id (?upd n) = tn_id n" by (simp add: flip_composite_def)
    show "?upd n = n \<or> (\<forall>k \<in> nodes_of g. tn_id n \<notin> set (tn_depends_on k))" if "is_done n"
      using cases not_done_running [OF r(5)] that by auto
    show "?upd n = n \<or> \<not> relies_on_deps (?upd n) \<or> tn_depends_on (?upd n) = tn_depends_on n \<and>
        (\<forall>c \<in> nodes_of g. tn_id c \<in> set (tn_depends_on n) \<longrightarrow> is_done c) \<and>
        (is_done (?upd n) \<longrightarrow> output_ok (tg_mode g) (nodes_of g) (?upd n))"
      by (simp add: flip_composite_def relies_on_deps_def is_done_def)
    show "(tn_status (?upd n) = NodeRunning \<longrightarrow> tn_owner (?upd n) \<noteq> None) \<and>
        (tn_status (?upd n) = NodeQueued \<longrightarrow> tn_owner (?upd n) = None)"
      using status_owner [OF ok(2) n] by (simp add: flip_composite_def)
  qed (use disj in \<open>auto simp: expand_gates_def split: if_splits\<close>)
  show "dag_wf g'" unfolding dag_wf_def g'(1) N' using g'(2,3) struct status by simp
qed

section \<open>Gap injection\<close>

definition inject_update :: "TaskNode \<Rightarrow> NodeId list \<Rightarrow> TaskNode \<Rightarrow> TaskNode" where
  "inject_update x ids n =
     (if tn_id n = tn_id x then requeue_gate ids n
      else if tn_parent x = Some (tn_id n) then add_dependencies ids n else n)"

lemma inject_from_gate_Inr:
  assumes wf: "dag_wf g" and ok: "inject_from_gate g i actor specs = Inr (g', ids)"
  obtains x where "tg_get g i = Some x" "tn_owner x = Some actor" "tn_is_gate x"
    "tn_status x = NodeRunning" "specs \<noteq> []" "fresh_batch g specs"
    "check_dependencies g specs = Inr ()" "tg_mode g' = tg_mode g"
    "distinct (dag_ids g')" "acyclic (dep_rel g')"
    "nodes_of g' = inject_update x ids ` nodes_of g \<union> batch_nodes specs (tn_parent x) OriginGap"
    "ids = spec_ids specs"
proof -
  let ?s1 = "\<lambda>x. push_specs g specs (tn_parent x) OriginGap"
  let ?s2 = "\<lambda>x. tg_modify (?s1 x) i (requeue_gate ids)"
  let ?s3 = "\<lambda>x. case tn_parent x of Some p \<Rightarrow> tg_modify (?s2 x) p (add_dependencies ids) | None \<Rightarrow> ?s2 x"
  obtain x where x: "tg_get g i = Some x" "tn_owner x = Some actor" "tn_is_gate x"
      "tn_status x = NodeRunning" "specs \<noteq> []"
    and fresh: "fresh_batch g specs" and deps: "check_dependencies g specs = Inr ()"
    and ids: "ids = spec_ids specs" and g': "reject_cycle (?s3 x) = Inr g'"
    using ok by (auto simp: inject_from_gate_def and_then_Inr owned_node_Inr Let_def
        dest!: collect_new_ids_Inr split: if_splits)
  note node = get_node [OF wf x(1)]
  have d1: "distinct (dag_ids (?s1 x))"
    using dag_wfD(1) [OF wf] fresh by (auto simp: fresh_batch_def)
  have id2: "dag_ids (?s2 x) = dag_ids (?s1 x)" by (simp add: dag_ids_modify requeue_gate_def)
  have id3: "dag_ids (?s3 x) = dag_ids (?s1 x)"
    by (cases "tn_parent x") (simp_all add: dag_ids_modify add_dependencies_def requeue_gate_def)
  have g'_eq: "g' = ?s3 x" and ac: "acyclic (dep_rel g')" using g' by (auto simp: reject_cycle_Inr)
  have parent: "tn_parent x \<noteq> Some i"
  proof
    assume "tn_parent x = Some i"
    then have "joined (nodes_of g) x i" by (rule struct_joined [OF dag_wfD(3) [OF wf] node(1)])
    then show False using node(3) x(3) by (auto simp: joined_def)
  qed
  have nodes: "nodes_of (?s3 x) = inject_update x ids ` nodes_of (?s1 x)"
  proof (cases "tn_parent x")
    case None
    then have "nodes_of (?s3 x) = nodes_of (?s2 x)" by simp
    also have "\<dots> = (\<lambda>n. if tn_id n = i then requeue_gate ids n else n) ` nodes_of (?s1 x)"
      by (simp only: nodes_modify [OF d1] set_map)
    also have "\<dots> = inject_update x ids ` nodes_of (?s1 x)"
      using None by (simp add: inject_update_def node(2))
    finally show ?thesis .
  next
    case (Some p)
    have d2: "distinct (dag_ids (?s2 x))" using d1 id2 by simp
    have "nodes_of (?s3 x) = (\<lambda>n. if tn_id n = p then add_dependencies ids n else n) `
        (\<lambda>n. if tn_id n = i then requeue_gate ids n else n) ` nodes_of (?s1 x)"
      by (simp only: Some option.case nodes_modify [OF d2, unfolded Some] nodes_modify [OF d1, unfolded Some] set_map)
    also have "\<dots> = inject_update x ids ` nodes_of (?s1 x)"
      unfolding image_image using parent Some
      by (intro image_cong refl) (auto simp: inject_update_def node(2) requeue_gate_def)
    finally show ?thesis .
  qed
  have untouched: "inject_update x ids c = c" if c: "c \<in> batch_nodes specs (tn_parent x) OriginGap" for c
  proof -
    have new: "tn_id c \<notin> set (dag_ids g)" by (rule fresh_batch_ids(3) [OF fresh c])
    have "tn_id x \<in> set (dag_ids g)" using node(1) by (simp add: dag_ids_def)
    moreover have "p \<in> set (dag_ids g)" if "tn_parent x = Some p" for p
      using struct_joined [OF dag_wfD(3) [OF wf] node(1) that] by (auto simp: joined_def dag_ids_def)
    ultimately show ?thesis using new by (auto simp: inject_update_def)
  qed
  show ?thesis
  proof (rule that [OF x fresh deps _ _ ac _ ids])
    show "tg_mode g' = tg_mode g" by (simp add: g'_eq split: option.split)
    show "distinct (dag_ids g')" using d1 id3 by (simp add: g'_eq)
    have "inject_update x ids ` batch_nodes specs (tn_parent x) OriginGap = batch_nodes specs (tn_parent x) OriginGap"
      using untouched by simp
    then show "nodes_of g' = inject_update x ids ` nodes_of g \<union> batch_nodes specs (tn_parent x) OriginGap"
      unfolding g'_eq nodes nodes_push_specs set_append set_map image_Un by simp
  qed
qed

lemma inject_from_gate_wf [wf_intros]:
  assumes wf: "dag_wf g" and ok: "inject_from_gate g i actor specs = Inr (g', ids)"
  shows "dag_wf g'"
proof (rule inject_from_gate_Inr [OF wf ok])
  fix x
  assume x: "tg_get g i = Some x" "tn_owner x = Some actor" "tn_is_gate x" "tn_status x = NodeRunning"
    and fresh: "fresh_batch g specs" and deps: "check_dependencies g specs = Inr ()"
    and g': "tg_mode g' = tg_mode g" "distinct (dag_ids g')" "acyclic (dep_rel g')"
    and N: "nodes_of g' = inject_update x ids ` nodes_of g \<union> batch_nodes specs (tn_parent x) OriginGap"
    and ids: "ids = spec_ids specs"
  let ?New = "batch_nodes specs (tn_parent x) OriginGap"
  note ok = dag_wfD(3,4) [OF wf] and node = get_node [OF wf x(1)]
  have disj: "tn_id ` ?New \<inter> tn_id ` nodes_of g = {}" by (rule fresh_batch_ids(1) [OF fresh])
  have new_ids: "set ids = tn_id ` ?New" by (simp add: ids batch_ids)
  have composite: "\<exists>q \<in> nodes_of g. tn_id q = p \<and> tn_expanded q \<and> \<not> tn_is_gate q \<and>
      tn_id x \<in> set (tn_depends_on q) \<and> q \<noteq> x" if "tn_parent x = Some p" for p
    using struct_joined [OF ok(1) node(1) that] x(3) by (auto simp: joined_def)
  have known: "tn_id ` nodes_of g \<supseteq> set (tn_depends_on n)" if "n \<in> nodes_of g" for n
    using struct_dep [OF ok(1) that] by (force simp: image_iff)
  have same_x: "n = x" if "n \<in> nodes_of g" "tn_id n = tn_id x" for n
    using node(3) [OF that(1)] that(2) node(2) by simp
  have parent_work: "\<not> tn_is_gate n" if n: "n \<in> nodes_of g" "tn_parent x = Some (tn_id n)" for n
    using composite [OF n(2)] struct_same_id [OF ok(1) n(1)] by metis
  have struct: "struct_ok (tg_mode g) (inject_update x ids ` nodes_of g \<union> ?New)"
  proof (rule struct_extend [OF ok(1)])
    show "inj_on tn_id ?New" using fresh by (simp add: batch_inj fresh_batch_def)
    show "tn_id ` ?New \<inter> tn_id ` nodes_of g = {}" by (rule disj)
    fix n assume n: "n \<in> nodes_of g"
    show "tn_id (inject_update x ids n) = tn_id n \<and> tn_parent (inject_update x ids n) = tn_parent n \<and>
        tn_is_gate (inject_update x ids n) = tn_is_gate n"
      by (simp add: inject_update_def requeue_gate_def add_dependencies_def)
    show "set (tn_depends_on n) \<subseteq> set (tn_depends_on (inject_update x ids n)) \<and>
        set (tn_depends_on (inject_update x ids n)) \<subseteq> tn_id ` nodes_of g \<union> tn_id ` ?New \<and>
        distinct (tn_depends_on (inject_update x ids n))"
      using known [OF n] struct_deps_distinct [OF ok(1) n] new_ids
      by (auto simp: inject_update_def requeue_gate_def add_dependencies_def push_missing_distinct)
    show "tn_expanded n \<Longrightarrow> tn_expanded (inject_update x ids n)"
      and "tn_expanded (inject_update x ids n) \<Longrightarrow> tn_expanded n \<or> gated ?New (Some (tn_id n))"
      by (simp_all add: inject_update_def requeue_gate_def add_dependencies_def split: if_splits)
    show "\<not> tn_expanded (inject_update x ids n) \<and>
        set (tn_depends_on (inject_update x ids n)) = set (tn_depends_on n) \<union> tn_id ` siblings ?New n"
      if g: "tn_is_gate n"
    proof (cases "n = x")
      case True
      then show ?thesis
        using struct_gate_plain [OF ok(1) n g] new_ids
        by (simp add: inject_update_def requeue_gate_def batch_siblings)
    next
      case False
      then have "tn_parent n \<noteq> tn_parent x"
        using struct_one_gate [OF ok(1) n node(1) g x(3)] by blast
      moreover have "inject_update x ids n = n"
        using same_x [OF n] False parent_work [OF n] g by (auto simp: inject_update_def)
      ultimately show ?thesis using struct_gate_plain [OF ok(1) n g] by (simp add: batch_siblings)
    qed
  next
    fix c p assume "c \<in> ?New" "tn_parent c = Some p"
    then have p: "tn_parent x = Some p" and c: "tn_id c \<in> set ids" using new_ids by auto
    obtain q where q: "q \<in> nodes_of g" "tn_id q = p" "tn_expanded q" "\<not> tn_is_gate q" "q \<noteq> x"
      using composite [OF p] by blast
    then have "tn_id q \<noteq> tn_id x" using same_x by blast
    then show "joined (inject_update x ids ` nodes_of g) c p"
      unfolding joined_def using q p c
      by (intro bexI [of _ "inject_update x ids q"]) (auto simp: inject_update_def add_dependencies_def)
  next
    fix c assume c: "c \<in> ?New"
    show "\<not> tn_expanded c \<and> distinct (tn_depends_on c) \<and> trim (tn_id c) \<noteq> [] \<and>
        set (tn_depends_on c) \<subseteq> tn_id ` nodes_of g \<union> tn_id ` ?New"
      using c fresh_batch_ids(2) [OF fresh c] dependency_known [OF deps c] by auto
    show "gated (nodes_of g \<union> ?New) None" if "tn_parent c = None"
      using c that node(1) x(3) by (auto simp: gated_def)
  qed auto
  have busy: "tn_id x \<notin> set (tn_depends_on n)" if "n \<in> nodes_of g" "relies_on_deps n" for n
    using status_deps [OF ok(2) that node(1)] not_done_running [OF x(4)] by blast
  have parent_idle: "\<not> relies_on_deps n" if "n \<in> nodes_of g" "tn_parent x = Some (tn_id n)" for n
    using composite [OF that(2)] struct_same_id [OF ok(1) that(1)] busy [OF that(1)] by metis
  have status: "status_ok (tg_mode g) (inject_update x ids ` nodes_of g \<union> ?New)"
  proof (rule status_extend [OF ok])
    fix n assume n: "n \<in> nodes_of g"
    have cases: "n = x \<or> (tn_id n \<noteq> tn_id x \<and> tn_parent x = Some (tn_id n) \<and> \<not> relies_on_deps n) \<or>
        inject_update x ids n = n"
      using same_x [OF n] parent_idle [OF n] by (auto simp: inject_update_def)
    show "tn_id (inject_update x ids n) = tn_id n"
      by (simp add: inject_update_def requeue_gate_def add_dependencies_def)
    show "inject_update x ids n = n \<or> (\<forall>k \<in> nodes_of g. tn_id n \<notin> set (tn_depends_on k))" if "is_done n"
      using cases that not_done_running [OF x(4)] by (auto simp: relies_on_deps_def)
    show "inject_update x ids n = n \<or> \<not> relies_on_deps (inject_update x ids n) \<or>
        tn_depends_on (inject_update x ids n) = tn_depends_on n \<and>
        (\<forall>c \<in> nodes_of g. tn_id c \<in> set (tn_depends_on n) \<longrightarrow> is_done c) \<and>
        (is_done (inject_update x ids n) \<longrightarrow> output_ok (tg_mode g) (nodes_of g) (inject_update x ids n))"
      using cases
      by (auto simp: inject_update_def requeue_gate_def add_dependencies_def relies_on_deps_def is_done_def)
    show "(tn_status (inject_update x ids n) = NodeRunning \<longrightarrow> tn_owner (inject_update x ids n) \<noteq> None) \<and>
        (tn_status (inject_update x ids n) = NodeQueued \<longrightarrow> tn_owner (inject_update x ids n) = None)"
      using status_owner [OF ok(2) n] by (simp add: inject_update_def requeue_gate_def add_dependencies_def)
  qed (use disj in auto)
  show "dag_wf g'" unfolding dag_wf_def g'(1) N using g'(2,3) struct status by simp
qed

section \<open>Seeding\<close>

definition spec_id :: "NodeSpec \<Rightarrow> NodeId" where
  "spec_id s = (case ns_id s of Some i \<Rightarrow> i | None \<Rightarrow> [])"

lemma spec_ids_map: "spec_ids specs = map spec_id specs"
  by (simp add: spec_ids_def spec_id_def)

definition seed_news :: "TaskGraph \<Rightarrow> NodeSpec list \<Rightarrow> NodeSpec list" where
  "seed_news g specs = filter (\<lambda>s. tg_get g (spec_id s) = None) specs"

definition specs_valid :: "NodeSpec list \<Rightarrow> bool" where
  "specs_valid u \<longleftrightarrow> distinct (spec_ids u) \<and> (\<forall>s \<in> set u. \<exists>i. ns_id s = Some i \<and> trim i \<noteq> [])"

lemma seed_collect_Inr:
  assumes "seed_collect specs u0 = Inr u" and "specs_valid u0"
  shows "specs_valid u \<and> set u0 \<subseteq> set u \<and> set u \<subseteq> set u0 \<union> set specs \<and>
    (\<forall>s \<in> set specs. \<exists>v \<in> set u. seed_specs_equivalent v s)"
  using assms
proof (induction specs u0 rule: seed_collect.induct)
  case (1 u0)
  then show ?case by simp
next
  case (2 spec specs u0)
  obtain i where i: "validated_spec_id spec ''seed'' = Inr i" "ns_id spec = Some i" "trim i \<noteq> []"
    using 2(3) by (auto simp: and_then_Inr validated_spec_id_Inr)
  show ?case
  proof (cases "find (\<lambda>v. ns_id v = Some i) u0")
    case None
    have fresh: "i \<notin> set (spec_ids u0)"
      using None 2(4) by (auto simp: find_None_iff spec_ids_map spec_id_def specs_valid_def)
    have "specs_valid (u0 @ [spec])"
      using 2(4) i fresh by (auto simp: specs_valid_def spec_ids_map spec_id_def)
    moreover have "seed_collect specs (u0 @ [spec]) = Inr u" using 2(3) i(1) None by simp
    ultimately have "specs_valid u \<and> set (u0 @ [spec]) \<subseteq> set u \<and> set u \<subseteq> set (u0 @ [spec]) \<union> set specs \<and>
        (\<forall>s \<in> set specs. \<exists>v \<in> set u. seed_specs_equivalent v s)"
      using 2(1) None by blast
    then show ?thesis by (auto simp: seed_specs_equivalent_def dependency_sets_equal_def)
  next
    case (Some e)
    then have e: "seed_specs_equivalent e spec" "seed_collect specs u0 = Inr u"
      using 2(3) i(1) by (auto split: if_splits)
    have "e \<in> set u0" using Some by (auto simp: find_Some_iff)
    have "specs_valid u \<and> set u0 \<subseteq> set u \<and> set u \<subseteq> set u0 \<union> set specs \<and>
        (\<forall>s \<in> set specs. \<exists>v \<in> set u. seed_specs_equivalent v s)"
      using 2(2) [OF Some] 2(4) e by blast
    then show ?thesis using e \<open>e \<in> set u0\<close> by auto
  qed
qed

lemma seed_apply_Inr:
  "seed_apply g specs staged = Inr s' \<longleftrightarrow> s' = push_specs staged (seed_news g specs) None OriginSeed \<and>
    (\<forall>s \<in> set specs. \<forall>e. tg_get g (spec_id s) = Some e \<longrightarrow> seed_spec_matches_existing g e s)"
proof (induction specs arbitrary: staged)
  case (Cons s specs)
  then show ?case
    by (cases "tg_get g (spec_id s)") (auto simp: Let_def spec_id_def push_specs_def seed_news_def)
qed (auto simp: seed_news_def push_specs_def)

lemma seed_Inr:
  assumes wf: "dag_wf g" and ok: "seed g specs = Inr g'"
  obtains u where "seed_collect specs [] = Inr u" "fresh_batch g (seed_news g u)"
    "\<And>c. c \<in> batch_nodes (seed_news g u) None OriginSeed \<Longrightarrow> set (tn_depends_on c) \<subseteq>
       tn_id ` nodes_of g \<union> tn_id ` batch_nodes (seed_news g u) None OriginSeed"
    "g' = (if tg_mode g = Deep then ensure_root_gate (push_specs g (seed_news g u) None OriginSeed)
       else push_specs g (seed_news g u) None OriginSeed)" "acyclic (dep_rel g')"
proof -
  obtain u where u: "seed_collect specs [] = Inr u" "check_dependencies g u = Inr ()"
    "g' = (if tg_mode g = Deep then ensure_root_gate (push_specs g (seed_news g u) None OriginSeed)
       else push_specs g (seed_news g u) None OriginSeed)" "acyclic (dep_rel g')"
    using ok by (auto simp: seed_def and_then_Inr seed_apply_Inr reject_cycle_Inr requires_gates_def
        split: if_splits)
  have valid: "specs_valid u"
    using seed_collect_Inr [OF u(1)] by (simp add: specs_valid_def)
  have fresh: "fresh_batch g (seed_news g u)"
    using valid
    by (auto simp: fresh_batch_def specs_valid_def seed_news_def spec_ids_map spec_id_def distinct_map_filter
        dag_ids_iff tg_contains_get)
  have known: "d \<in> set (spec_ids (seed_news g u)) \<or> d \<in> set (dag_ids g)" if "d \<in> set (spec_ids u)" for d
    using that by (auto simp: spec_ids_map seed_news_def dag_ids_iff tg_contains_get)
  show ?thesis
  proof (rule that [OF u(1) fresh _ u(3,4)])
    fix c assume "c \<in> batch_nodes (seed_news g u) None OriginSeed"
    then obtain s where s: "s \<in> set u" "set (tn_depends_on c) = set (ns_depends_on s)"
      by (auto simp: seed_news_def)
    show "set (tn_depends_on c) \<subseteq>
       tn_id ` nodes_of g \<union> tn_id ` batch_nodes (seed_news g u) None OriginSeed"
      unfolding s(2) batch_ids
      using check_dependencies_Inr [OF u(2) s(1)] known by (fastforce simp: dag_ids_def)
  qed
qed

text \<open>New root-level work \<open>B\<close> that the graph \<open>N\<close> receives: the common part of the three seed cases.\<close>

definition root_batch :: "Mode \<Rightarrow> TaskNode set \<Rightarrow> TaskNode set \<Rightarrow> bool" where
  "root_batch m N B \<longleftrightarrow> struct_ok m N \<and> status_ok m N \<and> inj_on tn_id B \<and> tn_id ` B \<inter> tn_id ` N = {} \<and>
     (\<forall>c \<in> B. tn_parent c = None \<and> \<not> tn_is_gate c \<and> \<not> tn_expanded c \<and>
      tn_status c = NodeQueued \<and> tn_owner c = None \<and> distinct (tn_depends_on c) \<and> trim (tn_id c) \<noteq> [] \<and>
      set (tn_depends_on c) \<subseteq> tn_id ` N \<union> tn_id ` B)"

lemma root_batchD:
  assumes "root_batch m N B"
  shows "struct_ok m N" "status_ok m N" "inj_on tn_id B" "tn_id ` B \<inter> tn_id ` N = {}"
    "\<And>c. c \<in> B \<Longrightarrow> tn_parent c = None \<and> \<not> tn_is_gate c \<and> \<not> tn_expanded c \<and>
      tn_status c = NodeQueued \<and> tn_owner c = None \<and> distinct (tn_depends_on c) \<and> trim (tn_id c) \<noteq> [] \<and>
      set (tn_depends_on c) \<subseteq> tn_id ` N \<union> tn_id ` B"
    "\<And>n. n \<in> N \<Longrightarrow> set (tn_depends_on n) \<subseteq> tn_id ` N"
proof -
  show struct: "struct_ok m N" using assms by (simp add: root_batch_def)
  show "set (tn_depends_on n) \<subseteq> tn_id ` N" if "n \<in> N" for n
    using struct_dep [OF struct that] by (force simp: image_iff)
qed (use assms in \<open>simp_all add: root_batch_def\<close>)

text \<open>Light mode, or deep mode without any root work: nodes are only pushed.\<close>

lemma push_ok:
  assumes rb: "root_batch m N B" and light: "m = Deep \<Longrightarrow> B = {}"
  shows "struct_ok m (N \<union> B) \<and> status_ok m (N \<union> B)"
proof
  note struct = root_batchD(1) [OF rb] and status = root_batchD(2) [OF rb] and inj = root_batchD(3) [OF rb]
    and fresh = root_batchD(4) [OF rb] and batch = root_batchD(5) [OF rb] and known = root_batchD(6) [OF rb]
  have "struct_ok m ((\<lambda>n. n) ` N \<union> B)"
  proof (rule struct_extend [OF struct])
    show "\<not> tn_expanded x \<and> set (tn_depends_on x) = set (tn_depends_on x) \<union> tn_id ` siblings B x"
      if "x \<in> N" "tn_is_gate x" for x
      using struct_gate_plain [OF struct that] light by (simp add: siblings_def)
    show "m = Deep \<and> set (tn_depends_on x) = tn_id ` siblings (N \<union> B) x \<and>
        (\<forall>y \<in> N \<union> B. tn_is_gate y \<longrightarrow> tn_parent y = tn_parent x \<longrightarrow> tn_id y = tn_id x)"
      if "x \<in> B" "tn_is_gate x" for x using batch that by blast
    show "set (tn_depends_on n) \<subseteq> set (tn_depends_on n) \<and>
        set (tn_depends_on n) \<subseteq> tn_id ` N \<union> tn_id ` B \<and> distinct (tn_depends_on n)" if "n \<in> N" for n
      using known [OF that] struct_deps_distinct [OF struct that] by blast
  qed (use batch inj fresh light in auto)
  then show "struct_ok m (N \<union> B)" by simp
  have "status_ok m ((\<lambda>n. n) ` N \<union> B)"
    by (rule status_extend [OF struct status]) (use batch fresh status_owner [OF status] in auto)
  then show "status_ok m (N \<union> B)" by simp
qed

text \<open>Deep mode without a root gate: the work and its new gate are pushed.\<close>

lemma push_gate_ok:
  assumes rb: "root_batch m N B" and deep: "m = Deep" and none: "\<not> gated N None"
    and x: "tn_is_gate x" "tn_parent x = None" "\<not> tn_expanded x" "tn_status x = NodeQueued" "tn_owner x = None"
      "trim (tn_id x) \<noteq> []" "tn_id x \<notin> tn_id ` (N \<union> B)"
    and deps: "distinct (tn_depends_on x)" "set (tn_depends_on x) = tn_id ` siblings (N \<union> B) x"
  shows "struct_ok m (N \<union> insert x B) \<and> status_ok m (N \<union> insert x B)"
proof
  note struct = root_batchD(1) [OF rb] and status = root_batchD(2) [OF rb] and inj = root_batchD(3) [OF rb]
    and fresh = root_batchD(4) [OF rb] and batch = root_batchD(5) [OF rb] and known = root_batchD(6) [OF rb]
  have no_root: "tn_parent n \<noteq> None" if "n \<in> N" for n
  proof (cases "tn_is_gate n")
    case True
    then show ?thesis using none that by (auto simp: gated_def)
  next
    case False
    then show ?thesis using none struct_root_gated [OF struct [unfolded deep] that False] by blast
  qed
  have "struct_ok m ((\<lambda>n. n) ` N \<union> insert x B)"
  proof (rule struct_extend [OF struct])
    show "inj_on tn_id (insert x B)" using inj x(7) by auto
    show "tn_id ` insert x B \<inter> tn_id ` N = {}" using fresh x(7) by auto
    show "\<not> tn_expanded c \<and> distinct (tn_depends_on c) \<and> trim (tn_id c) \<noteq> [] \<and>
        set (tn_depends_on c) \<subseteq> tn_id ` N \<union> tn_id ` insert x B" if "c \<in> insert x B" for c
      using that batch x deps by (force simp: siblings_def)
    show "\<not> tn_expanded y \<and> set (tn_depends_on y) = set (tn_depends_on y) \<union> tn_id ` siblings (insert x B) y"
      if y: "y \<in> N" "tn_is_gate y" for y
      using struct_gate_plain [OF struct y] no_root [OF y(1)] batch x(1) by (auto simp: siblings_def)
    show "m = Deep \<and> set (tn_depends_on y) = tn_id ` siblings (N \<union> insert x B) y \<and>
        (\<forall>z \<in> N \<union> insert x B. tn_is_gate z \<longrightarrow> tn_parent z = tn_parent y \<longrightarrow> tn_id z = tn_id y)"
      if "y \<in> insert x B" "tn_is_gate y" for y
    proof -
      have "y = x" using that batch by blast
      moreover have "z = x" if "z \<in> N \<union> insert x B" "tn_is_gate z" "tn_parent z = None" for z
        using that no_root batch by blast
      ultimately show ?thesis using deep deps x(1,2) by auto
    qed
    show "gated (N \<union> insert x B) None" if "c \<in> insert x B" for c
      using x(1,2) by (auto simp: gated_def)
    show "set (tn_depends_on n) \<subseteq> set (tn_depends_on n) \<and> set (tn_depends_on n) \<subseteq> tn_id ` N \<union> tn_id ` insert x B \<and>
        distinct (tn_depends_on n)" if "n \<in> N" for n
      using known [OF that] struct_deps_distinct [OF struct that] by blast
  qed (use batch x(2) in auto)
  then show "struct_ok m (N \<union> insert x B)" by simp
  have "status_ok m ((\<lambda>n. n) ` N \<union> insert x B)"
    by (rule status_extend [OF struct status]) (use batch fresh x status_owner [OF status] in auto)
  then show "status_ok m (N \<union> insert x B)" by simp
qed

text \<open>Deep mode with a root gate \<open>x\<close>: the work is pushed and the gate widened over it.\<close>

lemma widen_gate_cases:
  assumes rb: "root_batch m N B" and x: "x \<in> N" "tn_is_gate x" "tn_parent x = None"
    and roots: "set ids = tn_id ` siblings (N \<union> B) x"
  shows "set (tn_depends_on (widen_gate ids x)) = set (tn_depends_on x) \<union> tn_id ` B"
    "widen_gate ids x = x \<or> \<not> is_done (widen_gate ids x)"
proof -
  note struct = root_batchD(1) [OF rb] and status = root_batchD(2) [OF rb] and inj = root_batchD(3) [OF rb]
    and fresh = root_batchD(4) [OF rb] and batch = root_batchD(5) [OF rb] and known = root_batchD(6) [OF rb]
  have "set (tn_depends_on x) = tn_id ` siblings N x" using struct_gate_scope [OF struct x(1,2)] .
  moreover have "siblings (N \<union> B) x = siblings N x \<union> B" using batch x(3) by (auto simp: siblings_def)
  ultimately show "set (tn_depends_on (widen_gate ids x)) = set (tn_depends_on x) \<union> tn_id ` B"
    using roots by (auto simp: widen_gate_def Let_def)
  show "widen_gate ids x = x \<or> \<not> is_done (widen_gate ids x)"
    by (auto simp: widen_gate_def Let_def is_terminal_def is_done_def list_ex_iff push_missing_same subset_iff)
qed

lemma widen_ok:
  assumes rb: "root_batch m N B" and deep: "m = Deep" and x: "x \<in> N" "tn_is_gate x" "tn_parent x = None"
    and roots: "set ids = tn_id ` siblings (N \<union> B) x"
    and leaf: "\<And>n. n \<in> N \<Longrightarrow> tn_id x \<notin> set (tn_depends_on n)"
    and upd: "\<And>n. upd n = (if tn_id n = tn_id x then widen_gate ids n else n)"
  shows "struct_ok m (upd ` N \<union> B) \<and> status_ok m (upd ` N \<union> B)"
proof
  note struct = root_batchD(1) [OF rb] and status = root_batchD(2) [OF rb] and inj = root_batchD(3) [OF rb]
    and fresh = root_batchD(4) [OF rb] and batch = root_batchD(5) [OF rb] and known = root_batchD(6) [OF rb]
  have same_x: "upd n = widen_gate ids x \<and> n = x \<or> upd n = n \<and> n \<noteq> x" if "n \<in> N" for n
    using struct_same_id [OF struct that x(1)] upd by auto
  have fields: "tn_id (widen_gate ids n) = tn_id n" "tn_parent (widen_gate ids n) = tn_parent n"
    "tn_is_gate (widen_gate ids n) = tn_is_gate n" "tn_expanded (widen_gate ids n) = tn_expanded n" for n
    by (simp_all add: widen_gate_def Let_def)
  note widened = widen_gate_cases [OF rb x roots]
  have distinct: "distinct (tn_depends_on (widen_gate ids x))"
    using struct_deps_distinct [OF struct x(1)] by (simp add: widen_gate_def Let_def push_missing_distinct)
  show "struct_ok m (upd ` N \<union> B)"
  proof (rule struct_extend [OF struct])
    fix n assume n: "n \<in> N"
    show "tn_id (upd n) = tn_id n \<and> tn_parent (upd n) = tn_parent n \<and> tn_is_gate (upd n) = tn_is_gate n"
      by (simp add: upd fields)
    show "tn_expanded n \<Longrightarrow> tn_expanded (upd n)" and
      "tn_expanded (upd n) \<Longrightarrow> tn_expanded n \<or> gated B (Some (tn_id n))"
      by (simp_all add: upd fields split: if_splits)
    show "set (tn_depends_on n) \<subseteq> set (tn_depends_on (upd n)) \<and>
        set (tn_depends_on (upd n)) \<subseteq> tn_id ` N \<union> tn_id ` B \<and> distinct (tn_depends_on (upd n))"
      using same_x [OF n] known [OF n] widened(1) distinct struct_deps_distinct [OF struct n] by auto
    show "\<not> tn_expanded (upd n) \<and> set (tn_depends_on (upd n)) = set (tn_depends_on n) \<union> tn_id ` siblings B n"
      if g: "tn_is_gate n"
    proof (cases "n = x")
      case True
      have "siblings B x = B" using batch x(3) by (auto simp: siblings_def)
      then show ?thesis using True widened(1) struct_gate_plain [OF struct n g] by (simp add: upd fields)
    next
      case False
      then have "tn_parent n \<noteq> None" using struct_one_gate [OF struct n x(1) g x(2)] x(3) by auto
      then have "siblings B n = {}" using batch by (auto simp: siblings_def)
      then show ?thesis using False same_x [OF n] struct_gate_plain [OF struct n g] by simp
    qed
  next
    show "gated (N \<union> B) None" using x by (auto simp: gated_def)
  qed (use batch inj fresh in auto)
  show "status_ok m (upd ` N \<union> B)"
  proof (rule status_extend [OF struct status])
    fix n assume n: "n \<in> N"
    show "tn_id (upd n) = tn_id n" by (simp add: upd fields)
    show "upd n = n \<or> \<not> relies_on_deps (upd n) \<or> tn_depends_on (upd n) = tn_depends_on n \<and>
        (\<forall>c \<in> N. tn_id c \<in> set (tn_depends_on n) \<longrightarrow> is_done c) \<and> (is_done (upd n) \<longrightarrow> output_ok m N (upd n))"
      using same_x [OF n] widened(2) x(2) fields(3) [of x] by (auto simp: relies_on_deps_def)
    show "upd n = n \<or> (\<forall>k \<in> N. tn_id n \<notin> set (tn_depends_on k))" if "is_done n"
      using same_x [OF n] leaf by blast
    show "(tn_status (upd n) = NodeRunning \<longrightarrow> tn_owner (upd n) \<noteq> None) \<and>
        (tn_status (upd n) = NodeQueued \<longrightarrow> tn_owner (upd n) = None)"
      using status_owner [OF status n] by (simp add: upd widen_gate_def Let_def)
  qed (use batch fresh in auto)
qed

lemma root_work_siblings:
  assumes "tn_parent x = None"
  shows "set (map tn_id (root_work s)) = tn_id ` siblings (nodes_of s) x"
  using assms by (auto simp: root_work_def siblings_def)

lemma seed_wf [wf_intros]:
  assumes wf: "dag_wf g" and ok: "seed g specs = Inr g'"
  shows "dag_wf g'"
proof (rule seed_Inr [OF wf ok])
  fix u
  let ?s = "push_specs g (seed_news g u) None OriginSeed"
  let ?B = "batch_nodes (seed_news g u) None OriginSeed"
  assume fresh: "fresh_batch g (seed_news g u)"
    and deps: "\<And>c. c \<in> ?B \<Longrightarrow> set (tn_depends_on c) \<subseteq> tn_id ` nodes_of g \<union> tn_id ` ?B"
    and g': "g' = (if tg_mode g = Deep then ensure_root_gate ?s else ?s)" and ac: "acyclic (dep_rel g')"
  have rb: "root_batch (tg_mode g) (nodes_of g) ?B"
    unfolding root_batch_def
    using dag_wfD(3,4) [OF wf] fresh_batch_ids [OF fresh] deps fresh
    by (auto simp: batch_inj fresh_batch_def)
  have N: "nodes_of ?s = nodes_of g \<union> ?B" by simp
  have ds: "distinct (dag_ids ?s)" using dag_wfD(1) [OF wf] fresh by (auto simp: fresh_batch_def)
  consider (push) "tg_mode g = Deep \<Longrightarrow> root_work ?s = []" "g' = ?s"
    | (widen) x where "tg_mode g = Deep" "x \<in> nodes_of g" "tn_is_gate x" "tn_parent x = None"
        "g' = tg_modify ?s (tn_id x) (widen_gate (map tn_id (root_work ?s)))"
    | (gate) k where "tg_mode g = Deep" "\<not> gated (nodes_of g) None"
        "g' = tg_push ?s (gate_node (unique_gate_id ?s ''plan'') (root_gate_content k) k None (map tn_id (root_work ?s)))"
  proof (cases "tg_mode g = Deep \<and> root_work ?s \<noteq> []")
    case False
    then have "ensure_root_gate ?s = ?s" if "tg_mode g = Deep"
      using that by (simp add: ensure_root_gate_def)
    then show ?thesis using False g' push by (cases "tg_mode g") auto
  next
    case True
    show ?thesis
    proof (cases "find (\<lambda>n. tn_is_gate n \<and> tn_parent n = None) (tg_nodes ?s)")
      case None
      then have "\<not> gated (nodes_of g) None" unfolding find_None_iff gated_def by auto
      then show ?thesis using True None g' gate by (simp add: ensure_root_gate_def Let_def)
    next
      case (Some x)
      then have x: "x \<in> nodes_of ?s" "tn_is_gate x" "tn_parent x = None" using find_SomeD by fastforce+
      moreover have "x \<in> nodes_of g" using x(1,2) by auto
      ultimately show ?thesis using True Some g' widen by (simp add: ensure_root_gate_def Let_def)
    qed
  qed
  then show "dag_wf g'"
  proof cases
    case push
    have "tg_mode g = Deep \<Longrightarrow> ?B = {}"
      using push(1) by (auto simp: root_work_def filter_empty_conv)
    from push_ok [OF rb this] show ?thesis
      unfolding dag_wf_def using push(2) ds ac N by simp
  next
    case (widen x)
    let ?upd = "\<lambda>n. if tn_id n = tn_id x then widen_gate (map tn_id (root_work ?s)) n else n"
    have leaf: "tn_id x \<notin> set (tn_depends_on n)" if "n \<in> nodes_of g" for n
      using no_dependent_of_root_gate [OF dag_wfD(3,2) [OF wf] widen(2-4) that] .
    have roots: "set (map tn_id (root_work ?s)) = tn_id ` siblings (nodes_of g \<union> ?B) x"
      using root_work_siblings [OF widen(4), of ?s] N by simp
    have "\<And>c. c \<in> ?B \<Longrightarrow> tn_id c \<noteq> tn_id x"
      using fresh_batch_ids(3) [OF fresh] widen(2) by (fastforce simp: dag_ids_def)
    then have "nodes_of g' = ?upd ` nodes_of g \<union> ?B"
      unfolding widen(5) nodes_modify [OF ds] set_map N by (rule map_edit_image)
    moreover have "distinct (dag_ids g')"
      using ds by (simp add: widen(5) dag_ids_modify widen_gate_def Let_def)
    ultimately show ?thesis
      unfolding dag_wf_def using widen_ok [OF rb widen(1-4) roots leaf, of ?upd] ac widen(5) by simp
  next
    case (gate k)
    let ?x = "gate_node (unique_gate_id ?s ''plan'') (root_gate_content k) k None (map tn_id (root_work ?s))"
    have new: "tn_id ?x \<notin> tn_id ` (nodes_of g \<union> ?B)"
      using unique_gate_id_new [of ?s "''plan''"] unfolding N [symmetric]
      by (simp only: dag_ids_def set_map gate_node_simps not_False_eq_True)
    have roots: "set (tn_depends_on ?x) = tn_id ` siblings (nodes_of g \<union> ?B) ?x"
      using root_work_siblings [of ?x ?s] N by simp
    have "distinct (map tn_id (root_work ?s))"
      using ds by (simp add: root_work_def dag_ids_def distinct_map_filter del: nodes_push_specs)
    then have "struct_ok (tg_mode g) (nodes_of g \<union> insert ?x ?B) \<and> status_ok (tg_mode g) (nodes_of g \<union> insert ?x ?B)"
      using new roots by (intro push_gate_ok [OF rb gate(1,2)]) (simp_all add: unique_gate_id_nonblank)
    moreover have "nodes_of g' = nodes_of g \<union> insert ?x ?B" unfolding gate(3) by auto
    moreover have "distinct (dag_ids g')"
      using ds unique_gate_id_new [of ?s "''plan''"] by (simp add: gate(3))
    ultimately show ?thesis unfolding dag_wf_def using ac gate(3) by simp
  qed
qed

section \<open>Reachable graphs\<close>

text \<open>One step of the engine: any successful operation, by any actor, with any arguments.\<close>

inductive dag_step :: "TaskGraph \<Rightarrow> TaskGraph \<Rightarrow> bool" where
  step_seed: "seed g specs = Inr g' \<Longrightarrow> dag_step g g'"
| step_dispatch: "dispatch g i w = (True, g') \<Longrightarrow> dag_step g g'"
| step_expand: "expand_node g i actor children = Inr (g', out) \<Longrightarrow> dag_step g g'"
| step_complete: "complete_node g i actor a = Inr g' \<Longrightarrow> dag_step g g'"
| step_fail: "fail_node g i actor = Inr g' \<Longrightarrow> dag_step g g'"
| step_inject: "inject_from_gate g i actor specs = Inr (g', ids) \<Longrightarrow> dag_step g g'"
| step_requeue: "requeue_failed g i = Inr g' \<Longrightarrow> dag_step g g'"

inductive_cases dag_stepE: "dag_step g g'"

interpretation dag_run: invariant_system dag_step dag_wf
proof unfold_locales
  fix g g' assume "dag_step g g'" and wf: "dag_wf g"
  then show "dag_wf g'"
  proof cases
    case (step_dispatch i w)
    then show ?thesis using dispatch_wf [OF wf, of i w] by simp
  qed (use wf in \<open>blast intro: wf_intros\<close>)+
qed

definition reachable :: "Mode \<Rightarrow> TaskGraph \<Rightarrow> bool" where
  "reachable m g \<longleftrightarrow> dag_step\<^sup>*\<^sup>* (task_graph_new m) g"

lemma reachable_wf: "reachable m g \<Longrightarrow> dag_wf g"
  unfolding reachable_def by (rule dag_run.steps_inv [OF _ dag_wf_new])

end
