(* ===== verification/Dag_Guarantees.thy ===== *)
theory Dag_Guarantees
  imports Dag_Growth
begin

text \<open>
  What the task graph promises its callers: the invariant, termination of a plan only after its
  audits, progress of the scheduler, the append-only evolution and the safety of replaying a seed.
\<close>

section \<open>Consequences of the invariant\<close>

lemma done_below:
  assumes wf: "dag_wf g" and x: "x \<in> nodes_of g" "is_done x" and y: "y \<in> nodes_of g"
    and e: "(tn_id y, tn_id x) \<in> (dep_rel g)\<^sup>+"
  shows "is_done y"
proof -
  have "\<forall>x y. x \<in> nodes_of g \<longrightarrow> y \<in> nodes_of g \<longrightarrow> tn_id x = b \<longrightarrow> tn_id y = a \<longrightarrow> is_done x \<longrightarrow> is_done y"
    if "(a, b) \<in> (dep_rel g)\<^sup>+" for a b
    using that
  proof (induction rule: trancl_induct)
    case (base b)
    show ?case
    proof (intro allI impI)
      fix x y assume x: "x \<in> nodes_of g" "tn_id x = b" "is_done x" and y: "y \<in> nodes_of g" "tn_id y = a"
      obtain n where "n \<in> nodes_of g" "tn_id n = b" "a \<in> set (tn_depends_on n)"
        using base by (auto simp: dep_rel_def)
      then have "a \<in> set (tn_depends_on x)" using struct_same_id [OF dag_wfD(3) [OF wf] _ x(1)] x(2) by metis
      then show "is_done y"
        using status_deps [OF dag_wfD(4) [OF wf] x(1) _ y(1)] x(3) y(2) by (simp add: relies_on_deps_def)
    qed
  next
    case (step b c)
    show ?case
    proof (intro allI impI)
      fix x y assume x: "x \<in> nodes_of g" "tn_id x = c" "is_done x" and y: "y \<in> nodes_of g" "tn_id y = a"
      obtain n where n: "n \<in> nodes_of g" "tn_id n = c" "b \<in> set (tn_depends_on n)" "b \<in> set (dag_ids g)"
        using step(2) by (auto simp: dep_rel_def)
      then have b: "b \<in> set (tn_depends_on x)" using struct_same_id [OF dag_wfD(3) [OF wf] _ x(1)] x(2) by metis
      obtain z where z: "z \<in> nodes_of g" "tn_id z = b" using n(4) by (auto simp: dag_ids_def)
      have "is_done z"
        using status_deps [OF dag_wfD(4) [OF wf] x(1) _ z(1)] b x(3) z(2) by (simp add: relies_on_deps_def)
      then show "is_done y" using step(3) z y by blast
    qed
  qed
  then show ?thesis using e x y by blast
qed

lemma gate_done_scope:
  assumes wf: "dag_wf g" and x: "x \<in> nodes_of g" "tn_is_gate x" "is_done x"
  obtains a where "tn_output x = Some a" "\<And>c. c \<in> siblings (nodes_of g) x \<Longrightarrow> is_done c \<and>
    (must_address x c \<longrightarrow> addressed_by a (tn_id c))"
proof -
  have scope: "set (tn_depends_on x) = tn_id ` siblings (nodes_of g) x"
    by (rule struct_gate_scope [OF dag_wfD(3) [OF wf] x(1,2)])
  obtain a where a: "tn_output x = Some a" "audited (nodes_of g) x a"
    using status_output [OF dag_wfD(4) [OF wf] x(1,3)] x(2) by (auto simp: output_ok_def)
  have "is_done c \<and> (must_address x c \<longrightarrow> addressed_by a (tn_id c))" if c: "c \<in> siblings (nodes_of g) x" for c
  proof -
    have cn: "c \<in> nodes_of g" using c by (simp add: siblings_def)
    have d: "tn_id c \<in> set (tn_depends_on x)" using scope c by simp
    show ?thesis
      using status_deps [OF dag_wfD(4) [OF wf] x(1) _ cn d] a(2) cn d x(3)
      by (simp add: relies_on_deps_def audited_def)
  qed
  with a(1) show ?thesis by (rule that)
qed

section \<open>Progress\<close>

lemma minimal_undone:
  assumes wf: "dag_wf g" and n: "n \<in> nodes_of g" "\<not> is_done n"
  obtains k where "k \<in> nodes_of g" "\<not> is_done k" "deps_satisfied g k"
proof -
  have wfr: "wf (dep_rel g)" using finite_dep_rel dag_wfD(2) [OF wf] by (rule finite_acyclic_wf)
  have "\<exists>k. k \<in> nodes_of g \<and> \<not> is_done k \<and> deps_satisfied g k"
    using n
  proof (induction "tn_id n" arbitrary: n rule: wf_induct_rule [OF wfr])
    case 1
    show ?case
    proof (cases "deps_satisfied g n")
      case False
      then obtain c where c: "c \<in> nodes_of g" "tn_id c \<in> set (tn_depends_on n)" "\<not> is_done c"
        using deps_done [OF wf 1(2)] by blast
      have "(tn_id c, tn_id n) \<in> dep_rel g" by (rule dep_rel_intro [OF dag_wfD(3) [OF wf] 1(2) c(2)])
      from 1(1) [OF this c(1,3)] show ?thesis .
    qed (use 1 in blast)
  qed
  then show ?thesis using that by blast
qed

section \<open>Evolution\<close>

text \<open>What a step may change of a node that already exists.\<close>

definition evolves :: "TaskGraph \<Rightarrow> TaskGraph \<Rightarrow> TaskNode \<Rightarrow> TaskNode \<Rightarrow> bool" where
  "evolves g g' n n' \<longleftrightarrow> tn_id n' = tn_id n \<and> tn_content n' = tn_content n \<and> tn_kind n' = tn_kind n \<and>
     tn_parent n' = tn_parent n \<and> tn_is_gate n' = tn_is_gate n \<and> tn_priority n' = tn_priority n \<and>
     tn_origin n' = tn_origin n \<and> (tn_expanded n \<longrightarrow> tn_expanded n') \<and>
     set (tn_depends_on n) \<subseteq> set (tn_depends_on n') \<and>
     (\<not> tn_is_gate n \<longrightarrow> (\<forall>d \<in> set (tn_depends_on n') - set (tn_depends_on n).
        d \<notin> set (dag_ids g) \<and> (\<exists>c. tg_get g' d = Some c \<and> tn_parent c = Some (tn_id n)))) \<and>
     (is_done n \<and> \<not> tn_is_gate n \<longrightarrow> n' = n)"

lemma evolves_refl: "evolves g g' n n"
  by (simp add: evolves_def)

definition grows :: "TaskGraph \<Rightarrow> TaskGraph \<Rightarrow> bool" where
  "grows g g' \<longleftrightarrow> tg_mode g' = tg_mode g \<and>
     (\<forall>i n. tg_get g i = Some n \<longrightarrow> (\<exists>n'. tg_get g' i = Some n' \<and> evolves g g' n n'))"

lemma grows_intro:
  assumes wf: "dag_wf g" and d': "distinct (dag_ids g')" and mode: "tg_mode g' = tg_mode g"
    and N: "nodes_of g' = upd ` nodes_of g \<union> New"
    and step: "\<And>n. n \<in> nodes_of g \<Longrightarrow> evolves g g' n (upd n)"
  shows "grows g g'"
  unfolding grows_def
proof (intro conjI allI impI mode)
  fix i n assume "tg_get g i = Some n"
  then have n: "n \<in> nodes_of g" "tn_id n = i" using get_node [OF wf] by auto
  have "upd n \<in> nodes_of g'" "tn_id (upd n) = i" using N n step [OF n(1)] by (auto simp: evolves_def)
  then have "tg_get g' i = Some (upd n)" by (simp add: tg_get_iff [OF d'])
  with step [OF n(1)] show "\<exists>n'. tg_get g' i = Some n' \<and> evolves g g' n n'" by blast
qed

lemma grows_modify:
  assumes wf: "dag_wf g" and r: "tg_get g i = Some r"
    and f: "evolves g (tg_modify g i f) r (f r)" "\<And>n. tn_id (f n) = tn_id n"
  shows "grows g (tg_modify g i f)"
proof (rule grows_intro [OF wf])
  show "distinct (dag_ids (tg_modify g i f))" using dag_wfD(1) [OF wf] f(2) by (simp add: dag_ids_modify)
  show "nodes_of (tg_modify g i f) = (\<lambda>n. if tn_id n = i then f n else n) ` nodes_of g \<union> {}"
    by (simp add: nodes_modify [OF dag_wfD(1) [OF wf]])
  fix n assume "n \<in> nodes_of g"
  then show "evolves g (tg_modify g i f) n (if tn_id n = i then f n else n)"
    using f(1) get_node(3) [OF wf r] evolves_refl by auto
qed simp

lemma ensure_root_gate_nodes:
  assumes d: "distinct (dag_ids s)"
  obtains upd New where "nodes_of (ensure_root_gate s) = upd ` nodes_of s \<union> New"
    "tg_mode (ensure_root_gate s) = tg_mode s"
    "\<And>n. n \<in> nodes_of s \<Longrightarrow> upd n = n \<or> (tn_is_gate n \<and> (\<exists>ids. upd n = widen_gate ids n))"
proof -
  let ?ids = "map tn_id (root_work s)"
  consider (same) "ensure_root_gate s = s"
    | (widen) x where "x \<in> nodes_of s" "tn_is_gate x" "ensure_root_gate s = tg_modify s (tn_id x) (widen_gate ?ids)"
    | (gate) x where "ensure_root_gate s = tg_push s x"
  proof (cases "root_work s = []")
    case False
    then show ?thesis
      using that find_SomeD [of _ "tg_nodes s"]
      by (cases "find (\<lambda>n. tn_is_gate n \<and> tn_parent n = None) (tg_nodes s)")
        (simp_all add: ensure_root_gate_def Let_def, blast)
  qed (simp add: ensure_root_gate_def that)
  then show ?thesis
  proof cases
    case same
    then show ?thesis using that [of "\<lambda>n. n" "{}"] by simp
  next
    case (widen x)
    let ?upd = "\<lambda>n. if tn_id n = tn_id x then widen_gate ?ids n else n"
    show ?thesis
    proof (rule that [of ?upd "{}"])
      show "nodes_of (ensure_root_gate s) = ?upd ` nodes_of s \<union> {}"
        by (simp add: widen(3) nodes_modify [OF d])
      show "?upd n = n \<or> (tn_is_gate n \<and> (\<exists>ids. ?upd n = widen_gate ids n))" if "n \<in> nodes_of s" for n
      proof (cases "tn_id n = tn_id x")
        case True
        then have "n = x" using d that widen(1) by (auto simp: dag_ids_def distinct_map inj_on_def)
        then show ?thesis using widen(2) by auto
      qed simp
    qed (simp add: widen(3))
  next
    case (gate x)
    then show ?thesis using that [of "\<lambda>n. n" "{x}"] by simp
  qed
qed

lemma seed_grows:
  assumes wf: "dag_wf g" and ok: "seed g specs = Inr g'"
  shows "grows g g'"
proof (rule seed_Inr [OF wf ok])
  fix u
  let ?s = "push_specs g (seed_news g u) None OriginSeed"
  assume fresh: "fresh_batch g (seed_news g u)"
    and g': "g' = (if tg_mode g = Deep then ensure_root_gate ?s else ?s)"
  have ds: "distinct (dag_ids ?s)" using dag_wfD(1) [OF wf] fresh by (auto simp: fresh_batch_def)
  obtain upd New where u: "nodes_of g' = upd ` nodes_of ?s \<union> New" "tg_mode g' = tg_mode ?s"
    "\<And>n. n \<in> nodes_of ?s \<Longrightarrow> upd n = n \<or> (tn_is_gate n \<and> (\<exists>ids. upd n = widen_gate ids n))"
  proof (cases "tg_mode g = Deep")
    case True
    then show ?thesis using ensure_root_gate_nodes [OF ds] that g' by metis
  next
    case False
    then show ?thesis using that [of "\<lambda>n. n" "{}"] g' by simp
  qed
  show "grows g g'"
  proof (rule grows_intro [OF wf dag_wfD(1) [OF seed_wf [OF wf ok]]])
    show "nodes_of g' = upd ` nodes_of g \<union> (upd ` batch_nodes (seed_news g u) None OriginSeed \<union> New)"
      unfolding u(1) nodes_push_specs set_append set_map image_Un by (rule Un_assoc)
    fix n assume "n \<in> nodes_of g"
    then have "upd n = n \<or> (tn_is_gate n \<and> (\<exists>ids. upd n = widen_gate ids n))" using u(3) by simp
    then show "evolves g g' n (upd n)"
      by (auto simp: evolves_refl) (auto simp: evolves_def widen_gate_def Let_def)
  qed (use u(2) in simp)
qed

lemma expand_grows:
  assumes wf: "dag_wf g" and ok: "expand_node g i actor children = Inr (g', out)"
  shows "grows g g'"
proof (rule expand_node_Inr [OF wf ok])
  fix r
  let ?cs = "batch_nodes children (Some i) OriginExpand" and ?xs = "expand_gates g i r children"
  let ?ids = "spec_ids children @ map tn_id ?xs"
  assume r: "tg_get g i = Some r" "\<not> tn_is_gate r" "\<not> tn_expanded r" "tn_status r = NodeRunning"
    and fresh: "fresh_batch g children" and mode: "tg_mode g' = tg_mode g" and d': "distinct (dag_ids g')"
    and N: "nodes_of g' = (\<lambda>n. if tn_id n = i then flip_composite ?ids n else n) ` nodes_of g \<union> (?cs \<union> set ?xs)"
  have new: "d \<notin> set (dag_ids g) \<and> (\<exists>c. tg_get g' d = Some c \<and> tn_parent c = Some i)" if d: "d \<in> set ?ids" for d
  proof -
    have "d \<in> tn_id ` (?cs \<union> set ?xs)" using d by (simp only: set_append set_map batch_ids image_Un)
    then obtain c where c: "c \<in> ?cs \<union> set ?xs" "tn_id c = d" by blast
    have "tn_parent c = Some i" using c(1) by (auto simp: expand_gates_def split: if_splits)
    moreover have "tn_id c \<notin> set (dag_ids g)"
      using c(1) fresh_batch_ids(3) [OF fresh, of c] unique_gate_id_new [of "push_specs g children (Some i) OriginExpand" i]
      unfolding dag_ids_push_specs by (auto simp: expand_gates_def split: if_splits)
    moreover have "tg_get g' d = Some c" using c N by (simp only: tg_get_iff [OF d'] Un_iff simp_thms)
    ultimately show ?thesis using c(2) by blast
  qed
  show "grows g g'"
  proof (rule grows_intro [OF wf d' mode N])
    fix n assume n: "n \<in> nodes_of g"
    show "evolves g g' n (if tn_id n = i then flip_composite ?ids n else n)"
    proof (cases "tn_id n = i")
      case True
      then have "n = r" using get_node(3) [OF wf r(1) n] by simp
      then have "\<not> is_done n" using r(4) by (simp add: is_done_def)
      then show ?thesis using True new by (auto simp: evolves_def flip_composite_def)
    qed (simp add: evolves_refl)
  qed
qed

lemma inject_grows:
  assumes wf: "dag_wf g" and ok: "inject_from_gate g i actor specs = Inr (g', ids)"
  shows "grows g g'"
proof (rule inject_from_gate_Inr [OF wf ok])
  fix x :: TaskNode
  let ?New = "batch_nodes specs (tn_parent x) OriginGap"
  assume x: "tg_get g i = Some x" "tn_is_gate x" "tn_status x = NodeRunning"
    and fresh: "fresh_batch g specs" and mode: "tg_mode g' = tg_mode g" and d': "distinct (dag_ids g')"
    and N: "nodes_of g' = inject_update x ids ` nodes_of g \<union> ?New" and ids: "ids = spec_ids specs"
  note node = get_node [OF wf x(1)]
  have new: "d \<notin> set (dag_ids g) \<and> (\<exists>c. tg_get g' d = Some c \<and> tn_parent c = tn_parent x)" if d: "d \<in> set ids" for d
  proof -
    have "d \<in> tn_id ` ?New" using d by (simp only: ids batch_ids)
    then obtain c where c: "c \<in> ?New" "tn_id c = d" by blast
    moreover have "tg_get g' d = Some c" using c N by (simp only: tg_get_iff [OF d'] Un_iff simp_thms)
    ultimately show ?thesis using fresh_batch_ids(3) [OF fresh c(1)] by auto
  qed
  show "grows g g'"
  proof (rule grows_intro [OF wf d' mode N])
    fix n assume n: "n \<in> nodes_of g"
    show "evolves g g' n (inject_update x ids n)"
    proof (cases "tn_id n = tn_id x")
      case True
      then have "n = x" using node(3) [OF n] node(2) by simp
      then show ?thesis using x by (simp add: evolves_def inject_update_def requeue_gate_def is_done_def)
    next
      case other: False
      show ?thesis
      proof (cases "tn_parent x = Some (tn_id n)")
        case True
        have "joined (nodes_of g) x (tn_id n)" by (rule struct_joined [OF dag_wfD(3) [OF wf] node(1) True])
        then have "tn_id x \<in> set (tn_depends_on n)"
          using struct_same_id [OF dag_wfD(3) [OF wf] _ n] by (auto simp: joined_def)
        then have "\<not> is_done n"
          using status_deps [OF dag_wfD(4) [OF wf] n _ node(1)] x(3) by (auto simp: relies_on_deps_def is_done_def)
        then show ?thesis using other True new by (auto simp: evolves_def inject_update_def add_dependencies_def)
      qed (simp add: inject_update_def other evolves_refl)
    qed
  qed
qed

lemma dag_step_grows:
  assumes wf: "dag_wf g" and "dag_step g g'"
  shows "grows g g'"
  using assms(2)
proof cases
  case (step_dispatch i w)
  then show ?thesis
    by (rule dispatch_True) (use grows_modify [OF wf] in \<open>auto simp: evolves_def is_done_def\<close>)
next
  case (step_complete i actor a)
  then show ?thesis
    using grows_modify [OF wf]
    by (auto simp: complete_node_def and_then_Inr owned_node_Inr evolves_def is_done_def split: if_splits)
next
  case (step_fail i actor)
  then show ?thesis
    using grows_modify [OF wf]
    by (auto simp: fail_node_def and_then_Inr owned_node_Inr evolves_def is_done_def split: if_splits)
next
  case (step_requeue i)
  then show ?thesis
    using grows_modify [OF wf]
    by (auto simp: requeue_failed_def evolves_def is_done_def split: if_splits option.splits)
qed (use seed_grows [OF wf] expand_grows [OF wf] inject_grows [OF wf] in blast)+

end
