(* ===== verification/Dag_Replay.thy ===== *)
theory Dag_Replay
  imports Dag_Guarantees
begin

text \<open>
  Replaying a seed. Once a seed request has been accepted its specs stay declared in the graph,
  whatever the engine does later, so that the same request is a no-op.
\<close>

definition declared :: "TaskGraph \<Rightarrow> NodeSpec \<Rightarrow> bool" where
  "declared g s \<longleftrightarrow> (\<exists>n. tg_get g (spec_id s) = Some n \<and> seed_spec_matches_existing g n s)"

definition own_deps :: "TaskGraph \<Rightarrow> TaskNode \<Rightarrow> NodeId set" where
  "own_deps g n = {d \<in> set (tn_depends_on n). \<forall>c. tg_get g d = Some c \<longrightarrow> tn_parent c \<noteq> Some (tn_id n)}"

lemma seed_spec_matches_iff:
  "seed_spec_matches_existing g n s \<longleftrightarrow> tn_parent n = None \<and> \<not> tn_is_gate n \<and>
     (tn_origin n = None \<or> tn_origin n = Some OriginSeed) \<and> tn_content n = ns_content s \<and>
     tn_kind n = ns_kind s \<and> tn_priority n = ns_priority s \<and> own_deps g n = set (ns_depends_on s)"
proof -
  have "set (filter (\<lambda>d. case tg_get g d of None \<Rightarrow> True | Some c \<Rightarrow> tn_parent c \<noteq> Some (tn_id n)) (tn_depends_on n)) =
      own_deps g n"
    by (auto simp: own_deps_def split: option.split)
  then show ?thesis unfolding seed_spec_matches_existing_def dependency_sets_equal_def Let_def by auto
qed

lemma own_deps_grows:
  assumes wf: "dag_wf g" and gr: "grows g g'" and n: "tg_get g i = Some n" "\<not> tn_is_gate n"
    and n': "evolves g g' n n'"
  shows "own_deps g' n' = own_deps g n"
proof -
  note node = get_node [OF wf n(1)]
  have parent: "tn_parent c' = tn_parent c" if "tg_get g d = Some c" "tg_get g' d = Some c'" for d c c'
    using gr that by (fastforce simp: grows_def evolves_def)
  have known: "\<exists>c. tg_get g d = Some c" if "d \<in> set (tn_depends_on n)" for d
    using struct_dep [OF dag_wfD(3) [OF wf] node(1) that] tg_get_iff [OF dag_wfD(1) [OF wf]] by metis
  have kept: "\<exists>c'. tg_get g' d = Some c'" if "tg_get g d = Some c" for d c
    using gr that by (fastforce simp: grows_def)
  have id: "tn_id n' = tn_id n" and sub: "set (tn_depends_on n) \<subseteq> set (tn_depends_on n')"
    and new: "\<And>d. d \<in> set (tn_depends_on n') \<Longrightarrow> d \<notin> set (tn_depends_on n) \<Longrightarrow>
      \<exists>c. tg_get g' d = Some c \<and> tn_parent c = Some (tn_id n)"
    using n' n(2) by (auto simp: evolves_def)
  show ?thesis
  proof (intro equalityI subsetI)
    fix d assume d: "d \<in> own_deps g' n'"
    then have dn: "d \<in> set (tn_depends_on n)" using new id by (fastforce simp: own_deps_def)
    then obtain c c' where c: "tg_get g d = Some c" "tg_get g' d = Some c'" using known kept by blast
    then show "d \<in> own_deps g n" using d dn parent [OF c] id by (simp add: own_deps_def)
  next
    fix d assume d: "d \<in> own_deps g n"
    then obtain c where c: "tg_get g d = Some c" using known by (auto simp: own_deps_def)
    obtain c' where c': "tg_get g' d = Some c'" using kept [OF c] by blast
    show "d \<in> own_deps g' n'" using d sub c c' parent [OF c c'] id by (auto simp: own_deps_def)
  qed
qed

lemma declared_grows:
  assumes wf: "dag_wf g" and gr: "grows g g'" and d: "declared g s"
  shows "declared g' s"
proof -
  obtain n where n: "tg_get g (spec_id s) = Some n" "seed_spec_matches_existing g n s"
    using d by (auto simp: declared_def)
  obtain n' where n': "tg_get g' (spec_id s) = Some n'" "evolves g g' n n'"
    using gr n(1) by (auto simp: grows_def)
  have "\<not> tn_is_gate n" using n(2) by (simp add: seed_spec_matches_iff)
  from own_deps_grows [OF wf gr n(1) this n'(2)] show ?thesis
    unfolding declared_def using n n' by (auto simp: seed_spec_matches_iff evolves_def)
qed

lemma declared_equivalent:
  "seed_specs_equivalent v s \<Longrightarrow> declared g v \<longleftrightarrow> declared g s"
  by (auto simp: declared_def seed_specs_equivalent_def dependency_sets_equal_def seed_spec_matches_iff spec_id_def)

lemma seed_declares:
  assumes wf: "dag_wf g" and ok: "seed g specs = Inr g'" and s: "s \<in> set specs"
  shows "declared g' s"
proof -
  obtain u where u: "seed_collect specs [] = Inr u"
    "\<And>v e. v \<in> set u \<Longrightarrow> tg_get g (spec_id v) = Some e \<Longrightarrow> seed_spec_matches_existing g e v"
    "g' = (if tg_mode g = Deep then ensure_root_gate (push_specs g (seed_news g u) None OriginSeed)
       else push_specs g (seed_news g u) None OriginSeed)"
    using ok by (auto simp: seed_def and_then_Inr seed_apply_Inr reject_cycle_Inr requires_gates_def split: if_splits)
  obtain v where v: "v \<in> set u" "seed_specs_equivalent v s"
    using seed_collect_Inr [OF u(1)] s by (auto simp: specs_valid_def)
  have wf': "dag_wf g'" by (rule seed_wf [OF wf ok])
  have "declared g' v"
  proof (cases "tg_get g (spec_id v)")
    case (Some e)
    then have "declared g v" using u(2) v(1) by (auto simp: declared_def)
    then show ?thesis by (rule declared_grows [OF wf seed_grows [OF wf ok]])
  next
    case None
    let ?n = "spec_to_node v None OriginSeed"
    have "v \<in> set (seed_news g u)" using None v(1) by (simp add: seed_news_def)
    then have n: "?n \<in> nodes_of (push_specs g (seed_news g u) None OriginSeed)" by simp
    have "?n \<in> nodes_of g'"
    proof (cases "tg_mode g = Deep")
      case True
      have "distinct (dag_ids (push_specs g (seed_news g u) None OriginSeed))"
        by (rule seed_Inr [OF wf ok]) (use u(1) dag_wfD(1) [OF wf] in \<open>auto simp: fresh_batch_def\<close>)
      then obtain upd New where "nodes_of g' = upd ` nodes_of (push_specs g (seed_news g u) None OriginSeed) \<union> New"
        "upd ?n = ?n"
        using ensure_root_gate_nodes n u(3) True by (metis spec_to_node_simps(5))
      then show ?thesis using n by force
    qed (use n u(3) in simp)
    moreover have id: "tn_id ?n = spec_id v" by (simp add: spec_to_node_def spec_id_def)
    ultimately have get: "tg_get g' (spec_id v) = Some ?n" by (simp add: tg_get_iff [OF dag_wfD(1) [OF wf']])
    have "tn_parent c \<noteq> Some (tn_id ?n)" if "tg_get g' d = Some c" for d c
      using no_orphans [OF dag_wfD(3) [OF wf'] get_node(1) [OF wf' get] _ get_node(1) [OF wf' that]] by simp
    then have "own_deps g' ?n = set (ns_depends_on v)" by (auto simp: own_deps_def)
    then have "seed_spec_matches_existing g' ?n v"
      unfolding seed_spec_matches_iff by (simp add: spec_to_node_def)
    then show ?thesis using get by (auto simp: declared_def)
  qed
  then show ?thesis using declared_equivalent [OF v(2)] by simp
qed

lemma ensure_root_gate_id:
  assumes wf: "dag_wf g" and deep: "tg_mode g = Deep"
  shows "ensure_root_gate g = g"
proof (cases "root_work g = []")
  case False
  then obtain c where "c \<in> nodes_of g" "\<not> tn_is_gate c" "tn_parent c = None"
    by (auto simp: root_work_def filter_empty_conv)
  then have "gated (nodes_of g) None" using struct_root_gated dag_wfD(3) [OF wf] deep by metis
  then obtain x where x: "find (\<lambda>n. tn_is_gate n \<and> tn_parent n = None) (tg_nodes g) = Some x"
    unfolding gated_def by (metis (mono_tags, lifting) find_None_iff not_None_eq)
  then have xn: "x \<in> nodes_of g" "tn_is_gate x" "tn_parent x = None" using find_SomeD by fastforce+
  have "set (map tn_id (root_work g)) = set (tn_depends_on x)"
    using root_work_siblings [OF xn(3)] struct_gate_scope [OF dag_wfD(3) [OF wf] xn(1,2)] by simp
  then have "widen_gate (map tn_id (root_work g)) x = x"
    by (auto simp: widen_gate_def Let_def list_ex_iff push_missing_same)
  then have "(if tn_id n = tn_id x then widen_gate (map tn_id (root_work g)) n else n) = n"
    if "n \<in> nodes_of g" for n
    using struct_same_id [OF dag_wfD(3) [OF wf] that xn(1)] by auto
  then have "tg_nodes (tg_modify g (tn_id x) (widen_gate (map tn_id (root_work g)))) = tg_nodes g"
    unfolding nodes_modify [OF dag_wfD(1) [OF wf]] by (intro map_idI)
  then show ?thesis
    using False x by (simp add: ensure_root_gate_def Let_def tg_modify_def)
qed (simp add: ensure_root_gate_def)

lemma seed_declared_noop:
  assumes wf: "dag_wf g" and u: "seed_collect specs [] = Inr u" "check_dependencies g u = Inr ()"
    and d: "\<And>s. s \<in> set specs \<Longrightarrow> declared g s"
  shows "seed g specs = Inr g"
proof -
  have decl: "declared g v" if "v \<in> set u" for v
    using seed_collect_Inr [OF u(1)] that d by (auto simp: specs_valid_def)
  then have "seed_news g u = []" by (auto simp: seed_news_def filter_empty_conv declared_def)
  moreover have "push_specs g [] None OriginSeed = g" by (simp add: push_specs_def)
  moreover have "seed_spec_matches_existing g e v" if "v \<in> set u" "tg_get g (spec_id v) = Some e" for v e
    using decl [OF that(1)] that(2) by (auto simp: declared_def)
  ultimately have "seed_apply g u g = Inr g" by (simp add: seed_apply_Inr)
  then show ?thesis
    using u ensure_root_gate_id [OF wf] dag_wfD(2) [OF wf]
    by (cases "tg_mode g") (simp_all add: seed_def reject_cycle_Inr)
qed

lemma check_dependencies_mono:
  assumes "check_dependencies g u = Inr ()" and "\<And>i. tg_contains g i \<Longrightarrow> tg_contains g' i"
  shows "check_dependencies g' u = Inr ()"
  using assms by (fastforce simp: check_dependencies_def split: if_splits)

lemma replay_after_steps:
  assumes "dag_step\<^sup>*\<^sup>* g g'" and "dag_wf g" and "\<And>s. s \<in> S \<Longrightarrow> declared g s"
  shows "dag_wf g' \<and> (\<forall>s \<in> S. declared g' s) \<and> (\<forall>i. tg_contains g i \<longrightarrow> tg_contains g' i)"
  using assms
proof (induction rule: rtranclp_induct)
  case (step g1 g2)
  then have wf1: "dag_wf g1" by blast
  have gr: "grows g1 g2" by (rule dag_step_grows [OF wf1 step(2)])
  then have "tg_contains g1 i \<longrightarrow> tg_contains g2 i" for i by (fastforce simp: grows_def tg_contains_get)
  moreover have "dag_wf g2" by (rule dag_run.step_inv [OF step(2) wf1])
  ultimately show ?case using step declared_grows [OF wf1 gr] by blast
qed simp

end
