(* ===== verification/Dag_Mentions.thy ===== *)
theory Dag_Mentions
  imports Dag_Ops
begin

text \<open>
  The standalone-token scan of \<open>mentions_node_id\<close> against its declarative meaning: some occurrence
  of the id is bounded on both sides. The scan advances by a whole scalar value after a failed
  match, which skips no occurrence in well-formed UTF-8.
\<close>

definition utf8_wf :: "string \<Rightarrow> bool" where
  "utf8_wf s \<longleftrightarrow> (\<forall>p < length s. \<not> is_cont_byte (s ! p) \<longrightarrow>
     (\<forall>j < utf8_len (s ! p). 0 < j \<longrightarrow> p + j < length s \<longrightarrow> is_cont_byte (s ! (p + j))))"

lemma utf8_wf_ascii:
  assumes "list_all (\<lambda>c. utf8_len c = 1) s"
  shows "utf8_wf s"
  using assms by (simp add: utf8_wf_def list_all_length)

definition occurs_at :: "string \<Rightarrow> string \<Rightarrow> nat \<Rightarrow> bool" where
  "occurs_at t i k \<longleftrightarrow> strip_prefix i (drop k t) \<noteq> None"

definition bounded_at :: "string \<Rightarrow> string \<Rightarrow> nat \<Rightarrow> bool" where
  "bounded_at t i k \<longleftrightarrow> (k = 0 \<or> \<not> is_id_char (t ! (k - 1))) \<and> mention_end_ok (drop (k + length i) t)"

lemma occurs_at_head:
  assumes "occurs_at t i k" and "i \<noteq> []"
  shows "k < length t \<and> t ! k = hd i"
proof -
  obtain r where r: "drop k t = i @ r"
    using assms(1) by (auto simp: occurs_at_def strip_prefix_None_iff)
  then have "drop k t \<noteq> []" using assms(2) by simp
  then have k: "k < length t" by simp
  then show ?thesis using r assms(2) by (metis hd_append2 hd_drop_conv_nth)
qed

lemma no_occurrence_inside:
  assumes wf: "utf8_wf t" and i: "i \<noteq> []" "\<not> is_cont_byte (hd i)"
    and occ: "occurs_at t i b" and k: "b < k" "k < b + utf8_len (t ! b)"
  shows "\<not> occurs_at t i k"
proof
  assume "occurs_at t i k"
  then have hk: "k < length t" "t ! k = hd i" using occurs_at_head i(1) by blast+
  have hb: "b < length t" "t ! b = hd i" using occurs_at_head [OF occ i(1)] by blast+
  obtain j where j: "k = b + j" "0 < j" "j < utf8_len (t ! b)"
    using k by (metis add_less_cancel_left less_imp_add_positive)
  have "is_cont_byte (t ! (b + j))"
    using wf hb i(2) j hk(1) unfolding utf8_wf_def by simp
  then show False using hk(2) i(2) j(1) by simp
qed

lemma find_sub_occurs:
  assumes "find_sub i (drop start t) = Some pos"
  shows "occurs_at t i (start + pos)" "\<And>k. start \<le> k \<Longrightarrow> k < start + pos \<Longrightarrow> \<not> occurs_at t i k"
proof -
  obtain r where r: "drop start t = take pos (drop start t) @ i @ r"
      "pos + length i \<le> length (drop start t)"
    using find_sub_Some [OF assms] by blast
  have "drop pos (drop start t) = i @ r"
    using r by (metis append_eq_conv_conj append_take_drop_id same_append_eq)
  then show "occurs_at t i (start + pos)"
    by (auto simp: occurs_at_def strip_prefix_None_iff add.commute)
  fix k assume "start \<le> k" "k < start + pos"
  then show "\<not> occurs_at t i k"
    using find_sub_first [OF assms, of "k - start"] by (simp add: occurs_at_def)
qed

lemma find_sub_no_occurrence:
  "find_sub i (drop start t) = None \<Longrightarrow> start \<le> k \<Longrightarrow> \<not> occurs_at t i k"
  using find_sub_None [of i "drop start t" "k - start"] by (simp add: occurs_at_def)

lemma mentions_from_iff:
  assumes "utf8_wf t" and "i \<noteq> []" and "\<not> is_cont_byte (hd i)"
  shows "mentions_from t i start \<longleftrightarrow> (\<exists>k \<ge> start. occurs_at t i k \<and> bounded_at t i k)"
  using assms
proof (induction t i start rule: mentions_from.induct)
  case (1 t i start)
  show ?case
  proof (cases "find_sub i (drop start t)")
    case None
    then show ?thesis
      using find_sub_no_occurrence [OF None] by (subst mentions_from.simps) auto
  next
    case (Some pos)
    let ?b = "start + pos"
    note first = find_sub_occurs [OF Some]
    have head: "?b < length t" using occurs_at_head [OF first(1) 1(3)] by blast
    then have drop_b: "drop ?b t = t ! ?b # drop (Suc ?b) t" by (simp add: Cons_nth_drop_Suc)
    let ?next = "?b + utf8_len (t ! ?b)"
    have step: "mentions_from t i start \<longleftrightarrow> bounded_at t i ?b \<or>
        (\<not> length t \<le> ?next \<and> mentions_from t i ?next)"
      by (subst mentions_from.simps) (auto simp: Some Let_def drop_b bounded_at_def)
    have gap: "\<not> occurs_at t i k" if "?b < k" "k < ?next" for k
      using no_occurrence_inside [OF 1(2-4) first(1) that] .
    have later: "(\<exists>k \<ge> ?next. occurs_at t i k \<and> bounded_at t i k) \<longleftrightarrow>
        (\<exists>k \<ge> start. k \<noteq> ?b \<and> occurs_at t i k \<and> bounded_at t i k)"
    proof -
      have "?next \<le> k" if k: "start \<le> k" "k \<noteq> ?b" "occurs_at t i k" for k
      proof (rule ccontr)
        assume "\<not> ?next \<le> k"
        then consider "k < ?b" | "?b < k" "k < ?next" using k(2) by linarith
        then show False by cases (use k first(2) gap in blast)+
      qed
      moreover have "start \<le> k \<and> k \<noteq> ?b" if "?next \<le> k" for k
        using that utf8_len_pos [of "t ! ?b"] by linarith
      ultimately show ?thesis by blast
    qed
    show ?thesis
    proof (cases "bounded_at t i ?b")
      case True
      then show ?thesis using step first(1) by (intro iffI exI [of _ ?b]) auto
    next
      case unb: False
      have rec: "\<not> length t \<le> ?next \<Longrightarrow> mentions_from t i ?next \<longleftrightarrow>
          (\<exists>k \<ge> ?next. occurs_at t i k \<and> bounded_at t i k)"
      proof -
        have n: "?next = ?b + (case drop ?b t of [] \<Rightarrow> 1 | c # _ \<Rightarrow> utf8_len c)" by (simp add: drop_b)
        show "\<not> length t \<le> ?next \<Longrightarrow> ?thesis"
          using 1(1) [OF Some refl refl refl _ n] unb 1(2-4) by (simp add: bounded_at_def)
      qed
      have "\<not> occurs_at t i k" if "length t \<le> ?next" "?next \<le> k" for k
        using occurs_at_head [OF _ 1(3), of t k] that by fastforce
      then have "mentions_from t i start \<longleftrightarrow> (\<exists>k \<ge> ?next. occurs_at t i k \<and> bounded_at t i k)"
        using step unb rec by blast
      then show ?thesis using later unb by metis
    qed
  qed
qed

lemma occurs_at_split:
  assumes "i \<noteq> []"
  shows "(\<exists>k. occurs_at t i k \<and> bounded_at t i k) \<longleftrightarrow>
   (\<exists>a b. t = a @ i @ b \<and> (a = [] \<or> \<not> is_id_char (last a)) \<and> mention_end_ok b)"
proof
  assume "\<exists>k. occurs_at t i k \<and> bounded_at t i k"
  then obtain k r where k: "drop k t = i @ r" "bounded_at t i k"
    by (auto simp: occurs_at_def strip_prefix_None_iff)
  have "k < length t" using k(1) assms by (metis append_is_Nil_conv drop_all not_less)
  then have "take k t = [] \<or> \<not> is_id_char (last (take k t))"
    using k(2) by (auto simp: bounded_at_def last_conv_nth)
  moreover have "t = take k t @ i @ r" using k(1) by (metis append_take_drop_id)
  moreover have "drop (k + length i) t = r"
    using k(1) by (metis add.commute append_eq_conv_conj drop_drop)
  ultimately show "\<exists>a b. t = a @ i @ b \<and> (a = [] \<or> \<not> is_id_char (last a)) \<and> mention_end_ok b"
    using k(2) unfolding bounded_at_def by blast
next
  assume "\<exists>a b. t = a @ i @ b \<and> (a = [] \<or> \<not> is_id_char (last a)) \<and> mention_end_ok b"
  then obtain a b where ab: "t = a @ i @ b" "a = [] \<or> \<not> is_id_char (last a)" "mention_end_ok b" by blast
  then show "\<exists>k. occurs_at t i k \<and> bounded_at t i k"
    by (intro exI [of _ "length a"])
      (auto simp: occurs_at_def bounded_at_def strip_prefix_None_iff nth_append last_conv_nth)
qed

lemma mention_end_ok_alt:
  "mention_end_ok b \<longleftrightarrow> (case b of [] \<Rightarrow> True | c # cs \<Rightarrow>
     if c = CHR ''.'' \<or> c = CHR '':'' then cs = [] \<or> \<not> is_id_char (hd cs) else \<not> is_id_char c)"
  by (auto simp: mention_end_ok_def split: list.split)

text \<open>An id is found in a text exactly when it occurs there bounded by the text's ends or by
  characters that cannot belong to an id, a full stop or colon after it counting as a boundary
  unless an id character follows. Both are UTF-8; the id starts with a lead byte.\<close>

theorem mentions_node_id_spec:
  assumes "utf8_wf t" and "i \<noteq> []" and "\<not> is_cont_byte (hd i)"
  shows "mentions_node_id t i \<longleftrightarrow>
    (\<exists>a b. t = a @ i @ b \<and> (a = [] \<or> \<not> is_id_char (last a)) \<and>
       (case b of [] \<Rightarrow> True | c # cs \<Rightarrow>
          if c = CHR ''.'' \<or> c = CHR '':'' then cs = [] \<or> \<not> is_id_char (hd cs) else \<not> is_id_char c))"
proof -
  have "mentions_node_id t i \<longleftrightarrow> (\<exists>k. occurs_at t i k \<and> bounded_at t i k)"
    using mentions_from_iff [OF assms, of 0] assms(2) by (simp add: mentions_node_id_def)
  also note occurs_at_split [OF assms(2)]
  finally show ?thesis by (simp only: mention_end_ok_alt)
qed

theorem mentions_node_id_spec_witness:
  "mentions_node_id ''checked a.hot.'' ''a.hot'' \<and> \<not> mentions_node_id ''a fix'' ''f''"
proof
  have wf: "utf8_wf ''checked a.hot.''" by (rule utf8_wf_ascii) code_simp
  have lead: "\<not> is_cont_byte (hd ''a.hot'')" and space: "\<not> is_id_char (last ''checked '')" by code_simp+
  show "mentions_node_id ''checked a.hot.'' ''a.hot''"
    unfolding mentions_node_id_spec [OF wf _ lead, simplified]
    using space by (intro exI [of _ "''checked ''"] exI [of _ "''.''"]) simp
qed code_simp

text \<open>C9 The id chosen for an automatic gate is not in the graph: it is \<open><node>::gate\<close> itself or that
  base with the first free counter from 2.\<close>

theorem unique_gate_id_spec:
  "\<not> tg_contains g (unique_gate_id g i) \<and>
   (unique_gate_id g i = i @ ''::gate'' \<or>
    (tg_contains g (i @ ''::gate'') \<and>
     (\<exists>n \<ge> 2. unique_gate_id g i = i @ ''::gate'' @ nat_to_string n \<and>
        (\<forall>k \<ge> 2. k < n \<longrightarrow> tg_contains g (i @ ''::gate'' @ nat_to_string k)))))"
proof -
  have "\<exists>n \<ge> s. gate_id_from g base s = base @ nat_to_string n \<and> \<not> tg_contains g (base @ nat_to_string n) \<and>
      (\<forall>k \<ge> s. k < n \<longrightarrow> tg_contains g (base @ nat_to_string k))" for base s
  proof (induction g base s rule: gate_id_from.induct)
    case (1 g base s)
    show ?case
    proof (cases "tg_contains g (base @ nat_to_string s)")
      case True
      then obtain n where n: "n \<ge> s + 1" "gate_id_from g base (s + 1) = base @ nat_to_string n"
        "\<not> tg_contains g (base @ nat_to_string n)"
        "\<forall>k \<ge> s + 1. k < n \<longrightarrow> tg_contains g (base @ nat_to_string k)"
        using 1 [OF refl] by auto
      have "tg_contains g (base @ nat_to_string k)" if "k \<ge> s" "k < n" for k
        using n(4) True that by (cases "k = s") auto
      then show ?thesis using n True by (intro exI [of _ n]) (simp add: gate_id_from.simps [of g base s] Let_def)
    next
      case False
      then show ?thesis by (intro exI [of _ s]) (simp add: gate_id_from.simps [of g base s] Let_def)
    qed
  qed
  from this [of 2 "i @ ''::gate''"] show ?thesis by (auto simp: unique_gate_id_def Let_def)
qed

theorem unique_gate_id_spec_witness:
  "let g = \<lparr>tg_mode = Light, tg_nodes = [demo_node ''a::gate'' 0 NodeDone []]\<rparr> in
     \<not> tg_contains g (unique_gate_id g ''a'') \<and> unique_gate_id g ''a'' = ''a::gate2''"
proof -
  let ?g = "\<lparr>tg_mode = Light, tg_nodes = [demo_node ''a::gate'' 0 NodeDone []]\<rparr>"
  have "unique_gate_id ?g ''a'' = ''a::gate2''" by code_simp
  then show ?thesis using unique_gate_id_spec [of ?g "''a''"] by (simp add: Let_def)
qed

end
