(* ===== verification/Dag_Properties.thy ===== *)
theory Dag_Properties
  imports Dag_Replay Dag_Mentions
begin

text \<open>
  The properties of the task graph engine, stated over the operations of \<open>ops.rs\<close>, with one concrete
  deep run (seed, decompose, complete with low confidence, audit, synthesize, final audit) as the
  witness of the reachability hypotheses.
\<close>

section \<open>A concrete deep run\<close>

definition ok_graph :: "DagError + TaskGraph \<Rightarrow> TaskGraph" where
  "ok_graph r = (case r of Inr g \<Rightarrow> g | Inl _ \<Rightarrow> task_graph_new Light)"

lemma ok_graph_Inr: "\<not> isl r \<Longrightarrow> r = Inr (ok_graph r)"
  by (cases r) (simp_all add: ok_graph_def)

definition demo_artifact :: "string \<Rightarrow> string \<Rightarrow> HandoffArtifact" where
  "demo_artifact findings conf = artifact_default\<lparr>ha_findings := findings, ha_confidence := Some conf,
     ha_what_i_did_not_check := [''nothing'']\<rparr>"

definition demo_specs :: "NodeSpec list" where
  "demo_specs = [node_spec_new ''a'' ''probe'' Explore]"

definition demo1 :: TaskGraph where "demo1 = ok_graph (seed (task_graph_new Deep) demo_specs)"
definition demo2 :: TaskGraph where "demo2 = snd (dispatch demo1 ''a'' ''w'')"
definition demo3 :: TaskGraph where
  "demo3 = ok_graph (map_sum id fst (expand_node demo2 ''a'' ''w'' [node_spec_new ''b'' ''part'' Explore]))"
definition demo4 :: TaskGraph where "demo4 = snd (dispatch demo3 ''b'' ''v'')"
definition demo5 :: TaskGraph where
  "demo5 = ok_graph (complete_node demo4 ''b'' ''v'' (demo_artifact ''half'' ''low''))"
definition demo6 :: TaskGraph where "demo6 = snd (dispatch demo5 ''a::gate'' ''u'')"
definition demo7 :: TaskGraph where
  "demo7 = ok_graph (complete_node demo6 ''a::gate'' ''u'' (brief ''read b''))"
definition demo8 :: TaskGraph where "demo8 = snd (dispatch demo7 ''a'' ''w'')"
definition demo9 :: TaskGraph where
  "demo9 = ok_graph (complete_node demo8 ''a'' ''w'' (demo_artifact ''sum'' ''high''))"
definition demo10 :: TaskGraph where "demo10 = snd (dispatch demo9 ''plan::gate'' ''u'')"
definition demo11 :: TaskGraph where
  "demo11 = ok_graph (complete_node demo10 ''plan::gate'' ''u'' (brief ''read a''))"

lemma demo_step1: "seed (task_graph_new Deep) demo_specs = Inr demo1"
  unfolding demo1_def by (rule ok_graph_Inr) code_simp

lemma demo_step2: "dispatch demo1 ''a'' ''w'' = (True, demo2)"
  unfolding demo2_def by (rule prod_eqI, simp_all) code_simp

lemma expand_step:
  "\<not> isl (expand_node g i w cs) \<Longrightarrow> dag_step g (ok_graph (map_sum id fst (expand_node g i w cs)))"
  by (cases "expand_node g i w cs") (auto simp: ok_graph_def intro: dag_step.intros)

lemma complete_step:
  "\<not> isl (complete_node g i w a) \<Longrightarrow> dag_step g (ok_graph (complete_node g i w a))"
  by (cases "complete_node g i w a") (auto simp: ok_graph_def intro: dag_step.intros)

lemma dispatch_step: "fst (dispatch g i w) \<Longrightarrow> dag_step g (snd (dispatch g i w))"
  by (cases "dispatch g i w") (auto intro: dag_step.intros)

lemma demo_steps:
  "dag_step demo2 demo3" "dag_step demo3 demo4" "dag_step demo4 demo5" "dag_step demo5 demo6"
  "dag_step demo6 demo7" "dag_step demo7 demo8" "dag_step demo8 demo9" "dag_step demo9 demo10"
  "dag_step demo10 demo11"
proof -
  show "dag_step demo2 demo3" unfolding demo3_def by (rule expand_step) code_simp
  show "dag_step demo3 demo4" unfolding demo4_def by (rule dispatch_step) code_simp
  show "dag_step demo4 demo5" unfolding demo5_def by (rule complete_step) code_simp
  show "dag_step demo5 demo6" unfolding demo6_def by (rule dispatch_step) code_simp
  show "dag_step demo6 demo7" unfolding demo7_def by (rule complete_step) code_simp
  show "dag_step demo7 demo8" unfolding demo8_def by (rule dispatch_step) code_simp
  show "dag_step demo8 demo9" unfolding demo9_def by (rule complete_step) code_simp
  show "dag_step demo9 demo10" unfolding demo10_def by (rule dispatch_step) code_simp
  show "dag_step demo10 demo11" unfolding demo11_def by (rule complete_step) code_simp
qed

lemma demo_run: "dag_step\<^sup>*\<^sup>* demo1 demo11"
  using demo_step2 demo_steps by (meson rtranclp.intros step_dispatch)

lemma demo_reachable: "reachable Deep demo11"
  unfolding reachable_def using demo_step1 demo_run by (meson converse_rtranclp_into_rtranclp step_seed)

lemma reachableD:
  assumes "reachable m g"
  shows "dag_wf g" "tg_mode g = m"
proof -
  show "dag_wf g" by (rule reachable_wf [OF assms])
  have "tg_mode g = m \<and> dag_wf g"
    using assms unfolding reachable_def
  proof (induction rule: rtranclp_induct)
    case base
    show ?case by (simp add: task_graph_new_def dag_wf_new [unfolded task_graph_new_def])
  next
    case (step g g')
    then show ?case using dag_step_grows [of g g'] dag_run.step_inv by (auto simp: grows_def)
  qed
  then show "tg_mode g = m" ..
qed

lemma demo_facts:
  "tg_get demo11 ''a'' \<noteq> None \<and> (case tg_get demo11 ''a'' of Some n \<Rightarrow> is_done n \<and> tn_expanded n | None \<Rightarrow> False)"
  "case tg_get demo11 ''plan::gate'' of Some n \<Rightarrow> is_done n \<and> tn_is_gate n \<and> tn_parent n = None | None \<Rightarrow> False"
  by code_simp+

section \<open>Properties\<close>

text \<open>C3 In every graph the engine can reach, ids are distinct, every dependency is a node, the cycle
  check finds nothing, and a node with a parent is waited for by that parent, which is expanded and
  no gate.\<close>

theorem reachable_graph_ok:
  assumes "reachable m g"
  shows "distinct (dag_ids g) \<and> cycle_nodes g = [] \<and>
    (\<forall>n \<in> set (tg_nodes g). \<forall>d \<in> set (tn_depends_on n). tg_contains g d) \<and>
    (\<forall>n \<in> set (tg_nodes g). \<forall>p. tn_parent n = Some p \<longrightarrow>
       (\<exists>q. tg_get g p = Some q \<and> tn_expanded q \<and> \<not> tn_is_gate q \<and> tn_id n \<in> set (tn_depends_on q)))"
proof (intro conjI ballI allI impI)
  note wf = reachableD(1) [OF assms]
  show "distinct (dag_ids g)" by (rule dag_wfD(1) [OF wf])
  show "cycle_nodes g = []" using dag_check.detect_Nil_iff dag_wfD(2) [OF wf] by blast
  fix n assume n: "n \<in> set (tg_nodes g)"
  show "tg_contains g d" if "d \<in> set (tn_depends_on n)" for d
    using struct_dep [OF dag_wfD(3) [OF wf] n that] by (auto simp: tg_contains_iff)
  show "\<exists>q. tg_get g p = Some q \<and> tn_expanded q \<and> \<not> tn_is_gate q \<and> tn_id n \<in> set (tn_depends_on q)"
    if "tn_parent n = Some p" for p
    using struct_joined [OF dag_wfD(3) [OF wf] n that] by (auto simp: joined_def tg_get_iff [OF dag_wfD(1) [OF wf]])
qed

theorem reachable_graph_ok_witness: "cycle_nodes demo11 = [] \<and> distinct (dag_ids demo11)"
  using reachable_graph_ok [OF demo_reachable] by simp

text \<open>C1 A composite is never running or done before all of its children are done, and in deep mode
  before its gate is done: the gate exists, and its artifact addresses every child that must be
  addressed, in particular every child that reported low confidence.\<close>

theorem composite_waits:
  assumes "reachable m g" and "n \<in> set (tg_nodes g)" and "tn_expanded n"
    and "tn_status n = NodeRunning \<or> tn_status n = NodeDone"
  shows "(\<forall>c \<in> set (tg_nodes g). tn_parent c = Some (tn_id n) \<longrightarrow> tn_status c = NodeDone) \<and>
    (m = Deep \<longrightarrow> (\<exists>x a. gate_of g (tn_id n) = Some x \<and> tn_status x = NodeDone \<and> tn_output x = Some a \<and>
       (\<forall>c \<in> set (children_of g (tn_id n)). output_level c = Some ConfLow \<longrightarrow> addressed_by a (tn_id c))))"
proof -
  note wf = reachableD(1) [OF assms(1)]
  note ok = dag_wfD(3) [OF wf]
  have work: "\<not> tn_is_gate n" using struct_gate_plain [OF ok assms(2)] assms(3) by blast
  then have rely: "relies_on_deps n" using assms(4) by (auto simp: relies_on_deps_def is_done_def)
  have deps: "is_done c" if c: "c \<in> nodes_of g" "tn_parent c = Some (tn_id n)" for c
  proof -
    have "joined (nodes_of g) c (tn_id n)" by (rule struct_joined [OF ok c])
    then have "tn_id c \<in> set (tn_depends_on n)"
      using struct_same_id [OF ok _ assms(2)] by (auto simp: joined_def)
    then show ?thesis by (rule status_deps [OF dag_wfD(4) [OF wf] assms(2) rely c(1)])
  qed
  have gate: "\<exists>x a. gate_of g (tn_id n) = Some x \<and> tn_status x = NodeDone \<and> tn_output x = Some a \<and>
      (\<forall>c \<in> set (children_of g (tn_id n)). output_level c = Some ConfLow \<longrightarrow> addressed_by a (tn_id c))"
    if "m = Deep"
  proof -
    have "gated (nodes_of g) (Some (tn_id n))"
      using struct_gated [OF _ assms(2,3)] ok reachableD(2) [OF assms(1)] that by simp
    then obtain x where x: "gate_of g (tn_id n) = Some x"
      unfolding gated_def gate_of_def by (metis (mono_tags, lifting) find_None_iff not_None_eq)
    then have xn: "x \<in> nodes_of g" "tn_is_gate x" "tn_parent x = Some (tn_id n)"
      using find_SomeD unfolding gate_of_def by fastforce+
    have xd: "is_done x" using deps xn by blast
    obtain a where a: "tn_output x = Some a" "\<And>c. c \<in> siblings (nodes_of g) x \<Longrightarrow> is_done c \<and>
        (must_address x c \<longrightarrow> addressed_by a (tn_id c))"
      by (rule gate_done_scope [OF wf xn(1,2) xd]) blast
    have "addressed_by a (tn_id c)" if "c \<in> set (children_of g (tn_id n))" "output_level c = Some ConfLow" for c
      using a(2) [of c] that xn by (auto simp: children_of_def siblings_def must_address_def)
    then show ?thesis using x xd a(1) by (auto simp: is_done_def)
  qed
  show ?thesis using deps gate by (auto simp: is_done_def)
qed

theorem composite_waits_witness:
  "\<exists>x. gate_of demo11 ''a'' = Some x \<and> tn_status x = NodeDone"
proof -
  obtain n where n: "tg_get demo11 ''a'' = Some n" "is_done n" "tn_expanded n"
    using demo_facts(1) by (auto split: option.splits)
  note node = get_node [OF reachable_wf [OF demo_reachable] n(1)]
  have st: "tn_status n = NodeRunning \<or> tn_status n = NodeDone" using n(2) by (simp add: is_done_def)
  from composite_waits [OF demo_reachable node(1) n(3) st] show ?thesis unfolding node(2) by blast
qed

text \<open>C2 A deep plan whose root gate is done is finished: every node of the plan is done, and the
  root gate's artifact addresses every root-level node that must be addressed.\<close>

theorem plan_done_audited:
  assumes "reachable Deep g" and "x \<in> set (tg_nodes g)" and "tn_is_gate x" and "tn_parent x = None"
    and "tn_status x = NodeDone"
  shows "all_terminal g \<and> (\<forall>n \<in> set (tg_nodes g). tn_status n = NodeDone) \<and>
    (\<exists>a. tn_output x = Some a \<and> (\<forall>c \<in> set (root_work g).
       length (tn_depends_on x) \<le> GATE_COVERAGE_ENUMERATION_CAP \<or> output_level c \<noteq> Some ConfHigh \<longrightarrow>
       addressed_by a (tn_id c)))"
proof -
  note wf = reachableD(1) [OF assms(1)]
  have xd: "is_done x" using assms(5) by (simp add: is_done_def)
  have all: "is_done n" if n: "n \<in> nodes_of g" for n
  proof (cases "tn_id n = tn_id x")
    case True
    then have "n = x" by (rule struct_same_id [OF dag_wfD(3) [OF wf] n assms(2)])
    then show ?thesis using xd by simp
  next
    case False
    then have "(tn_id n, tn_id x) \<in> (dep_rel g)\<^sup>+"
      using below_root_gate [OF dag_wfD(3,2) [OF wf] assms(2-4) n] by simp
    then show ?thesis by (rule done_below [OF wf assms(2) xd n])
  qed
  obtain a where a: "tn_output x = Some a" "\<And>c. c \<in> siblings (nodes_of g) x \<Longrightarrow> is_done c \<and>
      (must_address x c \<longrightarrow> addressed_by a (tn_id c))"
    by (rule gate_done_scope [OF wf assms(2,3) xd]) blast
  have "addressed_by a (tn_id c)" if "c \<in> set (root_work g)"
    "length (tn_depends_on x) \<le> GATE_COVERAGE_ENUMERATION_CAP \<or> output_level c \<noteq> Some ConfHigh" for c
    using a(2) [of c] that assms(4) by (auto simp: root_work_def siblings_def must_address_def)
  then show ?thesis
    using all a(1) by (auto simp: all_terminal_def list_all_iff is_terminal_def is_done_def)
qed

theorem plan_done_audited_witness: "all_terminal demo11 \<and> tg_nodes demo11 \<noteq> []"
proof -
  obtain x where x: "tg_get demo11 ''plan::gate'' = Some x" "is_done x" "tn_is_gate x" "tn_parent x = None"
    using demo_facts(2) by (auto split: option.splits)
  note node = get_node [OF reachable_wf [OF demo_reachable] x(1)]
  show ?thesis
    using plan_done_audited [OF demo_reachable node(1) x(3,4)] x(2) node(1) by (auto simp: is_done_def)
qed

text \<open>C5 The scheduler never deadlocks: in a reachable graph that is not finished, some node is
  running, some node has failed and can be re-queued, or the ready list is not empty.\<close>

theorem scheduler_progress:
  assumes "reachable m g" and "\<exists>n \<in> set (tg_nodes g). tn_status n \<noteq> NodeDone"
  shows "(\<exists>n \<in> set (tg_nodes g). tn_status n = NodeRunning) \<or>
    (\<exists>n \<in> set (tg_nodes g). tn_status n = NodeFailed \<and> (\<exists>g'. requeue_failed g (tn_id n) = Inr g')) \<or>
    (\<exists>n \<in> set (ready_nodes g). \<forall>w. fst (dispatch g (tn_id n) w))"
proof -
  note wf = reachableD(1) [OF assms(1)]
  obtain n where "n \<in> nodes_of g" "\<not> is_done n" using assms(2) by (auto simp: is_done_def)
  then obtain k where k: "k \<in> nodes_of g" "\<not> is_done k" "deps_satisfied g k" by (rule minimal_undone [OF wf])
  have get: "tg_get g (tn_id k) = Some k" using k(1) by (simp add: tg_get_iff [OF dag_wfD(1) [OF wf]])
  show ?thesis
  proof (cases "tn_status k")
    case NodeQueued
    then have ready: "k \<in> set (ready_nodes g)" using k by (simp add: set_ready_nodes)
    have "fst (dispatch g (tn_id k) w)" for w
      using ready dispatch_iff [OF dag_wfD(1) [OF wf]] by blast
    then show ?thesis using ready by blast
  next
    case NodeFailed
    then have "\<exists>g'. requeue_failed g (tn_id k) = Inr g'" by (simp add: requeue_failed_def get)
    then show ?thesis using NodeFailed k(1) by blast
  qed (use k in \<open>auto simp: is_done_def\<close>)
qed

theorem scheduler_progress_witness:
  "\<exists>n \<in> set (ready_nodes demo1). \<forall>w. fst (dispatch demo1 (tn_id n) w)"
proof -
  have r: "reachable Deep demo1"
    unfolding reachable_def using demo_step1 by (meson r_into_rtranclp step_seed)
  have "list_ex (\<lambda>n. tn_status n \<noteq> NodeDone) (tg_nodes demo1)"
    "list_all (\<lambda>n. tn_status n = NodeQueued) (tg_nodes demo1)" by code_simp+
  then show ?thesis using scheduler_progress [OF r] by (fastforce simp: list_ex_iff list_all_iff)
qed

text \<open>Replaying an accepted seed request is a no-op, right away and after any further operations
  of the engine on the graph.\<close>

theorem seed_replay:
  assumes "dag_wf g" and "seed g specs = Inr g1" and "dag_step\<^sup>*\<^sup>* g1 g2"
  shows "seed g2 specs = Inr g2"
proof -
  obtain u where u: "seed_collect specs [] = Inr u" "check_dependencies g u = Inr ()"
    using assms(2) by (auto simp: seed_def and_then_Inr)
  have wf1: "dag_wf g1" by (rule seed_wf [OF assms(1,2)])
  have after: "dag_wf g2 \<and> (\<forall>s \<in> set specs. declared g2 s) \<and> (\<forall>i. tg_contains g1 i \<longrightarrow> tg_contains g2 i)"
    by (rule replay_after_steps [OF assms(3) wf1]) (rule seed_declares [OF assms(1,2)])
  have "tg_contains g1 i" if "tg_contains g i" for i
    using seed_grows [OF assms(1,2)] that by (fastforce simp: grows_def tg_contains_get)
  then have "check_dependencies g2 u = Inr ()"
    using after by (intro check_dependencies_mono [OF u(2)]) blast
  then show ?thesis using after u(1) by (intro seed_declared_noop) blast+
qed

theorem seed_replay_witness: "seed demo11 demo_specs = Inr demo11"
  by (rule seed_replay [OF dag_wf_new demo_step1 demo_run])

text \<open>C4 Completing a node succeeds exactly when the node exists, the actor owns it, it runs, and in
  deep mode a work node's artifact is substantive (findings, an unchecked list, a confidence), while
  a gate's audit scope, its work siblings, is done and addressed: every node of a scope of at most 20,
  every node short of high confidence in a wider one.\<close>

theorem complete_node_iff:
  assumes "dag_wf g"
  shows "(\<exists>g'. complete_node g i actor a = Inr g') \<longleftrightarrow>
    (\<exists>n. tg_get g i = Some n \<and> tn_owner n = Some actor \<and> tn_status n = NodeRunning \<and>
       (tg_mode g = Deep \<and> \<not> tn_is_gate n \<longrightarrow> trim (ha_findings a) \<noteq> [] \<and>
          ha_what_i_did_not_check a \<noteq> [] \<and> confidence_level a \<noteq> None) \<and>
       (tn_is_gate n \<longrightarrow> (\<forall>c \<in> set (tg_nodes g). \<not> tn_is_gate c \<and> tn_parent c = tn_parent n \<longrightarrow>
          tn_status c = NodeDone \<and>
          (length (tn_depends_on n) \<le> 20 \<or> output_level c \<noteq> Some ConfHigh \<longrightarrow> addressed_by a (tn_id c)))))"
proof -
  have gate: "validate_gate_pass g i a = Inr () \<longleftrightarrow>
      (\<forall>c \<in> set (tg_nodes g). \<not> tn_is_gate c \<and> tn_parent c = tn_parent n \<longrightarrow>
          tn_status c = NodeDone \<and>
          (length (tn_depends_on n) \<le> 20 \<or> output_level c \<noteq> Some ConfHigh \<longrightarrow> addressed_by a (tn_id c)))"
    if n: "tg_get g i = Some n" "tn_is_gate n" for n
  proof -
    note node = get_node [OF assms n(1)]
    have scope: "c \<in> nodes_of g \<and> tn_id c \<in> set (tn_depends_on n) \<longleftrightarrow>
        c \<in> nodes_of g \<and> \<not> tn_is_gate c \<and> tn_parent c = tn_parent n" for c
      using struct_gate_scope [OF dag_wfD(3) [OF assms] node(1) n(2)]
        struct_same_id [OF dag_wfD(3) [OF assms], of c] by (auto simp: siblings_def)
    show ?thesis
      using validate_gate_pass_iff [OF assms node(1) n(2), of a] scope node(2)
      unfolding audited_def must_address_def is_done_def GATE_COVERAGE_ENUMERATION_CAP_def by blast
  qed
  have deep: "tg_mode g = Deep" if "tg_get g i = Some n" "tn_is_gate n" for n
    using struct_gate_plain [OF dag_wfD(3) [OF assms] get_node(1) [OF assms that(1)] that(2)] by blast
  show ?thesis
    using gate deep
    by (cases "tg_get g i")
      (auto simp: complete_node_def and_then_Inr owned_node_Inr validate_artifact_def requires_gates_def
        split: if_splits)
qed

theorem complete_node_iff_witness:
  "(\<exists>g'. complete_node demo6 ''a::gate'' ''u'' (brief ''read b'') = Inr g') \<and>
   \<not> (\<exists>g'. complete_node demo6 ''a::gate'' ''u'' (brief ''all good'') = Inr g') \<and> dag_wf demo6 \<and>
   (\<exists>n. tg_get demo6 ''a::gate'' = Some n \<and> tn_owner n = Some ''u'')"
proof -
  have wf: "dag_wf demo6"
  proof (rule dag_run.steps_inv)
    show "dag_step\<^sup>*\<^sup>* demo1 demo6" using demo_step2 demo_steps by (meson rtranclp.intros step_dispatch)
    show "dag_wf demo1" using demo_step1 dag_wf_new by (rule seed_wf [rotated])
  qed
  have "\<not> isl (complete_node demo6 ''a::gate'' ''u'' (brief ''read b''))" by code_simp
  from ok_graph_Inr [OF this]
  have pass: "\<exists>g'. complete_node demo6 ''a::gate'' ''u'' (brief ''read b'') = Inr g'" by blast
  have "isl (complete_node demo6 ''a::gate'' ''u'' (brief ''all good''))" by code_simp
  then have refused: "\<not> (\<exists>g'. complete_node demo6 ''a::gate'' ''u'' (brief ''all good'') = Inr g')"
    by (auto simp: isl_def)
  have "\<exists>n. tg_get demo6 ''a::gate'' = Some n \<and> tn_owner n = Some ''u''"
    using iffD1 [OF complete_node_iff [OF wf] pass] by blast
  then show ?thesis using pass refused wf by blast
qed

text \<open>C6 The engine only adds: a step keeps every node with its id, content, kind, parent, gate flag and
  origin, drops no dependency, gives a work node only dependencies on nodes newly created under it,
  and leaves a finished work node, its artifact included, exactly as it is.\<close>

theorem append_only:
  assumes "dag_wf g" and "dag_step g g'" and "tg_get g i = Some n"
  shows "\<exists>n'. tg_get g' i = Some n' \<and> tn_content n' = tn_content n \<and> tn_kind n' = tn_kind n \<and>
    tn_parent n' = tn_parent n \<and> tn_is_gate n' = tn_is_gate n \<and> tn_origin n' = tn_origin n \<and>
    set (tn_depends_on n) \<subseteq> set (tn_depends_on n') \<and>
    (\<not> tn_is_gate n \<longrightarrow> (\<forall>d \<in> set (tn_depends_on n') - set (tn_depends_on n).
       \<not> tg_contains g d \<and> (\<exists>c. tg_get g' d = Some c \<and> tn_parent c = Some i))) \<and>
    (tn_status n = NodeDone \<and> \<not> tn_is_gate n \<longrightarrow> n' = n)"
proof -
  have id: "tn_id n = i" by (rule get_node(2) [OF assms(1,3)])
  obtain n' where "tg_get g' i = Some n'" "evolves g g' n n'"
    using dag_step_grows [OF assms(1,2)] assms(3) by (auto simp: grows_def)
  then show ?thesis by (auto simp: evolves_def id dag_ids_iff is_done_def intro!: exI [of _ n'])
qed

theorem append_only_witness: "\<exists>n'. tg_get demo2 ''a'' = Some n' \<and> tn_content n' = ''probe''"
proof -
  have wf: "dag_wf demo1" using demo_step1 dag_wf_new by (rule seed_wf [rotated])
  have s: "dag_step demo1 demo2" using demo_step2 by (rule step_dispatch)
  have "case tg_get demo1 ''a'' of Some n \<Rightarrow> tn_content n = ''probe'' | None \<Rightarrow> False" by code_simp
  then obtain n where n: "tg_get demo1 ''a'' = Some n" "tn_content n = ''probe''" by (auto split: option.splits)
  show ?thesis using append_only [OF wf s n(1)] n(2) by auto
qed

text \<open>C7 The cycle check reports exactly the nodes that lie on a dependency cycle or wait, directly or
  through others, for one that does.\<close>

theorem cycle_nodes_spec:
  "i \<in> set (cycle_nodes g) \<longleftrightarrow> i \<in> set (dag_ids g) \<and>
     (\<exists>j. (j, i) \<in> (dep_rel g)\<^sup>* \<and> (j, j) \<in> (dep_rel g)\<^sup>+)"
  by (rule dag_check.detect_iff)

end
