(* ===== verification/Plan_Store.thy ===== *)
theory Plan_Store
  imports Prelude
begin

text \<open>
  The swarm plan of \<open>crates/jcode-plan/src/lib.rs\<close>: the plan items and the side maps of
  \<open>VersionedPlan\<close> with the operations that edit them, the status predicates over the status
  strings, and the task-control actions. A \<open>HashMap\<close> is a map, a \<open>HashSet\<close> a set.
\<close>

section \<open>Items, progress, metadata\<close>

definition MAX_PLAN_ITEMS :: nat where
  "MAX_PLAN_ITEMS = 1024"

record PlanItem =
  pi_content :: string
  pi_status :: string
  pi_priority :: string
  pi_id :: string
  pi_subsystem :: "string option"
  pi_file_scope :: "string list"
  pi_blocked_by :: "string list"
  pi_assigned_to :: "string option"

record SwarmTaskProgress =
  tp_assigned_session_id :: "string option"
  tp_assignment_summary :: "string option"
  tp_assigned_at_unix_ms :: "64 word option"
  tp_started_at_unix_ms :: "64 word option"
  tp_last_heartbeat_unix_ms :: "64 word option"
  tp_last_detail :: "string option"
  tp_last_checkpoint_unix_ms :: "64 word option"
  tp_checkpoint_summary :: "string option"
  tp_completed_at_unix_ms :: "64 word option"
  tp_stale_since_unix_ms :: "64 word option"
  tp_heartbeat_count :: "64 word option"
  tp_checkpoint_count :: "64 word option"
  tp_no_artifact_requeues :: "32 word option"
  tp_dead_assignee_reclaims :: "32 word option"

definition progress_default :: SwarmTaskProgress where
  "progress_default = \<lparr>tp_assigned_session_id = None, tp_assignment_summary = None,
     tp_assigned_at_unix_ms = None, tp_started_at_unix_ms = None, tp_last_heartbeat_unix_ms = None,
     tp_last_detail = None, tp_last_checkpoint_unix_ms = None, tp_checkpoint_summary = None,
     tp_completed_at_unix_ms = None, tp_stale_since_unix_ms = None, tp_heartbeat_count = None,
     tp_checkpoint_count = None, tp_no_artifact_requeues = None, tp_dead_assignee_reclaims = None\<rparr>"

record NodeMeta =
  nm_kind :: "string option"
  nm_parent :: "string option"
  nm_expanded :: bool
  nm_is_gate :: bool
  nm_planner :: "string option"
  nm_artifact_json :: "string option"
  nm_origin :: "string option"

definition node_meta_default :: NodeMeta where
  "node_meta_default = \<lparr>nm_kind = None, nm_parent = None, nm_expanded = False, nm_is_gate = False,
     nm_planner = None, nm_artifact_json = None, nm_origin = None\<rparr>"

record SwarmPlanItemSpec =
  sis_id :: string
  sis_content :: string
  sis_priority :: string
  sis_subsystem :: "string option"
  sis_file_scope :: "string list"
  sis_blocked_by :: "string list"

record SwarmPlanDefinition =
  spd_version :: "64 word"
  spd_participants :: "string list"
  spd_items :: "SwarmPlanItemSpec list"

record SwarmExecutionItemState =
  sei_task_id :: string
  sei_status :: string
  sei_assigned_to :: "string option"
  sei_progress :: "SwarmTaskProgress option"

record VersionedPlan =
  vp_items :: "PlanItem list"
  vp_version :: "64 word"
  vp_participants :: "string set"
  vp_task_progress :: "string \<rightharpoonup> SwarmTaskProgress"
  vp_mode :: string
  vp_node_meta :: "string \<rightharpoonup> NodeMeta"

definition plan_new :: VersionedPlan where
  "plan_new = \<lparr>vp_items = [], vp_version = 0, vp_participants = {}, vp_task_progress = (\<lambda>_. None),
     vp_mode = ''light'', vp_node_meta = (\<lambda>_. None)\<rparr>"

section \<open>Editing the plan\<close>

definition retain_keys :: "string set \<Rightarrow> (string \<rightharpoonup> 'v) \<Rightarrow> (string \<rightharpoonup> 'v)" where
  "retain_keys K m = (\<lambda>k. if k \<in> K then m k else None)"

definition item_ids :: "PlanItem list \<Rightarrow> string set" where
  "item_ids items = pi_id ` set items"

definition prune_side_maps :: "VersionedPlan \<Rightarrow> VersionedPlan" where
  "prune_side_maps p = p\<lparr>
     vp_task_progress := retain_keys (item_ids (vp_items p)) (vp_task_progress p),
     vp_node_meta := retain_keys (item_ids (vp_items p)) (vp_node_meta p)\<rparr>"

definition replace_items :: "VersionedPlan \<Rightarrow> PlanItem list \<Rightarrow> VersionedPlan" where
  "replace_items p items = prune_side_maps (p\<lparr>vp_items := items\<rparr>)"

definition renamed :: "string \<Rightarrow> string \<Rightarrow> string option \<Rightarrow> string option" where
  "renamed old new s = (if s = Some old then Some new else s)"

definition map_values :: "('v \<Rightarrow> 'v) \<Rightarrow> (string \<rightharpoonup> 'v) \<Rightarrow> (string \<rightharpoonup> 'v)" where
  "map_values f m = (\<lambda>k. map_option f (m k))"

definition rename_session :: "VersionedPlan \<Rightarrow> string \<Rightarrow> string \<Rightarrow> VersionedPlan" where
  "rename_session p old new = p\<lparr>
     vp_participants := (if old \<in> vp_participants p
       then insert new (vp_participants p - {old}) else vp_participants p),
     vp_items := map (\<lambda>i. i\<lparr>pi_assigned_to := renamed old new (pi_assigned_to i)\<rparr>) (vp_items p),
     vp_task_progress := map_values
       (\<lambda>t. t\<lparr>tp_assigned_session_id := renamed old new (tp_assigned_session_id t)\<rparr>) (vp_task_progress p),
     vp_node_meta := map_values
       (\<lambda>n. n\<lparr>nm_planner := renamed old new (nm_planner n)\<rparr>) (vp_node_meta p)\<rparr>"

definition plan_definition :: "VersionedPlan \<Rightarrow> SwarmPlanDefinition" where
  "plan_definition p = \<lparr>spd_version = vp_version p,
     spd_participants = sorted_list_of_set (vp_participants p),
     spd_items = map (\<lambda>i. \<lparr>sis_id = pi_id i, sis_content = pi_content i, sis_priority = pi_priority i,
       sis_subsystem = pi_subsystem i, sis_file_scope = pi_file_scope i,
       sis_blocked_by = pi_blocked_by i\<rparr>) (vp_items p)\<rparr>"

definition execution_state :: "VersionedPlan \<Rightarrow> SwarmExecutionItemState list" where
  "execution_state p = map (\<lambda>i. \<lparr>sei_task_id = pi_id i, sei_status = pi_status i,
     sei_assigned_to = pi_assigned_to i, sei_progress = vp_task_progress p (pi_id i)\<rparr>) (vp_items p)"

section \<open>Statuses\<close>

definition is_completed_status :: "string \<Rightarrow> bool" where
  "is_completed_status s \<longleftrightarrow> s = ''completed'' \<or> s = ''done''"

definition is_terminal_status :: "string \<Rightarrow> bool" where
  "is_terminal_status s \<longleftrightarrow> s = ''completed'' \<or> s = ''done'' \<or> s = ''failed'' \<or> s = ''stopped'' \<or> s = ''crashed''"

definition is_active_status :: "string \<Rightarrow> bool" where
  "is_active_status s \<longleftrightarrow> s = ''running'' \<or> s = ''running_stale''"

definition is_failed_status :: "string \<Rightarrow> bool" where
  "is_failed_status s \<longleftrightarrow> is_terminal_status s \<and> \<not> is_completed_status s"

definition is_runnable_status :: "string \<Rightarrow> bool" where
  "is_runnable_status s \<longleftrightarrow> s = ''queued'' \<or> s = ''ready'' \<or> s = ''pending'' \<or> s = ''todo''"

definition priority_rank :: "string \<Rightarrow> 8 word" where
  "priority_rank p =
     (if p = ''high'' \<or> p = ''urgent'' \<or> p = ''p0'' then 0
      else if p = ''medium'' \<or> p = ''normal'' \<or> p = ''p1'' then 1
      else if p = ''low'' \<or> p = ''p2'' then 2
      else 1)"

section \<open>Task control\<close>

datatype TaskControlAction = CtlStart | CtlWake | CtlResume | CtlRetry | CtlReassign | CtlReplace | CtlSalvage

fun action_as_str :: "TaskControlAction \<Rightarrow> string" where
  "action_as_str CtlStart = ''start''"
| "action_as_str CtlWake = ''wake''"
| "action_as_str CtlResume = ''resume''"
| "action_as_str CtlRetry = ''retry''"
| "action_as_str CtlReassign = ''reassign''"
| "action_as_str CtlReplace = ''replace''"
| "action_as_str CtlSalvage = ''salvage''"

definition action_parse :: "string \<Rightarrow> TaskControlAction option" where
  "action_parse s =
     (if s = ''start'' then Some CtlStart else if s = ''wake'' then Some CtlWake
      else if s = ''resume'' then Some CtlResume else if s = ''retry'' then Some CtlRetry
      else if s = ''reassign'' then Some CtlReassign else if s = ''replace'' then Some CtlReplace
      else if s = ''salvage'' then Some CtlSalvage else None)"

definition combine_assignment_text :: "string \<Rightarrow> string option \<Rightarrow> string" where
  "combine_assignment_text content message = (case message of
     Some extra \<Rightarrow> content @ [nl, nl] @ ''Additional coordinator instructions:'' @ [nl] @ extra
   | None \<Rightarrow> content)"

definition restart_instruction_prefix :: "TaskControlAction \<Rightarrow> string option" where
  "restart_instruction_prefix action = (case action of
     CtlResume \<Rightarrow> Some ''Resume your assigned task from the current session context and continue the work.''
   | CtlRetry \<Rightarrow> Some ''Retry your assigned task. Fix any earlier issues and continue toward completion.''
   | _ \<Rightarrow> None)"

definition build_control_assignment_text :: "TaskControlAction \<Rightarrow> string \<Rightarrow> string option \<Rightarrow> string" where
  "build_control_assignment_text action content message = join [nl, nl]
     ((case restart_instruction_prefix action of Some prefix \<Rightarrow> [prefix] | None \<Rightarrow> []) @ [content] @
      (case message of Some extra \<Rightarrow> [''Additional coordinator instructions:'' @ [nl] @ extra] | None \<Rightarrow> []))"

definition task_control_action_allows_status :: "TaskControlAction \<Rightarrow> string \<Rightarrow> bool" where
  "task_control_action_allows_status action status = (case action of
     CtlStart \<Rightarrow> status = ''queued''
   | CtlWake \<Rightarrow> status = ''queued''
   | CtlResume \<Rightarrow> status = ''queued'' \<or> status = ''running'' \<or> status = ''running_stale''
   | CtlRetry \<Rightarrow> status = ''failed'' \<or> status = ''running_stale''
   | CtlReassign \<Rightarrow> \<not> is_completed_status status
   | CtlReplace \<Rightarrow> \<not> is_completed_status status
   | CtlSalvage \<Rightarrow> \<not> is_completed_status status)"

definition task_control_status_error :: "TaskControlAction \<Rightarrow> string \<Rightarrow> string \<Rightarrow> string" where
  "task_control_status_error action status task_id =
     (let cannot = (\<lambda>what. ''Task '' @ quoted task_id @ '' is '' @ quoted status @ '' and cannot be '' @ what);
          complete = (\<lambda>what. ''Task '' @ quoted task_id @ '' is already complete. '' @ what)
      in case action of
        CtlStart \<Rightarrow> cannot ''started. Use start only for queued assignments.''
      | CtlWake \<Rightarrow> cannot ''woken. Use wake only for queued assignments.''
      | CtlResume \<Rightarrow> cannot ''resumed safely.''
      | CtlRetry \<Rightarrow> cannot ''retried. Retry is only for failed or stale work.''
      | CtlReassign \<Rightarrow> complete ''Reassign unfinished work instead.''
      | CtlReplace \<Rightarrow> complete ''Replace is only for unfinished work.''
      | CtlSalvage \<Rightarrow> complete ''Salvage is only for unfinished or failed work.'')"

section \<open>Lemmas\<close>

lemma action_parse_as_str: "action_parse (action_as_str a) = Some a"
  by (cases a) (simp_all add: action_parse_def)

text \<open>A status is in at most one of the classes the scheduler acts on.\<close>

lemma status_classes:
  "is_completed_status s \<Longrightarrow> is_terminal_status s"
  "is_active_status s \<Longrightarrow> \<not> is_terminal_status s"
  "is_runnable_status s \<Longrightarrow> \<not> is_terminal_status s \<and> \<not> is_active_status s"
  by (auto simp: is_completed_status_def is_terminal_status_def is_active_status_def is_runnable_status_def)

lemma retain_keys_dom: "dom (retain_keys K m) = dom m \<inter> K"
  by (auto simp: retain_keys_def split: if_splits)

text \<open>Side maps only speak of live items.\<close>

definition side_maps_live :: "VersionedPlan \<Rightarrow> bool" where
  "side_maps_live p \<longleftrightarrow> dom (vp_task_progress p) \<subseteq> item_ids (vp_items p) \<and>
     dom (vp_node_meta p) \<subseteq> item_ids (vp_items p)"

lemma replace_items_live: "side_maps_live (replace_items p items)"
  by (auto simp: side_maps_live_def replace_items_def prune_side_maps_def retain_keys_def split: if_splits)

lemma rename_session_live: "side_maps_live p \<Longrightarrow> side_maps_live (rename_session p old new)"
  by (auto simp: side_maps_live_def rename_session_def map_values_def item_ids_def image_image dom_def)

text \<open>Every place a session id is held in.\<close>

definition mentions_session :: "VersionedPlan \<Rightarrow> string \<Rightarrow> bool" where
  "mentions_session p s \<longleftrightarrow> s \<in> vp_participants p \<or>
     (\<exists>i \<in> set (vp_items p). pi_assigned_to i = Some s) \<or>
     (\<exists>k t. vp_task_progress p k = Some t \<and> tp_assigned_session_id t = Some s) \<or>
     (\<exists>k n. vp_node_meta p k = Some n \<and> nm_planner n = Some s)"

lemma rename_session_gone: "old \<noteq> new \<Longrightarrow> \<not> mentions_session (rename_session p old new) old"
  by (auto simp: mentions_session_def rename_session_def renamed_def map_values_def split: if_splits)

lemma rename_session_same: "rename_session p s s = p"
proof -
  have r: "renamed s s x = x" for x by (simp add: renamed_def)
  have i: "map (\<lambda>i. i\<lparr>pi_assigned_to := pi_assigned_to i\<rparr>) xs = xs" for xs :: "PlanItem list"
    by (rule map_idI) simp
  have m: "map_values (\<lambda>v. v) m = m" for m :: "string \<rightharpoonup> 'v" by (simp add: map_values_def option.map_ident)
  have "insert s (P - {s}) = P" if "s \<in> P" for P using that by blast
  then show ?thesis unfolding rename_session_def r i by (simp add: m)
qed

end
