(* ===== verification/Plan_Graph.thy ===== *)
theory Plan_Graph
  imports Plan_Store Kahn
begin

text \<open>
  The dependency graph over plan items (\<open>crates/jcode-plan/src/lib.rs\<close>): its cycle check, the status
  summary, the runnable order and the assignment queries. The cycle check starts from a \<open>HashMap\<close>
  iteration; \<open>h\<close> is that order, and the result turns out not to depend on it.
\<close>

section \<open>Dependencies\<close>

definition completed_item_ids :: "PlanItem list \<Rightarrow> string set" where
  "completed_item_ids items = pi_id ` set (filter (\<lambda>i. is_completed_status (pi_status i)) items)"

definition unresolved_dependencies :: "PlanItem \<Rightarrow> string set \<Rightarrow> string set \<Rightarrow> string list" where
  "unresolved_dependencies item known completed =
     filter (\<lambda>d. d \<in> known \<and> d \<notin> completed) (pi_blocked_by item)"

definition missing_dependencies :: "PlanItem \<Rightarrow> string set \<Rightarrow> string list" where
  "missing_dependencies item known = filter (\<lambda>d. d \<notin> known) (pi_blocked_by item)"

definition is_unblocked :: "PlanItem \<Rightarrow> string set \<Rightarrow> string set \<Rightarrow> bool" where
  "is_unblocked item known completed \<longleftrightarrow>
     missing_dependencies item known = [] \<and> unresolved_dependencies item known completed = []"

section \<open>The cycle check\<close>

definition plan_ids :: "PlanItem list \<Rightarrow> string list" where
  "plan_ids items = map pi_id items"

text \<open>The dependents of an id, one entry per occurrence in \<open>blocked_by\<close>.\<close>

definition plan_dependents :: "PlanItem list \<Rightarrow> string \<Rightarrow> string list" where
  "plan_dependents items d =
     concat (map (\<lambda>i. map (\<lambda>_. pi_id i) (filter (\<lambda>x. x = d) (pi_blocked_by i))) items)"

definition plan_indegree :: "PlanItem list \<Rightarrow> (string \<times> nat) list" where
  "plan_indegree items = foldl (\<lambda>m k. degree_entry m k 1)
     (foldl (\<lambda>m i. degree_entry m (pi_id i) 0) [] items)
     (concat (map (\<lambda>i. map (\<lambda>_. pi_id i) (filter (\<lambda>x. x \<in> item_ids items) (pi_blocked_by i))) items))"

definition cycle_item_ids_in :: "(string list \<Rightarrow> string list) \<Rightarrow> PlanItem list \<Rightarrow> string list" where
  "cycle_item_ids_in h items = (let deg = plan_indegree items;
     (visited, deg') = kahn_loop (plan_dependents items) (rev (h (zero_degree deg))) [] deg
   in sort (map fst (filter (\<lambda>(k, d). d > 0 \<and> k \<notin> set visited) deg')))"

definition cycle_item_ids :: "PlanItem list \<Rightarrow> string list" where
  "cycle_item_ids items = cycle_item_ids_in (\<lambda>ks. ks) items"

definition plan_rel :: "PlanItem list \<Rightarrow> (string \<times> string) set" where
  "plan_rel items = {(d, pi_id i) | d i. i \<in> set items \<and> d \<in> set (pi_blocked_by i) \<and> d \<in> item_ids items}"

lemma plan_indegree_distinct: "distinct (map fst (plan_indegree items))"
  unfolding plan_indegree_def
  using degree_entries_distinct [of _ "\<lambda>k. k" "\<lambda>_. 1"] degree_entries_distinct [of "[]" pi_id "\<lambda>_. 0" items]
  by simp

lemma count_edges_to:
  fixes n :: string
  assumes "finite K"
  shows "(\<Sum>d \<in> K. count_list (concat (map (\<lambda>i. map (\<lambda>_. pi_id i) (filter (\<lambda>x. x = d) (pi_blocked_by i))) xs)) n) =
    count_list (concat (map (\<lambda>i. map (\<lambda>_. pi_id i) (filter (\<lambda>x. x \<in> K) (pi_blocked_by i))) xs)) n"
proof (induction xs)
  case (Cons i xs)
  have len: "(\<Sum>d \<in> K. length (filter (\<lambda>x. x = d) ys)) = length (filter (\<lambda>x. x \<in> K) ys)" for ys :: "string list"
  proof (induction ys)
    case (Cons y ys)
    have "(\<Sum>d \<in> K. length (filter (\<lambda>x. x = d) (y # ys))) =
        (\<Sum>d \<in> K. (if d = y then 1 else 0) + length (filter (\<lambda>x. x = d) ys))"
      by (rule sum.cong) auto
    then show ?case using Cons.IH assms by (simp add: sum.distrib)
  qed simp
  have cnt: "count_list (map (\<lambda>_. k) ys) n = (if k = n then length ys else 0)" for k and ys :: "string list"
    by (induction ys) auto
  show ?case using Cons.IH len [of "pi_blocked_by i"] by (simp add: sum.distrib cnt)
qed simp

interpretation plan_kahn: kahn_source plan_ids plan_dependents plan_indegree
proof unfold_locales
  fix items :: "PlanItem list"
  show "fst ` set (plan_indegree items) = set (plan_ids items)"
    using degree_entries_keys [of "\<lambda>k. k" "\<lambda>_. 1"]
    by (auto simp: plan_indegree_def degree_entries_keys plan_ids_def)
  show "set (plan_dependents items d) \<subseteq> set (plan_ids items)" for d
    by (auto simp: plan_dependents_def plan_ids_def)
  fix n assume n: "n \<in> set (plan_ids items)"
  let ?edges = "concat (map (\<lambda>i. map (\<lambda>_. pi_id i) (filter (\<lambda>x. x \<in> item_ids items) (pi_blocked_by i))) items)"
  have z: "map_of (foldl (\<lambda>m i. degree_entry m (pi_id i) 0) [] items) n = Some 0"
    using n by (intro degree_entries_zero) (simp add: plan_ids_def)
  have "map_of (plan_indegree items) n = Some (0 + sum_list (map (\<lambda>_. 1) (filter (\<lambda>k. k = n) ?edges)))"
    unfolding plan_indegree_def using degree_entries_value [OF z, of "\<lambda>k. k" "\<lambda>_. 1" ?edges] by simp
  also have "sum_list (map (\<lambda>_. 1) (filter (\<lambda>k. k = n) ys)) = count_list ys n" for ys :: "string list"
    by (induction ys) auto
  also have "count_list ?edges n = (\<Sum>d \<in> item_ids items. count_list (plan_dependents items d) n)"
    unfolding plan_dependents_def by (rule count_edges_to [symmetric]) (simp add: item_ids_def)
  finally show "map_of (plan_indegree items) n = Some (\<Sum>d \<in> set (plan_ids items). count_list (plan_dependents items d) n)"
    by (simp add: plan_ids_def item_ids_def)
qed

lemma plan_kahn_edges: "plan_kahn.dep_edges items = plan_rel items"
  by (auto simp: plan_kahn.dep_edges_def plan_rel_def plan_dependents_def plan_ids_def item_ids_def)

lemma cycle_item_ids_in_set:
  assumes h: "mset (h (zero_degree (plan_indegree items))) = mset (zero_degree (plan_indegree items))"
  shows "set (cycle_item_ids_in h items) = set (plan_ids items) - Wellfounded.acc (plan_rel items)"
    and "distinct (cycle_item_ids_in h items)"
proof -
  let ?q = "rev (h (zero_degree (plan_indegree items)))"
  obtain visited deg where r: "kahn_loop (plan_dependents items) ?q [] (plan_indegree items) = (visited, deg)"
    by fastforce
  have q: "set ?q = {n \<in> set (plan_ids items). map_of (plan_indegree items) n = Some 0}"
    using mset_eq_setD [OF h] set_zero_degree [OF plan_indegree_distinct, of items]
    by (simp add: plan_kahn.indegree_keys)
  have v: "set visited = set (plan_ids items) \<inter> Wellfounded.acc (plan_rel items)"
    using plan_kahn.visited_eq [OF q] by (simp add: r plan_kahn_edges)
  have kd: "fst ` set deg = set (plan_ids items) \<and> distinct (map fst deg)"
  proof -
    have "fst ` set (snd (kahn_loop ch q' vs dg)) = fst ` set dg \<and>
        (distinct (map fst dg) \<longrightarrow> distinct (map fst (snd (kahn_loop ch q' vs dg))))" for ch q' vs dg
    proof (induction ch q' vs dg rule: kahn_loop.induct)
      case (2 ch i q' vs dg)
      have "distinct (map fst dg) \<longrightarrow> distinct (map fst (fst (relax cs dg qu)))" for cs qu
        by (induction cs dg qu rule: relax.induct) (auto simp: distinct_update split: option.splits)
      then show ?case using 2 by (simp add: relax_keys)
    qed simp
    from this [of "plan_dependents items" ?q "[]" "plan_indegree items"] show ?thesis
      using r plan_indegree_distinct by (simp add: plan_kahn.indegree_keys)
  qed
  have pos: "\<exists>d > 0. map_of deg n = Some d" if "n \<in> set (plan_ids items)" "n \<notin> set visited" for n
    using plan_kahn.degree_pos_iff [OF q that(1)] that(2) by (simp add: r)
  have eq: "cycle_item_ids_in h items = sort (map fst (filter (\<lambda>(k, d). d > 0 \<and> k \<notin> set visited) deg))"
    by (simp add: cycle_item_ids_in_def r)
  show "set (cycle_item_ids_in h items) = set (plan_ids items) - Wellfounded.acc (plan_rel items)"
  proof (intro equalityI subsetI)
    fix n assume "n \<in> set (cycle_item_ids_in h items)"
    then have "n \<in> fst ` set deg" "n \<notin> set visited" unfolding eq by auto
    then show "n \<in> set (plan_ids items) - Wellfounded.acc (plan_rel items)" using kd v by blast
  next
    fix n assume n: "n \<in> set (plan_ids items) - Wellfounded.acc (plan_rel items)"
    then have nv: "n \<notin> set visited" using v by blast
    then obtain d where "d > 0" "map_of deg n = Some d" using pos n by blast
    then have "(n, d) \<in> set deg" by (simp add: map_of_SomeD)
    then show "n \<in> set (cycle_item_ids_in h items)" unfolding eq using \<open>d > 0\<close> nv by force
  qed
  show "distinct (cycle_item_ids_in h items)"
    unfolding eq using kd by (simp add: distinct_map_filter)
qed

interpretation plan_check: cycle_check plan_ids plan_rel cycle_item_ids
proof unfold_locales
  fix items
  show "plan_rel items \<subseteq> set (plan_ids items) \<times> set (plan_ids items)"
    by (auto simp: plan_rel_def plan_ids_def item_ids_def)
  show "set (cycle_item_ids items) = set (plan_ids items) - Wellfounded.acc (plan_rel items)"
    unfolding cycle_item_ids_def by (rule cycle_item_ids_in_set) simp
qed

lemma cycle_item_ids_order_free:
  assumes "mset (h (zero_degree (plan_indegree items))) = mset (zero_degree (plan_indegree items))"
  shows "cycle_item_ids_in h items = cycle_item_ids items"
proof (rule map_sorted_distinct_set_unique [where f = "\<lambda>x. x", simplified])
  show "sorted (cycle_item_ids_in h items)" "sorted (cycle_item_ids items)"
    by (simp_all add: cycle_item_ids_def cycle_item_ids_in_def Let_def split: prod.split)
  show "distinct (cycle_item_ids_in h items)" by (rule cycle_item_ids_in_set(2) [of h items, OF assms])
  show "distinct (cycle_item_ids items)"
    unfolding cycle_item_ids_def by (rule cycle_item_ids_in_set(2)) simp
  show "set (cycle_item_ids_in h items) = set (cycle_item_ids items)"
    using cycle_item_ids_in_set(1) [of h items, OF assms] plan_check.detect_set [of items] by simp
qed

definition demo_item :: "string \<Rightarrow> string \<Rightarrow> string \<Rightarrow> string list \<Rightarrow> string option \<Rightarrow> PlanItem" where
  "demo_item i st prio deps owner = \<lparr>pi_content = i, pi_status = st, pi_priority = prio, pi_id = i,
     pi_subsystem = None, pi_file_scope = [], pi_blocked_by = deps, pi_assigned_to = owner\<rparr>"

text \<open>The plan's cycle check reports exactly the items on or downstream of a dependency cycle, and
  its result does not depend on the order in which the hash map of in-degrees is iterated.\<close>

theorem cycle_item_ids_spec:
  assumes "\<And>ks. mset (h ks) = mset ks"
  shows "cycle_item_ids_in h items = cycle_item_ids items \<and>
    (\<forall>i. i \<in> set (cycle_item_ids items) \<longleftrightarrow> i \<in> pi_id ` set items \<and>
       (\<exists>j. (j, i) \<in> (plan_rel items)\<^sup>* \<and> (j, j) \<in> (plan_rel items)\<^sup>+))"
  using cycle_item_ids_order_free [of h items] assms plan_check.detect_iff [of _ items]
  by (simp add: plan_ids_def)

theorem cycle_item_ids_spec_witness:
  "let items = [demo_item ''a'' ''queued'' ''low'' [''b'', ''b''] None, demo_item ''b'' ''queued'' ''low'' [''a''] None,
      demo_item ''c'' ''queued'' ''low'' [''b''] None, demo_item ''d'' ''queued'' ''low'' [''e''] None] in
     cycle_item_ids_in rev items = [''a'', ''b'', ''c'']"
proof -
  let ?items = "[demo_item ''a'' ''queued'' ''low'' [''b'', ''b''] None, demo_item ''b'' ''queued'' ''low'' [''a''] None,
      demo_item ''c'' ''queued'' ''low'' [''b''] None, demo_item ''d'' ''queued'' ''low'' [''e''] None]"
  have "cycle_item_ids ?items = [''a'', ''b'', ''c'']" by code_simp
  then show ?thesis using cycle_item_ids_spec [of rev ?items] by (simp add: Let_def)
qed

end
