(* ===== verification/Plan_Schedule.thy ===== *)
theory Plan_Schedule
  imports Plan_Graph
begin

text \<open>
  The scheduling queries of \<open>crates/jcode-plan/src/lib.rs\<close> over plan items: the status summary, the
  runnable order, assignment loads and affinities, the reclaim of stranded assignments and the
  resolution of a task-control target.
\<close>

section \<open>The status summary\<close>

record PlanGraphSummary =
  gs_ready_ids :: "string list"
  gs_blocked_ids :: "string list"
  gs_active_ids :: "string list"
  gs_completed_ids :: "string list"
  gs_failed_ids :: "string list"
  gs_terminal_ids :: "string list"
  gs_unresolved_dependency_ids :: "string list"
  gs_cycle_ids :: "string list"

definition item_missing :: "PlanItem list \<Rightarrow> PlanItem \<Rightarrow> string list" where
  "item_missing items item = missing_dependencies item (item_ids items)"

text \<open>The two branches of the summary loop, for one item.\<close>

definition has_dependency_blocker :: "PlanItem list \<Rightarrow> PlanItem \<Rightarrow> bool" where
  "has_dependency_blocker items item \<longleftrightarrow>
     unresolved_dependencies item (item_ids items) (completed_item_ids items) \<noteq> [] \<or>
     pi_id item \<in> set (cycle_item_ids items)"

definition item_ready :: "PlanItem list \<Rightarrow> PlanItem \<Rightarrow> bool" where
  "item_ready items item \<longleftrightarrow> is_runnable_status (pi_status item) \<and> item_missing items item = [] \<and>
     \<not> has_dependency_blocker items item"

definition item_blocked :: "PlanItem list \<Rightarrow> PlanItem \<Rightarrow> bool" where
  "item_blocked items item \<longleftrightarrow> \<not> item_ready items item \<and>
     \<not> is_terminal_status (pi_status item) \<and> \<not> is_active_status (pi_status item) \<and>
     (item_missing items item \<noteq> [] \<or> has_dependency_blocker items item \<or> pi_status item = ''blocked'')"

text \<open>A \<open>BTreeSet\<close> of the collected ids.\<close>

definition sorted_ids :: "string list \<Rightarrow> string list" where
  "sorted_ids ids = sort (remdups ids)"

definition status_ids :: "(string \<Rightarrow> bool) \<Rightarrow> PlanItem list \<Rightarrow> string list" where
  "status_ids P items = map pi_id (filter (\<lambda>i. P (pi_status i)) items)"

definition summarize_plan_graph :: "PlanItem list \<Rightarrow> PlanGraphSummary" where
  "summarize_plan_graph items = \<lparr>
     gs_ready_ids = sort (map pi_id (filter (item_ready items) items)),
     gs_blocked_ids = sort (map pi_id (filter (item_blocked items) items)),
     gs_active_ids = sort (status_ids is_active_status items),
     gs_completed_ids = sorted_ids (status_ids is_completed_status items),
     gs_failed_ids = sorted_ids (status_ids is_failed_status items),
     gs_terminal_ids = sorted_ids (status_ids is_terminal_status items),
     gs_unresolved_dependency_ids = sorted_ids (concat (map (item_missing items) items)),
     gs_cycle_ids = cycle_item_ids items\<rparr>"

section \<open>Choosing work\<close>

definition run_key :: "PlanItem \<Rightarrow> 8 word \<times> string" where
  "run_key i = (priority_rank (pi_priority i), pi_id i)"

definition next_runnable_item_ids :: "PlanItem list \<Rightarrow> nat option \<Rightarrow> string list" where
  "next_runnable_item_ids items limit =
     (let ready_ids = set (gs_ready_ids (summarize_plan_graph items));
          ready_items = sort_key run_key (filter (\<lambda>i. pi_id i \<in> ready_ids) items);
          ids = map pi_id ready_items
      in case limit of Some n \<Rightarrow> take n ids | None \<Rightarrow> ids)"

text \<open>\<open>*map.entry(k).or_default() += n\<close>\<close>

definition bump :: "(string \<rightharpoonup> nat) \<Rightarrow> string \<Rightarrow> nat \<Rightarrow> (string \<rightharpoonup> nat)" where
  "bump m k n = m(k \<mapsto> (case m k of Some v \<Rightarrow> v | None \<Rightarrow> 0) + n)"

definition assignment_loads :: "VersionedPlan \<Rightarrow> (string \<rightharpoonup> nat)" where
  "assignment_loads p = foldl (\<lambda>loads item.
     if is_terminal_status (pi_status item) then loads
     else case pi_assigned_to item of Some a \<Rightarrow> bump loads a 1 | None \<Rightarrow> loads)
     (\<lambda>_. None) (vp_items p)"

definition find_item :: "VersionedPlan \<Rightarrow> string \<Rightarrow> PlanItem option" where
  "find_item p i = find_key pi_id i (vp_items p)"

definition next_unassigned_runnable_item_id :: "VersionedPlan \<Rightarrow> string option" where
  "next_unassigned_runnable_item_id p = find (\<lambda>candidate_id.
     case find_item p candidate_id of Some item \<Rightarrow> pi_assigned_to item = None | None \<Rightarrow> False)
     (next_runnable_item_ids (vp_items p) None)"

definition MAX_DEAD_ASSIGNEE_RECLAIMS :: "32 word" where
  "MAX_DEAD_ASSIGNEE_RECLAIMS = 3"

definition reclaims_of :: "VersionedPlan \<Rightarrow> string \<Rightarrow> 32 word" where
  "reclaims_of p i = (case Option.bind (vp_task_progress p i) tp_dead_assignee_reclaims of
     Some n \<Rightarrow> n | None \<Rightarrow> 0)"

definition next_stranded_runnable_item_id :: "VersionedPlan \<Rightarrow> (string \<Rightarrow> bool) \<Rightarrow> string option" where
  "next_stranded_runnable_item_id p assignee_is_dead = find (\<lambda>candidate_id.
     case find_item p candidate_id of
       None \<Rightarrow> False
     | Some item \<Rightarrow> (case pi_assigned_to item of
         None \<Rightarrow> False
       | Some assignee \<Rightarrow> if \<not> assignee_is_dead assignee then False
           else reclaims_of p candidate_id < MAX_DEAD_ASSIGNEE_RECLAIMS))
     (next_runnable_item_ids (vp_items p) None)"

definition reclaim_stranded_assignment :: "VersionedPlan \<Rightarrow> string \<Rightarrow> bool \<times> VersionedPlan" where
  "reclaim_stranded_assignment p i = (case find_item p i of
     None \<Rightarrow> (False, p)
   | Some item \<Rightarrow> (case pi_assigned_to item of
       None \<Rightarrow> (False, p)
     | Some previous \<Rightarrow>
        (let progress = (case vp_task_progress p i of Some t \<Rightarrow> t | None \<Rightarrow> progress_default);
             progress = progress\<lparr>tp_assigned_session_id := None,
               tp_dead_assignee_reclaims := Some ((case tp_dead_assignee_reclaims progress of
                  Some n \<Rightarrow> n | None \<Rightarrow> 0) + 1),
               tp_checkpoint_summary :=
                 Some (''assignment reclaimed: previous assignee '' @ previous @ '' is dead'')\<rparr>
         in (True, p\<lparr>
           vp_items := modify_key pi_id i (\<lambda>it. it\<lparr>pi_assigned_to := None\<rparr>) (vp_items p),
           vp_task_progress := (vp_task_progress p)(i \<mapsto> progress),
           vp_version := vp_version p + 1\<rparr>))))"

section \<open>Task control targets\<close>

definition control_rank :: "string \<Rightarrow> nat" where
  "control_rank s = (if is_active_status s then 0 else if is_runnable_status s then 1
     else if is_failed_status s then 2 else if is_completed_status s then 3 else 4)"

definition control_candidates :: "PlanItem list \<Rightarrow> string \<Rightarrow> TaskControlAction \<Rightarrow> PlanItem list" where
  "control_candidates items session action = sort_key (\<lambda>i. control_rank (pi_status i))
     (filter (\<lambda>i. task_control_action_allows_status action (pi_status i))
       (filter (\<lambda>i. pi_assigned_to i = Some session) items))"

definition task_control_target_item_id ::
  "PlanItem list \<Rightarrow> string \<Rightarrow> TaskControlAction \<Rightarrow> string + string" where
  "task_control_target_item_id items session action =
     (let candidates = control_candidates items session action in case candidates of
        [] \<Rightarrow> Inl (''No task assigned to '' @ quoted session @ '' can be '' @ action_as_str action @
                 ''. Provide task_id explicitly, or assign a task first.'')
      | [item] \<Rightarrow> Inr (pi_id item)
      | first # second # _ \<Rightarrow>
          if pi_status first \<noteq> pi_status second then Inr (pi_id first)
          else Inl (''Multiple tasks assigned to '' @ quoted session @ '' can be '' @ action_as_str action @
                 '': '' @ join '', '' (map pi_id candidates) @ ''. Provide task_id explicitly.''))"

definition explicit_task_blocked_reason :: "VersionedPlan \<Rightarrow> string \<Rightarrow> string option" where
  "explicit_task_blocked_reason p i = (case find_item p i of
     None \<Rightarrow> None
   | Some item \<Rightarrow>
      (let missing = missing_dependencies item (item_ids (vp_items p));
           unresolved = unresolved_dependencies item (item_ids (vp_items p)) (completed_item_ids (vp_items p))
       in if missing \<noteq> [] then Some (''Task '' @ quoted (pi_id item) @ '' has missing dependencies: '' @ join '', '' missing)
          else if unresolved \<noteq> [] then Some (''Task '' @ quoted (pi_id item) @ '' is still blocked by: '' @ join '', '' unresolved)
          else if pi_id item \<in> set (cycle_item_ids (vp_items p))
          then Some (''Task '' @ quoted (pi_id item) @ '' is part of a dependency cycle and is not runnable'')
          else None))"

section \<open>Affinities\<close>

record AssignmentAffinities =
  aff_loads :: "string \<rightharpoonup> nat"
  aff_dependency_carryover :: "string \<rightharpoonup> nat"
  aff_metadata_carryover :: "string \<rightharpoonup> nat"

definition dependency_carry :: "VersionedPlan \<Rightarrow> (string \<rightharpoonup> nat) \<Rightarrow> string \<Rightarrow> (string \<rightharpoonup> nat)" where
  "dependency_carry p m d =
     (let m = (case Option.bind (find_item p d) pi_assigned_to of Some owner \<Rightarrow> bump m owner 1 | None \<Rightarrow> m)
      in case Option.bind (vp_task_progress p d) tp_assigned_session_id of
           Some owner \<Rightarrow> bump m owner 1 | None \<Rightarrow> m)"

definition metadata_carry :: "PlanItem \<Rightarrow> (string \<rightharpoonup> nat) \<Rightarrow> PlanItem \<Rightarrow> (string \<rightharpoonup> nat)" where
  "metadata_carry task m item = (case pi_assigned_to item of
     None \<Rightarrow> m
   | Some owner \<Rightarrow>
       if pi_id item = pi_id task then m
       else (let m = (if pi_subsystem task \<noteq> None \<and> pi_subsystem task = pi_subsystem item
                      then bump m owner 2 else m);
                 overlap = length (filter (\<lambda>path. path \<in> set (pi_file_scope item)) (pi_file_scope task))
             in if pi_file_scope task \<noteq> [] \<and> pi_file_scope item \<noteq> [] \<and> overlap > 0
                then bump m owner overlap else m))"

definition assignment_affinities_for_task :: "VersionedPlan \<Rightarrow> string \<Rightarrow> string + AssignmentAffinities" where
  "assignment_affinities_for_task p i = (case find_item p i of
     None \<Rightarrow> Inl (''Task '' @ quoted i @ '' not found in swarm plan'')
   | Some task \<Rightarrow> Inr \<lparr>aff_loads = assignment_loads p,
       aff_dependency_carryover = foldl (dependency_carry p) (\<lambda>_. None) (pi_blocked_by task),
       aff_metadata_carryover = foldl (metadata_carry task) (\<lambda>_. None) (vp_items p)\<rparr>)"

definition newly_ready_item_ids :: "PlanItem list \<Rightarrow> PlanItem list \<Rightarrow> string list" where
  "newly_ready_item_ids before after =
     (let before_ready = set (gs_ready_ids (summarize_plan_graph before))
      in filter (\<lambda>i. i \<notin> before_ready) (gs_ready_ids (summarize_plan_graph after)))"

section \<open>Lemmas\<close>

interpretation run_order: canonical_order run_key pi_id
  by unfold_locales (simp add: run_key_def)

lemma set_ready_ids: "set (gs_ready_ids (summarize_plan_graph items)) = pi_id ` {i \<in> set items. item_ready items i}"
  by (auto simp: summarize_plan_graph_def)

lemma item_ready_iff:
  "item_ready items i \<longleftrightarrow> is_runnable_status (pi_status i) \<and>
     set (pi_blocked_by i) \<subseteq> completed_item_ids items \<and> pi_id i \<notin> set (cycle_item_ids items)"
  by (auto simp: item_ready_def item_missing_def has_dependency_blocker_def missing_dependencies_def
      unresolved_dependencies_def filter_empty_conv completed_item_ids_def item_ids_def)

lemma ready_same_id:
  assumes "distinct (plan_ids items)" and "i \<in> set items"
  shows "pi_id i \<in> set (gs_ready_ids (summarize_plan_graph items)) \<longleftrightarrow> item_ready items i"
  using assms by (auto simp: set_ready_ids plan_ids_def distinct_map dest: inj_onD)

lemma next_runnable_unlimited:
  assumes "distinct (plan_ids items)"
  shows "next_runnable_item_ids items None = map pi_id (sort_key run_key (filter (item_ready items) items))"
proof -
  have "filter (\<lambda>i. pi_id i \<in> set (gs_ready_ids (summarize_plan_graph items))) items = filter (item_ready items) items"
    using ready_same_id [OF assms] by (intro filter_cong refl)
  then show ?thesis by (simp add: next_runnable_item_ids_def Let_def)
qed

lemma plan_order_free:
  assumes "mset items = mset items'"
  shows "item_ready items = item_ready items'"
proof -
  have set: "set items = set items'" using assms by (rule mset_eq_setD)
  have "plan_rel items = plan_rel items'" "set (plan_ids items) = set (plan_ids items')"
    by (simp_all add: plan_rel_def plan_ids_def item_ids_def set)
  then have "set (cycle_item_ids items) = set (cycle_item_ids items')" by (simp add: plan_check.detect_set)
  moreover have "completed_item_ids items = completed_item_ids items'" by (simp add: completed_item_ids_def set)
  ultimately show ?thesis by (simp add: fun_eq_iff item_ready_iff)
qed

lemma find_sorted_first:
  assumes "find P xs = Some x" and "sorted (map f xs)"
  shows "x \<in> set xs \<and> P x \<and> (\<forall>y \<in> set xs. P y \<longrightarrow> f x \<le> f y)"
  using assms by (induction xs) (auto split: if_splits)

section \<open>Properties\<close>

text \<open>An item is listed as ready exactly when its status is runnable, every dependency is a completed
  item, and it is neither on a dependency cycle nor downstream of one; the ready, blocked, active and
  terminal lists of a plan with distinct ids do not overlap.\<close>

theorem summary_classes:
  assumes "distinct (plan_ids items)" and "i \<in> set items"
  shows "(pi_id i \<in> set (gs_ready_ids (summarize_plan_graph items)) \<longleftrightarrow>
       is_runnable_status (pi_status i) \<and>
       (\<forall>d \<in> set (pi_blocked_by i). \<exists>c \<in> set items. pi_id c = d \<and> is_completed_status (pi_status c)) \<and>
       \<not> (\<exists>j. (j, pi_id i) \<in> (plan_rel items)\<^sup>* \<and> (j, j) \<in> (plan_rel items)\<^sup>+)) \<and>
    (let s = summarize_plan_graph items in
       set (gs_ready_ids s) \<inter> set (gs_blocked_ids s) = {} \<and>
       (set (gs_ready_ids s) \<union> set (gs_blocked_ids s)) \<inter> (set (gs_active_ids s) \<union> set (gs_terminal_ids s)) = {} \<and>
       set (gs_active_ids s) \<inter> set (gs_terminal_ids s) = {})"
proof
  have id: "pi_id i \<in> pi_id ` set items" using assms(2) by simp
  show "pi_id i \<in> set (gs_ready_ids (summarize_plan_graph items)) \<longleftrightarrow>
       is_runnable_status (pi_status i) \<and>
       (\<forall>d \<in> set (pi_blocked_by i). \<exists>c \<in> set items. pi_id c = d \<and> is_completed_status (pi_status c)) \<and>
       \<not> (\<exists>j. (j, pi_id i) \<in> (plan_rel items)\<^sup>* \<and> (j, j) \<in> (plan_rel items)\<^sup>+)"
    using plan_check.detect_iff [of "pi_id i" items] id
    unfolding ready_same_id [OF assms] item_ready_iff completed_item_ids_def plan_ids_def
    by (auto simp: subset_iff image_iff)
  have inj: "x = y" if "x \<in> set items" "y \<in> set items" "pi_id x = pi_id y" for x y
    using assms(1) that by (auto simp: plan_ids_def distinct_map dest: inj_onD)
  have disj: "pi_id ` {x \<in> set items. P x} \<inter> pi_id ` {x \<in> set items. Q x} = {}"
    if "\<And>x. P x \<Longrightarrow> \<not> Q x" for P Q
    using inj that by blast
  have sets: "set (gs_ready_ids (summarize_plan_graph items)) = pi_id ` {x \<in> set items. item_ready items x}"
    "set (gs_blocked_ids (summarize_plan_graph items)) = pi_id ` {x \<in> set items. item_blocked items x}"
    "set (gs_active_ids (summarize_plan_graph items)) = pi_id ` {x \<in> set items. is_active_status (pi_status x)}"
    "set (gs_terminal_ids (summarize_plan_graph items)) = pi_id ` {x \<in> set items. is_terminal_status (pi_status x)}"
    by (auto simp: summarize_plan_graph_def sorted_ids_def status_ids_def)
  have "set (gs_ready_ids (summarize_plan_graph items)) \<inter> set (gs_blocked_ids (summarize_plan_graph items)) = {}"
    unfolding sets by (rule disj) (simp add: item_blocked_def)
  moreover have "set (gs_ready_ids (summarize_plan_graph items)) \<inter> set (gs_active_ids (summarize_plan_graph items)) = {}"
    unfolding sets by (rule disj) (auto simp: item_ready_def dest: status_classes)
  moreover have "set (gs_ready_ids (summarize_plan_graph items)) \<inter> set (gs_terminal_ids (summarize_plan_graph items)) = {}"
    unfolding sets by (rule disj) (auto simp: item_ready_def dest: status_classes)
  moreover have "set (gs_blocked_ids (summarize_plan_graph items)) \<inter> set (gs_active_ids (summarize_plan_graph items)) = {}"
    unfolding sets by (rule disj) (simp add: item_blocked_def)
  moreover have "set (gs_blocked_ids (summarize_plan_graph items)) \<inter> set (gs_terminal_ids (summarize_plan_graph items)) = {}"
    unfolding sets by (rule disj) (simp add: item_blocked_def)
  moreover have "set (gs_active_ids (summarize_plan_graph items)) \<inter> set (gs_terminal_ids (summarize_plan_graph items)) = {}"
    unfolding sets by (rule disj) (auto dest: status_classes)
  ultimately show "let s = summarize_plan_graph items in
       set (gs_ready_ids s) \<inter> set (gs_blocked_ids s) = {} \<and>
       (set (gs_ready_ids s) \<union> set (gs_blocked_ids s)) \<inter> (set (gs_active_ids s) \<union> set (gs_terminal_ids s)) = {} \<and>
       set (gs_active_ids s) \<inter> set (gs_terminal_ids s) = {}"
    unfolding Let_def by blast
qed

definition demo_items :: "PlanItem list" where
  "demo_items = [demo_item ''z'' ''completed'' ''low'' [] (Some ''s1''), demo_item ''b'' ''queued'' ''low'' [''z''] None,
     demo_item ''a'' ''ready'' ''p0'' [''z''] (Some ''s2''), demo_item ''c'' ''queued'' ''high'' [''b''] None]"

theorem summary_classes_witness: "''a'' \<in> set (gs_ready_ids (summarize_plan_graph demo_items))"
proof -
  have d: "distinct (plan_ids demo_items)" by code_simp
  let ?a = "demo_item ''a'' ''ready'' ''p0'' [''z''] (Some ''s2'')"
  have a: "?a \<in> set demo_items" by (simp add: demo_items_def)
  have c: "\<not> (\<exists>j. (j, ''a'') \<in> (plan_rel demo_items)\<^sup>* \<and> (j, j) \<in> (plan_rel demo_items)\<^sup>+)"
  proof -
    have "cycle_item_ids demo_items = []" by code_simp
    then have "acyclic (plan_rel demo_items)" using plan_check.detect_Nil_iff by blast
    then show ?thesis by (simp add: acyclic_def)
  qed
  have f: "pi_id ?a = ''a''" "pi_status ?a = ''ready''" "pi_blocked_by ?a = [''z'']" by (simp_all add: demo_item_def)
  have z: "\<exists>k \<in> set demo_items. pi_id k = ''z'' \<and> is_completed_status (pi_status k)"
    by (simp add: demo_items_def demo_item_def is_completed_status_def)
  show ?thesis
    using summary_classes [OF d a] c z unfolding f by (simp add: is_runnable_status_def)
qed

text \<open>The runnable order is canonical: for a plan with distinct ids it holds exactly the ready ids, by
  priority rank and then id, whatever the order of the items; a limit takes a prefix.\<close>

theorem next_runnable_order:
  assumes "distinct (plan_ids items)" and "mset items = mset items'"
  shows "next_runnable_item_ids items limit = next_runnable_item_ids items' limit \<and>
    set (next_runnable_item_ids items None) = set (gs_ready_ids (summarize_plan_graph items)) \<and>
    (\<exists>xs. next_runnable_item_ids items None = map pi_id xs \<and> set xs \<subseteq> set items \<and>
       sorted (map (\<lambda>i. (priority_rank (pi_priority i), pi_id i)) xs)) \<and>
    next_runnable_item_ids items (Some n) = take n (next_runnable_item_ids items None)"
proof (intro conjI)
  have d': "distinct (plan_ids items')"
    using assms mset_eq_imp_distinct_iff [of "plan_ids items" "plan_ids items'"] by (simp add: plan_ids_def)
  have "sort_key run_key (filter (item_ready items) items) = sort_key run_key (filter (item_ready items') items')"
    using assms by (intro run_order.sort_canonical)
      (simp_all add: plan_order_free [OF assms(2)] plan_ids_def distinct_map_filter)
  then have "next_runnable_item_ids items None = next_runnable_item_ids items' None"
    by (simp add: next_runnable_unlimited [OF assms(1)] next_runnable_unlimited [OF d'])
  then show "next_runnable_item_ids items limit = next_runnable_item_ids items' limit"
    by (cases limit) (simp_all add: next_runnable_item_ids_def Let_def)
  show "set (next_runnable_item_ids items None) = set (gs_ready_ids (summarize_plan_graph items))"
    by (simp add: next_runnable_unlimited [OF assms(1)] set_ready_ids)
  show "\<exists>xs. next_runnable_item_ids items None = map pi_id xs \<and> set xs \<subseteq> set items \<and>
       sorted (map (\<lambda>i. (priority_rank (pi_priority i), pi_id i)) xs)"
    using run_order.sorted_sort [of "filter (item_ready items) items"]
    by (intro exI [of _ "sort_key run_key (filter (item_ready items) items)"])
      (auto simp: next_runnable_unlimited [OF assms(1)] run_key_def [abs_def])
  show "next_runnable_item_ids items (Some n) = take n (next_runnable_item_ids items None)"
    by (simp add: next_runnable_item_ids_def Let_def)
qed

theorem next_runnable_order_witness:
  "next_runnable_item_ids demo_items (Some 1) = next_runnable_item_ids (rev demo_items) (Some 1) \<and>
   next_runnable_item_ids demo_items None = [''a'', ''b'']"
proof
  have "distinct (plan_ids demo_items)" by code_simp
  then show "next_runnable_item_ids demo_items (Some 1) = next_runnable_item_ids (rev demo_items) (Some 1)"
    by (rule next_runnable_order [THEN conjunct1]) simp
qed code_simp

text \<open>Assigning an item explicitly is refused for the same reasons that keep it off the ready list: an
  item with a runnable status has no blocked reason exactly when it is ready.\<close>

theorem blocked_reason_iff:
  assumes "distinct (plan_ids (vp_items p))" and "find_item p i = Some item"
    and "is_runnable_status (pi_status item)"
  shows "explicit_task_blocked_reason p i = None \<longleftrightarrow> i \<in> set (gs_ready_ids (summarize_plan_graph (vp_items p)))"
proof -
  have "item \<in> set (vp_items p)" and id: "pi_id item = i"
    using assms(2) find_key_Some unfolding find_item_def by fast+
  then have "i \<in> set (gs_ready_ids (summarize_plan_graph (vp_items p))) \<longleftrightarrow> item_ready (vp_items p) item"
    using ready_same_id [OF assms(1)] by blast
  then show ?thesis
    using assms(2,3) by (simp add: explicit_task_blocked_reason_def Let_def item_ready_def item_missing_def
        has_dependency_blocker_def)
qed

definition demo_plan :: VersionedPlan where
  "demo_plan = plan_new\<lparr>vp_items := demo_items\<rparr>"

theorem blocked_reason_iff_witness: "explicit_task_blocked_reason demo_plan ''a'' = None"
proof -
  let ?a = "demo_item ''a'' ''ready'' ''p0'' [''z''] (Some ''s2'')"
  have items: "vp_items demo_plan = demo_items" by (simp add: demo_plan_def)
  have d: "distinct (plan_ids (vp_items demo_plan))" unfolding items by code_simp
  have f: "find_item demo_plan ''a'' = Some ?a" by (simp add: find_item_def items demo_items_def demo_item_def)
  have r: "is_runnable_status (pi_status ?a)" by (simp add: demo_item_def is_runnable_status_def)
  have "''a'' \<in> set (gs_ready_ids (summarize_plan_graph (vp_items demo_plan)))" unfolding items by code_simp
  then show ?thesis using blocked_reason_iff [OF d f r] by blast
qed

lemma find_item_Some:
  "distinct (plan_ids (vp_items p)) \<Longrightarrow> find_item p i = Some x \<longleftrightarrow> x \<in> set (vp_items p) \<and> pi_id x = i"
  using find_key_distinct [of pi_id "vp_items p" x] find_key_Some [of pi_id i "vp_items p" x]
  by (auto simp: find_item_def plan_ids_def)

lemma item_ready_assignee:
  assumes "\<And>x. pi_id (f x) = pi_id x \<and> pi_status (f x) = pi_status x \<and> pi_blocked_by (f x) = pi_blocked_by x"
  shows "item_ready (map f items) (f x) \<longleftrightarrow> item_ready items x"
proof -
  have ids: "item_ids (map f items) = item_ids items" using assms by (simp add: item_ids_def image_image)
  have "plan_rel (map f items) = plan_rel items"
  proof (intro equalityI subsetI)
    show "e \<in> plan_rel items" if "e \<in> plan_rel (map f items)" for e
      using that assms by (auto simp: plan_rel_def ids)
    fix e assume "e \<in> plan_rel items"
    then obtain d i where "e = (d, pi_id i)" "i \<in> set items" "d \<in> set (pi_blocked_by i)" "d \<in> item_ids items"
      by (auto simp: plan_rel_def)
    then have "e = (d, pi_id (f i)) \<and> f i \<in> set (map f items) \<and> d \<in> set (pi_blocked_by (f i)) \<and>
        d \<in> item_ids (map f items)" using assms ids by simp
    then show "e \<in> plan_rel (map f items)" unfolding plan_rel_def by blast
  qed
  then have "set (cycle_item_ids (map f items)) = set (cycle_item_ids items)"
    using assms by (simp add: plan_check.detect_set plan_ids_def image_image)
  moreover have "completed_item_ids (map f items) = completed_item_ids items"
    using assms by (simp add: completed_item_ids_def filter_map comp_def image_image)
  ultimately show ?thesis using assms by (simp add: item_ready_iff)
qed

lemma next_stranded_Some:
  assumes d: "distinct (plan_ids (vp_items p))" and n: "next_stranded_runnable_item_id p dead = Some i"
  obtains item a where "find_item p i = Some item" "pi_assigned_to item = Some a" "dead a"
    "reclaims_of p i < 3" "item_ready (vp_items p) item"
proof -
  have "i \<in> set (next_runnable_item_ids (vp_items p) None)" and
    c: "case find_item p i of None \<Rightarrow> False | Some item \<Rightarrow> (case pi_assigned_to item of None \<Rightarrow> False
       | Some assignee \<Rightarrow> if \<not> dead assignee then False else reclaims_of p i < MAX_DEAD_ASSIGNEE_RECLAIMS)"
    using find_SomeD [OF n [unfolded next_stranded_runnable_item_id_def]] by blast+
  then obtain x where x: "x \<in> set (vp_items p)" "item_ready (vp_items p) x" "pi_id x = i"
    by (auto simp: next_runnable_unlimited [OF d])
  then have "find_item p i = Some x" by (simp add: find_item_Some [OF d])
  then show ?thesis using c x(2) that by (auto simp: MAX_DEAD_ASSIGNEE_RECLAIMS_def split: option.splits if_splits)
qed

text \<open>Automatic work selection returns the ready, unassigned item that is least by priority rank and
  id, and nothing only when there is no ready unassigned item.\<close>

theorem next_unassigned_spec:
  assumes "distinct (plan_ids (vp_items p))"
  shows "(case next_unassigned_runnable_item_id p of
      Some i \<Rightarrow> (\<exists>x. find_item p i = Some x \<and> pi_assigned_to x = None \<and> item_ready (vp_items p) x \<and>
        (\<forall>y \<in> set (vp_items p). item_ready (vp_items p) y \<and> pi_assigned_to y = None \<longrightarrow>
           (priority_rank (pi_priority x), i) \<le> (priority_rank (pi_priority y), pi_id y)))
    | None \<Rightarrow> \<not> (\<exists>x \<in> set (vp_items p). item_ready (vp_items p) x \<and> pi_assigned_to x = None))"
proof -
  let ?xs = "sort_key run_key (filter (item_ready (vp_items p)) (vp_items p))"
  let ?P = "\<lambda>x. pi_assigned_to x = None"
  have get: "find_item p (pi_id x) = Some x" if "x \<in> set ?xs" for x
    using that by (simp add: find_item_Some [OF assms])
  have find: "find (\<lambda>c. case find_item p c of Some item \<Rightarrow> ?P item | None \<Rightarrow> False) (map pi_id xs) =
      map_option pi_id (find ?P xs)" if "set xs \<subseteq> set ?xs" for xs
    using that get by (induction xs) auto
  have eq: "next_unassigned_runnable_item_id p = map_option pi_id (find ?P ?xs)"
    unfolding next_unassigned_runnable_item_id_def next_runnable_unlimited [OF assms] by (rule find) simp
  show ?thesis
  proof (cases "find ?P ?xs")
    case None
    then have "next_unassigned_runnable_item_id p = None" using eq by simp
    then show ?thesis using None by (auto simp: find_None_iff)
  next
    case (Some x)
    have "x \<in> set ?xs \<and> ?P x \<and> (\<forall>y \<in> set ?xs. ?P y \<longrightarrow> run_key x \<le> run_key y)"
      using find_sorted_first [OF Some, of run_key] by simp
    then show ?thesis using eq Some get [of x] by (auto simp: run_key_def)
  qed
qed

theorem next_unassigned_spec_witness:
  "distinct (plan_ids (vp_items demo_plan)) \<and> (\<exists>x. find_item demo_plan ''b'' = Some x \<and> pi_assigned_to x = None)"
proof -
  have items: "vp_items demo_plan = demo_items" by (simp add: demo_plan_def)
  have d: "distinct (plan_ids (vp_items demo_plan))" unfolding items by code_simp
  have "next_unassigned_runnable_item_id demo_plan = Some ''b''" by code_simp
  with next_unassigned_spec [OF d] d show ?thesis by auto
qed

text \<open>Reclaiming is bounded: automatic reclaim picks only a ready item whose assignee is dead and that
  was reclaimed fewer than three times; the reclaim frees the item, keeps it ready, counts one more
  reclaim without overflow and leaves every other item and its progress alone.\<close>

theorem reclaim_bounded:
  assumes "distinct (plan_ids (vp_items p))" and "next_stranded_runnable_item_id p dead = Some i"
  shows "(\<exists>item a. find_item p i = Some item \<and> pi_assigned_to item = Some a \<and> dead a) \<and>
    unat (reclaims_of p i) < 3 \<and> fst (reclaim_stranded_assignment p i) \<and>
    (let p' = snd (reclaim_stranded_assignment p i) in
      unat (reclaims_of p' i) = unat (reclaims_of p i) + 1 \<and> vp_version p' = vp_version p + 1 \<and>
      (\<exists>item. find_item p' i = Some item \<and> pi_assigned_to item = None \<and> item_ready (vp_items p') item) \<and>
      (\<forall>j. j \<noteq> i \<longrightarrow> find_item p' j = find_item p j \<and> vp_task_progress p' j = vp_task_progress p j))"
proof -
  obtain item a where s: "find_item p i = Some item" "pi_assigned_to item = Some a" "dead a"
      "reclaims_of p i < 3" "item_ready (vp_items p) item"
    by (rule next_stranded_Some [OF assms])
  let ?p = "snd (reclaim_stranded_assignment p i)"
  let ?f = "\<lambda>it. it\<lparr>pi_assigned_to := None\<rparr>"
  let ?g = "\<lambda>x. if pi_id x = i then ?f x else x"
  have small: "unat (reclaims_of p i) < 3" using s(4) by (simp add: word_less_nat_alt)
  have items: "vp_items ?p = map ?g (vp_items p)"
    using assms(1) s(1,2) by (simp add: reclaim_stranded_assignment_def Let_def modify_key_map plan_ids_def)
  have "reclaims_of ?p i = reclaims_of p i + 1"
    using s(1,2) by (simp add: reclaim_stranded_assignment_def Let_def reclaims_of_def progress_default_def
        split: option.splits)
  moreover have "unat (reclaims_of p i + 1) = unat (reclaims_of p i) + 1"
    using small by (subst unat_add_lem [THEN iffD1]) simp_all
  ultimately have count: "unat (reclaims_of ?p i) = unat (reclaims_of p i) + 1" by simp
  have find: "find_item ?p j = (if j = i then map_option ?f (find_item p j) else find_item p j)" for j
    using s(1,2) by (simp add: reclaim_stranded_assignment_def Let_def find_item_def find_key_modify)
  have id: "pi_id item = i" using s(1) by (simp add: find_item_Some [OF assms(1)])
  have ready: "item_ready (vp_items ?p) (?f item)"
    using item_ready_assignee [of ?g "vp_items p" item] s(5) id unfolding items by simp
  show ?thesis
    using s(1-3) small count find ready
    by (auto simp: Let_def reclaim_stranded_assignment_def)
qed

theorem reclaim_bounded_witness:
  "fst (reclaim_stranded_assignment demo_plan ''a'') \<and> unat (reclaims_of demo_plan ''a'') < 3"
proof -
  have items: "vp_items demo_plan = demo_items" by (simp add: demo_plan_def)
  have d: "distinct (plan_ids (vp_items demo_plan))" unfolding items by code_simp
  have "next_stranded_runnable_item_id demo_plan (\<lambda>s. s = ''s2'') = Some ''a''" by code_simp
  from reclaim_bounded [OF d this] show ?thesis by blast
qed

text \<open>Task control: an action name parses back; no action that hands work to another worker or
  restarts it is allowed on a completed item; and a target found for a session is assigned to it, in a
  status the action allows, ahead of or tied with every other candidate by the status order.\<close>

theorem task_control_safe:
  "action_parse (action_as_str action) = Some action \<and>
   (is_completed_status status \<longrightarrow> \<not> task_control_action_allows_status action status) \<and>
   (case task_control_target_item_id items session action of
      Inr i \<Rightarrow> (\<exists>x \<in> set items. pi_id x = i \<and> pi_assigned_to x = Some session \<and>
        task_control_action_allows_status action (pi_status x) \<and>
        (\<forall>y \<in> set items. pi_assigned_to y = Some session \<and> task_control_action_allows_status action (pi_status y) \<longrightarrow>
           control_rank (pi_status x) \<le> control_rank (pi_status y)))
    | Inl _ \<Rightarrow> True)"
proof (intro conjI impI)
  show "action_parse (action_as_str action) = Some action" by (rule action_parse_as_str)
  show "\<not> task_control_action_allows_status action status" if "is_completed_status status"
    using that by (cases action) (auto simp: task_control_action_allows_status_def is_completed_status_def)
  let ?xs = "control_candidates items session action"
  have sorted: "sorted (map (\<lambda>i. control_rank (pi_status i)) ?xs)" by (simp add: control_candidates_def)
  have set: "set ?xs = {x \<in> set items. pi_assigned_to x = Some session \<and>
      task_control_action_allows_status action (pi_status x)}" by (auto simp: control_candidates_def)
  have head: "\<exists>x \<in> set items. pi_id x = pi_id c \<and> pi_assigned_to x = Some session \<and>
        task_control_action_allows_status action (pi_status x) \<and>
        (\<forall>y \<in> set items. pi_assigned_to y = Some session \<and> task_control_action_allows_status action (pi_status y) \<longrightarrow>
           control_rank (pi_status x) \<le> control_rank (pi_status y))" if c: "?xs = c # cs" for c cs
  proof -
    have mem: "y \<in> set ?xs \<longleftrightarrow> y = c \<or> y \<in> set cs" for y using c by simp
    have "control_rank (pi_status c) \<le> control_rank (pi_status y)" if "y \<in> set ?xs" for y
      using that sorted mem [of y] by (auto simp: c)
    then show ?thesis using mem [of c] unfolding set by (intro bexI [of _ c]) auto
  qed
  show "case task_control_target_item_id items session action of
      Inr i \<Rightarrow> (\<exists>x \<in> set items. pi_id x = i \<and> pi_assigned_to x = Some session \<and>
        task_control_action_allows_status action (pi_status x) \<and>
        (\<forall>y \<in> set items. pi_assigned_to y = Some session \<and> task_control_action_allows_status action (pi_status y) \<longrightarrow>
           control_rank (pi_status x) \<le> control_rank (pi_status y)))
    | Inl _ \<Rightarrow> True"
    using head unfolding task_control_target_item_id_def Let_def
    by (auto split: list.split sum.split)
qed

theorem task_control_safe_witness:
  "\<not> task_control_action_allows_status CtlReassign ''completed'' \<and>
   (\<exists>x \<in> set demo_items. pi_id x = ''a'' \<and> pi_assigned_to x = Some ''s2'')"
proof -
  have c: "is_completed_status ''completed''" by (simp add: is_completed_status_def)
  have t: "task_control_target_item_id demo_items ''s2'' CtlReassign = Inr ''a''" by code_simp
  show ?thesis
    using c task_control_safe [of CtlReassign "''completed''" demo_items "''s2''"] unfolding t by auto
qed

end
