(* ===== verification/Plan_Bridge.thy ===== *)
theory Plan_Bridge
  imports Plan_Schedule Dag_Schedule
begin

text \<open>
  The bridge of \<open>crates/jcode-plan/src/bridge.rs\<close> between the stored plan and the task graph engine:
  the string codings, the lift of a plan to a graph, the lowering of a graph into the plan, the
  upstream context of an assignment and the growth accounting. \<open>serde_json\<close> is the pair \<open>enc\<close>,
  \<open>dec\<close> of parameters.
\<close>

section \<open>String codings\<close>

definition norm :: "string \<Rightarrow> string" where
  "norm s = to_ascii_lowercase (trim s)"

definition parse_mode :: "string \<Rightarrow> Mode" where
  "parse_mode s = (if norm s = ''deep'' then Deep else Light)"

fun mode_str :: "Mode \<Rightarrow> string" where
  "mode_str Deep = ''deep''"
| "mode_str Light = ''light''"

definition parse_kind :: "string option \<Rightarrow> NodeKind" where
  "parse_kind k = (let s = map_option norm k in
     if s = Some ''implement'' then Implement else if s = Some ''verify'' then Verify
     else if s = Some ''fix'' then Fix else if s = Some ''synthesize'' then Synthesize
     else if s = Some ''critique'' then Critique else Explore)"

fun kind_str :: "NodeKind \<Rightarrow> string" where
  "kind_str Explore = ''explore''"
| "kind_str Implement = ''implement''"
| "kind_str Verify = ''verify''"
| "kind_str Fix = ''fix''"
| "kind_str Synthesize = ''synthesize''"
| "kind_str Critique = ''critique''"

definition parse_origin :: "string option \<Rightarrow> NodeOrigin option" where
  "parse_origin orig = (let s = map_option norm orig in
     if s = Some ''seed'' then Some OriginSeed else if s = Some ''expand'' then Some OriginExpand
     else if s = Some ''gap'' then Some OriginGap else if s = Some ''gate'' then Some OriginGate
     else None)"

fun origin_str :: "NodeOrigin \<Rightarrow> string" where
  "origin_str OriginSeed = ''seed''"
| "origin_str OriginExpand = ''expand''"
| "origin_str OriginGap = ''gap''"
| "origin_str OriginGate = ''gate''"

definition status_from_plan :: "string \<Rightarrow> NodeStatus" where
  "status_from_plan s =
     (if s = ''running'' \<or> s = ''running_stale'' then NodeRunning
      else if s = ''completed'' \<or> s = ''done'' then NodeDone
      else if s = ''failed'' \<or> s = ''stopped'' \<or> s = ''crashed'' then NodeFailed
      else NodeQueued)"

fun status_to_plan :: "NodeStatus \<Rightarrow> string" where
  "status_to_plan NodeQueued = ''queued''"
| "status_to_plan NodeRunning = ''running''"
| "status_to_plan NodeDone = ''completed''"
| "status_to_plan NodeFailed = ''failed''"

definition priority_string :: "8 word \<Rightarrow> string" where
  "priority_string rank = (if rank = 0 then ''high'' else if rank = 2 then ''low'' else ''medium'')"

section \<open>Lift and lower\<close>

definition meta_of :: "VersionedPlan \<Rightarrow> string \<Rightarrow> NodeMeta" where
  "meta_of p i = (case vp_node_meta p i of Some m \<Rightarrow> m | None \<Rightarrow> node_meta_default)"

definition lift_item :: "(string \<Rightarrow> HandoffArtifact option) \<Rightarrow> VersionedPlan \<Rightarrow> PlanItem \<Rightarrow> TaskNode" where
  "lift_item dec p item = (let meta = meta_of p (pi_id item) in \<lparr>
     tn_id = pi_id item, tn_content = pi_content item, tn_kind = parse_kind (nm_kind meta),
     tn_status = status_from_plan (pi_status item), tn_owner = pi_assigned_to item,
     tn_parent = nm_parent meta, tn_depends_on = pi_blocked_by item, tn_expanded = nm_expanded meta,
     tn_is_gate = nm_is_gate meta, tn_planner = nm_planner meta,
     tn_priority = priority_rank (pi_priority item),
     tn_output = Option.bind (nm_artifact_json meta) dec, tn_origin = parse_origin (nm_origin meta)\<rparr>)"

definition to_task_graph :: "(string \<Rightarrow> HandoffArtifact option) \<Rightarrow> VersionedPlan \<Rightarrow> TaskGraph" where
  "to_task_graph dec p =
     foldl (\<lambda>g item. tg_push g (lift_item dec p item)) (task_graph_new (parse_mode (vp_mode p))) (vp_items p)"

text \<open>The prior items by id; a later item of the same id overwrites an earlier one.\<close>

definition prior_items :: "VersionedPlan \<Rightarrow> (string \<rightharpoonup> PlanItem)" where
  "prior_items p = foldl (\<lambda>m item. m(pi_id item \<mapsto> item)) (\<lambda>_. None) (vp_items p)"

definition lower_node :: "VersionedPlan \<Rightarrow> TaskNode \<Rightarrow> PlanItem" where
  "lower_node p node = (let prev = prior_items p (tn_id node) in \<lparr>
     pi_content = tn_content node, pi_status = status_to_plan (tn_status node),
     pi_priority = (case prev of Some q \<Rightarrow> pi_priority q | None \<Rightarrow> priority_string (tn_priority node)),
     pi_id = tn_id node, pi_subsystem = Option.bind prev pi_subsystem,
     pi_file_scope = (case prev of Some q \<Rightarrow> pi_file_scope q | None \<Rightarrow> []),
     pi_blocked_by = tn_depends_on node, pi_assigned_to = tn_owner node\<rparr>)"

definition lower_meta :: "(HandoffArtifact \<Rightarrow> string option) \<Rightarrow> TaskNode \<Rightarrow> NodeMeta" where
  "lower_meta enc node = \<lparr>nm_kind = Some (kind_str (tn_kind node)), nm_parent = tn_parent node,
     nm_expanded = tn_expanded node, nm_is_gate = tn_is_gate node, nm_planner = tn_planner node,
     nm_artifact_json = Option.bind (tn_output node) enc,
     nm_origin = map_option origin_str (tn_origin node)\<rparr>"

definition apply_task_graph ::
  "(HandoffArtifact \<Rightarrow> string option) \<Rightarrow> VersionedPlan \<Rightarrow> TaskGraph \<Rightarrow> VersionedPlan" where
  "apply_task_graph enc p g =
     (let p = p\<lparr>vp_mode := mode_str (tg_mode g)\<rparr>;
          items = map (lower_node p) (tg_nodes g);
          meta = foldl (\<lambda>m node. m(tn_id node \<mapsto> lower_meta enc node)) (\<lambda>_. None) (tg_nodes g)
      in (replace_items p items)\<lparr>vp_node_meta := meta\<rparr>)"

section \<open>Context and accounting\<close>

definition upstream_section :: "(string \<Rightarrow> HandoffArtifact option) \<Rightarrow> VersionedPlan \<Rightarrow> string \<Rightarrow> string option" where
  "upstream_section dec p dep_id = (case find_item p dep_id of
     None \<Rightarrow> None
   | Some dep \<Rightarrow>
       if \<not> is_completed_status (pi_status dep) then None
       else (case vp_node_meta p dep_id of
         None \<Rightarrow> None
       | Some meta \<Rightarrow> (case Option.bind (nm_artifact_json meta) dec of
           None \<Rightarrow> None
         | Some artifact \<Rightarrow> Some (render_section artifact dep_id
             (case nm_kind meta of Some k \<Rightarrow> k | None \<Rightarrow> ''task'')))))"

definition upstream_context :: "(string \<Rightarrow> HandoffArtifact option) \<Rightarrow> VersionedPlan \<Rightarrow> string \<Rightarrow> string option" where
  "upstream_context dec p i = (case find_item p i of
     None \<Rightarrow> None
   | Some item \<Rightarrow>
       if pi_blocked_by item = [] then None
       else (let sections = List.map_filter (upstream_section dec p) (pi_blocked_by item)
         in if sections = [] then None
            else Some (''# Inputs from completed dependencies'' @ [nl, nl] @ join [nl] sections)))"

definition hydrate_assignment ::
  "(string \<Rightarrow> HandoffArtifact option) \<Rightarrow> VersionedPlan \<Rightarrow> string \<Rightarrow> string \<Rightarrow> string" where
  "hydrate_assignment dec p i content = (case upstream_context dec p i of
     Some context \<Rightarrow> content @ [nl, nl] @ context
   | None \<Rightarrow> content)"

record GrowthStats =
  gr_seeded :: nat
  gr_from_expansion :: nat
  gr_from_gaps :: nat
  gr_gates :: nat

definition growth_total :: "GrowthStats \<Rightarrow> nat" where
  "growth_total s = gr_seeded s + gr_from_expansion s + gr_from_gaps s + gr_gates s"

definition growth_grown :: "GrowthStats \<Rightarrow> nat" where
  "growth_grown s = gr_from_expansion s + gr_from_gaps s + gr_gates s"

definition growth_summary_line :: "GrowthStats \<Rightarrow> string" where
  "growth_summary_line s = nat_to_string (gr_seeded s) @ '' seeded -> '' @ nat_to_string (growth_total s) @
     '' nodes (+'' @ nat_to_string (gr_from_expansion s) @ '' expansion, +'' @ nat_to_string (gr_from_gaps s) @
     '' gap, +'' @ nat_to_string (gr_gates s) @ '' gates)''"

definition count_origin :: "VersionedPlan \<Rightarrow> GrowthStats \<Rightarrow> PlanItem \<Rightarrow> GrowthStats" where
  "count_origin p s item =
     (case Option.bind (vp_node_meta p (pi_id item)) (\<lambda>m. parse_origin (nm_origin m)) of
        Some OriginExpand \<Rightarrow> s\<lparr>gr_from_expansion := gr_from_expansion s + 1\<rparr>
      | Some OriginGap \<Rightarrow> s\<lparr>gr_from_gaps := gr_from_gaps s + 1\<rparr>
      | Some OriginGate \<Rightarrow> s\<lparr>gr_gates := gr_gates s + 1\<rparr>
      | Some OriginSeed \<Rightarrow> s\<lparr>gr_seeded := gr_seeded s + 1\<rparr>
      | None \<Rightarrow> s\<lparr>gr_seeded := gr_seeded s + 1\<rparr>)"

definition growth_stats :: "VersionedPlan \<Rightarrow> GrowthStats" where
  "growth_stats p = foldl (count_origin p)
     \<lparr>gr_seeded = 0, gr_from_expansion = 0, gr_from_gaps = 0, gr_gates = 0\<rparr> (vp_items p)"

definition low_confidence_completed_ids ::
  "(string \<Rightarrow> HandoffArtifact option) \<Rightarrow> VersionedPlan \<Rightarrow> string list" where
  "low_confidence_completed_ids dec p = map pi_id
     (filter (\<lambda>item. case vp_node_meta p (pi_id item) of
          None \<Rightarrow> False
        | Some meta \<Rightarrow> if nm_is_gate meta then False
            else Option.bind (Option.bind (nm_artifact_json meta) dec) confidence_level = Some ConfLow)
       (filter (\<lambda>item. is_completed_status (pi_status item)) (vp_items p)))"

section \<open>Lemmas\<close>

lemma parse_mode_str: "parse_mode (mode_str m) = m"
  by (cases m) (simp only: mode_str.simps, code_simp)+

lemma parse_kind_str: "parse_kind (Some (kind_str k)) = k"
  by (cases k) (simp only: kind_str.simps, code_simp)+

lemma parse_origin_str: "parse_origin (map_option origin_str orig) = orig"
proof (cases orig)
  case None
  then show ?thesis by (simp add: parse_origin_def)
next
  case (Some x)
  then show ?thesis unfolding Some by (cases x) (simp only: option.map origin_str.simps, code_simp)+
qed

lemma status_from_to: "status_from_plan (status_to_plan s) = s"
  by (cases s) (simp_all add: status_from_plan_def)

lemma priority_rank_string: "r \<le> 2 \<Longrightarrow> priority_rank (priority_string r) = r"
proof -
  assume "r \<le> 2"
  then have "unat r \<le> 2" by (simp add: word_le_nat_alt)
  then have "unat r = 0 \<or> unat r = 1 \<or> unat r = 2" by linarith
  then have "r = 0 \<or> r = 1 \<or> r = 2" 
    by (auto simp: word_unat_eq_iff)
  then show ?thesis by (auto simp: priority_rank_def priority_string_def)
qed

lemma to_task_graph_nodes: "tg_nodes (to_task_graph dec p) = map (lift_item dec p) (vp_items p)"
  "tg_mode (to_task_graph dec p) = parse_mode (vp_mode p)"
proof -
  have "tg_nodes (foldl (\<lambda>g item. tg_push g (lift_item dec p item)) g items) = tg_nodes g @ map (lift_item dec p) items \<and>
      tg_mode (foldl (\<lambda>g item. tg_push g (lift_item dec p item)) g items) = tg_mode g" for g items
    by (induction items arbitrary: g) (simp_all add: graph.elems_push)
  then show "tg_nodes (to_task_graph dec p) = map (lift_item dec p) (vp_items p)"
    "tg_mode (to_task_graph dec p) = parse_mode (vp_mode p)"
    by (simp_all add: to_task_graph_def task_graph_new_def)
qed

lemma foldl_map_upd:
  assumes "distinct (map k xs)" and "x \<in> set xs"
  shows "foldl (\<lambda>m x. m(k x \<mapsto> v x)) m0 xs (k x) = Some (v x)"
proof -
  have other: "foldl (\<lambda>m x. m(k x \<mapsto> v x)) m ys j = m j" if "j \<notin> k ` set ys" for m j ys
    using that by (induction ys arbitrary: m) auto
  show ?thesis using assms
  proof (induction xs arbitrary: m0)
    case (Cons y ys)
    show ?case
    proof (cases "x \<in> set ys")
      case True
      then show ?thesis using Cons by simp
    next
      case False
      then have "x = y" "k y \<notin> k ` set ys" using Cons.prems by auto
      then show ?thesis using other [of "k y" ys "m0(k y \<mapsto> v y)"]
        by (simp only: foldl_Cons fun_upd_same not_False_eq_True True_implies_equals)
    qed
  qed simp
qed

lemma prior_items_find:
  "distinct (plan_ids (vp_items p)) \<Longrightarrow> x \<in> set (vp_items p) \<Longrightarrow> prior_items p (pi_id x) = Some x"
  unfolding prior_items_def plan_ids_def by (rule foldl_map_upd)

lemma find_key_map:
  "(\<And>x. k (f x) = k' x) \<Longrightarrow> find_key k i (map f xs) = map_option f (find_key k' i xs)"
  by (induction xs) auto

lemma lift_item_id [simp]: "tn_id (lift_item dec p item) = pi_id item"
  by (simp add: lift_item_def Let_def)

lemma lift_get: "tg_get (to_task_graph dec p) i = map_option (lift_item dec p) (find_item p i)"
  unfolding tg_get_def to_task_graph_nodes find_item_def by (rule find_key_map) simp

text \<open>A plan whose statuses the engine knows: no free-form waiting status such as \<open>blocked\<close>.\<close>

definition known_status :: "string \<Rightarrow> bool" where
  "known_status s \<longleftrightarrow> is_runnable_status s \<or> is_active_status s \<or> is_terminal_status s"

lemma status_from_queued: "known_status s \<Longrightarrow> status_from_plan s = NodeQueued \<longleftrightarrow> is_runnable_status s"
  by (auto simp: known_status_def status_from_plan_def is_runnable_status_def is_active_status_def
      is_terminal_status_def)

lemma status_from_done: "status_from_plan s = NodeDone \<longleftrightarrow> is_completed_status s"
  by (auto simp: status_from_plan_def is_completed_status_def)

lemma lift_ready_iff:
  assumes d: "distinct (plan_ids (vp_items p))" and ac: "cycle_item_ids (vp_items p) = []"
    and k: "known_status (pi_status x)"
  shows "tn_status (lift_item dec p x) = NodeQueued \<and> deps_satisfied (to_task_graph dec p) (lift_item dec p x) \<longleftrightarrow>
    item_ready (vp_items p) x"
proof -
  have "(\<exists>m. tg_get (to_task_graph dec p) i = Some m \<and> is_done m) \<longleftrightarrow> i \<in> completed_item_ids (vp_items p)" for i
    unfolding lift_get
    by (auto simp: find_item_Some [OF d] is_done_def lift_item_def Let_def status_from_done completed_item_ids_def)
  then have "deps_satisfied (to_task_graph dec p) (lift_item dec p x) \<longleftrightarrow>
      set (pi_blocked_by x) \<subseteq> completed_item_ids (vp_items p)"
    by (auto simp: deps_satisfied_iff lift_item_def Let_def)
  then show ?thesis using ac status_from_queued [OF k] by (simp add: item_ready_iff lift_item_def Let_def)
qed

section \<open>Properties\<close>

text \<open>C8 The stored plan's scheduler and the engine's agree: for an acyclic plan with distinct ids and
  statuses the engine knows, the runnable ids of the plan are, in the same order, the ids of the ready
  nodes of the lifted graph.\<close>

theorem schedulers_agree:
  assumes "distinct (plan_ids (vp_items p))" and "cycle_item_ids (vp_items p) = []"
    and "\<forall>x \<in> set (vp_items p). known_status (pi_status x)"
  shows "next_runnable_item_ids (vp_items p) None = map tn_id (ready_nodes (to_task_graph dec p))"
proof -
  have "filter (\<lambda>x. tn_status (lift_item dec p x) = NodeQueued \<and>
      deps_satisfied (to_task_graph dec p) (lift_item dec p x)) (vp_items p) = filter (item_ready (vp_items p)) (vp_items p)"
    using lift_ready_iff [OF assms(1,2)] assms(3) by (intro filter_cong refl) blast
  moreover have "sched_key (lift_item dec p x) = run_key x" for x
    by (simp add: sched_key_def run_key_def lift_item_def Let_def)
  ultimately show ?thesis
    by (simp add: next_runnable_unlimited [OF assms(1)] ready_nodes_def to_task_graph_nodes filter_map
        sort_key_map comp_def)
qed

theorem schedulers_agree_witness:
  "map tn_id (ready_nodes (to_task_graph (\<lambda>_. None) demo_plan)) = [''a'', ''b'']"
proof -
  have items: "vp_items demo_plan = demo_items" by (simp add: demo_plan_def)
  have "distinct (plan_ids (vp_items demo_plan))" unfolding items by code_simp
  moreover have "cycle_item_ids (vp_items demo_plan) = []" unfolding items by code_simp
  moreover have "\<forall>x \<in> set (vp_items demo_plan). known_status (pi_status x)" unfolding items by code_simp
  ultimately have "next_runnable_item_ids (vp_items demo_plan) None =
      map tn_id (ready_nodes (to_task_graph (\<lambda>_. None) demo_plan))" by (rule schedulers_agree)
  moreover have "next_runnable_item_ids (vp_items demo_plan) None = [''a'', ''b'']" unfolding items by code_simp
  ultimately show ?thesis by simp
qed

text \<open>C9 Storing a graph and lifting it back loses nothing, provided its ids are distinct, its artifacts
  survive the JSON codec, and each node's rank is the one its stored priority text stands for, or at
  most 2 for a node the plan does not know yet.\<close>

theorem store_lift_roundtrip:
  assumes "distinct (dag_ids g)"
    and "\<And>n a. n \<in> set (tg_nodes g) \<Longrightarrow> tn_output n = Some a \<Longrightarrow> \<exists>s. enc a = Some s \<and> dec s = Some a"
    and "\<And>n. n \<in> set (tg_nodes g) \<Longrightarrow> (case prior_items p (tn_id n) of
      Some q \<Rightarrow> priority_rank (pi_priority q) = tn_priority n | None \<Rightarrow> tn_priority n \<le> 2)"
  shows "to_task_graph dec (apply_task_graph enc p g) = g"
proof -
  let ?p = "p\<lparr>vp_mode := mode_str (tg_mode g)\<rparr>" and ?q = "apply_task_graph enc p g"
  have items: "vp_items ?q = map (lower_node ?p) (tg_nodes g)"
    by (simp add: apply_task_graph_def Let_def replace_items_def prune_side_maps_def)
  have stored: "vp_node_meta ?q (tn_id n) = Some (lower_meta enc n)" if "n \<in> set (tg_nodes g)" for n
    using foldl_map_upd [of tn_id "tg_nodes g" n "lower_meta enc" "\<lambda>_. None"] assms(1) that
    by (simp add: apply_task_graph_def Let_def dag_ids_def)
  have prior: "prior_items ?p = prior_items p" by (simp add: prior_items_def)
  have restored: "lift_item dec ?q (lower_node ?p n) = n" if n: "n \<in> set (tg_nodes g)" for n
  proof -
    have id: "pi_id (lower_node ?p n) = tn_id n" by (simp add: lower_node_def Let_def)
    have m: "meta_of ?q (tn_id n) = lower_meta enc n" using stored [OF n] by (simp add: meta_of_def)
    have out: "Option.bind (Option.bind (tn_output n) enc) dec = tn_output n"
      using assms(2) [OF n] by (cases "tn_output n") auto
    have prio: "priority_rank (pi_priority (lower_node ?p n)) = tn_priority n"
      using assms(3) [OF n] prior
      by (auto simp: lower_node_def Let_def priority_rank_string split: option.splits)
    show ?thesis
      unfolding lift_item_def Let_def id m prio
      by (rule TaskNode.equality)
        (simp_all add: lower_node_def lower_meta_def Let_def parse_kind_str parse_origin_str status_from_to
          out [simplified])
  qed
  have "tg_nodes (to_task_graph dec ?q) = tg_nodes g"
    unfolding to_task_graph_nodes items map_map using restored by (intro map_idI) simp
  moreover have "tg_mode (to_task_graph dec ?q) = tg_mode g"
    by (simp add: to_task_graph_nodes apply_task_graph_def Let_def replace_items_def prune_side_maps_def parse_mode_str)
  ultimately show ?thesis by simp
qed

theorem store_lift_roundtrip_witness:
  "to_task_graph (\<lambda>s. Some (brief s)) (apply_task_graph (\<lambda>a. Some (ha_findings a)) plan_new
     (demo_graph\<lparr>tg_nodes := map (\<lambda>n. n\<lparr>tn_output := Some (brief ''ok'')\<rparr>) (tg_nodes demo_graph)\<rparr>)) =
   demo_graph\<lparr>tg_nodes := map (\<lambda>n. n\<lparr>tn_output := Some (brief ''ok'')\<rparr>) (tg_nodes demo_graph)\<rparr>"
proof (rule store_lift_roundtrip)
  show "distinct (dag_ids (demo_graph\<lparr>tg_nodes := map (\<lambda>n. n\<lparr>tn_output := Some (brief ''ok'')\<rparr>) (tg_nodes demo_graph)\<rparr>))"
    by code_simp
qed (auto simp: demo_graph_def demo_node_def brief_def artifact_default_def prior_items_def plan_new_def)

text \<open>A node with rank above 2 that is stored as a new item comes back with rank 1: it overtakes every
  node of rank 2 it was to run after.\<close>

theorem priority_inverted_by_storage:
  assumes "r > 2"
  shows "priority_rank (priority_string r) = 1 \<and> priority_rank (priority_string r) < priority_rank (priority_string 2)"
proof -
  have "r \<noteq> 0" "r \<noteq> 2" using assms by auto
  then have "priority_string r = ''medium''" by (simp add: priority_string_def)
  then show ?thesis by (simp add: priority_rank_def priority_string_def)
qed

theorem priority_inverted_by_storage_witness: "priority_rank (priority_string 7) = 1"
  using priority_inverted_by_storage [of 7] by simp

text \<open>Every item is counted once by the growth accounting: the four counters add up to the number of
  items, and the grown nodes are those that were not seeded.\<close>

theorem growth_stats_total:
  "growth_total (growth_stats p) = length (vp_items p) \<and>
   growth_grown (growth_stats p) + gr_seeded (growth_stats p) = length (vp_items p) \<and>
   gr_gates (growth_stats p) = length (filter (\<lambda>i.
     Option.bind (vp_node_meta p (pi_id i)) (\<lambda>m. parse_origin (nm_origin m)) = Some OriginGate) (vp_items p))"
proof -
  have "growth_total (foldl (count_origin p) s items) = growth_total s + length items \<and>
      gr_gates (foldl (count_origin p) s items) = gr_gates s + length (filter (\<lambda>i.
        Option.bind (vp_node_meta p (pi_id i)) (\<lambda>m. parse_origin (nm_origin m)) = Some OriginGate) items)" for s items
  proof (induction items arbitrary: s)
    case (Cons i items)
    have "growth_total (count_origin p s i) = growth_total s + 1"
      "gr_gates (count_origin p s i) = gr_gates s + (if Option.bind (vp_node_meta p (pi_id i)) (\<lambda>m. parse_origin (nm_origin m)) = Some OriginGate
        then 1 else 0)"
      by (auto simp: count_origin_def growth_total_def split: option.splits NodeOrigin.splits)
    then show ?case using Cons by simp
  qed simp
  from this [of "\<lparr>gr_seeded = 0, gr_from_expansion = 0, gr_from_gaps = 0, gr_gates = 0\<rparr>" "vp_items p"]
  show ?thesis unfolding growth_stats_def growth_total_def growth_grown_def by simp
qed

end
