(* ===== verification/Risk_Tokenize.thy ===== *)
theory Risk_Tokenize
  imports Prelude
begin

text \<open>
  The shell tokenizer of the command-risk gate (\<open>crates/jcode-command-risk/src/tokenize.rs\<close>): tokens,
  the character loop with its quotes, escapes, operators and redirects, and the splitting of a line
  into command segments. Text is UTF-8 bytes: every character the loop looks at is ASCII, so the byte
  loop and the loop over Unicode scalar values build the same tokens. The two inner \<open>while\<close> loops
  that consume a quoted stretch are \<open>take_single\<close> and \<open>take_double\<close>.
\<close>

section \<open>Tokens\<close>

record Token =
  tok_text :: string
  tok_receives_pipe :: bool
  tok_is_truncating :: bool
  tok_is_operator :: bool

definition token_word :: "string \<Rightarrow> Token" where
  "token_word s = \<lparr>tok_text = s, tok_receives_pipe = False, tok_is_truncating = False, tok_is_operator = False\<rparr>"

definition token_op :: "string \<Rightarrow> Token" where
  "token_op s = (token_word s)\<lparr>tok_is_operator := True\<rparr>"

definition basename :: "Token \<Rightarrow> string" where
  "basename t = rev (takeWhile (\<lambda>c. c \<noteq> CHR 0x2F) (rev (tok_text t)))"

definition is_flag :: "Token \<Rightarrow> bool" where
  "is_flag t \<longleftrightarrow> starts_with (tok_text t) ''-'' \<and> length (tok_text t) > 1"

definition is_recursive_flag :: "Token \<Rightarrow> bool" where
  "is_recursive_flag t = (if \<not> is_flag t then False
     else if starts_with (tok_text t) ''--'' then tok_text t = ''--recursive''
     else CHR ''r'' \<in> set (tok_text t) \<or> CHR ''R'' \<in> set (tok_text t))"

section \<open>The character loop\<close>

text \<open>The text up to the closing single quote, and the rest after it.\<close>

fun take_single :: "string \<Rightarrow> string \<times> string" where
  "take_single [] = ([], [])"
| "take_single (q # cs) =
     (if q = CHR 0x27 then ([], cs) else (q # fst (take_single cs), snd (take_single cs)))"

text \<open>The text up to the closing double quote; a backslash escapes only the four characters the shell
  escapes there.\<close>

fun take_double :: "string \<Rightarrow> string \<times> string" where
  "take_double [] = ([], [])"
| "take_double [q] = (if q = CHR 0x22 then ([], []) else ([q], []))"
| "take_double (q # n # cs) =
     (if q = CHR 0x22 then ([], n # cs)
      else if q = CHR 0x5C \<and> (n = CHR 0x22 \<or> n = CHR 0x5C \<or> n = CHR 0x24 \<or> n = CHR 0x60)
      then (n # fst (take_double cs), snd (take_double cs))
      else (q # fst (take_double (n # cs)), snd (take_double (n # cs))))"

record LexState =
  lx_tokens :: "Token list"
  lx_current :: string
  lx_has_content :: bool
  lx_pending_redirect :: bool

definition flush :: "LexState \<Rightarrow> LexState" where
  "flush s = (if lx_has_content s
     then s\<lparr>lx_tokens := lx_tokens s @ [(token_word (lx_current s))\<lparr>tok_is_truncating := lx_pending_redirect s\<rparr>],
            lx_current := [], lx_has_content := False, lx_pending_redirect := False\<rparr>
     else s)"

definition push_text :: "string \<Rightarrow> LexState \<Rightarrow> LexState" where
  "push_text t s = s\<lparr>lx_current := lx_current s @ t, lx_has_content := True\<rparr>"

definition push_op :: "string \<Rightarrow> LexState \<Rightarrow> LexState" where
  "push_op t s = s\<lparr>lx_tokens := lx_tokens s @ [token_op t]\<rparr>"

lemma length_take_single: "length (snd (take_single cs)) \<le> length cs"
  by (induction cs) auto

lemma length_take_double: "length (snd (take_double cs)) \<le> length cs"
  by (induction cs rule: take_double.induct) auto

text \<open>One round of \<open>while let Some(c)\<close>: the new state and the characters left.\<close>

definition lex_step :: "LexState \<Rightarrow> char \<Rightarrow> string \<Rightarrow> LexState \<times> string" where
  "lex_step s c cs =
     (if c = CHR 0x27 then (push_text (fst (take_single cs)) s, snd (take_single cs))
      else if c = CHR 0x22 then (push_text (fst (take_double cs)) s, snd (take_double cs))
      else if c = CHR 0x5C then
        (case cs of
           [] \<Rightarrow> (s, [])
         | n # r \<Rightarrow> if n = nl then (s, r) else (push_text [n] s, r))
      else if c = CHR 0x20 \<or> c = CHR 0x09 then (flush s, cs)
      else if c = nl \<or> c = CHR 0x3B then (push_op [c] (flush s), cs)
      else if c = CHR 0x26 \<or> c = CHR 0x7C then
        (case cs of
           [] \<Rightarrow> (push_op [c] (flush s), [])
         | n # r \<Rightarrow> if n = c then (push_op [c, c] (flush s), r) else (push_op [c] (flush s), n # r))
      else if c = CHR 0x3E then
        (case cs of
           [] \<Rightarrow> ((flush s)\<lparr>lx_pending_redirect := True\<rparr>, [])
         | n # r \<Rightarrow> if n = CHR 0x3E then (flush s, r)
                   else if n = CHR 0x7C then ((flush s)\<lparr>lx_pending_redirect := True\<rparr>, r)
                   else ((flush s)\<lparr>lx_pending_redirect := True\<rparr>, n # r))
      else if c = CHR 0x3C then (flush s, cs)
      else (push_text [c] s, cs))"

lemma lex_step_shrinks: "length (snd (lex_step s c cs)) \<le> length cs"
  by (simp add: lex_step_def length_take_single length_take_double split: list.split)

function lex_loop :: "LexState \<Rightarrow> string \<Rightarrow> LexState" where
  "lex_loop s [] = s"
| "lex_loop s (c # cs) = lex_loop (fst (lex_step s c cs)) (snd (lex_step s c cs))"
  by pat_completeness auto
termination
  by (relation "measure (length \<circ> snd)") (simp_all add: lex_step_shrinks less_Suc_eq_le)

definition lex_start :: "Token list \<Rightarrow> LexState" where
  "lex_start ts = \<lparr>lx_tokens = ts, lx_current = [], lx_has_content = False, lx_pending_redirect = False\<rparr>"

definition tokenize :: "string \<Rightarrow> Token list" where
  "tokenize command = lx_tokens (flush (lex_loop (lex_start []) command))"

section \<open>Segments\<close>

definition SEGMENT_SEPARATORS :: "string list" where
  "SEGMENT_SEPARATORS = [''&&'', ''||'', '';'', ''|'', [nl]]"

definition is_separator :: "Token \<Rightarrow> bool" where
  "is_separator t \<longleftrightarrow> tok_is_operator t \<and> tok_text t \<in> set SEGMENT_SEPARATORS"

text \<open>The loop state: the finished segments, the current one, whether the next word is fed by a pipe.\<close>

fun split_loop :: "Token list list \<Rightarrow> Token list \<Rightarrow> bool \<Rightarrow> Token list \<Rightarrow> Token list list" where
  "split_loop segments current next_pipe [] =
     (if current \<noteq> [] then segments @ [current] else segments)"
| "split_loop segments current next_pipe (token # tokens) =
     (if is_separator token
      then split_loop (if current \<noteq> [] then segments @ [current] else segments) [] (tok_text token = ''|'') tokens
      else split_loop segments (current @ [token\<lparr>tok_receives_pipe := next_pipe\<rparr>]) next_pipe tokens)"

definition split_segments :: "string \<Rightarrow> Token list list" where
  "split_segments command = split_loop [] [] False (tokenize command)"

section \<open>No text is invented\<close>

text \<open>The characters of a token list.\<close>

definition text_size :: "Token list \<Rightarrow> nat" where
  "text_size ts = sum_list (map (\<lambda>t. length (tok_text t)) ts)"

lemma text_size_simps [simp]:
  "text_size [] = 0"
  "text_size (t # ts) = length (tok_text t) + text_size ts"
  "text_size (ts @ us) = text_size ts + text_size us"
  by (simp_all add: text_size_def)

lemma token_word_sel [simp]: "tok_text (token_word s) = s" "\<not> tok_is_operator (token_word s)"
  "\<not> tok_receives_pipe (token_word s)" "\<not> tok_is_truncating (token_word s)"
  by (simp_all add: token_word_def)

lemma token_op_sel [simp]: "tok_text (token_op s) = s" "tok_is_operator (token_op s)"
  by (simp_all add: token_op_def)

lemma length_take_single_parts: "length (fst (take_single cs)) + length (snd (take_single cs)) \<le> length cs"
  by (induction cs) auto

lemma length_take_double_parts: "length (fst (take_double cs)) + length (snd (take_double cs)) \<le> length cs"
  by (induction cs rule: take_double.induct) auto

definition lex_size :: "LexState \<Rightarrow> nat" where
  "lex_size s = text_size (lx_tokens s) + length (lx_current s)"

lemma lex_size_steps:
  "lex_size (flush s) \<le> lex_size s"
  "lex_size (push_text t s) = lex_size s + length t"
  "lex_size (push_op t s) = lex_size s + length t"
  "lex_size (s\<lparr>lx_pending_redirect := b\<rparr>) = lex_size s"
  by (auto simp: lex_size_def flush_def push_text_def push_op_def)

lemma lex_step_size:
  "lex_size (fst (lex_step s c cs)) + length (snd (lex_step s c cs)) \<le> lex_size s + Suc (length cs)"
proof -
  have f: "lex_size (flush s) \<le> lex_size s" by (rule lex_size_steps)
  show ?thesis
    using length_take_single_parts [of cs] length_take_double_parts [of cs]
    by (simp add: lex_step_def lex_size_steps le_SucI [OF f] le_SucI [OF le_SucI [OF f]] f split: list.split)
qed

lemma lex_loop_size: "lex_size (lex_loop s cs) \<le> lex_size s + length cs"
proof (induction s cs rule: lex_loop.induct)
  case (2 s c cs)
  show ?case using 2 lex_step_size [of s c cs] by simp
qed simp

lemma text_size_tokenize: "text_size (tokenize s) \<le> length s"
proof -
  let ?l = "lex_loop (lex_start []) s"
  have "text_size (lx_tokens (flush ?l)) \<le> lex_size (flush ?l)" by (simp add: lex_size_def)
  also have "\<dots> \<le> lex_size (lex_start []) + length s"
    using lex_loop_size [of "lex_start []" s] lex_size_steps(1) [of ?l] by simp
  finally show ?thesis by (simp add: tokenize_def lex_size_def lex_start_def)
qed

lemma split_loop_size:
  "sum_list (map text_size (split_loop segs cur p ts)) \<le> sum_list (map text_size segs) + text_size cur + text_size ts"
  by (induction segs cur p ts rule: split_loop.induct) (auto simp: le_SucI)

lemma text_size_segment: "seg \<in> set (split_segments s) \<Longrightarrow> text_size seg \<le> length s"
proof -
  assume "seg \<in> set (split_segments s)"
  then have "text_size seg \<le> sum_list (map text_size (split_segments s))" by (simp add: member_le_sum_list)
  also have "\<dots> \<le> text_size (tokenize s)"
    using split_loop_size [of "[]" "[]" False] by (simp add: split_segments_def)
  also have "\<dots> \<le> length s" by (rule text_size_tokenize)
  finally show ?thesis .
qed

section \<open>Spelled-out commands\<close>

text \<open>How a script writes one word: in single quotes, or bare when it has no special character.\<close>

definition special_chars :: "char set" where
  "special_chars = {CHR 0x27, CHR 0x22, CHR 0x5C, CHR 0x20, CHR 0x09, nl, CHR 0x3B, CHR 0x26, CHR 0x7C,
     CHR 0x3E, CHR 0x3C}"

definition spells :: "string \<Rightarrow> string \<Rightarrow> bool" where
  "spells t w \<longleftrightarrow> (t = quoted w \<and> CHR 0x27 \<notin> set w) \<or> (t = w \<and> w \<noteq> [] \<and> set w \<inter> special_chars = {})"

text \<open>A command is its words, a blank after each; a script is commands, a separator after each.\<close>

definition command_text :: "string list \<Rightarrow> string" where
  "command_text ts = concat (map (\<lambda>t. t @ '' '') ts)"

definition script_text :: "(string list \<times> string) list \<Rightarrow> string" where
  "script_text cmds = concat (map (\<lambda>(ts, sep). command_text ts @ sep @ '' '') cmds)"

lemma take_single_quoted: "CHR 0x27 \<notin> set w \<Longrightarrow> take_single (w @ CHR 0x27 # r) = (w, r)"
  by (induction w) auto

lemma lex_plain:
  assumes "set w \<inter> special_chars = {}" and "w \<noteq> []"
  shows "lex_loop s (w @ r) = lex_loop (push_text w s) r"
  using assms
proof (induction w arbitrary: s)
  case (Cons c w)
  have "c \<notin> special_chars" and w: "set w \<inter> special_chars = {}" using Cons.prems(1) by auto
  then have step: "lex_step s c (w @ r) = (push_text [c] s, w @ r)"
    by (simp add: lex_step_def special_chars_def)
  show ?case
  proof (cases "w = []")
    case True
    then show ?thesis using step by simp
  next
    case False
    then have "lex_loop (push_text [c] s) (w @ r) = lex_loop (push_text w (push_text [c] s)) r"
      using Cons.IH [OF w] by simp
    then show ?thesis using step by (simp add: push_text_def)
  qed
qed simp

lemma lex_quoted:
  "CHR 0x27 \<notin> set w \<Longrightarrow> lex_loop s (quoted w @ r) = lex_loop (push_text w s) r"
  by (simp add: quoted_def lex_step_def take_single_quoted)

lemma lex_word:
  assumes "spells t w"
  shows "lex_loop (lex_start ts) (t @ '' '' @ r) = lex_loop (lex_start (ts @ [token_word w])) r"
proof -
  have "lex_loop (lex_start ts) (t @ '' '' @ r) = lex_loop (push_text w (lex_start ts)) (CHR 0x20 # r)"
    using assms by (auto simp: spells_def lex_plain lex_quoted)
  then show ?thesis
    by (simp add: lex_step_def flush_def push_text_def lex_start_def token_word_def)
qed

lemma lex_words:
  "list_all2 spells ts ws \<Longrightarrow>
   lex_loop (lex_start toks) (command_text ts @ r) = lex_loop (lex_start (toks @ map token_word ws)) r"
proof (induction ts ws arbitrary: toks rule: list_all2_induct)
  case (Cons t ts w ws)
  have "lex_loop (lex_start toks) (t @ '' '' @ (command_text ts @ r)) =
      lex_loop (lex_start (toks @ [token_word w])) (command_text ts @ r)"
    using Cons(1) by (rule lex_word)
  then show ?case using Cons.IH [of "toks @ [token_word w]"] by (simp add: command_text_def)
qed (simp add: command_text_def)

lemma lex_separator:
  "sep \<in> set SEGMENT_SEPARATORS \<Longrightarrow>
   lex_loop (lex_start ts) (sep @ '' '' @ r) = lex_loop (lex_start (ts @ [token_op sep])) r"
  by (auto simp: SEGMENT_SEPARATORS_def lex_step_def flush_def push_op_def lex_start_def)

text \<open>A script and what it is meant to run.\<close>

definition script_of :: "(string list \<times> string) list \<Rightarrow> string list list \<Rightarrow> bool" where
  "script_of cmds argvs = list_all2 (\<lambda>(ts, sep) ws. ws \<noteq> [] \<and> list_all2 spells ts ws \<and>
     sep \<in> set SEGMENT_SEPARATORS) cmds argvs"

lemma lex_script:
  "script_of cmds argvs \<Longrightarrow>
   lex_loop (lex_start toks) (script_text cmds @ r) =
   lex_loop (lex_start (toks @ concat (map2 (\<lambda>c ws. map token_word ws @ [token_op (snd c)]) cmds argvs))) r"
  unfolding script_of_def
proof (induction cmds argvs arbitrary: toks rule: list_all2_induct)
  case (Cons c cmds ws argvs)
  obtain ts sep where c: "c = (ts, sep)" by (cases c)
  have h: "list_all2 spells ts ws" "sep \<in> set SEGMENT_SEPARATORS" using Cons(1) c by auto
  let ?r = "script_text cmds @ r"
  have "lex_loop (lex_start toks) (command_text ts @ (sep @ '' '' @ ?r)) =
      lex_loop (lex_start ((toks @ map token_word ws) @ [token_op sep])) ?r"
    unfolding lex_words [OF h(1)] by (rule lex_separator [OF h(2)])
  then show ?case using Cons.IH c by (simp add: script_text_def)
qed (simp add: script_text_def)

lemma split_loop_words:
  "split_loop segs cur p (map token_word ws @ ts) =
   split_loop segs (cur @ map (\<lambda>w. (token_word w)\<lparr>tok_receives_pipe := p\<rparr>) ws) p ts"
proof (induction ws arbitrary: cur)
  case (Cons w ws)
  have "\<not> is_separator (token_word w)" by (simp add: is_separator_def)
  then show ?case using Cons.IH by simp
qed simp

definition segment_of :: "bool \<Rightarrow> string list \<Rightarrow> Token list" where
  "segment_of p ws = map (\<lambda>w. (token_word w)\<lparr>tok_receives_pipe := p\<rparr>) ws"

lemma split_loop_script:
  "script_of cmds argvs \<Longrightarrow>
   split_loop segs [] p (concat (map2 (\<lambda>c ws. map token_word ws @ [token_op (snd c)]) cmds argvs)) =
   segs @ map2 segment_of (p # map (\<lambda>c. snd c = ''|'') cmds) argvs"
  unfolding script_of_def
proof (induction cmds argvs arbitrary: segs p rule: list_all2_induct)
  case (Cons c cmds ws argvs)
  have "is_separator (token_op (snd c))" "ws \<noteq> []" using Cons(1) by (auto simp: is_separator_def)
  then show ?case using Cons.IH by (simp add: split_loop_words segment_of_def)
qed simp

lemma script_roundtrip_rule:
  assumes "script_of cmds argvs"
  shows "split_segments (script_text cmds) = map2 segment_of (False # map (\<lambda>c. snd c = ''|'') cmds) argvs"
proof -
  have "tokenize (script_text cmds) = concat (map2 (\<lambda>c ws. map token_word ws @ [token_op (snd c)]) cmds argvs)"
    using lex_script [OF assms, of "[]" "[]"] by (simp add: tokenize_def flush_def lex_start_def)
  then show ?thesis using split_loop_script [OF assms, of "[]" False] by (simp add: split_segments_def)
qed

section \<open>Properties\<close>

text \<open>C12 Splitting a script gives back the commands it was written from: each word whatever characters it
  holds, each command as its own segment, marked when a pipe feeds it. No spelling, quoting or chaining
  hides a command from the assessment.\<close>

theorem script_roundtrip:
  assumes "script_of cmds argvs"
  shows "split_segments (script_text cmds) = map2 segment_of (False # map (\<lambda>c. snd c = ''|'') cmds) argvs"
  using assms by (rule script_roundtrip_rule)

definition demo_script :: "(string list \<times> string) list" where
  "demo_script = [([''ls'', quoted ''a b''], ''|''), ([quoted ''rm'', ''-rf'', quoted ''~''], '';'')]"

theorem script_roundtrip_witness:
  "split_segments (script_text demo_script) = [segment_of False [''ls'', ''a b''], segment_of True [''rm'', ''-rf'', ''~'']]"
proof -
  have "script_of demo_script [[''ls'', ''a b''], [''rm'', ''-rf'', ''~'']]"
    by (simp add: script_of_def demo_script_def spells_def special_chars_def SEGMENT_SEPARATORS_def)
  then have "split_segments (script_text demo_script) =
      map2 segment_of (False # map (\<lambda>c. snd c = ''|'') demo_script) [[''ls'', ''a b''], [''rm'', ''-rf'', ''~'']]"
    by (rule script_roundtrip)
  then show ?thesis by (simp add: demo_script_def)
qed

end
