(* ===== verification/Risk_Paths.thy ===== *)
theory Risk_Paths
  imports Prelude
begin

text \<open>
  Path classification of the command-risk gate (\<open>crates/jcode-command-risk/src/paths.rs\<close>), with the
  levels, findings and the context of \<open>lib.rs\<close>. A \<open>PathBuf\<close> is its text; \<open>path_components\<close> parses it the
  way \<open>std::path\<close> does on Unix, and paths are compared by components. \<open>to_string_lossy\<close> and
  \<open>display\<close> are the identity: paths are UTF-8.
\<close>

section \<open>Levels, findings, context (lib.rs)\<close>

datatype RiskLevel = Safe | Low | Confirm | Catastrophic

fun level_rank :: "RiskLevel \<Rightarrow> nat" where
  "level_rank Safe = 0"
| "level_rank Low = 1"
| "level_rank Confirm = 2"
| "level_rank Catastrophic = 3"

lemma level_rank_inject: "level_rank a = level_rank b \<longleftrightarrow> a = b"
  by (cases a; cases b) simp_all

text \<open>The derived order of the enum.\<close>

instantiation RiskLevel :: linorder
begin

definition less_eq_RiskLevel :: "RiskLevel \<Rightarrow> RiskLevel \<Rightarrow> bool" where
  "less_eq_RiskLevel a b \<longleftrightarrow> level_rank a \<le> level_rank b"

definition less_RiskLevel :: "RiskLevel \<Rightarrow> RiskLevel \<Rightarrow> bool" where
  "less_RiskLevel a b \<longleftrightarrow> level_rank a < level_rank b"

instance
  by standard (auto simp: less_eq_RiskLevel_def less_RiskLevel_def level_rank_inject [symmetric])

end

definition runs_immediately :: "RiskLevel \<Rightarrow> bool" where
  "runs_immediately l \<longleftrightarrow> l = Safe \<or> l = Low"

definition is_absolute_deny :: "RiskLevel \<Rightarrow> bool" where
  "is_absolute_deny l \<longleftrightarrow> l = Catastrophic"

record RiskFinding =
  rf_level :: RiskLevel
  rf_reason :: string
  rf_target :: "string option"

record RiskContext =
  rc_working_dir :: "string option"
  rc_home_dir :: "string option"

section \<open>Paths (std::path)\<close>

datatype Component = RootDir | CurDir | ParentDir | Normal string

fun split_slash :: "string \<Rightarrow> string list" where
  "split_slash [] = [[]]"
| "split_slash (c # cs) =
     (if c = CHR 0x2F then [] # split_slash cs
      else (case split_slash cs of p # ps \<Rightarrow> (c # p) # ps | [] \<Rightarrow> [[c]]))"

definition component_of :: "string \<Rightarrow> Component option" where
  "component_of p = (if p = [] \<or> p = ''.'' then None
     else if p = ''..'' then Some ParentDir else Some (Normal p))"

definition is_absolute :: "string \<Rightarrow> bool" where
  "is_absolute s \<longleftrightarrow> starts_with s ''/''"

text \<open>A dot is kept only at the front of a relative path.\<close>

definition path_components :: "string \<Rightarrow> Component list" where
  "path_components s =
     (if is_absolute s then [RootDir] else if hd (split_slash s) = ''.'' then [CurDir] else []) @
     List.map_filter component_of (split_slash s)"

fun component_str :: "Component \<Rightarrow> string" where
  "component_str RootDir = ''/''"
| "component_str CurDir = ''.''"
| "component_str ParentDir = ''..''"
| "component_str (Normal n) = n"

definition path_push :: "string \<Rightarrow> string \<Rightarrow> string" where
  "path_push buf p = (if is_absolute p then p
     else if buf = [] \<or> last buf = CHR 0x2F then buf @ p else buf @ ''/'' @ p)"

definition path_of :: "Component list \<Rightarrow> string" where
  "path_of cs = foldl (\<lambda>buf c. path_push buf (component_str c)) [] cs"

definition path_parent :: "string \<Rightarrow> string option" where
  "path_parent s = (case rev (path_components s) of
     [] \<Rightarrow> None | RootDir # _ \<Rightarrow> None | _ # r \<Rightarrow> Some (path_of (rev r)))"

definition path_file_name :: "string \<Rightarrow> string option" where
  "path_file_name s = (case rev (path_components s) of Normal n # _ \<Rightarrow> Some n | _ \<Rightarrow> None)"

definition path_eq :: "string \<Rightarrow> string \<Rightarrow> bool" where
  "path_eq p q \<longleftrightarrow> path_components p = path_components q"

definition path_starts_with :: "string \<Rightarrow> string \<Rightarrow> bool" where
  "path_starts_with p q \<longleftrightarrow>
     take (length (path_components q)) (path_components p) = path_components q"

section \<open>The protected paths\<close>

definition PROTECTED_CREDENTIAL_SUBPATHS :: "string list" where
  "PROTECTED_CREDENTIAL_SUBPATHS = [''.ssh'', ''.gnupg'', ''.aws'', ''.kube'', ''.docker'']"

definition PROTECTED_HOME_SUBPATHS :: "string list" where
  "PROTECTED_HOME_SUBPATHS = [''.config'', ''.jcode'', ''.claude'', ''.local'', ''.local/share'',
     ''Documents'', ''Desktop'']"

definition PROTECTED_SYSTEM_PATHS :: "string list" where
  "PROTECTED_SYSTEM_PATHS = [''/'', ''/bin'', ''/boot'', ''/dev'', ''/etc'', ''/lib'', ''/lib64'', ''/opt'',
     ''/proc'', ''/root'', ''/sbin'', ''/srv'', ''/sys'', ''/usr'', ''/var'', ''/Applications'', ''/System'',
     ''/Library'', ''/Users'', ''/home'']"

definition SYSTEM_PATHS_PROTECTED_RECURSIVELY :: "string list" where
  "SYSTEM_PATHS_PROTECTED_RECURSIVELY = [''/bin'', ''/boot'', ''/dev'', ''/etc'', ''/lib'', ''/lib64'',
     ''/proc'', ''/sbin'', ''/sys'', ''/usr'', ''/var/lib'', ''/System'', ''/Library'']"

section \<open>Resolving a target\<close>

text \<open>\<open>s.replace(pat, rep)\<close>, left to right without overlap.\<close>

function replace_all :: "string \<Rightarrow> string \<Rightarrow> string \<Rightarrow> string" where
  "replace_all pat rep [] = []"
| "replace_all pat rep (c # cs) =
     (case strip_prefix pat (c # cs) of
        Some r \<Rightarrow> if length r < length (c # cs) then rep @ replace_all pat rep r
                  else c # replace_all pat rep cs
      | None \<Rightarrow> c # replace_all pat rep cs)"
  by pat_completeness auto
termination by (relation "measure (\<lambda>(_, _, s). length s)") auto

definition norm_step :: "string \<Rightarrow> Component \<Rightarrow> string" where
  "norm_step out c = (case c of
     ParentDir \<Rightarrow> (case path_parent out of Some p \<Rightarrow> p | None \<Rightarrow> out)
   | CurDir \<Rightarrow> out
   | _ \<Rightarrow> path_push out (component_str c))"

definition normalize_path :: "string \<Rightarrow> string" where
  "normalize_path path = (let out = foldl norm_step [] (path_components path)
     in if out = [] then ''/'' else out)"

definition expand_home :: "string \<Rightarrow> RiskContext \<Rightarrow> string" where
  "expand_home raw ctx = (case rc_home_dir ctx of
     None \<Rightarrow> raw
   | Some home \<Rightarrow>
      (let text = foldl (\<lambda>text var. replace_all var home text) raw [''${HOME}'', ''$HOME'']
       in if text = ''~'' then home
          else (case strip_prefix ''~/'' text of Some rest \<Rightarrow> home @ ''/'' @ rest | None \<Rightarrow> text)))"

definition expand :: "string \<Rightarrow> RiskContext \<Rightarrow> string" where
  "expand raw ctx = (let text = expand_home raw ctx in
     if starts_with text ''~'' then text
     else if is_absolute text then normalize_path text
     else (case rc_working_dir ctx of
        Some cwd \<Rightarrow> normalize_path (path_push cwd text)
      | None \<Rightarrow> text))"

section \<open>Classification\<close>

definition is_benign_device :: "string \<Rightarrow> bool" where
  "is_benign_device path = list_ex (\<lambda>device. path_eq path device)
     [''/dev/null'', ''/dev/stdout'', ''/dev/stderr'', ''/dev/stdin'', ''/dev/tty'']"

definition is_catastrophic_target :: "string \<Rightarrow> RiskContext \<Rightarrow> bool" where
  "is_catastrophic_target raw_path ctx =
     (let path = normalize_path raw_path in
      if is_benign_device path then False
      else if list_ex (\<lambda>p. path_eq path p) PROTECTED_SYSTEM_PATHS then True
      else if list_ex (\<lambda>p. path_starts_with path p) SYSTEM_PATHS_PROTECTED_RECURSIVELY then True
      else (case rc_home_dir ctx of
         None \<Rightarrow> False
       | Some home_dir \<Rightarrow>
          (let home = normalize_path home_dir in
           if path_eq path home then True
           else if list_ex (\<lambda>sub. path_starts_with path (path_push home sub)) PROTECTED_CREDENTIAL_SUBPATHS then True
           else list_ex (\<lambda>sub. path_eq path (path_push home sub)) PROTECTED_HOME_SUBPATHS)))"

definition is_temp_path :: "string \<Rightarrow> bool" where
  "is_temp_path path = list_ex (\<lambda>prefix. path_starts_with path prefix) [''/tmp'', ''/var/tmp'', ''/private/tmp'']"

text \<open>\<open>s.split_once(c)\<close>\<close>

definition split_once :: "char \<Rightarrow> string \<Rightarrow> (string \<times> string) option" where
  "split_once c s = (case dropWhile (\<lambda>x. x \<noteq> c) s of
     [] \<Rightarrow> None | _ # rest \<Rightarrow> Some (takeWhile (\<lambda>x. x \<noteq> c) s, rest))"

text \<open>The last step: inside the working directory, in a temporary directory, or elsewhere.\<close>

definition classify_footprint :: "string \<Rightarrow> bool \<Rightarrow> RiskContext \<Rightarrow> RiskFinding option" where
  "classify_footprint expanded recursive ctx =
     (if (case rc_working_dir ctx of None \<Rightarrow> False | Some cwd \<Rightarrow> path_starts_with expanded (normalize_path cwd))
      then (if recursive then Some \<lparr>rf_level = Low, rf_reason = ''recursive delete inside the working directory'',
              rf_target = Some expanded\<rparr> else None)
      else if is_temp_path expanded then None
      else Some \<lparr>rf_level = Confirm, rf_reason = ''targets a path outside the working directory'',
        rf_target = Some expanded\<rparr>)"

text \<open>\<open>~user\<close>: another account's home as a whole, or a credential store in it.\<close>

definition hits_other_home :: "string \<Rightarrow> bool" where
  "hits_other_home raw \<longleftrightarrow> starts_with raw ''~'' \<and> \<not> starts_with raw ''~/'' \<and>
     (let after_user = (case split_once CHR 0x2F raw of Some (_, rest) \<Rightarrow> rest | None \<Rightarrow> [])
      in after_user = [] \<or> list_ex (\<lambda>sub. after_user = sub \<or> starts_with after_user (sub @ ''/''))
           PROTECTED_CREDENTIAL_SUBPATHS)"

definition classify_target :: "string \<Rightarrow> string \<Rightarrow> bool \<Rightarrow> RiskContext \<Rightarrow> RiskFinding option" where
  "classify_target expanded raw recursive ctx =
     (if CHR ''*'' \<in> set raw \<or> CHR ''?'' \<in> set raw then
        (if (case path_parent expanded of Some parent \<Rightarrow> is_catastrophic_target parent ctx | None \<Rightarrow> False) \<and>
            path_file_name expanded = Some ''*''
         then Some \<lparr>rf_level = Catastrophic,
           rf_reason = ''would destroy the entire contents of a protected directory'', rf_target = Some raw\<rparr>
         else Some \<lparr>rf_level = Confirm, rf_reason = ''target contains a glob, so the exact set of affected files '' @
             ''is not known before execution'', rf_target = Some raw\<rparr>)
      else if is_catastrophic_target expanded ctx then
        Some \<lparr>rf_level = Catastrophic, rf_reason = ''targets a protected system or home path that must never be '' @
          ''destroyed'', rf_target = Some expanded\<rparr>
      else if hits_other_home raw then
        Some \<lparr>rf_level = Catastrophic, rf_reason = (''targets another user'' @ [CHR 0x27]) @ ''s home directory or credential '' @
          ''store, which must never be destroyed'', rf_target = Some raw\<rparr>
      else if CHR ''$'' \<in> set raw \<or> CHR 0x60 \<in> set raw \<or> starts_with raw ''~'' then
        Some \<lparr>rf_level = Confirm, rf_reason = ''target is computed at runtime (variable, command '' @
          (''substitution, or another user'' @ [CHR 0x27]) @ ''s home), so its value '' @
          ''cannot be checked in advance'', rf_target = Some raw\<rparr>
      else if path_starts_with expanded ''/dev'' then
        (if is_benign_device expanded then None
         else Some \<lparr>rf_level = Catastrophic, rf_reason = ''writes directly to a device node, which can destroy a '' @
           ''filesystem or disk'', rf_target = Some expanded\<rparr>)
      else classify_footprint expanded recursive ctx)"

end
