(* ===== verification/Risk_Assess.thy ===== *)
theory Risk_Assess
  imports Risk_Tokenize Risk_Paths
begin

text \<open>
  The assessment of a shell command (\<open>crates/jcode-command-risk/src/lib.rs\<close>): the command lists, the
  unwrapping of prefixes and wrapper programs, the extraction of command substitutions, the assessment
  of one segment (recursive through the script arguments of shells, \<open>su\<close> and \<open>eval\<close>) and of a whole
  command. The \<open>findings\<close> vector a Rust function appends to is the list the definition returns.
\<close>

section \<open>Command lists\<close>

definition DESTRUCTIVE_COMMANDS :: "string list" where
  "DESTRUCTIVE_COMMANDS = [''rm'', ''rmdir'', ''shred'', ''unlink'', ''truncate'', ''dd'', ''mkfs'', ''fdisk'',
     ''parted'', ''wipefs'', ''srm'', ''mv'', ''cp'', ''tee'', ''install'', ''ln'']"

definition WRAPPER_COMMANDS :: "string list" where
  "WRAPPER_COMMANDS = [''sudo'', ''doas'', ''env'', ''nice'', ''ionice'', ''time'', ''timeout'', ''nohup'', ''xargs'',
     ''command'', ''builtin'', ''exec'', ''setsid'', ''stdbuf'', ''chroot'', ''su'', ''watch'', ''eval'']"

definition WRAPPER_FLAGS_WITH_VALUES :: "(string \<times> string list) list" where
  "WRAPPER_FLAGS_WITH_VALUES = [
     (''nice'', [''-n'', ''--adjustment'']),
     (''ionice'', [''-n'', ''-c'', ''-p'']),
     (''timeout'', [''-k'', ''-s'', ''--signal'']),
     (''env'', [''-u'', ''--unset'']),
     (''xargs'', [''-n'', ''-P'', ''-I'', ''-d'', ''-s'', ''-L'', ''-a'', ''-E'']),
     (''stdbuf'', [''-i'', ''-o'', ''-e'']),
     (''setsid'', []),
     (''nohup'', []),
     (''time'', [''-f'', ''-o'']),
     (''watch'', [''-n'', ''--interval'']),
     (''sudo'', [''-u'', ''-g'', ''-p'', ''-C'', ''-h'', ''-r'', ''-t'', ''-U'', ''--user'', ''--group'']),
     (''doas'', [''-u'', ''-C'']),
     (''command'', []),
     (''builtin'', []),
     (''exec'', [''-a''])]"

definition SHELL_COMMANDS :: "string list" where
  "SHELL_COMMANDS = [''sh'', ''bash'', ''zsh'', ''dash'', ''ksh'', ''fish'']"

definition CONDITIONALLY_DESTRUCTIVE :: "(string \<times> string list) list" where
  "CONDITIONALLY_DESTRUCTIVE = [
     (''find'', [''-delete'']),
     (''git'', [''clean'', ''--hard'']),
     (''chmod'', [''-R'']),
     (''chown'', [''-R'']),
     (''rsync'', [''--delete'', ''--delete-after'', ''--delete-before''])]"

definition lookup_flags :: "(string \<times> string list) list \<Rightarrow> string \<Rightarrow> string list option" where
  "lookup_flags table name = map_option snd (find (\<lambda>(n, _). n = name) table)"

definition flag_takes_value :: "string \<Rightarrow> string \<Rightarrow> bool" where
  "flag_takes_value wrapper flag = (case lookup_flags WRAPPER_FLAGS_WITH_VALUES wrapper of
     None \<Rightarrow> False | Some flags \<Rightarrow> flag \<in> set flags)"

section \<open>Prefixes and punctuation\<close>

definition is_assignment :: "Token \<Rightarrow> bool" where
  "is_assignment t \<longleftrightarrow> \<not> tok_is_operator t \<and> (case split_once CHR ''='' (tok_text t) of
     None \<Rightarrow> False
   | Some (key, _) \<Rightarrow> key \<noteq> [] \<and> list_all (\<lambda>c. is_ascii_alphanumeric c \<or> c = CHR ''_'') key)"

fun strip_command_prefix :: "Token list \<Rightarrow> Token list" where
  "strip_command_prefix [] = []"
| "strip_command_prefix (first # rest) =
     (if is_assignment first then strip_command_prefix rest
      else if tok_text first \<in> {''('', ''{'', '')'', ''}'', ''!''} then strip_command_prefix rest
      else first # rest)"

definition unwrap_group_punctuation :: "string \<Rightarrow> string" where
  "unwrap_group_punctuation name = (if str_contains name ''${'' then name
     else rev (dropWhile (\<lambda>c. c \<in> {CHR '')'', CHR ''}'', CHR '';''})
       (rev (dropWhile (\<lambda>c. c \<in> {CHR ''('', CHR ''{'', CHR ''!''}) name))))"

section \<open>Command substitutions\<close>

text \<open>The body of \<open>$(\<close> up to the parenthesis that closes it, and the rest after it; an open end
  yields the remainder.\<close>

fun take_balanced :: "nat \<Rightarrow> string \<Rightarrow> string \<times> string" where
  "take_balanced depth [] = ([], [])"
| "take_balanced depth (c # cs) =
     (let depth = (if c = CHR ''('' then depth + 1 else if c = CHR '')'' then depth - 1 else depth)
      in if depth > 0 then (c # fst (take_balanced depth cs), snd (take_balanced depth cs)) else ([], cs))"

fun take_backtick :: "string \<Rightarrow> string \<times> string" where
  "take_backtick [] = ([], [])"
| "take_backtick (c # cs) =
     (if c = CHR 0x60 then ([], cs) else (c # fst (take_backtick cs), snd (take_backtick cs)))"

lemma length_take_balanced: "length (snd (take_balanced d cs)) \<le> length cs"
  by (induction d cs rule: take_balanced.induct) (auto simp: Let_def)

lemma length_take_backtick: "length (snd (take_backtick cs)) \<le> length cs"
  by (induction cs) auto

function extract_substitutions :: "string \<Rightarrow> string list" where
  "extract_substitutions [] = []"
| "extract_substitutions (c # cs) =
     (if c = CHR ''$'' \<and> starts_with cs ''(''
      then fst (take_balanced 1 (tl cs)) # extract_substitutions (snd (take_balanced 1 (tl cs)))
      else if c = CHR 0x60
      then fst (take_backtick cs) # extract_substitutions (snd (take_backtick cs))
      else extract_substitutions cs)"
  by pat_completeness auto
termination
proof (relation "measure length", goal_cases)
  case (2 c cs)
  have "length (snd (take_balanced 1 (tl cs))) \<le> length (tl cs)" by (rule length_take_balanced)
  then show ?case by simp
next
  case (3 c cs)
  show ?case using length_take_backtick [of cs] by (simp add: less_Suc_eq_le)
qed simp_all

section \<open>Unwrapping\<close>

text \<open>How many words of a wrapper's own arguments start at this token: an option with its value counts two,
  the program itself none.\<close>

definition wrapper_words :: "string \<Rightarrow> Token \<Rightarrow> nat" where
  "wrapper_words name token =
     (if tok_is_operator token \<or> CHR ''='' \<in> set (tok_text token) then 1
      else if is_flag token then (if flag_takes_value name (tok_text token) then 2 else 1)
      else if list_all (\<lambda>c. is_ascii_digit c \<or> c = CHR ''.'') (tok_text token) then 1
      else 0)"

function skip_wrapper :: "string \<Rightarrow> Token list \<Rightarrow> Token list" where
  "skip_wrapper name [] = []"
| "skip_wrapper name (token # rest) =
     (if wrapper_words name token = 0 then token # rest
      else skip_wrapper name (drop (wrapper_words name token - 1) rest))"
  by pat_completeness auto
termination by (relation "measure (length \<circ> snd)") auto

definition skip_chroot :: "Token list \<Rightarrow> Token list" where
  "skip_chroot rest = drop 1 (dropWhile (\<lambda>t. is_flag t \<or> tok_is_operator t) rest)"

text \<open>How the unwrapping loop ends: off the end (with the last wrapper seen), at a program whose arguments
  are scripts, or at the program itself.\<close>

datatype Unwrapped = Exhausted "string option" | Scripts "Token list" | Program "Token list"

definition program_name :: "Token \<Rightarrow> string" where
  "program_name t = unwrap_group_punctuation (basename t)"

lemma length_skip_wrapper: "length (skip_wrapper name ts) \<le> length ts"
proof (induction name ts rule: skip_wrapper.induct)
  case (2 name token rest)
  then show ?case by (cases "wrapper_words name token = 0") simp_all
qed simp

lemma length_skip_chroot: "length (skip_chroot ts) \<le> length ts"
proof -
  have "length (dropWhile P ts) \<le> length ts" for P by (rule length_dropWhile_le)
  then show ?thesis by (simp add: skip_chroot_def le_diff_conv le_SucI)
qed

function unwrap_loop :: "string option \<Rightarrow> Token list \<Rightarrow> Unwrapped" where
  "unwrap_loop wrapped_by [] = Exhausted wrapped_by"
| "unwrap_loop wrapped_by (first # rest) =
     (let name = program_name first in
      if name \<notin> set WRAPPER_COMMANDS then Program (first # rest)
      else if name = ''su'' \<or> name = ''eval'' then Scripts rest
      else if name = ''chroot'' then unwrap_loop (Some name) (skip_chroot rest)
      else unwrap_loop (Some name) (skip_wrapper name rest))"
  by pat_completeness auto
termination
  by (relation "measure (length \<circ> snd)") (simp_all add: less_Suc_eq_le length_skip_wrapper length_skip_chroot)

section \<open>One segment\<close>

definition backticked :: "string \<Rightarrow> string" where
  "backticked s = CHR 0x60 # s @ [CHR 0x60]"

definition hidden_finding :: "string \<Rightarrow> RiskFinding" where
  "hidden_finding wrapper = \<lparr>rf_level = Confirm,
     rf_reason = backticked wrapper @ '' runs another command that could not be identified statically'',
     rf_target = None\<rparr>"

definition is_triggered :: "string \<Rightarrow> Token list \<Rightarrow> bool" where
  "is_triggered name tokens = (if name \<in> set DESTRUCTIVE_COMMANDS then True
     else case lookup_flags CONDITIONALLY_DESTRUCTIVE name of
       None \<Rightarrow> False | Some flags \<Rightarrow> list_ex (\<lambda>t. tok_text t \<in> set flags) tokens)"

definition pattern_values :: "Token list \<Rightarrow> string list" where
  "pattern_values tokens = map (\<lambda>(_, v). tok_text v)
     (filter (\<lambda>(f, _). tok_text f \<in> {''-name'', ''-path'', ''-iname'', ''-ipath'', ''-regex''}) (zip tokens (tl tokens)))"

definition operand_targets :: "string \<Rightarrow> Token list \<Rightarrow> Token list" where
  "operand_targets name tokens =
     (let targets = (if is_triggered name tokens
          then filter (\<lambda>t. \<not> is_flag t \<and> \<not> tok_is_operator t) (tl tokens) else [])
      in if name = ''find'' then filter (\<lambda>t. tok_text t \<notin> set (pattern_values tokens)) targets else targets)"

definition target_raw :: "Token \<Rightarrow> string" where
  "target_raw target = (let text = unwrap_group_punctuation (tok_text target) in
     case split_once CHR ''='' text of
       Some (key, value) \<Rightarrow> if key \<in> {''of'', ''if'', ''seek'', ''conv''} then value else text
     | None \<Rightarrow> text)"

definition classify_token :: "RiskContext \<Rightarrow> bool \<Rightarrow> Token \<Rightarrow> RiskFinding option" where
  "classify_token ctx recursive target =
     (let raw = target_raw target in classify_target (expand raw ctx) raw recursive ctx)"

definition assess_program :: "RiskContext \<Rightarrow> string \<Rightarrow> Token list \<Rightarrow> RiskFinding list" where
  "assess_program ctx name tokens =
     (let triggered = is_triggered name tokens;
          redirect_targets = filter tok_is_truncating tokens
      in if \<not> triggered \<and> redirect_targets = [] then []
      else
        (let targets = operand_targets name tokens @ redirect_targets;
             piped = (if triggered \<and> tok_receives_pipe (hd tokens)
               then [\<lparr>rf_level = Confirm, rf_reason = backticked name @
                  '' deletes paths supplied by a pipe, so the set of affected files cannot be checked before it runs'',
                  rf_target = None\<rparr>] else [])
         in if triggered \<and> targets = []
            then piped @ [\<lparr>rf_level = Confirm, rf_reason = backticked name @
               '' is destructive but its target could not be determined statically, so its blast radius is unknown'',
               rf_target = None\<rparr>]
            else piped @ List.map_filter
               (classify_token ctx (triggered \<and> list_ex is_recursive_flag tokens)) targets))"

section \<open>Script text gets smaller\<close>

lemma text_size_dropWhile: "text_size (dropWhile P ts) \<le> text_size ts"
  by (induction ts) auto

lemma text_size_drop: "text_size (drop n ts) \<le> text_size ts"
proof -
  have "text_size ts = text_size (take n ts) + text_size (drop n ts)"
    by (metis append_take_drop_id text_size_simps(3))
  then show ?thesis by simp
qed

lemma text_size_skip:
  "text_size (skip_wrapper name ts) \<le> text_size ts"
  "text_size (skip_chroot ts) \<le> text_size ts"
  "text_size (strip_command_prefix ts) \<le> text_size ts"
proof -
  show "text_size (skip_wrapper name ts) \<le> text_size ts"
  proof (induction name ts rule: skip_wrapper.induct)
    case (2 name token rest)
    show ?case
    proof (cases "wrapper_words name token = 0")
      case False
      then show ?thesis
        using 2 text_size_drop [of "wrapper_words name token - 1" rest] by simp
    qed simp
  qed simp
  show "text_size (skip_chroot ts) \<le> text_size ts"
    unfolding skip_chroot_def by (rule le_trans [OF text_size_drop text_size_dropWhile])
  show "text_size (strip_command_prefix ts) \<le> text_size ts" by (induction ts) auto
qed

lemma program_name_Nil: "tok_text t = [] \<Longrightarrow> program_name t = []"
  by (simp add: program_name_def basename_def unwrap_group_punctuation_def)

lemma wrapper_text: "program_name t \<in> set WRAPPER_COMMANDS \<Longrightarrow> 0 < length (tok_text t)"
  using program_name_Nil [of t] by (auto simp: WRAPPER_COMMANDS_def)

lemma shell_text: "program_name t \<in> set SHELL_COMMANDS \<Longrightarrow> 0 < length (tok_text t)"
  using program_name_Nil [of t] by (auto simp: SHELL_COMMANDS_def)

lemma unwrap_Scripts: "unwrap_loop w ts = Scripts args \<Longrightarrow> text_size args < text_size ts"
proof (induction w ts rule: unwrap_loop.induct)
  case (2 w first rest)
  let ?n = "program_name first"
  note rests = text_size_skip(1) [of ?n rest] text_size_skip(2) [of rest]
  have wr: "?n \<in> set WRAPPER_COMMANDS" using 2(3) by (cases "?n \<in> set WRAPPER_COMMANDS") simp_all
  have pos: "0 < length (tok_text first)" using wr by (rule wrapper_text)
  consider "?n = ''su'' \<or> ?n = ''eval''" | "?n = ''chroot''" | "?n \<notin> {''su'', ''eval'', ''chroot''}" by blast
  then show ?case
  proof cases
    case 1
    then show ?thesis using 2(3) wr pos by simp
  next
    case c: 2
    have "text_size args < text_size (skip_chroot rest)"
      using 2(3) wr c by (intro 2(1)) simp_all
    then show ?thesis using rests by simp
  next
    case c: 3
    have "text_size args < text_size (skip_wrapper ?n rest)"
      using 2(3) wr c by (intro 2(2)) (simp_all add: Let_def)
    then show ?thesis using rests by simp
  qed
qed simp

lemma unwrap_Program:
  "unwrap_loop w ts = Program toks \<Longrightarrow> text_size toks \<le> text_size ts \<and>
    (\<exists>p args. toks = p # args \<and> program_name p \<notin> set WRAPPER_COMMANDS)"
proof (induction w ts rule: unwrap_loop.induct)
  case (2 w first rest)
  let ?n = "program_name first"
  note rests = text_size_skip(1) [of ?n rest] text_size_skip(2) [of rest]
  consider "?n \<notin> set WRAPPER_COMMANDS" | "?n \<in> set WRAPPER_COMMANDS" "?n = ''su'' \<or> ?n = ''eval''"
    | "?n \<in> set WRAPPER_COMMANDS" "?n = ''chroot''"
    | "?n \<in> set WRAPPER_COMMANDS" "?n \<notin> {''su'', ''eval'', ''chroot''}" by blast
  then show ?case
  proof cases
    case 1
    then show ?thesis using 2(3) by auto
  next
    case c: 2
    then show ?thesis using 2(3) by simp
  next
    case c: 3
    have "text_size toks \<le> text_size (skip_chroot rest) \<and> (\<exists>p args. toks = p # args \<and> program_name p \<notin> set WRAPPER_COMMANDS)"
      using 2(3) c by (intro 2(1)) simp_all
    then show ?thesis using rests by auto
  next
    case c: 4
    have "text_size toks \<le> text_size (skip_wrapper ?n rest) \<and> (\<exists>p args. toks = p # args \<and> program_name p \<notin> set WRAPPER_COMMANDS)"
      using 2(3) c by (intro 2(2)) (simp_all add: Let_def)
    then show ?thesis using rests by auto
  qed
qed simp

lemma script_smaller:
  assumes "t \<in> set (filter P args)" and "seg \<in> set (split_segments (tok_text t))"
  shows "text_size seg \<le> text_size args"
proof -
  have "length (tok_text t) \<le> text_size args"
    using assms(1) by (auto simp: text_size_def intro: member_le_sum_list)
  then show ?thesis using text_size_segment [OF assms(2)] by simp
qed

function assess_segment :: "RiskContext \<Rightarrow> Token list \<Rightarrow> RiskFinding list" where
  "assess_segment ctx tokens =
     (case unwrap_loop None (strip_command_prefix tokens) of
        Exhausted wrapped_by \<Rightarrow> (case wrapped_by of None \<Rightarrow> [] | Some w \<Rightarrow> [hidden_finding w])
      | Scripts args \<Rightarrow>
          concat (map (\<lambda>t. concat (map (assess_segment ctx) (split_segments (tok_text t))))
            (filter (\<lambda>t. \<not> is_flag t) args))
      | Program toks \<Rightarrow>
          if program_name (hd toks) \<in> set SHELL_COMMANDS
          then concat (map (\<lambda>t. concat (map (assess_segment ctx) (split_segments (tok_text t))))
            (filter (\<lambda>t. \<not> is_flag t) (tl toks)))
          else assess_program ctx (program_name (hd toks)) toks)"
  by pat_completeness auto
termination
proof (relation "measure (text_size \<circ> snd)", goal_cases)
  case (2 ctx tokens args t seg)
  then show ?case
    using unwrap_Scripts [OF 2(1)] script_smaller [OF 2(2,3)] text_size_skip(3) [of tokens] by simp
next
  case (3 ctx tokens toks t seg)
  obtain p args where toks: "toks = p # args" using unwrap_Program [OF 3(1)] by auto
  have "0 < length (tok_text p)" using 3(2) toks by (intro shell_text) simp
  moreover have "length (tok_text p) + text_size args \<le> text_size (strip_command_prefix tokens)"
    using unwrap_Program [OF 3(1)] toks by simp
  moreover have "text_size seg \<le> text_size args" using script_smaller [OF 3(3,4)] toks by simp
  ultimately have "text_size seg < text_size tokens" using text_size_skip(3) [of tokens] by linarith
  then show ?case by simp
qed simp

declare assess_segment.simps [simp del]

section \<open>A whole command\<close>

record RiskAssessment =
  ra_level :: RiskLevel
  ra_findings :: "RiskFinding list"

definition assessment_safe :: RiskAssessment where
  "assessment_safe = \<lparr>ra_level = Safe, ra_findings = []\<rparr>"

text \<open>The maximum of the levels, \<open>Safe\<close> when there is none.\<close>

definition from_findings :: "RiskFinding list \<Rightarrow> RiskAssessment" where
  "from_findings findings = \<lparr>ra_level = foldr max (map rf_level findings) Safe, ra_findings = findings\<rparr>"

definition explanation :: "RiskAssessment \<Rightarrow> string" where
  "explanation a = concat (map (\<lambda>f. ''- '' @ rf_reason f @
     (case rf_target f of Some target \<Rightarrow> '' (target: '' @ target @ '')'' | None \<Rightarrow> []) @ [nl]) (ra_findings a))"

definition assess_text :: "RiskContext \<Rightarrow> string \<Rightarrow> RiskFinding list" where
  "assess_text ctx s = concat (map (assess_segment ctx) (split_segments s))"

text \<open>The stack of substitutions: the last one is taken first, and its own substitutions are pushed
  while fewer than eight have been followed.\<close>

function assess_pending :: "RiskContext \<Rightarrow> nat \<Rightarrow> string list \<Rightarrow> RiskFinding list" where
  "assess_pending ctx depth pending =
     (if pending = [] then []
      else (let inner = last pending; rest = butlast pending in
        if trim inner = [] then assess_pending ctx depth rest
        else assess_text ctx inner @
          (if depth < 8 then assess_pending ctx (depth + 1) (rest @ extract_substitutions inner)
           else assess_pending ctx depth rest)))"
  by pat_completeness auto
termination
  by (relation "measures [\<lambda>(_, depth, _). 8 - depth, \<lambda>(_, _, pending). length pending]") auto

declare assess_pending.simps [simp del]

definition assess :: "string \<Rightarrow> RiskContext \<Rightarrow> RiskAssessment" where
  "assess command ctx =
     (let findings = assess_text ctx command @ assess_pending ctx 0 (extract_substitutions command)
      in if findings = [] then assessment_safe else from_findings findings)"

end
