(* ===== verification/Risk_Gate.thy ===== *)
theory Risk_Gate
  imports Risk_Assess
begin

text \<open>
  The second stage (\<open>crates/jcode-command-risk/src/gate.rs\<close>) and its use by the bash tool
  (\<open>crates/jcode-app-core/src/tool/bash_destructive_gate.rs\<close>): what happens to an assessed command and
  its justification. \<open>to_lowercase\<close> is modelled on ASCII letters, the only ones the refused
  affirmations have; the log lines of the tool are not modelled.
\<close>

datatype GateOutcome = Allow | Reflect string | Deny string

record Justification =
  js_text :: "string option"

definition MIN_JUSTIFICATION_LEN :: nat where
  "MIN_JUSTIFICATION_LEN = 25"

definition EMPTY_AFFIRMATIONS :: "string list" where
  "EMPTY_AFFIRMATIONS = [''yes'', ''ok'', ''okay'', ''sure'', ''confirmed'', ''proceed'', ''do it'', ''continue'',
     ''y'', ''approved'', ''go ahead'']"

definition is_substantive :: "Justification \<Rightarrow> bool" where
  "is_substantive j = (case js_text j of
     None \<Rightarrow> False
   | Some t \<Rightarrow>
      (let text = trim t in
       if length text < MIN_JUSTIFICATION_LEN then False
       else (let stripped = trim (trim_end_pats [''.'', ''!'', ''?''] (to_ascii_lowercase text))
             in stripped \<notin> set EMPTY_AFFIRMATIONS)))"

definition deny_reason :: "RiskAssessment \<Rightarrow> string" where
  "deny_reason a = ''This command is blocked and cannot be confirmed.'' @ [nl, nl] @ explanation a @ [nl] @
     ''If the user genuinely wants this, they must run it themselves outside the agent.''"

definition reflection_prompt :: "RiskAssessment \<Rightarrow> string" where
  "reflection_prompt a = ''This command was not run. It is irreversible:'' @ [nl, nl] @ explanation a @ [nl] @
     ''Before it can proceed, stop and check it against the user'' @ [CHR 0x27] @ ''s actual request:'' @ [nl] @
     ''- Which specific thing the user asked for requires deleting this?'' @ [nl] @
     ''- Did the user name this path, or did you infer it?'' @ [nl] @
     ''- If you inferred it, is a narrower target enough?'' @ [nl] @
     ''- If this is wrong, nothing here can be recovered.'' @ [nl, nl] @
     ''If it is genuinely what the user asked for, re-issue the same call with a '' @ backticked ''justification'' @
     '' field explaining which request it serves. If you are not sure, ask the user instead: that costs one '' @
     ''message, and being wrong costs their data.''"

definition gate :: "RiskAssessment \<Rightarrow> Justification \<Rightarrow> GateOutcome" where
  "gate a j = (case ra_level a of
     Safe \<Rightarrow> Allow
   | Low \<Rightarrow> Allow
   | Catastrophic \<Rightarrow> Deny (deny_reason a)
   | Confirm \<Rightarrow> if is_substantive j then Allow else Reflect (reflection_prompt a))"

text \<open>The bash tool: the text of the refusal, or nothing when the command may run. \<open>home\<close> is the
  value of \<open>HOME\<close>, absent when unset or empty.\<close>

definition destructive_command_refusal :: "string \<Rightarrow> string option \<Rightarrow> string option \<Rightarrow> string option \<Rightarrow> string option" where
  "destructive_command_refusal command justification working_dir home =
     (let risk_ctx = \<lparr>rc_working_dir = working_dir, rc_home_dir = home\<rparr>;
          assessment = assess command risk_ctx
      in if runs_immediately (ra_level assessment) then None
      else (case gate assessment \<lparr>js_text = justification\<rparr> of
         Allow \<Rightarrow> None | Deny reason \<Rightarrow> Some reason | Reflect prompt \<Rightarrow> Some prompt))"

end
