(* ===== verification/Risk_Resolve.thy ===== *)
theory Risk_Resolve
  imports Risk_Paths "HOL-Library.Sublist"
begin

text \<open>
  What the path layer of the command-risk gate computes: lexical resolution against a reference on
  name lists, and the exact meaning of the protected set.
\<close>

section \<open>Splitting at slashes\<close>

lemma split_slash_not_Nil [simp]: "split_slash s \<noteq> []"
  by (induction s) (auto split: list.splits)

lemma split_slash_append: "split_slash (a @ CHR 0x2F # b) = split_slash a @ split_slash b"
  by (induction a) (auto split: list.splits)

lemma split_slash_single: "CHR 0x2F \<notin> set a \<Longrightarrow> split_slash a = [a]"
  by (induction a) auto

lemma split_slash_pieces: "p \<in> set (split_slash s) \<Longrightarrow> CHR 0x2F \<notin> set p"
  by (induction s arbitrary: p) (auto split: list.splits if_splits)

lemma split_slash_join:
  "ns \<noteq> [] \<Longrightarrow> \<forall>n \<in> set ns. CHR 0x2F \<notin> set n \<Longrightarrow> split_slash (join ''/'' ns) = ns"
  by (induction "''/''" ns rule: join.induct) (auto simp: split_slash_append split_slash_single)

section \<open>Canonical paths\<close>

definition good_name :: "string \<Rightarrow> bool" where
  "good_name n \<longleftrightarrow> n \<noteq> [] \<and> CHR 0x2F \<notin> set n \<and> n \<noteq> ''.'' \<and> n \<noteq> ''..''"

definition show_path :: "bool \<Rightarrow> string list \<Rightarrow> string" where
  "show_path absolute ns = (if absolute then ''/'' else []) @ join ''/'' ns"

lemma is_absolute_iff: "is_absolute s \<longleftrightarrow> (\<exists>r. s = CHR 0x2F # r)"
  by (simp add: is_absolute_def starts_with_iff)

lemma map_filter_simps: "List.map_filter f [] = []"
  "List.map_filter f (x # xs) = (case f x of None \<Rightarrow> List.map_filter f xs | Some y \<Rightarrow> y # List.map_filter f xs)"
  by (simp_all add: List.map_filter_def split: option.split)

lemma map_filter_good: "\<forall>n \<in> set ns. good_name n \<Longrightarrow> List.map_filter component_of ns = map Normal ns"
  by (induction ns) (simp_all add: map_filter_simps component_of_def good_name_def)

lemma join_head: "ns \<noteq> [] \<Longrightarrow> \<forall>n \<in> set ns. good_name n \<Longrightarrow> \<exists>c r. join ''/'' ns = c # r \<and> c \<noteq> CHR 0x2F"
  by (cases ns rule: remdups_adj.cases) (auto simp: good_name_def neq_Nil_conv)

lemma components_show_path:
  assumes "\<forall>n \<in> set ns. good_name n"
  shows "path_components (show_path absolute ns) = (if absolute then [RootDir] else []) @ map Normal ns"
proof (cases "ns = []")
  case True
  then show ?thesis by (simp add: show_path_def path_components_def is_absolute_iff map_filter_simps component_of_def)
next
  case False
  have sf: "split_slash (join ''/'' ns) = ns"
    using assms False by (intro split_slash_join) (auto simp: good_name_def)
  have "\<not> is_absolute (join ''/'' ns)" using join_head [OF False assms] by (auto simp: is_absolute_iff)
  moreover have "hd ns \<noteq> ''.''" using assms False by (auto simp: good_name_def)
  moreover have "is_absolute (CHR 0x2F # x)" for x by (simp add: is_absolute_iff)
  ultimately show ?thesis
    by (simp add: show_path_def path_components_def sf map_filter_simps component_of_def map_filter_good [OF assms])
qed

lemma join_snoc: "ns \<noteq> [] \<Longrightarrow> join sep (ns @ [n]) = join sep ns @ sep @ n"
  by (induction sep ns rule: join.induct) auto

lemma join_last: "ns \<noteq> [] \<Longrightarrow> \<forall>n \<in> set ns. good_name n \<Longrightarrow> join ''/'' ns \<noteq> [] \<and> last (join ''/'' ns) \<noteq> CHR 0x2F"
proof (induction ns rule: rev_induct)
  case (snoc n ns)
  have n: "n \<noteq> []" "CHR 0x2F \<notin> set n" using snoc.prems by (simp_all add: good_name_def)
  then have "last n \<noteq> CHR 0x2F" using last_in_set [of n] by metis
  then show ?case using n by (cases "ns = []") (simp_all add: join_snoc)
qed simp

lemma push_show_path:
  assumes "\<forall>n \<in> set ns. good_name n" and "good_name n"
  shows "path_push (show_path absolute ns) n = show_path absolute (ns @ [n])"
proof -
  have "\<not> is_absolute n" using assms(2) by (auto simp: is_absolute_iff good_name_def)
  then show ?thesis
    using join_last [OF _ assms(1)] by (cases "ns = []") (auto simp: path_push_def show_path_def join_snoc)
qed

lemma path_of_canonical:
  "\<forall>n \<in> set ns. good_name n \<Longrightarrow>
   path_of ((if absolute then [RootDir] else []) @ map Normal ns) = show_path absolute ns"
proof (induction ns rule: rev_induct)
  case Nil
  show ?case by (simp add: path_of_def show_path_def path_push_def is_absolute_iff)
next
  case (snoc n ns)
  have "path_of (((if absolute then [RootDir] else []) @ map Normal ns) @ [Normal n]) =
      path_push (show_path absolute ns) n"
    using snoc by (simp add: path_of_def)
  then show ?case using snoc.prems by (simp add: push_show_path)
qed

lemma parent_show_path:
  assumes "\<forall>n \<in> set ns. good_name n"
  shows "path_parent (show_path absolute ns) =
    (if ns = [] then None else Some (show_path absolute (butlast ns)))"
proof (cases ns rule: rev_cases)
  case Nil
  then show ?thesis using components_show_path [OF assms, of absolute] by (simp add: path_parent_def)
next
  case (snoc ms m)
  have "path_of ((if absolute then [RootDir] else []) @ map Normal ms) = show_path absolute ms"
    using assms snoc by (intro path_of_canonical) auto
  then show ?thesis using components_show_path [OF assms, of absolute] snoc by (simp add: path_parent_def)
qed

section \<open>Lexical resolution\<close>

text \<open>The reference: a stack of names.\<close>

definition resolve_step :: "string list \<Rightarrow> Component \<Rightarrow> string list" where
  "resolve_step ns c = (case c of Normal n \<Rightarrow> ns @ [n] | ParentDir \<Rightarrow> butlast ns | _ \<Rightarrow> ns)"

definition resolved :: "string \<Rightarrow> string list" where
  "resolved path = foldl resolve_step [] (path_components path)"

lemma component_names: "Normal n \<in> set (path_components s) \<Longrightarrow> good_name n"
  by (auto simp: path_components_def set_map_filter component_of_def good_name_def dest: split_slash_pieces
      split: if_splits)

lemma components_tail: "RootDir \<notin> set (List.map_filter component_of ps)"
  by (auto simp: set_map_filter component_of_def split: if_splits)

lemma resolve_step_good:
  assumes "\<forall>n \<in> set ns. good_name n" and "\<forall>n. c = Normal n \<longrightarrow> good_name n"
  shows "\<forall>n \<in> set (resolve_step ns c). good_name n"
  using assms by (cases c) (auto simp: resolve_step_def dest: in_set_butlastD)

lemma resolve_good:
  assumes "\<forall>n. Normal n \<in> set cs \<longrightarrow> good_name n" and "\<forall>n \<in> set ns. good_name n"
  shows "\<forall>n \<in> set (foldl resolve_step ns cs). good_name n"
  using assms
proof (induction cs arbitrary: ns)
  case (Cons c cs)
  have "\<forall>n \<in> set (resolve_step ns c). good_name n"
    using Cons.prems by (intro resolve_step_good) simp_all
  then have "\<forall>n \<in> set (foldl resolve_step (resolve_step ns c) cs). good_name n"
    using Cons.prems(1) by (intro Cons.IH) simp_all
  then show ?case by simp
qed simp

lemma resolved_good: "n \<in> set (resolved s) \<Longrightarrow> good_name n"
  using resolve_good [of "path_components s" "[]"] component_names by (auto simp: resolved_def)

lemma norm_steps:
  assumes "\<forall>n. Normal n \<in> set cs \<longrightarrow> good_name n" and "\<forall>n \<in> set ns. good_name n" and "RootDir \<notin> set cs"
  shows "foldl norm_step (show_path absolute ns) cs = show_path absolute (foldl resolve_step ns cs)"
  using assms
proof (induction cs arbitrary: ns)
  case (Cons c cs)
  have g: "\<forall>n \<in> set (resolve_step ns c). good_name n"
    using Cons.prems by (intro resolve_step_good) simp_all
  have "norm_step (show_path absolute ns) c = show_path absolute (resolve_step ns c)"
    using Cons.prems by (cases c) (simp_all add: norm_step_def resolve_step_def parent_show_path push_show_path)
  then show ?case using Cons.IH [OF _ g] Cons.prems by simp
qed simp

lemma normalize_resolved:
  "normalize_path path = show_path (is_absolute path \<or> resolved path = []) (resolved path)"
proof -
  let ?t = "List.map_filter component_of (split_slash path)"
  have names: "\<forall>n. Normal n \<in> set ?t \<longrightarrow> good_name n"
    using component_names [of _ path] by (auto simp: path_components_def)
  have steps: "foldl norm_step (show_path absolute []) ?t = show_path absolute (foldl resolve_step [] ?t)" for absolute
    by (rule norm_steps [OF names _ components_tail]) simp
  have nonempty: "show_path False ns \<noteq> []" if "ns \<noteq> []" "\<forall>n \<in> set ns. good_name n" for ns
    using join_last [OF that] by (simp add: show_path_def)
  show ?thesis
  proof (cases "is_absolute path")
    case True
    have "norm_step [] RootDir = show_path True []"
      by (simp add: norm_step_def path_push_def is_absolute_iff show_path_def)
    then have "foldl norm_step [] (path_components path) = show_path True (resolved path)"
      using steps [of True] True by (simp add: path_components_def resolved_def resolve_step_def)
    then show ?thesis using True by (simp add: normalize_path_def show_path_def)
  next
    case False
    have "foldl norm_step [] (path_components path) = show_path False (resolved path)"
      using steps [of False] False
      by (simp add: path_components_def resolved_def resolve_step_def norm_step_def show_path_def)
    then show ?thesis
      using False nonempty [of "resolved path"] resolved_good [of _ path]
      by (cases "resolved path = []") (auto simp: normalize_path_def Let_def show_path_def)
  qed
qed

lemma foldl_resolve_Normal: "foldl resolve_step ms (map Normal ns) = ms @ ns"
  by (induction ns arbitrary: ms) (simp_all add: resolve_step_def)

lemma resolved_show_path: "\<forall>n \<in> set ns. good_name n \<Longrightarrow> resolved (show_path absolute ns) = ns"
  by (simp add: resolved_def components_show_path resolve_step_def foldl_resolve_Normal)

lemma absolute_show_path: "\<forall>n \<in> set ns. good_name n \<Longrightarrow> is_absolute (show_path absolute ns) \<longleftrightarrow> absolute"
  using join_head [of ns] by (cases "ns = []") (auto simp: is_absolute_iff show_path_def)

lemma components_normalize:
  "path_components (normalize_path path) =
   (if is_absolute path \<or> resolved path = [] then [RootDir] else []) @ map Normal (resolved path)"
  by (simp add: normalize_resolved components_show_path resolved_good)

lemma join_append:
  "ns \<noteq> [] \<Longrightarrow> ms \<noteq> [] \<Longrightarrow> join sep (ns @ ms) = join sep ns @ sep @ join sep ms"
proof (induction sep ns rule: join.induct)
  case (2 sep x)
  then show ?case by (cases ms) simp_all
qed simp_all

lemma push_join:
  assumes "\<forall>n \<in> set ns. good_name n" and "\<forall>m \<in> set ms. good_name m" and "ms \<noteq> []"
  shows "path_push (show_path absolute ns) (join ''/'' ms) = show_path absolute (ns @ ms)"
proof -
  have "\<not> is_absolute (join ''/'' ms)" using join_head [OF assms(3,2)] by (auto simp: is_absolute_iff)
  then show ?thesis
    using join_last [OF _ assms(1)] assms(3)
    by (cases "ns = []") (auto simp: path_push_def show_path_def join_append)
qed

section \<open>The protected set in names\<close>

lemma prefix_take: "prefix xs ys \<longleftrightarrow> take (length xs) ys = xs"
  by (metis append_eq_conv_conj prefix_def take_is_prefix)

lemma map_Normal_eq: "map Normal ns = map Normal ms \<longleftrightarrow> ns = ms"
  by (simp add: inj_map_eq_map inj_def)

lemma components_rooted: "is_absolute p \<Longrightarrow> path_components (normalize_path p) = RootDir # map Normal (resolved p)"
  by (simp add: components_normalize)

text \<open>A literal absolute path of the policy.\<close>

definition literal_path :: "string \<Rightarrow> bool" where
  "literal_path s \<longleftrightarrow> path_components s = RootDir # map Normal (resolved s)"

lemma path_eq_literal:
  "is_absolute p \<Longrightarrow> literal_path s \<Longrightarrow> path_eq (normalize_path p) s \<longleftrightarrow> resolved p = resolved s"
  by (simp add: path_eq_def literal_path_def components_rooted map_Normal_eq)

lemma starts_with_literal:
  "is_absolute p \<Longrightarrow> literal_path s \<Longrightarrow>
   path_starts_with (normalize_path p) s \<longleftrightarrow> prefix (resolved s) (resolved p)"
  by (simp add: path_starts_with_def literal_path_def components_rooted prefix_take take_map map_Normal_eq)

lemma literal_system: "list_all literal_path PROTECTED_SYSTEM_PATHS"
  by code_simp

lemma literal_recursive: "list_all literal_path SYSTEM_PATHS_PROTECTED_RECURSIVELY"
  by code_simp

definition benign_devices :: "string list" where
  "benign_devices = [''/dev/null'', ''/dev/stdout'', ''/dev/stderr'', ''/dev/stdin'', ''/dev/tty'']"

lemma literal_devices: "list_all literal_path benign_devices"
  by code_simp

text \<open>A literal path below the home directory.\<close>

definition literal_sub :: "string \<Rightarrow> bool" where
  "literal_sub s \<longleftrightarrow> list_all good_name (split_slash s) \<and> join ''/'' (split_slash s) = s"

lemma literal_credentials: "list_all (\<lambda>s. literal_sub s \<and> split_slash s = [s]) PROTECTED_CREDENTIAL_SUBPATHS"
  by code_simp

lemma literal_home: "list_all literal_sub PROTECTED_HOME_SUBPATHS"
  by code_simp

lemma components_push_sub:
  assumes "is_absolute home" and "literal_sub s"
  shows "path_components (path_push (normalize_path home) s) = RootDir # map Normal (resolved home @ split_slash s)"
proof -
  have good: "\<forall>n \<in> set (resolved home). good_name n" "\<forall>n \<in> set (split_slash s). good_name n"
    using assms(2) resolved_good by (auto simp: literal_sub_def list_all_iff)
  have "path_push (normalize_path home) (join ''/'' (split_slash s)) = show_path True (resolved home @ split_slash s)"
    using push_join [OF good] assms(1) by (simp add: normalize_resolved)
  then have "path_push (normalize_path home) s = show_path True (resolved home @ split_slash s)"
    using assms(2) by (simp add: literal_sub_def)
  then show ?thesis using good by (simp add: components_show_path ball_Un)
qed

lemma path_eq_sub:
  "is_absolute p \<Longrightarrow> is_absolute home \<Longrightarrow> literal_sub s \<Longrightarrow>
   path_eq (normalize_path p) (path_push (normalize_path home) s) \<longleftrightarrow> resolved p = resolved home @ split_slash s"
  by (simp only: path_eq_def components_push_sub components_rooted list.inject map_Normal_eq simp_thms)

lemma starts_with_sub:
  "is_absolute p \<Longrightarrow> is_absolute home \<Longrightarrow> literal_sub s \<Longrightarrow>
   path_starts_with (normalize_path p) (path_push (normalize_path home) s) \<longleftrightarrow>
   prefix (resolved home @ split_slash s) (resolved p)"
  by (simp only: path_starts_with_def components_push_sub components_rooted prefix_take list.inject
      list.size length_map add_Suc_right add_0_right take_Suc_Cons take_map map_Normal_eq simp_thms)

lemma list_ex_cong_all: "list_all Q xs \<Longrightarrow> (\<And>x. Q x \<Longrightarrow> P x = R x) \<Longrightarrow> list_ex P xs \<longleftrightarrow> (\<exists>x \<in> set xs. R x)"
  by (auto simp: list_all_iff list_ex_iff)

lemma benign_iff: "is_absolute p \<Longrightarrow>
   is_benign_device (normalize_path p) \<longleftrightarrow> (\<exists>d \<in> set benign_devices. resolved p = resolved d)"
  unfolding is_benign_device_def benign_devices_def [symmetric]
  by (rule list_ex_cong_all [OF literal_devices]) (rule path_eq_literal)

lemma catastrophic_cases:
  assumes "rc_home_dir ctx = Some home" and "is_absolute home" and p: "is_absolute path"
  shows "is_catastrophic_target path ctx \<longleftrightarrow>
    \<not> (\<exists>d \<in> set benign_devices. resolved path = resolved d) \<and>
    ((\<exists>s \<in> set PROTECTED_SYSTEM_PATHS. resolved path = resolved s) \<or>
     (\<exists>s \<in> set SYSTEM_PATHS_PROTECTED_RECURSIVELY. prefix (resolved s) (resolved path)) \<or>
     resolved path = resolved home \<or>
     (\<exists>s \<in> set PROTECTED_CREDENTIAL_SUBPATHS. prefix (resolved home @ [s]) (resolved path)) \<or>
     (\<exists>s \<in> set PROTECTED_HOME_SUBPATHS. resolved path = resolved home @ split_slash s))"
proof -
  have sys: "list_ex (\<lambda>s. path_eq (normalize_path path) s) PROTECTED_SYSTEM_PATHS \<longleftrightarrow>
      (\<exists>s \<in> set PROTECTED_SYSTEM_PATHS. resolved path = resolved s)"
    by (rule list_ex_cong_all [OF literal_system]) (rule path_eq_literal [OF p])
  have rec: "list_ex (\<lambda>s. path_starts_with (normalize_path path) s) SYSTEM_PATHS_PROTECTED_RECURSIVELY \<longleftrightarrow>
      (\<exists>s \<in> set SYSTEM_PATHS_PROTECTED_RECURSIVELY. prefix (resolved s) (resolved path))"
    by (rule list_ex_cong_all [OF literal_recursive]) (rule starts_with_literal [OF p])
  have cred: "list_ex (\<lambda>s. path_starts_with (normalize_path path) (path_push (normalize_path home) s)) PROTECTED_CREDENTIAL_SUBPATHS \<longleftrightarrow>
      (\<exists>s \<in> set PROTECTED_CREDENTIAL_SUBPATHS. prefix (resolved home @ [s]) (resolved path))"
    by (rule list_ex_cong_all [OF literal_credentials]) (simp add: starts_with_sub [OF p assms(2)])
  have subs: "list_ex (\<lambda>s. path_eq (normalize_path path) (path_push (normalize_path home) s)) PROTECTED_HOME_SUBPATHS \<longleftrightarrow>
      (\<exists>s \<in> set PROTECTED_HOME_SUBPATHS. resolved path = resolved home @ split_slash s)"
    by (rule list_ex_cong_all [OF literal_home]) (rule path_eq_sub [OF p assms(2)])
  have home: "path_eq (normalize_path path) (normalize_path home) \<longleftrightarrow> resolved path = resolved home"
    by (simp add: path_eq_def components_rooted p assms(2) map_Normal_eq)
  show ?thesis
    unfolding is_catastrophic_target_def Let_def assms(1) option.case benign_iff [OF p] sys rec cred subs home
    by (simp only: if_bool_eq_disj) blast
qed

section \<open>Properties\<close>

text \<open>Lexical normalization is resolution: the result spells the name stack that results from reading the
  components left to right, dropping dots and letting each double dot undo the last name. It is
  idempotent, keeps absolute paths absolute, and has no dot component left.\<close>

theorem normalize_spec:
  "normalize_path path = show_path (is_absolute path \<or> resolved path = []) (resolved path) \<and>
   normalize_path (normalize_path path) = normalize_path path \<and> resolved (normalize_path path) = resolved path \<and>
   set (path_components (normalize_path path)) \<inter> {CurDir, ParentDir} = {}"
proof -
  have "resolved (normalize_path path) = resolved path"
    using resolved_good [of _ path] by (simp add: normalize_resolved resolved_show_path)
  moreover have "is_absolute (normalize_path path) \<longleftrightarrow> is_absolute path \<or> resolved path = []"
    using resolved_good [of _ path] by (simp add: normalize_resolved absolute_show_path)
  ultimately show ?thesis
    using components_normalize [of path]
    by (auto simp: normalize_resolved [of "normalize_path path"])
      (simp_all add: normalize_resolved)
qed

text \<open>C13 The protected set, exactly: with an absolute home directory, an absolute path is refused outright
  if and only if its resolved names are not one of the five standard sinks and are a protected system
  path, lie below a recursively protected one, are the home directory, lie in a credential store, or are
  one of the protected home directories. No spelling of such a path with dots or extra slashes escapes.\<close>

theorem protected_set:
  assumes "rc_home_dir ctx = Some home" and "is_absolute home" and "is_absolute path"
  shows "is_catastrophic_target path ctx \<longleftrightarrow>
    \<not> (\<exists>d \<in> {''null'', ''stdout'', ''stderr'', ''stdin'', ''tty''}. resolved path = [''dev'', d]) \<and>
    ((\<exists>s \<in> set PROTECTED_SYSTEM_PATHS. resolved path = resolved s) \<or>
     (\<exists>s \<in> set SYSTEM_PATHS_PROTECTED_RECURSIVELY. prefix (resolved s) (resolved path)) \<or>
     resolved path = resolved home \<or>
     (\<exists>s \<in> set PROTECTED_CREDENTIAL_SUBPATHS. prefix (resolved home @ [s]) (resolved path)) \<or>
     (\<exists>s \<in> set PROTECTED_HOME_SUBPATHS. resolved path = resolved home @ split_slash s))"
proof -
  have "map resolved benign_devices = map (\<lambda>d. [''dev'', d]) [''null'', ''stdout'', ''stderr'', ''stdin'', ''tty'']"
    by code_simp
  then have "(\<exists>d \<in> set benign_devices. resolved path = resolved d) \<longleftrightarrow>
      (\<exists>d \<in> {''null'', ''stdout'', ''stderr'', ''stdin'', ''tty''}. resolved path = [''dev'', d])"
    by (simp add: benign_devices_def)
  then show ?thesis unfolding catastrophic_cases [OF assms] by (simp only:)
qed

definition demo_ctx :: RiskContext where
  "demo_ctx = \<lparr>rc_working_dir = Some ''/home/u/p'', rc_home_dir = Some ''/home/u''\<rparr>"

theorem protected_set_witness: "is_catastrophic_target ''/home/u/p/.././/.ssh/id'' demo_ctx"
proof -
  have r: "resolved ''/home/u/p/.././/.ssh/id'' = [''home'', ''u'', ''.ssh'', ''id'']" "resolved ''/home/u'' = [''home'', ''u'']"
    by code_simp+
  have a: "rc_home_dir demo_ctx = Some ''/home/u''" "is_absolute ''/home/u''" "is_absolute ''/home/u/p/.././/.ssh/id''"
    by code_simp+
  show ?thesis unfolding protected_set [OF a] r by (simp add: PROTECTED_CREDENTIAL_SUBPATHS_def)
qed

text \<open>What each verdict on a target means. Silence is given only to a plain, unprotected target that is
  one of the standard sinks, in the working directory, or in a temporary directory; a recursive target in
  the working directory is at least noted; a glob, a runtime value or a target elsewhere is at least
  questioned; a protected or device target is refused.\<close>

theorem classify_verdicts:
  "case classify_target expanded raw recursive ctx of
     None \<Rightarrow> set raw \<inter> {CHR ''*'', CHR ''?'', CHR ''$'', CHR 0x60} = {} \<and> \<not> starts_with raw ''~'' \<and>
       \<not> is_catastrophic_target expanded ctx \<and>
       (is_benign_device expanded \<or> is_temp_path expanded \<or>
        \<not> recursive \<and> (\<exists>cwd. rc_working_dir ctx = Some cwd \<and> path_starts_with expanded (normalize_path cwd)))
   | Some f \<Rightarrow> (case rf_level f of
       Safe \<Rightarrow> False
     | Low \<Rightarrow> recursive \<and> \<not> is_catastrophic_target expanded ctx \<and> \<not> path_starts_with expanded ''/dev'' \<and>
         (\<exists>cwd. rc_working_dir ctx = Some cwd \<and> path_starts_with expanded (normalize_path cwd))
     | Confirm \<Rightarrow> CHR ''*'' \<in> set raw \<or> CHR ''?'' \<in> set raw \<or> \<not> is_catastrophic_target expanded ctx
     | Catastrophic \<Rightarrow> is_catastrophic_target expanded ctx \<or> hits_other_home raw \<or> path_starts_with expanded ''/dev'' \<or>
         (\<exists>parent. path_parent expanded = Some parent \<and> is_catastrophic_target parent ctx \<and>
            path_file_name expanded = Some ''*''))"
proof -
  have foot: "classify_footprint expanded recursive ctx = None \<longleftrightarrow>
      (if \<exists>cwd. rc_working_dir ctx = Some cwd \<and> path_starts_with expanded (normalize_path cwd)
       then \<not> recursive else is_temp_path expanded)"
    by (simp add: classify_footprint_def split: option.split)
  have foot_level: "rf_level f = Low \<and> recursive \<and>
      (\<exists>cwd. rc_working_dir ctx = Some cwd \<and> path_starts_with expanded (normalize_path cwd)) \<or> rf_level f = Confirm"
    if "classify_footprint expanded recursive ctx = Some f" for f
    using that by (auto simp: classify_footprint_def split: option.splits if_splits)
  let ?glob = "CHR ''*'' \<in> set raw \<or> CHR ''?'' \<in> set raw"
  let ?dyn = "CHR ''$'' \<in> set raw \<or> CHR 0x60 \<in> set raw \<or> starts_with raw ''~''"
  consider "?glob" | "\<not> ?glob" "is_catastrophic_target expanded ctx"
    | "\<not> ?glob" "\<not> is_catastrophic_target expanded ctx" "hits_other_home raw \<or> ?dyn \<or> path_starts_with expanded ''/dev''"
    | "\<not> ?glob" "\<not> is_catastrophic_target expanded ctx" "\<not> hits_other_home raw" "\<not> ?dyn" "\<not> path_starts_with expanded ''/dev''"
    by blast
  then show ?thesis
  proof cases
    case 4
    then have "classify_target expanded raw recursive ctx = classify_footprint expanded recursive ctx"
      by (simp add: classify_target_def)
    then show ?thesis
      using 4 foot foot_level by (cases "classify_footprint expanded recursive ctx") (auto split: if_splits)
  qed (auto simp: classify_target_def split: option.splits)
qed

theorem classify_verdicts_witness:
  "classify_target ''/home/u/x'' ''~/x'' True demo_ctx \<noteq> None \<and> \<not> is_catastrophic_target ''/home/u/x'' demo_ctx"
proof -
  have "map_option rf_level (classify_target ''/home/u/x'' ''../x'' True demo_ctx) = Some Confirm" by code_simp
  then obtain f where f: "classify_target ''/home/u/x'' ''../x'' True demo_ctx = Some f" "rf_level f = Confirm" by auto
  have "\<not> is_catastrophic_target ''/home/u/x'' demo_ctx"
    using classify_verdicts [where expanded = "''/home/u/x''" and raw = "''../x''" and recursive = True and ctx = demo_ctx]
    by (simp add: f)
  moreover have "classify_target ''/home/u/x'' ''~/x'' True demo_ctx \<noteq> None" by code_simp
  ultimately show ?thesis by simp
qed

end
