(* ===== verification/Risk_Properties.thy ===== *)
theory Risk_Properties
  imports Risk_Gate Risk_Resolve
begin

text \<open>
  What the command-risk gate promises: the decision as a function of the findings, refusal of every
  spelled-out destructive command on a protected path, transparency of wrappers and shells, no friction
  for commands that destroy nothing, and the command forms the assessment does not see.
\<close>

section \<open>Levels of an assessment\<close>

lemma Safe_least [simp]: "Safe \<le> l"
  by (cases l) (simp_all add: less_eq_RiskLevel_def)

lemma Catastrophic_greatest: "Catastrophic \<le> l \<longleftrightarrow> l = Catastrophic"
  by (cases l) (simp_all add: less_eq_RiskLevel_def)

lemma foldr_max_ge: "l \<noteq> Safe \<Longrightarrow> l \<le> foldr max ls Safe \<longleftrightarrow> (\<exists>m \<in> set ls. l \<le> m)"
proof (induction ls)
  case Nil
  then show ?case by (cases l) (simp_all add: less_eq_RiskLevel_def)
qed (simp add: le_max_iff_disj)

lemma findings_assess:
  "ra_findings (assess c ctx) = assess_text ctx c @ assess_pending ctx 0 (extract_substitutions c)"
  by (simp add: assess_def Let_def assessment_safe_def from_findings_def)

lemma level_assess: "ra_level (assess c ctx) = foldr max (map rf_level (ra_findings (assess c ctx))) Safe"
  by (simp add: assess_def Let_def assessment_safe_def from_findings_def)

lemma assess_Safe: "ra_findings (assess c ctx) = [] \<Longrightarrow> ra_level (assess c ctx) = Safe"
  by (simp add: level_assess)

lemma assess_Catastrophic:
  "ra_level (assess c ctx) = Catastrophic \<longleftrightarrow> (\<exists>f \<in> set (ra_findings (assess c ctx)). rf_level f = Catastrophic)"
proof -
  have "ra_level (assess c ctx) = Catastrophic \<longleftrightarrow> Catastrophic \<le> ra_level (assess c ctx)"
    by (simp add: Catastrophic_greatest)
  also have "\<dots> \<longleftrightarrow> (\<exists>f \<in> set (ra_findings (assess c ctx)). rf_level f = Catastrophic)"
    by (subst level_assess, subst foldr_max_ge) (simp_all add: Catastrophic_greatest image_iff eq_commute)
  finally show ?thesis .
qed

section \<open>Spelled-out segments\<close>

definition plain_wrappers :: "string set" where
  "plain_wrappers = set WRAPPER_COMMANDS - {''su'', ''eval'', ''chroot''}"

text \<open>A program name of the policy: no assignment, no option, no number, no punctuation to strip.\<close>

definition plain_program :: "string \<Rightarrow> bool" where
  "plain_program w \<longleftrightarrow> CHR ''='' \<notin> set w \<and> \<not> starts_with w ''-'' \<and>
     \<not> list_all (\<lambda>c. is_ascii_digit c \<or> c = CHR ''.'') w \<and> w \<notin> {''('', ''{'', '')'', ''}'', ''!''} \<and>
     program_name (token_word w) = w"

lemma policy_programs:
  "list_all plain_program (WRAPPER_COMMANDS @ DESTRUCTIVE_COMMANDS @ SHELL_COMMANDS)"
  by code_simp

lemma plain_program_policy:
  "w \<in> set WRAPPER_COMMANDS \<or> w \<in> set DESTRUCTIVE_COMMANDS \<or> w \<in> set SHELL_COMMANDS \<Longrightarrow> plain_program w"
  using policy_programs by (auto simp: list_all_iff)

lemma policy_disjoint:
  "list_all (\<lambda>w. w \<notin> set WRAPPER_COMMANDS \<and> w \<notin> set SHELL_COMMANDS) DESTRUCTIVE_COMMANDS"
  "list_all (\<lambda>w. w \<notin> set WRAPPER_COMMANDS) SHELL_COMMANDS"
  by code_simp+

abbreviation piped_word :: "bool \<Rightarrow> string \<Rightarrow> Token" where
  "piped_word p w \<equiv> (token_word w)\<lparr>tok_receives_pipe := p\<rparr>"

lemma segment_of_simps [simp]:
  "segment_of p [] = []"
  "segment_of p (w # ws) = piped_word p w # segment_of p ws"
  "segment_of p (vs @ ws) = segment_of p vs @ segment_of p ws"
  by (simp_all add: segment_of_def)

lemma piped_word_name: "program_name (piped_word p w) = program_name (token_word w)"
  by (simp add: program_name_def basename_def)

lemma is_flag_piped: "is_flag (piped_word p w) \<longleftrightarrow> starts_with w ''-'' \<and> length w > 1"
  by (simp add: is_flag_def)

lemma split_once_None: "c \<notin> set s \<Longrightarrow> split_once c s = None"
proof -
  assume "c \<notin> set s"
  then have "dropWhile (\<lambda>x. x \<noteq> c) s = []" by auto
  then show ?thesis unfolding split_once_def by (simp only: list.case)
qed

lemma strip_plain:
  assumes "plain_program w"
  shows "strip_command_prefix (piped_word p w # ts) = piped_word p w # ts"
proof -
  have "split_once CHR ''='' w = None" using assms by (simp add: plain_program_def split_once_None)
  then have "\<not> is_assignment (piped_word p w)" by (simp add: is_assignment_def)
  then show ?thesis using assms by (simp add: plain_program_def)
qed

lemma skip_plain: "plain_program w \<Longrightarrow> skip_wrapper n (piped_word p w # ts) = piped_word p w # ts"
  by (simp add: plain_program_def wrapper_words_def is_flag_piped)

text \<open>Unwrapping removes any stack of plain wrappers.\<close>

lemma unwrap_wrappers:
  assumes "set pre \<subseteq> plain_wrappers" and "plain_program w" and "w \<notin> set WRAPPER_COMMANDS"
  shows "unwrap_loop wr (segment_of p (pre @ w # args)) = Program (segment_of p (w # args))"
  using assms(1)
proof (induction pre arbitrary: wr)
  case Nil
  show ?case using assms(2,3) by (simp add: piped_word_name plain_program_def)
next
  case (Cons v pre)
  have v: "v \<in> set WRAPPER_COMMANDS" "v \<notin> {''su'', ''eval'', ''chroot''}" "plain_program v"
    using Cons.prems plain_program_policy by (auto simp: plain_wrappers_def)
  have head: "skip_wrapper v (segment_of p (pre @ w # args)) = segment_of p (pre @ w # args)"
  proof (cases pre)
    case Nil
    then show ?thesis using skip_plain [OF assms(2)] by simp
  next
    case (Cons u us)
    then have "plain_program u" using Cons.prems plain_program_policy by (auto simp: plain_wrappers_def)
    then show ?thesis using skip_plain Cons by simp
  qed
  have "unwrap_loop wr (segment_of p (v # pre @ w # args)) = unwrap_loop (Some v) (segment_of p (pre @ w # args))"
    using v head by (simp add: piped_word_name plain_program_def Let_def)
  then show ?case using Cons by simp
qed

lemma unwrap_segment:
  assumes "set pre \<subseteq> plain_wrappers" and "plain_program w" and "w \<notin> set WRAPPER_COMMANDS"
  shows "unwrap_loop None (strip_command_prefix (segment_of p (pre @ w # args))) = Program (segment_of p (w # args))"
proof -
  have "strip_command_prefix (segment_of p (pre @ w # args)) = segment_of p (pre @ w # args)"
  proof (cases pre)
    case Nil
    then show ?thesis using strip_plain [OF assms(2)] by simp
  next
    case (Cons u us)
    then have "plain_program u" using assms(1) plain_program_policy by (auto simp: plain_wrappers_def)
    then show ?thesis using strip_plain Cons by simp
  qed
  then show ?thesis using unwrap_wrappers [OF assms] by simp
qed

lemma assess_segment_shell:
  assumes "set pre \<subseteq> plain_wrappers" and "sh \<in> set SHELL_COMMANDS"
  shows "assess_segment ctx (segment_of p (pre @ sh # args)) =
    concat (map (assess_text ctx) (filter (\<lambda>w. \<not> (starts_with w ''-'' \<and> length w > 1)) args))"
proof -
  have sh: "plain_program sh" "sh \<notin> set WRAPPER_COMMANDS"
    using assms(2) plain_program_policy policy_disjoint by (auto simp: list_all_iff)
  have "filter (\<lambda>t. \<not> is_flag t) (segment_of p args) =
      segment_of p (filter (\<lambda>w. \<not> (starts_with w ''-'' \<and> length w > 1)) args)"
    by (induction args) (simp_all add: is_flag_piped)
  moreover have "map (\<lambda>t. assess_text ctx (tok_text t)) (segment_of p ws) = map (assess_text ctx) ws" for ws
    by (induction ws) simp_all
  ultimately show ?thesis
    using unwrap_segment [OF assms(1) sh, of p args] assms(2) sh
    by (subst assess_segment.simps) (simp add: piped_word_name plain_program_def assess_text_def [symmetric])
qed

lemma assess_segment_destructive:
  assumes "set pre \<subseteq> plain_wrappers" and "prog \<in> set DESTRUCTIVE_COMMANDS"
  shows "assess_segment ctx (segment_of p (pre @ prog # args)) = assess_program ctx prog (segment_of p (prog # args))"
proof -
  have prog: "plain_program prog" "prog \<notin> set WRAPPER_COMMANDS" "prog \<notin> set SHELL_COMMANDS"
    using assms(2) plain_program_policy policy_disjoint by (auto simp: list_all_iff)
  show ?thesis
    using unwrap_segment [OF assms(1) prog(1,2), of p args] prog
    by (subst assess_segment.simps) (simp add: piped_word_name plain_program_def)
qed

text \<open>An operand without an option dash, a glob, a \<open>key=value\<close> or grouping punctuation.\<close>

definition plain_operand :: "string \<Rightarrow> bool" where
  "plain_operand w \<longleftrightarrow> \<not> starts_with w ''-'' \<and>
     set w \<inter> {CHR ''('', CHR ''{'', CHR ''!'', CHR '')'', CHR ''}'', CHR '';'', CHR ''='', CHR ''*'', CHR ''?''} = {}"

lemma dropWhile_none: "set xs \<inter> A = {} \<Longrightarrow> dropWhile (\<lambda>c. c \<in> A) xs = xs"
  by (cases xs) auto

lemma target_raw_plain: "plain_operand w \<Longrightarrow> target_raw (piped_word p w) = w"
proof -
  assume "plain_operand w"
  then have w: "set w \<inter> {CHR ''('', CHR ''{'', CHR ''!''} = {}" "set w \<inter> {CHR '')'', CHR ''}'', CHR '';''} = {}"
      "CHR ''='' \<notin> set w" by (auto simp: plain_operand_def)
  have "dropWhile (\<lambda>c. c \<in> {CHR '')'', CHR ''}'', CHR '';''}) (rev w) = rev w"
    using w(2) by (intro dropWhile_none) simp
  then have "unwrap_group_punctuation w = w"
    using dropWhile_none [OF w(1)] by (simp add: unwrap_group_punctuation_def)
  then show ?thesis using split_once_None [OF w(3)] by (simp add: target_raw_def Let_def)
qed

lemma classify_plain:
  assumes "plain_operand w" and "is_catastrophic_target (expand w ctx) ctx"
  shows "\<exists>f. classify_token ctx recursive (piped_word p w) = Some f \<and> rf_level f = Catastrophic"
proof -
  have "CHR ''*'' \<notin> set w" "CHR ''?'' \<notin> set w" using assms(1) by (auto simp: plain_operand_def)
  then show ?thesis
    using target_raw_plain [OF assms(1)] assms(2) by (simp add: classify_token_def Let_def classify_target_def)
qed

lemma find_not_destructive: "prog \<in> set DESTRUCTIVE_COMMANDS \<Longrightarrow> prog \<noteq> ''find''"
  by (auto simp: DESTRUCTIVE_COMMANDS_def)

lemma operand_targets_destructive:
  "prog \<in> set DESTRUCTIVE_COMMANDS \<Longrightarrow> operand_targets prog (segment_of p (prog # args)) =
    filter (\<lambda>t. \<not> is_flag t) (segment_of p args)"
proof -
  have "filter (\<lambda>t. \<not> is_flag t \<and> \<not> tok_is_operator t) (segment_of p args) = filter (\<lambda>t. \<not> is_flag t) (segment_of p args)"
    by (induction args) simp_all
  then show "prog \<in> set DESTRUCTIVE_COMMANDS \<Longrightarrow> ?thesis"
    using find_not_destructive [of prog] by (simp add: operand_targets_def is_triggered_def)
qed

lemma no_redirects [simp]: "filter tok_is_truncating (segment_of p ws) = []"
  by (induction ws) simp_all

lemma assess_program_destructive:
  assumes "prog \<in> set DESTRUCTIVE_COMMANDS" and "w \<in> set args" and "plain_operand w"
    and "is_catastrophic_target (expand w ctx) ctx"
  shows "\<exists>f \<in> set (assess_program ctx prog (segment_of p (prog # args))). rf_level f = Catastrophic"
proof -
  let ?ts = "segment_of p (prog # args)" and ?targets = "filter (\<lambda>t. \<not> is_flag t) (segment_of p args)"
  have mem: "piped_word p w \<in> set ?targets"
    using assms(2,3) by (auto simp: segment_of_def is_flag_piped plain_operand_def)
  then have ne: "?targets \<noteq> []" by (metis empty_iff list.set(1))
  have tr: "is_triggered prog ?ts" using assms(1) by (simp add: is_triggered_def)
  have redirects: "filter tok_is_truncating ?ts = []" by (rule no_redirects)
  obtain f where f: "classify_token ctx (list_ex is_recursive_flag ?ts) (piped_word p w) = Some f" "rf_level f = Catastrophic"
    using classify_plain [OF assms(3,4)] by blast
  then have "f \<in> set (List.map_filter (classify_token ctx (list_ex is_recursive_flag ?ts)) ?targets)"
    using mem by (auto simp: set_map_filter)
  then have "f \<in> set (assess_program ctx prog ?ts)"
    unfolding assess_program_def Let_def operand_targets_destructive [OF assms(1)] redirects append_Nil2
    using tr ne by simp
  then show ?thesis using f(2) by blast
qed

lemma set_map2_segment:
  "length ps = length argvs \<Longrightarrow> ws \<in> set argvs \<Longrightarrow> \<exists>p. segment_of p ws \<in> set (map2 segment_of ps argvs)"
  by (induction ps argvs rule: list_induct2) auto

lemma script_segment:
  assumes "script_of cmds argvs" and "ws \<in> set argvs"
  shows "\<exists>p. segment_of p ws \<in> set (map2 segment_of (False # map (\<lambda>c. snd c = ''|'') cmds) argvs)"
proof -
  have "length cmds = length argvs" using assms(1) by (simp add: script_of_def list_all2_lengthD)
  then have "length (butlast (False # map (\<lambda>c. snd c = ''|'') cmds)) = length argvs"
    by (simp del: butlast.simps)
  then have "\<exists>p. segment_of p ws \<in> set (map2 segment_of (butlast (False # map (\<lambda>c. snd c = ''|'') cmds)) argvs)"
    using assms(2) by (rule set_map2_segment)
  moreover have "set (map2 segment_of (butlast xs) ys) \<subseteq> set (map2 segment_of xs ys)" for xs ys
    unfolding set_map by (intro image_mono) (auto simp: set_zip nth_butlast)
  ultimately show ?thesis by (meson subsetD)
qed

section \<open>Commands that destroy nothing\<close>

definition quiet_program :: "string \<Rightarrow> bool" where
  "quiet_program w \<longleftrightarrow> plain_program w \<and>
     w \<notin> set (WRAPPER_COMMANDS @ SHELL_COMMANDS @ DESTRUCTIVE_COMMANDS @ map fst CONDITIONALLY_DESTRUCTIVE)"

lemma lookup_flags_None: "n \<notin> set (map fst table) \<Longrightarrow> lookup_flags table n = None"
  by (induction table) (auto simp: lookup_flags_def)

lemma assess_segment_quiet:
  assumes "quiet_program w"
  shows "assess_segment ctx (segment_of p (w # args)) = []"
proof -
  have w: "plain_program w" "w \<notin> set WRAPPER_COMMANDS" "w \<notin> set SHELL_COMMANDS" "w \<notin> set DESTRUCTIVE_COMMANDS"
      "w \<notin> set (map fst CONDITIONALLY_DESTRUCTIVE)" using assms by (simp_all add: quiet_program_def)
  have "\<not> is_triggered w (segment_of p (w # args))"
    using w(4) lookup_flags_None [OF w(5)] by (simp add: is_triggered_def)
  then have "assess_program ctx w (segment_of p (w # args)) = []"
    using no_redirects [of p "w # args"] by (simp add: assess_program_def)
  then show ?thesis
    using unwrap_segment [OF _ w(1,2), of "[]" p args] w(1,3)
    by (subst assess_segment.simps) (simp add: piped_word_name plain_program_def)
qed

lemma no_substitutions:
  "CHR 0x60 \<notin> set s \<Longrightarrow> \<not> str_contains s ''$('' \<Longrightarrow> extract_substitutions s = []"
proof (induction s)
  case (Cons c s)
  have "\<not> str_contains s ''$(''" using Cons.prems(2) unfolding str_contains_iff by (metis append_Cons)
  moreover have "\<not> (c = CHR ''$'' \<and> starts_with s ''('')"
    using Cons.prems(2) by (auto simp: str_contains_iff starts_with_iff)
  moreover have "c \<noteq> CHR 0x60" "CHR 0x60 \<notin> set s" using Cons.prems(1) by auto
  ultimately show ?case using Cons.IH by simp
qed simp

lemma map2_segments_quiet:
  "\<forall>ws \<in> set argvs. assess_segment ctx (segment_of True ws) = [] \<and> assess_segment ctx (segment_of False ws) = [] \<Longrightarrow>
   concat (map (assess_segment ctx) (map2 segment_of ps argvs)) = []"
proof (induction argvs arbitrary: ps)
  case (Cons ws argvs)
  then show ?case
  proof (cases ps)
    case (Cons q qs)
    then show ?thesis using Cons.IH [of qs] Cons.prems by (cases q) simp_all
  qed simp
qed simp

section \<open>Decoys\<close>

text \<open>A harmless substitution uses up one of the eight levels the pending stack may follow.\<close>

lemma pending_snoc:
  assumes "trim x \<noteq> []" and "assess_text ctx x = []" and "extract_substitutions x = []"
    and that: "d \<le> 8"
  shows "assess_pending ctx d (xs @ [x]) = assess_pending ctx (min 8 (d + 1)) xs"
proof (cases "d < 8")
  case True
  then show ?thesis using assms by (subst assess_pending.simps) (simp add: Let_def)
next
  case False
  then have "d = 8" using that by simp
  then show ?thesis using assms by (subst assess_pending.simps) (simp add: Let_def)
qed

lemma pending_decoys:
  assumes "trim x \<noteq> []" and "assess_text ctx x = []" and "extract_substitutions x = []" and "d \<le> 8"
  shows "assess_pending ctx d (xs @ replicate n x) = assess_pending ctx (min 8 (d + n)) xs"
  using assms(4)
proof (induction n arbitrary: d)
  case (Suc n)
  have "xs @ replicate (Suc n) x = (xs @ replicate n x) @ [x]" by (simp add: replicate_append_same)
  then have "assess_pending ctx d (xs @ replicate (Suc n) x) = assess_pending ctx (min 8 (d + 1)) (xs @ replicate n x)"
    using pending_snoc [OF assms(1-3) Suc.prems, of "xs @ replicate n x"] by metis
  also have "\<dots> = assess_pending ctx (min 8 (min 8 (d + 1) + n)) xs" by (rule Suc.IH) simp
  also have "min 8 (min 8 (d + 1) + n) = min 8 (d + Suc n)" by (simp add: min_def)
  finally show ?case .
qed simp

section \<open>Properties\<close>

text \<open>C11 The decision. A command runs exactly when its worst finding is at most low, or is a question that
  a substantive justification answers; a catastrophic finding is refused whatever the justification, and
  repeating a questioned call without a new justification gives the same refusal. The bash tool runs a
  command exactly when the gate allows it.\<close>

theorem gate_decision:
  "(gate (assess c ctx) j = Allow \<longleftrightarrow>
      (\<forall>f \<in> set (ra_findings (assess c ctx)). rf_level f \<le> Low) \<or>
      is_substantive j \<and> (\<forall>f \<in> set (ra_findings (assess c ctx)). rf_level f \<le> Confirm)) \<and>
   ((\<exists>f \<in> set (ra_findings (assess c ctx)). rf_level f = Catastrophic) \<longleftrightarrow>
      gate (assess c ctx) j = Deny (deny_reason (assess c ctx))) \<and>
   (\<not> is_substantive j \<longrightarrow> gate (assess c ctx) j = gate (assess c ctx) \<lparr>js_text = None\<rparr>) \<and>
   (destructive_command_refusal c just wd home = None \<longleftrightarrow>
      gate (assess c \<lparr>rc_working_dir = wd, rc_home_dir = home\<rparr>) \<lparr>js_text = just\<rparr> = Allow)"
proof -
  let ?l = "ra_level (assess c ctx)" and ?fs = "set (ra_findings (assess c ctx))"
  have ge: "l \<le> ?l \<longleftrightarrow> (\<exists>f \<in> ?fs. l \<le> rf_level f)" if "l \<noteq> Safe" for l
    by (subst level_assess, subst foldr_max_ge [OF that]) auto
  have le: "(\<forall>f \<in> ?fs. rf_level f \<le> Low) \<longleftrightarrow> ?l \<le> Low" "(\<forall>f \<in> ?fs. rf_level f \<le> Confirm) \<longleftrightarrow> ?l \<le> Confirm"
  proof -
    have up: "\<not> Confirm \<le> l \<longleftrightarrow> l \<le> Low" "\<not> Catastrophic \<le> l \<longleftrightarrow> l \<le> Confirm" for l
      by (cases l; simp add: less_eq_RiskLevel_def)+
    show "(\<forall>f \<in> ?fs. rf_level f \<le> Low) \<longleftrightarrow> ?l \<le> Low" using ge [of Confirm] up(1) by auto
    show "(\<forall>f \<in> ?fs. rf_level f \<le> Confirm) \<longleftrightarrow> ?l \<le> Confirm" using ge [of Catastrophic] up(2) by auto
  qed
  have none: "\<not> is_substantive \<lparr>js_text = None\<rparr>" by (simp add: is_substantive_def)
  have tool: "destructive_command_refusal c just wd home = None \<longleftrightarrow>
      gate (assess c \<lparr>rc_working_dir = wd, rc_home_dir = home\<rparr>) \<lparr>js_text = just\<rparr> = Allow"
    by (auto simp: destructive_command_refusal_def gate_def runs_immediately_def Let_def
        split: RiskLevel.splits GateOutcome.splits)
  show ?thesis
    unfolding le assess_Catastrophic [symmetric] tool
    using none by (cases ?l) (simp_all add: gate_def less_eq_RiskLevel_def)
qed

theorem gate_decision_witness:
  "gate (assess ''ls'' demo_ctx) \<lparr>js_text = Some ''yes''\<rparr> = gate (assess ''ls'' demo_ctx) \<lparr>js_text = None\<rparr>"
proof -
  have "\<not> is_substantive \<lparr>js_text = Some ''yes''\<rparr>" by code_simp
  then show ?thesis
    using gate_decision [where c = "''ls''" and ctx = demo_ctx and j = "\<lparr>js_text = Some ''yes''\<rparr>"] by blast
qed

text \<open>C10 Destruction of a protected path is refused, whatever the justification, in a spelled-out script: commands
  that each end with \<open>&&\<close>, \<open>||\<close>, \<open>;\<close>, \<open>|\<close> or a newline, words and separators one blank apart, each word bare (without
  quotes, backslash, blank, \<open>;\<close>, \<open>&\<close>, \<open>|\<close>, \<open><\<close>, \<open>>\<close>) or in single quotes. It is enough that one command is a stack of wrapper programs of the policy (other
  than \<open>su\<close>, \<open>eval\<close> and \<open>chroot\<close>, each without operands of its own), then a destructive program of the policy with,
  among its arguments, a word that is no option, glob, \<open>key=value\<close> or grouping and expands to a protected path.\<close>

theorem protected_destruction_denied:
  assumes "script_of cmds argvs" and "pre @ prog # args \<in> set argvs"
    and "set pre \<subseteq> plain_wrappers" and "prog \<in> set DESTRUCTIVE_COMMANDS"
    and "w \<in> set args" and "plain_operand w" and "is_catastrophic_target (expand w ctx) ctx"
  shows "gate (assess (script_text cmds) ctx) j = Deny (deny_reason (assess (script_text cmds) ctx))"
proof -
  obtain p where seg: "segment_of p (pre @ prog # args) \<in> set (split_segments (script_text cmds))"
    using script_segment [OF assms(1,2)] script_roundtrip_rule [OF assms(1)] by metis
  obtain f where f: "f \<in> set (assess_segment ctx (segment_of p (pre @ prog # args)))" "rf_level f = Catastrophic"
    using assess_program_destructive [OF assms(4-7)] assess_segment_destructive [OF assms(3,4)] by metis
  have "f \<in> set (assess_text ctx (script_text cmds))" using seg f(1) by (auto simp: assess_text_def)
  then have "\<exists>f \<in> set (ra_findings (assess (script_text cmds) ctx)). rf_level f = Catastrophic"
    using f(2) by (auto simp: findings_assess)
  then have "ra_level (assess (script_text cmds) ctx) = Catastrophic" by (simp only: assess_Catastrophic)
  then show ?thesis by (simp add: gate_def)
qed

theorem protected_destruction_denied_witness:
  "gate (assess (script_text [([''cd'', ''/tmp''], ''&&''), ([''sudo'', ''rm'', ''-rf'', quoted ''~/p/../.ssh''], '';'')]) demo_ctx) \<lparr>js_text = Some ''the user asked me to do this''\<rparr> =
   Deny (deny_reason (assess (script_text [([''cd'', ''/tmp''], ''&&''), ([''sudo'', ''rm'', ''-rf'', quoted ''~/p/../.ssh''], '';'')]) demo_ctx))"
proof (rule protected_destruction_denied [where argvs = "[[''cd'', ''/tmp''], [''sudo'', ''rm'', ''-rf'', ''~/p/../.ssh'']]"
      and pre = "[''sudo'']" and prog = "''rm''" and args = "[''-rf'', ''~/p/../.ssh'']" and w = "''~/p/../.ssh''"])
  show "script_of [([''cd'', ''/tmp''], ''&&''), ([''sudo'', ''rm'', ''-rf'', quoted ''~/p/../.ssh''], '';'')]
      [[''cd'', ''/tmp''], [''sudo'', ''rm'', ''-rf'', ''~/p/../.ssh'']]"
    by (simp add: script_of_def spells_def special_chars_def SEGMENT_SEPARATORS_def)
  show "is_catastrophic_target (expand ''~/p/../.ssh'' demo_ctx) demo_ctx" by code_simp
  show "plain_operand ''~/p/../.ssh''" by (simp add: plain_operand_def starts_with_iff)
qed (simp_all add: plain_wrappers_def WRAPPER_COMMANDS_def DESTRUCTIVE_COMMANDS_def)

text \<open>A shell is transparent: a script handed to a shell, behind any stack of wrapper programs, is assessed
  as the command line it is.\<close>

theorem shell_script_transparent:
  assumes "set pre \<subseteq> plain_wrappers" and "sh \<in> set SHELL_COMMANDS" and "\<not> starts_with s ''-''"
  shows "assess_segment ctx (segment_of p (pre @ [sh, ''-c'', s])) = concat (map (assess_segment ctx) (split_segments s))"
  unfolding assess_segment_shell [OF assms(1,2)]
  using assms(3) by (simp add: assess_text_def starts_with_iff)

theorem shell_script_transparent_witness:
  "assess_segment demo_ctx (segment_of False [''sudo'', ''bash'', ''-c'', ''rm -rf ~'']) =
   concat (map (assess_segment demo_ctx) (split_segments ''rm -rf ~''))"
  using shell_script_transparent [of "[''sudo'']" "''bash''" "''rm -rf ~''" demo_ctx False]
  by (simp add: plain_wrappers_def WRAPPER_COMMANDS_def SHELL_COMMANDS_def starts_with_iff)

text \<open>No friction: a script whose programs are on none of the lists, without redirects or command
  substitutions, has no finding whatever its operands, and runs without a justification.\<close>

theorem quiet_script_allowed:
  assumes "script_of cmds argvs" and "\<forall>ws \<in> set argvs. quiet_program (hd ws)"
    and "CHR 0x60 \<notin> set (script_text cmds)" and "\<not> str_contains (script_text cmds) ''$(''"
  shows "ra_findings (assess (script_text cmds) ctx) = [] \<and> gate (assess (script_text cmds) ctx) j = Allow"
proof -
  have ne: "ws \<noteq> []" if "ws \<in> set argvs" for ws
    using assms(1) that by (fastforce simp: script_of_def list_all2_conv_all_nth in_set_conv_nth)
  have quiet: "assess_segment ctx (segment_of p ws) = []" if "ws \<in> set argvs" for p ws
    using assess_segment_quiet [of "hd ws" ctx p "tl ws"] assms(2) ne [OF that] that by simp
  have "assess_text ctx (script_text cmds) = []"
    unfolding assess_text_def script_roundtrip_rule [OF assms(1)]
    using quiet by (intro map2_segments_quiet) blast
  moreover have "extract_substitutions (script_text cmds) = []" by (rule no_substitutions [OF assms(3,4)])
  ultimately have none: "ra_findings (assess (script_text cmds) ctx) = []"
    by (simp add: findings_assess assess_pending.simps)
  then show ?thesis using assess_Safe [OF none] by (simp add: gate_def)
qed

theorem quiet_script_allowed_witness:
  "gate (assess (script_text [([''grep'', ''-rn'', quoted ''rm -rf ~'', ''/etc''], '';'')]) demo_ctx) \<lparr>js_text = None\<rparr> = Allow"
proof -
  have "script_of [([''grep'', ''-rn'', quoted ''rm -rf ~'', ''/etc''], '';'')] [[''grep'', ''-rn'', ''rm -rf ~'', ''/etc'']]"
    by (simp add: script_of_def spells_def special_chars_def SEGMENT_SEPARATORS_def)
  moreover have "quiet_program ''grep''" by code_simp
  moreover have "CHR 0x60 \<notin> set (script_text [([''grep'', ''-rn'', quoted ''rm -rf ~'', ''/etc''], '';'')])" by code_simp
  moreover have "\<not> str_contains (script_text [([''grep'', ''-rn'', quoted ''rm -rf ~'', ''/etc''], '';'')]) ''$(''" by code_simp
  ultimately show ?thesis
    using quiet_script_allowed [of _ "[[''grep'', ''-rn'', ''rm -rf ~'', ''/etc'']]" demo_ctx "\<lparr>js_text = None\<rparr>"] by simp
qed

text \<open>Command forms the assessment does not see, by example. Each of the first four lines is rated safe, although a
  shell runs \<open>rm -rf\<close> in it: after a single ampersand, after \<open>then\<close>, after a wrapper operand with a unit, and
  on the lines of a pipe after \<open>|&\<close>. So is a nested substitution that eight harmless ones stand behind,
  although alone it is followed and rated catastrophic.\<close>

lemma unseen_commands:
  "ra_level (assess ''ls & rm -rf ~'' demo_ctx) = Safe \<and>
   ra_level (assess ''if true; then rm -rf ~; fi'' demo_ctx) = Safe \<and>
   ra_level (assess ''timeout 5s rm -rf ~'' demo_ctx) = Safe \<and>
   ra_level (assess ''ls |& xargs rm -rf'' demo_ctx) = Safe \<and>
   ra_level (assess ''$($(rm -rf ~)) `a` `a` `a` `a` `a` `a` `a` `a`'' demo_ctx) = Safe \<and>
   ra_level (assess ''$($(rm -rf ~))'' demo_ctx) = Catastrophic"
proof (intro conjI)
  let ?c = "''$($(rm -rf ~)) `a` `a` `a` `a` `a` `a` `a` `a`''" and ?n = "''$(rm -rf ~)''"
  have subs: "extract_substitutions ?c = [?n] @ replicate 8 ''a''" "extract_substitutions ''$($(rm -rf ~))'' = [?n]"
    by code_simp+
  have top: "assess_text demo_ctx ?c = []" by code_simp
  have decoy: "trim ''a'' \<noteq> []" "assess_text demo_ctx ''a'' = []" "extract_substitutions ''a'' = []" by code_simp+
  have nested: "trim ?n \<noteq> []" "assess_text demo_ctx ?n = []" by code_simp+
  have "assess_pending demo_ctx 0 ([?n] @ replicate 8 ''a'') = assess_pending demo_ctx 8 [?n]"
    using pending_decoys [OF decoy, of 0 "[?n]" 8] by simp
  also have "\<dots> = []" using nested by (simp add: assess_pending.simps)
  finally have "ra_findings (assess ?c demo_ctx) = []" unfolding findings_assess top subs(1) by simp
  then show "ra_level (assess ?c demo_ctx) = Safe" by (rule assess_Safe)
  have "map rf_level (assess_pending demo_ctx 0 [?n]) = [Catastrophic]" by code_simp
  then obtain f where "assess_pending demo_ctx 0 [?n] = [f]" "rf_level f = Catastrophic" by (auto simp: map_eq_Cons_conv)
  then have "f \<in> set (ra_findings (assess ''$($(rm -rf ~))'' demo_ctx))"
    unfolding findings_assess subs(2) set_append by simp
  with \<open>rf_level f = Catastrophic\<close> show "ra_level (assess ''$($(rm -rf ~))'' demo_ctx) = Catastrophic"
    unfolding assess_Catastrophic by blast
qed (code_simp+)

end
