(* ===== verification/Dag_Sim.thy ===== *)
theory Dag_Sim
  imports Dag_Properties
begin

text \<open>
  The simulator that drives the engine to the end (\<open>crates/jcode-plan/src/dag/sim.rs\<close>). The scripted
  worker, a closure with its own mutable state, is a parameter: a function of that state. The driver's
  loop may run forever for some graphs, so it is a partial function; for reachable graphs it is shown to
  return.
\<close>

section \<open>The driver\<close>

datatype WorkerAction =
    ActComplete HandoffArtifact
  | ActExpand "NodeSpec list"
  | ActInjectGap "NodeSpec list"
  | ActFail

record SimReport =
  sr_steps :: nat
  sr_completed :: nat
  sr_failed :: nat
  sr_stalled :: bool

type_synonym 's Worker = "'s \<Rightarrow> NodeId \<Rightarrow> NodeKind \<Rightarrow> string \<Rightarrow> 's \<times> WorkerAction"

definition sim_report :: "TaskGraph \<Rightarrow> nat \<Rightarrow> bool \<Rightarrow> SimReport" where
  "sim_report g steps stalled = \<lparr>sr_steps = steps,
     sr_completed = length (filter is_done (tg_nodes g)),
     sr_failed = length (filter (\<lambda>n. tn_status n = NodeFailed) (tg_nodes g)), sr_stalled = stalled\<rparr>"

definition apply_action :: "TaskGraph \<Rightarrow> NodeId \<Rightarrow> string \<Rightarrow> WorkerAction \<Rightarrow> DagError + TaskGraph" where
  "apply_action g i w action = (case action of
     ActComplete artifact \<Rightarrow> complete_node g i w artifact
   | ActExpand children \<Rightarrow> and_then (expand_node g i w children) (\<lambda>(g', _). Inr g')
   | ActInjectGap new_nodes \<Rightarrow> and_then (inject_from_gate g i w new_nodes) (\<lambda>(g', _). Inr g')
   | ActFail \<Rightarrow> fail_node g i w)"

text \<open>One node of a round. An error leaves the graph as it was after the dispatch.\<close>

definition sim_turn :: "'s Worker \<Rightarrow> nat \<Rightarrow> nat \<Rightarrow> NodeId \<times> NodeKind \<Rightarrow> TaskGraph \<times> 's \<times> nat \<Rightarrow>
    (DagError \<times> TaskGraph) + (TaskGraph \<times> 's \<times> nat)" where
  "sim_turn worker max_workers idx node st =
     (let (g, s, steps) = st; (i, kind) = node;
          worker_name = ''w'' @ nat_to_string (idx mod max_workers);
          (sent, g1) = dispatch g i worker_name
      in if \<not> sent then Inr (g, s, steps)
      else (let (s', action) = worker s i kind (assemble_input g1 i)
            in case apply_action g1 i worker_name action of
                 Inl e \<Rightarrow> Inl (e, g1)
               | Inr g2 \<Rightarrow> Inr (g2, s', steps + 1)))"

fun sim_round :: "'s Worker \<Rightarrow> nat \<Rightarrow> nat \<Rightarrow> (NodeId \<times> NodeKind) list \<Rightarrow> TaskGraph \<times> 's \<times> nat \<Rightarrow>
    (DagError \<times> TaskGraph) + (TaskGraph \<times> 's \<times> nat)" where
  "sim_round worker max_workers idx [] st = Inr st"
| "sim_round worker max_workers idx (node # nodes) st =
     and_then (sim_turn worker max_workers idx node st) (sim_round worker max_workers (idx + 1) nodes)"

definition sim_ready :: "TaskGraph \<Rightarrow> nat \<Rightarrow> (NodeId \<times> NodeKind) list" where
  "sim_ready g max_workers = map (\<lambda>n. (tn_id n, tn_kind n)) (take max_workers (ready_nodes g))"

partial_function (option) sim_loop :: "'s Worker \<Rightarrow> nat \<Rightarrow> nat \<Rightarrow> TaskGraph \<times> 's \<times> nat \<Rightarrow>
    ((DagError \<times> TaskGraph) + (TaskGraph \<times> 's \<times> SimReport)) option" where
  "sim_loop worker max_workers max_steps st =
     (case st of (g, s, steps) \<Rightarrow>
       if all_terminal g then Some (Inr (g, s, sim_report g steps False))
       else if steps \<ge> max_steps then Some (Inr (g, s, sim_report g steps True))
       else if sim_ready g max_workers = [] then Some (Inr (g, s, sim_report g steps True))
       else (case sim_round worker max_workers 0 (sim_ready g max_workers) (g, s, steps) of
           Inl e \<Rightarrow> Some (Inl e)
         | Inr st' \<Rightarrow> sim_loop worker max_workers max_steps st'))"

definition sim_run :: "TaskGraph \<Rightarrow> nat \<Rightarrow> nat \<Rightarrow> 's Worker \<Rightarrow> 's \<Rightarrow>
    ((DagError \<times> TaskGraph) + (TaskGraph \<times> 's \<times> SimReport)) option" where
  "sim_run g max_workers max_steps worker s = sim_loop worker max_workers max_steps (g, s, 0)"

section \<open>Scripted artifacts\<close>

definition deep_artifact :: "string \<Rightarrow> HandoffArtifact" where
  "deep_artifact findings = artifact_default\<lparr>ha_findings := findings,
     ha_what_i_did_not_check := [''nothing material; covered the stated scope''],
     ha_confidence := Some ''high''\<rparr>"

definition before :: "string \<Rightarrow> string \<Rightarrow> string" where
  "before p s = (case find_sub p s of Some n \<Rightarrow> take n s | None \<Rightarrow> s)"

definition gate_pass_artifact :: "string \<Rightarrow> HandoffArtifact" where
  "gate_pass_artifact input =
     (let audited = List.map_filter (\<lambda>line. map_option (before '' ('') (strip_prefix ''## '' line)) (text_lines input)
      in brief (if audited = [] then ''gate passed: no audited nodes in scope''
         else ''gate passed; audited each node: '' @ join '', '' audited @ ''. No gaps remain.''))"

section \<open>Every turn is a run of engine operations\<close>

lemma apply_action_step: "apply_action g i w action = Inr g' \<Longrightarrow> dag_step g g'"
  by (cases action) (auto simp: apply_action_def and_then_Inr intro: dag_step.intros)

lemma sim_turn_Inr:
  assumes "sim_turn worker mw idx (i, k) (g, s, steps) = Inr (g', s', steps')"
  shows "(g' = g \<and> s' = s \<and> steps' = steps \<and> \<not> fst (dispatch g i (''w'' @ nat_to_string (idx mod mw)))) \<or>
    (\<exists>g1 w action. dispatch g i w = (True, g1) \<and> apply_action g1 i w action = Inr g' \<and> steps' = steps + 1)"
  using assms by (auto simp: sim_turn_def Let_def split: prod.splits if_splits sum.splits)

lemma sim_turn_Inl:
  assumes "sim_turn worker mw idx (i, k) (g, s, steps) = Inl (e, g')"
  shows "\<exists>w. dispatch g i w = (True, g')"
  using assms by (auto simp: sim_turn_def Let_def split: prod.splits if_splits sum.splits)

definition running :: "TaskGraph \<Rightarrow> NodeId set" where
  "running g = {tn_id n |n. n \<in> nodes_of g \<and> tn_status n = NodeRunning}"

lemma running_update:
  assumes N: "nodes_of g' = upd ` nodes_of g \<union> New" and new: "\<forall>n \<in> New. tn_status n \<noteq> NodeRunning"
    and id: "\<And>n. tn_id (upd n) = tn_id n" and stop: "\<And>n. tn_id n = i \<Longrightarrow> tn_status (upd n) \<noteq> NodeRunning"
    and keep: "\<And>n. tn_id n \<noteq> i \<Longrightarrow> tn_status (upd n) = tn_status n"
  shows "running g' \<subseteq> running g - {i}"
proof
  fix j assume "j \<in> running g'"
  then obtain k where k: "k \<in> nodes_of g'" "tn_status k = NodeRunning" "j = tn_id k" by (auto simp: running_def)
  then obtain n where n: "n \<in> nodes_of g" "k = upd n" using N new by blast
  have "tn_id n \<noteq> i" using stop [of n] k(2) n(2) by auto
  then show "j \<in> running g - {i}" using keep [of n] k n id [of n] by (auto simp: running_def)
qed

lemma running_modify:
  assumes wf: "dag_wf g" and id: "\<And>n. tn_id (f n) = tn_id n" and "\<And>n. tn_status (f n) \<noteq> NodeRunning"
  shows "running (tg_modify g i f) \<subseteq> running g - {i}"
proof (rule running_update)
  show "nodes_of (tg_modify g i f) = (\<lambda>n. if tn_id n = i then f n else n) ` nodes_of g \<union> {}"
    by (simp add: nodes_modify [OF dag_wfD(1) [OF wf]])
qed (use assms in auto)

lemma expand_gates_not_running: "n \<in> set (expand_gates g i r children) \<Longrightarrow> tn_status n \<noteq> NodeRunning"
  by (auto simp: expand_gates_def gate_node_def split: if_splits)

lemma apply_action_running:
  assumes wf: "dag_wf g" and ok: "apply_action g i w action = Inr g'"
  shows "running g' \<subseteq> running g - {i}"
proof (cases action)
  case (ActComplete a)
  then have "complete_node g i w a = Inr g'" using ok by (simp add: apply_action_def)
  then have "g' = tg_modify g i (\<lambda>n. n\<lparr>tn_status := NodeDone, tn_output := Some a\<rparr>)"
    by (auto simp: complete_node_def and_then_Inr split: if_splits)
  then show ?thesis using running_modify [OF wf] by simp
next
  case (ActExpand children)
  then obtain out where e: "expand_node g i w children = Inr (g', out)"
    using ok by (auto simp: apply_action_def and_then_Inr)
  show ?thesis
    by (rule expand_node_Inr [OF wf e], rule running_update, assumption)
      (auto simp: flip_composite_def dest: expand_gates_not_running)
next
  case (ActInjectGap specs)
  then obtain ids where e: "inject_from_gate g i w specs = Inr (g', ids)"
    using ok by (auto simp: apply_action_def and_then_Inr)
  show ?thesis
  proof (rule inject_from_gate_Inr [OF wf e])
    fix x assume x: "tg_get g i = Some x"
      and N: "nodes_of g' = inject_update x ids ` nodes_of g \<union> batch_nodes specs (tn_parent x) OriginGap"
    have "tn_id x = i" by (rule get_node(2) [OF wf x])
    show ?thesis
    proof (rule running_update [OF N])
      show "\<forall>n \<in> batch_nodes specs (tn_parent x) OriginGap. tn_status n \<noteq> NodeRunning" by simp
      fix n
      show "tn_id (inject_update x ids n) = tn_id n"
        by (simp add: inject_update_def requeue_gate_def add_dependencies_def)
      show "tn_status (inject_update x ids n) \<noteq> NodeRunning" if "tn_id n = i"
        using that \<open>tn_id x = i\<close> by (simp add: inject_update_def requeue_gate_def)
      show "tn_status (inject_update x ids n) = tn_status n" if "tn_id n \<noteq> i"
        using that \<open>tn_id x = i\<close> by (simp add: inject_update_def add_dependencies_def)
    qed
  qed
next
  case ActFail
  then have "fail_node g i w = Inr g'" using ok by (simp add: apply_action_def)
  then have "g' = tg_modify g i (\<lambda>n. n\<lparr>tn_status := NodeFailed\<rparr>)"
    by (auto simp: fail_node_def and_then_Inr split: if_splits)
  then show ?thesis using running_modify [OF wf] by simp
qed

lemma dispatch_running: "dag_wf g \<Longrightarrow> dispatch g i w = (True, g') \<Longrightarrow> running g' \<subseteq> insert i (running g)"
  by (erule dispatch_True) (auto simp: running_def nodes_modify [OF dag_wfD(1)])

section \<open>Rounds\<close>

lemma sim_turn_state:
  assumes wf: "dag_wf g" and turn: "sim_turn worker mw idx (i, k) (g, s, steps) = Inr (g', s', steps')"
  shows "dag_step\<^sup>*\<^sup>* g g' \<and> running g' \<subseteq> running g \<and> steps \<le> steps' \<and> steps' \<le> steps + 1 \<and>
    (i \<in> tn_id ` set (ready_nodes g) \<longrightarrow> steps' = steps + 1)"
  using sim_turn_Inr [OF turn]
proof
  assume "g' = g \<and> s' = s \<and> steps' = steps \<and> \<not> fst (dispatch g i (''w'' @ nat_to_string (idx mod mw)))"
  then show ?thesis using dispatch_iff [OF dag_wfD(1) [OF wf]] by simp
next
  assume "\<exists>g1 w action. dispatch g i w = (True, g1) \<and> apply_action g1 i w action = Inr g' \<and> steps' = steps + 1"
  then obtain g1 w action where d: "dispatch g i w = (True, g1)" and a: "apply_action g1 i w action = Inr g'"
    and n: "steps' = steps + 1" by blast
  have s1: "dag_step g g1" using d by (rule step_dispatch)
  have wf1: "dag_wf g1" using dag_run.step_inv [OF s1 wf] .
  have "dag_step\<^sup>*\<^sup>* g g'" using s1 apply_action_step [OF a] by (meson rtranclp.intros)
  moreover have "running g' \<subseteq> running g"
    using dispatch_running [OF wf d] apply_action_running [OF wf1 a] by blast
  ultimately show ?thesis using n by simp
qed

lemma sim_round_state:
  assumes "dag_wf g" and "sim_round worker mw idx nodes (g, s, steps) = Inr (g', s', steps')"
  shows "dag_step\<^sup>*\<^sup>* g g' \<and> running g' \<subseteq> running g \<and> steps \<le> steps' \<and> steps' \<le> steps + length nodes \<and>
    (\<forall>i k rest. nodes = (i, k) # rest \<and> i \<in> tn_id ` set (ready_nodes g) \<longrightarrow> steps < steps')"
  using assms
proof (induction nodes arbitrary: g s steps idx)
  case (Cons node nodes)
  obtain i k where node: "node = (i, k)" by (cases node)
  obtain g1 s1 n1 where t: "sim_turn worker mw idx (i, k) (g, s, steps) = Inr (g1, s1, n1)"
    and r: "sim_round worker mw (idx + 1) nodes (g1, s1, n1) = Inr (g', s', steps')"
    using Cons.prems(2) node by (auto simp: and_then_Inr)
  note st = sim_turn_state [OF Cons.prems(1) t]
  have "dag_wf g1" using st Cons.prems(1) dag_run.steps_inv by blast
  note IH = Cons.IH [OF this r]
  have "dag_step\<^sup>*\<^sup>* g g'" using st IH by (meson rtranclp_trans)
  then show ?case using st IH node by auto
qed simp

lemma sim_turn_error:
  assumes "sim_turn worker mw idx (i, k) (g, s, steps) = Inl (e, g')"
  shows "dag_step\<^sup>*\<^sup>* g g'"
  using sim_turn_Inl [OF assms] by (auto intro: step_dispatch)

lemma sim_round_error:
  assumes "dag_wf g" and "sim_round worker mw idx nodes (g, s, steps) = Inl (e, g')"
  shows "dag_step\<^sup>*\<^sup>* g g'"
  using assms
proof (induction nodes arbitrary: g s steps idx)
  case (Cons node nodes)
  obtain i k where node: "node = (i, k)" by (cases node)
  show ?case
  proof (cases "sim_turn worker mw idx (i, k) (g, s, steps)")
    case (Inl a)
    then show ?thesis using Cons.prems node by (auto simp: and_then_def intro: sim_turn_error)
  next
    case (Inr st)
    obtain g1 s1 n1 where st: "st = (g1, s1, n1)" by (cases st)
    note step = sim_turn_state [OF Cons.prems(1) Inr [unfolded st]]
    have "dag_wf g1" using step Cons.prems(1) dag_run.steps_inv by blast
    then have "dag_step\<^sup>*\<^sup>* g1 g'"
      using Cons.IH [of g1 "idx + 1" s1 n1] Cons.prems(2) Inr node st by (simp add: and_then_def)
    then show ?thesis using step by (meson rtranclp_trans)
  qed
qed simp

lemma sim_ready_Nil: "sim_ready g mw = [] \<longleftrightarrow> mw = 0 \<or> ready_nodes g = []"
  by (simp add: sim_ready_def)

lemma sim_ready_Cons:
  assumes "sim_ready g mw = (i, k) # rest"
  shows "i \<in> tn_id ` set (ready_nodes g)"
  using assms by (cases "ready_nodes g"; cases mw) (auto simp: sim_ready_def)

text \<open>What a finished run guarantees.\<close>

definition sim_good :: "Mode \<Rightarrow> nat \<Rightarrow> nat \<Rightarrow> (DagError \<times> TaskGraph) + (TaskGraph \<times> 's \<times> SimReport) \<Rightarrow> bool" where
  "sim_good m mw ms r = (case r of
     Inl (e, g') \<Rightarrow> reachable m g'
   | Inr (g', s', rep) \<Rightarrow> reachable m g' \<and> running g' = {} \<and>
       rep = sim_report g' (sr_steps rep) (\<not> all_terminal g') \<and> sr_steps rep \<le> ms + mw \<and>
       (sr_stalled rep \<and> sr_steps rep < ms \<and> 0 < mw \<longrightarrow> ready_nodes g' = []))"

lemma sim_loop_good:
  assumes "reachable m g" and "running g = {}" and "steps \<le> ms + mw"
  shows "\<exists>r. sim_loop worker mw ms (g, s, steps) = Some r \<and> sim_good m mw ms r"
  using assms
proof (induction "ms - steps" arbitrary: g s steps rule: less_induct)
  case less
  note wf = reachable_wf [OF less.prems(1)]
  show ?case
  proof (cases "all_terminal g \<or> steps \<ge> ms \<or> sim_ready g mw = []")
    case True
    then show ?thesis
      using less.prems
      by (subst sim_loop.simps)
        (auto simp: sim_good_def sim_report_def sim_ready_Nil simp del: sim_loop.simps)
  next
    case False
    then obtain i k rest where nodes: "sim_ready g mw = (i, k) # rest" by (cases "sim_ready g mw") auto
    let ?round = "sim_round worker mw 0 (sim_ready g mw) (g, s, steps)"
    have loop: "sim_loop worker mw ms (g, s, steps) =
        (case ?round of Inl e \<Rightarrow> Some (Inl e) | Inr st' \<Rightarrow> sim_loop worker mw ms st')"
      using False by (subst sim_loop.simps) simp
    show ?thesis
    proof (cases ?round)
      case (Inl a)
      obtain e g' where a: "a = (e, g')" by (cases a)
      have "dag_step\<^sup>*\<^sup>* g g'" using sim_round_error [OF wf Inl [unfolded a]] .
      then have "reachable m g'" using less.prems(1) by (auto simp: reachable_def)
      then show ?thesis using loop Inl a by (simp add: sim_good_def)
    next
      case (Inr st')
      obtain g' s' steps' where st': "st' = (g', s', steps')" by (cases st')
      note step = sim_round_state [OF wf Inr [unfolded st']]
      have more: "steps < steps'" using step nodes sim_ready_Cons [OF nodes] by blast
      have "length (sim_ready g mw) \<le> mw" by (simp add: sim_ready_def)
      then have bound: "steps' \<le> ms + mw" using step False by linarith
      have reach: "reachable m g'" using step less.prems(1) by (auto simp: reachable_def)
      have "running g' = {}" using step less.prems(2) by blast
      moreover have "ms - steps' < ms - steps" using more False by auto
      ultimately have "\<exists>r. sim_loop worker mw ms (g', s', steps') = Some r \<and> sim_good m mw ms r"
        using less.hyps [of steps' g' s'] reach bound by blast
      then show ?thesis using loop Inr st' by simp
    qed
  qed
qed

section \<open>Properties\<close>

text \<open>C15 With at least one worker, the simulator returns on every reachable graph without running nodes, whatever the worker does: it
  takes at most \<open>max_steps + max_workers\<close> steps, leaves a reachable graph without running nodes, and its
  report tells the truth. It is stalled exactly when some node is not terminal; and a stall before the
  step limit means that a node has failed and nothing else can run.\<close>

theorem sim_run_returns:
  assumes "reachable m g" and "\<forall>n \<in> set (tg_nodes g). tn_status n \<noteq> NodeRunning" and "0 < max_workers"
  shows "\<exists>r. sim_run g max_workers max_steps worker s = Some r \<and> (case r of
      Inl (e, g') \<Rightarrow> reachable m g'
    | Inr (g', s', rep) \<Rightarrow> reachable m g' \<and> (\<forall>n \<in> set (tg_nodes g'). tn_status n \<noteq> NodeRunning) \<and>
        sr_steps rep \<le> max_steps + max_workers \<and> (sr_stalled rep \<longleftrightarrow> \<not> all_terminal g') \<and>
        sr_completed rep = length (filter is_done (tg_nodes g')) \<and>
        (sr_stalled rep \<and> sr_steps rep < max_steps \<longrightarrow>
           ready_nodes g' = [] \<and> (\<exists>n \<in> set (tg_nodes g'). tn_status n = NodeFailed)))"
proof -
  have none: "running h = {} \<longleftrightarrow> (\<forall>n \<in> set (tg_nodes h). tn_status n \<noteq> NodeRunning)" for h
    by (auto simp: running_def)
  obtain r where r: "sim_run g max_workers max_steps worker s = Some r" "sim_good m max_workers max_steps r"
    using sim_loop_good [OF assms(1), of 0 max_steps max_workers worker s] assms(2) none [of g]
    by (auto simp: sim_run_def)
  have failed: "\<exists>n \<in> set (tg_nodes h). tn_status n = NodeFailed"
    if h: "reachable m h" "running h = {}" "ready_nodes h = []" "\<not> all_terminal h" for h
  proof -
    note wf = reachable_wf [OF h(1)]
    have "\<exists>n \<in> nodes_of h. \<not> is_done n" using h(4) by (auto simp: all_terminal_def is_terminal_def is_done_def list_all_iff)
    then obtain k where k: "k \<in> nodes_of h" "\<not> is_done k" "deps_satisfied h k" using minimal_undone [OF wf] by blast
    then have "tn_status k \<noteq> NodeQueued" using h(3) set_ready_nodes [of k h] by auto
    then have "tn_status k = NodeFailed" using k h(2) none [of h] by (cases "tn_status k") (auto simp: is_done_def)
    then show ?thesis using k(1) by blast
  qed
  show ?thesis
  proof (cases r)
    case (Inl a)
    then show ?thesis using r by (cases a) (auto simp: sim_good_def)
  next
    case (Inr a)
    obtain g' s' rep where a: "a = (g', s', rep)" by (cases a)
    have good: "reachable m g'" "running g' = {}" "rep = sim_report g' (sr_steps rep) (\<not> all_terminal g')"
        "sr_steps rep \<le> max_steps + max_workers"
        "sr_stalled rep \<and> sr_steps rep < max_steps \<longrightarrow> ready_nodes g' = []"
      using r(2) Inr a assms(3) by (simp_all add: sim_good_def)
    have rep: "sr_stalled rep \<longleftrightarrow> \<not> all_terminal g'" "sr_completed rep = length (filter is_done (tg_nodes g'))"
      by (subst good(3), simp add: sim_report_def)+
    show ?thesis using r(1) Inr a good rep failed [OF good(1,2)] none [of g'] by auto
  qed
qed

theorem sim_run_returns_witness:
  "sim_run demo1 2 9 (\<lambda>k _ _ _. (k + 1, ActFail)) (0::nat) \<noteq> None"
proof -
  have r: "reachable Deep demo1"
    unfolding reachable_def using demo_step1 by (meson r_into_rtranclp step_seed)
  have "list_all (\<lambda>n. tn_status n = NodeQueued) (tg_nodes demo1)" by code_simp
  then have "\<forall>n \<in> set (tg_nodes demo1). tn_status n \<noteq> NodeRunning" by (auto simp: list_all_iff)
  from sim_run_returns [OF r this, of 2 9 "\<lambda>k _ _ _. (k + 1, ActFail)" "0::nat"]
  show ?thesis by auto
qed

end
