(* ===== verification/Tasker_Types.thy ===== *)
theory Tasker_Types
  imports Prelude "HOL-Library.Word"
begin

text \<open>
  The Tasker domain (\<open>crates/jcode-tasker-types/src/errors.rs\<close>, \<open>domain.rs\<close>, \<open>concurrency.rs\<close>): errors,
  typed identifiers, the feature and task life cycles, the entities, and the artifacts of concurrent
  authorship. A \<open>Uuid\<close> is a 128-bit word, compared as such; its text form belongs to the \<open>uuid\<close> crate and
  is a pair of function parameters. A \<open>DateTime\<close> is its number of nanoseconds since the epoch.
\<close>

section \<open>Life cycles (domain.rs)\<close>

datatype FeatureState = FeatureOpen | FeatureActive | FeatureClosed | FeatureArchived

fun feature_state_as_str :: "FeatureState \<Rightarrow> string" where
  "feature_state_as_str FeatureOpen = ''open''"
| "feature_state_as_str FeatureActive = ''active''"
| "feature_state_as_str FeatureClosed = ''closed''"
| "feature_state_as_str FeatureArchived = ''archived''"

datatype TaskState = Todo | InProgress | Blocked | Done | Cancelled

fun task_state_as_str :: "TaskState \<Rightarrow> string" where
  "task_state_as_str Todo = ''todo''"
| "task_state_as_str InProgress = ''in_progress''"
| "task_state_as_str Blocked = ''blocked''"
| "task_state_as_str Done = ''done''"
| "task_state_as_str Cancelled = ''cancelled''"

section \<open>Errors (errors.rs)\<close>

type_synonym ProjectRevision = "64 word"

datatype TaskerError =
    ErrInvalidId string string
  | ErrInvalidTransition string string string
  | ErrInvalidInput string string
  | ErrNotFound string string
  | ErrRevisionConflict ProjectRevision ProjectRevision
  | ErrDependencyCycle string "string list"
  | ErrConflict string

definition invalid_feature_transition :: "FeatureState \<Rightarrow> FeatureState \<Rightarrow> TaskerError" where
  "invalid_feature_transition a b =
     ErrInvalidTransition ''feature'' (feature_state_as_str a) (feature_state_as_str b)"

definition invalid_task_transition :: "TaskState \<Rightarrow> TaskState \<Rightarrow> TaskerError" where
  "invalid_task_transition a b = ErrInvalidTransition ''task'' (task_state_as_str a) (task_state_as_str b)"

definition error_code :: "TaskerError \<Rightarrow> string" where
  "error_code e = (case e of
     ErrInvalidId _ _ \<Rightarrow> ''invalid_id''
   | ErrInvalidTransition _ _ _ \<Rightarrow> ''invalid_transition''
   | ErrInvalidInput _ _ \<Rightarrow> ''invalid_input''
   | ErrNotFound _ _ \<Rightarrow> ''not_found''
   | ErrRevisionConflict _ _ \<Rightarrow> ''revision_conflict''
   | ErrDependencyCycle _ _ \<Rightarrow> ''dependency_cycle''
   | ErrConflict _ \<Rightarrow> ''conflict'')"

definition error_display :: "TaskerError \<Rightarrow> string" where
  "error_display e = (case e of
     ErrInvalidId prefix value \<Rightarrow> ''invalid '' @ prefix @ '' identifier: '' @ value
   | ErrInvalidTransition entity a b \<Rightarrow> ''invalid '' @ entity @ '' state transition from '' @ a @ '' to '' @ b
   | ErrInvalidInput field message \<Rightarrow> ''invalid '' @ field @ '': '' @ message
   | ErrNotFound entity i \<Rightarrow> entity @ '' not found: '' @ i
   | ErrRevisionConflict expected actual \<Rightarrow> ''project revision conflict: expected '' @ nat_to_string (unat expected) @
       '', current '' @ nat_to_string (unat actual)
   | ErrDependencyCycle entity cycle \<Rightarrow> entity @ '' dependency cycle: '' @ join '' -> '' cycle
   | ErrConflict message \<Rightarrow> message)"

section \<open>Identifiers and revisions (domain.rs)\<close>

type_synonym Uuid = "128 word"

text \<open>The macro \<open>typed_id!\<close>: \<open>show\<close> and \<open>parse\<close> are \<open>Uuid\<close>'s \<open>Display\<close> and \<open>parse_str\<close>.\<close>

definition typed_id_display :: "string \<Rightarrow> (Uuid \<Rightarrow> string) \<Rightarrow> Uuid \<Rightarrow> string" where
  "typed_id_display prefix show_uuid i = prefix @ show_uuid i"

definition typed_id_from_str :: "string \<Rightarrow> (string \<Rightarrow> Uuid option) \<Rightarrow> string \<Rightarrow> TaskerError + Uuid" where
  "typed_id_from_str prefix parse_uuid value = (case strip_prefix prefix value of
     None \<Rightarrow> Inl (ErrInvalidId prefix value)
   | Some raw \<Rightarrow> (case parse_uuid raw of
       Some i \<Rightarrow> Inr i
     | None \<Rightarrow> Inl (ErrInvalidId prefix value)))"

type_synonym ProjectId = Uuid
type_synonym FeatureId = Uuid
type_synonym TaskId = Uuid
type_synonym CandidateSetId = Uuid
type_synonym CandidateId = Uuid
type_synonym AdjudicationRoundId = Uuid
type_synonym BallotId = Uuid
type_synonym PromotionIntentId = Uuid
type_synonym DateTime = int

definition revision_next :: "ProjectRevision \<Rightarrow> ProjectRevision" where
  "revision_next r = r + 1"

section \<open>State machines (domain.rs)\<close>

definition feature_permits_work :: "FeatureState \<Rightarrow> bool" where
  "feature_permits_work s \<longleftrightarrow> s = FeatureOpen \<or> s = FeatureActive"

definition feature_can_transition_to :: "FeatureState \<Rightarrow> FeatureState \<Rightarrow> bool" where
  "feature_can_transition_to a b \<longleftrightarrow> a = b \<or> (case a of
     FeatureOpen \<Rightarrow> b \<in> {FeatureActive, FeatureClosed, FeatureArchived}
   | FeatureActive \<Rightarrow> b \<in> {FeatureOpen, FeatureClosed, FeatureArchived}
   | FeatureClosed \<Rightarrow> b \<in> {FeatureOpen, FeatureArchived}
   | FeatureArchived \<Rightarrow> b = FeatureOpen)"

definition feature_transition_to :: "FeatureState \<Rightarrow> FeatureState \<Rightarrow> TaskerError + FeatureState" where
  "feature_transition_to a b =
     (if feature_can_transition_to a b then Inr b else Inl (invalid_feature_transition a b))"

definition feature_state_from_str :: "string \<Rightarrow> TaskerError + FeatureState" where
  "feature_state_from_str value = (if value = ''open'' then Inr FeatureOpen
     else if value = ''active'' then Inr FeatureActive
     else if value = ''closed'' then Inr FeatureClosed
     else if value = ''archived'' then Inr FeatureArchived
     else Inl (ErrInvalidInput ''feature_state'' value))"

definition task_is_terminal :: "TaskState \<Rightarrow> bool" where
  "task_is_terminal s \<longleftrightarrow> s = Done \<or> s = Cancelled"

definition task_satisfies_dependency :: "TaskState \<Rightarrow> bool" where
  "task_satisfies_dependency s \<longleftrightarrow> s = Done"

definition task_permits_execution :: "TaskState \<Rightarrow> bool" where
  "task_permits_execution s \<longleftrightarrow> s = Todo"

definition task_can_transition_to :: "TaskState \<Rightarrow> TaskState \<Rightarrow> bool" where
  "task_can_transition_to a b \<longleftrightarrow> a = b \<or> (case a of
     Todo \<Rightarrow> b \<in> {InProgress, Blocked, Cancelled}
   | InProgress \<Rightarrow> b \<in> {Blocked, Done, Cancelled}
   | Blocked \<Rightarrow> b \<in> {Todo, InProgress, Cancelled}
   | Done \<Rightarrow> b = Todo
   | Cancelled \<Rightarrow> b = Todo)"

definition task_transition_to :: "TaskState \<Rightarrow> TaskState \<Rightarrow> TaskerError + TaskState" where
  "task_transition_to a b = (if task_can_transition_to a b then Inr b else Inl (invalid_task_transition a b))"

definition task_state_from_str :: "string \<Rightarrow> TaskerError + TaskState" where
  "task_state_from_str value = (if value = ''todo'' then Inr Todo
     else if value = ''in_progress'' then Inr InProgress
     else if value = ''blocked'' then Inr Blocked
     else if value = ''done'' then Inr Done
     else if value = ''cancelled'' then Inr Cancelled
     else Inl (ErrInvalidInput ''task_state'' value))"

datatype TaskPriority = PrioLow | PrioNormal | PrioHigh | PrioCritical

fun priority_sort_value :: "TaskPriority \<Rightarrow> 64 word" where
  "priority_sort_value PrioLow = 0"
| "priority_sort_value PrioNormal = 1"
| "priority_sort_value PrioHigh = 2"
| "priority_sort_value PrioCritical = 3"

definition priority_from_sort_value :: "64 word \<Rightarrow> TaskPriority option" where
  "priority_from_sort_value v = (if v = 0 then Some PrioLow else if v = 1 then Some PrioNormal
     else if v = 2 then Some PrioHigh else if v = 3 then Some PrioCritical else None)"

record Project =
  pr_id :: ProjectId
  pr_name :: string
  pr_canonical_root :: "string option"
  pr_revision :: ProjectRevision
  pr_created_at :: DateTime
  pr_updated_at :: DateTime

record Feature =
  ft_id :: FeatureId
  ft_project_id :: ProjectId
  ft_alias :: "64 word"
  ft_parent_id :: "FeatureId option"
  ft_title :: string
  ft_description :: string
  ft_state :: FeatureState
  ft_created_at :: DateTime
  ft_updated_at :: DateTime

record Task =
  tk_id :: TaskId
  tk_project_id :: ProjectId
  tk_feature_id :: FeatureId
  tk_alias :: "64 word"
  tk_title :: string
  tk_description :: string
  tk_state :: TaskState
  tk_priority :: TaskPriority
  tk_rank :: "64 word"
  tk_created_at :: DateTime
  tk_updated_at :: DateTime

section \<open>Concurrent authorship (concurrency.rs)\<close>

datatype ConcurrencyPolicy = Exclusive | Speculative "16 word" | Ensemble "16 word" "16 word"

definition policy_validate :: "ConcurrencyPolicy \<Rightarrow> TaskerError + unit" where
  "policy_validate p = (case p of
     Exclusive \<Rightarrow> Inr ()
   | Speculative max_candidates \<Rightarrow> if max_candidates > 0 then Inr ()
       else Inl (ErrInvalidInput ''max_candidates'' ''must be greater than zero'')
   | Ensemble candidate_count quorum \<Rightarrow>
       if candidate_count > 1 \<and> quorum > 0 \<and> quorum \<le> candidate_count then Inr ()
       else Inl (ErrInvalidInput ''ensemble''
         ''candidate_count must exceed one and quorum must be within the candidate count''))"

definition candidate_limit :: "ConcurrencyPolicy \<Rightarrow> 16 word" where
  "candidate_limit p = (case p of Exclusive \<Rightarrow> 1 | Speculative n \<Rightarrow> n | Ensemble n _ \<Rightarrow> n)"

definition permits_parallel_authorship :: "ConcurrencyPolicy \<Rightarrow> bool" where
  "permits_parallel_authorship p \<longleftrightarrow> p \<noteq> Exclusive"

datatype CandidateSetState = SetOpen | SetAdjudicating | SetDecided | SetPromoting | SetCompleted | SetCancelled

datatype CandidateState = Registered | Authoring | Submitted | Validating | Eligible | Rejected | Failed
  | Selected | Superseded | Promoted

definition is_immutable :: "CandidateState \<Rightarrow> bool" where
  "is_immutable s \<longleftrightarrow> s \<in> {Submitted, Validating, Eligible, Rejected, Failed, Selected, Superseded, Promoted}"

definition is_eligible_for_adjudication :: "CandidateState \<Rightarrow> bool" where
  "is_eligible_for_adjudication s \<longleftrightarrow> s = Eligible \<or> s = Selected"

datatype ResourceKind = ResFile | ResDirectory | ResTask | ResSchema | ResExternal

datatype ResourceAccess = AccessRead | AccessProposeWrite

record ResourceIntent =
  ri_kind :: ResourceKind
  ri_selector :: string
  ri_access :: ResourceAccess
  ri_rationale :: "string option"

record CandidateProvenance =
  cp_session_id :: string
  cp_agent_id :: string
  cp_model_id :: "string option"
  cp_work_unit_id :: "string option"
  cp_lineage_digest :: "string option"

record Candidate =
  cd_id :: CandidateId
  cd_candidate_set_id :: CandidateSetId
  cd_state :: CandidateState
  cd_base_commit :: string
  cd_result_commit :: "string option"
  cd_diff_digest :: "string option"
  cd_summary :: "string option"
  cd_provenance :: CandidateProvenance
  cd_resource_intents :: "ResourceIntent list"
  cd_supersedes_candidate_id :: "CandidateId option"
  cd_created_at :: DateTime
  cd_updated_at :: DateTime
  cd_submitted_at :: "DateTime option"

record ValidatorIdentity =
  vi_session_id :: string
  vi_agent_id :: string
  vi_model_id :: "string option"
  vi_lineage_digest :: string

record CandidateAssessment =
  ca_candidate_id :: CandidateId
  ca_eligible :: bool
  ca_approve :: bool
  ca_acceptance_score :: "16 word"
  ca_risk_score :: "16 word"
  ca_complexity_score :: "16 word"
  ca_notes :: "string list"

record AdjudicationBallot =
  ab_id :: BallotId
  ab_round_id :: AdjudicationRoundId
  ab_validator :: ValidatorIdentity
  ab_assessments :: "CandidateAssessment list"
  ab_ranking :: "CandidateId list"
  ab_abstained :: bool
  ab_created_at :: DateTime

datatype AdjudicationDecision =
    DecSelect CandidateId
  | DecSynthesize "CandidateId list"
  | DecBlocked string

end
