(* ===== verification/Tasker_Adjudicate.thy ===== *)
theory Tasker_Adjudicate
  imports Tasker_Types
begin

text \<open>
  Deterministic adjudication (\<open>crates/jcode-tasker-types/src/adjudication.rs\<close>): ballot validation, hard
  gates, tallies, the total winner order and the decision. A \<open>BTreeMap\<close> keyed by candidate is the list
  of its values in key order; \<open>BTreeSet\<close> is a set; \<open>usize\<close> counters are natural numbers, the \<open>u64\<close> score
  totals are words with saturating addition. \<open>MutableCandidateTally\<close> has the fields of
  \<open>CandidateTally\<close> and is not kept apart from it.
\<close>

section \<open>Errors and results\<close>

datatype AdjudicationError =
    AdjInvalidPolicy string
  | AdjDuplicateCandidate CandidateId
  | AdjDuplicateBallot BallotId
  | AdjMissingAssessmentReference BallotId
  | AdjUnknownCandidateReference BallotId CandidateId
  | AdjDuplicateAssessmentReference BallotId CandidateId
  | AdjDuplicateRankingReference BallotId CandidateId

datatype HardGateFailure =
    GateCandidateState CandidateState
  | GateBallotAssessment BallotId string "string list"

record HardGateEvaluation =
  hg_candidate_id :: CandidateId
  hg_passed :: bool
  hg_failures :: "HardGateFailure list"

record CandidateTally =
  ct_candidate_id :: CandidateId
  ct_hard_gate_passed :: bool
  ct_approval_count :: nat
  ct_assessment_count :: nat
  ct_evidence_weight :: "64 word"
  ct_risk_score_total :: "64 word"
  ct_complexity_score_total :: "64 word"
  ct_created_at :: DateTime

datatype EscalationReason =
    NoEligibleCandidate
  | AbstentionStarvation nat nat nat
  | InsufficientValidBallots nat nat
  | QuorumUnreached nat "16 word"

record DisagreementSummary =
  ds_reason :: EscalationReason
  ds_required_quorum :: "16 word"
  ds_round_validity_threshold :: nat
  ds_expected_candidate_count :: nat
  ds_actual_candidate_count :: nat
  ds_usable_ballot_count :: nat
  ds_abstention_count :: nat
  ds_candidate_tallies :: "CandidateTally list"
  ds_suggested_source_candidate_ids :: "CandidateId list"

datatype AdjudicationPolicyDecision = PolSelect CandidateId | PolEscalation DisagreementSummary

record AdjudicationOutcome =
  ao_decision :: AdjudicationPolicyDecision
  ao_candidate_tallies :: "CandidateTally list"
  ao_required_quorum :: "16 word"
  ao_round_validity_threshold :: nat
  ao_usable_ballot_count :: nat
  ao_abstention_count :: nat

definition escalation_display :: "EscalationReason \<Rightarrow> string" where
  "escalation_display r = (case r of
     NoEligibleCandidate \<Rightarrow> ''no eligible candidate''
   | AbstentionStarvation usable abstentions required \<Rightarrow> ''abstention starvation: '' @ nat_to_string usable @
       '' usable ballots, '' @ nat_to_string abstentions @ '' abstentions, '' @ nat_to_string required @ '' required''
   | InsufficientValidBallots usable required \<Rightarrow> ''insufficient valid ballots: '' @ nat_to_string usable @
       '' usable ballots, '' @ nat_to_string required @ '' required''
   | QuorumUnreached leading required \<Rightarrow> ''quorum unreached: leading candidate has '' @ nat_to_string leading @
       '' approvals, '' @ nat_to_string (unat required) @ '' required'')"

definition as_domain_decision :: "AdjudicationPolicyDecision \<Rightarrow> AdjudicationDecision" where
  "as_domain_decision d = (case d of
     PolSelect c \<Rightarrow> DecSelect c
   | PolEscalation summary \<Rightarrow> DecBlocked (''adjudication escalation: '' @ escalation_display (ds_reason summary)))"

definition selected_candidate_id :: "AdjudicationOutcome \<Rightarrow> CandidateId option" where
  "selected_candidate_id out = (case ao_decision out of PolSelect c \<Rightarrow> Some c | PolEscalation _ \<Rightarrow> None)"

section \<open>Policy and orders\<close>

definition policy_parameters :: "ConcurrencyPolicy \<Rightarrow> AdjudicationError + (nat \<times> 16 word)" where
  "policy_parameters p = (case policy_validate p of
     Inl e \<Rightarrow> Inl (AdjInvalidPolicy (error_display e))
   | Inr _ \<Rightarrow> Inr (case p of
       Exclusive \<Rightarrow> (1, 1)
     | Speculative max_candidates \<Rightarrow> (unat max_candidates, 1)
     | Ensemble candidate_count quorum \<Rightarrow> (unat candidate_count, quorum)))"

definition adjudication_quorum :: "ConcurrencyPolicy \<Rightarrow> AdjudicationError + 16 word" where
  "adjudication_quorum p = and_then (policy_parameters p) (\<lambda>(_, quorum). Inr quorum)"

definition round_validity_threshold :: "ConcurrencyPolicy \<Rightarrow> AdjudicationError + nat" where
  "round_validity_threshold p = and_then (policy_parameters p) (\<lambda>(_, quorum). Inr (unat quorum))"

definition candidates_in_deterministic_order :: "Candidate list \<Rightarrow> Candidate list" where
  "candidates_in_deterministic_order cs = sort_key cd_id cs"

definition ballots_in_deterministic_order :: "AdjudicationBallot list \<Rightarrow> AdjudicationBallot list" where
  "ballots_in_deterministic_order bs = sort_key ab_id bs"

definition assessments_in_deterministic_order :: "AdjudicationBallot \<Rightarrow> CandidateAssessment list" where
  "assessments_in_deterministic_order b = sort_key ca_candidate_id (ab_assessments b)"

section \<open>Validation\<close>

text \<open>The insertion loop shared by the two duplicate checks: the first repeated identifier is the error.\<close>

fun collect_distinct :: "('k \<Rightarrow> 'e) \<Rightarrow> 'k set \<Rightarrow> 'k list \<Rightarrow> 'e + 'k set" where
  "collect_distinct err seen [] = Inr seen"
| "collect_distinct err seen (k # ks) =
     (if k \<in> seen then Inl (err k) else collect_distinct err (insert k seen) ks)"

definition candidate_ids :: "Candidate list \<Rightarrow> AdjudicationError + CandidateId set" where
  "candidate_ids cs = collect_distinct AdjDuplicateCandidate {} (map cd_id (candidates_in_deterministic_order cs))"

definition validate_ballot_ids :: "AdjudicationBallot list \<Rightarrow> AdjudicationError + unit" where
  "validate_ballot_ids bs = and_then
     (collect_distinct AdjDuplicateBallot {} (map ab_id (ballots_in_deterministic_order bs))) (\<lambda>_. Inr ())"

text \<open>The reference loop of a ballot: a reference must be known and new.\<close>

fun check_references :: "BallotId \<Rightarrow> (CandidateId \<Rightarrow> AdjudicationError) \<Rightarrow> CandidateId set \<Rightarrow> CandidateId set \<Rightarrow>
    CandidateId list \<Rightarrow> AdjudicationError + unit" where
  "check_references b dup known seen [] = Inr ()"
| "check_references b dup known seen (c # cs) =
     (if c \<notin> known then Inl (AdjUnknownCandidateReference b c)
      else if c \<in> seen then Inl (dup c)
      else check_references b dup known (insert c seen) cs)"

definition validate_ballot :: "AdjudicationBallot \<Rightarrow> CandidateId set \<Rightarrow> AdjudicationError + unit" where
  "validate_ballot b known =
     (if \<not> ab_abstained b \<and> ab_assessments b = [] then Inl (AdjMissingAssessmentReference (ab_id b))
      else and_then
        (check_references (ab_id b) (AdjDuplicateAssessmentReference (ab_id b)) known {}
          (map ca_candidate_id (assessments_in_deterministic_order b)))
        (\<lambda>_. check_references (ab_id b) (AdjDuplicateRankingReference (ab_id b)) known {} (sort (ab_ranking b))))"

fun validate_ballots :: "CandidateId set \<Rightarrow> AdjudicationBallot list \<Rightarrow> AdjudicationError + unit" where
  "validate_ballots known [] = Inr ()"
| "validate_ballots known (b # bs) = and_then (validate_ballot b known) (\<lambda>_. validate_ballots known bs)"

definition validate_round :: "Candidate list \<Rightarrow> AdjudicationBallot list \<Rightarrow> AdjudicationError + unit" where
  "validate_round cs bs =
     and_then (candidate_ids cs) (\<lambda>known.
     and_then (validate_ballot_ids bs) (\<lambda>_.
     validate_ballots known (ballots_in_deterministic_order bs)))"

section \<open>Hard gates\<close>

definition state_debug :: "CandidateState \<Rightarrow> string" where
  "state_debug s = (case s of
     Registered \<Rightarrow> ''Registered'' | Authoring \<Rightarrow> ''Authoring'' | Submitted \<Rightarrow> ''Submitted''
   | Validating \<Rightarrow> ''Validating'' | Eligible \<Rightarrow> ''Eligible'' | Rejected \<Rightarrow> ''Rejected'' | Failed \<Rightarrow> ''Failed''
   | Selected \<Rightarrow> ''Selected'' | Superseded \<Rightarrow> ''Superseded'' | Promoted \<Rightarrow> ''Promoted'')"

text \<open>The key \<open>compare_hard_gate_failures\<close> compares by: state failures first, by the debug name; then
  ballots, by ballot, validator and notes.\<close>

definition failure_key :: "HardGateFailure \<Rightarrow> nat \<times> string \<times> BallotId \<times> string \<times> string list" where
  "failure_key f = (case f of
     GateCandidateState state \<Rightarrow> (0, state_debug state, 0, [], [])
   | GateBallotAssessment ballot validator notes \<Rightarrow> (1, [], ballot, validator, notes))"

definition initial_evaluation :: "Candidate \<Rightarrow> HardGateEvaluation" where
  "initial_evaluation c =
     (let failures = (if is_eligible_for_adjudication (cd_state c) then [] else [GateCandidateState (cd_state c)])
      in \<lparr>hg_candidate_id = cd_id c, hg_passed = (failures = []), hg_failures = failures\<rparr>)"

definition add_veto :: "AdjudicationBallot \<Rightarrow> CandidateAssessment \<Rightarrow> HardGateEvaluation \<Rightarrow> HardGateEvaluation" where
  "add_veto b a e = (if ca_eligible a then e
     else e\<lparr>hg_failures := hg_failures e @ [GateBallotAssessment (ab_id b) (vi_agent_id (ab_validator b)) (ca_notes a)],
            hg_passed := False\<rparr>)"

definition veto_ballot :: "HardGateEvaluation list \<Rightarrow> AdjudicationBallot \<Rightarrow> HardGateEvaluation list" where
  "veto_ballot es b = foldl (\<lambda>es a. modify_key hg_candidate_id (ca_candidate_id a) (add_veto b a) es) es
     (assessments_in_deterministic_order b)"

definition hard_gates :: "Candidate list \<Rightarrow> AdjudicationBallot list \<Rightarrow> HardGateEvaluation list" where
  "hard_gates cs bs = map (\<lambda>e. e\<lparr>hg_failures := sort_key failure_key (hg_failures e)\<rparr>)
     (foldl veto_ballot (map initial_evaluation (candidates_in_deterministic_order cs))
       (ballots_in_deterministic_order bs))"

definition evaluate_hard_gates ::
  "Candidate list \<Rightarrow> AdjudicationBallot list \<Rightarrow> AdjudicationError + HardGateEvaluation list" where
  "evaluate_hard_gates cs bs = and_then (validate_round cs bs) (\<lambda>_. Inr (hard_gates cs bs))"

section \<open>Tallies and decision\<close>

definition saturating_add :: "64 word \<Rightarrow> 64 word \<Rightarrow> 64 word" where
  "saturating_add a b = (if unat a + unat b < 2 ^ 64 then a + b else - 1)"

definition initial_tally :: "HardGateEvaluation list \<Rightarrow> Candidate \<Rightarrow> CandidateTally" where
  "initial_tally gates c = \<lparr>ct_candidate_id = cd_id c,
     ct_hard_gate_passed = (case find_key hg_candidate_id (cd_id c) gates of Some e \<Rightarrow> hg_passed e | None \<Rightarrow> False),
     ct_approval_count = 0, ct_assessment_count = 0, ct_evidence_weight = 0, ct_risk_score_total = 0,
     ct_complexity_score_total = 0, ct_created_at = cd_created_at c\<rparr>"

definition count_assessment :: "CandidateAssessment \<Rightarrow> CandidateTally \<Rightarrow> CandidateTally" where
  "count_assessment a t =
     (let t = t\<lparr>ct_assessment_count := ct_assessment_count t + 1\<rparr>
      in if ca_eligible a \<and> ca_approve a
         then t\<lparr>ct_approval_count := ct_approval_count t + 1,
                ct_evidence_weight := saturating_add (ct_evidence_weight t) (ucast (ca_acceptance_score a)),
                ct_risk_score_total := saturating_add (ct_risk_score_total t) (ucast (ca_risk_score a)),
                ct_complexity_score_total := saturating_add (ct_complexity_score_total t) (ucast (ca_complexity_score a))\<rparr>
         else t)"

definition tally_ballot :: "CandidateTally list \<times> nat \<times> nat \<Rightarrow> AdjudicationBallot \<Rightarrow> CandidateTally list \<times> nat \<times> nat" where
  "tally_ballot st b = (let (tallies, usable, abstentions) = st in
     if ab_abstained b then (tallies, usable, abstentions + 1)
     else (foldl (\<lambda>ts a. modify_key ct_candidate_id (ca_candidate_id a) (count_assessment a) ts) tallies
             (assessments_in_deterministic_order b), usable + 1, abstentions))"

text \<open>The key \<open>compare_candidate_tallies\<close> compares by.\<close>

definition tally_key :: "CandidateTally \<Rightarrow> bool \<times> int \<times> int \<times> 64 word \<times> 64 word \<times> DateTime \<times> CandidateId" where
  "tally_key t = (\<not> ct_hard_gate_passed t, - int (ct_approval_count t), - uint (ct_evidence_weight t),
     ct_risk_score_total t, ct_complexity_score_total t, ct_created_at t, ct_candidate_id t)"

definition decide :: "nat \<Rightarrow> nat \<Rightarrow> 16 word \<Rightarrow> CandidateTally list \<Rightarrow> nat \<Rightarrow> nat \<Rightarrow> AdjudicationPolicyDecision" where
  "decide expected actual quorum tallies usable abstentions =
     (case find (\<lambda>t. ct_hard_gate_passed t \<and> ct_approval_count t \<ge> unat quorum) tallies of
        Some t \<Rightarrow> PolSelect (ct_candidate_id t)
      | None \<Rightarrow>
         (let eligible = filter ct_hard_gate_passed tallies;
              threshold = unat quorum;
              reason = (if eligible = [] then NoEligibleCandidate
                else if usable < threshold \<and> abstentions > 0 then AbstentionStarvation usable abstentions threshold
                else if usable < threshold then InsufficientValidBallots usable threshold
                else QuorumUnreached (case eligible of [] \<Rightarrow> 0 | t # _ \<Rightarrow> ct_approval_count t) quorum)
          in PolEscalation \<lparr>ds_reason = reason, ds_required_quorum = quorum,
               ds_round_validity_threshold = threshold, ds_expected_candidate_count = expected,
               ds_actual_candidate_count = actual, ds_usable_ballot_count = usable,
               ds_abstention_count = abstentions, ds_candidate_tallies = tallies,
               ds_suggested_source_candidate_ids = map ct_candidate_id (take 2 eligible)\<rparr>))"

definition adjudicate ::
  "Candidate list \<Rightarrow> AdjudicationBallot list \<Rightarrow> ConcurrencyPolicy \<Rightarrow> AdjudicationError + AdjudicationOutcome" where
  "adjudicate cs bs policy =
     and_then (policy_parameters policy) (\<lambda>(expected, quorum).
     and_then (validate_round cs bs) (\<lambda>_.
     and_then (evaluate_hard_gates cs bs) (\<lambda>gates.
       let (tallies, usable, abstentions) = foldl tally_ballot
             (map (initial_tally gates) (candidates_in_deterministic_order cs), 0, 0)
             (ballots_in_deterministic_order bs);
           tallies = sort_key tally_key tallies
       in Inr \<lparr>ao_decision = decide expected (length cs) quorum tallies usable abstentions,
            ao_candidate_tallies = tallies, ao_required_quorum = quorum,
            ao_round_validity_threshold = unat quorum, ao_usable_ballot_count = usable,
            ao_abstention_count = abstentions\<rparr>)))"

definition adjudicate_decision ::
  "Candidate list \<Rightarrow> AdjudicationBallot list \<Rightarrow> ConcurrencyPolicy \<Rightarrow> AdjudicationError + AdjudicationPolicyDecision" where
  "adjudicate_decision cs bs policy = and_then (adjudicate cs bs policy) (\<lambda>out. Inr (ao_decision out))"

end
