(* ===== verification/Tasker_Decision.thy ===== *)
theory Tasker_Decision
  imports Tasker_Adjudicate
begin

text \<open>
  What adjudication decides: the outcome does not depend on the order of its inputs, and a candidate is
  selected exactly when it passes its hard gates and enough ballots approve it.
\<close>

section \<open>Order independence\<close>

interpretation candidate_order: canonical_order cd_id cd_id
  by unfold_locales

interpretation ballot_order: canonical_order ab_id ab_id
  by unfold_locales

lemma map_sort_key: "map key (sort_key key xs) = sort (map key xs)"
  by (rule properties_for_sort [symmetric]) simp_all

lemma sort_mset: "mset xs = mset ys \<Longrightarrow> sort xs = sort ys"
  by (rule properties_for_sort) simp_all

lemma map_key_sorted_mset: "mset xs = mset ys \<Longrightarrow> map key (sort_key key xs) = map key (sort_key key ys)"
  unfolding map_sort_key by (rule sort_mset) simp

lemma collect_distinct_Inr:
  "collect_distinct err seen ks = Inr s \<Longrightarrow> distinct ks \<and> set ks \<inter> seen = {} \<and> s = set ks \<union> seen"
  by (induction err seen ks rule: collect_distinct.induct) (auto split: if_splits)

lemma distinct_sorted_keys: "distinct (map key (sort_key key xs)) \<longleftrightarrow> distinct (map key xs)"
  by (simp add: map_sort_key)

lemma validate_round_Inr:
  assumes "validate_round cs bs = Inr u"
  shows "distinct (map cd_id cs)" "distinct (map ab_id bs)"
    "validate_ballots (cd_id ` set cs) (ballots_in_deterministic_order bs) = Inr ()"
proof -
  obtain known ids where k: "candidate_ids cs = Inr known"
    and b: "collect_distinct AdjDuplicateBallot {} (map ab_id (ballots_in_deterministic_order bs)) = Inr ids"
    and v: "validate_ballots known (ballots_in_deterministic_order bs) = Inr ()"
    using assms by (auto simp: validate_round_def validate_ballot_ids_def and_then_Inr)
  note kd = collect_distinct_Inr [OF k [unfolded candidate_ids_def]]
  note bd = collect_distinct_Inr [OF b]
  show "distinct (map cd_id cs)" using kd by (simp add: candidates_in_deterministic_order_def distinct_sorted_keys)
  show "distinct (map ab_id bs)" using bd by (simp add: ballots_in_deterministic_order_def distinct_sorted_keys)
  have "known = cd_id ` set cs" using kd by (simp add: candidates_in_deterministic_order_def)
  then show "validate_ballots (cd_id ` set cs) (ballots_in_deterministic_order bs) = Inr ()" using v by simp
qed

lemma candidates_order_mset:
  "mset cs = mset cs' \<Longrightarrow> distinct (map cd_id cs) \<Longrightarrow>
   candidates_in_deterministic_order cs = candidates_in_deterministic_order cs'"
  unfolding candidates_in_deterministic_order_def by (rule candidate_order.sort_canonical)

lemma ballots_order_mset:
  "mset bs = mset bs' \<Longrightarrow> distinct (map ab_id bs) \<Longrightarrow>
   ballots_in_deterministic_order bs = ballots_in_deterministic_order bs'"
  unfolding ballots_in_deterministic_order_def by (rule ballot_order.sort_canonical)

lemma validate_round_mset:
  assumes "mset cs = mset cs'" and "mset bs = mset bs'"
  shows "validate_round cs bs = validate_round cs' bs'"
proof -
  have c: "candidate_ids cs = candidate_ids cs'"
    by (simp only: candidate_ids_def candidates_in_deterministic_order_def map_key_sorted_mset [OF assms(1)])
  have b: "validate_ballot_ids bs = validate_ballot_ids bs'"
    by (simp only: validate_ballot_ids_def ballots_in_deterministic_order_def map_key_sorted_mset [OF assms(2)])
  show ?thesis
  proof (cases "validate_ballot_ids bs")
    case (Inl e)
    then have "validate_ballot_ids bs' = Inl e" using b by simp
    with Inl c show ?thesis by (cases "candidate_ids cs'") (simp_all add: validate_round_def)
  next
    case (Inr u)
    then obtain ids where "collect_distinct AdjDuplicateBallot {} (map ab_id (ballots_in_deterministic_order bs)) = Inr ids"
      by (auto simp: validate_ballot_ids_def and_then_Inr)
    then have "distinct (map ab_id bs)"
      using collect_distinct_Inr by (fastforce simp: ballots_in_deterministic_order_def distinct_sorted_keys)
    then have "ballots_in_deterministic_order bs = ballots_in_deterministic_order bs'"
      by (rule ballots_order_mset [OF assms(2)])
    then show ?thesis using b c by (simp add: validate_round_def)
  qed
qed

lemma hard_gates_mset:
  assumes "mset cs = mset cs'" "mset bs = mset bs'" and "validate_round cs bs = Inr u"
  shows "hard_gates cs bs = hard_gates cs' bs'"
  using candidates_order_mset [OF assms(1)] ballots_order_mset [OF assms(2)] validate_round_Inr [OF assms(3)]
  by (simp add: hard_gates_def)

section \<open>Keyed updates candidate by candidate\<close>

lemma foldl_maps:
  assumes "\<And>b xs. distinct (map k xs) \<Longrightarrow> F xs b = map (g b) xs" and "\<And>b x. k (g b x) = k x"
    and "distinct (map k xs)"
  shows "foldl F xs bs = map (\<lambda>x. foldl (\<lambda>x b. g b x) x bs) xs"
  using assms(3)
proof (induction bs arbitrary: xs)
  case (Cons b bs)
  have "map k (map (g b) xs) = map k xs" using assms(2) by simp
  then have "foldl F (map (g b) xs) bs = map (\<lambda>x. foldl (\<lambda>x b. g b x) x bs) (map (g b) xs)"
    using Cons by metis
  then show ?case using assms(1) [OF Cons.prems] by (simp add: comp_def)
qed simp

lemma foldl_modify_keys:
  assumes "\<And>a x. k (f a x) = k x" and "distinct (map k xs)"
  shows "foldl (\<lambda>xs a. modify_key k (g a) (f a) xs) xs as =
    map (\<lambda>x. foldl (\<lambda>x a. if k x = g a then f a x else x) x as) xs"
  by (rule foldl_maps [of k _ "\<lambda>a x. if k x = g a then f a x else x"])
    (simp_all add: assms modify_key_map)

lemma foldl_key: "(\<And>b x. k (g b x) = k x) \<Longrightarrow> k (foldl (\<lambda>x b. g b x) x bs) = k x"
  by (induction bs arbitrary: x) simp_all

section \<open>Hard gates\<close>

definition vetoed :: "AdjudicationBallot list \<Rightarrow> CandidateId \<Rightarrow> bool" where
  "vetoed bs c \<longleftrightarrow> (\<exists>b \<in> set bs. \<exists>a \<in> set (ab_assessments b). ca_candidate_id a = c \<and> \<not> ca_eligible a)"

definition ballot_gate :: "AdjudicationBallot \<Rightarrow> HardGateEvaluation \<Rightarrow> HardGateEvaluation" where
  "ballot_gate b e = foldl (\<lambda>e a. if hg_candidate_id e = ca_candidate_id a then add_veto b a e else e) e
     (assessments_in_deterministic_order b)"

lemma add_veto_id [simp]: "hg_candidate_id (add_veto b a e) = hg_candidate_id e"
  by (simp add: add_veto_def)

lemma ballot_gate_id [simp]: "hg_candidate_id (ballot_gate b e) = hg_candidate_id e"
  unfolding ballot_gate_def by (rule foldl_key) simp

lemma veto_ballot_map: "distinct (map hg_candidate_id es) \<Longrightarrow> veto_ballot es b = map (ballot_gate b) es"
  unfolding veto_ballot_def ballot_gate_def by (rule foldl_modify_keys) simp_all

lemma vetoes_passed:
  "hg_passed (foldl (\<lambda>e a. if hg_candidate_id e = ca_candidate_id a then add_veto b a e else e) e as) \<longleftrightarrow>
   hg_passed e \<and> \<not> (\<exists>a \<in> set as. ca_candidate_id a = hg_candidate_id e \<and> \<not> ca_eligible a)"
proof (induction as arbitrary: e)
  case (Cons a as)
  show ?case by (simp only: foldl_Cons Cons) (auto simp: add_veto_def)
qed simp

lemma ballots_passed:
  "hg_passed (foldl (\<lambda>e b. ballot_gate b e) e bs) \<longleftrightarrow> hg_passed e \<and> \<not> vetoed bs (hg_candidate_id e)"
proof (induction bs arbitrary: e)
  case (Cons b bs)
  have "hg_passed (ballot_gate b e) \<longleftrightarrow> hg_passed e \<and>
      \<not> (\<exists>a \<in> set (ab_assessments b). ca_candidate_id a = hg_candidate_id e \<and> \<not> ca_eligible a)"
    unfolding ballot_gate_def vetoes_passed by (simp add: assessments_in_deterministic_order_def)
  then show ?case by (simp add: Cons) (auto simp: vetoed_def)
qed (simp add: vetoed_def)

text \<open>A candidate that may be selected at all.\<close>

definition gated :: "AdjudicationBallot list \<Rightarrow> Candidate \<Rightarrow> bool" where
  "gated bs c \<longleftrightarrow> is_eligible_for_adjudication (cd_state c) \<and> \<not> vetoed bs (cd_id c)"

lemma vetoed_order [simp]: "vetoed (ballots_in_deterministic_order bs) c = vetoed bs c"
  by (simp add: vetoed_def ballots_in_deterministic_order_def)

lemma hard_gates_map:
  assumes "distinct (map cd_id cs)"
  shows "hard_gates cs bs = map (\<lambda>c. let e = foldl (\<lambda>e b. ballot_gate b e) (initial_evaluation c) (ballots_in_deterministic_order bs)
      in e\<lparr>hg_failures := sort_key failure_key (hg_failures e)\<rparr>) (candidates_in_deterministic_order cs)"
proof -
  have init: "hg_candidate_id (initial_evaluation c) = cd_id c" for c
    by (simp add: initial_evaluation_def Let_def)
  have "distinct (map hg_candidate_id (map initial_evaluation (candidates_in_deterministic_order cs)))"
    using assms by (simp add: comp_def init candidates_in_deterministic_order_def distinct_sorted_keys)
  then have "foldl veto_ballot (map initial_evaluation (candidates_in_deterministic_order cs)) (ballots_in_deterministic_order bs) =
      map (\<lambda>e. foldl (\<lambda>e b. ballot_gate b e) e (ballots_in_deterministic_order bs))
        (map initial_evaluation (candidates_in_deterministic_order cs))"
    by (intro foldl_maps [where k = hg_candidate_id] veto_ballot_map) simp_all
  then show ?thesis by (simp add: hard_gates_def Let_def comp_def)
qed

lemma find_key_image:
  assumes "\<And>x. k (f x) = k' x" and "distinct (map k' xs)" and "x \<in> set xs"
  shows "find_key k (k' x) (map f xs) = Some (f x)"
  using assms(2,3) by (induction xs) (auto simp: assms(1))

lemma hard_gate_lookup:
  assumes "distinct (map cd_id cs)" and "c \<in> set cs"
  shows "\<exists>e. find_key hg_candidate_id (cd_id c) (hard_gates cs bs) = Some e \<and> (hg_passed e \<longleftrightarrow> gated bs c)"
proof -
  let ?f = "\<lambda>c. let e = foldl (\<lambda>e b. ballot_gate b e) (initial_evaluation c) (ballots_in_deterministic_order bs)
      in e\<lparr>hg_failures := sort_key failure_key (hg_failures e)\<rparr>"
  have init: "hg_candidate_id (initial_evaluation c) = cd_id c" "hg_passed (initial_evaluation c) = is_eligible_for_adjudication (cd_state c)" for c
    by (simp_all add: initial_evaluation_def Let_def)
  have id: "hg_candidate_id (?f c) = cd_id c" for c
    using foldl_key [of hg_candidate_id ballot_gate] by (simp add: Let_def init)
  have "find_key hg_candidate_id (cd_id c) (hard_gates cs bs) = Some (?f c)"
    unfolding hard_gates_map [OF assms(1)]
    by (rule find_key_image [where k = hg_candidate_id and k' = cd_id and f = ?f, OF id]) (simp_all add: assms candidates_in_deterministic_order_def distinct_sorted_keys)
  moreover have "hg_passed (?f c) \<longleftrightarrow> gated bs c"
    by (simp add: Let_def ballots_passed init gated_def)
  ultimately show ?thesis by blast
qed

section \<open>Tallies\<close>

text \<open>How many non-abstaining ballots approve a candidate.\<close>

definition approves :: "CandidateId \<Rightarrow> AdjudicationBallot \<Rightarrow> bool" where
  "approves c b \<longleftrightarrow> \<not> ab_abstained b \<and>
     (\<exists>a \<in> set (ab_assessments b). ca_candidate_id a = c \<and> ca_eligible a \<and> ca_approve a)"

definition approvals :: "AdjudicationBallot list \<Rightarrow> CandidateId \<Rightarrow> nat" where
  "approvals bs c = length (filter (approves c) bs)"

definition ballot_tally :: "AdjudicationBallot \<Rightarrow> CandidateTally \<Rightarrow> CandidateTally" where
  "ballot_tally b t = (if ab_abstained b then t else
     foldl (\<lambda>t a. if ct_candidate_id t = ca_candidate_id a then count_assessment a t else t) t
       (assessments_in_deterministic_order b))"

lemma count_assessment_sel [simp]:
  "ct_candidate_id (count_assessment a t) = ct_candidate_id t"
  "ct_hard_gate_passed (count_assessment a t) = ct_hard_gate_passed t"
  "ct_approval_count (count_assessment a t) = ct_approval_count t + (if ca_eligible a \<and> ca_approve a then 1 else 0)"
  by (simp_all add: count_assessment_def Let_def)

lemma ballot_tally_sel [simp]:
  "ct_candidate_id (ballot_tally b t) = ct_candidate_id t"
  "ct_hard_gate_passed (ballot_tally b t) = ct_hard_gate_passed t"
proof -
  let ?r = "foldl (\<lambda>t a. if ct_candidate_id t = ca_candidate_id a then count_assessment a t else t) t
    (assessments_in_deterministic_order b)"
  have "ct_candidate_id ?r = ct_candidate_id t" "ct_hard_gate_passed ?r = ct_hard_gate_passed t"
    by (rule foldl_key, simp)+
  then show "ct_candidate_id (ballot_tally b t) = ct_candidate_id t"
    "ct_hard_gate_passed (ballot_tally b t) = ct_hard_gate_passed t" by (simp_all add: ballot_tally_def)
qed

lemma foldl_tally_ballot:
  "distinct (map ct_candidate_id ts) \<Longrightarrow>
   fst (foldl tally_ballot (ts, u, n) bs) = map (\<lambda>t. foldl (\<lambda>t b. ballot_tally b t) t bs) ts"
proof (induction bs arbitrary: ts u n)
  case (Cons b bs)
  have one: "tally_ballot (ts, u, n) b = (map (ballot_tally b) ts, snd (tally_ballot (ts, u, n) b))"
  proof (cases "ab_abstained b")
    case True
    then have "map (ballot_tally b) ts = ts" by (intro map_idI) (simp add: ballot_tally_def)
    then show ?thesis using True by (simp add: tally_ballot_def)
  next
    case False
    have "foldl (\<lambda>ts a. modify_key ct_candidate_id (ca_candidate_id a) (count_assessment a) ts) ts
        (assessments_in_deterministic_order b) = map (ballot_tally b) ts"
      unfolding ballot_tally_def using False
      by (simp add: foldl_modify_keys [where k = ct_candidate_id and g = ca_candidate_id and f = count_assessment, OF _ Cons.prems])
    then show ?thesis using False by (simp add: tally_ballot_def)
  qed
  obtain u' n' where un: "snd (tally_ballot (ts, u, n) b) = (u', n')" by (cases "snd (tally_ballot (ts, u, n) b)")
  have "distinct (map ct_candidate_id (map (ballot_tally b) ts))" using Cons.prems by (simp add: comp_def)
  then show ?case using Cons.IH [of "map (ballot_tally b) ts" u' n'] one un by (simp add: comp_def)
qed simp

lemma count_approvals:
  "ct_approval_count (foldl (\<lambda>t a. if ct_candidate_id t = ca_candidate_id a then count_assessment a t else t) t as) =
   ct_approval_count t + length (filter (\<lambda>a. ca_candidate_id a = ct_candidate_id t \<and> ca_eligible a \<and> ca_approve a) as)"
proof (induction as arbitrary: t)
  case (Cons a as)
  show ?case by (simp only: foldl_Cons Cons) auto
qed simp

lemma length_filter_distinct:
  assumes "distinct (map k xs)"
  shows "length (filter (\<lambda>x. k x = c \<and> P x) xs) = (if \<exists>x \<in> set xs. k x = c \<and> P x then 1 else 0)"
  using assms
proof (induction xs)
  case (Cons x xs)
  show ?case
  proof (cases "k x = c \<and> P x")
    case True
    have "k x \<notin> k ` set xs" using Cons.prems by simp
    then have "\<not> (\<exists>y \<in> set xs. k y = c \<and> P y)" using True by (metis imageI)
    then show ?thesis using True Cons by simp
  next
    case False
    then show ?thesis using Cons by auto
  qed
qed simp

definition distinct_references :: "AdjudicationBallot \<Rightarrow> bool" where
  "distinct_references b \<longleftrightarrow> distinct (map ca_candidate_id (ab_assessments b))"

lemma ballot_tally_approvals:
  assumes "distinct_references b"
  shows "ct_approval_count (ballot_tally b t) = ct_approval_count t + (if approves (ct_candidate_id t) b then 1 else 0)"
proof (cases "ab_abstained b")
  case True
  then show ?thesis by (simp add: ballot_tally_def approves_def)
next
  case False
  have "distinct (map ca_candidate_id (assessments_in_deterministic_order b))"
    using assms by (simp add: distinct_references_def assessments_in_deterministic_order_def distinct_sorted_keys)
  from length_filter_distinct [OF this, of "ct_candidate_id t" "\<lambda>a. ca_eligible a \<and> ca_approve a"]
  show ?thesis
    using False count_approvals [of t "assessments_in_deterministic_order b"]
    by (simp add: ballot_tally_def approves_def assessments_in_deterministic_order_def)
qed

lemma ballots_tally_approvals:
  "\<forall>b \<in> set bs. distinct_references b \<Longrightarrow>
   ct_approval_count (foldl (\<lambda>t b. ballot_tally b t) t bs) = ct_approval_count t + approvals bs (ct_candidate_id t)"
  by (induction bs arbitrary: t) (simp_all add: approvals_def ballot_tally_approvals)

lemma approvals_order: "approvals (ballots_in_deterministic_order bs) c = approvals bs c"
proof -
  have "mset (filter (approves c) (sort_key ab_id bs)) = mset (filter (approves c) bs)" by simp
  then show ?thesis unfolding approvals_def ballots_in_deterministic_order_def by (rule mset_eq_length)
qed

lemma check_references_Inr:
  "check_references b dup known seen cs = Inr u \<Longrightarrow> distinct cs \<and> set cs \<inter> seen = {} \<and> set cs \<subseteq> known"
  by (induction b dup known seen cs rule: check_references.induct) (auto split: if_splits)

lemma validate_ballots_Inr:
  "validate_ballots known bs = Inr u \<Longrightarrow> b \<in> set bs \<Longrightarrow> distinct_references b"
proof (induction bs)
  case (Cons x bs)
  have v: "validate_ballot x known = Inr ()" "validate_ballots known bs = Inr u"
    using Cons.prems(1) by (auto simp: and_then_Inr)
  then have "check_references (ab_id x) (AdjDuplicateAssessmentReference (ab_id x)) known {}
      (map ca_candidate_id (assessments_in_deterministic_order x)) = Inr ()"
    by (auto simp: validate_ballot_def and_then_Inr split: if_splits)
  from check_references_Inr [OF this] have "distinct_references x"
    by (simp add: distinct_references_def assessments_in_deterministic_order_def distinct_sorted_keys)
  then show ?case using Cons v(2) by auto
qed simp

section \<open>The decision\<close>

lemma find_sorted:
  assumes "sorted (map key xs)" and "find P xs = Some t" and "u \<in> set xs" and "P u"
  shows "key t \<le> key u"
  using assms
proof (induction xs)
  case (Cons x xs)
  show ?case
  proof (cases "P x")
    case True
    then show ?thesis using Cons.prems by auto
  next
    case False
    then show ?thesis using Cons by auto
  qed
qed simp

text \<open>The final tally of a candidate.\<close>

definition final_tally :: "Candidate list \<Rightarrow> AdjudicationBallot list \<Rightarrow> Candidate \<Rightarrow> CandidateTally" where
  "final_tally cs bs c = foldl (\<lambda>t b. ballot_tally b t) (initial_tally (hard_gates cs bs) c)
     (ballots_in_deterministic_order bs)"

lemma adjudicate_Inr:
  assumes "adjudicate cs bs policy = Inr out"
  obtains expected usable abstentions where
    "policy_parameters policy = Inr (expected, ao_required_quorum out)" "validate_round cs bs = Inr ()"
    "ao_candidate_tallies out = sort_key tally_key (map (final_tally cs bs) (candidates_in_deterministic_order cs))"
    "ao_decision out = decide expected (length cs) (ao_required_quorum out) (ao_candidate_tallies out) usable abstentions"
proof -
  obtain expected quorum where p: "policy_parameters policy = Inr (expected, quorum)" and v: "validate_round cs bs = Inr ()"
    using assms by (auto simp: adjudicate_def and_then_Inr)
  let ?ts = "map (initial_tally (hard_gates cs bs)) (candidates_in_deterministic_order cs)"
  let ?r = "foldl tally_ballot (?ts, 0, 0) (ballots_in_deterministic_order bs)"
  obtain tallies usable abstentions where r: "?r = (tallies, usable, abstentions)" by (cases ?r)
  have "distinct (map ct_candidate_id ?ts)"
    using validate_round_Inr(1) [OF v]
    by (simp add: comp_def initial_tally_def candidates_in_deterministic_order_def distinct_sorted_keys)
  then have "tallies = map (final_tally cs bs) (candidates_in_deterministic_order cs)"
    using foldl_tally_ballot [of ?ts 0 0 "ballots_in_deterministic_order bs"] r
    by (simp add: final_tally_def [abs_def] comp_def)
  moreover have "out = \<lparr>ao_decision = decide expected (length cs) quorum (sort_key tally_key tallies) usable abstentions,
      ao_candidate_tallies = sort_key tally_key tallies, ao_required_quorum = quorum,
      ao_round_validity_threshold = unat quorum, ao_usable_ballot_count = usable, ao_abstention_count = abstentions\<rparr>"
    using assms p v r by (simp add: adjudicate_def evaluate_hard_gates_def and_then_def Let_def)
  ultimately show thesis using that p v by simp
qed

lemma adjudicate_ok:
  "policy_parameters policy = Inr q \<Longrightarrow> validate_round cs bs = Inr u \<Longrightarrow> \<exists>out. adjudicate cs bs policy = Inr out"
  by (simp add: adjudicate_def evaluate_hard_gates_def and_then_def Let_def split: prod.split)

lemma final_tally_facts:
  assumes "validate_round cs bs = Inr ()" and "c \<in> set cs"
  shows "ct_candidate_id (final_tally cs bs c) = cd_id c"
    "ct_hard_gate_passed (final_tally cs bs c) \<longleftrightarrow> gated bs c"
    "ct_approval_count (final_tally cs bs c) = approvals bs (cd_id c)"
proof -
  have init: "ct_candidate_id (initial_tally gs c) = cd_id c" "ct_approval_count (initial_tally gs c) = 0" for gs
    by (simp_all add: initial_tally_def)
  show id: "ct_candidate_id (final_tally cs bs c) = cd_id c"
    unfolding final_tally_def by (subst foldl_key) (simp_all add: init)
  have "ct_hard_gate_passed (final_tally cs bs c) = ct_hard_gate_passed (initial_tally (hard_gates cs bs) c)"
    unfolding final_tally_def by (rule foldl_key) simp
  then show "ct_hard_gate_passed (final_tally cs bs c) \<longleftrightarrow> gated bs c"
    using hard_gate_lookup [OF validate_round_Inr(1) [OF assms(1)] assms(2), of bs] by (auto simp: initial_tally_def)
  have "\<forall>b \<in> set (ballots_in_deterministic_order bs). distinct_references b"
    using validate_ballots_Inr [OF validate_round_Inr(3) [OF assms(1)]] by blast
  then show "ct_approval_count (final_tally cs bs c) = approvals bs (cd_id c)"
    unfolding final_tally_def by (simp add: ballots_tally_approvals init approvals_order)
qed

section \<open>Selection\<close>

lemma selection_facts:
  assumes "adjudicate cs bs policy = Inr out"
  shows "((\<exists>c. ao_decision out = PolSelect c) \<longleftrightarrow>
      (\<exists>x \<in> set cs. gated bs x \<and> unat (ao_required_quorum out) \<le> approvals bs (cd_id x))) \<and>
    (\<forall>c. ao_decision out = PolSelect c \<longrightarrow> (\<exists>x \<in> set cs. cd_id x = c \<and> gated bs x \<and>
      unat (ao_required_quorum out) \<le> approvals bs (cd_id x) \<and>
      (\<forall>y \<in> set cs. gated bs y \<longrightarrow> approvals bs (cd_id y) \<le> approvals bs (cd_id x))))"
proof -
  obtain expected usable abstentions where v: "validate_round cs bs = Inr ()"
    and ts: "ao_candidate_tallies out = sort_key tally_key (map (final_tally cs bs) (candidates_in_deterministic_order cs))"
    and dec: "ao_decision out = decide expected (length cs) (ao_required_quorum out) (ao_candidate_tallies out) usable abstentions"
    by (rule adjudicate_Inr [OF assms])
  let ?q = "unat (ao_required_quorum out)" and ?ts = "ao_candidate_tallies out"
  let ?P = "\<lambda>t. ct_hard_gate_passed t \<and> ct_approval_count t \<ge> ?q"
  note facts = final_tally_facts [OF v]
  have set: "set ?ts = final_tally cs bs ` set cs" by (simp add: ts candidates_in_deterministic_order_def)
  have "sorted (map tally_key ?ts)" by (simp add: ts)
  note first = find_sorted [OF this, of ?P]
  have sel: "ao_decision out = PolSelect c \<longleftrightarrow> (\<exists>t. find ?P ?ts = Some t \<and> ct_candidate_id t = c)" for c
    by (auto simp: dec decide_def Let_def split: option.splits)
  have "(\<exists>c. ao_decision out = PolSelect c) \<longleftrightarrow> (\<exists>t \<in> set ?ts. ?P t)"
    using find_None_iff [of ?P ?ts] by (auto simp: sel)
  also have "\<dots> \<longleftrightarrow> (\<exists>x \<in> set cs. gated bs x \<and> ?q \<le> approvals bs (cd_id x))"
    unfolding set by (simp add: facts cong: bex_cong)
  finally have some: "(\<exists>c. ao_decision out = PolSelect c) \<longleftrightarrow> (\<exists>x \<in> set cs. gated bs x \<and> ?q \<le> approvals bs (cd_id x))" .
  have winner: "\<exists>x \<in> set cs. cd_id x = c \<and> gated bs x \<and> ?q \<le> approvals bs (cd_id x) \<and>
      (\<forall>y \<in> set cs. gated bs y \<longrightarrow> approvals bs (cd_id y) \<le> approvals bs (cd_id x))"
    if "ao_decision out = PolSelect c" for c
  proof -
    have "\<exists>t. find ?P ?ts = Some t \<and> ct_candidate_id t = c" using that unfolding sel .
    then obtain t where t: "find ?P ?ts = Some t" "ct_candidate_id t = c" by (elim exE conjE)
    note mem = find_SomeD [OF t(1)]
    then obtain x where x: "x \<in> set cs" "t = final_tally cs bs x" and P: "?P t" using mem unfolding set by blast
    have x: "x \<in> set cs" "t = final_tally cs bs x" "gated bs x" "?q \<le> approvals bs (cd_id x)"
      using x P facts [OF x(1)] by simp_all
    have most: "approvals bs (cd_id y) \<le> approvals bs (cd_id x)" if y: "y \<in> set cs" "gated bs y" for y
    proof (rule ccontr)
      assume more: "\<not> approvals bs (cd_id y) \<le> approvals bs (cd_id x)"
      have "final_tally cs bs y \<in> set ?ts" "?P (final_tally cs bs y)"
        using y more x(4) facts [OF y(1)] by (simp_all add: set)
      from first [OF t(1) this] show False
        using more x facts [OF x(1)] facts [OF y(1)] y by (simp add: tally_key_def less_eq_prod_def)
    qed
    have "cd_id x = c" using facts(1) [OF x(1)] x(2) t(2) by simp
    then show ?thesis using x(1,3,4) most by blast
  qed
  show ?thesis using some winner by blast
qed

section \<open>Properties\<close>

text \<open>C17 The outcome of adjudication, errors included, does not depend on the order in which candidates and
  ballots are given; nor does the hard-gate report.\<close>

theorem adjudication_order_independent:
  assumes "mset cs = mset cs'" and "mset bs = mset bs'"
  shows "adjudicate cs bs policy = adjudicate cs' bs' policy \<and>
    evaluate_hard_gates cs bs = evaluate_hard_gates cs' bs'"
proof (cases "validate_round cs bs")
  case (Inl e)
  then have "validate_round cs' bs' = Inl e" using validate_round_mset [OF assms] by simp
  with Inl show ?thesis by (cases "policy_parameters policy") (simp_all add: adjudicate_def evaluate_hard_gates_def split: prod.split)
next
  case (Inr u)
  then have v: "validate_round cs' bs' = Inr u" using validate_round_mset [OF assms] by simp
  have "candidates_in_deterministic_order cs = candidates_in_deterministic_order cs'"
    "ballots_in_deterministic_order bs = ballots_in_deterministic_order bs'"
    using candidates_order_mset [OF assms(1)] ballots_order_mset [OF assms(2)] validate_round_Inr [OF Inr] by simp_all
  then show ?thesis
    using Inr v hard_gates_mset [OF assms Inr] mset_eq_length [OF assms(1)]
    by (simp add: adjudicate_def evaluate_hard_gates_def)
qed

text \<open>C16 Selection. A candidate is selected exactly when some candidate passes its gates (an adjudicable
  state and no ballot, abstaining ones included, that calls it ineligible) and at least quorum
  non-abstaining ballots approve it; the selected one is such a candidate, no other gated candidate has
  more approvals, and its tally comes first in the winner order.\<close>

theorem selection_spec:
  assumes "adjudicate cs bs policy = Inr out"
  shows "((\<exists>c. ao_decision out = PolSelect c) \<longleftrightarrow>
      (\<exists>x \<in> set cs. gated bs x \<and> unat (ao_required_quorum out) \<le> approvals bs (cd_id x))) \<and>
    (\<forall>c. ao_decision out = PolSelect c \<longrightarrow> (\<exists>x \<in> set cs. cd_id x = c \<and> gated bs x \<and>
      unat (ao_required_quorum out) \<le> approvals bs (cd_id x) \<and>
      (\<forall>y \<in> set cs. gated bs y \<longrightarrow> approvals bs (cd_id y) \<le> approvals bs (cd_id x))))"
  by (rule selection_facts [OF assms])

definition demo_candidate :: "CandidateId \<Rightarrow> CandidateState \<Rightarrow> Candidate" where
  "demo_candidate i st = \<lparr>cd_id = i, cd_candidate_set_id = 0, cd_state = st, cd_base_commit = [],
     cd_result_commit = None, cd_diff_digest = None, cd_summary = None,
     cd_provenance = \<lparr>cp_session_id = [], cp_agent_id = [], cp_model_id = None, cp_work_unit_id = None,
       cp_lineage_digest = None\<rparr>,
     cd_resource_intents = [], cd_supersedes_candidate_id = None, cd_created_at = 0, cd_updated_at = 0,
     cd_submitted_at = None\<rparr>"

definition demo_ballot :: "BallotId \<Rightarrow> bool \<Rightarrow> (CandidateId \<times> bool) list \<Rightarrow> AdjudicationBallot" where
  "demo_ballot i abstained votes = \<lparr>ab_id = i, ab_round_id = 0,
     ab_validator = \<lparr>vi_session_id = [], vi_agent_id = [], vi_model_id = None, vi_lineage_digest = []\<rparr>,
     ab_assessments = map (\<lambda>(c, ok). \<lparr>ca_candidate_id = c, ca_eligible = ok, ca_approve = ok,
       ca_acceptance_score = 5, ca_risk_score = 1, ca_complexity_score = 1, ca_notes = []\<rparr>) votes,
     ab_ranking = [], ab_abstained = abstained, ab_created_at = 0\<rparr>"

definition demo_candidates :: "Candidate list" where
  "demo_candidates = [demo_candidate 2 Eligible, demo_candidate 1 Eligible]"

definition demo_ballots :: "AdjudicationBallot list" where
  "demo_ballots = [demo_ballot 7 False [(1, True), (2, True)], demo_ballot 6 False [(1, True), (2, True)],
     demo_ballot 5 True [(2, False)]]"

theorem adjudication_order_independent_witness:
  "adjudicate demo_candidates demo_ballots (Ensemble 2 2) = adjudicate (rev demo_candidates) (rev demo_ballots) (Ensemble 2 2)"
  using adjudication_order_independent [of demo_candidates "rev demo_candidates" demo_ballots "rev demo_ballots"] by simp

text \<open>The third demo ballot abstains, and still its objection removes candidate 2.\<close>

theorem selection_spec_witness:
  "map_option selected_candidate_id (case adjudicate demo_candidates demo_ballots (Ensemble 2 2) of
     Inr out \<Rightarrow> Some out | Inl _ \<Rightarrow> None) = Some (Some 1)"
proof -
  have v: "validate_round demo_candidates demo_ballots = Inr ()" by code_simp
  have p: "policy_parameters (Ensemble 2 2) = Inr (2, 2)" by code_simp
  obtain out where out: "adjudicate demo_candidates demo_ballots (Ensemble 2 2) = Inr out"
    using adjudicate_ok [OF p v] by blast
  have q: "ao_required_quorum out = 2" by (rule adjudicate_Inr [OF out]) (simp add: p)
  have facts: "gated demo_ballots (demo_candidate 1 Eligible)" "approvals demo_ballots 1 = 2"
    "\<not> gated demo_ballots (demo_candidate 2 Eligible)" by code_simp+
  have id: "cd_id (demo_candidate i st) = i" for i st by (simp add: demo_candidate_def)
  note spec = selection_spec [OF out]
  have "\<exists>x \<in> set demo_candidates. gated demo_ballots x \<and> unat (ao_required_quorum out) \<le> approvals demo_ballots (cd_id x)"
    using facts(1,2) q id by (auto simp: demo_candidates_def)
  then obtain c where c: "ao_decision out = PolSelect c" using spec by blast
  then obtain x where "x \<in> set demo_candidates" "cd_id x = c" "gated demo_ballots x" using spec by blast
  then have "c = 1" using facts(3) id by (auto simp: demo_candidates_def)
  then show ?thesis using out c by (simp add: selected_candidate_id_def)
qed

end
