(* ===== verification/Tasker_Mutation.thy ===== *)
theory Tasker_Mutation
  imports Tasker_Types
begin

text \<open>
  Admission of canonical mutations while candidate rounds are active
  (\<open>crates/jcode-tasker-pi/src/mutation_policy.rs\<close>): the conflict test on resource intents, the pure
  decision and the gate in front of it. The store the gate reads, with the JSON decoding of its
  projections, is a triple of function parameters.
\<close>

section \<open>Snapshots and decisions\<close>

record CandidateMutationContext =
  mc_candidate_set_id :: string
  mc_candidate_id :: string

record CanonicalMutation =
  cm_task_id :: string
  cm_resource_intents :: "ResourceIntent list"
  cm_candidate_context :: "CandidateMutationContext option"

record CandidateSnapshot =
  sn_id :: string
  sn_candidate_set_id :: string
  sn_agent_id :: "string option"
  sn_session_id :: "string option"
  sn_resource_intents :: "ResourceIntent list"

record CandidateSetSnapshot =
  ss_id :: string
  ss_task_id :: string
  ss_policy :: ConcurrencyPolicy
  ss_state :: CandidateSetState
  ss_candidates :: "CandidateSnapshot list"

datatype MutationPolicyRejection =
    RejConflict string string string string
  | RejStaleCandidateContext string string string
  | RejInvalidCandidateContext string
  | RejSpeculationNotPermitted string string

datatype MutationPolicyDecision =
    Admit
  | Reject MutationPolicyRejection
  | AdmitSpeculative string

definition rejection_display :: "MutationPolicyRejection \<Rightarrow> string" where
  "rejection_display r = (case r of
     RejConflict set_id task_id holder resource \<Rightarrow> ''canonical mutation for task '' @ task_id @
       '' conflicts with active candidate set '' @ set_id @ '' held by '' @ holder @ '' on '' @ resource
   | RejStaleCandidateContext set_id candidate_id state \<Rightarrow> ''candidate context '' @ candidate_id @
       '' is stale because candidate set '' @ set_id @ '' is '' @ state
   | RejInvalidCandidateContext reason \<Rightarrow> ''candidate context is invalid: '' @ reason
   | RejSpeculationNotPermitted set_id candidate_id \<Rightarrow> ''candidate set '' @ set_id @
       '' uses exclusive policy and cannot admit candidate '' @ candidate_id)"

section \<open>Conflicting intents\<close>

definition resource_kind_name :: "ResourceKind \<Rightarrow> string" where
  "resource_kind_name k = (case k of ResFile \<Rightarrow> ''file'' | ResDirectory \<Rightarrow> ''directory'' | ResTask \<Rightarrow> ''task''
     | ResSchema \<Rightarrow> ''schema'' | ResExternal \<Rightarrow> ''external'')"

definition is_active_set :: "CandidateSetState \<Rightarrow> bool" where
  "is_active_set s \<longleftrightarrow> s = SetOpen \<or> s = SetAdjudicating \<or> s = SetPromoting"

definition state_name :: "CandidateSetState \<Rightarrow> string" where
  "state_name s = (case s of SetOpen \<Rightarrow> ''open'' | SetAdjudicating \<Rightarrow> ''adjudicating'' | SetDecided \<Rightarrow> ''decided''
     | SetPromoting \<Rightarrow> ''promoting'' | SetCompleted \<Rightarrow> ''completed'' | SetCancelled \<Rightarrow> ''cancelled'')"

definition trim_slashes :: "string \<Rightarrow> string" where
  "trim_slashes s = rev (dropWhile (\<lambda>c. c = CHR 0x2F) (rev s))"

definition path_selectors_overlap :: "string \<Rightarrow> string \<Rightarrow> bool" where
  "path_selectors_overlap left_selector right_selector =
     (let left = trim_slashes left_selector; right = trim_slashes right_selector in
      left = right \<or>
      (case strip_prefix right left of Some suffix \<Rightarrow> starts_with suffix ''/'' | None \<Rightarrow> False) \<or>
      (case strip_prefix left right of Some suffix \<Rightarrow> starts_with suffix ''/'' | None \<Rightarrow> False))"

definition intents_conflict :: "ResourceIntent \<Rightarrow> ResourceIntent \<Rightarrow> bool" where
  "intents_conflict active proposed =
     (if ri_access active \<noteq> AccessProposeWrite \<or> ri_access proposed \<noteq> AccessProposeWrite then False
      else if ri_kind active \<in> {ResFile, ResDirectory} \<and> ri_kind proposed \<in> {ResFile, ResDirectory}
      then path_selectors_overlap (ri_selector active) (ri_selector proposed)
      else if ri_kind active = ri_kind proposed \<and> ri_kind active \<in> {ResTask, ResSchema, ResExternal}
      then ri_selector active = ri_selector proposed
      else False)"

definition holder_name :: "CandidateSnapshot \<Rightarrow> string" where
  "holder_name c = (case sn_agent_id c of
     Some agent_id \<Rightarrow> ''agent '' @ agent_id @ '' (candidate '' @ sn_id c @ '')''
   | None \<Rightarrow> (case sn_session_id c of
       Some session_id \<Rightarrow> ''session '' @ session_id @ '' (candidate '' @ sn_id c @ '')''
     | None \<Rightarrow> ''candidate '' @ sn_id c))"

text \<open>The three nested loops: the first conflict in the order of candidates, their intents and the
  proposed intents.\<close>

definition first_conflict :: "CanonicalMutation \<Rightarrow> CandidateSnapshot \<Rightarrow> ResourceIntent option" where
  "first_conflict mutation candidate = map_option snd
     (find (\<lambda>(active, proposed). intents_conflict active proposed)
       (concat (map (\<lambda>active. map (Pair active) (cm_resource_intents mutation)) (sn_resource_intents candidate))))"

definition conflicting_resource :: "CanonicalMutation \<Rightarrow> CandidateSetSnapshot \<Rightarrow> (string \<times> string) option" where
  "conflicting_resource mutation candidate_set =
     (if cm_task_id mutation = ss_task_id candidate_set
      then Some (''task '' @ cm_task_id mutation, case ss_candidates candidate_set of
          candidate # _ \<Rightarrow> holder_name candidate | [] \<Rightarrow> ''candidate set '' @ ss_id candidate_set)
      else (case List.map_filter (\<lambda>c. map_option (\<lambda>r. (r, c)) (first_conflict mutation c)) (ss_candidates candidate_set) of
          [] \<Rightarrow> None
        | (proposed, candidate) # _ \<Rightarrow>
            Some (resource_kind_name (ri_kind proposed) @ '':'' @ ri_selector proposed, holder_name candidate)))"

section \<open>The decision\<close>

definition decide_context :: "CanonicalMutation \<Rightarrow> CandidateMutationContext \<Rightarrow> CandidateSetSnapshot list \<Rightarrow> MutationPolicyDecision" where
  "decide_context mutation context active_sets =
     (case find_key ss_id (mc_candidate_set_id context) active_sets of
        None \<Rightarrow> Reject (RejStaleCandidateContext (mc_candidate_set_id context) (mc_candidate_id context) ''resolved_or_abandoned'')
      | Some candidate_set \<Rightarrow>
          if \<not> is_active_set (ss_state candidate_set)
          then Reject (RejStaleCandidateContext (mc_candidate_set_id context) (mc_candidate_id context)
            (state_name (ss_state candidate_set)))
          else if ss_task_id candidate_set \<noteq> cm_task_id mutation
          then Reject (RejInvalidCandidateContext (''candidate set '' @ mc_candidate_set_id context @ '' belongs to task '' @
            ss_task_id candidate_set @ '', not '' @ cm_task_id mutation))
          else if \<not> list_ex (\<lambda>c. sn_id c = mc_candidate_id context) (ss_candidates candidate_set)
          then Reject (RejInvalidCandidateContext (''candidate '' @ mc_candidate_id context @
            '' does not belong to candidate set '' @ mc_candidate_set_id context))
          else if \<not> permits_parallel_authorship (ss_policy candidate_set)
          then Reject (RejSpeculationNotPermitted (mc_candidate_set_id context) (mc_candidate_id context))
          else AdmitSpeculative (mc_candidate_id context))"

fun decide_canonical :: "CanonicalMutation \<Rightarrow> CandidateSetSnapshot list \<Rightarrow> MutationPolicyDecision" where
  "decide_canonical mutation [] = Admit"
| "decide_canonical mutation (candidate_set # sets) =
     (if is_active_set (ss_state candidate_set)
      then (case conflicting_resource mutation candidate_set of
          Some (resource, holder) \<Rightarrow> Reject (RejConflict (ss_id candidate_set) (cm_task_id mutation) holder resource)
        | None \<Rightarrow> decide_canonical mutation sets)
      else decide_canonical mutation sets)"

definition decide_mutation_policy :: "CanonicalMutation \<Rightarrow> CandidateSetSnapshot list \<Rightarrow> MutationPolicyDecision" where
  "decide_mutation_policy mutation active_sets = (case cm_candidate_context mutation of
     Some context \<Rightarrow> decide_context mutation context active_sets
   | None \<Rightarrow> decide_canonical mutation active_sets)"

text \<open>The gate: \<open>set_of\<close>, \<open>set_id_of\<close> and \<open>active\<close> are the store's lookups, decoded; a decoding or store
  failure is an error of type \<open>'e\<close>. \<open>set_id_of\<close> returns the set a stored candidate belongs to.\<close>

definition check_context :: "(string \<Rightarrow> 'e + CandidateSetSnapshot option) \<Rightarrow> (string \<Rightarrow> 'e + string option) \<Rightarrow>
    CanonicalMutation \<Rightarrow> CandidateMutationContext \<Rightarrow> 'e + MutationPolicyRejection option" where
  "check_context set_of set_id_of mutation context =
     and_then (set_of (mc_candidate_set_id context)) (\<lambda>found. case found of
        None \<Rightarrow> Inr (Some (RejStaleCandidateContext (mc_candidate_set_id context) (mc_candidate_id context) ''missing''))
      | Some snapshot \<Rightarrow>
          if \<not> is_active_set (ss_state snapshot)
          then Inr (Some (RejStaleCandidateContext (mc_candidate_set_id context) (mc_candidate_id context)
            (state_name (ss_state snapshot))))
          else if ss_task_id snapshot \<noteq> cm_task_id mutation
          then Inr (Some (RejInvalidCandidateContext (''candidate set '' @ mc_candidate_set_id context @ '' belongs to task '' @
            ss_task_id snapshot @ '', not '' @ cm_task_id mutation)))
          else and_then (set_id_of (mc_candidate_id context)) (\<lambda>candidate. case candidate of
              None \<Rightarrow> Inr (Some (RejInvalidCandidateContext (''candidate '' @ mc_candidate_id context @
                '' does not belong to candidate set '' @ mc_candidate_set_id context)))
            | Some owner \<Rightarrow>
                if owner \<noteq> mc_candidate_set_id context
                then Inr (Some (RejInvalidCandidateContext (''candidate '' @ mc_candidate_id context @
                  '' belongs to candidate set '' @ owner @ '', not '' @ mc_candidate_set_id context)))
                else Inr None))"

definition evaluate_mutation :: "(string \<Rightarrow> 'e + CandidateSetSnapshot option) \<Rightarrow> (string \<Rightarrow> 'e + string option) \<Rightarrow>
    'e + CandidateSetSnapshot list \<Rightarrow> CanonicalMutation \<Rightarrow> 'e + MutationPolicyDecision" where
  "evaluate_mutation set_of set_id_of active mutation =
     and_then (case cm_candidate_context mutation of
         None \<Rightarrow> Inr None
       | Some context \<Rightarrow> check_context set_of set_id_of mutation context)
     (\<lambda>rejection. case rejection of
         Some reason \<Rightarrow> Inr (Reject reason)
       | None \<Rightarrow> and_then active (\<lambda>active_sets. Inr (decide_mutation_policy mutation active_sets)))"

section \<open>Overlap\<close>

text \<open>One path lies at or below the other.\<close>

definition below :: "string \<Rightarrow> string \<Rightarrow> bool" where
  "below p q \<longleftrightarrow> p = q \<or> (\<exists>s. p = q @ ''/'' @ s)"

lemma path_selectors_overlap_iff:
  "path_selectors_overlap l r \<longleftrightarrow> below (trim_slashes l) (trim_slashes r) \<or> below (trim_slashes r) (trim_slashes l)"
proof -
  have prefix: "(case strip_prefix q p of Some suffix \<Rightarrow> starts_with suffix ''/'' | None \<Rightarrow> False) \<longleftrightarrow>
      (\<exists>s. p = q @ ''/'' @ s)" for p q
  proof (cases "strip_prefix q p")
    case None
    then have "\<nexists>s. p = q @ s" by (simp add: strip_prefix_None_iff)
    then show ?thesis by (simp add: None)
  next
    case (Some s)
    then have "p = q @ s" by (simp add: strip_prefix_Some_iff)
    then show ?thesis using Some by (auto simp: starts_with_iff)
  qed
  show ?thesis unfolding path_selectors_overlap_def Let_def prefix below_def by metis
qed

lemma first_conflict_None:
  "first_conflict m c = None \<longleftrightarrow>
   (\<forall>a \<in> set (sn_resource_intents c). \<forall>p \<in> set (cm_resource_intents m). \<not> intents_conflict a p)"
  by (auto simp: first_conflict_def find_None_iff)

lemma conflicting_resource_None:
  "conflicting_resource m s = None \<longleftrightarrow> cm_task_id m \<noteq> ss_task_id s \<and>
   (\<forall>c \<in> set (ss_candidates s). \<forall>a \<in> set (sn_resource_intents c). \<forall>p \<in> set (cm_resource_intents m). \<not> intents_conflict a p)"
proof -
  let ?hits = "List.map_filter (\<lambda>c. map_option (\<lambda>r. (r, c)) (first_conflict m c))"
  have "?hits cs = [] \<longleftrightarrow> (\<forall>c \<in> set cs. first_conflict m c = None)" for cs
    by (induction cs) (auto simp: List.map_filter_def)
  moreover have "conflicting_resource m s = None \<longleftrightarrow> cm_task_id m \<noteq> ss_task_id s \<and> ?hits (ss_candidates s) = []"
    by (auto simp: conflicting_resource_def split: list.split)
  ultimately show ?thesis by (simp only: first_conflict_None)
qed

lemma decide_canonical_Admit:
  "decide_canonical m sets = Admit \<longleftrightarrow>
   (\<forall>s \<in> set sets. is_active_set (ss_state s) \<longrightarrow> conflicting_resource m s = None)"
  by (induction sets) (auto split: option.split)

lemma list_ex_field: "list_ex (\<lambda>x. f x = y) xs \<longleftrightarrow> y \<in> f ` set xs"
  by (auto simp: list_ex_iff)

section \<open>Properties\<close>

text \<open>When two intents collide: both write, and either both are about paths, of which one lies at or below the
  other, or they name the same task, schema or external resource.\<close>

definition collide :: "ResourceIntent \<Rightarrow> ResourceIntent \<Rightarrow> bool" where
  "collide a p \<longleftrightarrow> ri_access a = AccessProposeWrite \<and> ri_access p = AccessProposeWrite \<and>
     (if ri_kind a \<in> {ResFile, ResDirectory}
      then ri_kind p \<in> {ResFile, ResDirectory} \<and>
        (below (trim_slashes (ri_selector a)) (trim_slashes (ri_selector p)) \<or>
         below (trim_slashes (ri_selector p)) (trim_slashes (ri_selector a)))
      else ri_kind p = ri_kind a \<and> ri_selector p = ri_selector a)"

definition running :: "CandidateSetSnapshot \<Rightarrow> bool" where
  "running s \<longleftrightarrow> ss_state s \<in> {SetOpen, SetAdjudicating, SetPromoting}"

definition unreserved :: "CanonicalMutation \<Rightarrow> CandidateSetSnapshot list \<Rightarrow> bool" where
  "unreserved m sets \<longleftrightarrow> (\<forall>s \<in> set sets. running s \<longrightarrow> ss_task_id s \<noteq> cm_task_id m \<and>
     (\<forall>c \<in> set (ss_candidates s). \<forall>a \<in> set (sn_resource_intents c). \<forall>p \<in> set (cm_resource_intents m). \<not> collide a p))"

definition may_speculate :: "CanonicalMutation \<Rightarrow> CandidateMutationContext \<Rightarrow> CandidateSetSnapshot list \<Rightarrow> bool" where
  "may_speculate m ctx sets \<longleftrightarrow> (\<exists>s. find_key ss_id (mc_candidate_set_id ctx) sets = Some s \<and> running s \<and>
     ss_task_id s = cm_task_id m \<and> mc_candidate_id ctx \<in> sn_id ` set (ss_candidates s) \<and> ss_policy s \<noteq> Exclusive)"

lemma intents_conflict_iff: "intents_conflict a p \<longleftrightarrow> collide a p"
  by (cases "ri_kind a"; cases "ri_kind p") (auto simp: intents_conflict_def collide_def path_selectors_overlap_iff)

lemma is_active_set_iff: "is_active_set (ss_state s) \<longleftrightarrow> running s"
  by (auto simp: is_active_set_def running_def)

lemma decide_canonical_iff: "decide_canonical m sets = Admit \<longleftrightarrow> unreserved m sets"
  unfolding decide_canonical_Admit unreserved_def conflicting_resource_None is_active_set_iff intents_conflict_iff
  by metis

lemma decide_canonical_no_candidate: "decide_canonical m sets \<noteq> AdmitSpeculative c"
  by (induction sets) (auto split: option.split)

lemma decide_context_iff:
  "decide_context m ctx sets = AdmitSpeculative c \<longleftrightarrow> c = mc_candidate_id ctx \<and> may_speculate m ctx sets"
  unfolding may_speculate_def is_active_set_iff [symmetric]
  by (auto simp: decide_context_def permits_parallel_authorship_def list_ex_field split: option.splits)

lemma decide_context_not_canonical: "decide_context m ctx sets \<noteq> Admit"
  by (simp add: decide_context_def split: option.split)

lemma decide_iff:
  "decide_mutation_policy m sets = Admit \<longleftrightarrow> cm_candidate_context m = None \<and> unreserved m sets"
  "decide_mutation_policy m sets = AdmitSpeculative c \<longleftrightarrow>
    (\<exists>ctx. cm_candidate_context m = Some ctx \<and> c = mc_candidate_id ctx \<and> may_speculate m ctx sets)"
  by (cases "cm_candidate_context m";
      simp add: decide_mutation_policy_def decide_canonical_iff decide_canonical_no_candidate decide_context_iff
        decide_context_not_canonical)+

lemma check_context_passes:
  "check_context set_of set_id_of m ctx = Inr None \<longleftrightarrow>
    (\<exists>s. set_of (mc_candidate_set_id ctx) = Inr (Some s) \<and> running s \<and> ss_task_id s = cm_task_id m) \<and>
    set_id_of (mc_candidate_id ctx) = Inr (Some (mc_candidate_set_id ctx))"
proof (cases "\<exists>s. set_of (mc_candidate_set_id ctx) = Inr (Some s)")
  case True
  then obtain s where s: "set_of (mc_candidate_set_id ctx) = Inr (Some s)" by blast
  show ?thesis
    by (cases "running s"; cases "ss_task_id s = cm_task_id m"; cases "set_id_of (mc_candidate_id ctx)")
      (simp_all add: check_context_def s is_active_set_iff split: option.split)
next
  case False
  then show ?thesis
    by (cases "set_of (mc_candidate_set_id ctx)") (auto simp: check_context_def split: option.split)
qed

text \<open>C24 Isolation of active rounds: what is admitted, exactly. A write is admitted as canonical iff it carries no
  candidate context, no running candidate set (open, adjudicating or promoting) owns its task, and no write intent of
  it collides with a write intent of a candidate of a running set. It is admitted as speculative, for the candidate
  its context names, iff the first set with the context's id is running and not exclusive, owns the task and contains
  that candidate. The gate over the store decides the same of the active sets it reads, and in addition requires of a
  context that the store's own record of the set is running and owns the task, and that the stored candidate belongs
  to it; an error of any of these reads admits nothing.\<close>

theorem mutation_isolation:
  "(decide_mutation_policy m sets = Admit \<longleftrightarrow> cm_candidate_context m = None \<and> unreserved m sets) \<and>
   (decide_mutation_policy m sets = AdmitSpeculative c \<longleftrightarrow>
     (\<exists>ctx. cm_candidate_context m = Some ctx \<and> c = mc_candidate_id ctx \<and> may_speculate m ctx sets)) \<and>
   (evaluate_mutation set_of set_id_of active m = Inr Admit \<longleftrightarrow>
     cm_candidate_context m = None \<and> (\<exists>xs. active = Inr xs \<and> unreserved m xs)) \<and>
   (evaluate_mutation set_of set_id_of active m = Inr (AdmitSpeculative c) \<longleftrightarrow>
     (\<exists>ctx xs s. cm_candidate_context m = Some ctx \<and> c = mc_candidate_id ctx \<and>
        set_of (mc_candidate_set_id ctx) = Inr (Some s) \<and> running s \<and> ss_task_id s = cm_task_id m \<and>
        set_id_of c = Inr (Some (mc_candidate_set_id ctx)) \<and> active = Inr xs \<and> may_speculate m ctx xs))"
proof (intro conjI)
  show "decide_mutation_policy m sets = Admit \<longleftrightarrow> cm_candidate_context m = None \<and> unreserved m sets"
    "decide_mutation_policy m sets = AdmitSpeculative c \<longleftrightarrow>
     (\<exists>ctx. cm_candidate_context m = Some ctx \<and> c = mc_candidate_id ctx \<and> may_speculate m ctx sets)"
    by (rule decide_iff)+
next
  have gate: "evaluate_mutation set_of set_id_of active m = Inr d \<longleftrightarrow> (\<exists>xs. active = Inr xs \<and>
      decide_mutation_policy m xs = d \<and>
      (\<forall>ctx. cm_candidate_context m = Some ctx \<longrightarrow> check_context set_of set_id_of m ctx = Inr None))"
    if "\<And>reason. d \<noteq> Reject reason" for d
    using that by (cases "cm_candidate_context m")
      (auto simp: evaluate_mutation_def and_then_Inr split: option.splits)
  show "evaluate_mutation set_of set_id_of active m = Inr Admit \<longleftrightarrow>
     cm_candidate_context m = None \<and> (\<exists>xs. active = Inr xs \<and> unreserved m xs)"
    by (auto simp: gate decide_iff)
  show "evaluate_mutation set_of set_id_of active m = Inr (AdmitSpeculative c) \<longleftrightarrow>
     (\<exists>ctx xs s. cm_candidate_context m = Some ctx \<and> c = mc_candidate_id ctx \<and>
        set_of (mc_candidate_set_id ctx) = Inr (Some s) \<and> running s \<and> ss_task_id s = cm_task_id m \<and>
        set_id_of c = Inr (Some (mc_candidate_set_id ctx)) \<and> active = Inr xs \<and> may_speculate m ctx xs)"
    by (auto simp: gate decide_iff check_context_passes)
qed

definition demo_intent :: "ResourceKind \<Rightarrow> string \<Rightarrow> ResourceIntent" where
  "demo_intent k s = \<lparr>ri_kind = k, ri_selector = s, ri_access = AccessProposeWrite, ri_rationale = None\<rparr>"

definition demo_set :: CandidateSetSnapshot where
  "demo_set = \<lparr>ss_id = ''s'', ss_task_id = ''t'', ss_policy = Speculative 2, ss_state = SetOpen,
     ss_candidates = [\<lparr>sn_id = ''c'', sn_candidate_set_id = ''s'', sn_agent_id = None, sn_session_id = None,
       sn_resource_intents = [demo_intent ResDirectory ''src/a/'']\<rparr>]\<rparr>"

theorem mutation_isolation_witness:
  "decide_mutation_policy \<lparr>cm_task_id = ''u'', cm_resource_intents = [demo_intent ResFile ''src/a/x.rs''],
     cm_candidate_context = None\<rparr> [demo_set] \<noteq> Admit \<and>
   decide_mutation_policy \<lparr>cm_task_id = ''u'', cm_resource_intents = [demo_intent ResFile ''src/ab.rs''],
     cm_candidate_context = None\<rparr> [demo_set] = Admit"
proof -
  have i: "collide (demo_intent ResDirectory ''src/a/'') (demo_intent ResFile ''src/a/x.rs'')"
    "\<not> collide (demo_intent ResDirectory ''src/a/'') (demo_intent ResFile ''src/ab.rs'')"
    unfolding intents_conflict_iff [symmetric] by code_simp+
  show ?thesis
    using mutation_isolation [where sets = "[demo_set]" and m = "\<lparr>cm_task_id = ''u'',
        cm_resource_intents = [demo_intent ResFile ''src/a/x.rs''], cm_candidate_context = None\<rparr>", THEN conjunct1]
      mutation_isolation [where sets = "[demo_set]" and m = "\<lparr>cm_task_id = ''u'',
        cm_resource_intents = [demo_intent ResFile ''src/ab.rs''], cm_candidate_context = None\<rparr>", THEN conjunct1] i
    by (simp add: demo_set_def unreserved_def running_def)
qed

end
