(* ===== verification/Swarm_Channels.thy ===== *)
theory Swarm_Channels
  imports Prelude "HOL-Library.AList"
begin

text \<open>
  Channel subscriptions of a swarm (\<open>ChannelIndex\<close> of \<open>crates/jcode-swarm-core/src/lib.rs\<close>): two nested
  hash maps, one by swarm and channel, one by session. A \<open>HashMap\<close> is an association list with distinct
  keys, whose order stands for the unspecified iteration order; a \<open>HashSet\<close> is a list without repetition.
\<close>

section \<open>The index\<close>

type_synonym SubIndex = "(string \<times> (string \<times> string list) list) list"

record ChannelIndex =
  by_swarm_channel :: SubIndex
  by_session :: SubIndex

definition channel_index_empty :: ChannelIndex where
  "channel_index_empty = \<lparr>by_swarm_channel = [], by_session = []\<rparr>"

text \<open>\<open>entry(a).or_default().entry(b).or_default().insert(c)\<close>\<close>

definition add_entry :: "string \<Rightarrow> string \<Rightarrow> string \<Rightarrow> SubIndex \<Rightarrow> SubIndex" where
  "add_entry a b c ix =
     (let m = (case map_of ix a of Some m \<Rightarrow> m | None \<Rightarrow> []);
          xs = (case map_of m b of Some xs \<Rightarrow> xs | None \<Rightarrow> [])
      in AList.update a (AList.update b (List.insert c xs) m) ix)"

definition subscribe :: "ChannelIndex \<Rightarrow> string \<Rightarrow> string \<Rightarrow> string \<Rightarrow> ChannelIndex" where
  "subscribe ci session swarm channel = \<lparr>
     by_swarm_channel = add_entry swarm channel session (by_swarm_channel ci),
     by_session = add_entry session swarm channel (by_session ci)\<rparr>"

text \<open>Take \<open>c\<close> out of the set under \<open>b\<close>, and the set out of the map when it is empty.\<close>

definition drop_member :: "string \<Rightarrow> string \<Rightarrow> (string \<times> string list) list \<Rightarrow> (string \<times> string list) list" where
  "drop_member c b m = (case map_of m b of
     None \<Rightarrow> m
   | Some xs \<Rightarrow> (let xs = removeAll c xs in if xs = [] then AList.delete b m else AList.update b xs m))"

definition prune_entry :: "string \<Rightarrow> (string \<times> string list) list \<Rightarrow> SubIndex \<Rightarrow> SubIndex" where
  "prune_entry a m ix = (if m = [] then AList.delete a ix else AList.update a m ix)"

definition drop_entry :: "string \<Rightarrow> string \<Rightarrow> string \<Rightarrow> SubIndex \<Rightarrow> SubIndex" where
  "drop_entry a b c ix = (case map_of ix a of
     None \<Rightarrow> ix
   | Some m \<Rightarrow> prune_entry a (drop_member c b m) ix)"

definition unsubscribe :: "ChannelIndex \<Rightarrow> string \<Rightarrow> string \<Rightarrow> string \<Rightarrow> ChannelIndex" where
  "unsubscribe ci session swarm channel = \<lparr>
     by_swarm_channel = drop_entry swarm channel session (by_swarm_channel ci),
     by_session = drop_entry session swarm channel (by_session ci)\<rparr>"

text \<open>One swarm of \<open>remove_session\<close>: the session leaves the given channels.\<close>

definition drop_channels :: "string \<Rightarrow> SubIndex \<Rightarrow> string \<times> string list \<Rightarrow> SubIndex" where
  "drop_channels session ix sub = (case map_of ix (fst sub) of
     None \<Rightarrow> ix
   | Some m \<Rightarrow> prune_entry (fst sub) (foldl (\<lambda>m channel. drop_member session channel m) m (snd sub)) ix)"

text \<open>The fallback for a session the second index does not know: every channel of the swarm.\<close>

definition drop_all_channels :: "string \<Rightarrow> SubIndex \<Rightarrow> string \<Rightarrow> SubIndex" where
  "drop_all_channels session ix swarm = (case map_of ix swarm of
     None \<Rightarrow> ix
   | Some m \<Rightarrow> drop_channels session ix (swarm, map fst m))"

definition remove_session :: "ChannelIndex \<Rightarrow> string \<Rightarrow> ChannelIndex" where
  "remove_session ci session = (case map_of (by_session ci) session of
     Some subs \<Rightarrow> \<lparr>by_swarm_channel = foldl (drop_channels session) (by_swarm_channel ci)
           subs,
         by_session = AList.delete session (by_session ci)\<rparr>
   | None \<Rightarrow> ci\<lparr>by_swarm_channel := foldl (drop_all_channels session) (by_swarm_channel ci)
         (map fst (by_swarm_channel ci))\<rparr>)"

definition members :: "ChannelIndex \<Rightarrow> string \<Rightarrow> string \<Rightarrow> string list" where
  "members ci swarm channel = sort (case map_of (by_swarm_channel ci) swarm of
     None \<Rightarrow> []
   | Some subs \<Rightarrow> (case map_of subs channel of None \<Rightarrow> [] | Some xs \<Rightarrow> xs))"

section \<open>What an index denotes\<close>

definition pairs :: "(string \<times> string list) list \<Rightarrow> (string \<times> string) set" where
  "pairs m = {(b, c). \<exists>xs. map_of m b = Some xs \<and> c \<in> set xs}"

definition triples :: "SubIndex \<Rightarrow> (string \<times> string \<times> string) set" where
  "triples ix = {(a, b, c). \<exists>m. map_of ix a = Some m \<and> (b, c) \<in> pairs m}"

definition wf_channels :: "(string \<times> string list) list \<Rightarrow> bool" where
  "wf_channels m \<longleftrightarrow> distinct (map fst m) \<and> (\<forall>b xs. map_of m b = Some xs \<longrightarrow> xs \<noteq> [] \<and> distinct xs)"

definition wf_index :: "SubIndex \<Rightarrow> bool" where
  "wf_index ix \<longleftrightarrow> distinct (map fst ix) \<and> (\<forall>a m. map_of ix a = Some m \<longrightarrow> m \<noteq> [] \<and> wf_channels m)"

lemma pairs_Nil [simp]: "pairs [] = {}"
  by (simp add: pairs_def)

lemma wf_Nil [simp]: "wf_channels []" "wf_index []"
  by (simp_all add: wf_channels_def wf_index_def)

lemma update_neq_Nil [simp]: "AList.update k v m \<noteq> []"
  by (cases m) auto

lemma pairs_update: "pairs (AList.update b xs m) = {(b', c) \<in> pairs m. b' \<noteq> b} \<union> {b} \<times> set xs"
  by (auto simp: pairs_def update_conv' split: if_splits)

lemma pairs_delete: "pairs (AList.delete b m) = {(b', c) \<in> pairs m. b' \<noteq> b}"
  by (auto simp: pairs_def delete_conv' split: if_splits)

lemma triples_update: "triples (AList.update a m ix) = {(a', bc) \<in> triples ix. a' \<noteq> a} \<union> {a} \<times> pairs m"
  by (auto simp: triples_def update_conv' split: if_splits)

lemma triples_delete: "triples (AList.delete a ix) = {(a', bc) \<in> triples ix. a' \<noteq> a}"
  by (auto simp: triples_def delete_conv' split: if_splits)

lemma mem_pairs_update:
  "(b', c') \<in> pairs (AList.update b xs m) \<longleftrightarrow> (if b' = b then c' \<in> set xs else (b', c') \<in> pairs m)"
  by (simp add: pairs_def update_conv')

lemma mem_triples_update:
  "(a', bc) \<in> triples (AList.update a m ix) \<longleftrightarrow> (if a' = a then bc \<in> pairs m else (a', bc) \<in> triples ix)"
  by (cases bc) (simp add: triples_def update_conv')

lemma wf_channels_update: "wf_channels m \<Longrightarrow> xs \<noteq> [] \<Longrightarrow> distinct xs \<Longrightarrow> wf_channels (AList.update b xs m)"
  by (simp add: wf_channels_def distinct_update update_conv')

lemma wf_channels_delete: "wf_channels m \<Longrightarrow> wf_channels (AList.delete b m)"
  by (simp add: wf_channels_def distinct_delete delete_conv')

lemma wf_index_update: "wf_index ix \<Longrightarrow> wf_channels m \<Longrightarrow> m \<noteq> [] \<Longrightarrow> wf_index (AList.update a m ix)"
  by (simp add: wf_index_def distinct_update update_conv')

lemma wf_index_delete: "wf_index ix \<Longrightarrow> wf_index (AList.delete a ix)"
  by (simp add: wf_index_def distinct_delete delete_conv')

lemma in_pairs: "map_of m b = Some xs \<Longrightarrow> (b, c) \<in> pairs m \<longleftrightarrow> c \<in> set xs" "map_of m b = None \<Longrightarrow> (b, c) \<notin> pairs m"
  by (simp_all add: pairs_def)

lemma in_triples:
  "map_of ix a = Some m \<Longrightarrow> (a, bc) \<in> triples ix \<longleftrightarrow> bc \<in> pairs m" "map_of ix a = None \<Longrightarrow> (a, bc) \<notin> triples ix"
  by (auto simp: triples_def)

section \<open>The operations on what they denote\<close>

lemma drop_member_pairs: "pairs (drop_member c b m) = pairs m - {(b, c)}"
proof (cases "map_of m b")
  case None
  then show ?thesis by (auto simp: drop_member_def in_pairs)
next
  case (Some xs)
  have "set (removeAll c xs) = set xs - {c}" by simp
  then have *: "removeAll c xs = [] \<longleftrightarrow> set xs - {c} = {}" by (metis set_empty)
  have "(b', c') \<in> pairs (drop_member c b m) \<longleftrightarrow> (b', c') \<in> pairs m - {(b, c)}" for b' c'
    using * by (cases "b' = b") (auto simp: drop_member_def Let_def Some in_pairs(1) [OF Some] pairs_update pairs_delete)
  then show ?thesis by auto
qed

lemma drop_member_wf:
  assumes "wf_channels m"
  shows "wf_channels (drop_member c b m)"
proof (cases "map_of m b")
  case (Some xs)
  then have "distinct (removeAll c xs)" using assms by (simp add: wf_channels_def distinct_removeAll)
  then show ?thesis using assms Some by (simp add: drop_member_def Let_def wf_channels_update wf_channels_delete)
qed (simp add: drop_member_def assms)

lemma drop_members:
  "pairs (foldl (\<lambda>m b. drop_member c b m) m bs) = pairs m - set bs \<times> {c}"
  "wf_channels m \<Longrightarrow> wf_channels (foldl (\<lambda>m b. drop_member c b m) m bs)"
  by (induction bs arbitrary: m) (auto simp: drop_member_pairs drop_member_wf)

lemma prune_entry_triples: "triples (prune_entry a m ix) = {(a', bc) \<in> triples ix. a' \<noteq> a} \<union> {a} \<times> pairs m"
  by (simp add: prune_entry_def triples_update triples_delete)

lemma prune_entry_wf: "wf_index ix \<Longrightarrow> wf_channels m \<Longrightarrow> wf_index (prune_entry a m ix)"
  by (simp add: prune_entry_def wf_index_update wf_index_delete)

lemma add_entry_cases:
  obtains m xs where "add_entry a b c ix = AList.update a (AList.update b (List.insert c xs) m) ix"
    and "\<And>b' c'. (a, b', c') \<in> triples ix \<longleftrightarrow> (b', c') \<in> pairs m"
    and "\<And>c'. (b, c') \<in> pairs m \<longleftrightarrow> c' \<in> set xs"
    and "wf_index ix \<Longrightarrow> wf_channels m \<and> distinct xs"
proof -
  define m where "m = (case map_of ix a of Some m \<Rightarrow> m | None \<Rightarrow> [])"
  define xs where "xs = (case map_of m b of Some xs \<Rightarrow> xs | None \<Rightarrow> [])"
  have "add_entry a b c ix = AList.update a (AList.update b (List.insert c xs) m) ix"
    by (simp add: add_entry_def Let_def m_def xs_def)
  moreover have "(a, b', c') \<in> triples ix \<longleftrightarrow> (b', c') \<in> pairs m" for b' c'
    unfolding m_def by (cases "map_of ix a") (simp_all add: in_triples)
  moreover have "(b, c') \<in> pairs m \<longleftrightarrow> c' \<in> set xs" for c'
    unfolding xs_def by (cases "map_of m b") (simp_all add: in_pairs)
  moreover have "wf_channels m \<and> distinct xs" if wf: "wf_index ix"
  proof -
    have m: "wf_channels m" using wf unfolding m_def by (cases "map_of ix a") (simp_all add: wf_index_def)
    moreover have "distinct xs" using m unfolding xs_def by (cases "map_of m b") (simp_all add: wf_channels_def)
    ultimately show ?thesis by simp
  qed
  ultimately show ?thesis by (rule that)
qed

lemma add_entry_triples: "triples (add_entry a b c ix) = insert (a, b, c) (triples ix)"
proof (rule add_entry_cases [of a b c ix])
  fix m xs
  assume *: "add_entry a b c ix = AList.update a (AList.update b (List.insert c xs) m) ix"
    "\<And>b' c'. (a, b', c') \<in> triples ix \<longleftrightarrow> (b', c') \<in> pairs m" "\<And>c'. (b, c') \<in> pairs m \<longleftrightarrow> c' \<in> set xs"
  have "(a', b', c') \<in> triples (add_entry a b c ix) \<longleftrightarrow> (a', b', c') \<in> insert (a, b, c) (triples ix)" for a' b' c'
    using *(2) [of b' c'] *(3) [of c'] by (auto simp: *(1) mem_triples_update mem_pairs_update)
  then show ?thesis by auto
qed

lemma add_entry_wf: "wf_index ix \<Longrightarrow> wf_index (add_entry a b c ix)"
proof (rule add_entry_cases [of a b c ix])
  fix m xs
  assume wf: "wf_index ix" "wf_index ix \<Longrightarrow> wf_channels m \<and> distinct xs"
    and *: "add_entry a b c ix = AList.update a (AList.update b (List.insert c xs) m) ix"
  have "List.insert c xs \<noteq> []" by (cases xs) (simp_all add: List.insert_def)
  then show ?thesis unfolding * using wf by (intro wf_index_update wf_channels_update) simp_all
qed

lemma drop_entry_triples: "triples (drop_entry a b c ix) = triples ix - {(a, b, c)}"
proof (cases "map_of ix a")
  case None
  then show ?thesis by (auto simp: drop_entry_def in_triples)
next
  case (Some m)
  then have "(a', bc) \<in> triples (drop_entry a b c ix) \<longleftrightarrow> (a', bc) \<in> triples ix - {(a, b, c)}" for a' bc
    by (auto simp: drop_entry_def prune_entry_triples drop_member_pairs in_triples)
  then show ?thesis by auto
qed

lemma drop_entry_wf: "wf_index ix \<Longrightarrow> wf_index (drop_entry a b c ix)"
  unfolding drop_entry_def
  by (cases "map_of ix a") (auto intro!: prune_entry_wf drop_member_wf simp: wf_index_def [of ix])

lemma drop_channels_triples: "triples (drop_channels s ix (a, bs)) = triples ix - {a} \<times> set bs \<times> {s}"
proof (cases "map_of ix a")
  case None
  then show ?thesis by (auto simp: drop_channels_def in_triples)
next
  case (Some m)
  then have "(a', bc) \<in> triples (drop_channels s ix (a, bs)) \<longleftrightarrow> (a', bc) \<in> triples ix - {a} \<times> set bs \<times> {s}" for a' bc
    by (auto simp: drop_channels_def prune_entry_triples drop_members in_triples)
  then show ?thesis by auto
qed

lemma drop_channels_wf: "wf_index ix \<Longrightarrow> wf_index (drop_channels s ix sub)"
  unfolding drop_channels_def
  by (cases "map_of ix (fst sub)") (auto intro!: prune_entry_wf drop_members simp: wf_index_def [of ix])

section \<open>Two indexes of one relation\<close>

definition mirrored :: "('a \<times> 'b \<times> 'c) set \<Rightarrow> ('c \<times> 'a \<times> 'b) set \<Rightarrow> bool" where
  "mirrored r t \<longleftrightarrow> (\<forall>a b c. (a, b, c) \<in> r \<longleftrightarrow> (c, a, b) \<in> t)"

text \<open>What the two maps promise each other: an index of triples with insertion and removal.\<close>

locale triple_index =
  fixes rel :: "'i \<Rightarrow> ('k \<times> 'k \<times> 'k) set"
    and ok :: "'i \<Rightarrow> bool"
    and add :: "'k \<Rightarrow> 'k \<Rightarrow> 'k \<Rightarrow> 'i \<Rightarrow> 'i"
    and drop :: "'k \<Rightarrow> 'k \<Rightarrow> 'k \<Rightarrow> 'i \<Rightarrow> 'i"
  assumes rel_add: "rel (add a b c i) = insert (a, b, c) (rel i)"
    and ok_add: "ok i \<Longrightarrow> ok (add a b c i)"
    and rel_drop: "rel (drop a b c i) = rel i - {(a, b, c)}"
    and ok_drop: "ok i \<Longrightarrow> ok (drop a b c i)"
begin

lemma mirrored_add: "mirrored (rel i) (rel j) \<Longrightarrow> mirrored (rel (add a b c i)) (rel (add c a b j))"
  by (auto simp: mirrored_def rel_add)

lemma mirrored_drop: "mirrored (rel i) (rel j) \<Longrightarrow> mirrored (rel (drop a b c i)) (rel (drop c a b j))"
  by (auto simp: mirrored_def rel_drop)

end

interpretation subs: triple_index triples wf_index add_entry drop_entry
  by unfold_locales (simp_all add: add_entry_triples add_entry_wf drop_entry_triples drop_entry_wf)

definition channels_ok :: "ChannelIndex \<Rightarrow> bool" where
  "channels_ok ci \<longleftrightarrow> wf_index (by_swarm_channel ci) \<and> wf_index (by_session ci) \<and>
     mirrored (triples (by_swarm_channel ci)) (triples (by_session ci))"

lemma channels_ok_subscribe: "channels_ok ci \<Longrightarrow> channels_ok (subscribe ci s w c)"
  by (simp add: channels_ok_def subscribe_def subs.ok_add subs.mirrored_add)

lemma channels_ok_unsubscribe: "channels_ok ci \<Longrightarrow> channels_ok (unsubscribe ci s w c)"
  by (simp add: channels_ok_def unsubscribe_def subs.ok_drop subs.mirrored_drop)

lemma drop_channels_fold_triples:
  "triples (foldl (drop_channels s) ix subs) = triples ix - {(w, c, s) |w c bs. (w, bs) \<in> set subs \<and> c \<in> set bs}"
proof (induction subs arbitrary: ix)
  case (Cons sub subs)
  obtain a bs where sub: "sub = (a, bs)" by fastforce
  show ?case by (auto simp: sub Cons.IH drop_channels_triples)
qed simp

lemma drop_channels_fold_wf: "wf_index ix \<Longrightarrow> wf_index (foldl (drop_channels s) ix subs)"
  by (induction subs arbitrary: ix) (simp_all add: drop_channels_wf)

lemma drop_all_channels_between:
  "triples (drop_all_channels s ix w) \<subseteq> triples ix"
  "triples ix - {(w, c, s) |w c. True} \<subseteq> triples (drop_all_channels s ix w)"
  by (auto simp: drop_all_channels_def drop_channels_triples split: option.split)

lemma drop_all_channels_fold_below: "triples (foldl (drop_all_channels s) ix ws) \<subseteq> triples ix"
proof (induction ws arbitrary: ix)
  case (Cons w ws ix)
  show ?case unfolding foldl_Cons by (rule order_trans [OF Cons.IH drop_all_channels_between(1)])
qed simp

lemma drop_all_channels_fold_above:
  "triples ix - {(w, c, s) |w c. True} \<subseteq> triples (foldl (drop_all_channels s) ix ws)"
proof (induction ws arbitrary: ix)
  case (Cons w ws ix)
  show ?case unfolding foldl_Cons
    using Cons.IH [of "drop_all_channels s ix w"] drop_all_channels_between(2) [of ix s w] by fast
qed simp

lemma drop_all_channels_fold_wf: "wf_index ix \<Longrightarrow> wf_index (foldl (drop_all_channels s) ix ws)"
  by (induction ws arbitrary: ix) (simp_all add: drop_all_channels_def drop_channels_wf split: option.split)

lemma remove_session_spec:
  assumes ok: "channels_ok ci"
  shows "triples (by_swarm_channel (remove_session ci s)) = {(w, c, s') \<in> triples (by_swarm_channel ci). s' \<noteq> s}"
    and "channels_ok (remove_session ci s)"
proof -
  have wf: "wf_index (by_swarm_channel ci)" "wf_index (by_session ci)"
    and mirror: "\<And>w c s. (w, c, s) \<in> triples (by_swarm_channel ci) \<longleftrightarrow> (s, w, c) \<in> triples (by_session ci)"
    using ok by (simp_all add: channels_ok_def mirrored_def)
  have "triples (by_swarm_channel (remove_session ci s)) = {(w, c, s') \<in> triples (by_swarm_channel ci). s' \<noteq> s} \<and>
      triples (by_session (remove_session ci s)) = {(s', w, c) \<in> triples (by_session ci). s' \<noteq> s} \<and>
      wf_index (by_swarm_channel (remove_session ci s)) \<and> wf_index (by_session (remove_session ci s))"
  proof (cases "map_of (by_session ci) s")
    case (Some m)
    then have "wf_channels m" using wf(2) by (simp add: wf_index_def)
    then have m: "(w, bs) \<in> set m \<longleftrightarrow> map_of m w = Some bs" for w bs by (simp add: wf_channels_def map_of_eq_Some_iff)
    have "(w, c, s) \<in> triples (by_swarm_channel ci) \<longleftrightarrow> (\<exists>bs. (w, bs) \<in> set m \<and> c \<in> set bs)" for w c
      unfolding mirror in_triples(1) [OF Some] by (simp add: pairs_def m)
    then show ?thesis
      using Some wf by (auto simp: remove_session_def drop_channels_fold_triples drop_channels_fold_wf triples_delete wf_index_delete)
  next
    case None
    then have none: "(w, c, s) \<notin> triples (by_swarm_channel ci)" "(s, w, c) \<notin> triples (by_session ci)" for w c
      using in_triples(2) [OF None] mirror by simp_all
    let ?ix = "foldl (drop_all_channels s) (by_swarm_channel ci) (map fst (by_swarm_channel ci))"
    have "triples ?ix = triples (by_swarm_channel ci)"
      using drop_all_channels_fold_below [where s = s and ix = "by_swarm_channel ci" and ws = "map fst (by_swarm_channel ci)"]
        drop_all_channels_fold_above [where s = s and ix = "by_swarm_channel ci" and ws = "map fst (by_swarm_channel ci)"] none(1) by blast
    then show ?thesis using None wf none by (auto simp: remove_session_def drop_all_channels_fold_wf)
  qed
  then show "triples (by_swarm_channel (remove_session ci s)) = {(w, c, s') \<in> triples (by_swarm_channel ci). s' \<noteq> s}"
    and "channels_ok (remove_session ci s)"
    using mirror by (auto simp: channels_ok_def mirrored_def)
qed

lemma members_spec:
  assumes "channels_ok ci"
  shows "members ci w c = sorted_list_of_set {s. (w, c, s) \<in> triples (by_swarm_channel ci)}"
proof -
  have wf: "wf_index (by_swarm_channel ci)" using assms by (simp add: channels_ok_def)
  let ?xs = "case map_of (by_swarm_channel ci) w of None \<Rightarrow> []
     | Some subs \<Rightarrow> (case map_of subs c of None \<Rightarrow> [] | Some xs \<Rightarrow> xs)"
  have "distinct ?xs \<and> set ?xs = {s. (w, c, s) \<in> triples (by_swarm_channel ci)}"
  proof (cases "map_of (by_swarm_channel ci) w")
    case (Some m)
    then have "wf_channels m" using wf by (simp add: wf_index_def)
    then show ?thesis using Some by (cases "map_of m c") (simp_all add: in_triples in_pairs wf_channels_def)
  qed (simp add: in_triples)
  then show ?thesis
    unfolding members_def by (metis distinct_remdups_id sorted_list_of_set_sort_remdups)
qed

section \<open>Properties\<close>

datatype ChannelOp = OpSubscribe string string string | OpUnsubscribe string string string | OpRemoveSession string

fun channel_op :: "ChannelIndex \<Rightarrow> ChannelOp \<Rightarrow> ChannelIndex" where
  "channel_op ci (OpSubscribe s w c) = subscribe ci s w c"
| "channel_op ci (OpUnsubscribe s w c) = unsubscribe ci s w c"
| "channel_op ci (OpRemoveSession s) = remove_session ci s"

fun subscription_op :: "(string \<times> string \<times> string) set \<Rightarrow> ChannelOp \<Rightarrow> (string \<times> string \<times> string) set" where
  "subscription_op r (OpSubscribe s w c) = insert (w, c, s) r"
| "subscription_op r (OpUnsubscribe s w c) = r - {(w, c, s)}"
| "subscription_op r (OpRemoveSession s) = {(w, c, s') \<in> r. s' \<noteq> s}"

lemma channel_op_refines:
  assumes "channels_ok ci"
  shows "channels_ok (channel_op ci x) \<and>
    triples (by_swarm_channel (channel_op ci x)) = subscription_op (triples (by_swarm_channel ci)) x"
proof (cases x)
  case (OpSubscribe s w c)
  then show ?thesis using assms by (simp add: channels_ok_subscribe) (simp add: subscribe_def subs.rel_add)
next
  case (OpUnsubscribe s w c)
  then show ?thesis using assms by (simp add: channels_ok_unsubscribe) (simp add: unsubscribe_def subs.rel_drop)
next
  case (OpRemoveSession s)
  then show ?thesis using remove_session_spec [OF assms] by simp
qed

lemma channel_ops_refine:
  "channels_ok ci \<Longrightarrow> channels_ok (foldl channel_op ci xs) \<and>
   triples (by_swarm_channel (foldl channel_op ci xs)) = foldl subscription_op (triples (by_swarm_channel ci)) xs"
  by (induction xs arbitrary: ci) (simp_all add: channel_op_refines)

text \<open>C30 Subscriptions. After any run of operations the two maps are the two indexes of one relation, without
  empty maps or sets, the relation is the one the operations describe (a removed session is in no channel,
  all other subscriptions are kept), and the members of a channel are its subscribers in order.\<close>

theorem channel_index_refines:
  "let ci = foldl channel_op channel_index_empty xs; r = foldl subscription_op {} xs in
   triples (by_swarm_channel ci) = r \<and> triples (by_session ci) = {(s, w, c). (w, c, s) \<in> r} \<and>
   wf_index (by_swarm_channel ci) \<and> wf_index (by_session ci) \<and>
   (\<forall>w c. members ci w c = sorted_list_of_set {s. (w, c, s) \<in> r})"
proof -
  have e: "channels_ok channel_index_empty" "triples (by_swarm_channel channel_index_empty) = {}"
    by (simp_all add: channels_ok_def channel_index_empty_def mirrored_def triples_def)
  let ?ci = "foldl channel_op channel_index_empty xs"
  have ok: "channels_ok ?ci" and r: "triples (by_swarm_channel ?ci) = foldl subscription_op {} xs"
    using channel_ops_refine [OF e(1)] e(2) by simp_all
  have "triples (by_session ?ci) = {(s, w, c). (w, c, s) \<in> foldl subscription_op {} xs}"
    using ok unfolding channels_ok_def mirrored_def r by auto
  then show ?thesis using ok r by (simp add: members_spec channels_ok_def)
qed

end
