(* ===== verification/Compact_Cutoff.thy ===== *)
theory Compact_Cutoff
  imports Prelude
begin

text \<open>
  Messages (\<open>crates/jcode-message-types/src/lib.rs\<close>) and the choice of what a compaction may drop
  (\<open>safe_compaction_cutoff\<close> of \<open>crates/jcode-compaction-core/src/lib.rs\<close> and the loop of
  \<open>hard_compact_with\<close> of \<open>crates/jcode-base/src/compaction.rs\<close>). The JSON input of a tool call is a type
  variable with its serialization as a parameter; lengths are natural numbers.
\<close>

section \<open>Messages\<close>

record CacheControl =
  cc_kind :: string
  cc_ttl :: "string option"

datatype 'j ContentBlock =
    BText string "CacheControl option"
  | BReasoning string
  | BReasoningTrace string
  | BAnthropicThinking string string
  | BOpenAIReasoning string "string list" "string option" "string option"
  | BToolUse string string 'j "string option"
  | BToolResult string string "bool option"
  | BImage string string
  | BOpenAICompaction string

datatype Role = RoleUser | RoleAssistant

record 'j Message =
  mg_role :: Role
  mg_content :: "'j ContentBlock list"
  mg_timestamp :: "int option"
  mg_tool_duration_ms :: "nat option"

definition RECENT_TURNS_TO_KEEP :: nat where "RECENT_TURNS_TO_KEEP = 10"
definition MIN_TURNS_TO_KEEP :: nat where "MIN_TURNS_TO_KEEP = 2"
definition CHARS_PER_TOKEN :: nat where "CHARS_PER_TOKEN = 4"
definition IMAGE_TOKEN_COST :: nat where "IMAGE_TOKEN_COST = 1600"

definition opt_len :: "string option \<Rightarrow> nat" where
  "opt_len s = (case s of None \<Rightarrow> 0 | Some s \<Rightarrow> length s)"

definition block_char_count :: "('j \<Rightarrow> string) \<Rightarrow> 'j ContentBlock \<Rightarrow> nat" where
  "block_char_count show_json b = (case b of
     BText text _ \<Rightarrow> length text
   | BReasoning text \<Rightarrow> length text
   | BReasoningTrace text \<Rightarrow> length text
   | BAnthropicThinking thinking signature \<Rightarrow> length thinking + length signature
   | BOpenAIReasoning i summary encrypted status \<Rightarrow>
       length i + sum_list (map length summary) + opt_len encrypted + opt_len status
   | BToolUse _ _ input _ \<Rightarrow> length (show_json input) + 50
   | BToolResult _ content _ \<Rightarrow> length content + 20
   | BImage _ _ \<Rightarrow> IMAGE_TOKEN_COST * CHARS_PER_TOKEN
   | BOpenAICompaction encrypted \<Rightarrow> length encrypted)"

definition content_char_count :: "('j \<Rightarrow> string) \<Rightarrow> 'j ContentBlock list \<Rightarrow> nat" where
  "content_char_count show_json content = sum_list (map (block_char_count show_json) content)"

definition message_char_count :: "('j \<Rightarrow> string) \<Rightarrow> 'j Message \<Rightarrow> nat" where
  "message_char_count show_json msg = content_char_count show_json (mg_content msg)"

section \<open>The cutoff\<close>

text \<open>The two sets of the scan: call ids available in the kept part, result ids that miss their call.\<close>

definition scan_block :: "string set \<times> string set \<Rightarrow> 'j ContentBlock \<Rightarrow> string set \<times> string set" where
  "scan_block st b = (let (available, missing) = st in case b of
     BToolUse i _ _ _ \<Rightarrow> (insert i available, missing - {i})
   | BToolResult i _ _ \<Rightarrow> if i \<notin> available then (available, insert i missing) else st
   | _ \<Rightarrow> st)"

definition scan_message :: "string set \<times> string set \<Rightarrow> 'j Message \<Rightarrow> string set \<times> string set" where
  "scan_message st msg = foldl scan_block st (mg_content msg)"

fun grow_suffix :: "string set \<times> string set \<Rightarrow> (nat \<times> 'j Message) list \<Rightarrow> nat" where
  "grow_suffix st [] = 0"
| "grow_suffix st ((idx, msg) # rest) =
     (let st = scan_message st msg in if snd st = {} then idx else grow_suffix st rest)"

definition safe_compaction_cutoff :: "'j Message list \<Rightarrow> nat \<Rightarrow> nat" where
  "safe_compaction_cutoff messages initial_cutoff =
     (let cutoff = min initial_cutoff (length messages);
          st = foldl scan_message ({}, {}) (drop cutoff messages)
      in if snd st = {} then cutoff else grow_suffix st (rev (enumerate 0 (take cutoff messages))))"

text \<open>The loop of \<open>hard_compact_with\<close>: keep fewer turns until the kept part fits the budget.\<close>

function hard_cutoff_loop :: "('j \<Rightarrow> string) \<Rightarrow> nat \<Rightarrow> 'j Message list \<Rightarrow> nat \<Rightarrow> nat" where
  "hard_cutoff_loop show_json budget active turns_to_keep =
     (let cutoff = safe_compaction_cutoff active (length active - turns_to_keep)
      in if cutoff > 0 \<and>
           sum_list (map (message_char_count show_json) (drop cutoff active)) div CHARS_PER_TOKEN \<le> budget
         then cutoff
         else if turns_to_keep \<le> MIN_TURNS_TO_KEEP
         then safe_compaction_cutoff active (length active - MIN_TURNS_TO_KEEP)
         else hard_cutoff_loop show_json budget active (max (turns_to_keep div 2) MIN_TURNS_TO_KEEP))"
  by pat_completeness auto
termination
  by (relation "measure (\<lambda>(_, _, _, turns). turns)") (auto simp: MIN_TURNS_TO_KEEP_def)

declare hard_cutoff_loop.simps [simp del]

definition hard_cutoff :: "('j \<Rightarrow> string) \<Rightarrow> nat \<Rightarrow> 'j Message list \<Rightarrow> string + nat" where
  "hard_cutoff show_json budget active =
     (if length active \<le> MIN_TURNS_TO_KEEP
      then Inl (''Not enough messages to compact (have '' @ nat_to_string (length active) @
        '', need more than '' @ nat_to_string MIN_TURNS_TO_KEEP @ '')'')
      else (let cutoff = hard_cutoff_loop show_json budget active (min RECENT_TURNS_TO_KEEP (length active - 1))
        in if cutoff = 0
           then Inl (''Cannot compact '' @ [CHR 0xE2, CHR 0x80, CHR 0x94] @ '' would split tool call/result pairs'')
           else Inr cutoff))"

section \<open>The scan\<close>

text \<open>A part of the transcript is paired when each of its results has its call in it.\<close>

definition uses :: "'j ContentBlock list \<Rightarrow> string set" where
  "uses bs = {i. \<exists>n x s. BToolUse i n x s \<in> set bs}"

definition results :: "'j ContentBlock list \<Rightarrow> string set" where
  "results bs = {i. \<exists>c e. BToolResult i c e \<in> set bs}"

definition blocks :: "'j Message list \<Rightarrow> 'j ContentBlock list" where
  "blocks ms = concat (map mg_content ms)"

definition paired :: "'j Message list \<Rightarrow> bool" where
  "paired ms \<longleftrightarrow> results (blocks ms) \<subseteq> uses (blocks ms)"

lemma uses_append: "uses (bs @ cs) = uses bs \<union> uses cs"
  by (auto simp: uses_def)

lemma results_append: "results (bs @ cs) = results bs \<union> results cs"
  by (auto simp: results_def)

lemma uses_results_Cons:
  "uses (b # bs) = (case b of BToolUse i _ _ _ \<Rightarrow> insert i (uses bs) | _ \<Rightarrow> uses bs)"
  "results (b # bs) = (case b of BToolResult i _ _ \<Rightarrow> insert i (results bs) | _ \<Rightarrow> results bs)"
  by (auto simp: uses_def results_def split: ContentBlock.split)

lemma blocks_simps [simp]: "blocks [] = []" "blocks (m # ms) = mg_content m @ blocks ms"
  by (simp_all add: blocks_def)

text \<open>The scan of blocks in any order: calls seen, and results seen without a call.\<close>

lemma scan_blocks:
  assumes "fst st \<inter> snd st = {}"
  shows "foldl scan_block st bs = (fst st \<union> uses bs, (snd st \<union> results bs) - (fst st \<union> uses bs))"
  using assms
proof (induction bs arbitrary: st)
  case Nil
  then show ?case by (cases st) (auto simp: uses_def results_def)
next
  case (Cons b bs)
  obtain av mi where st: "st = (av, mi)" by (cases st)
  have "fst (scan_block st b) \<inter> snd (scan_block st b) = {}"
    using Cons.prems by (auto simp: st scan_block_def split: ContentBlock.split)
  from Cons.IH [OF this] show ?case
    using Cons.prems by (cases b) (auto simp: st scan_block_def uses_results_Cons)
qed

lemma scan_messages:
  "foldl scan_message ({}, {}) ms = (uses (blocks ms), results (blocks ms) - uses (blocks ms))"
proof -
  have "foldl scan_message st ms = foldl scan_block st (blocks ms)" for st
    by (induction ms arbitrary: st) (simp_all add: scan_message_def)
  then show ?thesis by (simp add: scan_blocks)
qed

lemma scan_message_suffix:
  assumes "st = (uses (blocks ms), results (blocks ms) - uses (blocks ms))"
  shows "scan_message st m = (uses (blocks (m # ms)), results (blocks (m # ms)) - uses (blocks (m # ms)))"
  using assms by (auto simp: scan_message_def scan_blocks uses_append results_append)

lemma paired_iff: "paired ms \<longleftrightarrow> results (blocks ms) - uses (blocks ms) = {}"
  by (auto simp: paired_def)

text \<open>Growing the suffix finds the greatest smaller start of a paired suffix.\<close>

lemma grow_suffix_spec:
  assumes "k \<le> length ms"
    and "st = (uses (blocks (drop k ms)), results (blocks (drop k ms)) - uses (blocks (drop k ms)))"
  shows "let c = grow_suffix st (rev (enumerate 0 (take k ms))) in
    c \<le> k \<and> (paired (drop c ms) \<or> c = 0) \<and> (\<forall>c'. c < c' \<and> c' < k \<longrightarrow> \<not> paired (drop c' ms))"
  using assms
proof (induction k arbitrary: st)
  case (Suc k)
  have k: "k < length ms" using Suc.prems(1) by simp
  then have take: "rev (enumerate 0 (take (Suc k) ms)) = (k, ms ! k) # rev (enumerate 0 (take k ms))"
    by (simp add: take_Suc_conv_app_nth enumerate_append_eq)
  have drop: "drop k ms = ms ! k # drop (Suc k) ms" using k by (simp add: Cons_nth_drop_Suc)
  let ?st = "scan_message st (ms ! k)"
  have st: "?st = (uses (blocks (drop k ms)), results (blocks (drop k ms)) - uses (blocks (drop k ms)))"
    using scan_message_suffix [OF Suc.prems(2)] unfolding drop .
  show ?case
  proof (cases "paired (drop k ms)")
    case True
    then have "snd ?st = {}" unfolding st by (simp add: paired_iff)
    then show ?thesis using True by (auto simp: take Let_def)
  next
    case False
    then have "snd ?st \<noteq> {}" unfolding st by (simp add: paired_iff)
    then have "grow_suffix st (rev (enumerate 0 (take (Suc k) ms))) = grow_suffix ?st (rev (enumerate 0 (take k ms)))"
      by (simp add: take Let_def)
    moreover have "let c = grow_suffix ?st (rev (enumerate 0 (take k ms))) in
      c \<le> k \<and> (paired (drop c ms) \<or> c = 0) \<and> (\<forall>c'. c < c' \<and> c' < k \<longrightarrow> \<not> paired (drop c' ms))"
      using Suc.IH [OF _ st] k by simp
    ultimately show ?thesis using False by (auto simp: Let_def less_Suc_eq)
  qed
qed simp

lemma safe_cutoff_all:
  "safe_compaction_cutoff ms n \<le> min n (length ms) \<and>
   (paired (drop (safe_compaction_cutoff ms n) ms) \<or> safe_compaction_cutoff ms n = 0) \<and>
   (\<forall>c. safe_compaction_cutoff ms n < c \<and> c \<le> min n (length ms) \<longrightarrow> \<not> paired (drop c ms))"
proof -
  let ?k = "min n (length ms)" and ?c = "safe_compaction_cutoff ms n"
  note grow = grow_suffix_spec [of ?k ms "foldl scan_message ({}, {}) (drop ?k ms)", OF _ scan_messages, unfolded Let_def]
  show ?thesis
  proof (cases "paired (drop ?k ms)")
    case True
    then have "?c = ?k" unfolding safe_compaction_cutoff_def Let_def scan_messages by (simp add: paired_iff)
    then show ?thesis using True by auto
  next
    case False
    then have "?c = grow_suffix (foldl scan_message ({}, {}) (drop ?k ms)) (rev (enumerate 0 (take ?k ms)))"
      unfolding safe_compaction_cutoff_def Let_def scan_messages by (simp add: paired_iff)
    then show ?thesis using grow False by (metis le_neq_implies_less min.cobounded2)
  qed
qed

lemmas safe_cutoff_rule = safe_cutoff_all [THEN conjunct1] safe_cutoff_all [THEN conjunct2, THEN conjunct1]
  safe_cutoff_all [THEN conjunct2, THEN conjunct2, rule_format, OF conjI]

section \<open>The kept transcript\<close>

text \<open>In a transcript of the agent loop call ids are distinct and every result follows its call.\<close>

definition call_id :: "'j ContentBlock \<Rightarrow> string option" where
  "call_id b = (case b of BToolUse i _ _ _ \<Rightarrow> Some i | _ \<Rightarrow> None)"

definition answers_follow :: "'j ContentBlock list \<Rightarrow> bool" where
  "answers_follow bs \<longleftrightarrow> distinct (List.map_filter call_id bs) \<and>
     (\<forall>pre i c e post. bs = pre @ BToolResult i c e # post \<longrightarrow> i \<in> uses pre)"

lemma call_id_Some: "call_id b = Some i \<longleftrightarrow> (\<exists>n x s. b = BToolUse i n x s)"
  by (cases b) (simp_all add: call_id_def)

lemma set_call_ids: "set (List.map_filter call_id bs) = uses bs"
proof -
  have "i \<in> set (List.map_filter call_id bs) \<longleftrightarrow> i \<in> uses bs" for i
    unfolding set_map_filter call_id_Some uses_def by blast
  then show ?thesis by blast
qed

lemma answers_follow_suffix:
  assumes "answers_follow (as @ bs)" and "results bs \<subseteq> uses bs"
  shows "answers_follow bs"
  unfolding answers_follow_def
proof (intro conjI allI impI)
  have d: "distinct (List.map_filter call_id as @ List.map_filter call_id bs)"
    and f: "\<And>pre i c e post. as @ bs = pre @ BToolResult i c e # post \<Longrightarrow> i \<in> uses pre"
    using assms(1) unfolding answers_follow_def map_filter_append by blast+
  show "distinct (List.map_filter call_id bs)" using d by simp
  fix pre i c e post
  assume bs: "bs = pre @ BToolResult i c e # post"
  then have "i \<in> uses bs" using assms(2) by (auto simp: results_def)
  then have "i \<notin> uses as" using d unfolding distinct_append set_call_ids by blast
  moreover have "i \<in> uses (as @ pre)" using f [of "as @ pre"] bs by simp
  ultimately show "i \<in> uses pre" by (simp add: uses_append)
qed

lemma answers_follow_kept:
  assumes "answers_follow (blocks ms)"
  shows "answers_follow (blocks (drop (safe_compaction_cutoff ms n) ms))"
proof (cases "safe_compaction_cutoff ms n = 0")
  case False
  let ?c = "safe_compaction_cutoff ms n"
  have "blocks ms = blocks (take ?c ms) @ blocks (drop ?c ms)"
    unfolding blocks_def by (metis append_take_drop_id concat_append map_append)
  then show ?thesis
    using assms safe_cutoff_rule(2) [of ms n] False answers_follow_suffix by (auto simp: paired_def)
qed (simp add: assms)

section \<open>The hard cutoff\<close>

text \<open>A cutoff that is safe, keeps two messages, and fits the budget or is the greatest such cutoff.\<close>

definition hard_ok :: "('j \<Rightarrow> string) \<Rightarrow> nat \<Rightarrow> 'j Message list \<Rightarrow> nat \<Rightarrow> bool" where
  "hard_ok show_json budget ms c \<longleftrightarrow> c \<le> length ms - MIN_TURNS_TO_KEEP \<and> (c = 0 \<or> paired (drop c ms)) \<and>
     (0 < c \<and> sum_list (map (message_char_count show_json) (drop c ms)) div CHARS_PER_TOKEN \<le> budget \<or>
      (\<forall>c'. c < c' \<and> c' \<le> length ms - MIN_TURNS_TO_KEEP \<longrightarrow> \<not> paired (drop c' ms)))"

lemma hard_cutoff_loop_ok:
  assumes "MIN_TURNS_TO_KEEP \<le> turns"
  shows "hard_ok show_json budget ms (hard_cutoff_loop show_json budget ms turns)"
  using assms
proof (induction show_json budget ms turns rule: hard_cutoff_loop.induct)
  case (1 show_json budget ms turns)
  let ?c = "safe_compaction_cutoff ms (length ms - turns)"
  let ?fits = "0 < ?c \<and> sum_list (map (message_char_count show_json) (drop ?c ms)) div CHARS_PER_TOKEN \<le> budget"
  consider (fits) "?fits" | (least) "\<not> ?fits" "turns \<le> MIN_TURNS_TO_KEEP" | (fewer) "\<not> ?fits" "\<not> turns \<le> MIN_TURNS_TO_KEEP"
    by blast
  then show ?case
  proof cases
    case fits
    then have "hard_cutoff_loop show_json budget ms turns = ?c"
      by (simp add: hard_cutoff_loop.simps [of show_json budget ms turns] Let_def)
    moreover have "?c \<le> length ms - MIN_TURNS_TO_KEEP"
      using safe_cutoff_rule(1) [of ms "length ms - turns"] 1(2) by linarith
    ultimately show ?thesis using fits safe_cutoff_rule(2) [of ms "length ms - turns"] by (auto simp: hard_ok_def)
  next
    case least
    then have "hard_cutoff_loop show_json budget ms turns = safe_compaction_cutoff ms (length ms - MIN_TURNS_TO_KEEP)"
      by (auto simp: hard_cutoff_loop.simps [of show_json budget ms turns] Let_def)
    then show ?thesis
      using safe_cutoff_rule [of ms "length ms - MIN_TURNS_TO_KEEP"] by (auto simp: hard_ok_def)
  next
    case fewer
    then have "hard_cutoff_loop show_json budget ms turns =
        hard_cutoff_loop show_json budget ms (max (turns div 2) MIN_TURNS_TO_KEEP)"
      by (auto simp: hard_cutoff_loop.simps [of show_json budget ms turns] Let_def)
    then show ?thesis using 1(1) fewer by simp
  qed
qed

section \<open>Properties\<close>

text \<open>C31 Safe cutoffs. The cutoff is the greatest one, not above the wish, after which every kept tool result
  has its call in the kept part, or 0 when there is none; in a transcript where results follow their calls
  they still do in the kept part.\<close>

theorem safe_cutoff_spec:
  "safe_compaction_cutoff ms n \<le> min n (length ms) \<and>
   (safe_compaction_cutoff ms n = 0 \<or> paired (drop (safe_compaction_cutoff ms n) ms)) \<and>
   (\<forall>c. safe_compaction_cutoff ms n < c \<and> c \<le> min n (length ms) \<longrightarrow> \<not> paired (drop c ms)) \<and>
   (answers_follow (blocks ms) \<longrightarrow> answers_follow (blocks (drop (safe_compaction_cutoff ms n) ms)))"
  using safe_cutoff_rule [of ms n] answers_follow_kept [of ms n] by blast

text \<open>A call in message 1 whose result is in message 2: a wish to cut between them is moved back.\<close>

definition demo_msg :: "unit ContentBlock list \<Rightarrow> unit Message" where
  "demo_msg bs = \<lparr>mg_role = RoleUser, mg_content = bs, mg_timestamp = None, mg_tool_duration_ms = None\<rparr>"

definition demo_messages :: "unit Message list" where
  "demo_messages = [demo_msg [BText ''q'' None], demo_msg [BToolUse ''a'' ''ls'' () None],
     demo_msg [BToolResult ''a'' ''x'' None], demo_msg [BText ''r'' None]]"

theorem safe_cutoff_spec_witness:
  "safe_compaction_cutoff demo_messages 2 = 1 \<and> \<not> paired (drop 2 demo_messages)"
proof -
  have c: "safe_compaction_cutoff demo_messages 2 = 1" by code_simp
  have len: "length demo_messages = 4" by (simp add: demo_messages_def)
  have "\<forall>x. 1 < x \<and> x \<le> min 2 (length demo_messages) \<longrightarrow> \<not> paired (drop x demo_messages)"
    using safe_cutoff_spec [of demo_messages 2, unfolded c] by (elim conjE)
  from this [rule_format, of 2] have "\<not> paired (drop 2 demo_messages)" by (simp add: len)
  then show ?thesis using c by (rule conjI [rotated])
qed

text \<open>Emergency cutoffs. A successful hard compaction drops at least one message and keeps at least two, keeps
  no result without its call, and either what it keeps fits the budget or nothing more could be dropped
  safely; it fails only when there are at most two messages or no safe cutoff keeps two.\<close>

theorem hard_cutoff_spec:
  "case hard_cutoff show_json budget ms of
     Inr c \<Rightarrow> 0 < c \<and> c + 2 \<le> length ms \<and> paired (drop c ms) \<and>
       (sum_list (map (message_char_count show_json) (drop c ms)) div 4 \<le> budget \<or>
        (\<forall>c'. c < c' \<and> c' + 2 \<le> length ms \<longrightarrow> \<not> paired (drop c' ms)))
   | Inl _ \<Rightarrow> \<forall>c'. 0 < c' \<and> c' + 2 \<le> length ms \<longrightarrow> \<not> paired (drop c' ms)"
proof (cases "length ms \<le> 2")
  case True
  then show ?thesis by (auto simp: hard_cutoff_def MIN_TURNS_TO_KEEP_def)
next
  case False
  let ?c = "hard_cutoff_loop show_json budget ms (min RECENT_TURNS_TO_KEEP (length ms - 1))"
  have "hard_ok show_json budget ms ?c"
    by (rule hard_cutoff_loop_ok) (use False in \<open>simp add: MIN_TURNS_TO_KEEP_def RECENT_TURNS_TO_KEEP_def\<close>)
  then have ok: "?c \<le> length ms - 2" "?c = 0 \<or> paired (drop ?c ms)"
      "0 < ?c \<and> sum_list (map (message_char_count show_json) (drop ?c ms)) div 4 \<le> budget \<or>
       (\<forall>c'. ?c < c' \<and> c' \<le> length ms - 2 \<longrightarrow> \<not> paired (drop c' ms))"
    by (simp_all add: hard_ok_def MIN_TURNS_TO_KEEP_def CHARS_PER_TOKEN_def)
  show ?thesis
  proof (cases "?c = 0")
    case True
    then have "\<exists>e. hard_cutoff show_json budget ms = Inl e"
      using False by (simp add: hard_cutoff_def MIN_TURNS_TO_KEEP_def Let_def)
    moreover have "c' \<le> length ms - 2" if "c' + 2 \<le> length ms" for c' using that by linarith
    ultimately show ?thesis using ok(3) unfolding True by (elim exE) (simp only: sum.case, blast)
  next
    case nonzero: False
    then have "hard_cutoff show_json budget ms = Inr ?c"
      using False by (simp add: hard_cutoff_def MIN_TURNS_TO_KEEP_def Let_def)
    moreover have "0 < ?c" "?c + 2 \<le> length ms" using nonzero ok(1) False by linarith+
    moreover have "c' \<le> length ms - 2" if "c' + 2 \<le> length ms" for c' using that by linarith
    ultimately show ?thesis using ok(2,3) nonzero by (simp only: sum.case) blast
  qed
qed

end
