(* ===== verification/Compact_Text.thy ===== *)
theory Compact_Text
  imports Compact_Cutoff
begin

text \<open>
  The texts and payloads of a compaction (\<open>crates/jcode-compaction-core/src/lib.rs\<close>): cuts at character
  boundaries, shortened tool results, image recovery after a "request too large" error, token estimates
  and the summary prompt. Texts are UTF-8 byte sequences, \<open>usize\<close> sums are natural numbers.
\<close>

section \<open>Cuts at character boundaries\<close>

definition is_char_boundary :: "string \<Rightarrow> nat \<Rightarrow> bool" where
  "is_char_boundary s i \<longleftrightarrow> i = 0 \<or> i = length s \<or> (i < length s \<and> \<not> is_cont_byte (s ! i))"

fun floor_boundary :: "string \<Rightarrow> nat \<Rightarrow> nat" where
  "floor_boundary s 0 = 0"
| "floor_boundary s (Suc n) = (if is_char_boundary s (Suc n) then Suc n else floor_boundary s n)"

definition truncate_str_boundary :: "string \<Rightarrow> nat \<Rightarrow> string" where
  "truncate_str_boundary value max_bytes =
     (if length value \<le> max_bytes then value
      else take (floor_boundary value (min max_bytes (length value))) value)"

function ceil_boundary :: "string \<Rightarrow> nat \<Rightarrow> nat" where
  "ceil_boundary s n = (if n < length s \<and> \<not> is_char_boundary s n then ceil_boundary s (n + 1) else n)"
  by pat_completeness auto
termination
  by (relation "measure (\<lambda>(s, n). length s - n)") auto

declare ceil_boundary.simps [simp del]

definition tail_str_boundary :: "string \<Rightarrow> nat \<Rightarrow> string" where
  "tail_str_boundary value max_bytes =
     (if length value \<le> max_bytes then value
      else drop (ceil_boundary value (length value - max_bytes)) value)"

definition emergency_truncated_tool_result :: "string \<Rightarrow> nat \<Rightarrow> string" where
  "emergency_truncated_tool_result content max_chars =
     (let front = truncate_str_boundary content (max_chars div 2);
          back = tail_str_boundary content (max_chars div 4);
          truncated_len = length content - (length front + length back)
      in front @ [nl, nl] @ ''... ['' @ nat_to_string truncated_len @
         '' chars truncated for context recovery] ...'' @ [nl, nl] @ back)"

section \<open>Shortening messages\<close>

text \<open>A mutable pass over all blocks: \<open>f\<close> gives the replacement of a block; the result counts them.\<close>

definition rewrite_blocks :: "('j ContentBlock \<Rightarrow> 'j ContentBlock option) \<Rightarrow> 'j ContentBlock list \<Rightarrow>
    'j ContentBlock list \<times> nat" where
  "rewrite_blocks f bs = (map (\<lambda>b. case f b of Some b' \<Rightarrow> b' | None \<Rightarrow> b) bs, length (filter (\<lambda>b. f b \<noteq> None) bs))"

fun rewrite_messages :: "('j ContentBlock \<Rightarrow> 'j ContentBlock option) \<Rightarrow> 'j Message list \<Rightarrow> 'j Message list \<times> nat" where
  "rewrite_messages f [] = ([], 0)"
| "rewrite_messages f (m # ms) =
     (let (bs, k) = rewrite_blocks f (mg_content m); (ms', n) = rewrite_messages f ms
      in (m\<lparr>mg_content := bs\<rparr> # ms', k + n))"

definition shorten_tool_result :: "nat \<Rightarrow> 'j ContentBlock \<Rightarrow> 'j ContentBlock option" where
  "shorten_tool_result max_chars b = (case b of
     BToolResult i content e \<Rightarrow>
       if length content > max_chars then Some (BToolResult i (emergency_truncated_tool_result content max_chars) e)
       else None
   | _ \<Rightarrow> None)"

definition emergency_truncate_tool_results :: "'j Message list \<Rightarrow> nat \<Rightarrow> 'j Message list \<times> nat" where
  "emergency_truncate_tool_results messages max_chars = rewrite_messages (shorten_tool_result max_chars) messages"

definition shorten_payload :: "nat \<Rightarrow> nat \<Rightarrow> 'j ContentBlock \<Rightarrow> 'j ContentBlock option" where
  "shorten_payload max_tool_result_chars max_image_chars b = (case b of
     BToolResult i content e \<Rightarrow>
       if length content > max_tool_result_chars
       then Some (BToolResult i (emergency_truncated_tool_result content max_tool_result_chars) e) else None
   | BImage media_type data \<Rightarrow>
       if length data > max_image_chars
       then Some (BText (''[Image omitted during emergency context recovery: media_type='' @ media_type @
         '', original_base64_chars='' @ nat_to_string (length data) @
         ''. Rely on adjacent browser/tool text, screenshots saved to disk, or re-open/re-screenshot if visual details are needed.]'')
         None) else None
   | _ \<Rightarrow> None)"

definition emergency_truncate_large_payloads :: "'j Message list \<Rightarrow> nat \<Rightarrow> nat \<Rightarrow> 'j Message list \<times> nat" where
  "emergency_truncate_large_payloads messages max_tool_result_chars max_image_chars =
     rewrite_messages (shorten_payload max_tool_result_chars max_image_chars) messages"

section \<open>Request-size recovery\<close>

text \<open>\<open>match_indices\<close>: the occurrences found from left to right, each search starting after the last one.\<close>

function match_indices :: "string \<Rightarrow> string \<Rightarrow> nat \<Rightarrow> nat list" where
  "match_indices code s off = (if code = [] then [] else (case find_sub code s of
     None \<Rightarrow> []
   | Some n \<Rightarrow> (off + n) # match_indices code (drop (n + length code) s) (off + n + length code)))"
  by pat_completeness auto
termination
  by (relation "measure (\<lambda>(code, s, off). length s)") (auto dest!: find_sub_Some simp: less_diff_conv2 neq_Nil_conv)

declare match_indices.simps [simp del]

definition contains_independent_status_code :: "string \<Rightarrow> string \<Rightarrow> bool" where
  "contains_independent_status_code haystack code = list_ex (\<lambda>start.
     (start = 0 \<or> \<not> is_ascii_digit (haystack ! (start - 1))) \<and>
     (let end' = start + length code in end' = length haystack \<or> \<not> is_ascii_digit (haystack ! end')))
     (match_indices code haystack 0)"

definition is_request_payload_too_large_error :: "string \<Rightarrow> bool" where
  "is_request_payload_too_large_error error =
     (let lower = to_ascii_lowercase error in
      str_contains lower ''request_too_large'' \<or> str_contains lower ''request too large'' \<or>
      str_contains lower ''payload too large'' \<or> str_contains lower ''request entity too large'' \<or>
      str_contains lower ''request exceeds the maximum size'' \<or> str_contains lower ''exceeds the maximum size'' \<or>
      contains_independent_status_code lower ''413'')"

definition image_len :: "'j ContentBlock \<Rightarrow> nat option" where
  "image_len b = (case b of BImage _ data \<Rightarrow> Some (length data) | _ \<Rightarrow> None)"

text \<open>The images with their two indexes and sizes, oldest first.\<close>

definition image_index :: "'j ContentBlock list list \<Rightarrow> (nat \<times> nat \<times> nat) list" where
  "image_index contents = concat (map (\<lambda>(ci, content).
     List.map_filter (\<lambda>(bi, b). map_option (\<lambda>n. (ci, bi, n)) (image_len b)) (enumerate 0 content))
     (enumerate 0 contents))"

definition image_marker :: "string \<Rightarrow> string \<Rightarrow> 'j ContentBlock" where
  "image_marker media_type data = BText (''[Image omitted during request-size recovery: media_type='' @ media_type @
     '', original_base64_chars='' @ nat_to_string (length data) @
     ''. The request body exceeded the provider size limit; older images were dropped. Rely on adjacent '' @
     ''browser/tool text, screenshots saved to disk, or re-open/re-screenshot if visual details are needed.]'') None"

fun strip_loop :: "nat \<Rightarrow> (nat \<times> nat \<times> nat) list \<Rightarrow> nat \<Rightarrow> nat \<Rightarrow> 'j ContentBlock list list \<Rightarrow>
    'j ContentBlock list list \<times> nat" where
  "strip_loop target [] amount stripped contents = (contents, stripped)"
| "strip_loop target ((ci, bi, payload_len) # images) amount stripped contents =
     (if amount \<le> target then (contents, stripped)
      else (case contents ! ci ! bi of
          BImage media_type data \<Rightarrow> strip_loop target images (amount - payload_len) (stripped + 1)
            (contents[ci := (contents ! ci)[bi := image_marker media_type data]])
        | _ \<Rightarrow> strip_loop target images amount stripped contents))"

definition strip_large_images_in_contents :: "'j ContentBlock list list \<Rightarrow> nat \<Rightarrow> 'j ContentBlock list list \<times> nat" where
  "strip_large_images_in_contents contents target =
     (let images = image_index contents; amount = sum_list (map (\<lambda>(_, _, n). n) images)
      in if amount \<le> target then (contents, 0) else strip_loop target images amount 0 contents)"

definition emergency_strip_large_images :: "'j Message list \<Rightarrow> nat \<Rightarrow> 'j Message list \<times> nat" where
  "emergency_strip_large_images messages target =
     (let (contents, stripped) = strip_large_images_in_contents (map mg_content messages) target
      in (map2 (\<lambda>m c. m\<lparr>mg_content := c\<rparr>) messages contents, stripped))"

section \<open>Estimates\<close>

record Summary =
  su_text :: string
  su_openai_encrypted_content :: "string option"
  su_covers_up_to_turn :: nat
  su_original_turn_count :: nat

definition DEFAULT_TOKEN_BUDGET :: nat where "DEFAULT_TOKEN_BUDGET = 200000"
definition SYSTEM_OVERHEAD_TOKENS :: nat where "SYSTEM_OVERHEAD_TOKENS = 18000"

definition summary_payload_char_count :: "Summary \<Rightarrow> nat" where
  "summary_payload_char_count summary = (case su_openai_encrypted_content summary of
     Some value \<Rightarrow> length value
   | None \<Rightarrow> length (su_text summary))"

definition estimate_compaction_tokens_from_chars :: "nat \<Rightarrow> nat \<Rightarrow> nat" where
  "estimate_compaction_tokens_from_chars total_chars token_budget =
     total_chars div CHARS_PER_TOKEN +
     (if token_budget \<ge> DEFAULT_TOKEN_BUDGET div 2 then SYSTEM_OVERHEAD_TOKENS else 0)"

definition estimate_compaction_tokens :: "Summary option \<Rightarrow> nat \<Rightarrow> nat \<Rightarrow> nat" where
  "estimate_compaction_tokens summary active_message_chars token_budget =
     estimate_compaction_tokens_from_chars
       ((case summary of None \<Rightarrow> 0 | Some s \<Rightarrow> summary_payload_char_count s) + active_message_chars) token_budget"

text \<open>\<open>u64::saturating_add\<close> on naturals below \<open>2 ^ 64\<close>; \<open>lower\<close> is \<open>str::to_lowercase\<close>.\<close>

definition saturating_add_u64 :: "nat \<Rightarrow> nat \<Rightarrow> nat" where
  "saturating_add_u64 a b = min (a + b) (2 ^ 64 - 1)"

definition effective_context_tokens_from_usage :: "(string \<Rightarrow> string) \<Rightarrow> string \<Rightarrow> nat \<Rightarrow> nat option \<Rightarrow> nat option \<Rightarrow> nat" where
  "effective_context_tokens_from_usage lower provider_name input_tokens cache_read_input_tokens cache_creation_input_tokens =
     (if input_tokens = 0 then 0
      else (let cache_read = (case cache_read_input_tokens of Some n \<Rightarrow> n | None \<Rightarrow> 0);
                cache_creation = (case cache_creation_input_tokens of Some n \<Rightarrow> n | None \<Rightarrow> 0);
                provider_name = lower provider_name
            in if str_contains provider_name ''anthropic'' \<or> str_contains provider_name ''claude'' \<or>
                  cache_creation > 0 \<or> cache_read > input_tokens
               then saturating_add_u64 (saturating_add_u64 input_tokens cache_read) cache_creation
               else input_tokens))"

section \<open>The summary prompt\<close>

definition SUMMARY_PROMPT :: string where
  "SUMMARY_PROMPT = ''Summarize our conversation so you can continue this work later.'' @ [nl, nl] @
     ''Write in natural language with these sections:'' @ [nl] @
     ''- **Context:** What we'' @ [CHR 0x27] @ ''re working on and why (1-2 sentences)'' @ [nl] @
     ''- **What we did:** Key actions taken, files changed, problems solved'' @ [nl] @
     ''- **Current state:** What works, what'' @ [CHR 0x27] @ ''s broken, what'' @ [CHR 0x27] @ ''s next'' @ [nl] @
     ''- **User preferences:** Specific requirements or decisions they made'' @ [nl, nl] @
     ''Be concise but preserve important details. You can search the full conversation later if you need '' @
     ''exact error messages or code snippets.''"

definition compacted_summary_text_block :: "string \<Rightarrow> string" where
  "compacted_summary_text_block summary =
     ''## Previous Conversation Summary'' @ [nl, nl] @ summary @ [nl, nl] @ ''---'' @ [nl, nl]"

definition block_conversation_text :: "('j \<Rightarrow> string) \<Rightarrow> 'j ContentBlock \<Rightarrow> string" where
  "block_conversation_text show_json b = (case b of
     BText text _ \<Rightarrow> text @ [nl]
   | BToolUse _ name input _ \<Rightarrow> ''[Tool: '' @ name @ '' - '' @ show_json input @ '']'' @ [nl]
   | BToolResult _ content _ \<Rightarrow> ''[Result: '' @
       (if length content > 500 then truncate_str_boundary content 500 @ ''... (truncated)'' else content) @
       '']'' @ [nl]
   | BImage _ _ \<Rightarrow> ''[Image]'' @ [nl]
   | BOpenAICompaction _ \<Rightarrow> ''[OpenAI native compaction]'' @ [nl]
   | _ \<Rightarrow> [])"

definition build_compaction_conversation_text :: "('j \<Rightarrow> string) \<Rightarrow> 'j Message list \<Rightarrow> Summary option \<Rightarrow> string" where
  "build_compaction_conversation_text show_json messages existing_summary =
     (case existing_summary of
        Some summary \<Rightarrow> ''## Previous Summary'' @ [nl, nl] @ su_text summary @ [nl, nl] @ ''## New Conversation'' @ [nl, nl]
      | None \<Rightarrow> []) @
     concat (map (\<lambda>msg. ''**'' @ (case mg_role msg of RoleUser \<Rightarrow> ''User'' | RoleAssistant \<Rightarrow> ''Assistant'') @ '':**'' @ [nl] @
       concat (map (block_conversation_text show_json) (mg_content msg)) @ [nl]) messages)"

definition build_compaction_prompt :: "('j \<Rightarrow> string) \<Rightarrow> 'j Message list \<Rightarrow> Summary option \<Rightarrow> nat \<Rightarrow> string" where
  "build_compaction_prompt show_json messages existing_summary max_prompt_chars =
     (let conversation_text = build_compaction_conversation_text show_json messages existing_summary;
          overhead = length SUMMARY_PROMPT + 50;
          conversation_text =
            (if length conversation_text + overhead > max_prompt_chars \<and> max_prompt_chars > overhead
             then truncate_str_boundary conversation_text (max_prompt_chars - overhead) @
               [nl, nl] @ ''... [earlier conversation truncated to fit context window]'' @ [nl]
             else conversation_text)
      in conversation_text @ [nl, nl] @ ''---'' @ [nl, nl] @ SUMMARY_PROMPT)"

definition push_semantic_excerpt :: "string \<Rightarrow> string \<Rightarrow> nat \<Rightarrow> string" where
  "push_semantic_excerpt target source max_chars =
     (if source = [] then target
      else target @ (if target = [] then [] else '' '') @ chars_take max_chars source)"

definition semantic_goal_text :: "'j Message list \<Rightarrow> string" where
  "semantic_goal_text messages = foldl (\<lambda>text b. case b of
       BText block_text _ \<Rightarrow> push_semantic_excerpt text block_text 200
     | BToolResult _ content _ \<Rightarrow> push_semantic_excerpt text content 100
     | _ \<Rightarrow> text) [] (concat (map mg_content messages))"

definition EMBED_MAX_CHARS_PER_MSG :: nat where "EMBED_MAX_CHARS_PER_MSG = 512"

definition semantic_message_text :: "'j Message \<Rightarrow> string" where
  "semantic_message_text msg = foldl (\<lambda>text b. case b of
       BText block_text _ \<Rightarrow> push_semantic_excerpt text block_text EMBED_MAX_CHARS_PER_MSG
     | _ \<Rightarrow> text) [] (mg_content msg)"

section \<open>Cuts\<close>

lemma floor_boundary_spec: "floor_boundary s n \<le> n \<and> is_char_boundary s (floor_boundary s n)"
  by (induction n) (auto simp: is_char_boundary_def)

lemma ceil_boundary_spec:
  "n \<le> length s \<Longrightarrow> n \<le> ceil_boundary s n \<and> ceil_boundary s n \<le> length s \<and> is_char_boundary s (ceil_boundary s n)"
proof (induction s n rule: ceil_boundary.induct)
  case (1 s n)
  show ?case
  proof (cases "n < length s \<and> \<not> is_char_boundary s n")
    case True
    then show ?thesis using 1(1) [OF True] by (simp add: ceil_boundary.simps [of s n])
  next
    case False
    then show ?thesis using 1(2) by (auto simp: ceil_boundary.simps [of s n] is_char_boundary_def)
  qed
qed

text \<open>The front cut keeps a prefix, the back cut a suffix, both cut at a character boundary.\<close>

lemma truncate_spec:
  "\<exists>i. truncate_str_boundary s n = take i s \<and> i \<le> length s \<and> (i \<le> n) \<and> is_char_boundary s i"
proof (cases "length s \<le> n")
  case True
  then show ?thesis by (intro exI [of _ "length s"]) (simp add: truncate_str_boundary_def is_char_boundary_def)
next
  case False
  then have "min n (length s) = n" by simp
  then show ?thesis using False floor_boundary_spec [of s n]
    by (intro exI [of _ "floor_boundary s n"]) (auto simp: truncate_str_boundary_def)
qed

lemma tail_spec:
  "\<exists>i. tail_str_boundary s n = drop i s \<and> i \<le> length s \<and> length s - i \<le> n \<and> is_char_boundary s i"
proof (cases "length s \<le> n")
  case True
  then show ?thesis by (intro exI [of _ 0]) (simp add: tail_str_boundary_def is_char_boundary_def)
next
  case False
  then show ?thesis using ceil_boundary_spec [of "length s - n" s]
    by (intro exI [of _ "ceil_boundary s (length s - n)"]) (auto simp: tail_str_boundary_def)
qed

lemma length_truncate: "length (truncate_str_boundary s n) \<le> n"
  using truncate_spec [of s n] by auto

lemma length_tail: "length (tail_str_boundary s n) \<le> n"
  using tail_spec [of s n] by auto

lemma length_nat_to_string: "n < 10 ^ Suc k \<Longrightarrow> length (nat_to_string n) \<le> Suc k"
proof (induction k arbitrary: n)
  case (Suc k)
  show ?case
  proof (cases "n < 10")
    case False
    have "n div 10 < 10 ^ Suc k" using Suc.prems by (simp add: less_mult_imp_div_less)
    then show ?thesis using False Suc.IH [of "n div 10"] by (simp add: nat_to_string.simps [of n])
  qed (simp add: nat_to_string.simps [of n])
qed (subst nat_to_string.simps, simp)

lemma length_truncated_result:
  assumes "length content < 10 ^ 20"
  shows "length (emergency_truncated_tool_result content m) \<le> m div 2 + m div 4 + 71"
proof -
  let ?k = "length content - (length (truncate_str_boundary content (m div 2)) + length (tail_str_boundary content (m div 4)))"
  have "length (nat_to_string ?k) \<le> 20"
    using length_nat_to_string [of ?k 19] assms by (simp add: less_imp_diff_less)
  then show ?thesis
    using length_truncate [of content "m div 2"] length_tail [of content "m div 4"]
    by (simp add: emergency_truncated_tool_result_def Let_def)
qed

section \<open>Passes over messages\<close>

lemma rewrite_messages_blocks:
  "blocks (fst (rewrite_messages f ms)) = fst (rewrite_blocks f (blocks ms))"
  "snd (rewrite_messages f ms) = snd (rewrite_blocks f (blocks ms))"
  by (induction ms) (auto simp: rewrite_blocks_def split: prod.split)

lemma rewrite_blocks_0: "(\<And>b. b \<in> set bs \<Longrightarrow> f b = None) \<Longrightarrow> rewrite_blocks f bs = (bs, 0)"
  by (simp add: rewrite_blocks_def map_idI cong: map_cong)

lemma rewrite_messages_0: "(\<And>b. b \<in> set (blocks ms) \<Longrightarrow> f b = None) \<Longrightarrow> rewrite_messages f ms = (ms, 0)"
proof (induction ms)
  case (Cons m ms)
  then have "rewrite_blocks f (mg_content m) = (mg_content m, 0)" "rewrite_messages f ms = (ms, 0)"
    by (simp_all add: rewrite_blocks_0)
  then show ?case by simp
qed simp

lemma shortened_stays:
  assumes "shorten_tool_result m b = Some b'" and "300 \<le> m" and "\<And>i c e. b = BToolResult i c e \<Longrightarrow> length c < 10 ^ 20"
  shows "shorten_tool_result m b' = None"
proof -
  obtain i c e where b: "b = BToolResult i c e" "b' = BToolResult i (emergency_truncated_tool_result c m) e"
    using assms(1) by (auto simp: shorten_tool_result_def split: ContentBlock.splits if_splits)
  have "m div 2 + m div 4 + 71 \<le> m" using assms(2) by linarith
  then show ?thesis using length_truncated_result [of c m] assms(3) [OF b(1)] by (simp add: b shorten_tool_result_def)
qed

section \<open>Images, flattened\<close>

text \<open>The index pairs of \<open>image_index\<close> are positions in the concatenation of the contents.\<close>

definition flat_pos :: "'a list list \<Rightarrow> nat \<Rightarrow> nat \<Rightarrow> nat" where
  "flat_pos xss ci bi = sum_list (map length (take ci xss)) + bi"

lemma flat_nth:
  assumes "ci < length xss" and "bi < length (xss ! ci)"
  shows "flat_pos xss ci bi < length (concat xss)"
    and "concat xss ! flat_pos xss ci bi = xss ! ci ! bi"
    and "concat (xss[ci := (xss ! ci)[bi := x]]) = (concat xss)[flat_pos xss ci bi := x]"
proof -
  have xss: "xss = take ci xss @ (xss ! ci) # drop (Suc ci) xss" using assms(1) by (simp add: id_take_nth_drop)
  let ?p = "concat (take ci xss)"
  have c: "concat xss = ?p @ xss ! ci @ concat (drop (Suc ci) xss)"
    by (subst xss) (simp only: concat_append concat.simps append_assoc)
  have u: "concat (xss[ci := (xss ! ci)[bi := x]]) = ?p @ (xss ! ci)[bi := x] @ concat (drop (Suc ci) xss)"
    using assms(1) by (simp add: upd_conv_take_nth_drop)
  have p: "flat_pos xss ci bi = length ?p + bi" by (simp add: flat_pos_def length_concat)
  show "flat_pos xss ci bi < length (concat xss)" using assms(2) by (simp add: c p)
  show "concat xss ! flat_pos xss ci bi = xss ! ci ! bi" using assms(2) by (simp add: c p nth_append)
  show "concat (xss[ci := (xss ! ci)[bi := x]]) = (concat xss)[flat_pos xss ci bi := x]"
    using assms(2) unfolding u c p by (simp add: list_update_append)
qed

lemma row_length: "length (xss[ci := (xss ! ci)[bi := x]] ! i) = length (xss ! i)"
  by (cases "ci < length xss"; cases "i = ci") (simp_all add: list_update_beyond)

lemma row_lengths: "map length (xss[ci := (xss ! ci)[bi := x]]) = map length xss"
  by (rule nth_equalityI) (simp_all add: row_length)

lemma flat_pos_update: "flat_pos (xss[ci := (xss ! ci)[bi := x]]) = flat_pos xss"
  by (intro ext) (metis flat_pos_def row_lengths take_map)

text \<open>The reference: the first \<open>k\<close> images become markers.\<close>

fun strip_first :: "nat \<Rightarrow> 'j ContentBlock list \<Rightarrow> 'j ContentBlock list" where
  "strip_first k [] = []"
| "strip_first k (b # bs) = (case b of
     BImage media_type data \<Rightarrow> (case k of 0 \<Rightarrow> b # bs | Suc k \<Rightarrow> image_marker media_type data # strip_first k bs)
   | _ \<Rightarrow> b # strip_first k bs)"

definition image_lens :: "'j ContentBlock list \<Rightarrow> nat list" where
  "image_lens bs = List.map_filter image_len bs"

text \<open>How many of the oldest images must go until the rest fits.\<close>

fun needed :: "nat \<Rightarrow> nat list \<Rightarrow> nat" where
  "needed target [] = 0"
| "needed target (n # ns) = (if sum_list (n # ns) \<le> target then 0 else Suc (needed target ns))"

lemma needed_least:
  "needed target ns \<le> length ns \<and> sum_list (drop (needed target ns) ns) \<le> target \<and>
   (\<forall>k < needed target ns. target < sum_list (drop k ns))"
proof (induction ns)
  case (Cons n ns)
  show ?case
  proof (cases "sum_list (n # ns) \<le> target")
    case False
    have "target < sum_list (drop k (n # ns))" if "k < Suc (needed target ns)" for k
      using False Cons that by (cases k) auto
    then show ?thesis using False Cons by simp
  qed simp
qed simp

fun flat_images :: "nat \<Rightarrow> 'j ContentBlock list \<Rightarrow> (nat \<times> nat) list" where
  "flat_images p [] = []"
| "flat_images p (b # bs) = (case image_len b of Some n \<Rightarrow> [(p, n)] | None \<Rightarrow> []) @ flat_images (Suc p) bs"

lemma flat_images_append: "flat_images p (bs @ cs) = flat_images p bs @ flat_images (p + length bs) cs"
  by (induction bs arbitrary: p) simp_all

lemma flat_images_lens: "map snd (flat_images p bs) = image_lens bs"
  by (induction bs arbitrary: p) (auto simp: image_lens_def List.map_filter_def split: option.split)

fun strip_flat :: "nat \<Rightarrow> (nat \<times> nat) list \<Rightarrow> nat \<Rightarrow> nat \<Rightarrow> 'j ContentBlock list \<Rightarrow> 'j ContentBlock list \<times> nat" where
  "strip_flat target [] amount stripped bs = (bs, stripped)"
| "strip_flat target ((p, n) # images) amount stripped bs =
     (if amount \<le> target then (bs, stripped)
      else (case bs ! p of
          BImage media_type data \<Rightarrow> strip_flat target images (amount - n) (stripped + 1) (bs[p := image_marker media_type data])
        | _ \<Rightarrow> strip_flat target images amount stripped bs))"

lemma strip_loop_flat:
  "\<forall>(ci, bi, n) \<in> set images. ci < length contents \<and> bi < length (contents ! ci) \<Longrightarrow>
   concat (fst (strip_loop t images a k contents)) =
     fst (strip_flat t (map (\<lambda>(ci, bi, n). (flat_pos contents ci bi, n)) images) a k (concat contents)) \<and>
   snd (strip_loop t images a k contents) =
     snd (strip_flat t (map (\<lambda>(ci, bi, n). (flat_pos contents ci bi, n)) images) a k (concat contents)) \<and>
   map length (fst (strip_loop t images a k contents)) = map length contents"
proof (induction images arbitrary: a k contents)
  case (Cons image images a k contents)
  obtain ci bi n where image: "image = (ci, bi, n)" by (cases image)
  have i: "ci < length contents" "bi < length (contents ! ci)" using Cons.prems image by auto
  note flat = flat_nth [OF i]
  show ?case
  proof (cases "a \<le> t")
    case more: False
    show ?thesis
    proof (cases "contents ! ci ! bi")
      case (BImage mt data)
      let ?contents = "contents[ci := (contents ! ci)[bi := image_marker mt data]]"
      have len: "map length ?contents = map length contents"
        by (rule row_lengths)
      have "\<forall>(ci, bi, n) \<in> set images. ci < length ?contents \<and> bi < length (?contents ! ci)"
        using Cons.prems by (simp add: row_length)
      from Cons.IH [OF this, of "a - n" "k + 1"] show ?thesis
        using more BImage len flat by (simp add: image flat_pos_update del: map_update)
    qed (use more flat Cons.IH [of contents a k] Cons.prems in \<open>simp_all add: image\<close>)
  qed (simp add: image)
qed simp

lemma row_images:
  "map (\<lambda>(ci, bi, n). (p + bi, n))
     (List.map_filter (\<lambda>(bi, b). map_option (\<lambda>n. (ci, bi, n)) (image_len b)) (enumerate j c)) = flat_images (p + j) c"
  by (induction c arbitrary: j) (auto simp: List.map_filter_def split: option.split)

lemma row_images_bounds:
  "(ci', bi, n) \<in> set (List.map_filter (\<lambda>(bi, b). map_option (\<lambda>n. (ci, bi, n)) (image_len b)) (enumerate j c)) \<Longrightarrow>
   ci' = ci \<and> bi < j + length c"
  by (auto simp: set_map_filter in_set_enumerate_eq)

lemma image_index_flat:
  "map (\<lambda>(ci, bi, n). (flat_pos contents ci bi, n)) (image_index contents) = flat_images 0 (concat contents) \<and>
   (\<forall>(ci, bi, n) \<in> set (image_index contents). ci < length contents \<and> bi < length (contents ! ci))"
proof (induction contents rule: rev_induct)
  case (snoc c cs)
  let ?row = "List.map_filter (\<lambda>(bi, b). map_option (\<lambda>n. (length cs, bi, n)) (image_len b)) (enumerate 0 c)"
  have app: "image_index (cs @ [c]) = image_index cs @ ?row"
    by (simp add: image_index_def enumerate_append_eq)
  have "map (\<lambda>(ci, bi, n). (flat_pos (cs @ [c]) ci bi, n)) (image_index cs) =
      map (\<lambda>(ci, bi, n). (flat_pos cs ci bi, n)) (image_index cs)"
  proof (rule map_cong [OF refl])
    fix x assume x: "x \<in> set (image_index cs)"
    obtain ci bi n where "x = (ci, bi, n)" by (cases x)
    moreover have "ci < length cs" using snoc x calculation by blast
    ultimately show "(case x of (ci, bi, n) \<Rightarrow> (flat_pos (cs @ [c]) ci bi, n)) =
        (case x of (ci, bi, n) \<Rightarrow> (flat_pos cs ci bi, n))" by (simp add: flat_pos_def)
  qed
  moreover have "map (\<lambda>(ci, bi, n). (flat_pos (cs @ [c]) ci bi, n)) ?row =
      map (\<lambda>(ci, bi, n). (length (concat cs) + bi, n)) ?row"
    by (auto simp: flat_pos_def length_concat dest!: row_images_bounds)
  ultimately have "map (\<lambda>(ci, bi, n). (flat_pos (cs @ [c]) ci bi, n)) (image_index (cs @ [c])) =
      flat_images 0 (concat (cs @ [c]))"
    using snoc row_images [of "length (concat cs)" "length cs" 0 c] by (simp add: app flat_images_append)
  moreover have "\<forall>(ci, bi, n) \<in> set (image_index (cs @ [c])). ci < length (cs @ [c]) \<and> bi < length ((cs @ [c]) ! ci)"
    using snoc by (auto simp: app nth_append dest!: row_images_bounds)
  ultimately show ?case by blast
qed (simp add: image_index_def)

lemma strip_flat_first:
  "strip_flat t (flat_images (length pre) bs) (sum_list (image_lens bs)) k (pre @ bs) =
   (pre @ strip_first (needed t (image_lens bs)) bs, k + needed t (image_lens bs))"
proof (induction bs arbitrary: pre k)
  case (Cons b bs)
  show ?case
  proof (cases "image_len b")
    case None
    then have "strip_first m (b # bs) = b # strip_first m bs" for m
      by (cases b) (simp_all add: image_len_def)
    then show ?thesis
      using Cons.IH [of "pre @ [b]" k] None by (simp add: image_lens_def List.map_filter_def)
  next
    case (Some n)
    then obtain mt data where b: "b = BImage mt data" "n = length data" by (cases b) (simp_all add: image_len_def)
    have "(pre @ b # bs)[length pre := image_marker mt data] = (pre @ [image_marker mt data]) @ bs" by simp
    then show ?thesis
      using Cons.IH [of "pre @ [image_marker mt data]" "k + 1"] Some b
      by (simp add: image_lens_def List.map_filter_def)
  qed
qed (simp add: image_lens_def List.map_filter_def)

lemma strip_first_0: "strip_first 0 bs = bs"
  by (induction bs) (auto split: ContentBlock.split)

lemma image_lens_strip_first: "image_lens (strip_first k bs) = drop k (image_lens bs)"
proof (induction bs arbitrary: k)
  case (Cons b bs)
  show ?case
  proof (cases "image_len b")
    case None
    then have "strip_first k (b # bs) = b # strip_first k bs" by (cases b) (simp_all add: image_len_def)
    then show ?thesis using Cons.IH [of k] None by (simp add: image_lens_def List.map_filter_def)
  next
    case (Some n)
    then obtain mt data where b: "b = BImage mt data" by (cases b) (simp_all add: image_len_def)
    show ?thesis
      using Cons.IH [of "k - 1"]
      by (cases k) (simp_all add: b image_lens_def List.map_filter_def image_len_def image_marker_def)
  qed
qed (simp add: image_lens_def List.map_filter_def)

lemma strip_images_flat:
  assumes "strip_large_images_in_contents contents target = (contents', k)"
  shows "k = needed target (image_lens (concat contents)) \<and> concat contents' = strip_first k (concat contents) \<and>
    map length contents' = map length contents"
proof -
  let ?lens = "image_lens (concat contents)"
  note index = image_index_flat [of contents]
  have "map (\<lambda>(_, _, n). n) (image_index contents) =
      map snd (map (\<lambda>(ci, bi, n). (flat_pos contents ci bi, n)) (image_index contents))" by auto
  then have lens: "map (\<lambda>(_, _, n). n) (image_index contents) = ?lens"
    using index by (simp only: flat_images_lens)
  show ?thesis
  proof (cases "sum_list ?lens \<le> target")
    case True
    then have "needed target ?lens = 0" by (cases ?lens) auto
    then show ?thesis using assms True by (simp add: strip_large_images_in_contents_def Let_def lens strip_first_0)
  next
    case False
    then have res: "strip_loop target (image_index contents) (sum_list ?lens) 0 contents = (contents', k)"
      using assms by (simp add: strip_large_images_in_contents_def Let_def lens)
    have flat: "strip_flat target (flat_images 0 (concat contents)) (sum_list ?lens) 0 (concat contents) =
        (strip_first (needed target ?lens) (concat contents), needed target ?lens)"
      using strip_flat_first [of target "[]" "concat contents" 0] by simp
    show ?thesis
      using strip_loop_flat [OF index [THEN conjunct2], of target "sum_list ?lens" 0]
      unfolding res index [THEN conjunct1] flat by simp
  qed
qed

section \<open>Properties\<close>

text \<open>C32 Image recovery. Exactly the oldest images are replaced by markers, as few as make the remaining image
  payload fit the target; everything else, and the shape of the messages, is kept.\<close>

theorem image_recovery_spec:
  "let (contents', k) = strip_large_images_in_contents contents target; lens = image_lens (concat contents) in
   concat contents' = strip_first k (concat contents) \<and> map length contents' = map length contents \<and>
   image_lens (concat contents') = drop k lens \<and> k \<le> length lens \<and>
   sum_list (drop k lens) \<le> target \<and> (\<forall>j < k. target < sum_list (drop j lens))"
proof -
  obtain contents' k where r: "strip_large_images_in_contents contents target = (contents', k)" by fastforce
  show ?thesis
    using strip_images_flat [OF r] needed_least [of target "image_lens (concat contents)"]
    by (simp add: r image_lens_strip_first)
qed

definition demo_contents :: "unit ContentBlock list list" where
  "demo_contents = [[BImage ''png'' ''aaaa'', BText ''t'' None], [BImage ''png'' ''bb''], [BImage ''png'' ''c'']]"

theorem image_recovery_spec_witness:
  "concat (fst (strip_large_images_in_contents demo_contents 3)) =
     [image_marker ''png'' ''aaaa'', BText ''t'' None, BImage ''png'' ''bb'', BImage ''png'' ''c''] \<and>
   image_lens (concat (fst (strip_large_images_in_contents demo_contents 3))) = [2, 1]"
proof -
  have k: "snd (strip_large_images_in_contents demo_contents 3) = 1" by code_simp
  obtain cs where r: "strip_large_images_in_contents demo_contents 3 = (cs, 1)"
    using k by (cases "strip_large_images_in_contents demo_contents 3") simp
  note spec = image_recovery_spec [of demo_contents 3, unfolded r Let_def prod.case]
  have "concat cs = strip_first 1 (concat demo_contents)" by (rule spec [THEN conjunct1])
  moreover have "image_lens (concat cs) = drop 1 (image_lens (concat demo_contents))"
    by (rule spec [THEN conjunct2, THEN conjunct2, THEN conjunct1])
  moreover have "image_lens (concat demo_contents) = [4, 2, 1]" by code_simp
  ultimately show ?thesis unfolding r fst_conv by (simp add: demo_contents_def)
qed

text \<open>What a pass with limit \<open>m\<close> makes of a block: a tool result longer than \<open>m\<close> keeps its id, its error flag, a
  start and an end of its text (cut between characters, around a notice of what is left out) and fits the limit;
  any other block stays as it is.\<close>

definition left_out :: "nat \<Rightarrow> string" where
  "left_out n = [nl, nl] @ ''... ['' @ nat_to_string n @ '' chars truncated for context recovery] ...'' @ [nl, nl]"

definition cut_text :: "nat \<Rightarrow> string \<Rightarrow> string \<Rightarrow> bool" where
  "cut_text m c c' \<longleftrightarrow> length c' \<le> m \<and> (\<exists>p q. p \<le> q \<and> q \<le> length c \<and> is_char_boundary c p \<and> is_char_boundary c q \<and>
     c' = take p c @ left_out (q - p) @ drop q c)"

definition cut_block :: "nat \<Rightarrow> 'j ContentBlock \<Rightarrow> 'j ContentBlock \<Rightarrow> bool" where
  "cut_block m b b' \<longleftrightarrow> (case b of
     BToolResult i c e \<Rightarrow> if m < length c then \<exists>c'. b' = BToolResult i c' e \<and> cut_text m c c' else b' = b
   | _ \<Rightarrow> b' = b)"

definition cut_message :: "nat \<Rightarrow> 'j Message \<Rightarrow> 'j Message \<Rightarrow> bool" where
  "cut_message m msg msg' \<longleftrightarrow> (\<exists>bs. msg' = msg\<lparr>mg_content := bs\<rparr> \<and> list_all2 (cut_block m) (mg_content msg) bs)"

lemma truncated_result_cut:
  assumes "300 \<le> m" and "m < length c" and "length c < 10 ^ 20"
  shows "cut_text m c (emergency_truncated_tool_result c m)"
proof -
  obtain p where p: "truncate_str_boundary c (m div 2) = take p c" "p \<le> m div 2" "p \<le> length c" "is_char_boundary c p"
    using truncate_spec [of c "m div 2"] by blast
  obtain q where q: "tail_str_boundary c (m div 4) = drop q c" "q \<le> length c" "length c - q \<le> m div 4" "is_char_boundary c q"
    using tail_spec [of c "m div 4"] by blast
  have pq: "p \<le> q" using p(2) q(3) assms(2) by linarith
  have "length c - (length (take p c) + length (drop q c)) = q - p" using p(3) q(2) pq by simp
  then have "emergency_truncated_tool_result c m = take p c @ left_out (q - p) @ drop q c"
    by (simp add: emergency_truncated_tool_result_def Let_def p(1) q(1) left_out_def)
  moreover have "length (emergency_truncated_tool_result c m) \<le> m"
    using length_truncated_result [OF assms(3), of m] assms(1) by linarith
  ultimately show ?thesis unfolding cut_text_def using pq p(4) q(2,4) by metis
qed

lemma shorten_cuts:
  assumes "300 \<le> m" and "\<And>i c e. b = BToolResult i c e \<Longrightarrow> length c < 10 ^ 20"
  shows "cut_block m b (case shorten_tool_result m b of Some b' \<Rightarrow> b' | None \<Rightarrow> b)"
  using truncated_result_cut [OF assms(1)] assms(2)
  by (cases b) (simp_all add: cut_block_def shorten_tool_result_def)

lemma rewrite_messages_all2:
  "(\<And>b. b \<in> set (blocks ms) \<Longrightarrow> R b (case f b of Some b' \<Rightarrow> b' | None \<Rightarrow> b)) \<Longrightarrow>
    list_all2 (\<lambda>m m'. \<exists>bs. m' = m\<lparr>mg_content := bs\<rparr> \<and> list_all2 R (mg_content m) bs) ms (fst (rewrite_messages f ms))"
proof (induction ms)
  case (Cons m ms)
  have "list_all2 R (mg_content m) (map (\<lambda>b. case f b of Some b' \<Rightarrow> b' | None \<Rightarrow> b) (mg_content m))"
    using Cons.prems by (auto simp: list_all2_conv_all_nth)
  then show ?case using Cons by (auto simp: rewrite_blocks_def split: prod.split)
qed simp

text \<open>C33 Shortened tool results. For a limit \<open>m\<close> of at least 300 bytes and tool results below \<open>10 ^ 20\<close> bytes: every
  tool result longer than the limit is cut to at most \<open>m\<close> bytes, keeping its id, its error flag and a start and an end
  of its text; every other block, and everything else of the messages, stays as it is; the count is the number of
  results cut; no result is longer than \<open>m\<close> afterwards and a second pass changes nothing.\<close>

theorem tool_results_bounded:
  assumes "300 \<le> m" and "\<forall>i c e. BToolResult i c e \<in> set (blocks ms) \<longrightarrow> length c < 10 ^ 20"
    and "emergency_truncate_tool_results ms m = (ms', k)"
  shows "list_all2 (cut_message m) ms ms' \<and>
    (\<forall>i c e. BToolResult i c e \<in> set (blocks ms') \<longrightarrow> length c \<le> m) \<and>
    k = length (filter (\<lambda>b. \<exists>i c e. b = BToolResult i c e \<and> m < length c) (blocks ms)) \<and>
    emergency_truncate_tool_results ms' m = (ms', 0)"
proof -
  let ?f = "shorten_tool_result m"
  have ms': "blocks ms' = map (\<lambda>b. case ?f b of Some b' \<Rightarrow> b' | None \<Rightarrow> b) (blocks ms)"
    and k: "k = length (filter (\<lambda>b. ?f b \<noteq> None) (blocks ms))"
    using assms(3) rewrite_messages_blocks [of ?f ms] by (simp_all add: emergency_truncate_tool_results_def rewrite_blocks_def)
  have "ms' = fst (rewrite_messages ?f ms)" using assms(3) by (simp add: emergency_truncate_tool_results_def)
  moreover have "cut_block m b (case ?f b of Some b' \<Rightarrow> b' | None \<Rightarrow> b)" if "b \<in> set (blocks ms)" for b
    using shorten_cuts [OF assms(1), of b] assms(2) that by blast
  ultimately have cuts: "list_all2 (cut_message m) ms ms'"
    using rewrite_messages_all2 [of ms "cut_block m" ?f] unfolding cut_message_def by simp
  have none: "?f b' = None" if mem: "b' \<in> set (blocks ms')" for b'
  proof -
    obtain b where b: "b' = (case ?f b of Some b' \<Rightarrow> b' | None \<Rightarrow> b)" "b \<in> set (blocks ms)"
      using mem unfolding ms' set_map by (rule imageE)
    show ?thesis
    proof (cases "?f b")
      case (Some x)
      have "length c < 10 ^ 20" if "b = BToolResult i c e" for i c e using assms(2) b(2) that by blast
      then show ?thesis using shortened_stays [OF Some assms(1)] b(1) Some by simp
    qed (use b in simp)
  qed
  have "?f b \<noteq> None \<longleftrightarrow> (\<exists>i c e. b = BToolResult i c e \<and> m < length c)" for b :: "'a ContentBlock"
    by (cases b) (simp_all add: shorten_tool_result_def)
  moreover have "length c \<le> m" if "BToolResult i c e \<in> set (blocks ms')" for i c e
    using none [OF that] by (simp add: shorten_tool_result_def split: if_splits)
  ultimately show ?thesis
    using cuts k rewrite_messages_0 [of ms' ?f] none by (simp add: emergency_truncate_tool_results_def)
qed

theorem tool_results_bounded_witness:
  "let ms = [demo_msg [BToolResult ''a'' (replicate 301 CHR ''x'') None, BText (replicate 400 CHR ''y'') None]];
       r = emergency_truncate_tool_results ms 300 in
   list_all2 (cut_message 300) ms (fst r) \<and> snd r = 1 \<and> emergency_truncate_tool_results (fst r) 300 = (fst r, 0)"
proof -
  let ?ms = "[demo_msg [BToolResult ''a'' (replicate 301 CHR ''x'') None, BText (replicate 400 CHR ''y'') None]]"
  have "\<forall>i c e. BToolResult i c e \<in> set (blocks ?ms) \<longrightarrow> length c < 10 ^ 20" by (simp add: demo_msg_def)
  from tool_results_bounded [OF _ this, of 300 "fst (emergency_truncate_tool_results ?ms 300)"
      "snd (emergency_truncate_tool_results ?ms 300)"]
  show ?thesis by (simp add: demo_msg_def Let_def)
qed

text \<open>The prompt limit. A conversation that has to be shortened gives a prompt at most 18 bytes above the
  limit, and exactly 18 above it when the cut falls on a character boundary: the reserve of 50 bytes is
  smaller than the separator and the truncation notice.\<close>

theorem prompt_limit_missed:
  assumes "length SUMMARY_PROMPT + 50 < limit"
    and "limit < length (build_compaction_conversation_text show_json ms summary) + length SUMMARY_PROMPT + 50"
  shows "length (build_compaction_prompt show_json ms summary limit) \<le> limit + 18 \<and>
    (is_char_boundary (build_compaction_conversation_text show_json ms summary) (limit - (length SUMMARY_PROMPT + 50)) \<longrightarrow>
     length (build_compaction_prompt show_json ms summary limit) = limit + 18)"
proof -
  let ?text = "build_compaction_conversation_text show_json ms summary" and ?n = "limit - (length SUMMARY_PROMPT + 50)"
  have len: "length (build_compaction_prompt show_json ms summary limit) =
      length (truncate_str_boundary ?text ?n) + 68 + length SUMMARY_PROMPT"
    using assms by (simp add: build_compaction_prompt_def Let_def)
  have "length (truncate_str_boundary ?text ?n) = ?n" if "is_char_boundary ?text ?n"
  proof -
    have n: "0 < ?n" "?n < length ?text" using assms by linarith+
    then have "floor_boundary ?text ?n = ?n" using that by (cases ?n) simp_all
    then show ?thesis using n by (simp add: truncate_str_boundary_def)
  qed
  moreover have "length (truncate_str_boundary ?text ?n) \<le> ?n" by (rule length_truncate)
  ultimately show ?thesis using len assms(1) by auto
qed

theorem prompt_limit_missed_witness:
  "length (build_compaction_prompt (\<lambda>_::unit. []) [demo_msg [BText (replicate 200 CHR ''a'') None]] None 600) = 618"
proof -
  let ?ms = "[demo_msg [BText (replicate 200 CHR ''a'') None]]"
  have len: "length SUMMARY_PROMPT = 508" by code_simp
  have "is_char_boundary (build_compaction_conversation_text (\<lambda>_::unit. []) ?ms None) 42" by code_simp
  moreover have "length (build_compaction_conversation_text (\<lambda>_::unit. []) ?ms None) = 212"
    by (simp add: build_compaction_conversation_text_def demo_msg_def block_conversation_text_def)
  ultimately show ?thesis
    using prompt_limit_missed [where limit = 600 and show_json = "\<lambda>_::unit. []" and summary = None and ms = ?ms]
    by (simp add: len)
qed

end
