(* ===== verification/Promo_Store.thy ===== *)
theory Promo_Store
  imports Prelude
begin

text \<open>
  The concurrency store of the Tasker (\<open>crates/jcode-tasker-pi/src/concurrency_store.rs\<close>): its tables and
  its mutations, each one immediate SQLite transaction guarded by the project's revision. A table is the
  list of its rows; a transaction returns the new store or an error, which rolls it back. JSON columns are
  texts, timestamps are a parameter, SQLite integers are naturals below \<open>2 ^ 63\<close>. The ordinal tables of
  resource intents and evidence are lists in the candidate's row.
\<close>

section \<open>Tables\<close>

record SetRow =
  sr_id :: string
  sr_project_id :: string
  sr_task_id :: string
  sr_base_revision :: nat
  sr_base_commit :: string
  sr_acceptance_digest :: string
  sr_policy_json :: string
  sr_policy_version :: nat
  sr_state :: string
  sr_created_at :: string
  sr_updated_at :: string

record CandidateRow =
  cr_id :: string
  cr_candidate_set_id :: string
  cr_state :: string
  cr_base_commit :: string
  cr_result_commit :: "string option"
  cr_diff_digest :: "string option"
  cr_summary :: "string option"
  cr_provenance_json :: string
  cr_supersedes_candidate_id :: "string option"
  cr_created_at :: string
  cr_updated_at :: string
  cr_submitted_at :: "string option"
  cr_resource_intents :: "string list"
  cr_evidence :: "string list"

record RoundRow =
  rr_id :: string
  rr_candidate_set_id :: string
  rr_policy_version :: nat
  rr_required_quorum :: nat
  rr_decision_json :: "string option"
  rr_created_at :: string
  rr_decided_at :: "string option"

record BallotRow =
  br_id :: string
  br_round_id :: string
  br_validator_json :: string
  br_assessments_json :: string
  br_ranking_json :: string
  br_abstained :: bool
  br_created_at :: string

record PromotionRow =
  pw_id :: string
  pw_project_id :: string
  pw_task_id :: string
  pw_candidate_set_id :: string
  pw_candidate_id :: string
  pw_expected_revision :: nat
  pw_expected_commit :: string
  pw_target_commit :: string
  pw_canonical_ref :: string
  pw_state :: string
  pw_created_at :: string
  pw_updated_at :: string
  pw_finalized_at :: "string option"
  pw_conflict_reason :: "string option"

text \<open>The details of an event are a JSON object of texts; its random id is left out.\<close>

record PromotionEvent =
  pe_intent_id :: string
  pe_project_id :: string
  pe_from_state :: "string option"
  pe_to_state :: string
  pe_event_kind :: string
  pe_details :: "(string \<times> string) list"
  pe_created_at :: string

record Store =
  st_revisions :: "(string \<times> nat) list"
  st_sets :: "SetRow list"
  st_candidates :: "CandidateRow list"
  st_rounds :: "RoundRow list"
  st_ballots :: "BallotRow list"
  st_promotions :: "PromotionRow list"
  st_events :: "PromotionEvent list"

datatype StoreError =
    ErrSqlite
  | ErrJson
  | ErrSchema string
  | ErrInput string string
  | ErrMissing string string
  | ErrRevision string nat nat
  | ErrImmutable string string
  | ErrPromotion string string

type_synonym Mutation = "string \<times> nat"

section \<open>Parsed inputs\<close>

record CandidateSetData =
  sd_id :: string
  sd_project_id :: string
  sd_task_id :: string
  sd_base_revision :: nat
  sd_base_commit :: string
  sd_acceptance_digest :: string
  sd_policy :: string
  sd_policy_version :: nat
  sd_state :: string
  sd_created_at :: string

record PromotionData =
  pd_id :: string
  pd_project_id :: string
  pd_task_id :: string
  pd_candidate_set_id :: string
  pd_candidate_id :: string
  pd_expected_revision :: nat
  pd_expected_commit :: string
  pd_target_commit :: string
  pd_canonical_ref :: string
  pd_state :: string
  pd_created_at :: string

definition to_i64 :: "string \<Rightarrow> nat \<Rightarrow> StoreError + nat" where
  "to_i64 field v = (if v < 2 ^ 63 then Inr v else Inl (ErrInput field ''is too large for SQLite''))"

definition validate_candidate_set_state :: "string \<Rightarrow> StoreError + unit" where
  "validate_candidate_set_state state =
     (if state \<in> {''open'', ''adjudicating'', ''decided'', ''promoting'', ''completed'', ''cancelled''} then Inr ()
      else Inl (ErrInput ''state'' ''is not a known candidate set state''))"

definition validate_promotion_state :: "string \<Rightarrow> StoreError + unit" where
  "validate_promotion_state state =
     (if state \<in> {''prepared'', ''ref_updated'', ''finalized'', ''aborted'', ''conflicted''} then Inr ()
      else Inl (ErrInput ''state'' ''is not a known promotion state''))"

definition candidate_state_is_immutable :: "string \<Rightarrow> bool" where
  "candidate_state_is_immutable state \<longleftrightarrow> state \<in> {''submitted'', ''validating'', ''eligible'', ''rejected'', ''failed'',
     ''selected'', ''superseded'', ''promoted''}"

definition required_string :: "string \<Rightarrow> string \<Rightarrow> StoreError + unit" where
  "required_string key value =
     (if trim value = [] then Inl (ErrInput key ''must be a non-empty string'') else Inr ())"

definition parse_promotion :: "PromotionData \<Rightarrow> StoreError + PromotionData" where
  "parse_promotion d =
     and_then (validate_promotion_state (pd_state d)) (\<lambda>_.
     and_then (required_string ''canonicalRef'' (pd_canonical_ref d)) (\<lambda>_.
     and_then (required_string ''id'' (pd_id d)) (\<lambda>_.
     and_then (required_string ''projectId'' (pd_project_id d)) (\<lambda>_.
     and_then (required_string ''taskId'' (pd_task_id d)) (\<lambda>_.
     and_then (required_string ''candidateSetId'' (pd_candidate_set_id d)) (\<lambda>_.
     and_then (required_string ''candidateId'' (pd_candidate_id d)) (\<lambda>_.
     and_then (required_string ''expectedCommit'' (pd_expected_commit d)) (\<lambda>_.
     and_then (required_string ''targetCommit'' (pd_target_commit d)) (\<lambda>_. Inr d)))))))))"

section \<open>Revisions\<close>

definition current_revision :: "Store \<Rightarrow> string \<Rightarrow> nat" where
  "current_revision s project_id = (case map_of (st_revisions s) project_id of Some r \<Rightarrow> r | None \<Rightarrow> 0)"

text \<open>\<open>INSERT OR IGNORE\<close> a row at 0, then compare.\<close>

definition ensure_revision :: "Store \<Rightarrow> string \<Rightarrow> nat \<Rightarrow> StoreError + (Store \<times> nat)" where
  "ensure_revision s project_id expected =
     (let s = (if project_id \<in> fst ` set (st_revisions s) then s
               else s\<lparr>st_revisions := st_revisions s @ [(project_id, 0)]\<rparr>);
          actual = current_revision s project_id
      in if actual \<noteq> expected then Inl (ErrRevision project_id expected actual) else Inr (s, actual))"

definition bump_revision :: "Store \<Rightarrow> string \<Rightarrow> nat \<Rightarrow> StoreError + (Store \<times> nat)" where
  "bump_revision s project_id current =
     (if \<not> current + 1 < 2 ^ 64 then Inl (ErrSchema ''project revision overflow'')
      else and_then (to_i64 ''project revision'' (current + 1)) (\<lambda>next.
        Inr (s\<lparr>st_revisions := map (\<lambda>(p, r). (p, if p = project_id then next else r)) (st_revisions s)\<rparr>, current + 1)))"

definition candidate_set_project :: "Store \<Rightarrow> string \<Rightarrow> StoreError + string" where
  "candidate_set_project s i = (case find_key sr_id i (st_sets s) of
     Some row \<Rightarrow> Inr (sr_project_id row)
   | None \<Rightarrow> Inl (ErrMissing ''candidate set'' i))"

definition candidate_project :: "Store \<Rightarrow> string \<Rightarrow> StoreError + string" where
  "candidate_project s i = (case find_key cr_id i (st_candidates s) of
     None \<Rightarrow> Inl (ErrMissing ''candidate'' i)
   | Some c \<Rightarrow> (case find_key sr_id (cr_candidate_set_id c) (st_sets s) of
       Some row \<Rightarrow> Inr (sr_project_id row)
     | None \<Rightarrow> Inl (ErrMissing ''candidate'' i)))"

definition round_project :: "Store \<Rightarrow> string \<Rightarrow> StoreError + string" where
  "round_project s i = (case find_key rr_id i (st_rounds s) of
     None \<Rightarrow> Inl (ErrMissing ''adjudication round'' i)
   | Some r \<Rightarrow> (case find_key sr_id (rr_candidate_set_id r) (st_sets s) of
       Some row \<Rightarrow> Inr (sr_project_id row)
     | None \<Rightarrow> Inl (ErrMissing ''adjudication round'' i)))"

text \<open>\<open>INSERT\<close> into a table with a primary key.\<close>

definition insert_row :: "('r \<Rightarrow> string) \<Rightarrow> 'r \<Rightarrow> 'r list \<Rightarrow> StoreError + 'r list" where
  "insert_row key row rows = (if key row \<in> key ` set rows then Inl ErrSqlite else Inr (rows @ [row]))"

section \<open>Rounds and candidates\<close>

definition create_candidate_set :: "CandidateSetData \<Rightarrow> nat \<Rightarrow> Store \<Rightarrow> StoreError + (Mutation \<times> Store)" where
  "create_candidate_set d expected s =
     (if sd_base_revision d \<noteq> expected
      then Inl (ErrInput ''base_revision'' (''candidate set base revision '' @ nat_to_string (sd_base_revision d) @
        '' does not equal expected revision '' @ nat_to_string expected))
      else
        and_then (ensure_revision s (sd_project_id d) expected) (\<lambda>(s, actual).
        and_then (to_i64 ''base revision'' (sd_base_revision d)) (\<lambda>_.
        and_then (to_i64 ''policy version'' (sd_policy_version d)) (\<lambda>_.
        and_then (insert_row sr_id \<lparr>sr_id = sd_id d, sr_project_id = sd_project_id d, sr_task_id = sd_task_id d,
            sr_base_revision = sd_base_revision d, sr_base_commit = sd_base_commit d,
            sr_acceptance_digest = sd_acceptance_digest d, sr_policy_json = sd_policy d,
            sr_policy_version = sd_policy_version d, sr_state = sd_state d, sr_created_at = sd_created_at d,
            sr_updated_at = sd_created_at d\<rparr> (st_sets s)) (\<lambda>rows.
        and_then (bump_revision (s\<lparr>st_sets := rows\<rparr>) (sd_project_id d) actual) (\<lambda>(s, revision).
        Inr ((sd_id d, revision), s)))))))"

text \<open>The parsed candidate is a row; a registered one has no evidence yet.\<close>

definition register_candidate :: "CandidateRow \<Rightarrow> nat \<Rightarrow> Store \<Rightarrow> StoreError + (Mutation \<times> Store)" where
  "register_candidate c expected s =
     and_then (candidate_set_project s (cr_candidate_set_id c)) (\<lambda>project_id.
     and_then (ensure_revision s project_id expected) (\<lambda>(s, actual).
     and_then (insert_row cr_id (c\<lparr>cr_evidence := []\<rparr>) (st_candidates s)) (\<lambda>rows.
     and_then (bump_revision (s\<lparr>st_candidates := rows\<rparr>) project_id actual) (\<lambda>(s, revision).
     Inr ((cr_id c, revision), s)))))"

definition update_candidate :: "CandidateRow \<Rightarrow> CandidateRow \<Rightarrow> CandidateRow" where
  "update_candidate d row = d\<lparr>cr_id := cr_id row, cr_created_at := cr_created_at row\<rparr>"

definition submit_candidate :: "string \<Rightarrow> CandidateRow \<Rightarrow> string list \<Rightarrow> nat \<Rightarrow> Store \<Rightarrow> StoreError + (Mutation \<times> Store)" where
  "submit_candidate t c evidence expected s =
     (let d = c\<lparr>cr_state := ''submitted'',
          cr_submitted_at := (case cr_submitted_at c of None \<Rightarrow> Some t | Some u \<Rightarrow> Some u), cr_evidence := evidence\<rparr> in
      and_then (candidate_set_project s (cr_candidate_set_id d)) (\<lambda>project_id.
      and_then (ensure_revision s project_id expected) (\<lambda>(s, actual).
      and_then (case find_key cr_id (cr_id d) (st_candidates s) of
          Some existing \<Rightarrow>
            if candidate_state_is_immutable (cr_state existing)
            then Inl (ErrImmutable (cr_id d) (cr_state existing))
            else Inr (modify_key cr_id (cr_id d) (update_candidate d) (st_candidates s))
        | None \<Rightarrow> insert_row cr_id d (st_candidates s)) (\<lambda>rows.
      and_then (bump_revision (s\<lparr>st_candidates := rows\<rparr>) project_id actual) (\<lambda>(s, revision).
      Inr ((cr_id d, revision), s))))))"

definition set_candidate_set_state :: "string \<Rightarrow> string \<Rightarrow> string \<Rightarrow> nat \<Rightarrow> Store \<Rightarrow> StoreError + (Mutation \<times> Store)" where
  "set_candidate_set_state t i state expected s =
     and_then (validate_candidate_set_state state) (\<lambda>_.
     and_then (candidate_set_project s i) (\<lambda>project_id.
     and_then (ensure_revision s project_id expected) (\<lambda>(s, actual).
     if i \<notin> sr_id ` set (st_sets s) then Inl (ErrMissing ''candidate set'' i)
     else and_then (bump_revision
         (s\<lparr>st_sets := modify_key sr_id i (\<lambda>row. row\<lparr>sr_state := state, sr_updated_at := t\<rparr>) (st_sets s)\<rparr>)
         project_id actual) (\<lambda>(s, revision).
       Inr ((i, revision), s)))))"

definition record_adjudication_round :: "RoundRow \<Rightarrow> nat \<Rightarrow> Store \<Rightarrow> StoreError + (Mutation \<times> Store)" where
  "record_adjudication_round r expected s =
     and_then (candidate_set_project s (rr_candidate_set_id r)) (\<lambda>project_id.
     and_then (ensure_revision s project_id expected) (\<lambda>(s, actual).
     and_then (to_i64 ''policy version'' (rr_policy_version r)) (\<lambda>_.
     and_then (if rr_required_quorum r = 0 then Inl ErrSqlite else insert_row rr_id r (st_rounds s)) (\<lambda>rows.
     and_then (bump_revision (s\<lparr>st_rounds := rows\<rparr>) project_id actual) (\<lambda>(s, revision).
     Inr ((rr_id r, revision), s))))))"

definition record_adjudication_ballot :: "BallotRow \<Rightarrow> nat \<Rightarrow> Store \<Rightarrow> StoreError + (Mutation \<times> Store)" where
  "record_adjudication_ballot b expected s =
     and_then (round_project s (br_round_id b)) (\<lambda>project_id.
     and_then (ensure_revision s project_id expected) (\<lambda>(s, actual).
     and_then (insert_row br_id b (st_ballots s)) (\<lambda>rows.
     and_then (bump_revision (s\<lparr>st_ballots := rows\<rparr>) project_id actual) (\<lambda>(s, revision).
     Inr ((br_id b, revision), s)))))"

end
