(* ===== verification/Promo_Intents.thy ===== *)
theory Promo_Intents
  imports Promo_Store
begin

text \<open>
  The promotion intents of the concurrency store: their life cycle
  prepared, ref-updated, finalized, aborted or conflicted, the event each change records, and the
  reconciliation of an incomplete intent with the commit observed at the canonical ref.
\<close>

section \<open>Events and rows\<close>

definition insert_promotion_event :: "string \<Rightarrow> string \<Rightarrow> string \<Rightarrow> string option \<Rightarrow> string \<Rightarrow> string \<Rightarrow>
    (string \<times> string) list \<Rightarrow> Store \<Rightarrow> Store" where
  "insert_promotion_event t intent_id project_id from_state to_state event_kind details s =
     s\<lparr>st_events := st_events s @ [\<lparr>pe_intent_id = intent_id, pe_project_id = project_id, pe_from_state = from_state,
        pe_to_state = to_state, pe_event_kind = event_kind, pe_details = details, pe_created_at = t\<rparr>]\<rparr>"

definition load_promotion_tx :: "Store \<Rightarrow> string \<Rightarrow> StoreError + PromotionRow" where
  "load_promotion_tx s i = (case find_key pw_id i (st_promotions s) of
     Some row \<Rightarrow> Inr row
   | None \<Rightarrow> Inl (ErrMissing ''promotion intent'' i))"

definition promotion_row :: "PromotionData \<Rightarrow> PromotionRow" where
  "promotion_row d = \<lparr>pw_id = pd_id d, pw_project_id = pd_project_id d, pw_task_id = pd_task_id d,
     pw_candidate_set_id = pd_candidate_set_id d, pw_candidate_id = pd_candidate_id d,
     pw_expected_revision = pd_expected_revision d, pw_expected_commit = pd_expected_commit d,
     pw_target_commit = pd_target_commit d, pw_canonical_ref = pd_canonical_ref d, pw_state = ''prepared'',
     pw_created_at = pd_created_at d, pw_updated_at = pd_created_at d, pw_finalized_at = None,
     pw_conflict_reason = None\<rparr>"

definition promotion_active :: "PromotionRow \<Rightarrow> bool" where
  "promotion_active row \<longleftrightarrow> pw_state row \<in> {''prepared'', ''ref_updated''}"

definition set_promotion_state :: "string \<Rightarrow> string \<Rightarrow> PromotionRow \<Rightarrow> PromotionRow" where
  "set_promotion_state t state row = row\<lparr>pw_state := state, pw_updated_at := t\<rparr>"

definition update_promotion :: "string \<Rightarrow> (PromotionRow \<Rightarrow> PromotionRow) \<Rightarrow> Store \<Rightarrow> Store" where
  "update_promotion i f s = s\<lparr>st_promotions := modify_key pw_id i f (st_promotions s)\<rparr>"

section \<open>Preparing an intent\<close>

definition prepare_promotion :: "string \<Rightarrow> PromotionData \<Rightarrow> nat \<Rightarrow> Store \<Rightarrow> StoreError + (Mutation \<times> Store)" where
  "prepare_promotion t intent expected s =
     and_then (parse_promotion intent) (\<lambda>d.
     if pd_state d \<noteq> ''prepared''
     then Inl (ErrInput ''state'' ''prepare_promotion accepts only prepared intents'')
     else if pd_expected_revision d \<noteq> expected
     then Inl (ErrInput ''expected_revision'' (''promotion intent expected revision '' @
       nat_to_string (pd_expected_revision d) @ '' does not equal mutation revision '' @ nat_to_string expected))
     else
       and_then (ensure_revision s (pd_project_id d) expected) (\<lambda>(s, actual).
       and_then (candidate_project s (pd_candidate_id d)) (\<lambda>candidate_project_id.
       if candidate_project_id \<noteq> pd_project_id d
       then Inl (ErrPromotion (pd_project_id d) ''candidate belongs to another project'')
       else (case find_key cr_id (pd_candidate_id d) (st_candidates s) of
         None \<Rightarrow> Inl ErrSqlite
       | Some c \<Rightarrow>
         if cr_state c \<notin> {''eligible'', ''selected'', ''promoted''}
         then Inl (ErrPromotion (pd_project_id d)
           (''candidate is not eligible for promotion: '' @ cr_state c))
         else (case find (\<lambda>row. pw_project_id row = pd_project_id d \<and> promotion_active row) (st_promotions s) of
           Some active \<Rightarrow> Inl (ErrPromotion (pd_project_id d)
             (''promotion intent '' @ pw_id active @ '' is already active''))
         | None \<Rightarrow>
           and_then (to_i64 ''expected revision'' (pd_expected_revision d)) (\<lambda>_.
           and_then (insert_row pw_id (promotion_row d) (st_promotions s)) (\<lambda>rows.
           and_then (bump_revision (insert_promotion_event t (pd_id d) (pd_project_id d) None ''prepared'' ''prepare''
               [(''expectedCommit'', pd_expected_commit d), (''targetCommit'', pd_target_commit d),
                (''canonicalRef'', pd_canonical_ref d)] (s\<lparr>st_promotions := rows\<rparr>))
             (pd_project_id d) actual) (\<lambda>(s, revision).
           Inr ((pd_id d, revision), s)))))))))"

section \<open>Moving an intent forward\<close>

text \<open>An early \<open>Ok\<close> drops the transaction, so the store is the old one.\<close>

definition mark_promotion_ref_updated :: "string \<Rightarrow> string \<Rightarrow> string \<Rightarrow> nat \<Rightarrow> Store \<Rightarrow> StoreError + (Mutation \<times> Store)" where
  "mark_promotion_ref_updated t intent_id observed expected s0 =
     and_then (load_promotion_tx s0 intent_id) (\<lambda>intent.
     and_then (ensure_revision s0 (pw_project_id intent) expected) (\<lambda>(s, actual).
     if pw_state intent = ''ref_updated'' then
       (if observed \<noteq> pw_target_commit intent
        then Inl (ErrPromotion (pw_project_id intent) ''ref-updated intent observed a non-target commit'')
        else Inr ((pw_id intent, actual), s0))
     else if pw_state intent \<noteq> ''prepared''
     then Inl (ErrPromotion (pw_project_id intent) (''cannot mark state '' @ pw_state intent @ '' as ref_updated''))
     else if observed \<noteq> pw_target_commit intent
     then Inl (ErrPromotion (pw_project_id intent) ''compare-and-swap result does not equal target commit'')
     else
       and_then (bump_revision (insert_promotion_event t (pw_id intent) (pw_project_id intent) (Some ''prepared'')
           ''ref_updated'' ''git_ref_updated'' [(''observedCommit'', observed)]
           (update_promotion (pw_id intent) (set_promotion_state t ''ref_updated'') s))
         (pw_project_id intent) actual) (\<lambda>(s, revision).
       Inr ((pw_id intent, revision), s))))"

definition finalize_promotion_tx :: "string \<Rightarrow> PromotionRow \<Rightarrow> Store \<Rightarrow> Store" where
  "finalize_promotion_tx t intent s =
     (let s = update_promotion (pw_id intent) (\<lambda>row.
            row\<lparr>pw_state := ''finalized'', pw_updated_at := t, pw_finalized_at := Some t, pw_conflict_reason := None\<rparr>) s;
          s = s\<lparr>st_candidates := modify_key cr_id (pw_candidate_id intent)
            (\<lambda>c. c\<lparr>cr_state := ''promoted'', cr_updated_at := t\<rparr>) (st_candidates s)\<rparr>;
          s = s\<lparr>st_sets := modify_key sr_id (pw_candidate_set_id intent)
            (\<lambda>row. row\<lparr>sr_state := ''completed'', sr_updated_at := t\<rparr>) (st_sets s)\<rparr>
      in insert_promotion_event t (pw_id intent) (pw_project_id intent) (Some (pw_state intent)) ''finalized''
           ''finalize'' [(''targetCommit'', pw_target_commit intent)] s)"

definition finalize_promotion :: "string \<Rightarrow> string \<Rightarrow> nat \<Rightarrow> Store \<Rightarrow> StoreError + (Mutation \<times> Store)" where
  "finalize_promotion t intent_id expected s0 =
     and_then (load_promotion_tx s0 intent_id) (\<lambda>intent.
     and_then (ensure_revision s0 (pw_project_id intent) expected) (\<lambda>(s, actual).
     if pw_state intent = ''finalized'' then Inr ((pw_id intent, actual), s0)
     else if pw_state intent \<noteq> ''ref_updated''
     then Inl (ErrPromotion (pw_project_id intent) (''cannot finalize promotion in state '' @ pw_state intent))
     else
       and_then (bump_revision (finalize_promotion_tx t intent s) (pw_project_id intent) actual) (\<lambda>(s, revision).
       Inr ((pw_id intent, revision), s))))"

definition rollback_promotion :: "string \<Rightarrow> string \<Rightarrow> string \<Rightarrow> nat \<Rightarrow> Store \<Rightarrow> StoreError + (Mutation \<times> Store)" where
  "rollback_promotion t intent_id reason expected s0 =
     (if trim reason = [] then Inl (ErrInput ''reason'' ''rollback reason must not be empty'')
      else
       and_then (load_promotion_tx s0 intent_id) (\<lambda>intent.
       and_then (ensure_revision s0 (pw_project_id intent) expected) (\<lambda>(s, actual).
       if pw_state intent = ''aborted'' then Inr ((pw_id intent, actual), s0)
       else if pw_state intent \<notin> {''prepared'', ''ref_updated'', ''conflicted''}
       then Inl (ErrPromotion (pw_project_id intent) (''cannot rollback promotion in state '' @ pw_state intent))
       else
         and_then (bump_revision (insert_promotion_event t (pw_id intent) (pw_project_id intent)
             (Some (pw_state intent)) ''aborted'' ''rollback'' [(''reason'', reason)]
             (update_promotion (pw_id intent)
               (\<lambda>row. row\<lparr>pw_state := ''aborted'', pw_updated_at := t, pw_conflict_reason := Some reason\<rparr>) s))
           (pw_project_id intent) actual) (\<lambda>(s, revision).
         Inr ((pw_id intent, revision), s)))))"

section \<open>Recovery\<close>

datatype PromotionRecoveryAction = Retry | Finalize | Rollback | Conflict | Noop

record PromotionRecovery =
  rec_intent :: PromotionRow
  rec_action :: PromotionRecoveryAction
  rec_revision :: nat

text \<open>Recovery runs up to two transactions, so its error keeps the store the first one has committed.\<close>

definition promotion_intent :: "Store \<Rightarrow> string \<Rightarrow> PromotionRow option" where
  "promotion_intent s i = find_key pw_id i (st_promotions s)"

definition recovered :: "string \<Rightarrow> PromotionRecoveryAction \<Rightarrow> nat \<Rightarrow> Store \<Rightarrow> (StoreError + PromotionRecovery) \<times> Store" where
  "recovered intent_id action revision s = (case promotion_intent s intent_id of
     None \<Rightarrow> (Inl (ErrMissing ''promotion intent'' intent_id), s)
   | Some row \<Rightarrow> (Inr \<lparr>rec_intent = row, rec_action = action, rec_revision = revision\<rparr>, s))"

definition record_conflict :: "string \<Rightarrow> PromotionRow \<Rightarrow> string \<Rightarrow> nat \<Rightarrow> Store \<Rightarrow> StoreError + (nat \<times> Store)" where
  "record_conflict t existing observed expected s =
     and_then (ensure_revision s (pw_project_id existing) expected) (\<lambda>(s, actual).
     and_then (bump_revision (insert_promotion_event t (pw_id existing) (pw_project_id existing)
         (Some (pw_state existing)) ''conflicted'' ''recovery_conflict'' [(''observedCommit'', observed)]
         (update_promotion (pw_id existing) (\<lambda>row. row\<lparr>pw_state := ''conflicted'', pw_updated_at := t,
            pw_conflict_reason := Some (''canonical ref observed at unexpected commit '' @ observed)\<rparr>) s))
       (pw_project_id existing) actual) (\<lambda>(s, revision). Inr (revision, s)))"

definition recover_promotion :: "string \<Rightarrow> string \<Rightarrow> string \<Rightarrow> nat \<Rightarrow> Store \<Rightarrow> (StoreError + PromotionRecovery) \<times> Store" where
  "recover_promotion t intent_id observed expected s = (case promotion_intent s intent_id of
     None \<Rightarrow> (Inl (ErrMissing ''promotion intent'' intent_id), s)
   | Some existing \<Rightarrow>
       if pw_state existing \<in> {''finalized'', ''aborted''}
       then (Inr \<lparr>rec_intent = existing, rec_action = Noop, rec_revision = current_revision s (pw_project_id existing)\<rparr>, s)
       else if observed = pw_expected_commit existing
       then (Inr \<lparr>rec_intent = existing, rec_action = Retry, rec_revision = current_revision s (pw_project_id existing)\<rparr>, s)
       else if observed = pw_target_commit existing then
         (if pw_state existing = ''prepared'' then
            and_do (run_tx (mark_promotion_ref_updated t intent_id observed expected) s) (\<lambda>_ s.
            and_do (run_tx (finalize_promotion t intent_id (current_revision s (pw_project_id existing))) s)
              (\<lambda>(_, revision) s. recovered intent_id Finalize revision s))
          else
            and_do (run_tx (finalize_promotion t intent_id expected) s)
              (\<lambda>(_, revision) s. recovered intent_id Finalize revision s))
       else
         and_do (run_tx (record_conflict t existing observed expected) s)
           (\<lambda>revision s. recovered intent_id Conflict revision s))"

section \<open>Listing incomplete intents\<close>

definition MAX_PROJECTION_LIMIT :: nat where
  "MAX_PROJECTION_LIMIT = 500"

definition bounded_limit :: "nat \<Rightarrow> nat" where
  "bounded_limit limit = max 1 (min limit MAX_PROJECTION_LIMIT)"

definition incomplete_promotions :: "Store \<Rightarrow> string \<Rightarrow> nat \<Rightarrow> PromotionRow list" where
  "incomplete_promotions s project_id limit =
     take (bounded_limit limit) (sort_key (\<lambda>row. (pw_updated_at row, pw_id row))
       (filter (\<lambda>row. pw_project_id row = project_id \<and>
          pw_state row \<in> {''prepared'', ''ref_updated'', ''conflicted''}) (st_promotions s)))"

end
