(* ===== verification/Promo_Revisions.thy ===== *)
theory Promo_Revisions
  imports Promo_Intents
begin

text \<open>
  Optimistic concurrency: every mutation of the concurrency store compares the revision its caller saw with
  the project's revision, and advances that one by one. The locale states this contract once; it is
  interpreted on each mutation of the store.
\<close>

section \<open>Revisions\<close>

lemma current_revision_update [simp]:
  "current_revision (s\<lparr>st_sets := a\<rparr>) p = current_revision s p"
  "current_revision (s\<lparr>st_candidates := b\<rparr>) p = current_revision s p"
  "current_revision (s\<lparr>st_rounds := c\<rparr>) p = current_revision s p"
  "current_revision (s\<lparr>st_ballots := d\<rparr>) p = current_revision s p"
  "current_revision (s\<lparr>st_promotions := e\<rparr>) p = current_revision s p"
  "current_revision (s\<lparr>st_events := f\<rparr>) p = current_revision s p"
  by (simp_all add: current_revision_def)

lemma ensure_revision_effect:
  assumes "ensure_revision s p e = Inr (s1, a)"
  shows "a = e" and "current_revision s p = e"
    and "\<exists>rv. s1 = s\<lparr>st_revisions := rv\<rparr> \<and> map_of rv p \<noteq> None \<and>
      (\<forall>q. current_revision (s\<lparr>st_revisions := rv\<rparr>) q = current_revision s q)"
proof -
  let ?rv = "if p \<in> fst ` set (st_revisions s) then st_revisions s else st_revisions s @ [(p, 0)]"
  have known: "map_of ?rv p \<noteq> None" by (simp add: map_of_eq_None_iff image_Un)
  have "map_of (st_revisions s @ [(p, 0)]) q = (case map_of (st_revisions s) q of
      Some r \<Rightarrow> Some r | None \<Rightarrow> if q = p then Some 0 else None)" for q
    by (simp add: map_add_def split: option.splits)
  then have same: "current_revision (s\<lparr>st_revisions := ?rv\<rparr>) q = current_revision s q" for q
    by (simp add: current_revision_def split: option.splits)
  have s1: "s1 = s\<lparr>st_revisions := ?rv\<rparr>" and "a = e" and "current_revision (s\<lparr>st_revisions := ?rv\<rparr>) p = e"
    using assms by (auto simp: ensure_revision_def Let_def split: if_splits)
  then show "a = e" "current_revision s p = e" using same by simp_all
  from s1 known same show "\<exists>rv. s1 = s\<lparr>st_revisions := rv\<rparr> \<and> map_of rv p \<noteq> None \<and>
      (\<forall>q. current_revision (s\<lparr>st_revisions := rv\<rparr>) q = current_revision s q)" by blast
qed

lemma ensure_revision_ok:
  assumes "current_revision s p = e"
  shows "\<exists>rv. ensure_revision s p e = Inr (s\<lparr>st_revisions := rv\<rparr>, e)"
proof (cases "p \<in> fst ` set (st_revisions s)")
  case True
  then have "ensure_revision s p e = Inr (s\<lparr>st_revisions := st_revisions s\<rparr>, e)"
    using assms by (simp add: ensure_revision_def)
  then show ?thesis ..
next
  case False
  then have "map_of (st_revisions s) p = None" by (simp add: map_of_eq_None_iff)
  then have "ensure_revision s p e = Inr (s\<lparr>st_revisions := st_revisions s @ [(p, 0)]\<rparr>, e)"
    using assms False by (simp add: ensure_revision_def Let_def current_revision_def map_add_def)
  then show ?thesis ..
qed

lemma ensure_revision_stale: "current_revision s p \<noteq> e \<Longrightarrow> \<exists>err. ensure_revision s p e = Inl err"
  using ensure_revision_effect(2) [of s p e] by (cases "ensure_revision s p e") auto

definition set_revision :: "string \<Rightarrow> nat \<Rightarrow> (string \<times> nat) list \<Rightarrow> (string \<times> nat) list" where
  "set_revision p n rs = map (\<lambda>(q, r). (q, if q = p then n else r)) rs"

lemma map_of_set_revision:
  "map_of (set_revision p n rs) q = (if q = p then map_option (\<lambda>_. n) (map_of rs q) else map_of rs q)"
  by (induction rs) (auto simp: set_revision_def)

lemma bump_revision_effect:
  assumes "bump_revision s p c = Inr (s2, r)"
  shows "r = c + 1 \<and> s2 = s\<lparr>st_revisions := set_revision p (c + 1) (st_revisions s)\<rparr>"
  using assms by (auto simp: bump_revision_def to_i64_def and_then_Inr set_revision_def split: if_splits)

text \<open>A transaction that changes something: it saw revision \<open>e\<close> of \<open>p\<close> and leaves it one higher.\<close>

definition advanced :: "string \<Rightarrow> nat \<Rightarrow> Store \<Rightarrow> nat \<Rightarrow> Store \<Rightarrow> bool" where
  "advanced p e s r s' \<longleftrightarrow> current_revision s p = e \<and> r = e + 1 \<and> current_revision s' p = e + 1 \<and>
     (\<forall>q. q \<noteq> p \<longrightarrow> current_revision s' q = current_revision s q)"

lemma guarded_tx:
  assumes "ensure_revision s p e = Inr (s1, a)"
    and "bump_revision s1' p a = Inr (s2, r)"
    and "st_revisions s1' = st_revisions s1"
  shows "advanced p e s r s2"
proof -
  from ensure_revision_effect [OF assms(1)] obtain rv where
    a: "a = e" "current_revision s p = e" and s1: "s1 = s\<lparr>st_revisions := rv\<rparr>" and known: "map_of rv p \<noteq> None"
    and same: "\<And>q. current_revision (s\<lparr>st_revisions := rv\<rparr>) q = current_revision s q" by blast
  from bump_revision_effect [OF assms(2)] have
    r: "r = e + 1" and s2: "s2 = s1'\<lparr>st_revisions := set_revision p (e + 1) rv\<rparr>"
    using a s1 assms(3) by simp_all
  have p: "current_revision s2 p = e + 1"
    using known by (auto simp: s2 current_revision_def map_of_set_revision)
  have q: "\<forall>q. q \<noteq> p \<longrightarrow> current_revision s2 q = current_revision s q"
    using same by (simp add: s2 current_revision_def map_of_set_revision)
  from a r p q show ?thesis by (simp add: advanced_def)
qed

section \<open>The contract\<close>

locale guarded_mutation =
  fixes run :: "nat \<Rightarrow> Store \<Rightarrow> StoreError + (Mutation \<times> Store)"
    and project :: "Store \<Rightarrow> string option"
  assumes guarded: "run e s = Inr ((i, r), s') \<Longrightarrow> \<exists>p. project s = Some p \<and>
    ((s' = s \<and> r = e \<and> current_revision s p = e) \<or> advanced p e s r s')"
begin

lemma stale_fails:
  assumes "project s = Some p" and "current_revision s p \<noteq> e"
  shows "\<exists>err. run e s = Inl err"
proof (cases "run e s")
  case (Inr x)
  obtain i r s' where "x = ((i, r), s')" by (cases x) auto
  then show ?thesis using guarded [of e s i r s'] Inr assms by (auto simp: advanced_def)
qed simp

lemma revision_returned:
  assumes "run e s = Inr ((i, r), s')" and "project s = Some p"
  shows "current_revision s' p = r" and "r \<in> {e, e + 1}"
  using guarded [OF assms(1)] assms(2) by (auto simp: advanced_def)

lemma other_projects_keep:
  assumes "run e s = Inr ((i, r), s')" and "project s = Some p" and "q \<noteq> p"
  shows "current_revision s' q = current_revision s q"
  using guarded [OF assms(1)] assms(2,3) by (auto simp: advanced_def)

end

section \<open>The mutations\<close>

definition set_project_of :: "string \<Rightarrow> Store \<Rightarrow> string option" where
  "set_project_of i s = (case candidate_set_project s i of Inl _ \<Rightarrow> None | Inr p \<Rightarrow> Some p)"

definition round_project_of :: "string \<Rightarrow> Store \<Rightarrow> string option" where
  "round_project_of i s = (case round_project s i of Inl _ \<Rightarrow> None | Inr p \<Rightarrow> Some p)"

definition intent_project_of :: "string \<Rightarrow> Store \<Rightarrow> string option" where
  "intent_project_of i s = map_option pw_project_id (promotion_intent s i)"

lemma load_promotion_iff: "load_promotion_tx s i = Inr row \<longleftrightarrow> promotion_intent s i = Some row"
  by (auto simp: load_promotion_tx_def promotion_intent_def split: option.splits)

lemma st_revisions_events [simp]:
  "st_revisions (insert_promotion_event t i p f g k d s) = st_revisions s"
  "st_revisions (update_promotion i h s) = st_revisions s"
  "st_revisions (finalize_promotion_tx t row s) = st_revisions s"
  by (simp_all add: insert_promotion_event_def update_promotion_def finalize_promotion_tx_def Let_def)

lemma parse_promotion_id: "parse_promotion d = Inr d' \<Longrightarrow> d' = d"
  by (auto simp: parse_promotion_def and_then_Inr)

lemma guarded_txs:
  assumes "ensure_revision s p e = Inr (s1, a)"
  shows "bump_revision (s1\<lparr>st_sets := x\<rparr>) p a = Inr (s2, r) \<Longrightarrow> advanced p e s r s2"
    and "bump_revision (s1\<lparr>st_candidates := y\<rparr>) p a = Inr (s2, r) \<Longrightarrow> advanced p e s r s2"
    and "bump_revision (s1\<lparr>st_rounds := z\<rparr>) p a = Inr (s2, r) \<Longrightarrow> advanced p e s r s2"
    and "bump_revision (s1\<lparr>st_ballots := u\<rparr>) p a = Inr (s2, r) \<Longrightarrow> advanced p e s r s2"
    and "bump_revision (insert_promotion_event t i q f g k d (s1\<lparr>st_promotions := v\<rparr>)) p a = Inr (s2, r) \<Longrightarrow>
      advanced p e s r s2"
    and "bump_revision (insert_promotion_event t i q f g k d (update_promotion j h s1)) p a = Inr (s2, r) \<Longrightarrow>
      advanced p e s r s2"
    and "bump_revision (finalize_promotion_tx t row s1) p a = Inr (s2, r) \<Longrightarrow> advanced p e s r s2"
  by (auto intro: guarded_tx [OF assms])

lemmas mutation_defs = create_candidate_set_def register_candidate_def submit_candidate_def
  set_candidate_set_state_def record_adjudication_round_def record_adjudication_ballot_def
  prepare_promotion_def mark_promotion_ref_updated_def finalize_promotion_def rollback_promotion_def
  Let_def and_then_Inr load_promotion_iff

interpretation creates: guarded_mutation "create_candidate_set d" "\<lambda>s. Some (sd_project_id d)" for d
  by unfold_locales (auto simp: mutation_defs  split: if_splits option.splits
    intro: guarded_txs dest: ensure_revision_effect parse_promotion_id)

interpretation registers: guarded_mutation "register_candidate c" "set_project_of (cr_candidate_set_id c)" for c
  by unfold_locales (auto simp: mutation_defs set_project_of_def split: if_splits option.splits
    intro: guarded_txs dest: ensure_revision_effect parse_promotion_id)

interpretation submits: guarded_mutation "submit_candidate t c ev" "set_project_of (cr_candidate_set_id c)" for t c ev
  by unfold_locales (auto simp: mutation_defs set_project_of_def split: if_splits option.splits
    intro: guarded_txs dest: ensure_revision_effect parse_promotion_id)

interpretation set_states: guarded_mutation "set_candidate_set_state t j st" "set_project_of j" for t j st
  by unfold_locales (auto simp: mutation_defs set_project_of_def split: if_splits option.splits
    intro: guarded_txs dest: ensure_revision_effect parse_promotion_id)

interpretation rounds: guarded_mutation "record_adjudication_round x" "set_project_of (rr_candidate_set_id x)" for x
  by unfold_locales (auto simp: mutation_defs set_project_of_def split: if_splits option.splits
    intro: guarded_txs dest: ensure_revision_effect parse_promotion_id)

interpretation ballots: guarded_mutation "record_adjudication_ballot b" "round_project_of (br_round_id b)" for b
  by unfold_locales (auto simp: mutation_defs round_project_of_def split: if_splits option.splits
    intro: guarded_txs dest: ensure_revision_effect parse_promotion_id)

interpretation prepares: guarded_mutation "prepare_promotion t d" "\<lambda>s. Some (pd_project_id d)" for t d
  by unfold_locales (auto simp: mutation_defs  split: if_splits option.splits
    intro: guarded_txs dest: ensure_revision_effect parse_promotion_id)

interpretation marks: guarded_mutation "mark_promotion_ref_updated t j c" "intent_project_of j" for t j c
  by unfold_locales (auto simp: mutation_defs intent_project_of_def split: if_splits option.splits
    intro: guarded_txs dest: ensure_revision_effect parse_promotion_id)

interpretation finalizes: guarded_mutation "finalize_promotion t j" "intent_project_of j" for t j
  by unfold_locales (auto simp: mutation_defs intent_project_of_def split: if_splits option.splits
    intro: guarded_txs dest: ensure_revision_effect parse_promotion_id)

interpretation rollbacks: guarded_mutation "rollback_promotion t j c" "intent_project_of j" for t j c
  by unfold_locales (auto simp: mutation_defs intent_project_of_def split: if_splits option.splits
    intro: guarded_txs dest: ensure_revision_effect parse_promotion_id)

end
