(* ===== verification/Promo_Invariant.thy ===== *)
theory Promo_Invariant
  imports Promo_Revisions
begin

text \<open>
  What holds in every store the transactions can reach: unique keys, at most one active intent of a project,
  an event log that replays to the states of the intents through legal transitions only, and a promoted
  candidate behind every finalized intent.
\<close>

section \<open>Transactions\<close>

inductive store_tx :: "Store \<Rightarrow> Store \<Rightarrow> bool" where
  Tx_create: "create_candidate_set d e s = Inr (m, s') \<Longrightarrow> store_tx s s'"
| Tx_register: "register_candidate c e s = Inr (m, s') \<Longrightarrow> store_tx s s'"
| Tx_submit: "submit_candidate t c ev e s = Inr (m, s') \<Longrightarrow> store_tx s s'"
| Tx_set_state: "set_candidate_set_state t i st e s = Inr (m, s') \<Longrightarrow> store_tx s s'"
| Tx_round: "record_adjudication_round r e s = Inr (m, s') \<Longrightarrow> store_tx s s'"
| Tx_ballot: "record_adjudication_ballot b e s = Inr (m, s') \<Longrightarrow> store_tx s s'"
| Tx_prepare: "prepare_promotion t d e s = Inr (m, s') \<Longrightarrow> store_tx s s'"
| Tx_mark: "mark_promotion_ref_updated t i observed e s = Inr (m, s') \<Longrightarrow> store_tx s s'"
| Tx_finalize: "finalize_promotion t i e s = Inr (m, s') \<Longrightarrow> store_tx s s'"
| Tx_rollback: "rollback_promotion t i reason e s = Inr (m, s') \<Longrightarrow> store_tx s s'"
| Tx_conflict: "promotion_intent s i = Some row \<Longrightarrow> pw_state row \<notin> {''finalized'', ''aborted''} \<Longrightarrow>
    record_conflict t row observed e s = Inr (n, s') \<Longrightarrow> store_tx s s'"

definition empty_store :: Store where
  "empty_store = \<lparr>st_revisions = [], st_sets = [], st_candidates = [], st_rounds = [], st_ballots = [],
     st_promotions = [], st_events = []\<rparr>"

section \<open>The event log as a journal\<close>

inductive legal_transition :: "string option \<Rightarrow> string \<Rightarrow> bool" where
  "legal_transition None ''prepared''"
| "legal_transition (Some ''prepared'') ''ref_updated''"
| "legal_transition (Some ''ref_updated'') ''finalized''"
| "x \<in> {''prepared'', ''ref_updated'', ''conflicted''} \<Longrightarrow> legal_transition (Some x) ''aborted''"
| "x \<in> {''prepared'', ''ref_updated'', ''conflicted''} \<Longrightarrow> legal_transition (Some x) ''conflicted''"

code_pred legal_transition .

inductive_cases legal_from_finalized: "legal_transition (Some ''finalized'') st"
inductive_cases legal_from_aborted: "legal_transition (Some ''aborted'') st"

fun replay_events :: "PromotionEvent list \<Rightarrow> (string \<rightharpoonup> string) \<Rightarrow> (string \<rightharpoonup> string) option" where
  "replay_events [] m = Some m"
| "replay_events (ev # evs) m =
    (if m (pe_intent_id ev) = pe_from_state ev \<and> legal_transition (pe_from_state ev) (pe_to_state ev)
     then replay_events evs (m(pe_intent_id ev \<mapsto> pe_to_state ev)) else None)"

lemma replay_events_append:
  "replay_events (xs @ ys) m = (case replay_events xs m of None \<Rightarrow> None | Some m' \<Rightarrow> replay_events ys m')"
  by (induction xs arbitrary: m) auto

definition intent_states :: "Store \<Rightarrow> string \<rightharpoonup> string" where
  "intent_states s = (\<lambda>i. map_option pw_state (promotion_intent s i))"

lemma promotion_intent_update:
  assumes "\<And>r. pw_id (f r) = pw_id r"
  shows "promotion_intent (update_promotion i f s) j =
    (if j = i then map_option f (promotion_intent s i) else promotion_intent s j)"
  by (simp add: promotion_intent_def update_promotion_def find_key_modify assms)

section \<open>The invariant\<close>

definition active_projects :: "PromotionRow list \<Rightarrow> string list" where
  "active_projects rows = map pw_project_id (filter promotion_active rows)"

definition candidates_behind :: "Store \<Rightarrow> bool" where
  "candidates_behind s \<longleftrightarrow> (\<forall>row\<in>set (st_promotions s). \<exists>c.
     find_key cr_id (pw_candidate_id row) (st_candidates s) = Some c \<and>
     (pw_state row = ''finalized'' \<longrightarrow> cr_state c = ''promoted''))"

definition keys_unique :: "Store \<Rightarrow> bool" where
  "keys_unique s \<longleftrightarrow> distinct (map sr_id (st_sets s)) \<and> distinct (map cr_id (st_candidates s)) \<and>
     distinct (map rr_id (st_rounds s)) \<and> distinct (map br_id (st_ballots s)) \<and>
     distinct (map pw_id (st_promotions s))"

definition journal_ok :: "Store \<Rightarrow> bool" where
  "journal_ok s \<longleftrightarrow> replay_events (st_events s) (\<lambda>_. None) = Some (intent_states s)"

definition store_inv :: "Store \<Rightarrow> bool" where
  "store_inv s \<longleftrightarrow> keys_unique s \<and> distinct (active_projects (st_promotions s)) \<and> journal_ok s \<and>
     candidates_behind s"

lemma store_inv_empty: "store_inv empty_store"
  by (simp add: store_inv_def keys_unique_def active_projects_def journal_ok_def candidates_behind_def
      intent_states_def promotion_intent_def empty_store_def)

text \<open>The revisions play no part in it.\<close>

lemma store_inv_revisions [simp]: "store_inv (s\<lparr>st_revisions := rv\<rparr>) \<longleftrightarrow> store_inv s"
  by (simp add: store_inv_def keys_unique_def journal_ok_def candidates_behind_def intent_states_def
      promotion_intent_def)

lemma store_inv_ensure: "ensure_revision s p e = Inr (s1, a) \<Longrightarrow> store_inv s1 \<longleftrightarrow> store_inv s"
  using ensure_revision_effect(3) [of s p e s1 a] by auto

lemma store_inv_bump: "bump_revision s p a = Inr (s2, r) \<Longrightarrow> store_inv s2 \<longleftrightarrow> store_inv s"
  using bump_revision_effect [of s p a s2 r] by auto

lemma ensure_tables:
  assumes "ensure_revision s p e = Inr (s1, a)"
  shows "promotion_intent s1 = promotion_intent s" and "st_candidates s1 = st_candidates s"
    and "st_sets s1 = st_sets s"
  using ensure_revision_effect(3) [OF assms] by (auto simp: promotion_intent_def fun_eq_iff)

section \<open>Preservation, table by table\<close>

lemmas store_inv_defs = store_inv_def keys_unique_def active_projects_def journal_ok_def
  candidates_behind_def intent_states_def promotion_intent_def

lemma insert_row_iff: "insert_row key row rows = Inr rows' \<longleftrightarrow> key row \<notin> key ` set rows \<and> rows' = rows @ [row]"
  by (auto simp: insert_row_def)

lemma store_inv_other_tables:
  assumes "store_inv s"
  shows "insert_row sr_id a (st_sets s) = Inr rows1 \<Longrightarrow> store_inv (s\<lparr>st_sets := rows1\<rparr>)"
    and "(\<And>r. sr_id (f r) = sr_id r) \<Longrightarrow> store_inv (s\<lparr>st_sets := modify_key sr_id i f (st_sets s)\<rparr>)"
    and "insert_row rr_id b (st_rounds s) = Inr rows2 \<Longrightarrow> store_inv (s\<lparr>st_rounds := rows2\<rparr>)"
    and "insert_row br_id c (st_ballots s) = Inr rows3 \<Longrightarrow> store_inv (s\<lparr>st_ballots := rows3\<rparr>)"
  using assms by (auto simp: store_inv_defs insert_row_iff map_key_modify)

lemma store_inv_new_candidate:
  assumes "store_inv s" and "insert_row cr_id c (st_candidates s) = Inr rows"
  shows "store_inv (s\<lparr>st_candidates := rows\<rparr>)"
proof -
  have "candidates_behind (s\<lparr>st_candidates := rows\<rparr>)"
    unfolding candidates_behind_def
  proof
    fix row assume "row \<in> set (st_promotions (s\<lparr>st_candidates := rows\<rparr>))"
    then obtain c' where "find_key cr_id (pw_candidate_id row) (st_candidates s) = Some c'"
      "pw_state row = ''finalized'' \<longrightarrow> cr_state c' = ''promoted''"
      using assms(1) by (auto simp: store_inv_def candidates_behind_def)
    then show "\<exists>c. find_key cr_id (pw_candidate_id row) (st_candidates (s\<lparr>st_candidates := rows\<rparr>)) = Some c \<and>
        (pw_state row = ''finalized'' \<longrightarrow> cr_state c = ''promoted'')"
      using assms(2) by (auto simp: insert_row_iff find_key_append)
  qed
  then show ?thesis
    using assms unfolding store_inv_def
    by (auto simp: keys_unique_def journal_ok_def intent_states_def promotion_intent_def insert_row_iff)
qed

lemma store_inv_modify_candidate:
  assumes "store_inv s" and id: "\<And>c. cr_id (f c) = cr_id c"
    and promoted: "\<And>c. find_key cr_id i (st_candidates s) = Some c \<Longrightarrow> cr_state c = ''promoted'' \<Longrightarrow>
      cr_state (f c) = ''promoted''"
  shows "store_inv (s\<lparr>st_candidates := modify_key cr_id i f (st_candidates s)\<rparr>)"
proof -
  have "candidates_behind (s\<lparr>st_candidates := modify_key cr_id i f (st_candidates s)\<rparr>)"
    unfolding candidates_behind_def
  proof
    fix row assume "row \<in> set (st_promotions (s\<lparr>st_candidates := modify_key cr_id i f (st_candidates s)\<rparr>))"
    then obtain c where "find_key cr_id (pw_candidate_id row) (st_candidates s) = Some c"
      "pw_state row = ''finalized'' \<longrightarrow> cr_state c = ''promoted''"
      using assms(1) by (auto simp: store_inv_def candidates_behind_def)
    then show "\<exists>c. find_key cr_id (pw_candidate_id row)
          (st_candidates (s\<lparr>st_candidates := modify_key cr_id i f (st_candidates s)\<rparr>)) = Some c \<and>
        (pw_state row = ''finalized'' \<longrightarrow> cr_state c = ''promoted'')"
      using promoted by (auto simp: find_key_modify id)
  qed
  then show ?thesis
    using assms(1) unfolding store_inv_def
    by (auto simp: keys_unique_def journal_ok_def intent_states_def promotion_intent_def map_key_modify id)
qed

text \<open>A legal transition of one intent, with its event.\<close>

lemma active_projects_Cons [simp]:
  "active_projects (r # rows) = (if promotion_active r then pw_project_id r # active_projects rows
     else active_projects rows)"
  by (simp add: active_projects_def)

lemma active_projects_modify:
  assumes "\<And>r. pw_project_id (f r) = pw_project_id r"
    and "\<And>r. find_key pw_id i rows = Some r \<Longrightarrow> promotion_active (f r) \<Longrightarrow> promotion_active r"
  shows "set (active_projects (modify_key pw_id i f rows)) \<subseteq> set (active_projects rows) \<and>
    (distinct (active_projects rows) \<longrightarrow> distinct (active_projects (modify_key pw_id i f rows)))"
  using assms(2) by (induction rows) (auto simp: assms(1))

lemma candidates_behind_modify:
  assumes "candidates_behind s" and "\<And>r. pw_candidate_id (f r) = pw_candidate_id r"
    and "distinct (map pw_id (st_promotions s))" and row: "promotion_intent s i = Some row"
    and "pw_state (f row) = ''finalized'' \<Longrightarrow>
      \<exists>c. find_key cr_id (pw_candidate_id row) (st_candidates s) = Some c \<and> cr_state c = ''promoted''"
  shows "candidates_behind (update_promotion i f s)"
  unfolding candidates_behind_def
proof
  fix r assume "r \<in> set (st_promotions (update_promotion i f s))"
  then have "r \<in> (\<lambda>x. if pw_id x = i then f x else x) ` set (st_promotions s)"
    by (simp add: update_promotion_def modify_key_map [OF assms(3)])
  then obtain x where x: "x \<in> set (st_promotions s)" and r: "r = (if pw_id x = i then f x else x)" by blast
  show "\<exists>c. find_key cr_id (pw_candidate_id r) (st_candidates (update_promotion i f s)) = Some c \<and>
      (pw_state r = ''finalized'' \<longrightarrow> cr_state c = ''promoted'')"
  proof (cases "pw_id x = i")
    case True
    then have "x = row" using x row find_key_distinct [OF assms(3)] by (simp add: promotion_intent_def)
    moreover obtain c where "find_key cr_id (pw_candidate_id x) (st_candidates s) = Some c"
      using assms(1) x by (auto simp: candidates_behind_def)
    ultimately show ?thesis using assms(2,5) r True by (auto simp: update_promotion_def)
  next
    case False
    then show ?thesis using assms(1) x r by (simp add: candidates_behind_def update_promotion_def)
  qed
qed

lemma store_inv_transition:
  assumes inv: "store_inv s" and row: "promotion_intent s i = Some row"
    and keep: "\<And>r. pw_id (f r) = pw_id r" "\<And>r. pw_project_id (f r) = pw_project_id r"
      "\<And>r. pw_candidate_id (f r) = pw_candidate_id r"
    and st: "pw_state (f row) = st" and legal: "legal_transition (Some (pw_state row)) st"
    and act: "promotion_active (f row) \<Longrightarrow> promotion_active row"
    and fin: "st = ''finalized'' \<Longrightarrow>
      \<exists>c. find_key cr_id (pw_candidate_id row) (st_candidates s) = Some c \<and> cr_state c = ''promoted''"
  shows "store_inv (insert_promotion_event t i q (Some (pw_state row)) st k d (update_promotion i f s))"
proof -
  let ?s = "update_promotion i f s"
  let ?e = "insert_promotion_event t i q (Some (pw_state row)) st k d ?s"
  have journal: "journal_ok ?e"
    using inv row legal st
    by (auto simp: store_inv_def journal_ok_def insert_promotion_event_def replay_events_append update_promotion_def
        intent_states_def promotion_intent_def find_key_modify keep)
  have active: "distinct (active_projects (st_promotions ?e))"
    using inv row act active_projects_modify [of f i "st_promotions s", OF keep(2)]
    by (auto simp: store_inv_def insert_promotion_event_def update_promotion_def promotion_intent_def)
  have "candidates_behind ?s"
    using inv by (intro candidates_behind_modify [OF _ keep(3) _ row])
      (auto simp: store_inv_def keys_unique_def st fin)
  then have behind: "candidates_behind ?e"
    by (simp add: candidates_behind_def insert_promotion_event_def)
  have "keys_unique ?e"
    using inv by (simp add: store_inv_def keys_unique_def insert_promotion_event_def update_promotion_def
        map_key_modify keep)
  with journal active behind show ?thesis by (simp add: store_inv_def)
qed

section \<open>Preservation by the transactions\<close>

lemma store_inv_submit:
  assumes "submit_candidate t c ev e s = Inr (m, s')" and "store_inv s"
  shows "store_inv s'"
proof -
  define d where "d = c\<lparr>cr_state := ''submitted'',
    cr_submitted_at := (case cr_submitted_at c of None \<Rightarrow> Some t | Some u \<Rightarrow> Some u), cr_evidence := ev\<rparr>"
  obtain p s1 a rows r where p: "ensure_revision s p e = Inr (s1, a)"
    and rows: "(case find_key cr_id (cr_id d) (st_candidates s1) of
          Some existing \<Rightarrow>
            if candidate_state_is_immutable (cr_state existing)
            then Inl (ErrImmutable (cr_id d) (cr_state existing))
            else Inr (modify_key cr_id (cr_id d) (update_candidate d) (st_candidates s1))
        | None \<Rightarrow> insert_row cr_id d (st_candidates s1)) = Inr rows"
    and b: "bump_revision (s1\<lparr>st_candidates := rows\<rparr>) p a = Inr (s', r)"
    using assms(1) unfolding submit_candidate_def Let_def d_def [symmetric]
    by (auto simp: and_then_Inr)
  have inv: "store_inv s1" using assms(2) store_inv_ensure [OF p] by simp
  have "store_inv (s1\<lparr>st_candidates := rows\<rparr>)"
  proof (cases "find_key cr_id (cr_id d) (st_candidates s1)")
    case None
    then show ?thesis using rows inv by (auto intro: store_inv_new_candidate)
  next
    case (Some existing)
    then have "cr_state existing \<noteq> ''promoted''" and
      "rows = modify_key cr_id (cr_id d) (update_candidate d) (st_candidates s1)"
      using rows by (auto simp: candidate_state_is_immutable_def split: if_splits)
    then show ?thesis using inv Some
      by (auto intro!: store_inv_modify_candidate simp: update_candidate_def)
  qed
  then show ?thesis using store_inv_bump [OF b] by simp
qed

lemma store_inv_prepare:
  assumes "prepare_promotion t d e s = Inr (m, s')" and "store_inv s"
  shows "store_inv s'"
proof -
  obtain s1 a c rows r where p: "ensure_revision s (pd_project_id d) e = Inr (s1, a)"
    and c: "find_key cr_id (pd_candidate_id d) (st_candidates s1) = Some c"
    and none: "find (\<lambda>row. pw_project_id row = pd_project_id d \<and> promotion_active row) (st_promotions s1) = None"
    and rows: "insert_row pw_id (promotion_row d) (st_promotions s1) = Inr rows"
    and b: "bump_revision (insert_promotion_event t (pd_id d) (pd_project_id d) None ''prepared'' ''prepare''
               [(''expectedCommit'', pd_expected_commit d), (''targetCommit'', pd_target_commit d),
                (''canonicalRef'', pd_canonical_ref d)] (s1\<lparr>st_promotions := rows\<rparr>))
             (pd_project_id d) a = Inr (s', r)"
    using assms(1) unfolding prepare_promotion_def
    by (auto simp: and_then_Inr split: if_splits option.splits dest!: parse_promotion_id)
  let ?s = "insert_promotion_event t (pd_id d) (pd_project_id d) None ''prepared'' ''prepare''
               [(''expectedCommit'', pd_expected_commit d), (''targetCommit'', pd_target_commit d),
                (''canonicalRef'', pd_canonical_ref d)] (s1\<lparr>st_promotions := rows\<rparr>)"
  have inv: "store_inv s1" using assms(2) store_inv_ensure [OF p] by simp
  have new: "pd_id d \<notin> pw_id ` set (st_promotions s1)" and rows: "rows = st_promotions s1 @ [promotion_row d]"
    using rows by (auto simp: insert_row_iff promotion_row_def)
  have fresh: "find_key pw_id (pd_id d) (st_promotions s1) = None"
    using new by (simp add: find_key_None_iff)
  have "intent_states ?s = (intent_states s1)(pd_id d \<mapsto> ''prepared'')"
    using fresh by (auto simp: intent_states_def promotion_intent_def insert_promotion_event_def rows
        find_key_append promotion_row_def fun_eq_iff split: option.splits)
  moreover have "intent_states s1 (pd_id d) = None"
    using fresh by (simp add: intent_states_def promotion_intent_def)
  ultimately have "journal_ok ?s"
    using inv by (simp add: store_inv_def journal_ok_def insert_promotion_event_def replay_events_append
        legal_transition.intros)
  moreover have "keys_unique ?s"
    using inv new by (simp add: store_inv_def keys_unique_def insert_promotion_event_def rows promotion_row_def)
  moreover have "pd_project_id d \<notin> set (active_projects (st_promotions s1))"
    using none by (auto simp: active_projects_def find_None_iff)
  then have "distinct (active_projects (st_promotions ?s))"
    using inv by (simp add: store_inv_def insert_promotion_event_def rows active_projects_def promotion_row_def)
  moreover have "candidates_behind ?s"
    using inv c by (auto simp: store_inv_def candidates_behind_def insert_promotion_event_def rows promotion_row_def)
  ultimately show ?thesis using store_inv_bump [OF b] by (simp add: store_inv_def)
qed

text \<open>Marking, finalizing, rolling back and recording a conflict are one transition each.\<close>

lemma store_inv_move:
  assumes p: "ensure_revision s (pw_project_id row) e = Inr (s1, a)"
    and b: "bump_revision (insert_promotion_event t (pw_id row) (pw_project_id row) (Some (pw_state row)) st k d
        (update_promotion (pw_id row) f s1)) q n = Inr (s', r)"
    and inv: "store_inv s" and row: "promotion_intent s i = Some row"
    and keep: "\<And>r. pw_id (f r) = pw_id r" "\<And>r. pw_project_id (f r) = pw_project_id r"
      "\<And>r. pw_candidate_id (f r) = pw_candidate_id r"
    and st: "pw_state (f row) = st" and legal: "legal_transition (Some (pw_state row)) st"
    and act: "promotion_active (f row) \<Longrightarrow> promotion_active row" and fin: "st \<noteq> ''finalized''"
  shows "store_inv s'"
proof -
  have row1: "promotion_intent s1 (pw_id row) = Some row"
    using row ensure_tables(1) [OF p] by (auto simp: promotion_intent_def dest: find_key_Some)
  have "store_inv s1" using inv store_inv_ensure [OF p] by simp
  then have "store_inv (insert_promotion_event t (pw_id row) (pw_project_id row) (Some (pw_state row)) st k d
        (update_promotion (pw_id row) f s1))"
    by (rule store_inv_transition [where f = f, OF _ row1 keep st legal act]) (use fin in auto)
  then show ?thesis using store_inv_bump [OF b] by simp
qed

lemma store_inv_mark:
  assumes "mark_promotion_ref_updated t i observed e s = Inr (m, s')" and "store_inv s"
  shows "store_inv s'"
proof (cases "s' = s")
  case False
  then obtain row s1 a r where row: "promotion_intent s i = Some row" and prepared: "pw_state row = ''prepared''"
    and p: "ensure_revision s (pw_project_id row) e = Inr (s1, a)"
    and b: "bump_revision (insert_promotion_event t (pw_id row) (pw_project_id row) (Some (pw_state row))
           ''ref_updated'' ''git_ref_updated'' [(''observedCommit'', observed)]
           (update_promotion (pw_id row) (set_promotion_state t ''ref_updated'') s1)) (pw_project_id row) a = Inr (s', r)"
    using assms(1) unfolding mark_promotion_ref_updated_def
    by (auto simp: and_then_Inr load_promotion_iff split: if_splits)
  show ?thesis
    by (rule store_inv_move [OF p b assms(2) row])
      (auto simp: set_promotion_state_def promotion_active_def prepared intro: legal_transition.intros)
qed (simp add: assms(2))

lemma store_inv_rollback:
  assumes "rollback_promotion t i reason e s = Inr (m, s')" and "store_inv s"
  shows "store_inv s'"
proof (cases "s' = s")
  case False
  then obtain row s1 a r where row: "promotion_intent s i = Some row"
    and st: "pw_state row \<in> {''prepared'', ''ref_updated'', ''conflicted''}"
    and p: "ensure_revision s (pw_project_id row) e = Inr (s1, a)"
    and b: "bump_revision (insert_promotion_event t (pw_id row) (pw_project_id row) (Some (pw_state row))
           ''aborted'' ''rollback'' [(''reason'', reason)] (update_promotion (pw_id row)
             (\<lambda>row. row\<lparr>pw_state := ''aborted'', pw_updated_at := t, pw_conflict_reason := Some reason\<rparr>) s1))
           (pw_project_id row) a = Inr (s', r)"
    using assms(1) unfolding rollback_promotion_def
    by (auto simp: and_then_Inr load_promotion_iff split: if_splits)
  show ?thesis
    by (rule store_inv_move [OF p b assms(2) row])
      (use st in \<open>auto simp: promotion_active_def intro: legal_transition.intros\<close>)
qed (simp add: assms(2))

lemma store_inv_conflict:
  assumes row: "promotion_intent s i = Some row" and st: "pw_state row \<in> {''prepared'', ''ref_updated'', ''conflicted''}"
    and "record_conflict t row observed e s = Inr (n, s')" and inv: "store_inv s"
  shows "store_inv s'"
proof -
  obtain s1 a r where p: "ensure_revision s (pw_project_id row) e = Inr (s1, a)"
    and b: "bump_revision (insert_promotion_event t (pw_id row) (pw_project_id row)
         (Some (pw_state row)) ''conflicted'' ''recovery_conflict'' [(''observedCommit'', observed)]
         (update_promotion (pw_id row) (\<lambda>row. row\<lparr>pw_state := ''conflicted'', pw_updated_at := t,
            pw_conflict_reason := Some (''canonical ref observed at unexpected commit '' @ observed)\<rparr>) s1))
       (pw_project_id row) a = Inr (s', r)"
    using assms(3) unfolding record_conflict_def by (auto simp: and_then_Inr)
  show ?thesis
    by (rule store_inv_move [OF p b inv row])
      (use st in \<open>auto simp: promotion_active_def intro: legal_transition.intros\<close>)
qed

lemma finalize_promotion_tx_eq:
  "finalize_promotion_tx t row s = insert_promotion_event t (pw_id row) (pw_project_id row) (Some (pw_state row))
     ''finalized'' ''finalize'' [(''targetCommit'', pw_target_commit row)]
     (update_promotion (pw_id row)
       (\<lambda>row. row\<lparr>pw_state := ''finalized'', pw_updated_at := t, pw_finalized_at := Some t, pw_conflict_reason := None\<rparr>)
       (s\<lparr>st_candidates := modify_key cr_id (pw_candidate_id row)
            (\<lambda>c. c\<lparr>cr_state := ''promoted'', cr_updated_at := t\<rparr>) (st_candidates s),
          st_sets := modify_key sr_id (pw_candidate_set_id row)
            (\<lambda>row. row\<lparr>sr_state := ''completed'', sr_updated_at := t\<rparr>) (st_sets s)\<rparr>))"
  by (simp add: finalize_promotion_tx_def insert_promotion_event_def update_promotion_def Let_def)

lemma store_inv_finalize_tx:
  assumes inv: "store_inv s" and row: "promotion_intent s i = Some row" and st: "pw_state row = ''ref_updated''"
  shows "store_inv (finalize_promotion_tx t row s)"
proof -
  let ?c = "s\<lparr>st_candidates := modify_key cr_id (pw_candidate_id row)
            (\<lambda>c. c\<lparr>cr_state := ''promoted'', cr_updated_at := t\<rparr>) (st_candidates s)\<rparr>"
  let ?s = "?c\<lparr>st_sets := modify_key sr_id (pw_candidate_set_id row)
            (\<lambda>row. row\<lparr>sr_state := ''completed'', sr_updated_at := t\<rparr>) (st_sets ?c)\<rparr>"
  have "store_inv ?c" by (rule store_inv_modify_candidate [OF inv]) auto
  then have inv': "store_inv ?s" by (rule store_inv_other_tables(2)) simp
  have row': "promotion_intent ?s (pw_id row) = Some row"
    using row by (auto simp: promotion_intent_def dest: find_key_Some)
  obtain c where "find_key cr_id (pw_candidate_id row) (st_candidates s) = Some c"
    using inv find_key_Some [OF row [unfolded promotion_intent_def]]
    unfolding store_inv_def candidates_behind_def by blast
  then have "\<exists>c. find_key cr_id (pw_candidate_id row) (st_candidates ?s) = Some c \<and> cr_state c = ''promoted''"
    by (simp add: find_key_modify)
  then show ?thesis
    unfolding finalize_promotion_tx_eq
    using store_inv_transition [OF inv' row', where t = t and q = "pw_project_id row" and k = "''finalize''"
        and st = "''finalized''" and d = "[(''targetCommit'', pw_target_commit row)]" and
        f = "\<lambda>row. row\<lparr>pw_state := ''finalized'', pw_updated_at := t, pw_finalized_at := Some t,
          pw_conflict_reason := None\<rparr>"] st
    by (simp add: promotion_active_def legal_transition.intros)
qed

lemma store_inv_finalize:
  assumes "finalize_promotion t i e s = Inr (m, s')" and "store_inv s"
  shows "store_inv s'"
proof (cases "s' = s")
  case False
  then obtain row s1 a r where row: "promotion_intent s i = Some row" and st: "pw_state row = ''ref_updated''"
    and p: "ensure_revision s (pw_project_id row) e = Inr (s1, a)"
    and b: "bump_revision (finalize_promotion_tx t row s1) (pw_project_id row) a = Inr (s', r)"
    using assms(1) unfolding finalize_promotion_def
    by (auto simp: and_then_Inr load_promotion_iff split: if_splits)
  have "promotion_intent s1 i = Some row" using row ensure_tables(1) [OF p] by simp
  moreover have "store_inv s1" using assms(2) store_inv_ensure [OF p] by simp
  ultimately show ?thesis using store_inv_finalize_tx st store_inv_bump [OF b] by simp
qed (simp add: assms(2))

definition intent_state_names :: "string set" where
  "intent_state_names = {''prepared'', ''ref_updated'', ''finalized'', ''aborted'', ''conflicted''}"

lemma legal_transition_names: "legal_transition x st \<Longrightarrow> st \<in> intent_state_names"
  by (cases rule: legal_transition.cases) (auto simp: intent_state_names_def)

lemma replay_events_names:
  "replay_events evs m = Some m' \<Longrightarrow> \<forall>i st. m i = Some st \<longrightarrow> st \<in> intent_state_names \<Longrightarrow>
    m' i = Some st \<Longrightarrow> st \<in> intent_state_names"
proof (induction evs arbitrary: m)
  case (Cons ev evs)
  have legal: "legal_transition (pe_from_state ev) (pe_to_state ev)"
    and rest: "replay_events evs (m(pe_intent_id ev \<mapsto> pe_to_state ev)) = Some m'"
    using Cons.prems(1) by (simp_all split: if_splits)
  show ?case
    by (rule Cons.IH [OF rest _ Cons.prems(3)]) (use Cons.prems(2) legal_transition_names [OF legal] in simp)
qed simp

lemma store_inv_states:
  assumes "store_inv s" and "promotion_intent s i = Some row"
  shows "pw_state row \<in> intent_state_names"
  using replay_events_names [of "st_events s" "\<lambda>_. None" "intent_states s" i "pw_state row"] assms
  by (simp add: store_inv_def journal_ok_def intent_states_def)

lemma store_inv_plain:
  assumes "ensure_revision s p e = Inr (s1, a)" and "store_inv s"
  shows "insert_row sr_id x (st_sets s1) = Inr rows1 \<Longrightarrow>
      bump_revision (s1\<lparr>st_sets := rows1\<rparr>) q n = Inr (s2, r) \<Longrightarrow> store_inv s2"
    and "(\<And>r. sr_id (f r) = sr_id r) \<Longrightarrow>
      bump_revision (s1\<lparr>st_sets := modify_key sr_id i f (st_sets s1)\<rparr>) q n = Inr (s2, r) \<Longrightarrow> store_inv s2"
    and "insert_row cr_id c (st_candidates s1) = Inr rows2 \<Longrightarrow>
      bump_revision (s1\<lparr>st_candidates := rows2\<rparr>) q n = Inr (s2, r) \<Longrightarrow> store_inv s2"
    and "insert_row rr_id y (st_rounds s1) = Inr rows3 \<Longrightarrow>
      bump_revision (s1\<lparr>st_rounds := rows3\<rparr>) q n = Inr (s2, r) \<Longrightarrow> store_inv s2"
    and "insert_row br_id z (st_ballots s1) = Inr rows4 \<Longrightarrow>
      bump_revision (s1\<lparr>st_ballots := rows4\<rparr>) q n = Inr (s2, r) \<Longrightarrow> store_inv s2"
  using store_inv_ensure [OF assms(1)] assms(2) store_inv_bump
    store_inv_other_tables [of s1] store_inv_new_candidate [of s1] by blast+

lemma store_inv_step: "store_tx s s' \<Longrightarrow> store_inv s \<Longrightarrow> store_inv s'"
proof (induction rule: store_tx.induct)
  case (Tx_create d e s m s')
  then show ?case by (auto simp: create_candidate_set_def and_then_Inr split: if_splits intro: store_inv_plain(1))
next
  case (Tx_register c e s m s')
  then show ?case by (auto simp: register_candidate_def and_then_Inr intro: store_inv_plain(3))
next
  case (Tx_set_state t i st e s m s')
  then show ?case
    by (auto simp: set_candidate_set_state_def and_then_Inr split: if_splits
        elim!: store_inv_plain(2) [rotated 3])
next
  case (Tx_round r e s m s')
  then show ?case
    by (auto simp: record_adjudication_round_def and_then_Inr split: if_splits intro: store_inv_plain(4))
next
  case (Tx_ballot b e s m s')
  then show ?case by (auto simp: record_adjudication_ballot_def and_then_Inr intro: store_inv_plain(5))
next
  case (Tx_conflict s i row t observed e n s')
  then have "pw_state row \<in> {''prepared'', ''ref_updated'', ''conflicted''}"
    using store_inv_states [of s i row] by (auto simp: intent_state_names_def)
  then show ?case by (rule store_inv_conflict [OF Tx_conflict.hyps(1) _ Tx_conflict.hyps(3) Tx_conflict.prems])
qed (rule store_inv_submit store_inv_prepare store_inv_mark store_inv_finalize store_inv_rollback; assumption)+

end
