(* ===== verification/Promo_Recovery.thy ===== *)
theory Promo_Recovery
  imports Promo_Invariant
begin

text \<open>
  The guarantees of the concurrency store, over every sequence of its transactions, and what recovery does
  with an intent for each commit it can observe.
\<close>

section \<open>A concrete history\<close>

text \<open>The store after a sequence of mutations, each at the revision the last one left.\<close>

definition after :: "(nat \<Rightarrow> Store \<Rightarrow> StoreError + (Mutation \<times> Store)) \<Rightarrow> nat \<Rightarrow> Store \<Rightarrow> Store" where
  "after run e s = (case run e s of Inl _ \<Rightarrow> s | Inr (_, s') \<Rightarrow> s')"

definition sample_base :: string where
  "sample_base = replicate 40 CHR ''b''"

definition sample_target :: string where
  "sample_target = replicate 40 CHR ''c''"

lemma sample_commits_differ: "sample_target \<noteq> sample_base"
  by code_simp

definition sample_set :: CandidateSetData where
  "sample_set = \<lparr>sd_id = ''cset_1'', sd_project_id = ''P'', sd_task_id = ''T'', sd_base_revision = 0, sd_base_commit = sample_base,
     sd_acceptance_digest = ''d'', sd_policy = ''{}'', sd_policy_version = 1, sd_state = ''open'', sd_created_at = ''t0''\<rparr>"

definition sample_candidate :: CandidateRow where
  "sample_candidate = \<lparr>cr_id = ''cand_2'', cr_candidate_set_id = ''cset_1'', cr_state = ''eligible'', cr_base_commit = sample_base,
     cr_result_commit = Some sample_target, cr_diff_digest = None, cr_summary = None, cr_provenance_json = ''{}'',
     cr_supersedes_candidate_id = None, cr_created_at = ''t1'', cr_updated_at = ''t1'', cr_submitted_at = None,
     cr_resource_intents = [], cr_evidence = []\<rparr>"

definition sample_intent :: PromotionData where
  "sample_intent = \<lparr>pd_id = ''I'', pd_project_id = ''P'', pd_task_id = ''T'', pd_candidate_set_id = ''cset_1'',
     pd_candidate_id = ''cand_2'', pd_expected_revision = 2, pd_expected_commit = sample_base, pd_target_commit = sample_target,
     pd_canonical_ref = ''refs/heads/main'', pd_state = ''prepared'', pd_created_at = ''t2''\<rparr>"

definition sample_store :: Store where
  "sample_store = after (register_candidate sample_candidate) 1 (after (create_candidate_set sample_set) 0 empty_store)"

definition prepared_store :: Store where
  "prepared_store = after (prepare_promotion ''t2'' sample_intent) 2 sample_store"

lemmas store_eval = ensure_revision_def bump_revision_def current_revision_def to_i64_def insert_row_def
  candidate_set_project_def candidate_project_def load_promotion_tx_def promotion_intent_def Let_def

lemma sample_created: "create_candidate_set sample_set 0 empty_store = Inr ((''cset_1'', 1),
    \<lparr>st_revisions = [(''P'', 1)],
     st_sets = [\<lparr>sr_id = ''cset_1'', sr_project_id = ''P'', sr_task_id = ''T'', sr_base_revision = 0, sr_base_commit = sample_base,
      sr_acceptance_digest = ''d'', sr_policy_json = ''{}'', sr_policy_version = 1, sr_state = ''open'',
      sr_created_at = ''t0'', sr_updated_at = ''t0''\<rparr>],
     st_candidates = [], st_rounds = [], st_ballots = [], st_promotions = [], st_events = []\<rparr>)"
  by (simp add: create_candidate_set_def sample_set_def empty_store_def store_eval)

lemma sample_registered: "register_candidate sample_candidate 1 (after (create_candidate_set sample_set) 0 empty_store) =
    Inr ((''cand_2'', 2), sample_store)"
  and sample_store_eq: "sample_store = \<lparr>st_revisions = [(''P'', 2)],
    st_sets = [\<lparr>sr_id = ''cset_1'', sr_project_id = ''P'', sr_task_id = ''T'', sr_base_revision = 0, sr_base_commit = sample_base,
      sr_acceptance_digest = ''d'', sr_policy_json = ''{}'', sr_policy_version = 1, sr_state = ''open'',
      sr_created_at = ''t0'', sr_updated_at = ''t0''\<rparr>],
    st_candidates = [sample_candidate], st_rounds = [], st_ballots = [], st_promotions = [], st_events = []\<rparr>"
  by (simp_all add: after_def sample_created sample_store_def register_candidate_def sample_candidate_def store_eval)

lemma sample_reachable: "store_tx\<^sup>*\<^sup>* empty_store sample_store"
proof -
  have "store_tx empty_store (after (create_candidate_set sample_set) 0 empty_store)"
    using Tx_create [OF sample_created] by (simp add: after_def sample_created)
  then show ?thesis using Tx_register [OF sample_registered] by simp
qed

lemma prepare_sample: "prepare_promotion ''t2'' sample_intent 2 sample_store = Inr ((''I'', 3), prepared_store)"
  and prepared_store_eq: "prepared_store = sample_store\<lparr>st_revisions := [(''P'', 3)],
    st_promotions := [promotion_row sample_intent],
    st_events := [\<lparr>pe_intent_id = ''I'', pe_project_id = ''P'', pe_from_state = None, pe_to_state = ''prepared'',
      pe_event_kind = ''prepare'', pe_details = [(''expectedCommit'', sample_base), (''targetCommit'', sample_target),
        (''canonicalRef'', ''refs/heads/main'')], pe_created_at = ''t2''\<rparr>]\<rparr>"
proof -
  have "parse_promotion sample_intent = Inr sample_intent" by code_simp
  then show "prepare_promotion ''t2'' sample_intent 2 sample_store = Inr ((''I'', 3), prepared_store)"
    "prepared_store = sample_store\<lparr>st_revisions := [(''P'', 3)],
    st_promotions := [promotion_row sample_intent],
    st_events := [\<lparr>pe_intent_id = ''I'', pe_project_id = ''P'', pe_from_state = None, pe_to_state = ''prepared'',
      pe_event_kind = ''prepare'', pe_details = [(''expectedCommit'', sample_base), (''targetCommit'', sample_target),
        (''canonicalRef'', ''refs/heads/main'')], pe_created_at = ''t2''\<rparr>]\<rparr>"
    by (simp_all add: prepared_store_def after_def sample_store_eq prepare_promotion_def sample_intent_def
        sample_candidate_def store_eval promotion_row_def insert_promotion_event_def)
qed

lemma prepared_reachable: "store_tx\<^sup>*\<^sup>* empty_store prepared_store"
  using sample_reachable Tx_prepare [OF prepare_sample] by (rule rtranclp.rtrancl_into_rtrancl)

section \<open>Every reachable store\<close>

lemma reachable_inv: "store_tx\<^sup>*\<^sup>* empty_store s \<Longrightarrow> store_inv s"
  by (induction rule: rtranclp_induct) (auto simp: store_inv_empty intro: store_inv_step)

text \<open>C34 In every store the transactions can reach, a project has at most one prepared or ref-updated intent,
  the promotion events replay, through legal transitions only, to exactly the states of the stored intents,
  and every finalized intent's candidate is promoted.\<close>

theorem promotion_store_invariant:
  assumes "store_tx\<^sup>*\<^sup>* empty_store s"
  shows "distinct (map pw_project_id (filter promotion_active (st_promotions s)))
    \<and> replay_events (st_events s) (\<lambda>_. None) = Some (intent_states s)
    \<and> (\<forall>i row. promotion_intent s i = Some row \<longrightarrow> pw_state row = ''finalized'' \<longrightarrow>
        (\<exists>c. find_key cr_id (pw_candidate_id row) (st_candidates s) = Some c \<and> cr_state c = ''promoted''))"
  using reachable_inv [OF assms]
  unfolding store_inv_def journal_ok_def active_projects_def candidates_behind_def promotion_intent_def
  by (blast dest: find_key_Some)

lemma promotion_store_invariant_witness:
  "distinct (map pw_project_id (filter promotion_active (st_promotions prepared_store)))
    \<and> replay_events (st_events prepared_store) (\<lambda>_. None) = Some (intent_states prepared_store)"
  using promotion_store_invariant [OF prepared_reachable] by blast

section \<open>What one transaction does to the intents\<close>

lemma bump_revision_ok: "c + 1 < 2 ^ 63 \<Longrightarrow>
    bump_revision s p c = Inr (s\<lparr>st_revisions := set_revision p (c + 1) (st_revisions s)\<rparr>, c + 1)"
  by (simp add: bump_revision_def to_i64_def set_revision_def)

lemma promotion_intent_event [simp]:
  "promotion_intent (insert_promotion_event t i p f g k d s) = promotion_intent s"
  "promotion_intent (s\<lparr>st_revisions := rv\<rparr>) = promotion_intent s"
  "promotion_intent (s\<lparr>st_candidates := y\<rparr>) = promotion_intent s"
  "promotion_intent (s\<lparr>st_sets := z\<rparr>) = promotion_intent s"
  "promotion_intent (s\<lparr>st_rounds := u\<rparr>) = promotion_intent s"
  "promotion_intent (s\<lparr>st_ballots := v\<rparr>) = promotion_intent s"
  by (simp_all add: promotion_intent_def insert_promotion_event_def fun_eq_iff)

lemma promotion_intent_ensure: "ensure_revision s p e = Inr (s1, a) \<Longrightarrow> promotion_intent s1 = promotion_intent s"
  by (rule ensure_tables(1))

lemma promotion_intent_bump: "bump_revision s p a = Inr (s2, r) \<Longrightarrow> promotion_intent s2 = promotion_intent s"
  using bump_revision_effect [of s p a s2 r] by simp

lemma promotion_intent_id: "promotion_intent s i = Some row \<Longrightarrow> pw_id row = i"
  by (auto simp: promotion_intent_def dest: find_key_Some)

lemma promotion_intent_updated:
  assumes "promotion_intent s i = Some row" and "\<And>r. pw_id (f r) = pw_id r"
  shows "promotion_intent (update_promotion i f s) = (promotion_intent s)(i \<mapsto> f row)"
  using assms by (auto simp: promotion_intent_update fun_eq_iff)

definition same_promotion :: "PromotionRow \<Rightarrow> PromotionRow \<Rightarrow> bool" where
  "same_promotion row row' \<longleftrightarrow> pw_id row' = pw_id row \<and> pw_project_id row' = pw_project_id row \<and>
     pw_task_id row' = pw_task_id row \<and> pw_candidate_set_id row' = pw_candidate_set_id row \<and>
     pw_candidate_id row' = pw_candidate_id row \<and> pw_expected_revision row' = pw_expected_revision row \<and>
     pw_expected_commit row' = pw_expected_commit row \<and> pw_target_commit row' = pw_target_commit row \<and>
     pw_canonical_ref row' = pw_canonical_ref row \<and> pw_created_at row' = pw_created_at row"

definition moved :: "string \<Rightarrow> Store \<Rightarrow> Store \<Rightarrow> bool" where
  "moved i s s' \<longleftrightarrow> (\<exists>row row'. promotion_intent s i = Some row \<and> same_promotion row row' \<and>
     legal_transition (Some (pw_state row)) (pw_state row') \<and> promotion_intent s' = (promotion_intent s)(i \<mapsto> row'))"

lemma moved_tx:
  assumes p: "ensure_revision s q e = Inr (s1, a)" and row: "promotion_intent s i = Some row"
    and b: "bump_revision (insert_promotion_event t j q x st k d (update_promotion i f s1)) q n = Inr (s', r)"
    and same: "\<And>r. same_promotion r (f r)" and legal: "legal_transition (Some (pw_state row)) (pw_state (f row))"
  shows "moved i s s'"
proof -
  have "promotion_intent s' = (promotion_intent s)(i \<mapsto> f row)"
    using promotion_intent_bump [OF b] promotion_intent_ensure [OF p] row
      promotion_intent_updated [of s1 i row f] same by (simp add: same_promotion_def)
  then show ?thesis unfolding moved_def using row same legal by blast
qed

lemma mark_moves:
  assumes "mark_promotion_ref_updated t i observed e s = Inr (m, s')"
  shows "s' = s \<or> moved i s s'"
proof (cases "s' = s")
  case False
  then obtain row s1 a r where row: "promotion_intent s i = Some row" and prepared: "pw_state row = ''prepared''"
    and p: "ensure_revision s (pw_project_id row) e = Inr (s1, a)"
    and b: "bump_revision (insert_promotion_event t (pw_id row) (pw_project_id row) (Some ''prepared'')
           ''ref_updated'' ''git_ref_updated'' [(''observedCommit'', observed)]
           (update_promotion (pw_id row) (set_promotion_state t ''ref_updated'') s1)) (pw_project_id row) a = Inr (s', r)"
    using assms(1) unfolding mark_promotion_ref_updated_def
    by (auto simp: and_then_Inr load_promotion_iff split: if_splits)
  have "moved i s s'"
    by (rule moved_tx [OF p row b [unfolded promotion_intent_id [OF row]]])
      (auto simp: set_promotion_state_def same_promotion_def prepared intro: legal_transition.intros)
  then show ?thesis ..
qed simp

lemma rollback_moves:
  assumes "rollback_promotion t i reason e s = Inr (m, s')"
  shows "s' = s \<or> moved i s s'"
proof (cases "s' = s")
  case False
  then obtain row s1 a r where row: "promotion_intent s i = Some row"
    and st: "pw_state row \<in> {''prepared'', ''ref_updated'', ''conflicted''}"
    and p: "ensure_revision s (pw_project_id row) e = Inr (s1, a)"
    and b: "bump_revision (insert_promotion_event t (pw_id row) (pw_project_id row) (Some (pw_state row))
           ''aborted'' ''rollback'' [(''reason'', reason)] (update_promotion (pw_id row)
             (\<lambda>row. row\<lparr>pw_state := ''aborted'', pw_updated_at := t, pw_conflict_reason := Some reason\<rparr>) s1))
           (pw_project_id row) a = Inr (s', r)"
    using assms(1) unfolding rollback_promotion_def
    by (auto simp: and_then_Inr load_promotion_iff split: if_splits)
  have "moved i s s'"
    by (rule moved_tx [OF p row b [unfolded promotion_intent_id [OF row]]])
      (use st in \<open>auto simp: same_promotion_def intro: legal_transition.intros\<close>)
  then show ?thesis ..
qed simp

lemma conflict_moves:
  assumes "record_conflict t row observed e s = Inr (n, s')" and row: "promotion_intent s i = Some row"
    and st: "pw_state row \<in> {''prepared'', ''ref_updated'', ''conflicted''}"
  shows "moved i s s'"
proof -
  obtain s1 a r where p: "ensure_revision s (pw_project_id row) e = Inr (s1, a)"
    and b: "bump_revision (insert_promotion_event t (pw_id row) (pw_project_id row)
         (Some (pw_state row)) ''conflicted'' ''recovery_conflict'' [(''observedCommit'', observed)]
         (update_promotion (pw_id row) (\<lambda>row. row\<lparr>pw_state := ''conflicted'', pw_updated_at := t,
            pw_conflict_reason := Some (''canonical ref observed at unexpected commit '' @ observed)\<rparr>) s1))
       (pw_project_id row) a = Inr (s', r)"
    using assms(1) unfolding record_conflict_def by (auto simp: and_then_Inr)
  show ?thesis
    by (rule moved_tx [OF p row b [unfolded promotion_intent_id [OF row]]])
      (use st in \<open>auto simp: same_promotion_def intro: legal_transition.intros\<close>)
qed

lemma finalize_moves:
  assumes "finalize_promotion t i e s = Inr (m, s')"
  shows "s' = s \<or> moved i s s'"
proof (cases "s' = s")
  case False
  then obtain row s1 a r where row: "promotion_intent s i = Some row" and st: "pw_state row = ''ref_updated''"
    and p: "ensure_revision s (pw_project_id row) e = Inr (s1, a)"
    and b: "bump_revision (finalize_promotion_tx t row s1) (pw_project_id row) a = Inr (s', r)"
    using assms(1) unfolding finalize_promotion_def
    by (auto simp: and_then_Inr load_promotion_iff split: if_splits)
  let ?f = "\<lambda>row. row\<lparr>pw_state := ''finalized'', pw_updated_at := t, pw_finalized_at := Some t,
    pw_conflict_reason := None\<rparr>"
  have "promotion_intent s' = (promotion_intent s)(i \<mapsto> ?f row)"
    using promotion_intent_bump [OF b] promotion_intent_ensure [OF p] row promotion_intent_id [OF row]
    by (simp add: finalize_promotion_tx_eq promotion_intent_updated)
  moreover have "same_promotion row (?f row)" by (simp add: same_promotion_def)
  moreover have "legal_transition (Some (pw_state row)) (pw_state (?f row))"
    using st by (simp add: legal_transition.intros)
  ultimately have "moved i s s'" unfolding moved_def using row by blast
  then show ?thesis ..
qed simp

text \<open>The transactions that do not move an intent leave every stored one as it is.\<close>

lemma prepare_keeps_intents:
  assumes "prepare_promotion t d e s = Inr (m, s')" and "promotion_intent s i = Some row"
  shows "promotion_intent s' i = Some row"
proof -
  obtain s1 a rows q r where p: "ensure_revision s (pd_project_id d) e = Inr (s1, a)"
    and rows: "insert_row pw_id (promotion_row d) (st_promotions s1) = Inr rows"
    and b: "bump_revision (insert_promotion_event t (pd_id d) (pd_project_id d) None ''prepared'' ''prepare''
               [(''expectedCommit'', pd_expected_commit d), (''targetCommit'', pd_target_commit d),
                (''canonicalRef'', pd_canonical_ref d)] (s1\<lparr>st_promotions := rows\<rparr>)) q a = Inr (s', r)"
    using assms(1) unfolding prepare_promotion_def
    by (auto simp: and_then_Inr split: if_splits option.splits dest!: parse_promotion_id)
  have "promotion_intent (s1\<lparr>st_promotions := rows\<rparr>) i = Some row"
    using rows assms(2) ensure_tables(1) [OF p]
    by (auto simp: insert_row_iff promotion_intent_def find_key_append fun_eq_iff)
  then show ?thesis using promotion_intent_bump [OF b] by simp
qed

lemma other_tx_keeps_intents:
  "create_candidate_set d e s = Inr (m, s') \<Longrightarrow> promotion_intent s' = promotion_intent s"
  "register_candidate c e s = Inr (m, s') \<Longrightarrow> promotion_intent s' = promotion_intent s"
  "submit_candidate t c ev e s = Inr (m, s') \<Longrightarrow> promotion_intent s' = promotion_intent s"
  "set_candidate_set_state t i st e s = Inr (m, s') \<Longrightarrow> promotion_intent s' = promotion_intent s"
  "record_adjudication_round x e s = Inr (m, s') \<Longrightarrow> promotion_intent s' = promotion_intent s"
  "record_adjudication_ballot b e s = Inr (m, s') \<Longrightarrow> promotion_intent s' = promotion_intent s"
  by (auto simp: mutation_defs split: if_splits dest!: promotion_intent_bump promotion_intent_ensure)

text \<open>C35 One transaction keeps the identity, the commits and the ref of every stored intent, and changes its
  state, if at all, along one legal transition; so a finalized or aborted intent is never touched again.\<close>

theorem promotion_intent_history:
  assumes "store_tx s s'" and "store_inv s" and "promotion_intent s i = Some row"
  shows "\<exists>row'. promotion_intent s' i = Some row' \<and> same_promotion row row' \<and>
    (row' = row \<or> legal_transition (Some (pw_state row)) (pw_state row')) \<and>
    (pw_state row \<in> {''finalized'', ''aborted''} \<longrightarrow> row' = row)"
proof -
  have refl: "same_promotion row row" by (simp add: same_promotion_def)
  have "\<exists>row'. promotion_intent s' i = Some row' \<and> same_promotion row row' \<and>
    (row' = row \<or> legal_transition (Some (pw_state row)) (pw_state row'))"
    using assms refl
  proof (induction rule: store_tx.induct)
    case (Tx_conflict s j row2 t observed e n s')
    then have "pw_state row2 \<in> {''prepared'', ''ref_updated'', ''conflicted''}"
      using store_inv_states [of s j row2] by (auto simp: intent_state_names_def)
    then have "moved j s s'" using conflict_moves Tx_conflict.hyps by blast
    then show ?case using Tx_conflict.prems by (auto simp: moved_def)
  qed (auto simp: moved_def other_tx_keeps_intents
      dest!: mark_moves finalize_moves rollback_moves dest: prepare_keeps_intents)
  then show ?thesis by (auto elim!: legal_from_finalized legal_from_aborted)
qed

lemma mark_sample: "mark_promotion_ref_updated ''t3'' ''I'' sample_target 3 prepared_store =
    Inr ((''I'', 4), after (mark_promotion_ref_updated ''t3'' ''I'' sample_target) 3 prepared_store)"
  by (simp add: after_def mark_promotion_ref_updated_def prepared_store_eq store_eval promotion_row_def
      sample_intent_def)

lemma prepared_sample_intent: "promotion_intent prepared_store ''I'' = Some (promotion_row sample_intent)"
  by (simp add: promotion_intent_def prepared_store_eq promotion_row_def sample_intent_def)

lemma promotion_intent_history_witness:
  "\<exists>row'. promotion_intent (after (mark_promotion_ref_updated ''t3'' ''I'' sample_target) 3 prepared_store) ''I'' = Some row' \<and>
    same_promotion (promotion_row sample_intent) row'"
  using promotion_intent_history [OF Tx_mark [OF mark_sample] reachable_inv [OF prepared_reachable]
      prepared_sample_intent] by blast

section \<open>Submitted candidates\<close>

lemma bump_candidates: "bump_revision s p a = Inr (s2, r) \<Longrightarrow> st_candidates s2 = st_candidates s"
  using bump_revision_effect [of s p a s2 r] by simp

lemma candidates_event [simp]:
  "st_candidates (insert_promotion_event t i p f g k d s) = st_candidates s"
  "st_candidates (update_promotion i h s) = st_candidates s"
  by (simp_all add: insert_promotion_event_def update_promotion_def)

lemma insert_row_find:
  "insert_row key r rows = Inr rows' \<Longrightarrow> find_key key i rows = Some c \<Longrightarrow> find_key key i rows' = Some c"
  by (auto simp: insert_row_iff find_key_append)

lemma submit_rows:
  assumes "submit_candidate t d ev e s = Inr (m, s')"
  shows "\<exists>d'. cr_state d' = ''submitted'' \<and> (case find_key cr_id (cr_id d') (st_candidates s) of
      Some existing \<Rightarrow> \<not> candidate_state_is_immutable (cr_state existing) \<and>
        st_candidates s' = modify_key cr_id (cr_id d') (update_candidate d') (st_candidates s)
    | None \<Rightarrow> insert_row cr_id d' (st_candidates s) = Inr (st_candidates s'))"
proof -
  define d' where "d' = d\<lparr>cr_state := ''submitted'',
    cr_submitted_at := (case cr_submitted_at d of None \<Rightarrow> Some t | Some u \<Rightarrow> Some u), cr_evidence := ev\<rparr>"
  obtain p s1 a rows r where p: "ensure_revision s p e = Inr (s1, a)"
    and rows: "(case find_key cr_id (cr_id d') (st_candidates s1) of
          Some existing \<Rightarrow>
            if candidate_state_is_immutable (cr_state existing)
            then Inl (ErrImmutable (cr_id d') (cr_state existing))
            else Inr (modify_key cr_id (cr_id d') (update_candidate d') (st_candidates s1))
        | None \<Rightarrow> insert_row cr_id d' (st_candidates s1)) = Inr rows"
    and b: "bump_revision (s1\<lparr>st_candidates := rows\<rparr>) p a = Inr (s', r)"
    using assms unfolding submit_candidate_def Let_def d'_def [symmetric] by (auto simp: and_then_Inr)
  have "cr_state d' = ''submitted''" by (simp add: d'_def)
  moreover have "st_candidates s' = rows" using bump_candidates [OF b] by simp
  ultimately show ?thesis
    using rows ensure_tables(2) [OF p] by (intro exI [of _ d']) (auto split: option.splits if_splits)
qed

lemma submit_keeps_candidates:
  assumes "submit_candidate t d ev e s = Inr (m, s')" and c: "find_key cr_id i (st_candidates s) = Some c"
    and immutable: "candidate_state_is_immutable (cr_state c)"
  shows "find_key cr_id i (st_candidates s') = Some c"
proof -
  obtain d' where d': "case find_key cr_id (cr_id d') (st_candidates s) of
      Some existing \<Rightarrow> \<not> candidate_state_is_immutable (cr_state existing) \<and>
        st_candidates s' = modify_key cr_id (cr_id d') (update_candidate d') (st_candidates s)
    | None \<Rightarrow> insert_row cr_id d' (st_candidates s) = Inr (st_candidates s')" using submit_rows [OF assms(1)] by blast
  show ?thesis
  proof (cases "find_key cr_id (cr_id d') (st_candidates s)")
    case None
    then show ?thesis using d' c by (auto dest: insert_row_find)
  next
    case (Some existing)
    then have "cr_id d' \<noteq> i" using d' c immutable by auto
    then show ?thesis using Some d' c by (simp add: find_key_modify update_candidate_def)
  qed
qed

lemma submit_immutable_fails:
  assumes "find_key cr_id i (st_candidates s) = Some c" and "candidate_state_is_immutable (cr_state c)" and "cr_id d = i"
  shows "\<exists>err. submit_candidate t d ev e s = Inl err"
proof (cases "candidate_set_project s (cr_candidate_set_id d)")
  case (Inr q)
  show ?thesis
  proof (cases "ensure_revision s q e")
    case found: (Inr r)
    obtain s1 a where r: "r = (s1, a)" by (cases r)
    have "st_candidates s1 = st_candidates s" using ensure_tables(2) found r by blast
    then show ?thesis using assms Inr found r by (simp add: submit_candidate_def Let_def)
  qed (use Inr in \<open>simp add: submit_candidate_def Let_def\<close>)
qed (simp add: submit_candidate_def Let_def)

text \<open>Finalizing an intent at the commit its ref was updated to promotes the candidate the intent names.\<close>

definition promoted_by :: "Store \<Rightarrow> Store \<Rightarrow> string \<Rightarrow> CandidateRow \<Rightarrow> bool" where
  "promoted_by s s' i c \<longleftrightarrow> (\<exists>t j e m row row'. finalize_promotion t j e s = Inr (m, s') \<and>
     promotion_intent s j = Some row \<and> pw_candidate_id row = i \<and> pw_state row = ''ref_updated'' \<and>
     promotion_intent s' j = Some row' \<and> pw_state row' = ''finalized'' \<and>
     find_key cr_id i (st_candidates s') = Some (c\<lparr>cr_state := ''promoted'', cr_updated_at := t\<rparr>))"

lemma finalize_keeps_candidates:
  assumes "finalize_promotion t j e s = Inr (m, s')" and c: "find_key cr_id i (st_candidates s) = Some c"
  shows "find_key cr_id i (st_candidates s') = Some c \<or> promoted_by s s' i c"
proof (cases "s' = s")
  case False
  then obtain row s1 a r where row: "promotion_intent s j = Some row" and st: "pw_state row = ''ref_updated''"
    and p: "ensure_revision s (pw_project_id row) e = Inr (s1, a)"
    and b: "bump_revision (finalize_promotion_tx t row s1) (pw_project_id row) a = Inr (s', r)"
    using assms(1) unfolding finalize_promotion_def by (auto simp: and_then_Inr load_promotion_iff split: if_splits)
  have intents: "promotion_intent s' = (promotion_intent s)(j \<mapsto> row\<lparr>pw_state := ''finalized'', pw_updated_at := t,
        pw_finalized_at := Some t, pw_conflict_reason := None\<rparr>)"
    using promotion_intent_bump [OF b] promotion_intent_ensure [OF p] row promotion_intent_id [OF row]
    by (simp add: finalize_promotion_tx_eq promotion_intent_updated)
  have cands: "st_candidates s' = modify_key cr_id (pw_candidate_id row)
      (\<lambda>c. c\<lparr>cr_state := ''promoted'', cr_updated_at := t\<rparr>) (st_candidates s)"
    using bump_candidates [OF b] ensure_tables(2) [OF p] by (simp add: finalize_promotion_tx_eq)
  show ?thesis
  proof (cases "pw_candidate_id row = i")
    case True
    then have "find_key cr_id i (st_candidates s') = Some (c\<lparr>cr_state := ''promoted'', cr_updated_at := t\<rparr>)"
      using c by (simp add: cands find_key_modify)
    moreover have "promotion_intent s' j = Some (row\<lparr>pw_state := ''finalized'', pw_updated_at := t,
        pw_finalized_at := Some t, pw_conflict_reason := None\<rparr>)" using intents by simp
    ultimately have "promoted_by s s' i c"
      unfolding promoted_by_def using assms(1) row st True by (intro exI conjI) (assumption | simp)+
    then show ?thesis by blast
  next
    case False
    then show ?thesis using c by (simp add: cands find_key_modify)
  qed
qed (use c in simp)

lemma other_tx_keeps_candidates:
  "create_candidate_set d e s = Inr (m, s') \<Longrightarrow> st_candidates s' = st_candidates s"
  "set_candidate_set_state t i st e s = Inr (m, s') \<Longrightarrow> st_candidates s' = st_candidates s"
  "record_adjudication_round x e s = Inr (m, s') \<Longrightarrow> st_candidates s' = st_candidates s"
  "record_adjudication_ballot b e s = Inr (m, s') \<Longrightarrow> st_candidates s' = st_candidates s"
  "prepare_promotion t pd e s = Inr (m, s') \<Longrightarrow> st_candidates s' = st_candidates s"
  "mark_promotion_ref_updated t i c e s = Inr (m, s') \<Longrightarrow> st_candidates s' = st_candidates s"
  "rollback_promotion t i c e s = Inr (m, s') \<Longrightarrow> st_candidates s' = st_candidates s"
  "record_conflict t row c e s = Inr (n, s') \<Longrightarrow> st_candidates s' = st_candidates s"
  by (auto simp: mutation_defs record_conflict_def split: if_splits option.splits
      dest!: bump_candidates ensure_tables(2))

lemma register_keeps_candidates:
  assumes "register_candidate d e s = Inr (m, s')" and "find_key cr_id i (st_candidates s) = Some c"
  shows "find_key cr_id i (st_candidates s') = Some c"
  using assms unfolding register_candidate_def
  by (auto simp: and_then_Inr dest!: bump_candidates ensure_tables(2) dest: insert_row_find)

text \<open>C36 A submitted candidate, in any of the immutable states, cannot be submitted again, and no transaction of the
  store changes its row, with one exception: finalizing a ref-updated promotion intent that names this very candidate
  sets its state to promoted and its time of update, and nothing else of it. It stays immutable.\<close>

theorem submitted_candidate_immutable:
  assumes "find_key cr_id i (st_candidates s) = Some c" and "candidate_state_is_immutable (cr_state c)"
    and "store_tx s s'"
  shows "(find_key cr_id i (st_candidates s') = Some c \<or> promoted_by s s' i c) \<and>
    (\<exists>c'. find_key cr_id i (st_candidates s') = Some c' \<and> candidate_state_is_immutable (cr_state c')) \<and>
    (\<forall>t d ev e. cr_id d = i \<longrightarrow> (\<exists>err. submit_candidate t d ev e s = Inl err))"
proof -
  have kept: "find_key cr_id i (st_candidates s') = Some c \<or> promoted_by s s' i c"
    using assms(3,1,2)
  proof (cases rule: store_tx.cases)
    case (Tx_submit t d ev e m)
    then show ?thesis using submit_keeps_candidates assms(1,2) by blast
  next
    case (Tx_register d e m)
    then show ?thesis using register_keeps_candidates assms(1) by blast
  next
    case (Tx_finalize t j e m)
    then show ?thesis using finalize_keeps_candidates assms(1) by blast
  qed (use assms(1) other_tx_keeps_candidates in auto)
  moreover have "\<exists>c'. find_key cr_id i (st_candidates s') = Some c' \<and> candidate_state_is_immutable (cr_state c')"
    using kept assms(2) by (auto simp: promoted_by_def candidate_state_is_immutable_def)
  ultimately show ?thesis using submit_immutable_fails [OF assms(1,2)] by blast
qed

lemma submitted_candidate_immutable_witness:
  "find_key cr_id ''cand_2'' (st_candidates prepared_store) = Some sample_candidate \<and>
   (\<exists>err. submit_candidate ''t9'' sample_candidate [] 2 sample_store = Inl err)"
proof -
  have c: "find_key cr_id ''cand_2'' (st_candidates sample_store) = Some sample_candidate"
    "candidate_state_is_immutable (cr_state sample_candidate)" "cr_id sample_candidate = ''cand_2''"
    by (simp_all add: sample_store_eq sample_candidate_def candidate_state_is_immutable_def)
  have "cr_state sample_candidate = ''eligible''" by (simp add: sample_candidate_def)
  moreover obtain c' where "find_key cr_id ''cand_2'' (st_candidates prepared_store) = Some c'"
    "c' = sample_candidate \<or> cr_state c' = ''promoted''"
    using submitted_candidate_immutable [OF c(1,2) Tx_prepare [OF prepare_sample]] by (auto simp: promoted_by_def)
  ultimately show ?thesis
    using submitted_candidate_immutable [OF c(1,2) Tx_prepare [OF prepare_sample]] c(3)
    by (auto simp: prepared_store_eq sample_store_eq)
qed

section \<open>Concurrent writers\<close>

lemma submit_advances:
  "submit_candidate t c ev e s = Inr ((i, r), s') \<Longrightarrow> set_project_of (cr_candidate_set_id c) s = Some p \<Longrightarrow>
    advanced p e s r s'"
  by (auto simp: mutation_defs set_project_of_def split: if_splits option.splits intro: guarded_txs)

text \<open>C14 Of two writers that saw the same revision of a project, the second fails: after a submission nothing
  at the old revision can submit, prepare, move, finalize or roll back in that project, and the submission has
  left the revisions of all other projects alone.\<close>

theorem second_writer_is_stale:
  assumes "submit_candidate t c ev e s = Inr ((i, r), s')"
    and "set_project_of (cr_candidate_set_id c) s = Some p"
  shows "current_revision s' p = e + 1 \<and> (\<forall>q. q \<noteq> p \<longrightarrow> current_revision s' q = current_revision s q)
    \<and> (set_project_of (cr_candidate_set_id c2) s' = Some p \<longrightarrow> (\<exists>err. submit_candidate t2 c2 ev2 e s' = Inl err))
    \<and> (pd_project_id d = p \<longrightarrow> (\<exists>err. prepare_promotion t2 d e s' = Inl err))
    \<and> (intent_project_of j s' = Some p \<longrightarrow> (\<exists>err. mark_promotion_ref_updated t2 j observed e s' = Inl err)
        \<and> (\<exists>err. finalize_promotion t2 j e s' = Inl err) \<and> (\<exists>err. rollback_promotion t2 j reason e s' = Inl err))"
proof -
  have rev: "current_revision s' p = e + 1" "\<forall>q. q \<noteq> p \<longrightarrow> current_revision s' q = current_revision s q"
    using submit_advances [OF assms] by (simp_all add: advanced_def)
  then have "current_revision s' p \<noteq> e" by simp
  then show ?thesis
    using rev submits.stale_fails prepares.stale_fails marks.stale_fails finalizes.stale_fails
      rollbacks.stale_fails by auto
qed

definition sample_draft :: CandidateRow where
  "sample_draft = sample_candidate\<lparr>cr_id := ''D'', cr_state := ''draft''\<rparr>"

lemma submit_sample: "submit_candidate ''t3'' sample_draft [] 2 sample_store =
    Inr ((''D'', 3), after (submit_candidate ''t3'' sample_draft []) 2 sample_store)"
  by (simp add: after_def submit_candidate_def sample_draft_def sample_store_eq store_eval sample_candidate_def)

lemma second_writer_is_stale_witness:
  "\<exists>err. prepare_promotion ''t4'' sample_intent 2 (after (submit_candidate ''t3'' sample_draft []) 2 sample_store) = Inl err"
proof -
  have "set_project_of (cr_candidate_set_id sample_draft) sample_store = Some ''P''"
    by (simp add: set_project_of_def candidate_set_project_def sample_draft_def sample_candidate_def sample_store_eq)
  from second_writer_is_stale [OF submit_sample this] show ?thesis
    by (metis (no_types) PromotionData.select_convs(2) sample_intent_def)
qed

section \<open>Recovery\<close>

lemma move_ok:
  assumes "current_revision s p = e" and "e + 1 < 2 ^ 63"
    and "\<And>rv. st_revisions (g (s\<lparr>st_revisions := rv\<rparr>)) = rv"
  obtains rv s' where "ensure_revision s p e = Inr (s\<lparr>st_revisions := rv\<rparr>, e)"
    and "bump_revision (g (s\<lparr>st_revisions := rv\<rparr>)) p e = Inr (s', e + 1)"
    and "promotion_intent s' = promotion_intent (g (s\<lparr>st_revisions := rv\<rparr>))"
proof -
  obtain rv where "ensure_revision s p e = Inr (s\<lparr>st_revisions := rv\<rparr>, e)"
    using ensure_revision_ok [OF assms(1)] by blast
  then show thesis using that bump_revision_ok [OF assms(2)] promotion_intent_bump by blast
qed

lemma mark_ok:
  assumes row: "promotion_intent s i = Some row" and e: "current_revision s (pw_project_id row) = e" "e + 1 < 2 ^ 63"
    and st: "pw_state row = ''prepared''"
  shows "\<exists>s'. mark_promotion_ref_updated t i (pw_target_commit row) e s = Inr ((i, e + 1), s') \<and>
    promotion_intent s' = (promotion_intent s)(i \<mapsto> set_promotion_state t ''ref_updated'' row)"
proof -
  let ?g = "\<lambda>s. insert_promotion_event t (pw_id row) (pw_project_id row) (Some ''prepared'')
           ''ref_updated'' ''git_ref_updated'' [(''observedCommit'', pw_target_commit row)]
           (update_promotion (pw_id row) (set_promotion_state t ''ref_updated'') s)"
  obtain rv s' where a: "ensure_revision s (pw_project_id row) e = Inr (s\<lparr>st_revisions := rv\<rparr>, e)"
    and b: "bump_revision (?g (s\<lparr>st_revisions := rv\<rparr>)) (pw_project_id row) e = Inr (s', e + 1)"
    and c: "promotion_intent s' = promotion_intent (?g (s\<lparr>st_revisions := rv\<rparr>))"
    by (rule move_ok [OF e, of ?g]) auto
  have "promotion_intent s' = (promotion_intent s)(i \<mapsto> set_promotion_state t ''ref_updated'' row)"
    using c row promotion_intent_id [OF row] promotion_intent_updated [of "s\<lparr>st_revisions := rv\<rparr>" i row]
    by (simp add: set_promotion_state_def)
  then show ?thesis
    using a b row promotion_intent_id [OF row] st
    by (simp add: mark_promotion_ref_updated_def load_promotion_tx_def promotion_intent_def)
qed

lemma finalize_ok:
  assumes row: "promotion_intent s i = Some row" and e: "current_revision s (pw_project_id row) = e" "e + 1 < 2 ^ 63"
    and st: "pw_state row = ''ref_updated''"
  shows "\<exists>s' row'. finalize_promotion t i e s = Inr ((i, e + 1), s') \<and> pw_state row' = ''finalized'' \<and>
    same_promotion row row' \<and> promotion_intent s' = (promotion_intent s)(i \<mapsto> row')"
proof -
  let ?g = "finalize_promotion_tx t row"
  let ?f = "\<lambda>row. row\<lparr>pw_state := ''finalized'', pw_updated_at := t, pw_finalized_at := Some t,
    pw_conflict_reason := None\<rparr>"
  obtain rv s' where a: "ensure_revision s (pw_project_id row) e = Inr (s\<lparr>st_revisions := rv\<rparr>, e)"
    and b: "bump_revision (?g (s\<lparr>st_revisions := rv\<rparr>)) (pw_project_id row) e = Inr (s', e + 1)"
    and c: "promotion_intent s' = promotion_intent (?g (s\<lparr>st_revisions := rv\<rparr>))"
    by (rule move_ok [OF e, of ?g]) auto
  have "promotion_intent s' = (promotion_intent s)(i \<mapsto> ?f row)"
    using c row promotion_intent_id [OF row] by (simp add: finalize_promotion_tx_eq promotion_intent_updated)
  moreover have "finalize_promotion t i e s = Inr ((i, e + 1), s')"
    using a b row promotion_intent_id [OF row] st
    by (simp add: finalize_promotion_def load_promotion_tx_def promotion_intent_def)
  moreover have "pw_state (?f row) = ''finalized'' \<and> same_promotion row (?f row)" by (simp add: same_promotion_def)
  ultimately show ?thesis by blast
qed

lemma record_conflict_ok:
  assumes row: "promotion_intent s i = Some row" and e: "current_revision s (pw_project_id row) = e" "e + 1 < 2 ^ 63"
  shows "\<exists>s' row'. record_conflict t row observed e s = Inr (e + 1, s') \<and> pw_state row' = ''conflicted'' \<and>
    same_promotion row row' \<and> promotion_intent s' = (promotion_intent s)(i \<mapsto> row')"
proof -
  let ?f = "\<lambda>row. row\<lparr>pw_state := ''conflicted'', pw_updated_at := t,
            pw_conflict_reason := Some (''canonical ref observed at unexpected commit '' @ observed)\<rparr>"
  let ?g = "\<lambda>s. insert_promotion_event t (pw_id row) (pw_project_id row)
         (Some (pw_state row)) ''conflicted'' ''recovery_conflict'' [(''observedCommit'', observed)]
         (update_promotion (pw_id row) ?f s)"
  obtain rv s' where a: "ensure_revision s (pw_project_id row) e = Inr (s\<lparr>st_revisions := rv\<rparr>, e)"
    and b: "bump_revision (?g (s\<lparr>st_revisions := rv\<rparr>)) (pw_project_id row) e = Inr (s', e + 1)"
    and c: "promotion_intent s' = promotion_intent (?g (s\<lparr>st_revisions := rv\<rparr>))"
    by (rule move_ok [OF e, of ?g]) auto
  have "promotion_intent s' = (promotion_intent s)(i \<mapsto> ?f row)"
    using c row promotion_intent_id [OF row] by (simp add: promotion_intent_updated)
  moreover have "record_conflict t row observed e s = Inr (e + 1, s')"
    using a b by (simp add: record_conflict_def)
  moreover have "pw_state (?f row) = ''conflicted'' \<and> same_promotion row (?f row)" by (simp add: same_promotion_def)
  ultimately show ?thesis by blast
qed

definition recovery_result :: "Store \<Rightarrow> string \<Rightarrow> PromotionRow \<Rightarrow> PromotionRecoveryAction \<Rightarrow> nat \<Rightarrow> string \<Rightarrow>
    (StoreError + PromotionRecovery) \<times> Store \<Rightarrow> bool" where
  "recovery_result s i row action revision state out \<longleftrightarrow> (\<exists>row' s'.
     out = (Inr \<lparr>rec_intent = row', rec_action = action, rec_revision = revision\<rparr>, s') \<and>
     pw_state row' = state \<and> same_promotion row row' \<and> promotion_intent s' = (promotion_intent s)(i \<mapsto> row') \<and>
     current_revision s' (pw_project_id row) = revision \<and> store_tx\<^sup>*\<^sup>* s s')"

lemma mark_revision:
  assumes "mark_promotion_ref_updated t i observed e s = Inr ((j, r), s')" and "promotion_intent s i = Some row"
  shows "current_revision s' (pw_project_id row) = r"
  using marks.revision_returned(1) [OF assms(1)] assms(2) by (simp add: intent_project_of_def)

lemma finalize_revision:
  assumes "finalize_promotion t i e s = Inr ((j, r), s')" and "promotion_intent s i = Some row"
  shows "current_revision s' (pw_project_id row) = r"
  using finalizes.revision_returned(1) [OF assms(1)] assms(2) by (simp add: intent_project_of_def)

lemma conflict_revision: "record_conflict t row observed e s = Inr (r, s') \<Longrightarrow> current_revision s' (pw_project_id row) = r"
  by (auto simp: record_conflict_def and_then_Inr advanced_def dest!: guarded_txs(6))

lemma recover_target_prepared:
  assumes row: "promotion_intent s i = Some row" and e: "current_revision s (pw_project_id row) = e" "e + 2 < 2 ^ 63"
    and st: "pw_state row = ''prepared''" and ne: "pw_target_commit row \<noteq> pw_expected_commit row"
  shows "recovery_result s i row Finalize (e + 2) ''finalized'' (recover_promotion t i (pw_target_commit row) e s)"
proof -
  obtain s1 where m: "mark_promotion_ref_updated t i (pw_target_commit row) e s = Inr ((i, e + 1), s1)"
    and i1: "promotion_intent s1 = (promotion_intent s)(i \<mapsto> set_promotion_state t ''ref_updated'' row)"
    using mark_ok [OF row e(1) _ st] e(2) by auto
  let ?row1 = "set_promotion_state t ''ref_updated'' row"
  have row1: "promotion_intent s1 i = Some ?row1" using i1 by simp
  have e1: "current_revision s1 (pw_project_id ?row1) = e + 1"
    using mark_revision [OF m row] by (simp add: set_promotion_state_def)
  obtain s2 row2 where f: "finalize_promotion t i (e + 1) s1 = Inr ((i, e + 1 + 1), s2)"
    and st2: "pw_state row2 = ''finalized''" and same: "same_promotion ?row1 row2"
    and i2: "promotion_intent s2 = (promotion_intent s1)(i \<mapsto> row2)"
    using finalize_ok [OF row1 e1, of t] e(2) st by (auto simp: set_promotion_state_def)
  have "recover_promotion t i (pw_target_commit row) e s =
    (Inr \<lparr>rec_intent = row2, rec_action = Finalize, rec_revision = e + 2\<rparr>, s2)"
    using row st ne m f i2 e1
    by (simp add: recover_promotion_def run_tx_def and_do_def recovered_def set_promotion_state_def)
  moreover have "same_promotion row row2" using same by (simp add: same_promotion_def set_promotion_state_def)
  moreover have "promotion_intent s2 = (promotion_intent s)(i \<mapsto> row2)" using i1 i2 by simp
  moreover have "current_revision s2 (pw_project_id row) = e + 2"
    using finalize_revision [OF f row1] by (simp add: set_promotion_state_def)
  moreover have "store_tx\<^sup>*\<^sup>* s s2" using Tx_mark [OF m] Tx_finalize [OF f] by simp
  ultimately show ?thesis unfolding recovery_result_def using st2 by blast
qed

lemma recover_target_updated:
  assumes row: "promotion_intent s i = Some row" and e: "current_revision s (pw_project_id row) = e" "e + 1 < 2 ^ 63"
    and st: "pw_state row = ''ref_updated''" and ne: "pw_target_commit row \<noteq> pw_expected_commit row"
  shows "recovery_result s i row Finalize (e + 1) ''finalized'' (recover_promotion t i (pw_target_commit row) e s)"
proof -
  obtain s2 row2 where f: "finalize_promotion t i e s = Inr ((i, e + 1), s2)"
    and st2: "pw_state row2 = ''finalized''" and same: "same_promotion row row2"
    and i2: "promotion_intent s2 = (promotion_intent s)(i \<mapsto> row2)"
    using finalize_ok [OF row e st] by blast
  have "recover_promotion t i (pw_target_commit row) e s =
    (Inr \<lparr>rec_intent = row2, rec_action = Finalize, rec_revision = e + 1\<rparr>, s2)"
    using row st ne f i2 by (simp add: recover_promotion_def run_tx_def and_do_def recovered_def)
  then show ?thesis unfolding recovery_result_def using st2 same i2 finalize_revision [OF f row] Tx_finalize [OF f] by blast
qed

lemma recover_foreign:
  assumes row: "promotion_intent s i = Some row" and e: "current_revision s (pw_project_id row) = e" "e + 1 < 2 ^ 63"
    and st: "pw_state row \<notin> {''finalized'', ''aborted''}"
    and foreign: "observed \<noteq> pw_expected_commit row" "observed \<noteq> pw_target_commit row"
  shows "recovery_result s i row Conflict (e + 1) ''conflicted'' (recover_promotion t i observed e s)"
proof -
  obtain s2 row2 where f: "record_conflict t row observed e s = Inr (e + 1, s2)"
    and st2: "pw_state row2 = ''conflicted''" and same: "same_promotion row row2"
    and i2: "promotion_intent s2 = (promotion_intent s)(i \<mapsto> row2)"
    using record_conflict_ok [OF row e] by blast
  have "recover_promotion t i observed e s =
    (Inr \<lparr>rec_intent = row2, rec_action = Conflict, rec_revision = e + 1\<rparr>, s2)"
    using row st foreign f i2 by (simp add: recover_promotion_def run_tx_def and_do_def recovered_def)
  then show ?thesis unfolding recovery_result_def
    using st2 same i2 conflict_revision [OF f] Tx_conflict [OF row st f] by blast
qed

lemma recover_conflicted:
  assumes "promotion_intent s i = Some row" and "pw_state row = ''conflicted''"
    and "pw_target_commit row \<noteq> pw_expected_commit row"
  shows "\<exists>err. recover_promotion t i (pw_target_commit row) e s = (Inl err, s)"
proof -
  obtain err where "finalize_promotion t i e s = Inl err"
    using assms by (cases "ensure_revision s (pw_project_id row) e")
      (auto simp: finalize_promotion_def load_promotion_tx_def promotion_intent_def)
  then show ?thesis using assms by (simp add: recover_promotion_def run_tx_def and_do_def)
qed

text \<open>Recovery by the commit it observes: a settled intent is left alone; at the expected commit the intent
  stays as it is and a retry is asked for; at the target commit the intent is finalized, in the one or two
  transactions it needs, unless it is conflicted; at any other commit it becomes conflicted.\<close>

theorem recovery_by_observed_commit:
  assumes "store_inv s" and "promotion_intent s i = Some row" and "current_revision s (pw_project_id row) = e"
    and "e + 2 < 2 ^ 63"
  shows "(if pw_state row \<in> {''finalized'', ''aborted''} then
      recover_promotion t i observed e s = (Inr \<lparr>rec_intent = row, rec_action = Noop, rec_revision = e\<rparr>, s)
    else if observed = pw_expected_commit row then
      recover_promotion t i observed e s = (Inr \<lparr>rec_intent = row, rec_action = Retry, rec_revision = e\<rparr>, s)
    else if observed = pw_target_commit row then
      (if pw_state row = ''conflicted'' then \<exists>err. recover_promotion t i observed e s = (Inl err, s)
       else recovery_result s i row Finalize (if pw_state row = ''prepared'' then e + 2 else e + 1) ''finalized''
         (recover_promotion t i observed e s))
    else recovery_result s i row Conflict (e + 1) ''conflicted'' (recover_promotion t i observed e s))"
proof -
  have "pw_state row \<in> intent_state_names" by (rule store_inv_states [OF assms(1,2)])
  then consider "pw_state row \<in> {''finalized'', ''aborted''}" | "pw_state row = ''prepared''"
    | "pw_state row = ''ref_updated''" | "pw_state row = ''conflicted''"
    by (auto simp: intent_state_names_def)
  then show ?thesis
  proof cases
    case 1
    then show ?thesis using assms by (simp add: recover_promotion_def)
  next
    case 2
    then show ?thesis
      using assms recover_target_prepared [OF assms(2,3,4) 2] recover_foreign [OF assms(2,3)]
      by (auto simp: recover_promotion_def)
  next
    case 3
    then show ?thesis
      using assms recover_target_updated [OF assms(2,3) _ 3] recover_foreign [OF assms(2,3)]
      by (auto simp: recover_promotion_def)
  next
    case 4
    then show ?thesis
      using assms recover_conflicted [OF assms(2) 4] recover_foreign [OF assms(2,3)]
      by (auto simp: recover_promotion_def)
  qed
qed

lemma recovery_by_observed_commit_witness:
  "recovery_result prepared_store ''I'' (promotion_row sample_intent) Finalize 5 ''finalized''
    (recover_promotion ''t4'' ''I'' sample_target 3 prepared_store)"
proof -
  have "current_revision prepared_store (pw_project_id (promotion_row sample_intent)) = 3"
    by (simp add: current_revision_def prepared_store_eq promotion_row_def sample_intent_def)
  from recovery_by_observed_commit [OF reachable_inv [OF prepared_reachable] prepared_sample_intent this,
      of "''t4''" sample_target]
  show ?thesis using sample_commits_differ by (simp add: promotion_row_def sample_intent_def)
qed

end
