(* ===== verification/Git_Refs.thy ===== *)
theory Git_Refs
  imports Tasker_Types
begin

text \<open>
  Candidate refs in Git (\<open>crates/jcode-tasker-git\<close>). The \<open>git\<close> program is a parameter: a record of
  its read-only calls, by their argument lists, and of the two calls that write, over a repository of any type.
  An \<open>update-ref --stdin\<close> transaction is the list of its update lines (ref, new oid, old oid). Git's output
  is taken to be UTF-8. Creating and removing worktrees is left out: it only touches the file system.
\<close>

section \<open>Running git\<close>

record Output =
  out_code :: "nat option"
  out_stdout :: string
  out_stderr :: string

definition out_success :: "Output \<Rightarrow> bool" where
  "out_success out \<longleftrightarrow> out_code out = Some 0"

type_synonym RefUpdate = "string \<times> string \<times> string"

record 'g Git =
  git_output :: "string list \<Rightarrow> 'g \<Rightarrow> Output option"
  git_output_at :: "string \<Rightarrow> string list \<Rightarrow> 'g \<Rightarrow> Output option"
  git_update_refs :: "RefUpdate list \<Rightarrow> 'g \<Rightarrow> Output option \<times> 'g"
  git_commit_tree :: "string \<Rightarrow> string \<Rightarrow> string \<Rightarrow> (string \<times> string) option \<Rightarrow> 'g \<Rightarrow> Output option \<times> 'g"
  git_canonicalize :: "string \<Rightarrow> 'g \<Rightarrow> string option"

datatype GitError =
    GitSpawn "string list"
  | GitStatus "string list" Output
  | GitBail string

definition run_git_raw :: "'g Git \<Rightarrow> string list \<Rightarrow> 'g \<Rightarrow> GitError + Output" where
  "run_git_raw git args g = (case git_output git args g of None \<Rightarrow> Inl (GitSpawn args) | Some out \<Rightarrow> Inr out)"

definition run_git_checked :: "'g Git \<Rightarrow> string list \<Rightarrow> 'g \<Rightarrow> GitError + Output" where
  "run_git_checked git args g = and_then (run_git_raw git args g) (\<lambda>out.
     if out_success out then Inr out else Inl (GitStatus args out))"

definition git_stdout :: "'g Git \<Rightarrow> string list \<Rightarrow> 'g \<Rightarrow> GitError + string" where
  "git_stdout git args g = and_then (run_git_checked git args g) (\<lambda>out. Inr (trim (out_stdout out)))"

definition run_git_at :: "'g Git \<Rightarrow> string \<Rightarrow> string list \<Rightarrow> 'g \<Rightarrow> GitError + string" where
  "run_git_at git path args g = (case git_output_at git path args g of
     None \<Rightarrow> Inl (GitSpawn args)
   | Some out \<Rightarrow> if out_success out then Inr (out_stdout out) else Inl (GitStatus args out))"

section \<open>Candidate refs\<close>

definition CANDIDATE_REF_PREFIX :: string where
  "CANDIDATE_REF_PREFIX = ''refs/tasker/candidates''"

definition CANDIDATE_BASE_REF_PREFIX :: string where
  "CANDIDATE_BASE_REF_PREFIX = ''refs/tasker/candidate-bases''"

text \<open>The name is \<open>ref_name\<close>, derived from the two ids by the constructor.\<close>

record CandidateRef =
  ref_set :: CandidateSetId
  ref_candidate :: CandidateId
  ref_name :: string

definition show_set :: "(Uuid \<Rightarrow> string) \<Rightarrow> Uuid \<Rightarrow> string" where
  "show_set show_uuid i = typed_id_display ''cset_'' show_uuid i"

definition show_candidate :: "(Uuid \<Rightarrow> string) \<Rightarrow> Uuid \<Rightarrow> string" where
  "show_candidate show_uuid i = typed_id_display ''cand_'' show_uuid i"

definition candidate_ref :: "(Uuid \<Rightarrow> string) \<Rightarrow> CandidateSetId \<Rightarrow> CandidateId \<Rightarrow> CandidateRef" where
  "candidate_ref show_uuid sid cand = \<lparr>ref_set = sid, ref_candidate = cand,
     ref_name = CANDIDATE_REF_PREFIX @ ''/'' @ show_set show_uuid sid @ ''/'' @ show_candidate show_uuid cand\<rparr>"

definition base_ref_name :: "(Uuid \<Rightarrow> string) \<Rightarrow> CandidateRef \<Rightarrow> string" where
  "base_ref_name show_uuid r = CANDIDATE_BASE_REF_PREFIX @ ''/'' @ show_set show_uuid (ref_set r) @ ''/'' @
     show_candidate show_uuid (ref_candidate r)"

definition candidate_ref_parse :: "(Uuid \<Rightarrow> string) \<Rightarrow> (string \<Rightarrow> Uuid option) \<Rightarrow> string \<Rightarrow> GitError + CandidateRef" where
  "candidate_ref_parse show_uuid parse_uuid value = (case strip_prefix (CANDIDATE_REF_PREFIX @ ''/'') value of
     None \<Rightarrow> Inl (GitBail (''candidate ref is outside '' @ CANDIDATE_REF_PREFIX @ '': '' @ value))
   | Some suffix \<Rightarrow> (case split_on CHR ''/'' suffix of
       [] \<Rightarrow> Inl (GitBail ''candidate ref is missing its candidate-set id'')
     | c0 # rest \<Rightarrow> (case typed_id_from_str ''cset_'' parse_uuid c0 of
         Inl _ \<Rightarrow> Inl (GitBail ''candidate ref contains an invalid candidate-set id'')
       | Inr sid \<Rightarrow> (case rest of
           [] \<Rightarrow> Inl (GitBail ''candidate ref is missing its candidate id'')
         | c1 # extra \<Rightarrow> (case typed_id_from_str ''cand_'' parse_uuid c1 of
             Inl _ \<Rightarrow> Inl (GitBail ''candidate ref contains an invalid candidate id'')
           | Inr cand \<Rightarrow>
               if extra \<noteq> [] then Inl (GitBail (''candidate ref has more than one candidate path component: '' @ value))
               else if ref_name (candidate_ref show_uuid sid cand) \<noteq> value
               then Inl (GitBail (''candidate ref is not canonical: '' @ value))
               else Inr (candidate_ref show_uuid sid cand))))))"

section \<open>Objects and refs\<close>

definition resolve_object :: "'g Git \<Rightarrow> string \<Rightarrow> string \<Rightarrow> 'g \<Rightarrow> GitError + string" where
  "resolve_object git value kind g =
     git_stdout git [''rev-parse'', ''--verify'', ''--end-of-options'', value @ ''^{'' @ kind @ ''}''] g"

definition resolve_commit :: "'g Git \<Rightarrow> string \<Rightarrow> 'g \<Rightarrow> GitError + string" where
  "resolve_commit git value g = resolve_object git value ''commit'' g"

definition zero_oid :: "'g Git \<Rightarrow> 'g \<Rightarrow> GitError + string" where
  "zero_oid git g = and_then (git_stdout git [''rev-parse'', ''--show-object-format''] g) (\<lambda>out.
     if trim out = ''sha1'' then Inr (replicate 40 CHR ''0'')
     else if trim out = ''sha256'' then Inr (replicate 64 CHR ''0'')
     else Inl (GitBail (''unsupported Git object format: '' @ trim out)))"

definition zero_like :: "string \<Rightarrow> bool" where
  "zero_like value \<longleftrightarrow> (\<forall>c \<in> set value. c = CHR ''0'')"

definition normalize_update_oid :: "'g Git \<Rightarrow> string \<Rightarrow> 'g \<Rightarrow> GitError + string" where
  "normalize_update_oid git value g =
     (if value = [] \<or> zero_like value then zero_oid git g else resolve_object git value ''object'' g)"

definition validate_ref_name :: "'g Git \<Rightarrow> string \<Rightarrow> 'g \<Rightarrow> GitError + unit" where
  "validate_ref_name git name g =
     (if \<not> starts_with name ''refs/'' then Inl (GitBail (''Git ref must be fully qualified below refs/: '' @ name))
      else and_then (git_stdout git [''check-ref-format'', name] g) (\<lambda>_. Inr ()))"

fun validate_updates :: "'g Git \<Rightarrow> RefUpdate list \<Rightarrow> 'g \<Rightarrow> GitError + unit" where
  "validate_updates git [] g = Inr ()"
| "validate_updates git ((name, new, old) # us) g =
     and_then (validate_ref_name git name g) (\<lambda>_. validate_updates git us g)"

definition update_refs_transaction :: "'g Git \<Rightarrow> RefUpdate list \<Rightarrow> 'g \<Rightarrow> (GitError + unit) \<times> 'g" where
  "update_refs_transaction git updates g =
     and_do (run_read (validate_updates git updates) g) (\<lambda>_ g.
     case git_update_refs git updates g of
       (None, g) \<Rightarrow> (Inl (GitSpawn [''update-ref'', ''--no-deref'', ''--stdin'']), g)
     | (Some out, g) \<Rightarrow> (if out_success out then Inr ()
         else Inl (GitStatus [''update-ref'', ''--no-deref'', ''--stdin''] out), g))"

definition read_ref_oid :: "'g Git \<Rightarrow> string \<Rightarrow> 'g \<Rightarrow> GitError + string option" where
  "read_ref_oid git name g =
     and_then (validate_ref_name git name g) (\<lambda>_.
     and_then (run_git_raw git [''show-ref'', ''--hash'', ''--verify'', name] g) (\<lambda>out.
     if out_success out then
       (if trim (out_stdout out) = [] then Inl (GitBail (''git show-ref returned an empty OID for '' @ name))
        else Inr (Some (trim (out_stdout out))))
     else if out_stdout out = [] then Inr None
     else Inl (GitBail (''git show-ref failed for '' @ name @ '': '' @ trim (out_stderr out)))))"

definition require_ref :: "'g Git \<Rightarrow> string \<Rightarrow> string \<Rightarrow> 'g \<Rightarrow> GitError + string" where
  "require_ref git what name g = and_then (read_ref_oid git name g) (\<lambda>oid. case oid of
     Some v \<Rightarrow> Inr v | None \<Rightarrow> Inl (GitBail (what @ '' is missing: '' @ name)))"

definition list_refs :: "'g Git \<Rightarrow> string \<Rightarrow> 'g \<Rightarrow> GitError + string list" where
  "list_refs git prefix g =
     and_then (git_stdout git [''for-each-ref'', ''--format=%(refname)'', prefix] g) (\<lambda>out.
     Inr (remdups_adj (sort (filter (\<lambda>n. n \<noteq> []) (map trim (text_lines out))))))"

section \<open>Candidate operations\<close>

record CandidateMetadata =
  cm_ref :: CandidateRef
  cm_base_oid :: string
  cm_tip_oid :: string
  cm_changed_paths :: "string list"

definition changed_paths :: "'g Git \<Rightarrow> string \<Rightarrow> string \<Rightarrow> 'g \<Rightarrow> GitError + string list" where
  "changed_paths git base tip g =
     and_then (run_git_checked git [''diff'', ''--name-only'', ''--no-renames'', ''-z'', base, tip, ''--''] g) (\<lambda>out.
     Inr (remdups_adj (sort (filter (\<lambda>p. p \<noteq> []) (split_on (CHR 0x00) (out_stdout out))))))"

definition create_candidate_ref :: "'g Git \<Rightarrow> (Uuid \<Rightarrow> string) \<Rightarrow> CandidateSetId \<Rightarrow> CandidateId \<Rightarrow> string \<Rightarrow> 'g
    \<Rightarrow> (GitError + CandidateRef) \<times> 'g" where
  "create_candidate_ref git show_uuid sid cand base g =
     (let r = candidate_ref show_uuid sid cand in
      and_do (run_read (resolve_commit git base) g) (\<lambda>base_oid g.
      and_do (run_read (zero_oid git) g) (\<lambda>zero g.
      and_do (update_refs_transaction git [(ref_name r, base_oid, zero), (base_ref_name show_uuid r, base_oid, zero)] g)
        (\<lambda>_ g. (Inr r, g)))))"

definition read_candidate_metadata :: "'g Git \<Rightarrow> (Uuid \<Rightarrow> string) \<Rightarrow> CandidateRef \<Rightarrow> 'g \<Rightarrow> GitError + CandidateMetadata" where
  "read_candidate_metadata git show_uuid r g =
     and_then (require_ref git ''candidate base ref'' (base_ref_name show_uuid r) g) (\<lambda>base.
     and_then (require_ref git ''candidate ref'' (ref_name r) g) (\<lambda>tip.
     and_then (resolve_commit git base g) (\<lambda>base_oid.
     and_then (resolve_commit git tip g) (\<lambda>tip_oid.
     and_then (changed_paths git base_oid tip_oid g) (\<lambda>paths.
     Inr \<lparr>cm_ref = r, cm_base_oid = base_oid, cm_tip_oid = tip_oid, cm_changed_paths = paths\<rparr>)))))"

definition compare_and_swap_ref :: "'g Git \<Rightarrow> string \<Rightarrow> string \<Rightarrow> string \<Rightarrow> 'g \<Rightarrow> (GitError + unit) \<times> 'g" where
  "compare_and_swap_ref git name expected_old new_oid g =
     and_do (run_read (validate_ref_name git name) g) (\<lambda>_ g.
     and_do (run_read (normalize_update_oid git expected_old) g) (\<lambda>old g.
     and_do (run_read (normalize_update_oid git new_oid) g) (\<lambda>new g.
     update_refs_transaction git [(name, new, old)] g)))"

record CommitIdentity =
  ci_name :: string
  ci_email :: string

record CandidateChange =
  cc_tree_oid :: string
  cc_message :: string
  cc_identity :: "CommitIdentity option"

definition commit_tree :: "'g Git \<Rightarrow> string \<Rightarrow> string \<Rightarrow> string \<Rightarrow> CommitIdentity option \<Rightarrow> 'g \<Rightarrow> (GitError + string) \<times> 'g" where
  "commit_tree git tree parent message identity g =
     (case git_commit_tree git tree parent message (map_option (\<lambda>i. (ci_name i, ci_email i)) identity) g of
        (None, g) \<Rightarrow> (Inl (GitSpawn [''commit-tree'']), g)
      | (Some out, g) \<Rightarrow> (if \<not> out_success out then Inl (GitStatus [''commit-tree''] out)
          else if trim (out_stdout out) = [] then Inl (GitBail ''git commit-tree returned an empty commit OID'')
          else Inr (trim (out_stdout out)), g))"

definition capture_candidate_change :: "'g Git \<Rightarrow> CandidateRef \<Rightarrow> CandidateChange \<Rightarrow> 'g \<Rightarrow> (GitError + string) \<times> 'g" where
  "capture_candidate_change git r change g =
     and_do (run_read (require_ref git ''candidate ref'' (ref_name r)) g) (\<lambda>tip g.
     and_do (run_read (resolve_commit git tip) g) (\<lambda>current_tip g.
     and_do (run_read (resolve_object git (cc_tree_oid change) ''tree'') g) (\<lambda>tree g.
     and_do (commit_tree git tree current_tip (cc_message change) (cc_identity change) g) (\<lambda>commit_oid g.
     and_do (compare_and_swap_ref git (ref_name r) current_tip commit_oid g) (\<lambda>_ g. (Inr commit_oid, g))))))"

record CleanupReport =
  cl_ref :: CandidateRef
  cl_removed_candidate_ref :: bool
  cl_removed_base_ref :: bool
  cl_candidate_ref_remaining :: bool
  cl_base_ref_remaining :: bool

definition delete_candidate_ref :: "'g Git \<Rightarrow> (Uuid \<Rightarrow> string) \<Rightarrow> CandidateRef \<Rightarrow> 'g \<Rightarrow> (GitError + CleanupReport) \<times> 'g" where
  "delete_candidate_ref git show_uuid r g =
     and_do (run_read (read_ref_oid git (ref_name r)) g) (\<lambda>cand g.
     and_do (run_read (read_ref_oid git (base_ref_name show_uuid r)) g) (\<lambda>base g.
     and_do (run_read (zero_oid git) g) (\<lambda>zero g.
     let updates = (case cand of Some oid \<Rightarrow> [(ref_name r, zero, oid)] | None \<Rightarrow> []) @
           (case base of Some oid \<Rightarrow> [(base_ref_name show_uuid r, zero, oid)] | None \<Rightarrow> []) in
     and_do (if updates = [] then (Inr (), g) else update_refs_transaction git updates g) (\<lambda>_ g.
     and_do (run_read (read_ref_oid git (ref_name r)) g) (\<lambda>cand_after g.
     and_do (run_read (read_ref_oid git (base_ref_name show_uuid r)) g) (\<lambda>base_after g.
     (if cand_after \<noteq> None \<or> base_after \<noteq> None
      then Inl (GitBail (''candidate cleanup did not remove all refs for '' @ ref_name r))
      else Inr \<lparr>cl_ref = r, cl_removed_candidate_ref = (cand \<noteq> None), cl_removed_base_ref = (base \<noteq> None),
        cl_candidate_ref_remaining = False, cl_base_ref_remaining = False\<rparr>, g)))))))"

definition list_candidate_ref_names :: "'g Git \<Rightarrow> 'g \<Rightarrow> GitError + string list" where
  "list_candidate_ref_names git g =
     and_then (list_refs git CANDIDATE_REF_PREFIX g) (\<lambda>names.
     Inr (filter (\<lambda>name. case strip_prefix (CANDIDATE_REF_PREFIX @ ''/'') name of
         None \<Rightarrow> False | Some suffix \<Rightarrow> length (split_on CHR ''/'' suffix) = 2) names))"

text \<open>Collecting into a \<open>Result\<close> stops at the first name that does not parse.\<close>

fun parse_refs :: "(Uuid \<Rightarrow> string) \<Rightarrow> (string \<Rightarrow> Uuid option) \<Rightarrow> string list \<Rightarrow> GitError + CandidateRef list" where
  "parse_refs show_uuid parse_uuid [] = Inr []"
| "parse_refs show_uuid parse_uuid (n # ns) =
     and_then (candidate_ref_parse show_uuid parse_uuid n) (\<lambda>r.
     and_then (parse_refs show_uuid parse_uuid ns) (\<lambda>rs. Inr (r # rs)))"

definition list_candidate_refs :: "'g Git \<Rightarrow> (Uuid \<Rightarrow> string) \<Rightarrow> (string \<Rightarrow> Uuid option) \<Rightarrow> 'g \<Rightarrow> GitError + CandidateRef list" where
  "list_candidate_refs git show_uuid parse_uuid g =
     and_then (list_candidate_ref_names git g) (parse_refs show_uuid parse_uuid)"

record IsolationProof =
  ip_candidate_refs :: "string list"
  ip_canonical_refs :: "string list"
  ip_overlaps :: "string list"

definition prove_isolation :: "'g Git \<Rightarrow> 'g \<Rightarrow> GitError + IsolationProof" where
  "prove_isolation git g =
     and_then (list_candidate_ref_names git g) (\<lambda>cands.
     and_then (list_refs git ''refs/heads'' g) (\<lambda>heads.
     Inr \<lparr>ip_candidate_refs = cands, ip_canonical_refs = heads, ip_overlaps = filter (\<lambda>c. c \<in> set heads) cands\<rparr>))"

definition assert_isolated :: "'g Git \<Rightarrow> 'g \<Rightarrow> GitError + IsolationProof" where
  "assert_isolated git g = and_then (prove_isolation git g) (\<lambda>pr.
     if ip_overlaps pr \<noteq> [] then Inl (GitBail ''candidate refs overlap canonical refs'') else Inr pr)"

section \<open>Finalizing a worktree\<close>

definition is_ancestor :: "'g Git \<Rightarrow> string \<Rightarrow> string \<Rightarrow> 'g \<Rightarrow> GitError + bool" where
  "is_ancestor git base tip g =
     and_then (run_git_raw git [''merge-base'', ''--is-ancestor'', base, tip] g) (\<lambda>out.
     if out_success out then Inr True
     else if out_code out = Some 1 then Inr False
     else Inl (GitStatus [''merge-base'', ''--is-ancestor''] out))"

definition canonicalize :: "'g Git \<Rightarrow> string \<Rightarrow> 'g \<Rightarrow> GitError + string" where
  "canonicalize git path g = (case git_canonicalize git path g of
     Some p \<Rightarrow> Inr p | None \<Rightarrow> Inl (GitBail (''canonicalize '' @ path)))"

fun find_worktree :: "'g Git \<Rightarrow> string \<Rightarrow> string list \<Rightarrow> 'g \<Rightarrow> GitError + string" where
  "find_worktree git root [] g = Inl (GitBail (''candidate worktree '' @ root @ '' is not registered by Git''))"
| "find_worktree git root (l # ls) g = (case strip_prefix ''worktree '' l of
     None \<Rightarrow> find_worktree git root ls g
   | Some path \<Rightarrow> and_then (canonicalize git path g) (\<lambda>p. if p = root then Inr root else find_worktree git root ls g))"

definition registered_worktree_root :: "'g Git \<Rightarrow> string \<Rightarrow> 'g \<Rightarrow> GitError + string" where
  "registered_worktree_root git root g =
     and_then (git_stdout git [''worktree'', ''list'', ''--porcelain''] g) (\<lambda>out. find_worktree git root (text_lines out) g)"

definition worktree_root :: "'g Git \<Rightarrow> string \<Rightarrow> 'g \<Rightarrow> GitError + string" where
  "worktree_root git path g =
     and_then (run_git_at git path [''rev-parse'', ''--show-toplevel''] g) (\<lambda>out. canonicalize git (trim out) g)"

definition worktree_head :: "'g Git \<Rightarrow> string \<Rightarrow> 'g \<Rightarrow> GitError + string" where
  "worktree_head git path g =
     and_then (run_git_at git path [''rev-parse'', ''--verify'', ''HEAD''] g) (\<lambda>out. Inr (trim out))"

definition worktree_status :: "'g Git \<Rightarrow> string \<Rightarrow> 'g \<Rightarrow> GitError + string" where
  "worktree_status git path g =
     run_git_at git path [''status'', ''--porcelain=v1'', ''--untracked-files=all''] g"

definition ensure_worktree_clean :: "'g Git \<Rightarrow> string \<Rightarrow> 'g \<Rightarrow> GitError + unit" where
  "ensure_worktree_clean git path g = and_then (worktree_status git path g) (\<lambda>status.
     if trim status = [] then Inr ()
     else Inl (GitBail (''candidate worktree '' @ path @ '' has uncommitted changes: '' @ trim status)))"

definition check_worktree :: "'g Git \<Rightarrow> string \<Rightarrow> 'g \<Rightarrow> GitError + unit" where
  "check_worktree git path g =
     and_then (canonicalize git path g) (\<lambda>expected_root.
     and_then (registered_worktree_root git expected_root g) (\<lambda>registered_root.
     if registered_root \<noteq> expected_root
     then Inl (GitBail (''candidate worktree '' @ expected_root @ '' is not the registered worktree''))
     else and_then (worktree_root git path g) (\<lambda>root.
       if root \<noteq> expected_root
       then Inl (GitBail (''candidate worktree resolved to '' @ root @ '', expected '' @ expected_root))
       else Inr ())))"

definition read_worktree_head :: "'g Git \<Rightarrow> string \<Rightarrow> 'g \<Rightarrow> GitError + string" where
  "read_worktree_head git path g =
     and_then (canonicalize git path g) (\<lambda>expected_root.
     and_then (registered_worktree_root git expected_root g) (\<lambda>_.
     and_then (worktree_root git path g) (\<lambda>root.
     if root \<noteq> expected_root
     then Inl (GitBail (''candidate worktree resolved to '' @ root @ '', expected '' @ expected_root))
     else worktree_head git path g)))"

definition finalize_candidate_worktree :: "'g Git \<Rightarrow> (Uuid \<Rightarrow> string) \<Rightarrow> CandidateRef \<Rightarrow> string \<Rightarrow> 'g
    \<Rightarrow> (GitError + CandidateMetadata) \<times> 'g" where
  "finalize_candidate_worktree git show_uuid r path g =
     and_do (run_read (check_worktree git path) g) (\<lambda>_ g.
     and_do (run_read (ensure_worktree_clean git path) g) (\<lambda>_ g.
     and_do (run_read (worktree_head git path) g) (\<lambda>head g.
     and_do (run_read (require_ref git ''candidate ref'' (ref_name r)) g) (\<lambda>tip g.
     and_do (run_read (resolve_commit git tip) g) (\<lambda>current_tip g.
     and_do (run_read (resolve_commit git head) g) (\<lambda>worktree_tip g.
     and_do (run_read (require_ref git ''candidate base ref'' (base_ref_name show_uuid r)) g) (\<lambda>base g.
     and_do (run_read (resolve_commit git base) g) (\<lambda>base_oid g.
     and_do (run_read (is_ancestor git base_oid worktree_tip) g) (\<lambda>based g.
     if \<not> based
     then (Inl (GitBail (''candidate worktree tip '' @ worktree_tip @ '' is not based on reserved base '' @ base_oid)), g)
     else
       and_do (if current_tip \<noteq> worktree_tip then compare_and_swap_ref git (ref_name r) current_tip worktree_tip g
               else (Inr (), g)) (\<lambda>_ g.
       and_do (run_read (read_candidate_metadata git show_uuid r) g) (\<lambda>metadata g.
       and_do (run_read (is_ancestor git (cm_base_oid metadata) (cm_tip_oid metadata)) g) (\<lambda>based g.
       (if \<not> based
        then Inl (GitBail (''candidate tip '' @ cm_tip_oid metadata @ '' is not based on reserved base '' @ cm_base_oid metadata))
        else Inr metadata, g)))))))))))))"

end
