(* ===== verification/Git_Laws.thy ===== *)
theory Git_Laws
  imports Git_Refs
begin

text \<open>
  What the candidate adapter relies on of \<open>git\<close>, as one predicate over the parameter, and what follows for its
  operations: a compare-and-swap is atomic, candidate operations stay inside their two ref namespaces, and
  candidate refs parse back to their identities. A small repository satisfies the laws: a list of refs over
  commits, each with a tree of its own, and trees.
\<close>

section \<open>Laws of git\<close>

definition is_full_oid :: "nat \<Rightarrow> string \<Rightarrow> bool" where
  "is_full_oid hl v \<longleftrightarrow> length v = hl \<and> (\<forall>c \<in> set v. is_ascii_digit c \<or> c \<in> set ''abcdef'') \<and> \<not> zero_like v"

text \<open>A word of a command line: what \<open>update-ref --stdin\<close> reads up to the next blank.\<close>

definition has_blank :: "string \<Rightarrow> bool" where
  "has_blank t \<longleftrightarrow> (\<exists>c \<in> set t. c \<in> {CHR 0x00, CHR 0x09, CHR 0x0A, CHR 0x0D, CHR 0x20})"

definition git_token :: "string \<Rightarrow> bool" where
  "git_token t \<longleftrightarrow> t \<noteq> [] \<and> \<not> has_blank t"

text \<open>A ref stores an oid, or, if it is symbolic, the name of another ref.\<close>

definition symbolic :: "string \<Rightarrow> bool" where
  "symbolic v \<longleftrightarrow> starts_with v ''ref:''"

definition reads_as :: "(string \<rightharpoonup> string) \<Rightarrow> string \<Rightarrow> string option \<Rightarrow> bool" where
  "reads_as m n x \<longleftrightarrow> m n = x \<or> (\<exists>v. m n = Some v \<and> symbolic v)"

text \<open>
  \<open>refs g\<close> are the stored refs of the repository, \<open>hl\<close> is the length of its oids in hexadecimal (40 for SHA-1,
  64 for SHA-256). \<open>show-ref --verify\<close> that succeeds prints the full oid the ref stores, or the one a
  symbolic ref leads to; one that exits silently with 1 has found nothing.
\<close>

definition show_ref_laws :: "nat \<Rightarrow> 'g Git \<Rightarrow> ('g \<Rightarrow> string \<rightharpoonup> string) \<Rightarrow> bool" where
  "show_ref_laws hl git refs \<longleftrightarrow> (\<forall>n g out. starts_with n ''refs/'' \<longrightarrow>
     git_output git [''show-ref'', ''--hash'', ''--verify'', n] g = Some out \<longrightarrow>
     (out_success out \<longrightarrow> is_full_oid hl (trim (out_stdout out)) \<and> reads_as (refs g) n (Some (trim (out_stdout out)))) \<and>
     (out_code out = Some 1 \<longrightarrow> out_stdout out = [] \<longrightarrow> out_stderr out = [] \<longrightarrow> reads_as (refs g) n None))"

text \<open>
  An \<open>update-ref\<close> transaction, whatever its outcome, writes no ref but the ones its lines name, when each line is
  three words and names a ref below \<open>refs/\<close>. A single update from one full oid to another is made or not made: if
  it is made, the ref read as the old oid and now stores the new one; if it is not, the call has not succeeded.
  No hook writes a ref, nobody else does meanwhile, and names that differ are different refs.
\<close>

definition update_ref_laws :: "nat \<Rightarrow> 'g Git \<Rightarrow> ('g \<Rightarrow> string \<rightharpoonup> string) \<Rightarrow> bool" where
  "update_ref_laws hl git refs \<longleftrightarrow>
     (\<forall>us g r g' m. git_update_refs git us g = (r, g') \<longrightarrow>
        (\<forall>(n, new, old) \<in> set us. starts_with n ''refs/'' \<and> git_token n \<and> git_token new \<and> git_token old) \<longrightarrow>
        m \<notin> fst ` set us \<longrightarrow> refs g' m = refs g m) \<and>
     (\<forall>n new old g r g'. git_update_refs git [(n, new, old)] g = (r, g') \<longrightarrow>
        starts_with n ''refs/'' \<longrightarrow> git_token n \<longrightarrow> is_full_oid hl new \<longrightarrow> is_full_oid hl old \<longrightarrow>
        (refs g' = refs g \<and> (\<forall>out. r = Some out \<longrightarrow> \<not> out_success out)) \<or>
        (reads_as (refs g) n (Some old) \<and> refs g' = (refs g)(n \<mapsto> new)))"

text \<open>
  \<open>rev-parse --verify\<close> that succeeds prints one word. Of a full oid it prints a full oid, that of the object it is
  peeled to (\<open>^{tree}\<close> of a commit is its tree); \<open>^{object}\<close> leaves a full oid as it is.
\<close>

definition rev_parse_laws :: "nat \<Rightarrow> 'g Git \<Rightarrow> bool" where
  "rev_parse_laws hl git \<longleftrightarrow> (\<forall>v k g out.
     git_output git [''rev-parse'', ''--verify'', ''--end-of-options'', v @ ''^{'' @ k @ ''}''] g = Some out \<longrightarrow>
     out_success out \<longrightarrow>
     git_token (trim (out_stdout out)) \<and>
     (is_full_oid hl v \<longrightarrow> is_full_oid hl (trim (out_stdout out)) \<and>
        (k = ''object'' \<longrightarrow> trim (out_stdout out) = v)))"

definition git_laws :: "nat \<Rightarrow> 'g Git \<Rightarrow> ('g \<Rightarrow> string \<rightharpoonup> string) \<Rightarrow> bool" where
  "git_laws hl git refs \<longleftrightarrow> show_ref_laws hl git refs \<and> update_ref_laws hl git refs \<and> rev_parse_laws hl git \<and>
     (\<forall>n g out. git_output git [''check-ref-format'', n] g = Some out \<longrightarrow> out_success out \<longrightarrow>
        starts_with n ''refs/'' \<longrightarrow> \<not> has_blank n) \<and>
     (\<forall>t p m i g r g'. git_commit_tree git t p m i g = (r, g') \<longrightarrow> refs g' = refs g)"

lemma hex_plain:
  "is_ascii_digit c \<or> c \<in> set ''abcdef'' \<Longrightarrow>
    c \<notin> {CHR 0x00, CHR 0x09, CHR 0x0A, CHR 0x0D, CHR 0x20} \<and> c \<noteq> CHR ''r'' \<and> c \<noteq> CHR ''^''"
  by (auto simp: is_ascii_digit_def)

lemma full_token: "is_full_oid hl v \<Longrightarrow> git_token v"
  using hex_plain by (fastforce simp: is_full_oid_def git_token_def has_blank_def zero_like_def)

lemma full_direct: "is_full_oid hl v \<Longrightarrow> \<not> symbolic v"
  using hex_plain by (fastforce simp: is_full_oid_def symbolic_def starts_with_iff)

lemma zero_token: "zero_oid git g = Inr z \<Longrightarrow> git_token z"
  by (auto simp: zero_oid_def and_then_Inr git_token_def has_blank_def split: if_splits)

lemma reads_direct: "reads_as m n x \<Longrightarrow> m n = Some v \<Longrightarrow> \<not> symbolic v \<Longrightarrow> x = Some v"
  by (auto simp: reads_as_def)

lemma name_plain:
  assumes "git_laws hl git refs" and "validate_ref_name git n g = Inr u"
  shows "starts_with n ''refs/'' \<and> git_token n"
proof -
  obtain out where out: "git_output git [''check-ref-format'', n] g = Some out" "out_success out"
    and n: "starts_with n ''refs/''"
    using assms(2) by (auto simp: validate_ref_name_def git_stdout_def run_git_checked_def run_git_raw_def and_then_Inr
        split: option.splits if_splits)
  have "\<not> has_blank n" using assms(1) out n unfolding git_laws_def by blast
  then show ?thesis using n by (auto simp: git_token_def starts_with_iff)
qed

lemma git_show:
  assumes "git_laws hl git refs" and "read_ref_oid git n g = Inr (Some v)"
  shows "is_full_oid hl v" and "reads_as (refs g) n (Some v)"
proof -
  obtain u out where "validate_ref_name git n g = Inr u"
    and "git_output git [''show-ref'', ''--hash'', ''--verify'', n] g = Some out" "out_success out" "v = trim (out_stdout out)"
    using assms(2) by (auto simp: read_ref_oid_def run_git_raw_def and_then_Inr split: option.splits if_splits)
  then show "is_full_oid hl v" "reads_as (refs g) n (Some v)"
    using assms(1) name_plain [OF assms(1)] unfolding git_laws_def show_ref_laws_def by blast+
qed

lemma validated_names:
  "git_laws hl git refs \<Longrightarrow> validate_updates git us g = Inr u \<Longrightarrow>
    \<forall>(n, new, old) \<in> set us. starts_with n ''refs/'' \<and> git_token n"
  by (induction us) (auto simp: and_then_Inr dest: name_plain)

lemma transaction_cases:
  assumes "update_refs_transaction git us g = (r, g')"
  obtains e where "r = Inl e" "g' = g"
  | u x where "validate_updates git us g = Inr u" "git_update_refs git us g = (x, g')"
      "r = Inr () \<longrightarrow> (\<exists>out. x = Some out \<and> out_success out)"
proof (cases "validate_updates git us g")
  case (Inl e)
  then show ?thesis using assms that(1) [of e] by (auto simp: update_refs_transaction_def and_do_read)
next
  case (Inr u)
  obtain x g1 where "git_update_refs git us g = (x, g1)" by fastforce
  then show ?thesis
    using assms Inr that(2) by (auto simp: update_refs_transaction_def and_do_read split: option.splits if_splits)
qed

lemma transaction_outside:
  assumes "git_laws hl git refs" and "update_refs_transaction git us g = (r, g')" and "m \<notin> fst ` set us"
    and "\<forall>(n, new, old) \<in> set us. git_token new \<and> git_token old"
  shows "refs g' m = refs g m"
  using assms(2)
proof (cases rule: transaction_cases)
  case (2 u x)
  have "\<forall>(n, new, old) \<in> set us. starts_with n ''refs/'' \<and> git_token n \<and> git_token new \<and> git_token old"
    using validated_names [OF assms(1) 2(1)] assms(4) by fast
  then show ?thesis using assms(1,3) 2(2) unfolding git_laws_def update_ref_laws_def by blast
qed simp

lemma update_single:
  assumes "update_ref_laws hl git refs" and "git_update_refs git [(n, new, old)] g = (r, g')"
    and "starts_with n ''refs/''" and "git_token n" and "is_full_oid hl new" and "is_full_oid hl old"
  shows "(refs g' = refs g \<and> (\<forall>out. r = Some out \<longrightarrow> \<not> out_success out)) \<or>
    (reads_as (refs g) n (Some old) \<and> refs g' = (refs g)(n \<mapsto> new))"
  by (rule assms(1) [unfolded update_ref_laws_def, THEN conjunct2, rule_format, OF assms(2-6)])

lemma transaction_single:
  assumes "git_laws hl git refs" and "update_refs_transaction git [(n, new, old)] g = (r, g')"
    and "is_full_oid hl new" and "is_full_oid hl old"
  shows "(refs g' = refs g \<and> r \<noteq> Inr ()) \<or> (reads_as (refs g) n (Some old) \<and> refs g' = (refs g)(n \<mapsto> new))"
  using assms(2)
proof (cases rule: transaction_cases)
  case (2 u x)
  have name: "starts_with n ''refs/''" "git_token n" using validated_names [OF assms(1) 2(1)] by simp_all
  have "(refs g' = refs g \<and> (\<forall>out. x = Some out \<longrightarrow> \<not> out_success out)) \<or>
      (reads_as (refs g) n (Some old) \<and> refs g' = (refs g)(n \<mapsto> new))"
    by (rule update_single [OF _ 2(2) name assms(3,4)]) (use assms(1) in \<open>simp add: git_laws_def\<close>)
  then show ?thesis using 2(3) by blast
qed simp

lemma git_committed:
  assumes "git_laws hl git refs" and "commit_tree git t p m i g = (r, g')"
  shows "refs g' = refs g"
proof -
  obtain x g1 where x: "git_commit_tree git t p m (map_option (\<lambda>i. (ci_name i, ci_email i)) i) g = (x, g1)"
    by fastforce
  then have "refs g1 = refs g" using assms(1) unfolding git_laws_def by blast
  then show ?thesis using assms(2) x by (simp add: commit_tree_def split: option.splits)
qed

lemma git_resolved:
  assumes "git_laws hl git refs" and "resolve_object git v k g = Inr oid"
  shows "git_token oid" and "is_full_oid hl v \<Longrightarrow> is_full_oid hl oid"
    and "is_full_oid hl v \<Longrightarrow> k = ''object'' \<Longrightarrow> oid = v"
proof -
  obtain out where "git_output git [''rev-parse'', ''--verify'', ''--end-of-options'', v @ ''^{'' @ k @ ''}''] g = Some out"
    and "out_success out" and oid: "oid = trim (out_stdout out)"
    using assms(2) by (auto simp: resolve_object_def git_stdout_def run_git_checked_def run_git_raw_def and_then_Inr
        split: option.splits if_splits)
  then have "git_token (trim (out_stdout out)) \<and> (is_full_oid hl v \<longrightarrow> is_full_oid hl (trim (out_stdout out)) \<and>
        (k = ''object'' \<longrightarrow> trim (out_stdout out) = v))"
    using assms(1) unfolding git_laws_def rev_parse_laws_def by blast
  then show "git_token oid" "is_full_oid hl v \<Longrightarrow> is_full_oid hl oid"
    "is_full_oid hl v \<Longrightarrow> k = ''object'' \<Longrightarrow> oid = v" by (simp_all add: oid)
qed

section \<open>Compare and swap\<close>

lemma normalize_token: "git_laws hl git refs \<Longrightarrow> normalize_update_oid git v g = Inr w \<Longrightarrow> git_token w"
  using git_resolved(1) zero_token by (fastforce simp: normalize_update_oid_def split: if_splits)

lemma normalize_full:
  assumes "git_laws hl git refs" and "is_full_oid hl v" and "normalize_update_oid git v g = Inr w"
  shows "w = v"
proof -
  have "v \<noteq> []" and "\<not> zero_like v" using assms(2) by (auto simp: is_full_oid_def zero_like_def)
  then show ?thesis
    using assms git_resolved(3) [OF assms(1)] by (simp add: normalize_update_oid_def)
qed

lemma cas_cases:
  assumes "compare_and_swap_ref git n old new_oid g = (r, g')"
  obtains e where "r = Inl e" "g' = g"
  | x y where "normalize_update_oid git old g = Inr x" "normalize_update_oid git new_oid g = Inr y"
      "update_refs_transaction git [(n, y, x)] g = (r, g')"
  using assms unfolding compare_and_swap_ref_def and_do_read by (cases r) (fastforce split: sum.splits)+

lemma cas_outside:
  assumes "git_laws hl git refs" and "compare_and_swap_ref git m old new_oid g = (r, g')" and "n \<noteq> m"
  shows "refs g' n = refs g n"
  using assms(2)
proof (cases rule: cas_cases)
  case (2 x y)
  show ?thesis
    by (rule transaction_outside [OF assms(1) 2(3)])
      (use assms(3) normalize_token [OF assms(1) 2(1)] normalize_token [OF assms(1) 2(2)] in auto)
qed simp

lemma cas_full:
  assumes "git_laws hl git refs" and "is_full_oid hl old" and "is_full_oid hl new_oid"
    and "compare_and_swap_ref git n old new_oid g = (r, g')"
  shows "(refs g' = refs g \<and> r \<noteq> Inr ()) \<or> (reads_as (refs g) n (Some old) \<and> refs g' = (refs g)(n \<mapsto> new_oid))"
  using assms(4)
proof (cases rule: cas_cases)
  case (2 x y)
  have "x = old" "y = new_oid"
    using normalize_full [OF assms(1,2) 2(1)] normalize_full [OF assms(1,3) 2(2)] by simp_all
  then show ?thesis using transaction_single [OF assms(1) 2(3)] assms(2,3) by simp
qed simp

section \<open>The candidate namespaces\<close>

definition outside_candidates :: "string \<Rightarrow> bool" where
  "outside_candidates n \<longleftrightarrow> \<not> starts_with n (CANDIDATE_REF_PREFIX @ ''/'') \<and>
     \<not> starts_with n (CANDIDATE_BASE_REF_PREFIX @ ''/'')"

lemma candidate_names_inside:
  "\<not> outside_candidates (ref_name (candidate_ref show_uuid s c))"
  "\<not> outside_candidates (base_ref_name show_uuid r)"
  by (auto simp: outside_candidates_def candidate_ref_def base_ref_name_def starts_with_iff)

section \<open>A repository\<close>

text \<open>
  A SHA-1 repository as the list of its refs. Its commits are the oids that begin with a letter, its trees those that
  begin with 1, and other oids are blobs. The tree of a commit has its oid but for the first digit; committing a tree
  gives the commit with first digit \<open>c\<close>. A symbolic ref leads one step further. No worktrees, and no two
  commits differ in a path.
\<close>

definition out_ok :: "string \<Rightarrow> Output option" where
  "out_ok text = Some \<lparr>out_code = Some 0, out_stdout = text, out_stderr = []\<rparr>"

definition out_fail :: "Output option" where
  "out_fail = Some \<lparr>out_code = Some 128, out_stdout = [], out_stderr = ''fatal''\<rparr>"

definition oid_out :: "string option \<Rightarrow> Output option" where
  "oid_out x = (case x of Some v \<Rightarrow> if is_full_oid 40 v then out_ok v else out_fail | None \<Rightarrow> out_fail)"

definition ref_oid :: "(string \<times> string) list \<Rightarrow> string \<Rightarrow> string option" where
  "ref_oid g n = (case map_of g n of
     Some v \<Rightarrow> if symbolic v then map_of g (drop 5 v) else Some v
   | None \<Rightarrow> None)"

definition is_commit :: "string \<Rightarrow> bool" where
  "is_commit v \<longleftrightarrow> v \<noteq> [] \<and> hd v \<in> set ''abcdef''"

definition is_tree :: "string \<Rightarrow> bool" where
  "is_tree v \<longleftrightarrow> v \<noteq> [] \<and> hd v = CHR ''1''"

definition peel :: "string \<Rightarrow> string \<Rightarrow> string option" where
  "peel k v =
     (if k = ''^{object}'' then Some v
      else if k = ''^{commit}'' then (if is_commit v then Some v else None)
      else if k = ''^{tree}'' then
        (if is_commit v then Some (CHR ''1'' # tl v) else if is_tree v then Some v else None)
      else None)"

definition rev_parse :: "(string \<times> string) list \<Rightarrow> string \<Rightarrow> string option" where
  "rev_parse g arg =
     (let v = takeWhile (\<lambda>c. c \<noteq> CHR ''^'') arg; k = dropWhile (\<lambda>c. c \<noteq> CHR ''^'') arg in
      Option.bind (if is_full_oid 40 v then Some v else ref_oid g v) (peel k))"

definition list_git_output :: "string list \<Rightarrow> (string \<times> string) list \<Rightarrow> Output option" where
  "list_git_output args g =
     (if take 3 args = [''show-ref'', ''--hash'', ''--verify''] then oid_out (ref_oid g (last args))
      else if take 3 args = [''rev-parse'', ''--verify'', ''--end-of-options''] then oid_out (rev_parse g (last args))
      else if args = [''rev-parse'', ''--show-object-format''] then out_ok ''sha1''
      else if take 1 args = [''check-ref-format''] then (if git_token (last args) then out_ok [] else out_fail)
      else if take 1 args = [''for-each-ref''] then
        out_ok (join [CHR 0x0A] (filter (\<lambda>n. starts_with n (last args @ ''/'')) (map fst g)))
      else if take 1 args = [''diff''] then out_ok []
      else out_fail)"

definition writable :: "string \<Rightarrow> bool" where
  "writable v \<longleftrightarrow> is_full_oid 40 v \<or> v = replicate 40 CHR ''0''"

definition update_ok :: "RefUpdate \<Rightarrow> (string \<times> string) list \<Rightarrow> bool" where
  "update_ok u g = (case u of (n, new, old) \<Rightarrow> writable new \<and> writable old \<and>
     (if zero_like old then map_of g n = None else ref_oid g n = Some old))"

fun write_refs :: "RefUpdate list \<Rightarrow> (string \<times> string) list \<Rightarrow> (string \<times> string) list" where
  "write_refs [] g = g"
| "write_refs ((n, new, old) # us) g =
     write_refs us (if zero_like new then AList.delete n g else AList.update n new g)"

definition list_git :: "(string \<times> string) list Git" where
  "list_git = \<lparr>git_output = list_git_output,
     git_output_at = (\<lambda>path args g. out_fail),
     git_update_refs = (\<lambda>us g. if distinct (map fst us) \<and> (\<forall>u \<in> set us. update_ok u g)
       then (out_ok [], write_refs us g) else (out_fail, g)),
     git_commit_tree = (\<lambda>t p m i g. (if is_tree t then oid_out (Some (CHR ''c'' # tl t)) else out_fail, g)),
     git_canonicalize = (\<lambda>path g. None)\<rparr>"

lemma strip_any_hex: "is_ascii_digit c \<or> c \<in> set ''abcdef'' \<Longrightarrow> p \<in> set ws_chars \<Longrightarrow> hd p \<noteq> c \<and> last p \<noteq> c"
  by (auto simp: ws_chars_def is_ascii_digit_def)

lemma trim_full: "is_full_oid hl v \<Longrightarrow> trim v = v"
proof -
  assume v: "is_full_oid hl v"
  then have hex: "\<forall>c \<in> set v. is_ascii_digit c \<or> c \<in> set ''abcdef''" and ne: "v \<noteq> []"
    by (auto simp: is_full_oid_def zero_like_def)
  have blank: "p \<in> set ws_chars \<Longrightarrow> p \<noteq> []" for p by (auto simp: ws_chars_def)
  have hd: "hd v \<in> set v" and last: "hd (rev v) \<in> set v" using ne by (simp_all add: hd_rev)
  have "strip_any ws_chars v = None"
    using strip_any_hex [OF hex [rule_format, OF hd]] blank by (intro strip_any_None [OF ne]) blast
  then have start: "trim_start v = v" by (simp add: trim_start_def trim_pats.simps)
  have "strip_any (map rev ws_chars) (rev v) = None"
    using strip_any_hex [OF hex [rule_format, OF last]] blank ne
    by (intro strip_any_None) (auto simp: hd_rev)
  then show "trim v = v" by (simp add: trim_def start trim_end_def trim_end_pats_def trim_pats.simps)
qed

lemma oid_out_success:
  "oid_out x = Some out \<Longrightarrow> out_success out \<Longrightarrow> \<exists>v. x = Some v \<and> trim (out_stdout out) = v \<and> is_full_oid 40 v"
  by (auto simp: oid_out_def out_ok_def out_fail_def out_success_def trim_full split: option.splits if_splits)

lemma write_refs_outside: "m \<notin> fst ` set us \<Longrightarrow> map_of (write_refs us g) m = map_of g m"
  by (induction us g rule: write_refs.induct) (auto simp: update_conv' delete_conv')

lemma takeWhile_caret:
  assumes "CHR ''^'' \<notin> set v"
  shows "takeWhile (\<lambda>c. c \<noteq> CHR ''^'') (v @ CHR ''^'' # k) = v"
    and "dropWhile (\<lambda>c. c \<noteq> CHR ''^'') (v @ CHR ''^'' # k) = CHR ''^'' # k"
  using assms by (induction v) auto

lemma rev_parse_full:
  assumes "is_full_oid 40 v"
  shows "rev_parse g (v @ ''^{'' @ k @ ''}'') = peel (''^{'' @ k @ ''}'') v"
proof -
  have "CHR ''^'' \<notin> set v" using assms hex_plain by (fastforce simp: is_full_oid_def)
  from takeWhile_caret [OF this, of "CHR ''{'' # k @ ''}''"] show ?thesis
    using assms by (simp add: rev_parse_def Let_def)
qed

lemma list_git_show: "show_ref_laws 40 list_git map_of"
proof -
  have stored: "reads_as (map_of g) n (ref_oid g n)" for g :: "(string \<times> string) list" and n
    by (auto simp: reads_as_def ref_oid_def split: option.splits)
  have loud: "oid_out x = Some out \<Longrightarrow> out_code out \<noteq> Some 1" for x out
    by (auto simp: oid_out_def out_ok_def out_fail_def split: option.splits if_splits)
  have call: "git_output list_git [''show-ref'', ''--hash'', ''--verify'', n] g = oid_out (ref_oid g n)" for n g
    by (simp add: list_git_def list_git_output_def)
  have found: "is_full_oid 40 (trim (out_stdout out)) \<and> reads_as (map_of g) n (Some (trim (out_stdout out)))"
    if "oid_out (ref_oid g n) = Some out" "out_success out" for g n out
    using oid_out_success [OF that] stored [of g n] by auto
  show ?thesis
    unfolding show_ref_laws_def call
    by (intro allI impI conjI) (use found loud in \<open>blast+\<close>)
qed

lemma list_git_update: "update_ref_laws 40 list_git map_of"
proof -
  have outside: "map_of g' m = map_of g m"
    if "git_update_refs list_git us g = (r, g')" "m \<notin> fst ` set us" for us g r g' m
    using that by (auto simp: list_git_def write_refs_outside split: if_splits)
  have single: "(map_of g' = map_of g \<and> (\<forall>out. r = Some out \<longrightarrow> \<not> out_success out)) \<or>
      (reads_as (map_of g) n (Some old) \<and> map_of g' = (map_of g)(n \<mapsto> new))"
    if run: "git_update_refs list_git [(n, new, old)] g = (r, g')" and full: "is_full_oid 40 new" "is_full_oid 40 old"
    for n new old g r g'
  proof (cases "update_ok (n, new, old) g")
    case True
    have "\<not> zero_like new" "\<not> zero_like old" using full by (simp_all add: is_full_oid_def)
    then have "ref_oid g n = Some old" "g' = AList.update n new g" using True run by (simp_all add: update_ok_def list_git_def)
    then show ?thesis by (auto simp: reads_as_def ref_oid_def update_conv' split: option.splits if_splits)
  next
    case False
    then show ?thesis using run by (auto simp: list_git_def out_fail_def out_success_def)
  qed
  show ?thesis
    unfolding update_ref_laws_def by (intro conjI allI impI) (erule (1) outside, erule (2) single)
qed

lemma list_git_rev_parse: "rev_parse_laws 40 list_git"
proof -
  have "git_token (trim (out_stdout out)) \<and> (is_full_oid 40 v \<longrightarrow> is_full_oid 40 (trim (out_stdout out)) \<and>
        (k = ''object'' \<longrightarrow> trim (out_stdout out) = v))"
    if out: "git_output list_git [''rev-parse'', ''--verify'', ''--end-of-options'', v @ ''^{'' @ k @ ''}''] g = Some out"
      and s: "out_success out" for v k g out
  proof -
    have "oid_out (rev_parse g (v @ ''^{'' @ k @ ''}'')) = Some out"
      using out by (simp add: list_git_def list_git_output_def)
    from oid_out_success [OF this s] obtain w where w: "rev_parse g (v @ ''^{'' @ k @ ''}'') = Some w"
      "trim (out_stdout out) = w" "is_full_oid 40 w" by blast
    then show ?thesis using full_token rev_parse_full [of v g k] by (auto simp: peel_def)
  qed
  then show ?thesis unfolding rev_parse_laws_def by blast
qed

lemma list_git_laws: "git_laws 40 list_git map_of"
  unfolding git_laws_def using list_git_show list_git_update list_git_rev_parse
  by (auto simp: list_git_def list_git_output_def out_fail_def out_success_def git_token_def split: if_splits)

text \<open>In this repository a commit and its tree are different objects.\<close>

lemma list_git_tree:
  "resolve_object list_git (replicate 40 CHR ''a'') ''tree'' g = Inr (CHR ''1'' # replicate 39 CHR ''a'')"
  "resolve_commit list_git (CHR ''1'' # replicate 39 CHR ''a'') g \<noteq> Inr x"
proof -
  have full: "is_full_oid 40 (replicate 40 CHR ''a'')" "is_full_oid 40 (CHR ''1'' # replicate 39 CHR ''a'')"
    by code_simp+
  have p: "peel ''^{tree}'' (replicate 40 CHR ''a'') = Some (CHR ''1'' # replicate 39 CHR ''a'')"
    "peel ''^{commit}'' (CHR ''1'' # replicate 39 CHR ''a'') = None" by code_simp+
  show "resolve_object list_git (replicate 40 CHR ''a'') ''tree'' g = Inr (CHR ''1'' # replicate 39 CHR ''a'')"
    using rev_parse_full [OF full(1), of g "''tree''"] p(1) full(2) trim_full [OF full(2)]
    by (simp add: resolve_object_def git_stdout_def run_git_checked_def run_git_raw_def list_git_def list_git_output_def
        oid_out_def out_ok_def out_success_def)
  show "resolve_commit list_git (CHR ''1'' # replicate 39 CHR ''a'') g \<noteq> Inr x"
    using rev_parse_full [OF full(2), of g "''commit''"] p(2)
    by (simp add: resolve_commit_def resolve_object_def git_stdout_def run_git_checked_def run_git_raw_def list_git_def
        list_git_output_def oid_out_def out_fail_def out_success_def)
qed

section \<open>Guarantees\<close>

definition oid_of :: "char \<Rightarrow> string" where
  "oid_of c = replicate 40 c"

lemma oid_of_full: "c \<in> set ''abcdef'' \<Longrightarrow> is_full_oid 40 (oid_of c)"
  by (auto simp: oid_of_def is_full_oid_def zero_like_def)

text \<open>C37 A compare-and-swap from one full oid to another is atomic. On success the ref held the expected oid, or was a
  symbolic ref (which is then replaced), and now stores the new oid; on failure the refs are as they were, or the swap
  itself was made; no other ref changes. Git is a parameter under \<open>git_laws\<close>.\<close>

theorem compare_and_swap_atomic:
  assumes "git_laws hl git refs" and "is_full_oid hl old" and "is_full_oid hl new_oid"
    and "compare_and_swap_ref git n old new_oid g = (r, g')"
  shows "(r = Inr () \<longrightarrow> reads_as (refs g) n (Some old) \<and> refs g' n = Some new_oid)
    \<and> (refs g' = refs g \<or> (reads_as (refs g) n (Some old) \<and> refs g' = (refs g)(n \<mapsto> new_oid)))
    \<and> (\<forall>m. m \<noteq> n \<longrightarrow> refs g' m = refs g m)"
  using cas_full [OF assms] cas_outside [OF assms(1,4)] by auto

definition main_repo :: "(string \<times> string) list" where
  "main_repo = [(''HEAD'', ''ref: refs/heads/main''), (''refs/heads/main'', oid_of CHR ''a'')]"

lemma compare_and_swap_atomic_witness:
  "map_of (snd (compare_and_swap_ref list_git ''refs/heads/main'' (oid_of CHR ''b'') (oid_of CHR ''c'') main_repo))
    ''refs/heads/main'' = Some (oid_of CHR ''a'')"
proof -
  obtain r g' where c: "compare_and_swap_ref list_git ''refs/heads/main'' (oid_of CHR ''b'') (oid_of CHR ''c'') main_repo
      = (r, g')" by fastforce
  have "oid_of CHR ''a'' \<noteq> oid_of CHR ''b''" by (simp add: oid_of_def)
  moreover have m: "map_of main_repo ''refs/heads/main'' = Some (oid_of CHR ''a'')" by (simp add: main_repo_def)
  ultimately have "\<not> reads_as (map_of main_repo) ''refs/heads/main'' (Some (oid_of CHR ''b''))"
    using full_direct [OF oid_of_full, of "CHR ''a''"] by (auto simp: reads_as_def)
  then show ?thesis
    using compare_and_swap_atomic [OF list_git_laws oid_of_full oid_of_full c] c m by auto
qed

section \<open>What every call keeps\<close>

definition ends_in :: "('s \<Rightarrow> bool) \<Rightarrow> ('e + 'a) \<times> 's \<Rightarrow> bool" where
  "ends_in P m \<longleftrightarrow> P (snd m)"

named_theorems ends \<open>rules for what a sequence of calls keeps\<close>

text \<open>A call that only reads keeps its result for the calls after it.\<close>

lemma ends_read_do [ends]:
  "P s \<Longrightarrow> (\<And>a. f s = Inr a \<Longrightarrow> ends_in P (k a s)) \<Longrightarrow> ends_in P (and_do (run_read f s) k)"
  by (auto simp: ends_in_def and_do_read split: sum.splits)

lemma ends_in_pair [ends]: "P s \<Longrightarrow> ends_in P (r, s)"
  by (simp add: ends_in_def)

lemma ends_in_and_do [ends]:
  "ends_in P m \<Longrightarrow> (\<And>a s. P s \<Longrightarrow> ends_in P (k a s)) \<Longrightarrow> ends_in P (and_do m k)"
  by (auto simp: ends_in_def and_do_def split: prod.splits sum.splits)

lemma ends_in_if [ends]: "(b \<Longrightarrow> ends_in P x) \<Longrightarrow> (\<not> b \<Longrightarrow> ends_in P y) \<Longrightarrow> ends_in P (if b then x else y)"
  by simp

lemma ends_in_let [ends]: "ends_in P (f v) \<Longrightarrow> ends_in P (let x = v in f x)"
  by (simp add: Let_def)

text \<open>The operations on a candidate only touch its own two refs.\<close>

lemma ends_transaction:
  assumes "git_laws hl git refs" and "refs g n = v" and "n \<notin> fst ` set us"
    and "\<forall>(m, new, old) \<in> set us. git_token new \<and> git_token old"
  shows "ends_in (\<lambda>g. refs g n = v) (update_refs_transaction git us g)"
  using transaction_outside [OF assms(1) _ assms(3,4)] assms(2)
  by (cases "update_refs_transaction git us g") (simp add: ends_in_def)

lemma ends_cas:
  assumes "git_laws hl git refs" and "refs g n = v" and "n \<noteq> m"
  shows "ends_in (\<lambda>g. refs g n = v) (compare_and_swap_ref git m old new_oid g)"
  using cas_outside [OF assms(1) _ assms(3)] assms(2)
  by (cases "compare_and_swap_ref git m old new_oid g") (simp add: ends_in_def)

lemma ends_commit_tree:
  assumes "git_laws hl git refs" and "refs g n = v"
  shows "ends_in (\<lambda>g. refs g n = v) (commit_tree git t p m i g)"
  using git_committed [OF assms(1)] assms(2) by (cases "commit_tree git t p m i g") (simp add: ends_in_def)

lemma ends_create:
  assumes "git_laws hl git refs" and "refs g n = v" and "outside_candidates n"
  shows "ends_in (\<lambda>g. refs g n = v) (create_candidate_ref git show_uuid sid cand base g)"
proof -
  have ne: "n \<noteq> ref_name (candidate_ref show_uuid sid cand)" "n \<noteq> base_ref_name show_uuid (candidate_ref show_uuid sid cand)"
    using candidate_names_inside assms(3) by metis+
  have base: "resolve_commit git base g = Inr b \<Longrightarrow> git_token b" for b
    using git_resolved(1) [OF assms(1)] by (simp add: resolve_commit_def)
  show ?thesis unfolding create_candidate_ref_def Let_def
    by (intro ends ends_transaction [OF assms(1)] assms(2)) (use ne base zero_token in auto)
qed

lemma ends_delete:
  assumes "git_laws hl git refs" and "refs g n = v" and "n \<noteq> ref_name r" and "n \<noteq> base_ref_name show_uuid r"
  shows "ends_in (\<lambda>g. refs g n = v) (delete_candidate_ref git show_uuid r g)"
proof -
  have old: "read_ref_oid git m g = Inr (Some oid) \<Longrightarrow> git_token oid" for m oid
    using git_show(1) [OF assms(1)] full_token by blast
  show ?thesis unfolding delete_candidate_ref_def Let_def
    by (intro ends ends_transaction [OF assms(1)] assms(2))
      (use assms(3,4) old zero_token in \<open>auto split: option.splits\<close>)
qed

lemma ends_capture:
  assumes "git_laws hl git refs" and "refs g n = v" and "n \<noteq> ref_name r"
  shows "ends_in (\<lambda>g. refs g n = v) (capture_candidate_change git r change g)"
  unfolding capture_candidate_change_def
  by (intro ends ends_cas [OF assms(1)] ends_commit_tree [OF assms(1)] assms(2,3))

lemma ends_finalize:
  assumes "git_laws hl git refs" and "refs g n = v" and "n \<noteq> ref_name r"
  shows "ends_in (\<lambda>g. refs g n = v) (finalize_candidate_worktree git show_uuid r path g)"
  unfolding finalize_candidate_worktree_def
  by (intro ends ends_cas [OF assms(1)] assms(2,3))

text \<open>C38 Creating, capturing, finalizing and deleting a candidate leave every ref outside the two candidate
  namespaces as it was, branches included, whether the call succeeds or fails. Git is a parameter under
  \<open>git_laws\<close>.\<close>

theorem candidate_operations_isolated:
  assumes "git_laws hl git refs" and "outside_candidates n"
  shows "refs (snd (create_candidate_ref git show_uuid sid cand base g)) n = refs g n
    \<and> refs (snd (capture_candidate_change git (candidate_ref show_uuid sid cand) change g)) n = refs g n
    \<and> refs (snd (finalize_candidate_worktree git show_uuid (candidate_ref show_uuid sid cand) path g)) n = refs g n
    \<and> refs (snd (delete_candidate_ref git show_uuid (candidate_ref show_uuid sid cand) g)) n = refs g n"
proof -
  have ne: "n \<noteq> ref_name (candidate_ref show_uuid sid cand)" "n \<noteq> base_ref_name show_uuid (candidate_ref show_uuid sid cand)"
    using candidate_names_inside assms(2) by metis+
  show ?thesis
    using ends_create [OF assms(1) refl assms(2)] ends_capture [OF assms(1) refl ne(1)]
      ends_finalize [OF assms(1) refl ne(1)] ends_delete [OF assms(1) refl ne]
    unfolding ends_in_def by blast
qed

lemma candidate_operations_isolated_witness:
  "map_of (snd (create_candidate_ref list_git (\<lambda>u. nat_to_string (unat u)) 1 2 (oid_of CHR ''a'') main_repo)) ''refs/heads/main''
    = Some (oid_of CHR ''a'')"
proof -
  have "outside_candidates ''refs/heads/main''" by code_simp
  from candidate_operations_isolated [OF list_git_laws this] show ?thesis by (simp add: main_repo_def)
qed

section \<open>Parsing candidate refs\<close>

text \<open>What the adapter relies on of UUIDs: their text parses back and has no slash.\<close>

definition uuid_laws :: "(Uuid \<Rightarrow> string) \<Rightarrow> (string \<Rightarrow> Uuid option) \<Rightarrow> bool" where
  "uuid_laws show_uuid parse_uuid \<longleftrightarrow> (\<forall>u. parse_uuid (show_uuid u) = Some u \<and> CHR ''/'' \<notin> set (show_uuid u))"

lemma digits_no_slash: "CHR ''/'' \<notin> set (nat_to_string n)"
proof (induction n rule: nat_to_string.induct)
  case (1 n)
  have slash: "CHR ''/'' \<noteq> digit_char k" if "k < 10" for k
  proof
    assume "CHR ''/'' = digit_char k"
    then have "(of_char (CHR ''/'') :: nat) = of_char (digit_char k)" by (rule arg_cong)
    then show False using that by simp
  qed
  show ?case using 1 slash [of n] slash [of "n mod 10"]
    by (cases "n < 10") (simp_all add: nat_to_string.simps [of n] del: digit_char.simps)
qed

lemma uuid_laws_decimal:
  "uuid_laws (\<lambda>u. nat_to_string (unat u)) (\<lambda>s. Some (of_nat (digits_value s 0)))"
  by (simp add: uuid_laws_def digits_value_nat_to_string digits_no_slash)

text \<open>Candidate refs round-trip: the name of a ref parses to that ref, and a name that parses is the
  canonical name of the ref it parses to.\<close>

theorem candidate_ref_roundtrip:
  assumes "uuid_laws show_uuid parse_uuid"
  shows "candidate_ref_parse show_uuid parse_uuid (ref_name (candidate_ref show_uuid sid cand)) =
      Inr (candidate_ref show_uuid sid cand)
    \<and> (candidate_ref_parse show_uuid parse_uuid value = Inr r \<longrightarrow>
        ref_name r = value \<and> r = candidate_ref show_uuid (ref_set r) (ref_candidate r))"
proof -
  have u: "parse_uuid (show_uuid x) = Some x" "CHR ''/'' \<notin> set (show_uuid x)" for x
    using assms by (simp_all add: uuid_laws_def)
  have "CHR ''/'' \<notin> set (show_set show_uuid sid)" and c: "CHR ''/'' \<notin> set (show_candidate show_uuid cand)"
    using u by (simp_all add: show_set_def show_candidate_def typed_id_display_def)
  then have split: "split_on CHR ''/'' (show_set show_uuid sid @ CHR ''/'' # show_candidate show_uuid cand) =
      [show_set show_uuid sid, show_candidate show_uuid cand]"
    by (simp add: split_on_append split_on_single)
  have ids: "typed_id_from_str ''cset_'' parse_uuid (show_set show_uuid sid) = Inr sid"
    "typed_id_from_str ''cand_'' parse_uuid (show_candidate show_uuid cand) = Inr cand"
    by (simp_all add: typed_id_from_str_def show_set_def show_candidate_def typed_id_display_def u)
  have name: "strip_prefix (CANDIDATE_REF_PREFIX @ ''/'') (ref_name (candidate_ref show_uuid sid cand)) =
      Some (show_set show_uuid sid @ CHR ''/'' # show_candidate show_uuid cand)"
    by (simp add: strip_prefix_Some_iff candidate_ref_def)
  have "candidate_ref_parse show_uuid parse_uuid (ref_name (candidate_ref show_uuid sid cand)) =
      Inr (candidate_ref show_uuid sid cand)"
    unfolding candidate_ref_parse_def name by (simp add: split ids)
  moreover have "candidate_ref_parse show_uuid parse_uuid value = Inr r \<Longrightarrow>
      ref_name r = value \<and> r = candidate_ref show_uuid (ref_set r) (ref_candidate r)"
    unfolding candidate_ref_parse_def
    by (auto split: option.splits list.splits sum.splits if_splits simp: candidate_ref_def)
  ultimately show ?thesis by blast
qed

lemma candidate_ref_roundtrip_witness:
  "candidate_ref_parse (\<lambda>u. nat_to_string (unat u)) (\<lambda>s. Some (of_nat (digits_value s 0)))
     (ref_name (candidate_ref (\<lambda>u. nat_to_string (unat u)) 7 9)) = Inr (candidate_ref (\<lambda>u. nat_to_string (unat u)) 7 9)"
  using candidate_ref_roundtrip [OF uuid_laws_decimal] by blast

end
