(* ===== verification/Promo_Saga.thy ===== *)
theory Promo_Saga
  imports Promo_Recovery Git_Laws
begin

text \<open>
  The promotion saga (\<open>crates/jcode-tasker-promotion\<close>): verify the winning candidate, record a prepared intent,
  compare-and-swap the canonical ref, and only then finalize the store; and the reconciliation of an intent
  after a restart. The world is the concurrency store and the Git repository; a call that fails keeps what the
  transactions before it have committed. The clock and the fresh intent id are parameters.
\<close>

section \<open>Requests, receipts, errors\<close>

datatype PromotionDecision = Promote (decision_candidate_id: string)

record PromotionRequest =
  rq_project_id :: string
  rq_task_id :: string
  rq_candidate_set_id :: string
  rq_decision :: PromotionDecision
  rq_canonical_ref :: string
  rq_expected_revision :: nat
  rq_intent_id :: "string option"

record VerifiedPromotion =
  vp_project_id :: string
  vp_task_id :: string
  vp_candidate_set_id :: string
  vp_candidate_id :: string
  vp_candidate_ref :: CandidateRef
  vp_candidate_state :: string
  vp_candidate_base_commit :: string
  vp_expected_commit :: string
  vp_target_commit :: string
  vp_canonical_ref :: string
  vp_expected_revision :: nat

record PreparedPromotion =
  pp_intent_id :: string
  pp_verified :: VerifiedPromotion
  pp_revision :: nat

record PromotionReceipt =
  rt_intent_id :: string
  rt_target_commit :: string
  rt_revision :: nat

record PromotionRecoveryResult =
  rr_intent_id :: string
  rr_observed_commit :: "string option"
  rr_action :: PromotionRecoveryAction
  rr_intent :: PromotionRow
  rr_revision :: nat

datatype SagaError =
    SgMissingCandidateId
  | SgCandidateSetNotFound string
  | SgCandidateNotFound string
  | SgMissingMetadata string string
  | SgCandidateSetMismatch string string
  | SgProjectMismatch string string string
  | SgTaskMismatch string string string
  | SgCandidateNotPromotable string string
  | SgCandidateBaseMismatch string string string
  | SgCandidateGitMismatch string string
  | SgInvalidCandidateIdentity string string
  | SgStaleCanonicalBase string string string
  | SgStaleTaskerRevision nat nat
  | SgCanonicalRefAlreadyMoved string string
  | SgCanonicalObservation string string
  | SgRollbackFailed string StoreError
  | SgStore StoreError
  | SgGit GitError

section \<open>The world\<close>

record 'g World =
  w_store :: Store
  w_git :: 'g

definition store_do :: "(StoreError \<Rightarrow> SagaError) \<Rightarrow> (Store \<Rightarrow> StoreError + ('a \<times> Store)) \<Rightarrow> 'g World \<Rightarrow>
    (SagaError + 'a) \<times> 'g World" where
  "store_do err f w = (case f (w_store w) of
     Inl e \<Rightarrow> (Inl (err e), w)
   | Inr (a, s) \<Rightarrow> (Inr a, w\<lparr>w_store := s\<rparr>))"

definition git_do :: "('g \<Rightarrow> (GitError + 'a) \<times> 'g) \<Rightarrow> 'g World \<Rightarrow> (SagaError + 'a) \<times> 'g World" where
  "git_do f w = (case f (w_git w) of
     (Inl e, g) \<Rightarrow> (Inl (SgGit e), w\<lparr>w_git := g\<rparr>)
   | (Inr a, g) \<Rightarrow> (Inr a, w\<lparr>w_git := g\<rparr>))"

definition map_store_error :: "StoreError \<Rightarrow> SagaError" where
  "map_store_error e = (case e of ErrRevision _ expected actual \<Rightarrow> SgStaleTaskerRevision expected actual | _ \<Rightarrow> SgStore e)"

definition git_err :: "GitError + 'a \<Rightarrow> SagaError + 'a" where
  "git_err r = (case r of Inl e \<Rightarrow> Inl (SgGit e) | Inr a \<Rightarrow> Inr a)"

section \<open>Observing the canonical ref\<close>

definition metadata_string :: "string \<Rightarrow> string \<Rightarrow> string option \<Rightarrow> SagaError + string" where
  "metadata_string entity field v = (case v of
     Some x \<Rightarrow> if x = [] then Inl (SgMissingMetadata entity field) else Inr x
   | None \<Rightarrow> Inl (SgMissingMetadata entity field))"

definition stale_canonical_error :: "string \<Rightarrow> string \<Rightarrow> string option \<Rightarrow> SagaError" where
  "stale_canonical_error canonical expected observed =
     SgStaleCanonicalBase canonical expected (case observed of Some o' \<Rightarrow> o' | None \<Rightarrow> ''<missing>'')"

definition observe_ref :: "'g Git \<Rightarrow> string \<Rightarrow> 'g \<Rightarrow> SagaError + string option" where
  "observe_ref git name g =
     (if \<not> starts_with name ''refs/''
      then Inl (SgCanonicalObservation name ''Git refs must be fully qualified below refs/'')
      else (case git_output git [''check-ref-format'', name] g of
        None \<Rightarrow> Inl (SgCanonicalObservation name ''git could not be run'')
      | Some check \<Rightarrow>
        if \<not> out_success check then Inl (SgCanonicalObservation name (trim (out_stderr check)))
        else (case git_output git [''show-ref'', ''--hash'', ''--verify'', name] g of
          None \<Rightarrow> Inl (SgCanonicalObservation name ''git could not be run'')
        | Some out \<Rightarrow>
          if out_success out then
            (if trim (out_stdout out) = [] then Inl (SgCanonicalObservation name ''Git returned an empty ref OID'')
             else Inr (Some (trim (out_stdout out))))
          else if out_code out = Some 1 \<and> out_stdout out = [] \<and> out_stderr out = [] then Inr None
          else Inl (SgCanonicalObservation name (trim (out_stderr out))))))"

section \<open>Verification and preparation\<close>

definition parse_identity :: "string \<Rightarrow> (string \<Rightarrow> Uuid option) \<Rightarrow> string \<Rightarrow> SagaError + Uuid" where
  "parse_identity prefix parse_uuid value = (case typed_id_from_str prefix parse_uuid value of
     Inl e \<Rightarrow> Inl (SgInvalidCandidateIdentity value (error_display e))
   | Inr i \<Rightarrow> Inr i)"

definition candidate_set_row :: "Store \<Rightarrow> string \<Rightarrow> SetRow option" where
  "candidate_set_row s i = find_key sr_id i (st_sets s)"

definition candidate_row :: "Store \<Rightarrow> string \<Rightarrow> CandidateRow option" where
  "candidate_row s i = find_key cr_id i (st_candidates s)"

definition verify :: "(Uuid \<Rightarrow> string) \<Rightarrow> (string \<Rightarrow> Uuid option) \<Rightarrow> PromotionRequest \<Rightarrow> Store \<Rightarrow> SagaError + VerifiedPromotion" where
  "verify show_uuid parse_uuid rq s =
     (if trim (rq_canonical_ref rq) = []
      then Inl (SgCanonicalObservation (rq_canonical_ref rq) ''canonical ref must not be empty'')
      else
      let candidate_id = trim (decision_candidate_id (rq_decision rq)); set_id = rq_candidate_set_id rq in
      if candidate_id = [] then Inl SgMissingCandidateId
      else if current_revision s (rq_project_id rq) \<noteq> rq_expected_revision rq
      then Inl (SgStaleTaskerRevision (rq_expected_revision rq) (current_revision s (rq_project_id rq)))
      else (case candidate_set_row s set_id of
        None \<Rightarrow> Inl (SgCandidateSetNotFound set_id)
      | Some set_row \<Rightarrow> (case candidate_row s candidate_id of
        None \<Rightarrow> Inl (SgCandidateNotFound candidate_id)
      | Some cand \<Rightarrow>
        and_then (metadata_string ''candidateSet'' ''projectId'' (Some (sr_project_id set_row))) (\<lambda>set_project.
        if set_project \<noteq> rq_project_id rq then Inl (SgProjectMismatch set_id (rq_project_id rq) set_project)
        else and_then (metadata_string ''candidateSet'' ''taskId'' (Some (sr_task_id set_row))) (\<lambda>set_task.
        if set_task \<noteq> rq_task_id rq then Inl (SgTaskMismatch set_id (rq_task_id rq) set_task)
        else and_then (metadata_string ''candidate'' ''candidateSetId'' (Some (cr_candidate_set_id cand))) (\<lambda>reference.
        if reference \<noteq> set_id then Inl (SgCandidateSetMismatch candidate_id set_id)
        else and_then (metadata_string ''candidate'' ''state'' (Some (cr_state cand))) (\<lambda>state.
        if state \<notin> {''eligible'', ''selected'', ''promoted''} then Inl (SgCandidateNotPromotable candidate_id state)
        else and_then (metadata_string ''candidate'' ''baseCommit'' (Some (cr_base_commit cand))) (\<lambda>base.
        and_then (metadata_string ''candidateSet'' ''baseCommit'' (Some (sr_base_commit set_row))) (\<lambda>expected.
        if base \<noteq> expected then Inl (SgCandidateBaseMismatch candidate_id base expected)
        else and_then (metadata_string ''candidate'' ''resultCommit'' (cr_result_commit cand)) (\<lambda>target.
        and_then (parse_identity ''cset_'' parse_uuid set_id) (\<lambda>sid.
        and_then (parse_identity ''cand_'' parse_uuid candidate_id) (\<lambda>cid.
        Inr \<lparr>vp_project_id = rq_project_id rq, vp_task_id = rq_task_id rq,
               vp_candidate_set_id = set_id, vp_candidate_id = candidate_id,
               vp_candidate_ref = candidate_ref show_uuid sid cid, vp_candidate_state = state,
               vp_candidate_base_commit = base, vp_expected_commit = expected, vp_target_commit = target,
               vp_canonical_ref = rq_canonical_ref rq, vp_expected_revision = rq_expected_revision rq\<rparr>))))))))))))"

definition prepare_git_objects :: "'g Git \<Rightarrow> (Uuid \<Rightarrow> string) \<Rightarrow> (string \<Rightarrow> Uuid option) \<Rightarrow> PromotionRequest \<Rightarrow> 'g World \<Rightarrow>
    SagaError + VerifiedPromotion" where
  "prepare_git_objects git show_uuid parse_uuid rq w =
     and_then (verify show_uuid parse_uuid rq (w_store w)) (\<lambda>v.
     and_then (git_err (read_candidate_metadata git show_uuid (vp_candidate_ref v) (w_git w))) (\<lambda>metadata.
     if cm_base_oid metadata \<noteq> vp_candidate_base_commit v
     then Inl (SgCandidateGitMismatch (vp_candidate_id v)
       (''Git base '' @ cm_base_oid metadata @ '' differs from persisted base '' @ vp_candidate_base_commit v))
     else if cm_tip_oid metadata \<noteq> vp_target_commit v
     then Inl (SgCandidateGitMismatch (vp_candidate_id v)
       (''Git tip '' @ cm_tip_oid metadata @ '' differs from persisted result '' @ vp_target_commit v))
     else and_then (observe_ref git (vp_canonical_ref v) (w_git w)) (\<lambda>observed.
       if observed \<noteq> Some (vp_expected_commit v)
       then Inl (stale_canonical_error (vp_canonical_ref v) (vp_expected_commit v) observed)
       else Inr v)))"

definition record_intent :: "string \<Rightarrow> VerifiedPromotion \<Rightarrow> string \<Rightarrow> 'g World \<Rightarrow> (SagaError + PreparedPromotion) \<times> 'g World" where
  "record_intent t v intent_id w =
     (if trim intent_id = [] then (Inl (SgMissingMetadata ''promotion intent'' ''id''), w)
      else and_do (store_do map_store_error (Promo_Intents.prepare_promotion t
          \<lparr>pd_id = intent_id, pd_project_id = vp_project_id v, pd_task_id = vp_task_id v,
           pd_candidate_set_id = vp_candidate_set_id v, pd_candidate_id = vp_candidate_id v,
           pd_expected_revision = vp_expected_revision v, pd_expected_commit = vp_expected_commit v,
           pd_target_commit = vp_target_commit v, pd_canonical_ref = vp_canonical_ref v,
           pd_state = ''prepared'', pd_created_at = t\<rparr> (vp_expected_revision v)) w) (\<lambda>(i, revision) w.
        (Inr \<lparr>pp_intent_id = i, pp_verified = v, pp_revision = revision\<rparr>, w)))"

definition saga_prepare :: "'g Git \<Rightarrow> (Uuid \<Rightarrow> string) \<Rightarrow> (string \<Rightarrow> Uuid option) \<Rightarrow> string \<Rightarrow> string \<Rightarrow> PromotionRequest \<Rightarrow> 'g World \<Rightarrow>
    (SagaError + PreparedPromotion) \<times> 'g World" where
  "saga_prepare git show_uuid parse_uuid t fresh rq w =
     and_do (run_read (prepare_git_objects git show_uuid parse_uuid rq) w) (\<lambda>v w.
     record_intent t v (case rq_intent_id rq of Some i \<Rightarrow> i | None \<Rightarrow> fresh) w)"

section \<open>The Git and persistence phases\<close>

definition compare_and_swap_canonical_ref :: "'g Git \<Rightarrow> PreparedPromotion \<Rightarrow> 'g World \<Rightarrow> (SagaError + unit) \<times> 'g World" where
  "compare_and_swap_canonical_ref git p w =
     and_do (run_read (\<lambda>w. observe_ref git (vp_canonical_ref (pp_verified p)) (w_git w)) w) (\<lambda>observed w.
     if observed \<noteq> Some (vp_expected_commit (pp_verified p))
     then (Inl (stale_canonical_error (vp_canonical_ref (pp_verified p)) (vp_expected_commit (pp_verified p)) observed), w)
     else git_do (compare_and_swap_ref git (vp_canonical_ref (pp_verified p)) (vp_expected_commit (pp_verified p))
       (vp_target_commit (pp_verified p))) w)"

definition saga_mark :: "string \<Rightarrow> PreparedPromotion \<Rightarrow> 'g World \<Rightarrow> (SagaError + PromotionReceipt) \<times> 'g World" where
  "saga_mark t p w =
     (let revision = current_revision (w_store w) (vp_project_id (pp_verified p)) in
      and_do (store_do map_store_error (mark_promotion_ref_updated t (pp_intent_id p)
        (vp_target_commit (pp_verified p)) revision) w) (\<lambda>(i, r) w.
      (Inr \<lparr>rt_intent_id = i, rt_target_commit = vp_target_commit (pp_verified p), rt_revision = r\<rparr>, w)))"

fun cleanup_losers :: "'g Git \<Rightarrow> (Uuid \<Rightarrow> string) \<Rightarrow> CandidateSetId \<Rightarrow> CandidateId \<Rightarrow> CandidateRef list \<Rightarrow> 'g \<Rightarrow>
    (GitError + unit) \<times> 'g" where
  "cleanup_losers git show_uuid sid winner [] g = (Inr (), g)"
| "cleanup_losers git show_uuid sid winner (r # rs) g =
     (if ref_set r = sid \<and> ref_candidate r \<noteq> winner
      then and_do (delete_candidate_ref git show_uuid r g) (\<lambda>_ g. cleanup_losers git show_uuid sid winner rs g)
      else cleanup_losers git show_uuid sid winner rs g)"

definition cleanup_loser_candidate_refs :: "'g Git \<Rightarrow> (Uuid \<Rightarrow> string) \<Rightarrow> (string \<Rightarrow> Uuid option) \<Rightarrow> string \<Rightarrow> string \<Rightarrow> 'g World \<Rightarrow>
    (SagaError + unit) \<times> 'g World" where
  "cleanup_loser_candidate_refs git show_uuid parse_uuid set_id winner_id w =
     and_do (parse_identity ''cset_'' parse_uuid set_id, w) (\<lambda>sid w.
     and_do (parse_identity ''cand_'' parse_uuid winner_id, w) (\<lambda>winner w.
     git_do (\<lambda>g. and_do (run_read (list_candidate_refs git show_uuid parse_uuid) g) (\<lambda>refs g.
       cleanup_losers git show_uuid sid winner refs g)) w))"

definition saga_finalize :: "'g Git \<Rightarrow> (Uuid \<Rightarrow> string) \<Rightarrow> (string \<Rightarrow> Uuid option) \<Rightarrow> string \<Rightarrow> PreparedPromotion \<Rightarrow> 'g World \<Rightarrow>
    (SagaError + PromotionReceipt) \<times> 'g World" where
  "saga_finalize git show_uuid parse_uuid t p w =
     and_do (cleanup_loser_candidate_refs git show_uuid parse_uuid (vp_candidate_set_id (pp_verified p))
       (vp_candidate_id (pp_verified p)) w) (\<lambda>_ w.
     let revision = current_revision (w_store w) (vp_project_id (pp_verified p)) in
     and_do (store_do map_store_error (finalize_promotion t (pp_intent_id p) revision) w) (\<lambda>(i, r) w.
     (Inr \<lparr>rt_intent_id = i, rt_target_commit = vp_target_commit (pp_verified p), rt_revision = r\<rparr>, w)))"

definition saga_rollback :: "'g Git \<Rightarrow> string \<Rightarrow> PreparedPromotion \<Rightarrow> string \<Rightarrow> 'g World \<Rightarrow> (SagaError + unit) \<times> 'g World" where
  "saga_rollback git t p reason w =
     and_do (run_read (\<lambda>w. observe_ref git (vp_canonical_ref (pp_verified p)) (w_git w)) w) (\<lambda>observed w.
     if observed = Some (vp_target_commit (pp_verified p))
     then (Inl (SgCanonicalRefAlreadyMoved (vp_canonical_ref (pp_verified p)) (vp_target_commit (pp_verified p))), w)
     else
       let revision = current_revision (w_store w) (vp_project_id (pp_verified p)) in
       and_do (store_do (SgRollbackFailed (pp_intent_id p)) (rollback_promotion t (pp_intent_id p) reason revision) w)
         (\<lambda>_ w. (Inr (), w)))"

text \<open>The reason names the error; its text is a parameter.\<close>

definition rollback_after_failed_cas :: "(SagaError \<Rightarrow> string) \<Rightarrow> string \<Rightarrow> PreparedPromotion \<Rightarrow> SagaError \<Rightarrow> 'g World \<Rightarrow>
    (SagaError + unit) \<times> 'g World" where
  "rollback_after_failed_cas show_error t p e w =
     (let revision = current_revision (w_store w) (vp_project_id (pp_verified p)) in
      and_do (store_do (SgRollbackFailed (pp_intent_id p)) (rollback_promotion t (pp_intent_id p)
        (''canonical compare-and-swap failed: '' @ show_error e) revision) w) (\<lambda>_ w. (Inr (), w)))"

definition execute_promotion :: "'g Git \<Rightarrow> (Uuid \<Rightarrow> string) \<Rightarrow> (string \<Rightarrow> Uuid option) \<Rightarrow> (SagaError \<Rightarrow> string) \<Rightarrow> string \<Rightarrow> string \<Rightarrow>
    PromotionRequest \<Rightarrow> 'g World \<Rightarrow> (SagaError + PromotionReceipt) \<times> 'g World" where
  "execute_promotion git show_uuid parse_uuid show_error t fresh rq w =
     and_do (saga_prepare git show_uuid parse_uuid t fresh rq w) (\<lambda>p w.
     case compare_and_swap_canonical_ref git p w of
       (Inl e, w) \<Rightarrow>
         and_do (run_read (\<lambda>w. observe_ref git (vp_canonical_ref (pp_verified p)) (w_git w)) w) (\<lambda>observed w.
         and_do (if observed \<noteq> Some (vp_target_commit (pp_verified p)) then rollback_after_failed_cas show_error t p e w
                 else (Inr (), w)) (\<lambda>_ w.
         (Inl e, w)))
     | (Inr _, w) \<Rightarrow>
         and_do (saga_mark t p w) (\<lambda>_ w. saga_finalize git show_uuid parse_uuid t p w))"

section \<open>Recovery after a restart\<close>

definition store_recover :: "string \<Rightarrow> string \<Rightarrow> string \<Rightarrow> nat \<Rightarrow> 'g World \<Rightarrow> (SagaError + PromotionRecovery) \<times> 'g World" where
  "store_recover t i observed revision w = (case Promo_Intents.recover_promotion t i observed revision (w_store w) of
     (Inl e, s) \<Rightarrow> (Inl (map_store_error e), w\<lparr>w_store := s\<rparr>)
   | (Inr r, s) \<Rightarrow> (Inr r, w\<lparr>w_store := s\<rparr>))"

definition saga_recover :: "'g Git \<Rightarrow> (Uuid \<Rightarrow> string) \<Rightarrow> (string \<Rightarrow> Uuid option) \<Rightarrow> string \<Rightarrow> string \<Rightarrow> 'g World \<Rightarrow>
    (SagaError + PromotionRecoveryResult) \<times> 'g World" where
  "saga_recover git show_uuid parse_uuid t intent_id w = (case promotion_intent (w_store w) intent_id of
     None \<Rightarrow> (Inl (SgMissingMetadata (''promotion intent '' @ intent_id) ''record''), w)
   | Some intent \<Rightarrow>
       and_do (metadata_string ''promotion intent'' ''canonicalRef'' (Some (pw_canonical_ref intent)), w) (\<lambda>canonical w.
       and_do (metadata_string ''promotion intent'' ''projectId'' (Some (pw_project_id intent)), w) (\<lambda>project_id w.
       and_do (run_read (\<lambda>w. observe_ref git canonical (w_git w)) w) (\<lambda>observed w.
       and_do (store_recover t intent_id (case observed of Some c \<Rightarrow> c | None \<Rightarrow> [])
           (current_revision (w_store w) project_id) w) (\<lambda>recovery w.
       and_do (if rec_action recovery = Conflict
               then store_do (SgRollbackFailed intent_id) (rollback_promotion t intent_id
                   ''foreign canonical ref observed during recovery'' (current_revision (w_store w) project_id)) w
               else (Inr (intent_id, rec_revision recovery), w)) (\<lambda>_ w.
       case promotion_intent (w_store w) intent_id of
         None \<Rightarrow> (Inl (SgMissingMetadata (''promotion intent '' @ intent_id) ''record after recovery''), w)
       | Some intent \<Rightarrow>
           let revision = current_revision (w_store w) project_id in
           and_do (if pw_state intent = ''finalized'' then
               and_do (metadata_string ''promotion intent'' ''candidateSetId'' (Some (pw_candidate_set_id intent)), w) (\<lambda>sid w.
               and_do (metadata_string ''promotion intent'' ''candidateId'' (Some (pw_candidate_id intent)), w) (\<lambda>cid w.
               cleanup_loser_candidate_refs git show_uuid parse_uuid sid cid w))
             else (Inr (), w)) (\<lambda>_ w.
           (Inr \<lparr>rr_intent_id = intent_id, rr_observed_commit = observed, rr_action = rec_action recovery,
              rr_intent = intent, rr_revision = revision\<rparr>, w))))))))"

fun recover_all :: "'g Git \<Rightarrow> (Uuid \<Rightarrow> string) \<Rightarrow> (string \<Rightarrow> Uuid option) \<Rightarrow> string \<Rightarrow> PromotionRow list \<Rightarrow> 'g World \<Rightarrow>
    (SagaError + PromotionRecoveryResult list) \<times> 'g World" where
  "recover_all git show_uuid parse_uuid t [] w = (Inr [], w)"
| "recover_all git show_uuid parse_uuid t (row # rows) w =
     and_do (metadata_string ''promotion intent'' ''id'' (Some (pw_id row)), w) (\<lambda>i w.
     and_do (saga_recover git show_uuid parse_uuid t i w) (\<lambda>r w.
     and_do (recover_all git show_uuid parse_uuid t rows w) (\<lambda>rs w. (Inr (r # rs), w))))"

definition recover_incomplete :: "'g Git \<Rightarrow> (Uuid \<Rightarrow> string) \<Rightarrow> (string \<Rightarrow> Uuid option) \<Rightarrow> string \<Rightarrow> string \<Rightarrow> nat \<Rightarrow> 'g World \<Rightarrow>
    (SagaError + PromotionRecoveryResult list) \<times> 'g World" where
  "recover_incomplete git show_uuid parse_uuid t project_id limit w =
     recover_all git show_uuid parse_uuid t (incomplete_promotions (w_store w) project_id limit) w"

end
