(* ===== verification/Promo_Safety.thy ===== *)
theory Promo_Safety
  imports Promo_Saga
begin

text \<open>
  The saga's guarantees: it never overwrites a canonical commit it did not expect, a promotion that succeeds
  is finalized at its target, one that fails leaves nothing that recovery cannot reconcile; and two places
  where recovery departs from what the module says.
\<close>

section \<open>Effects of the phases\<close>

text \<open>The canonical ref may be a symbolic ref; then what is observed is the oid it leads to.\<close>

lemma observe_refs:
  assumes "git_laws hl git refs" and "observe_ref git n g = Inr x"
  shows "reads_as (refs g) n x" and "x = Some v \<Longrightarrow> is_full_oid hl v"
proof -
  obtain out where n: "starts_with n ''refs/''"
    and out: "git_output git [''show-ref'', ''--hash'', ''--verify'', n] g = Some out"
    and x: "if out_success out then x = Some (trim (out_stdout out))
      else x = None \<and> out_code out = Some 1 \<and> out_stdout out = [] \<and> out_stderr out = []"
    using assms(2) unfolding observe_ref_def by (auto split: if_splits option.splits)
  have law: "(out_success out \<longrightarrow> is_full_oid hl (trim (out_stdout out)) \<and> reads_as (refs g) n (Some (trim (out_stdout out)))) \<and>
     (out_code out = Some 1 \<longrightarrow> out_stdout out = [] \<longrightarrow> out_stderr out = [] \<longrightarrow> reads_as (refs g) n None)"
    using assms(1) n out unfolding git_laws_def show_ref_laws_def by blast
  show "reads_as (refs g) n x" "x = Some v \<Longrightarrow> is_full_oid hl v" using x law by (auto split: if_splits)
qed

lemma verify_canonical: "verify show_uuid parse_uuid rq s = Inr v \<Longrightarrow> vp_canonical_ref v = rq_canonical_ref rq"
  by (auto simp: verify_def Let_def and_then_Inr split: if_splits option.splits)

lemma require_full: "git_laws hl git refs \<Longrightarrow> require_ref git what n g = Inr v \<Longrightarrow> is_full_oid hl v"
  by (auto simp: require_ref_def and_then_Inr dest: git_show(1) split: option.splits)

lemma metadata_oids:
  assumes "git_laws hl git refs" and "read_candidate_metadata git show_uuid r g = Inr m"
  shows "is_full_oid hl (cm_base_oid m)" and "is_full_oid hl (cm_tip_oid m)"
  using assms(2) git_resolved(2) [OF assms(1)] require_full [OF assms(1)]
  by (auto simp: read_candidate_metadata_def resolve_commit_def and_then_Inr)

lemma git_err_Inr: "git_err r = Inr a \<longleftrightarrow> r = Inr a"
  by (auto simp: git_err_def split: sum.splits)

lemma prepared_objects:
  assumes "git_laws hl git refs" and "prepare_git_objects git show_uuid parse_uuid rq w = Inr v"
  shows "vp_canonical_ref v = rq_canonical_ref rq" and "reads_as (refs (w_git w)) (rq_canonical_ref rq) (Some (vp_expected_commit v))"
    and "is_full_oid hl (vp_expected_commit v)" and "is_full_oid hl (vp_target_commit v)"
proof -
  obtain m where v: "verify show_uuid parse_uuid rq (w_store w) = Inr v"
    and m: "read_candidate_metadata git show_uuid (vp_candidate_ref v) (w_git w) = Inr m"
    and tip: "cm_tip_oid m = vp_target_commit v"
    and obs: "observe_ref git (vp_canonical_ref v) (w_git w) = Inr (Some (vp_expected_commit v))"
    using assms(2) by (auto simp: prepare_git_objects_def and_then_Inr git_err_Inr split: if_splits)
  show c: "vp_canonical_ref v = rq_canonical_ref rq" by (rule verify_canonical [OF v])
  show "reads_as (refs (w_git w)) (rq_canonical_ref rq) (Some (vp_expected_commit v))" "is_full_oid hl (vp_expected_commit v)"
    using observe_refs [OF assms(1) obs] c by simp_all
  show "is_full_oid hl (vp_target_commit v)" using metadata_oids(2) [OF assms(1) m] tip by simp
qed

lemma prepare_effect:
  assumes "Promo_Intents.prepare_promotion t d e s = Inr ((i, r), s')"
  shows "i = pd_id d" and "promotion_intent s' i = Some (promotion_row d)"
proof -
  obtain s1 a rows q where p: "ensure_revision s (pd_project_id d) e = Inr (s1, a)"
    and rows: "insert_row pw_id (promotion_row d) (st_promotions s1) = Inr rows"
    and b: "bump_revision (insert_promotion_event t (pd_id d) (pd_project_id d) None ''prepared'' ''prepare''
               [(''expectedCommit'', pd_expected_commit d), (''targetCommit'', pd_target_commit d),
                (''canonicalRef'', pd_canonical_ref d)] (s1\<lparr>st_promotions := rows\<rparr>)) q a = Inr (s', r)"
    and i: "i = pd_id d"
    using assms(1) unfolding prepare_promotion_def
    by (auto simp: and_then_Inr split: if_splits option.splits dest!: parse_promotion_id)
  have id: "pw_id (promotion_row d) = pd_id d" by (simp add: promotion_row_def)
  then have "find_key pw_id (pd_id d) (st_promotions s1) = None"
    using rows by (auto simp: insert_row_iff find_key_None_iff)
  then have "promotion_intent (s1\<lparr>st_promotions := rows\<rparr>) (pd_id d) = Some (promotion_row d)"
    using rows id by (auto simp: insert_row_iff promotion_intent_def find_key_append)
  then show "i = pd_id d" "promotion_intent s' i = Some (promotion_row d)"
    using promotion_intent_bump [OF b] i by simp_all
qed

lemma store_do_Inr:
  "store_do err f w = (Inr a, w') \<longleftrightarrow> (\<exists>s. f (w_store w) = Inr (a, s) \<and> w' = w\<lparr>w_store := s\<rparr>)"
  by (auto simp: store_do_def split: sum.splits prod.splits)

lemma store_do_Inl:
  "store_do err f w = (Inl e, w') \<longleftrightarrow> (\<exists>x. f (w_store w) = Inl x \<and> e = err x \<and> w' = w)"
  by (auto simp: store_do_def split: sum.splits prod.splits)

lemma and_do_Inl:
  "and_do r f = (Inl e, s'') \<longleftrightarrow> r = (Inl e, s'') \<or> (\<exists>a s'. r = (Inr a, s') \<and> f a s' = (Inl e, s''))"
  by (auto simp: and_do_def split: prod.splits sum.splits)

lemma saga_prepare_ok:
  assumes "saga_prepare git show_uuid parse_uuid t fresh rq w = (Inr p, w')"
  shows "prepare_git_objects git show_uuid parse_uuid rq w = Inr (pp_verified p)" and "w_git w' = w_git w"
    and "\<exists>row. promotion_intent (w_store w') (pp_intent_id p) = Some row \<and> pw_state row = ''prepared'' \<and>
      pw_project_id row = vp_project_id (pp_verified p) \<and>
      pw_canonical_ref row = vp_canonical_ref (pp_verified p) \<and>
      pw_expected_commit row = vp_expected_commit (pp_verified p) \<and> pw_target_commit row = vp_target_commit (pp_verified p)"
proof -
  obtain v where v: "prepare_git_objects git show_uuid parse_uuid rq w = Inr v"
    and r: "record_intent t v (case rq_intent_id rq of Some i \<Rightarrow> i | None \<Rightarrow> fresh) w = (Inr p, w')"
    using assms by (auto simp: saga_prepare_def and_do_read split: sum.splits)
  obtain d i n s where st: "Promo_Intents.prepare_promotion t d (vp_expected_revision v) (w_store w) = Inr ((i, n), s)"
    and d: "pd_canonical_ref d = vp_canonical_ref v" "pd_expected_commit d = vp_expected_commit v"
      "pd_target_commit d = vp_target_commit v" "pd_project_id d = vp_project_id v"
    and p: "p = \<lparr>pp_intent_id = i, pp_verified = v, pp_revision = n\<rparr>" and w': "w' = w\<lparr>w_store := s\<rparr>"
    using r by (fastforce simp: record_intent_def and_do_Inr store_do_Inr split: if_splits)
  show "prepare_git_objects git show_uuid parse_uuid rq w = Inr (pp_verified p)" "w_git w' = w_git w"
    using v p w' by simp_all
  have "promotion_intent (w_store w') (pp_intent_id p) = Some (promotion_row d)"
    using prepare_effect(2) [OF st] p w' by simp
  then show "\<exists>row. promotion_intent (w_store w') (pp_intent_id p) = Some row \<and> pw_state row = ''prepared'' \<and>
      pw_project_id row = vp_project_id (pp_verified p) \<and>
      pw_canonical_ref row = vp_canonical_ref (pp_verified p) \<and>
      pw_expected_commit row = vp_expected_commit (pp_verified p) \<and> pw_target_commit row = vp_target_commit (pp_verified p)"
    using d p by (simp add: promotion_row_def)
qed

lemma saga_prepare_fails: "saga_prepare git show_uuid parse_uuid t fresh rq w = (Inl e, w') \<Longrightarrow> w' = w"
  by (auto simp: saga_prepare_def and_do_read record_intent_def and_do_Inl store_do_Inl split: sum.splits if_splits)

lemma cas_phase:
  assumes "git_laws hl git refs" and "is_full_oid hl (vp_expected_commit (pp_verified p))"
    and "is_full_oid hl (vp_target_commit (pp_verified p))"
    and "compare_and_swap_canonical_ref git p w = (r, w')"
  shows "w_store w' = w_store w"
    and "(refs (w_git w') = refs (w_git w) \<and> r \<noteq> Inr ()) \<or>
      (reads_as (refs (w_git w)) (vp_canonical_ref (pp_verified p)) (Some (vp_expected_commit (pp_verified p))) \<and>
       refs (w_git w') = (refs (w_git w))(vp_canonical_ref (pp_verified p) \<mapsto> vp_target_commit (pp_verified p)))"
proof -
  let ?v = "pp_verified p"
  consider e where "r = Inl e" "w' = w" | "git_do (compare_and_swap_ref git (vp_canonical_ref ?v) (vp_expected_commit ?v)
       (vp_target_commit ?v)) w = (r, w')"
    using assms(4) unfolding compare_and_swap_canonical_ref_def and_do_read
    by (cases r) (fastforce split: sum.splits if_splits)+
  then have "w_store w' = w_store w \<and> ((refs (w_git w') = refs (w_git w) \<and> r \<noteq> Inr ()) \<or>
      (reads_as (refs (w_git w)) (vp_canonical_ref ?v) (Some (vp_expected_commit ?v)) \<and>
       refs (w_git w') = (refs (w_git w))(vp_canonical_ref ?v \<mapsto> vp_target_commit ?v)))"
  proof cases
    case 2
    obtain x g' where c: "compare_and_swap_ref git (vp_canonical_ref ?v) (vp_expected_commit ?v)
       (vp_target_commit ?v) (w_git w) = (x, g')" by fastforce
    have "w_git w' = g'" "w_store w' = w_store w" "r = Inr () \<longrightarrow> x = Inr ()"
      using 2 c by (auto simp: git_do_def split: sum.splits)
    then show ?thesis using cas_full [OF assms(1-3) c] by auto
  qed simp
  then show "w_store w' = w_store w"
    "(refs (w_git w') = refs (w_git w) \<and> r \<noteq> Inr ()) \<or>
      (reads_as (refs (w_git w)) (vp_canonical_ref ?v) (Some (vp_expected_commit ?v)) \<and>
       refs (w_git w') = (refs (w_git w))(vp_canonical_ref ?v \<mapsto> vp_target_commit ?v))" by blast+
qed

lemma mark_phase:
  assumes "saga_mark t p w = (r, w')" and "promotion_intent (w_store w) (pp_intent_id p) = Some row"
    and "pw_state row = ''prepared''"
  shows "w_git w' = w_git w"
    and "\<exists>row'. promotion_intent (w_store w') (pp_intent_id p) = Some row' \<and> same_promotion row row' \<and>
      (if r \<in> range Inl then row' = row else pw_state row' = ''ref_updated'')"
proof -
  have refl: "same_promotion row row" by (simp add: same_promotion_def)
  show "w_git w' = w_git w"
    using assms(1) by (auto simp: saga_mark_def Let_def store_do_def and_do_def split: sum.splits prod.splits)
  show "\<exists>row'. promotion_intent (w_store w') (pp_intent_id p) = Some row' \<and> same_promotion row row' \<and>
      (if r \<in> range Inl then row' = row else pw_state row' = ''ref_updated'')"
  proof (cases r)
    case (Inl e)
    then have "w' = w" using assms(1) by (auto simp: saga_mark_def Let_def and_do_Inl store_do_Inl)
    then show ?thesis using assms(2) refl Inl by simp
  next
    case (Inr a)
    then obtain i n s where m: "mark_promotion_ref_updated t (pp_intent_id p) (vp_target_commit (pp_verified p))
        (current_revision (w_store w) (vp_project_id (pp_verified p))) (w_store w) = Inr ((i, n), s)" and "w' = w\<lparr>w_store := s\<rparr>"
      using assms(1) by (auto simp: saga_mark_def Let_def and_do_Inr store_do_Inr)
    moreover have "promotion_intent s (pp_intent_id p) = Some (set_promotion_state t ''ref_updated'' row)"
      using m assms(2,3) promotion_intent_id [OF assms(2)] unfolding mark_promotion_ref_updated_def
      by (auto simp: and_then_Inr load_promotion_iff set_promotion_state_def same_promotion_def promotion_intent_updated
          dest!: promotion_intent_bump promotion_intent_ensure split: if_splits)
    ultimately show ?thesis using Inr by (auto simp: set_promotion_state_def same_promotion_def)
  qed
qed

lemma parsed_ref_names:
  assumes "candidate_ref_parse show_uuid parse_uuid n = Inr r"
  shows "r = candidate_ref show_uuid (ref_set r) (ref_candidate r)"
  using assms unfolding candidate_ref_parse_def
  by (auto split: option.splits list.splits sum.splits if_splits simp: candidate_ref_def)

lemma parse_refs_names:
  "parse_refs show_uuid parse_uuid ns = Inr rs \<Longrightarrow>
    \<forall>r \<in> set rs. r = candidate_ref show_uuid (ref_set r) (ref_candidate r)"
  by (induction ns arbitrary: rs) (auto simp: and_then_Inr dest: parsed_ref_names)

lemma ends_cleanup_losers:
  assumes "git_laws hl git refs" and "outside_candidates n"
    and "\<forall>r \<in> set rs. r = candidate_ref show_uuid (ref_set r) (ref_candidate r)"
  shows "refs g n = v \<Longrightarrow> ends_in (\<lambda>g. refs g n = v) (cleanup_losers git show_uuid sid winner rs g)"
  using assms(3)
proof (induction rs arbitrary: g)
  case (Cons r rs)
  have "n \<noteq> ref_name r" "n \<noteq> base_ref_name show_uuid r"
    using candidate_names_inside(1) [of show_uuid "ref_set r" "ref_candidate r"] candidate_names_inside(2) [of show_uuid r]
      Cons.prems(2) assms(2) by auto
  then have delete: "ends_in (\<lambda>g. refs g n = v) (delete_candidate_ref git show_uuid r g)"
    by (rule ends_delete [OF assms(1) Cons.prems(1)])
  have tl: "\<forall>r \<in> set rs. r = candidate_ref show_uuid (ref_set r) (ref_candidate r)" using Cons.prems(2) by simp
  have step: "ends_in (\<lambda>g. refs g n = v) (cleanup_losers git show_uuid sid winner rs g')" if "refs g' n = v" for g'
    by (rule Cons.IH [OF that tl])
  show ?case
    unfolding cleanup_losers.simps by (intro ends delete step Cons.prems(1))
qed (simp add: ends_in_def)

lemma ends_git_do:
  "w_store w = s \<Longrightarrow> ends_in Q (f (w_git w)) \<Longrightarrow> ends_in (\<lambda>w. w_store w = s \<and> Q (w_git w)) (git_do f w)"
  by (auto simp: ends_in_def git_do_def split: prod.splits sum.splits)

lemma ends_list_cleanup:
  assumes "git_laws hl git refs" and "outside_candidates n" and "refs g n = v"
  shows "ends_in (\<lambda>g. refs g n = v) (and_do (run_read (list_candidate_refs git show_uuid parse_uuid) g)
      (\<lambda>refs g. cleanup_losers git show_uuid s c refs g))"
proof (cases "list_candidate_refs git show_uuid parse_uuid g")
  case (Inr rs)
  then have "\<forall>r \<in> set rs. r = candidate_ref show_uuid (ref_set r) (ref_candidate r)"
    by (auto simp: list_candidate_refs_def and_then_Inr dest: parse_refs_names)
  then show ?thesis using Inr ends_cleanup_losers [where refs = refs, OF assms(1,2) _ assms(3)] by (simp add: and_do_read)
qed (simp add: and_do_read ends_in_def assms(3))

lemma cleanup_phase:
  assumes "git_laws hl git refs" and "outside_candidates n"
    and "cleanup_loser_candidate_refs git show_uuid parse_uuid sid winner w = (r, w')"
  shows "w_store w' = w_store w" and "refs (w_git w') n = refs (w_git w) n"
proof -
  have "ends_in (\<lambda>w'. w_store w' = w_store w \<and> refs (w_git w') n = refs (w_git w) n)
      (cleanup_loser_candidate_refs git show_uuid parse_uuid sid winner w)"
    unfolding cleanup_loser_candidate_refs_def
    by (intro ends ends_git_do ends_list_cleanup [where refs = refs, OF assms(1,2)]) auto
  then show "w_store w' = w_store w" "refs (w_git w') n = refs (w_git w) n"
    using assms(3) by (simp_all add: ends_in_def)
qed

lemma finalize_effect:
  assumes "finalize_promotion t i e s = Inr ((j, n), s')" and "promotion_intent s i = Some row"
  shows "j = i" and "\<exists>row'. promotion_intent s' i = Some row' \<and> same_promotion row row' \<and> pw_state row' = ''finalized''"
proof -
  have id: "pw_id row = i" by (rule promotion_intent_id [OF assms(2)])
  show "j = i"
    using assms id unfolding finalize_promotion_def by (auto simp: and_then_Inr load_promotion_iff split: if_splits)
  show "\<exists>row'. promotion_intent s' i = Some row' \<and> same_promotion row row' \<and> pw_state row' = ''finalized''"
  proof (cases "pw_state row = ''finalized''")
    case True
    then have "s' = s" using assms unfolding finalize_promotion_def by (auto simp: and_then_Inr load_promotion_iff)
    then show ?thesis using True assms(2) by (simp add: same_promotion_def)
  next
    case False
    then obtain s1 a r where p: "ensure_revision s (pw_project_id row) e = Inr (s1, a)"
      and b: "bump_revision (finalize_promotion_tx t row s1) (pw_project_id row) a = Inr (s', r)"
      using assms unfolding finalize_promotion_def by (auto simp: and_then_Inr load_promotion_iff split: if_splits)
    have "promotion_intent s' = (promotion_intent s)(i \<mapsto> row\<lparr>pw_state := ''finalized'', pw_updated_at := t,
        pw_finalized_at := Some t, pw_conflict_reason := None\<rparr>)"
      using promotion_intent_bump [OF b] promotion_intent_ensure [OF p] assms(2) id
      by (simp add: finalize_promotion_tx_eq promotion_intent_updated)
    then show ?thesis by (simp add: same_promotion_def)
  qed
qed

lemma finalize_phase:
  assumes "git_laws hl git refs" and "outside_candidates n"
    and "saga_finalize git show_uuid parse_uuid t p w = (r, w')"
    and "promotion_intent (w_store w) (pp_intent_id p) = Some row"
  shows "refs (w_git w') n = refs (w_git w) n"
    and "\<exists>row'. promotion_intent (w_store w') (pp_intent_id p) = Some row' \<and> same_promotion row row' \<and>
      (if r \<in> range Inl then row' = row else pw_state row' = ''finalized'')"
    and "r = Inr rec \<Longrightarrow> rt_intent_id rec = pp_intent_id p \<and> rt_target_commit rec = vp_target_commit (pp_verified p)"
proof -
  obtain c w1 where c: "cleanup_loser_candidate_refs git show_uuid parse_uuid (vp_candidate_set_id (pp_verified p))
       (vp_candidate_id (pp_verified p)) w = (c, w1)" by fastforce
  note c1 = cleanup_phase [OF assms(1,2) c]
  let ?f = "finalize_promotion t (pp_intent_id p) (current_revision (w_store w1) (vp_project_id (pp_verified p))) (w_store w)"
  have refl: "same_promotion row row" by (simp add: same_promotion_def)
  have "(\<exists>e. r = Inl e \<and> w' = w1) \<or> (\<exists>i k s. ?f = Inr ((i, k), s) \<and> w' = w1\<lparr>w_store := s\<rparr> \<and>
      r = Inr \<lparr>rt_intent_id = i, rt_target_commit = vp_target_commit (pp_verified p), rt_revision = k\<rparr>)"
    using assms(3) c c1(1) unfolding saga_finalize_def Let_def
    by (cases c) (auto simp: store_do_def and_do_def split: sum.splits prod.splits)
  then have "refs (w_git w') n = refs (w_git w) n \<and> (\<exists>row'. promotion_intent (w_store w') (pp_intent_id p) = Some row' \<and>
      same_promotion row row' \<and> (if r \<in> range Inl then row' = row else pw_state row' = ''finalized'')) \<and>
      (r = Inr rec \<longrightarrow> rt_intent_id rec = pp_intent_id p \<and> rt_target_commit rec = vp_target_commit (pp_verified p))"
  proof (elim disjE exE conjE)
    fix e assume "r = Inl e" "w' = w1"
    then show ?thesis using c1 assms(4) refl by simp
  next
    fix i k s assume f: "?f = Inr ((i, k), s)" and w': "w' = w1\<lparr>w_store := s\<rparr>"
      and r: "r = Inr \<lparr>rt_intent_id = i, rt_target_commit = vp_target_commit (pp_verified p), rt_revision = k\<rparr>"
    show ?thesis using finalize_effect [OF f assms(4)] w' r c1(2) by auto
  qed
  then show "refs (w_git w') n = refs (w_git w) n"
    "\<exists>row'. promotion_intent (w_store w') (pp_intent_id p) = Some row' \<and> same_promotion row row' \<and>
      (if r \<in> range Inl then row' = row else pw_state row' = ''finalized'')"
    "r = Inr rec \<Longrightarrow> rt_intent_id rec = pp_intent_id p \<and> rt_target_commit rec = vp_target_commit (pp_verified p)"
    by blast+
qed

lemma rollback_phase_git:
  "rollback_after_failed_cas show_error t p e w = (r, w') \<Longrightarrow> w_git w' = w_git w"
  by (auto simp: rollback_after_failed_cas_def Let_def store_do_def and_do_def split: sum.splits prod.splits)

section \<open>Executing a promotion\<close>

definition move_explained :: "('g \<Rightarrow> string \<rightharpoonup> string) \<Rightarrow> string \<Rightarrow> 'g World \<Rightarrow> 'g World \<Rightarrow> bool" where
  "move_explained refs c w w' \<longleftrightarrow> (\<exists>i row. promotion_intent (w_store w') i = Some row \<and> pw_canonical_ref row = c \<and>
     reads_as (refs (w_git w)) c (Some (pw_expected_commit row)) \<and> refs (w_git w') c = Some (pw_target_commit row) \<and>
     pw_state row \<in> {''prepared'', ''ref_updated'', ''finalized''})"

definition promoted_at :: "('g \<Rightarrow> string \<rightharpoonup> string) \<Rightarrow> string \<Rightarrow> 'g World \<Rightarrow> PromotionReceipt \<Rightarrow> bool" where
  "promoted_at refs c w' rec \<longleftrightarrow> refs (w_git w') c = Some (rt_target_commit rec) \<and>
     (\<exists>row. promotion_intent (w_store w') (rt_intent_id rec) = Some row \<and> pw_state row = ''finalized'' \<and>
       pw_canonical_ref row = c \<and> pw_target_commit row = rt_target_commit rec)"

lemma move_explainedI:
  assumes "promotion_intent (w_store w') i = Some row" and "pw_canonical_ref row = c"
    and "reads_as (refs (w_git w)) c (Some (pw_expected_commit row))" and "refs (w_git w') c = Some (pw_target_commit row)"
    and "pw_state row \<in> {''prepared'', ''ref_updated'', ''finalized''}"
  shows "move_explained refs c w w'"
  unfolding move_explained_def using assms by blast

lemma execute_after_failed_cas:
  assumes "git_laws hl git refs" and c: "c = vp_canonical_ref (pp_verified p)"
    and row: "promotion_intent (w_store w2) (pp_intent_id p) = Some row" "pw_state row = ''prepared''"
      "pw_canonical_ref row = c" "pw_expected_commit row = vp_expected_commit (pp_verified p)"
      "pw_target_commit row = vp_target_commit (pp_verified p)"
    and full: "is_full_oid hl (vp_target_commit (pp_verified p))"
    and moved: "refs (w_git w2) = refs (w_git w) \<or> (reads_as (refs (w_git w)) c (Some (pw_expected_commit row)) \<and>
      refs (w_git w2) = (refs (w_git w))(c \<mapsto> pw_target_commit row))"
    and run: "and_do (run_read (\<lambda>w. observe_ref git c (w_git w)) w2) (\<lambda>observed w.
         and_do (if observed \<noteq> Some (vp_target_commit (pp_verified p)) then rollback_after_failed_cas show_error t p e w
                 else (Inr (), w)) (\<lambda>_ w. (Inl e, w))) = (r, w')"
  shows "\<exists>e. r = Inl e" and "refs (w_git w') = refs (w_git w2)"
    and "refs (w_git w') = refs (w_git w) \<or> move_explained refs c w w'"
proof -
  have keep: "refs (w_git w2) = refs (w_git w) \<or> move_explained refs c w w2"
    using moved row by (auto simp: move_explained_def)
  consider (seen) e' where "r = Inl e'" "w' = w2"
    | (rolled) o' u x where "observe_ref git c (w_git w2) = Inr o'" "o' \<noteq> Some (vp_target_commit (pp_verified p))"
      "rollback_after_failed_cas show_error t p e w2 = (u, w')" "r = Inl x"
    using run unfolding and_do_read
    by (auto simp: and_do_def split: sum.splits if_splits prod.splits)
  then have "(\<exists>e. r = Inl e) \<and> refs (w_git w') = refs (w_git w2) \<and>
      (refs (w_git w') = refs (w_git w) \<or> move_explained refs c w w')"
  proof cases
    case seen
    then show ?thesis using keep by simp
  next
    case rolled
    have git: "w_git w' = w_git w2" by (rule rollback_phase_git [OF rolled(3)])
    have "refs (w_git w2) c \<noteq> Some (pw_target_commit row)"
      using reads_direct [OF observe_refs(1) [OF assms(1) rolled(1)] _ full_direct [OF full]] rolled(2) row(5) by auto
    then have "refs (w_git w2) = refs (w_git w)" using moved by auto
    then show ?thesis using rolled(4) git by simp
  qed
  then show "\<exists>e. r = Inl e" "refs (w_git w') = refs (w_git w2)"
    "refs (w_git w') = refs (w_git w) \<or> move_explained refs c w w'" by blast+
qed

lemma execute_after_cas:
  assumes "git_laws hl git refs" and out: "outside_candidates c"
    and row: "promotion_intent (w_store w2) (pp_intent_id p) = Some row" "pw_state row = ''prepared''"
      "pw_canonical_ref row = c" "pw_target_commit row = vp_target_commit (pp_verified p)"
    and moved: "reads_as (refs (w_git w)) c (Some (pw_expected_commit row))" "refs (w_git w2) = (refs (w_git w))(c \<mapsto> pw_target_commit row)"
    and run: "and_do (saga_mark t p w2) (\<lambda>_ w. saga_finalize git show_uuid parse_uuid t p w) = (r, w')"
  shows "(\<forall>rec. r = Inr rec \<longrightarrow> promoted_at refs c w' rec) \<and> move_explained refs c w w' \<and>
    (\<forall>n. outside_candidates n \<longrightarrow> n \<noteq> c \<longrightarrow> refs (w_git w') n = refs (w_git w) n)"
proof -
  obtain y w3 where mark: "saga_mark t p w2 = (y, w3)" by fastforce
  from mark_phase [OF mark row(1,2)] obtain row3 where git3: "w_git w3 = w_git w2"
    and row3: "promotion_intent (w_store w3) (pp_intent_id p) = Some row3" and same3: "same_promotion row row3"
    and st3: "if y \<in> range Inl then row3 = row else pw_state row3 = ''ref_updated''" by blast
  show ?thesis
  proof (cases y)
    case (Inl e)
    then have "r = Inl e" and w': "w' = w3" using run mark by simp_all
    moreover have "pw_state row3 = ''prepared''" using st3 Inl row(2) by simp
    moreover have "move_explained refs c w w3"
      by (rule move_explainedI [OF row3])
        (use moved git3 same3 row(3) \<open>pw_state row3 = ''prepared''\<close> in \<open>auto simp: same_promotion_def\<close>)
    ultimately show ?thesis using moved git3 by simp
  next
    case (Inr a)
    then have fin: "saga_finalize git show_uuid parse_uuid t p w3 = (r, w')" using run mark by simp
    from finalize_phase(2) [OF assms(1) out fin row3] obtain row4 where
      row4: "promotion_intent (w_store w') (pp_intent_id p) = Some row4" and same4: "same_promotion row3 row4"
      and st4: "if r \<in> range Inl then row4 = row3 else pw_state row4 = ''finalized''" by blast
    have git4: "refs (w_git w') n = refs (w_git w2) n" if "outside_candidates n" for n
      using finalize_phase(1) [OF assms(1) that fin row3] git3 by simp
    have state: "pw_state row4 \<in> {''prepared'', ''ref_updated'', ''finalized''}"
      using st3 st4 Inr by (cases r) (auto split: if_splits)
    have expl: "move_explained refs c w w'"
      using same3 same4 row(3) moved git4 [OF out]
      by (intro move_explainedI [OF row4 _ _ _ state]) (auto simp: same_promotion_def)
    have "pw_state row4 = ''finalized''" if "r = Inr rec" for rec
      using st4 that by (simp add: image_iff)
    then have "promoted_at refs c w' rec" if "r = Inr rec" for rec
      using finalize_phase(3) [OF assms(1) out fin row3 that] row4 same3 same4 row(3,4) moved(2) git4 [OF out] that
      unfolding promoted_at_def by (auto simp: same_promotion_def)
    then show ?thesis using expl git4 moved(2) by auto
  qed
qed

lemma execute_cases:
  assumes "git_laws hl git refs" and "outside_candidates (rq_canonical_ref rq)"
    and "execute_promotion git show_uuid parse_uuid show_error t fresh rq w = (r, w')"
  shows "(\<forall>rec. r = Inr rec \<longrightarrow> promoted_at refs (rq_canonical_ref rq) w' rec) \<and>
    (refs (w_git w') (rq_canonical_ref rq) = refs (w_git w) (rq_canonical_ref rq) \<or>
      move_explained refs (rq_canonical_ref rq) w w') \<and>
    (\<forall>n. outside_candidates n \<longrightarrow> n \<noteq> rq_canonical_ref rq \<longrightarrow> refs (w_git w') n = refs (w_git w) n)"
proof -
  let ?c = "rq_canonical_ref rq"
  obtain pr w1 where prep: "saga_prepare git show_uuid parse_uuid t fresh rq w = (pr, w1)" by fastforce
  show ?thesis
  proof (cases pr)
    case (Inl e)
    then have "r = Inl e" "w' = w1" using assms(3) prep by (simp_all add: execute_promotion_def)
    then show ?thesis using saga_prepare_fails prep Inl by blast
  next
    case (Inr p)
    note prep' = saga_prepare_ok [OF prep [unfolded Inr]]
    note objs = prepared_objects [OF assms(1) prep'(1)]
    obtain row where row: "promotion_intent (w_store w1) (pp_intent_id p) = Some row" "pw_state row = ''prepared''"
      "pw_canonical_ref row = ?c" "pw_expected_commit row = vp_expected_commit (pp_verified p)"
      "pw_target_commit row = vp_target_commit (pp_verified p)"
      using prep'(3) objs(1) by auto
    obtain x w2 where cas: "compare_and_swap_canonical_ref git p w1 = (x, w2)" by fastforce
    note cas' = cas_phase [OF assms(1) objs(3,4) cas]
    have row2: "promotion_intent (w_store w2) (pp_intent_id p) = Some row" using row(1) cas'(1) by simp
    have moved: "(refs (w_git w2) = refs (w_git w) \<and> x \<noteq> Inr ()) \<or> (reads_as (refs (w_git w)) ?c (Some (pw_expected_commit row)) \<and>
      refs (w_git w2) = (refs (w_git w))(?c \<mapsto> pw_target_commit row))"
      using cas'(2) prep'(2) objs(1) row by simp
    show ?thesis
    proof (cases x)
      case (Inl e)
      have run: "and_do (run_read (\<lambda>w. observe_ref git ?c (w_git w)) w2) (\<lambda>observed w.
         and_do (if observed \<noteq> Some (vp_target_commit (pp_verified p)) then rollback_after_failed_cas show_error t p e w
                 else (Inr (), w)) (\<lambda>_ w. (Inl e, w))) = (r, w')"
        using assms(3) prep Inr cas Inl objs(1) by (simp add: execute_promotion_def)
      have moved2: "refs (w_git w2) = refs (w_git w) \<or> (reads_as (refs (w_git w)) ?c (Some (pw_expected_commit row)) \<and>
        refs (w_git w2) = (refs (w_git w))(?c \<mapsto> pw_target_commit row))"
        using moved by blast
      note after = execute_after_failed_cas [OF assms(1) objs(1) [symmetric] row2 row(2-5) objs(4) moved2 run]
      have "\<forall>n. n \<noteq> ?c \<longrightarrow> refs (w_git w') n = refs (w_git w) n"
        using after(2) moved2 by fastforce
      moreover have "refs (w_git w') ?c = refs (w_git w) ?c \<or> move_explained refs ?c w w'"
        using after(3) by (elim disjE) simp_all
      ultimately show ?thesis using after(1) by blast
    next
      case (Inr u)
      have run: "and_do (saga_mark t p w2) (\<lambda>_ w. saga_finalize git show_uuid parse_uuid t p w) = (r, w')"
        using assms(3) prep \<open>pr = Inr p\<close> cas Inr by (simp add: execute_promotion_def)
      have "reads_as (refs (w_git w)) ?c (Some (pw_expected_commit row))" "refs (w_git w2) = (refs (w_git w))(?c \<mapsto> pw_target_commit row)"
        using moved Inr by auto
      from execute_after_cas [OF assms(1,2) row2 row(2,3,5) this run] show ?thesis by blast
    qed
  qed
qed

section \<open>Recovery\<close>

definition intent_wf :: "PromotionRow \<Rightarrow> bool" where
  "intent_wf row \<longleftrightarrow> pw_canonical_ref row \<noteq> [] \<and> pw_project_id row \<noteq> [] \<and> pw_expected_commit row \<noteq> [] \<and>
     pw_target_commit row \<noteq> []"

lemma rollback_ok:
  assumes row: "promotion_intent s i = Some row" and e: "current_revision s (pw_project_id row) = e" "e + 1 < 2 ^ 63"
    and st: "pw_state row \<in> {''prepared'', ''ref_updated'', ''conflicted''}" and reason: "trim reason \<noteq> []"
  shows "\<exists>s' row'. rollback_promotion t i reason e s = Inr ((i, e + 1), s') \<and> pw_state row' = ''aborted'' \<and>
    same_promotion row row' \<and> promotion_intent s' = (promotion_intent s)(i \<mapsto> row')"
proof -
  let ?f = "\<lambda>row. row\<lparr>pw_state := ''aborted'', pw_updated_at := t, pw_conflict_reason := Some reason\<rparr>"
  let ?g = "\<lambda>s. insert_promotion_event t (pw_id row) (pw_project_id row) (Some (pw_state row)) ''aborted'' ''rollback''
         [(''reason'', reason)] (update_promotion (pw_id row) ?f s)"
  obtain rv s' where a: "ensure_revision s (pw_project_id row) e = Inr (s\<lparr>st_revisions := rv\<rparr>, e)"
    and b: "bump_revision (?g (s\<lparr>st_revisions := rv\<rparr>)) (pw_project_id row) e = Inr (s', e + 1)"
    and c: "promotion_intent s' = promotion_intent (?g (s\<lparr>st_revisions := rv\<rparr>))"
    by (rule move_ok [OF e, of ?g]) auto
  have "promotion_intent s' = (promotion_intent s)(i \<mapsto> ?f row)"
    using c row promotion_intent_id [OF row] by (simp add: promotion_intent_updated)
  moreover have "rollback_promotion t i reason e s = Inr ((i, e + 1), s')"
    using a b row promotion_intent_id [OF row] st reason
    by (auto simp: rollback_promotion_def load_promotion_tx_def promotion_intent_def)
  moreover have "pw_state (?f row) = ''aborted'' \<and> same_promotion row (?f row)" by (simp add: same_promotion_def)
  ultimately show ?thesis by blast
qed

text \<open>What is left of a recovery once the store has decided.\<close>

definition recover_rest :: "'g Git \<Rightarrow> (Uuid \<Rightarrow> string) \<Rightarrow> (string \<Rightarrow> Uuid option) \<Rightarrow> string \<Rightarrow> string option \<Rightarrow> string \<Rightarrow>
    PromotionRecoveryAction \<Rightarrow> 'g World \<Rightarrow> (SagaError + PromotionRecoveryResult) \<times> 'g World" where
  "recover_rest git show_uuid parse_uuid intent_id observed project_id action w =
     (case promotion_intent (w_store w) intent_id of
         None \<Rightarrow> (Inl (SgMissingMetadata (''promotion intent '' @ intent_id) ''record after recovery''), w)
       | Some intent \<Rightarrow>
           let revision = current_revision (w_store w) project_id in
           and_do (if pw_state intent = ''finalized'' then
               and_do (metadata_string ''promotion intent'' ''candidateSetId'' (Some (pw_candidate_set_id intent)), w) (\<lambda>sid w.
               and_do (metadata_string ''promotion intent'' ''candidateId'' (Some (pw_candidate_id intent)), w) (\<lambda>cid w.
               cleanup_loser_candidate_refs git show_uuid parse_uuid sid cid w))
             else (Inr (), w)) (\<lambda>_ w.
           (Inr \<lparr>rr_intent_id = intent_id, rr_observed_commit = observed, rr_action = action,
              rr_intent = intent, rr_revision = revision\<rparr>, w)))"

lemma saga_recover_eq:
  assumes "promotion_intent (w_store w) i = Some row" and "intent_wf row"
    and "observe_ref git (pw_canonical_ref row) (w_git w) = Inr observed"
  shows "saga_recover git show_uuid parse_uuid t i w =
    and_do (store_recover t i (case observed of Some c \<Rightarrow> c | None \<Rightarrow> [])
        (current_revision (w_store w) (pw_project_id row)) w) (\<lambda>recovery w.
    and_do (if rec_action recovery = Conflict
            then store_do (SgRollbackFailed i) (rollback_promotion t i
                ''foreign canonical ref observed during recovery'' (current_revision (w_store w) (pw_project_id row))) w
            else (Inr (i, rec_revision recovery), w)) (\<lambda>_ w.
    recover_rest git show_uuid parse_uuid i observed (pw_project_id row) (rec_action recovery) w))"
  using assms by (simp add: saga_recover_def intent_wf_def metadata_string_def and_do_read recover_rest_def)

lemma recover_rest_keeps:
  assumes "git_laws hl git refs" and "outside_candidates n"
    and "recover_rest git show_uuid parse_uuid i observed q action w = (r, w')"
  shows "w_store w' = w_store w" and "refs (w_git w') n = refs (w_git w) n"
proof -
  have cleanup: "ends_in (\<lambda>w'. w_store w' = w_store w \<and> refs (w_git w') n = refs (w_git w) n)
      (cleanup_loser_candidate_refs git show_uuid parse_uuid sid cid w1)"
    if "w_store w1 = w_store w \<and> refs (w_git w1) n = refs (w_git w) n" for sid cid w1
    using cleanup_phase [OF assms(1,2), of show_uuid parse_uuid sid cid w1] that
    by (cases "cleanup_loser_candidate_refs git show_uuid parse_uuid sid cid w1") (simp add: ends_in_def)
  have "ends_in (\<lambda>w'. w_store w' = w_store w \<and> refs (w_git w') n = refs (w_git w) n)
      (recover_rest git show_uuid parse_uuid i observed q action w)"
    unfolding recover_rest_def
    by (cases "promotion_intent (w_store w) i") (simp_all only: option.case, (intro ends cleanup; simp)+)
  then show "w_store w' = w_store w" "refs (w_git w') n = refs (w_git w) n"
    using assms(3) by (simp_all add: ends_in_def)
qed

lemma store_recover_result:
  assumes "recovery_result (w_store w) i row action revision state
    (Promo_Intents.recover_promotion t i observed e (w_store w))"
  shows "\<exists>row' s'. store_recover t i observed e w =
      (Inr \<lparr>rec_intent = row', rec_action = action, rec_revision = revision\<rparr>, w\<lparr>w_store := s'\<rparr>) \<and>
    pw_state row' = state \<and> same_promotion row row' \<and> promotion_intent s' i = Some row' \<and>
    current_revision s' (pw_project_id row) = revision \<and> store_tx\<^sup>*\<^sup>* (w_store w) s'"
  using assms by (force simp: recovery_result_def store_recover_def)

lemma saga_recover_retry:
  assumes row: "promotion_intent (w_store w) i = Some row" "intent_wf row"
    and st: "pw_state row \<in> {''prepared'', ''ref_updated''}"
    and obs: "observe_ref git (pw_canonical_ref row) (w_git w) = Inr (Some (pw_expected_commit row))"
  shows "\<exists>res. saga_recover git show_uuid parse_uuid t i w = (Inr res, w) \<and> rr_action res = Retry \<and> rr_intent res = row"
proof -
  have "pw_state row \<notin> {''finalized'', ''aborted''}" using st by auto
  then have "store_recover t i (pw_expected_commit row) (current_revision (w_store w) (pw_project_id row)) w =
    (Inr \<lparr>rec_intent = row, rec_action = Retry, rec_revision = current_revision (w_store w) (pw_project_id row)\<rparr>, w)"
    using row by (simp add: store_recover_def recover_promotion_def)
  then show ?thesis
    unfolding saga_recover_eq [OF row obs] using row(1) st by (auto simp: recover_rest_def)
qed

lemma saga_recover_finalize:
  assumes laws: "git_laws hl git refs" and out: "outside_candidates n"
    and row: "promotion_intent (w_store w) i = Some row" "intent_wf row"
    and st: "pw_state row \<in> {''prepared'', ''ref_updated''}"
    and e: "current_revision (w_store w) (pw_project_id row) + 3 < 2 ^ 63"
    and obs: "observe_ref git (pw_canonical_ref row) (w_git w) = Inr (Some (pw_target_commit row))"
    and ne: "pw_target_commit row \<noteq> pw_expected_commit row"
    and run: "saga_recover git show_uuid parse_uuid t i w = (r, w')"
  shows "refs (w_git w') n = refs (w_git w) n" and "\<exists>row'. promotion_intent (w_store w') i = Some row' \<and>
    same_promotion row row' \<and> pw_state row' = ''finalized''"
    and "\<exists>s row'. promotion_intent s i = Some row' \<and> pw_state row' = ''finalized'' \<and> store_tx\<^sup>*\<^sup>* (w_store w) s \<and>
      recover_rest git show_uuid parse_uuid i (Some (pw_target_commit row)) (pw_project_id row) Finalize
        (w\<lparr>w_store := s\<rparr>) = (r, w')"
proof -
  let ?e = "current_revision (w_store w) (pw_project_id row)"
  have "\<exists>k. recovery_result (w_store w) i row Finalize k ''finalized''
      (Promo_Intents.recover_promotion t i (pw_target_commit row) ?e (w_store w))"
    using st e recover_target_prepared [OF row(1) refl _ _ ne, of t] recover_target_updated [OF row(1) refl _ _ ne, of t]
    by fastforce
  then obtain row1 s1 k where rec: "store_recover t i (pw_target_commit row) ?e w =
      (Inr \<lparr>rec_intent = row1, rec_action = Finalize, rec_revision = k\<rparr>, w\<lparr>w_store := s1\<rparr>)"
    and r1: "pw_state row1 = ''finalized''" "same_promotion row row1" "promotion_intent s1 i = Some row1"
      "store_tx\<^sup>*\<^sup>* (w_store w) s1"
    using store_recover_result by blast
  have rest: "recover_rest git show_uuid parse_uuid i (Some (pw_target_commit row)) (pw_project_id row) Finalize
        (w\<lparr>w_store := s1\<rparr>) = (r, w')"
    using run rec unfolding saga_recover_eq [OF row obs] by simp
  from recover_rest_keeps [OF laws out rest] show "refs (w_git w') n = refs (w_git w) n"
    "\<exists>row'. promotion_intent (w_store w') i = Some row' \<and> same_promotion row row' \<and> pw_state row' = ''finalized''"
    using r1 by simp_all
  show "\<exists>s row'. promotion_intent s i = Some row' \<and> pw_state row' = ''finalized'' \<and> store_tx\<^sup>*\<^sup>* (w_store w) s \<and>
      recover_rest git show_uuid parse_uuid i (Some (pw_target_commit row)) (pw_project_id row) Finalize
        (w\<lparr>w_store := s\<rparr>) = (r, w')"
    using rest r1 by blast
qed

lemma saga_recover_foreign:
  assumes row: "promotion_intent (w_store w) i = Some row" "intent_wf row"
    and st: "pw_state row \<in> {''prepared'', ''ref_updated''}"
    and e: "current_revision (w_store w) (pw_project_id row) + 3 < 2 ^ 63"
    and obs: "observe_ref git (pw_canonical_ref row) (w_git w) = Inr observed"
    and foreign: "observed \<noteq> Some (pw_expected_commit row)" "observed \<noteq> Some (pw_target_commit row)"
    and run: "saga_recover git show_uuid parse_uuid t i w = (r, w')"
  shows "w_git w' = w_git w" and "\<exists>row'. promotion_intent (w_store w') i = Some row' \<and>
    same_promotion row row' \<and> pw_state row' = ''aborted''"
proof -
  let ?e = "current_revision (w_store w) (pw_project_id row)"
  let ?c = "case observed of Some c \<Rightarrow> c | None \<Rightarrow> []"
  have "?c \<noteq> pw_expected_commit row" "?c \<noteq> pw_target_commit row"
    using foreign row(2) by (auto simp: intent_wf_def split: option.splits)
  moreover have "pw_state row \<notin> {''finalized'', ''aborted''}" using st by auto
  ultimately have "recovery_result (w_store w) i row Conflict (?e + 1) ''conflicted''
      (Promo_Intents.recover_promotion t i ?c ?e (w_store w))"
    using recover_foreign [OF row(1) refl] e by simp
  then obtain row1 s1 where rec: "store_recover t i ?c ?e w =
      (Inr \<lparr>rec_intent = row1, rec_action = Conflict, rec_revision = ?e + 1\<rparr>, w\<lparr>w_store := s1\<rparr>)"
    and r1: "pw_state row1 = ''conflicted''" "same_promotion row row1" "promotion_intent s1 i = Some row1"
      "current_revision s1 (pw_project_id row) = ?e + 1"
    using store_recover_result by blast
  have p1: "pw_project_id row1 = pw_project_id row" using r1(2) by (simp add: same_promotion_def)
  have "\<exists>s2 row2. rollback_promotion t i ''foreign canonical ref observed during recovery'' (?e + 1) s1 =
      Inr ((i, ?e + 1 + 1), s2) \<and> pw_state row2 = ''aborted'' \<and> same_promotion row1 row2 \<and>
      promotion_intent s2 = (promotion_intent s1)(i \<mapsto> row2)"
  proof (rule rollback_ok [OF r1(3)])
    show "current_revision s1 (pw_project_id row1) = ?e + 1" using r1(4) p1 by simp
    show "?e + 1 + 1 < 2 ^ 63" using e by simp
    show "pw_state row1 \<in> {''prepared'', ''ref_updated'', ''conflicted''}" using r1(1) by simp
    show "trim ''foreign canonical ref observed during recovery'' \<noteq> []" by code_simp
  qed
  then obtain s2 row2 where roll: "rollback_promotion t i ''foreign canonical ref observed during recovery'' (?e + 1) s1 =
      Inr ((i, ?e + 1 + 1), s2)" and r2: "pw_state row2 = ''aborted''" "same_promotion row1 row2"
      "promotion_intent s2 = (promotion_intent s1)(i \<mapsto> row2)" by blast
  have same: "same_promotion row row2" using r1(2) r2(2) by (simp add: same_promotion_def)
  have "w' = w\<lparr>w_store := s2\<rparr>"
    using run rec roll r1(4) r2
    unfolding saga_recover_eq [OF row obs] by (simp add: store_do_def recover_rest_def Let_def)
  then show "w_git w' = w_git w" "\<exists>row'. promotion_intent (w_store w') i = Some row' \<and>
    same_promotion row row' \<and> pw_state row' = ''aborted''" using r2 same by simp_all
qed

section \<open>A promotion that goes through\<close>

abbreviation show_dec :: "Uuid \<Rightarrow> string" where
  "show_dec \<equiv> \<lambda>u. nat_to_string (unat u)"

abbreviation parse_dec :: "string \<Rightarrow> Uuid option" where
  "parse_dec \<equiv> \<lambda>s. Some (of_nat (digits_value s 0))"

definition sample_repo :: "string \<Rightarrow> (string \<times> string) list" where
  "sample_repo tip = [(''refs/heads/main'', tip),
     (''refs/tasker/candidates/cset_1/cand_2'', sample_target),
     (''refs/tasker/candidate-bases/cset_1/cand_2'', sample_base)]"

definition sample_world :: "(string \<times> string) list World" where
  "sample_world = \<lparr>w_store = sample_store, w_git = sample_repo sample_base\<rparr>"

definition sample_request :: PromotionRequest where
  "sample_request = \<lparr>rq_project_id = ''P'', rq_task_id = ''T'', rq_candidate_set_id = ''cset_1'',
     rq_decision = Promote ''cand_2'', rq_canonical_ref = ''refs/heads/main'', rq_expected_revision = 2,
     rq_intent_id = Some ''I''\<rparr>"

definition sample_verified :: VerifiedPromotion where
  "sample_verified = \<lparr>vp_project_id = ''P'', vp_task_id = ''T'', vp_candidate_set_id = ''cset_1'',
     vp_candidate_id = ''cand_2'', vp_candidate_ref = candidate_ref show_dec 1 2, vp_candidate_state = ''eligible'',
     vp_candidate_base_commit = sample_base, vp_expected_commit = sample_base, vp_target_commit = sample_target,
     vp_canonical_ref = ''refs/heads/main'', vp_expected_revision = 2\<rparr>"

definition sample_prepared :: PreparedPromotion where
  "sample_prepared = \<lparr>pp_intent_id = ''I'', pp_verified = sample_verified, pp_revision = 3\<rparr>"

lemma sample_ids:
  "parse_identity ''cset_'' parse_dec ''cset_1'' = Inr 1" "parse_identity ''cand_'' parse_dec ''cand_2'' = Inr 2"
  by (simp_all add: parse_identity_def typed_id_from_str_def)

lemma sample_git_calls:
  "read_candidate_metadata list_git show_dec (candidate_ref show_dec 1 2) (sample_repo sample_base) =
     Inr \<lparr>cm_ref = candidate_ref show_dec 1 2, cm_base_oid = sample_base, cm_tip_oid = sample_target, cm_changed_paths = []\<rparr>"
  "observe_ref list_git ''refs/heads/main'' (sample_repo sample_base) = Inr (Some sample_base)"
  "compare_and_swap_ref list_git ''refs/heads/main'' sample_base sample_target (sample_repo sample_base) =
     (Inr (), sample_repo sample_target)"
  "list_candidate_refs list_git show_dec parse_dec (sample_repo sample_target) = Inr [candidate_ref show_dec 1 2]"
  by code_simp+

lemma sample_strings:
  "trim ''refs/heads/main'' = ''refs/heads/main''" "trim ''cand_2'' = ''cand_2''" "trim ''I'' = ''I''"
  "sample_base \<noteq> []" "sample_target \<noteq> []" "outside_candidates ''refs/heads/main''"
  by code_simp+

lemma sample_verify: "verify show_dec parse_dec sample_request sample_store = Inr sample_verified"
  by (simp add: verify_def sample_request_def sample_strings sample_store_eq current_revision_def candidate_set_row_def
      candidate_row_def sample_candidate_def metadata_string_def sample_ids sample_verified_def)

lemma sample_saga_prepare: "saga_prepare list_git show_dec parse_dec ''t2'' fresh sample_request sample_world =
    (Inr sample_prepared, \<lparr>w_store = prepared_store, w_git = sample_repo sample_base\<rparr>)"
proof -
  have "prepare_git_objects list_git show_dec parse_dec sample_request sample_world = Inr sample_verified"
    using sample_verify sample_git_calls(1,2)
    by (auto simp: prepare_git_objects_def sample_world_def git_err_def sample_verified_def)
  then show ?thesis
    using prepare_sample
    by (simp add: saga_prepare_def and_do_read sample_request_def record_intent_def sample_strings store_do_def
        sample_intent_def sample_verified_def sample_world_def sample_prepared_def)
qed

lemma sample_cas: "compare_and_swap_canonical_ref list_git sample_prepared
    \<lparr>w_store = prepared_store, w_git = sample_repo sample_base\<rparr> =
  (Inr (), \<lparr>w_store = prepared_store, w_git = sample_repo sample_target\<rparr>)"
  using sample_git_calls(2,3)
  by (simp add: compare_and_swap_canonical_ref_def sample_prepared_def sample_verified_def and_do_read git_do_def)

lemma sample_revision: "current_revision prepared_store ''P'' = 3"
  by (simp add: current_revision_def prepared_store_eq)

lemma sample_execute:
  "\<exists>rec w'. execute_promotion list_git show_dec parse_dec show_error ''t2'' fresh sample_request sample_world = (Inr rec, w')"
proof -
  let ?row = "promotion_row sample_intent"
  have row: "pw_project_id ?row = ''P''" "pw_state ?row = ''prepared''" "pw_target_commit ?row = sample_target"
    by (simp_all add: promotion_row_def sample_intent_def)
  obtain s3 where m: "mark_promotion_ref_updated ''t2'' ''I'' sample_target 3 prepared_store = Inr ((''I'', 4), s3)"
    and s3: "promotion_intent s3 = (promotion_intent prepared_store)(''I'' \<mapsto> set_promotion_state ''t2'' ''ref_updated'' ?row)"
    using mark_ok [OF prepared_sample_intent, of 3 "''t2''"] sample_revision row by auto
  have row3: "promotion_intent s3 ''I'' = Some (set_promotion_state ''t2'' ''ref_updated'' ?row)" using s3 by simp
  have rev3: "current_revision s3 ''P'' = 4" using mark_revision [OF m prepared_sample_intent] row(1) by simp
  obtain s4 where f: "finalize_promotion ''t2'' ''I'' 4 s3 = Inr ((''I'', 5), s4)"
    using finalize_ok [OF row3, of 4 "''t2''"] rev3 row(1) by (auto simp: set_promotion_state_def)
  have "saga_mark ''t2'' sample_prepared \<lparr>w_store = prepared_store, w_git = sample_repo sample_target\<rparr> =
      (Inr \<lparr>rt_intent_id = ''I'', rt_target_commit = sample_target, rt_revision = 4\<rparr>,
       \<lparr>w_store = s3, w_git = sample_repo sample_target\<rparr>)"
    using m sample_revision by (simp add: saga_mark_def sample_prepared_def sample_verified_def store_do_def)
  moreover have "cleanup_loser_candidate_refs list_git show_dec parse_dec ''cset_1'' ''cand_2''
      \<lparr>w_store = s3, w_git = sample_repo sample_target\<rparr> = (Inr (), \<lparr>w_store = s3, w_git = sample_repo sample_target\<rparr>)"
    using sample_git_calls(4)
    by (simp add: cleanup_loser_candidate_refs_def sample_ids git_do_def and_do_read candidate_ref_def)
  ultimately show ?thesis
    using f rev3 sample_saga_prepare sample_cas
    by (simp add: execute_promotion_def saga_finalize_def sample_prepared_def sample_verified_def store_do_def)
qed

section \<open>Guarantees\<close>

text \<open>C39 Executing a promotion of a canonical ref outside the two candidate namespaces, with git under \<open>git_laws\<close>
  and nobody else writing refs meanwhile. If it succeeds, the ref stores the receipt's target and the receipt's intent
  is finalized at that ref and target. Whatever happens, the ref is unchanged, or it went from the expected commit (or
  from a symbolic ref, which is replaced) to the target commit of a stored intent for it that is prepared, ref-updated
  or finalized. No other ref outside the candidate namespaces changes.\<close>

theorem execute_promotion_safe:
  assumes "git_laws hl git refs" and "outside_candidates (rq_canonical_ref rq)"
    and "execute_promotion git show_uuid parse_uuid show_error t fresh rq w = (r, w')"
  shows "(\<forall>rec. r = Inr rec \<longrightarrow> promoted_at refs (rq_canonical_ref rq) w' rec)
    \<and> (refs (w_git w') (rq_canonical_ref rq) = refs (w_git w) (rq_canonical_ref rq) \<or>
       move_explained refs (rq_canonical_ref rq) w w')
    \<and> (\<forall>n. outside_candidates n \<longrightarrow> n \<noteq> rq_canonical_ref rq \<longrightarrow> refs (w_git w') n = refs (w_git w) n)"
  by (rule execute_cases [OF assms])

lemma execute_promotion_safe_witness:
  "\<exists>rec w'. execute_promotion list_git show_dec parse_dec (\<lambda>_. ''failed'') ''t2'' ''J'' sample_request sample_world = (Inr rec, w')
    \<and> promoted_at map_of ''refs/heads/main'' w' rec"
proof -
  obtain rec w' where run: "execute_promotion list_git show_dec parse_dec (\<lambda>_. ''failed'') ''t2'' ''J'' sample_request
      sample_world = (Inr rec, w')"
    using sample_execute by blast
  have out: "outside_candidates (rq_canonical_ref sample_request)"
    by (simp add: sample_request_def sample_strings)
  have "promoted_at map_of (rq_canonical_ref sample_request) w' rec"
    using execute_promotion_safe [OF list_git_laws out run] by blast
  then show ?thesis using run by (auto simp: sample_request_def)
qed

text \<open>C40 Recovery of a stored intent that is prepared or ref-updated, has non-empty refs and commits, and whose canonical
  ref lies outside the candidate namespaces and can be observed, with the project's revision below \<open>2 ^ 63 - 3\<close>
  and git under \<open>git_laws\<close>. At the expected commit recovery changes nothing and answers Retry (the module's
  documentation says such an intent is aborted); at the target commit, when it differs from the expected one, the
  intent ends finalized; at any other commit, or with no ref, it ends aborted. In each case the intent keeps its
  identity and commits, and the canonical ref is as it was.\<close>

theorem saga_recovery_outcomes:
  assumes "git_laws hl git refs" and "outside_candidates (pw_canonical_ref row)"
    and "promotion_intent (w_store w) i = Some row" and "intent_wf row"
    and "pw_state row \<in> {''prepared'', ''ref_updated''}"
    and "current_revision (w_store w) (pw_project_id row) + 3 < 2 ^ 63"
    and "observe_ref git (pw_canonical_ref row) (w_git w) = Inr observed"
    and "saga_recover git show_uuid parse_uuid t i w = (r, w')"
  shows "refs (w_git w') (pw_canonical_ref row) = refs (w_git w) (pw_canonical_ref row)
    \<and> (if observed = Some (pw_expected_commit row) then
         w' = w \<and> (\<exists>res. r = Inr res \<and> rr_action res = Retry \<and> rr_intent res = row)
       else \<exists>row'. promotion_intent (w_store w') i = Some row' \<and> same_promotion row row' \<and>
         pw_state row' = (if observed = Some (pw_target_commit row) then ''finalized'' else ''aborted''))"
proof -
  consider "observed = Some (pw_expected_commit row)"
    | "observed = Some (pw_target_commit row)" "pw_target_commit row \<noteq> pw_expected_commit row"
    | "observed \<noteq> Some (pw_expected_commit row)" "observed \<noteq> Some (pw_target_commit row)" by blast
  then show ?thesis
  proof cases
    case 1
    then show ?thesis
      using saga_recover_retry [OF assms(3-5), of git show_uuid parse_uuid t] assms(7,8) by auto
  next
    case 2
    note fin = saga_recover_finalize [OF assms(1-6) assms(7) [unfolded 2(1)] 2(2) assms(8)]
    show ?thesis using fin(1,2) 2 by auto
  next
    case 3
    note foreign = saga_recover_foreign [OF assms(3-7) 3 assms(8)]
    show ?thesis using foreign 3 by auto
  qed
qed

definition prepared_world :: "string \<Rightarrow> (string \<times> string) list World" where
  "prepared_world tip = \<lparr>w_store = prepared_store, w_git = sample_repo tip\<rparr>"

lemma prepared_world_facts:
  "promotion_intent (w_store (prepared_world tip)) ''I'' = Some (promotion_row sample_intent)"
  "intent_wf (promotion_row sample_intent)" "pw_state (promotion_row sample_intent) = ''prepared''"
  "outside_candidates (pw_canonical_ref (promotion_row sample_intent))"
  "current_revision (w_store (prepared_world tip)) (pw_project_id (promotion_row sample_intent)) = 3"
  using prepared_sample_intent sample_revision sample_strings
  by (simp_all add: prepared_world_def intent_wf_def promotion_row_def sample_intent_def)

lemma prepared_world_observe:
  "observe_ref list_git ''refs/heads/main'' (sample_repo (oid_of CHR ''f'')) = Inr (Some (oid_of CHR ''f''))"
  "oid_of CHR ''f'' \<noteq> sample_base" "oid_of CHR ''f'' \<noteq> sample_target"
  by code_simp+

lemma saga_recovery_outcomes_witness:
  "\<exists>row'. promotion_intent (w_store (snd (saga_recover list_git show_dec parse_dec ''t9'' ''I''
      (prepared_world (oid_of CHR ''f''))))) ''I'' = Some row' \<and> pw_state row' = ''aborted''"
proof -
  obtain r w' where run: "saga_recover list_git show_dec parse_dec ''t9'' ''I'' (prepared_world (oid_of CHR ''f'')) = (r, w')"
    by fastforce
  have "observe_ref list_git (pw_canonical_ref (promotion_row sample_intent)) (w_git (prepared_world (oid_of CHR ''f''))) =
      Inr (Some (oid_of CHR ''f''))"
    using prepared_world_observe(1) by (simp add: prepared_world_def promotion_row_def sample_intent_def)
  from saga_recovery_outcomes [OF list_git_laws prepared_world_facts(4,1,2) _ _ this run]
  show ?thesis
    using prepared_world_facts prepared_world_observe(2,3) run
    by (auto simp: promotion_row_def sample_intent_def)
qed

text \<open>A ref that is gone is only seen as such when git says nothing about it. \<open>show-ref --verify\<close> without \<open>--quiet\<close>
  reports a missing ref on its error output; recovery of an intent whose ref was deleted then fails and
  changes nothing.\<close>

lemma missing_ref_stops_recovery:
  assumes "promotion_intent (w_store w) i = Some row" and "intent_wf row"
    and "git_output git [''show-ref'', ''--hash'', ''--verify'', pw_canonical_ref row] (w_git w) = Some out"
    and "\<not> out_success out" and "out_stderr out \<noteq> []"
  shows "\<exists>e. saga_recover git show_uuid parse_uuid t i w = (Inl e, w)"
proof -
  have "\<exists>e. observe_ref git (pw_canonical_ref row) (w_git w) = Inl e"
    using assms(3-5) by (simp add: observe_ref_def split: option.split)
  then obtain e where "observe_ref git (pw_canonical_ref row) (w_git w) = Inl e" by blast
  then show ?thesis
    using assms(1,2) by (simp add: saga_recover_def intent_wf_def metadata_string_def and_do_read)
qed

text \<open>C29 An intent whose ref never moved stays: recovery of a prepared or ref-updated intent with non-empty refs and
  commits, whose canonical ref is observed at its expected commit, changes nothing and answers Retry; and in the
  store it leaves every preparation of a promotion for the same project fails, whatever the revision it expects.\<close>

theorem unmoved_intent_blocks_project:
  assumes "promotion_intent (w_store w) i = Some row" and "intent_wf row"
    and "pw_state row \<in> {''prepared'', ''ref_updated''}"
    and "observe_ref git (pw_canonical_ref row) (w_git w) = Inr (Some (pw_expected_commit row))"
    and "saga_recover git show_uuid parse_uuid t i w = (r, w')"
  shows "w' = w \<and> (\<exists>res. r = Inr res \<and> rr_action res = Retry)
    \<and> (pd_project_id d = pw_project_id row \<longrightarrow> (\<exists>err. Promo_Intents.prepare_promotion t2 d e (w_store w') = Inl err))"
proof -
  have same: "w' = w" and retry: "\<exists>res. r = Inr res \<and> rr_action res = Retry"
    using saga_recover_retry [OF assms(1-4), of show_uuid parse_uuid t] assms(5) by auto
  have blocked: "\<exists>err. Promo_Intents.prepare_promotion t2 d e (w_store w) = Inl err"
    if d: "pd_project_id d = pw_project_id row"
  proof (rule ccontr)
    assume "\<not> ?thesis"
    then obtain m s' where "Promo_Intents.prepare_promotion t2 d e (w_store w) = Inr (m, s')"
      by (metis obj_sumE surj_pair)
    then obtain s1 a where p: "ensure_revision (w_store w) (pd_project_id d) e = Inr (s1, a)"
      and none: "find (\<lambda>row. pw_project_id row = pd_project_id d \<and> promotion_active row) (st_promotions s1) = None"
      unfolding prepare_promotion_def
      by (auto simp: and_then_Inr split: if_splits option.splits dest!: parse_promotion_id)
    have "promotion_intent s1 i = Some row" using promotion_intent_ensure [OF p] assms(1) by simp
    then have "row \<in> set (st_promotions s1)" by (auto simp: promotion_intent_def dest: find_key_Some)
    then show False using none d assms(3) by (auto simp: find_None_iff promotion_active_def)
  qed
  show ?thesis using same retry blocked by blast
qed

lemma unmoved_intent_blocks_project_witness:
  "\<exists>err. Promo_Intents.prepare_promotion ''t9'' (sample_intent\<lparr>pd_id := ''J'', pd_expected_revision := 3\<rparr>) 3 prepared_store = Inl err"
proof -
  obtain r w' where run: "saga_recover list_git show_dec parse_dec ''t9'' ''I'' (prepared_world sample_base) = (r, w')"
    by fastforce
  have "observe_ref list_git (pw_canonical_ref (promotion_row sample_intent)) (w_git (prepared_world sample_base)) =
      Inr (Some (pw_expected_commit (promotion_row sample_intent)))"
    using sample_git_calls(2) by (simp add: prepared_world_def promotion_row_def sample_intent_def)
  from unmoved_intent_blocks_project [OF prepared_world_facts(1,2) _ this run,
      of "sample_intent\<lparr>pd_id := ''J'', pd_expected_revision := 3\<rparr>" "''t9''" 3]
  show ?thesis
    using prepared_world_facts(3) by (auto simp: promotion_row_def sample_intent_def prepared_world_def)
qed

lemma store_inv_steps: "store_tx\<^sup>*\<^sup>* s s' \<Longrightarrow> store_inv s \<Longrightarrow> store_inv s'"
  by (induction rule: rtranclp_induct) (auto intro: store_inv_step)

lemma parse_refs_malformed:
  "n \<in> set ns \<Longrightarrow> candidate_ref_parse show_uuid parse_uuid n = Inl err \<Longrightarrow> \<exists>e. parse_refs show_uuid parse_uuid ns = Inl e"
proof (induction ns)
  case (Cons a ns)
  then show ?case
    by (cases "candidate_ref_parse show_uuid parse_uuid a"; cases "parse_refs show_uuid parse_uuid ns") auto
qed simp

lemma cleanup_malformed:
  assumes "list_candidate_ref_names git (w_git w) = Inr ns" and "n \<in> set ns"
    and "candidate_ref_parse show_uuid parse_uuid n = Inl err"
  shows "\<exists>e. cleanup_loser_candidate_refs git show_uuid parse_uuid sid cid w = (Inl e, w)"
proof -
  obtain e where "list_candidate_refs git show_uuid parse_uuid (w_git w) = Inl e"
    using parse_refs_malformed [OF assms(2,3)] assms(1) by (auto simp: list_candidate_refs_def)
  then show ?thesis
    by (cases "parse_identity ''cset_'' parse_uuid sid"; cases "parse_identity ''cand_'' parse_uuid cid")
      (simp_all add: cleanup_loser_candidate_refs_def git_do_def and_do_read)
qed

lemma recover_rest_fails:
  assumes "list_candidate_ref_names git (w_git w) = Inr ns" and "n \<in> set ns"
    and "candidate_ref_parse show_uuid parse_uuid n = Inl err"
    and "promotion_intent (w_store w) i = Some row" and "pw_state row = ''finalized''"
  shows "\<exists>e. recover_rest git show_uuid parse_uuid i observed q action w = (Inl e, w)"
proof -
  obtain e where e: "cleanup_loser_candidate_refs git show_uuid parse_uuid (pw_candidate_set_id row)
      (pw_candidate_id row) w = (Inl e, w)"
    using cleanup_malformed [OF assms(1-3)] by blast
  then show ?thesis using assms(4,5) by (auto simp: recover_rest_def metadata_string_def)
qed

lemma settled_not_incomplete:
  assumes "store_inv s" and "promotion_intent s i = Some row" and "pw_state row = ''finalized''"
  shows "i \<notin> pw_id ` set (incomplete_promotions s q limit)"
proof
  assume "i \<in> pw_id ` set (incomplete_promotions s q limit)"
  then obtain x where x: "x \<in> set (st_promotions s)" "pw_id x = i" "pw_state x \<in> {''prepared'', ''ref_updated'', ''conflicted''}"
    by (auto simp: incomplete_promotions_def dest!: in_set_takeD)
  then have "x = row"
    using assms find_key_distinct [of pw_id "st_promotions s" x]
    by (auto simp: store_inv_def keys_unique_def promotion_intent_def)
  then show False using x(3) assms(3) by auto
qed

text \<open>One ref in the candidate namespace whose name does not parse stops the cleanup of every promotion.
  Finalizing a promotion then fails and leaves its intent as it was, for recovery to find; but recovery at the
  target commit fails after it has finalized the intent, which is no longer among the incomplete ones.\<close>

theorem malformed_ref_stops_cleanup:
  assumes "list_candidate_ref_names git (w_git w) = Inr ns" and "n \<in> set ns"
    and "candidate_ref_parse show_uuid parse_uuid n = Inl err"
    and "store_inv (w_store w)" and "promotion_intent (w_store w) i = Some row" and "intent_wf row"
    and "pw_state row \<in> {''prepared'', ''ref_updated''}"
    and "current_revision (w_store w) (pw_project_id row) + 3 < 2 ^ 63"
    and "observe_ref git (pw_canonical_ref row) (w_git w) = Inr (Some (pw_target_commit row))"
    and "pw_target_commit row \<noteq> pw_expected_commit row"
    and "git_laws hl git refs" and "saga_recover git show_uuid parse_uuid t i w = (r, w')"
  shows "(\<exists>e. saga_finalize git show_uuid parse_uuid t p w = (Inl e, w))
    \<and> (\<exists>e row'. r = Inl e \<and> promotion_intent (w_store w') i = Some row' \<and> pw_state row' = ''finalized'')
    \<and> i \<notin> pw_id ` set (incomplete_promotions (w_store w') (pw_project_id row) limit)"
proof -
  obtain e0 where "cleanup_loser_candidate_refs git show_uuid parse_uuid (vp_candidate_set_id (pp_verified p))
      (vp_candidate_id (pp_verified p)) w = (Inl e0, w)"
    using cleanup_malformed [OF assms(1-3)] by blast
  then have "\<exists>e. saga_finalize git show_uuid parse_uuid t p w = (Inl e, w)" by (simp add: saga_finalize_def)
  moreover obtain s row' where s: "promotion_intent s i = Some row'" "pw_state row' = ''finalized''"
      "store_tx\<^sup>*\<^sup>* (w_store w) s" and rest: "recover_rest git show_uuid parse_uuid i (Some (pw_target_commit row))
        (pw_project_id row) Finalize (w\<lparr>w_store := s\<rparr>) = (r, w')"
    using saga_recover_finalize(3) [OF assms(11) _ assms(5-10,12), of "''HEAD''"]
    by (auto simp: outside_candidates_def starts_with_iff CANDIDATE_REF_PREFIX_def CANDIDATE_BASE_REF_PREFIX_def)
  have "\<exists>e. recover_rest git show_uuid parse_uuid i (Some (pw_target_commit row)) (pw_project_id row) Finalize
      (w\<lparr>w_store := s\<rparr>) = (Inl e, w\<lparr>w_store := s\<rparr>)"
    by (rule recover_rest_fails [OF _ assms(2,3)]) (use s(1,2) assms(1) in simp_all)
  then have "\<exists>e. r = Inl e" and "w_store w' = s" using rest by auto
  ultimately show ?thesis
    using s settled_not_incomplete [OF store_inv_steps [OF s(3) assms(4)] s(1,2)] by blast
qed

definition stray_repo :: "(string \<times> string) list" where
  "stray_repo = (''refs/tasker/candidates/old/ref'', sample_base) # sample_repo sample_target"

lemma stray_calls:
  "list_candidate_ref_names list_git stray_repo =
     Inr [''refs/tasker/candidates/cset_1/cand_2'', ''refs/tasker/candidates/old/ref'']"
  "observe_ref list_git ''refs/heads/main'' stray_repo = Inr (Some sample_target)"
  "candidate_ref_parse show_dec parse_dec ''refs/tasker/candidates/old/ref'' =
     Inl (GitBail ''candidate ref contains an invalid candidate-set id'')"
  by code_simp+

lemma malformed_ref_stops_cleanup_witness:
  "\<exists>e row'. fst (saga_recover list_git show_dec parse_dec ''t9'' ''I'' \<lparr>w_store = prepared_store, w_git = stray_repo\<rparr>) = Inl e
    \<and> promotion_intent (w_store (snd (saga_recover list_git show_dec parse_dec ''t9'' ''I''
        \<lparr>w_store = prepared_store, w_git = stray_repo\<rparr>))) ''I'' = Some row' \<and> pw_state row' = ''finalized''"
proof -
  let ?w = "\<lparr>w_store = prepared_store, w_git = stray_repo\<rparr>"
  obtain r w' where run: "saga_recover list_git show_dec parse_dec ''t9'' ''I'' ?w = (r, w')" by fastforce
  have row: "pw_canonical_ref (promotion_row sample_intent) = ''refs/heads/main''"
    "pw_target_commit (promotion_row sample_intent) = sample_target"
    "pw_expected_commit (promotion_row sample_intent) = sample_base"
    by (simp_all add: promotion_row_def sample_intent_def)
  have names: "list_candidate_ref_names list_git (w_git ?w) =
     Inr [''refs/tasker/candidates/cset_1/cand_2'', ''refs/tasker/candidates/old/ref'']"
    using stray_calls(1) by simp
  have intent: "promotion_intent (w_store ?w) ''I'' = Some (promotion_row sample_intent)"
    using prepared_sample_intent by simp
  have inv: "store_inv (w_store ?w)" using reachable_inv [OF prepared_reachable] by simp
  have rev: "current_revision (w_store ?w) (pw_project_id (promotion_row sample_intent)) + 3 < 2 ^ 63"
    using prepared_world_facts(5) by (simp add: prepared_world_def)
  have obs: "observe_ref list_git (pw_canonical_ref (promotion_row sample_intent)) (w_git ?w) =
      Inr (Some (pw_target_commit (promotion_row sample_intent)))"
    using stray_calls(2) row by simp
  have ne: "pw_target_commit (promotion_row sample_intent) \<noteq> pw_expected_commit (promotion_row sample_intent)"
    using sample_commits_differ row by simp
  from malformed_ref_stops_cleanup [OF names _ stray_calls(3) inv intent prepared_world_facts(2) _ rev obs ne
      list_git_laws run]
  show ?thesis using prepared_world_facts(3) run by auto
qed

end
