(* ===== verification/Json.thy ===== *)
theory Json
  imports Prelude
begin

text \<open>
  JSON values (\<open>serde_json::Value\<close>) as the repository uses them. An object is a \<open>BTreeMap\<close>: the list of
  its entries in key order. An integer fits \<open>u64\<close> or \<open>i64\<close>, a range the type does not enforce; a float is
  its 64 bits. The text form belongs to \<open>serde_json\<close> and is a parameter where it is used.
\<close>

datatype Json =
    JNull
  | JBool bool
  | JInt int
  | JFloat "64 word"
  | JString string
  | JArray "Json list"
  | JObject "(string \<times> Json) list"

type_synonym JsonMap = "(string \<times> Json) list"

section \<open>Objects\<close>

definition obj_get :: "(string \<times> 'v) list \<Rightarrow> string \<Rightarrow> 'v option" where
  "obj_get m k = map_of m k"

fun obj_put :: "string \<Rightarrow> 'v \<Rightarrow> (string \<times> 'v) list \<Rightarrow> (string \<times> 'v) list" where
  "obj_put k v [] = [(k, v)]"
| "obj_put k v (e # m) =
     (if k < fst e then (k, v) # e # m else if k = fst e then (k, v) # m else e # obj_put k v m)"

definition obj_remove :: "string \<Rightarrow> (string \<times> 'v) list \<Rightarrow> (string \<times> 'v) list" where
  "obj_remove k m = filter (\<lambda>e. fst e \<noteq> k) m"

text \<open>\<open>json!({...})\<close> and \<open>to_value\<close> of a struct: the entries in the order they are written.\<close>

definition obj_of :: "(string \<times> 'v) list \<Rightarrow> (string \<times> 'v) list" where
  "obj_of es = foldl (\<lambda>m e. obj_put (fst e) (snd e) m) [] es"

lemma obj_get_put [simp]: "obj_get (obj_put k v m) j = (if j = k then Some v else obj_get m j)"
  by (induction m) (auto simp: obj_get_def)

lemma obj_get_Nil [simp]: "obj_get [] k = None"
  by (simp add: obj_get_def)

lemma obj_get_remove [simp]: "obj_get (obj_remove k m) j = (if j = k then None else obj_get m j)"
  by (induction m) (auto simp: obj_get_def obj_remove_def)

lemma set_obj_put: "set (obj_put k v m) \<subseteq> insert (k, v) (set m)"
  by (induction m) auto

lemma keys_obj_put: "fst ` set (obj_put k v m) = insert k (fst ` set m)"
  by (induction m) auto

definition obj_ok :: "(string \<times> 'v) list \<Rightarrow> bool" where
  "obj_ok m \<longleftrightarrow> sorted_wrt (<) (map fst m)"

lemma obj_ok_Nil [simp]: "obj_ok []"
  by (simp add: obj_ok_def)

lemma obj_ok_Cons: "obj_ok (e # m) \<longleftrightarrow> (\<forall>j \<in> fst ` set m. fst e < j) \<and> obj_ok m"
  by (auto simp: obj_ok_def)

lemma obj_ok_put: "obj_ok m \<Longrightarrow> obj_ok (obj_put k v m)"
proof (induction m)
  case (Cons e m)
  then have rest: "obj_ok (obj_put k v m)" and e: "\<forall>j \<in> fst ` set m. fst e < j" and m: "obj_ok m"
    by (auto simp: obj_ok_Cons)
  consider "k < fst e" | "k = fst e" | "fst e < k" by (rule linorder_cases)
  then show ?case
  proof cases
    case 1
    then have "\<forall>j \<in> fst ` set m. k < j" using e by (meson less_trans)
    then show ?thesis using 1 e m by (simp add: obj_ok_Cons)
  next
    case 2
    then show ?thesis using e m by (simp add: obj_ok_Cons)
  next
    case 3
    then have "\<not> k < fst e" "k \<noteq> fst e" by auto
    then show ?thesis using 3 e rest by (simp add: obj_ok_Cons keys_obj_put)
  qed
qed (simp add: obj_ok_def)

lemma obj_ok_remove: "obj_ok m \<Longrightarrow> obj_ok (obj_remove k m)"
  by (induction m) (auto simp: obj_remove_def obj_ok_Cons)

lemma obj_ok_of: "obj_ok (obj_of es)"
  unfolding obj_of_def
proof (induction es rule: rev_induct)
  case (snoc e es)
  then show ?case by (simp add: obj_ok_put)
qed simp

lemma obj_get_of: "obj_get (obj_of es) k = map_of (rev es) k"
  unfolding obj_of_def
proof (induction es rule: rev_induct)
  case (snoc e es)
  then show ?case by (cases e) simp
qed simp

text \<open>Two maps with the same entries are equal.\<close>

lemma obj_ok_eqI:
  assumes "obj_ok m" and "obj_ok n" and "\<And>k. obj_get m k = obj_get n k"
  shows "m = n"
proof -
  have d: "distinct (map fst m)" "distinct (map fst n)"
    using assms(1,2) by (auto simp: obj_ok_def strict_sorted_iff)
  have "map_of m = map_of n" using assms(3) by (auto simp: obj_get_def fun_eq_iff)
  then have set: "set m = set n" using map_of_inject_set [OF d] by simp
  then have "inj_on fst (set m \<union> set n)" using d by (simp add: distinct_map)
  then show ?thesis
    using set assms(1,2) d map_sorted_distinct_set_unique [of fst m n]
    by (simp add: obj_ok_def strict_sorted_iff)
qed

section \<open>Accessors\<close>

fun as_object :: "Json \<Rightarrow> JsonMap option" where
  "as_object (JObject m) = Some m"
| "as_object _ = None"

fun as_array :: "Json \<Rightarrow> Json list option" where
  "as_array (JArray xs) = Some xs"
| "as_array _ = None"

fun as_str :: "Json \<Rightarrow> string option" where
  "as_str (JString s) = Some s"
| "as_str _ = None"

fun as_bool :: "Json \<Rightarrow> bool option" where
  "as_bool (JBool b) = Some b"
| "as_bool _ = None"

fun as_u64 :: "Json \<Rightarrow> nat option" where
  "as_u64 (JInt i) = (if 0 \<le> i then Some (nat i) else None)"
| "as_u64 _ = None"

fun as_i64 :: "Json \<Rightarrow> int option" where
  "as_i64 (JInt i) = (if i < 2 ^ 63 then Some i else None)"
| "as_i64 _ = None"

definition json_nat :: "nat \<Rightarrow> Json" where
  "json_nat n = JInt (int n)"

lemma as_u64_nat [simp]: "as_u64 (json_nat n) = Some n"
  by (simp add: json_nat_def)

definition json_opt :: "('a \<Rightarrow> Json) \<Rightarrow> 'a option \<Rightarrow> Json" where
  "json_opt f x = (case x of None \<Rightarrow> JNull | Some a \<Rightarrow> f a)"

section \<open>Reading a struct\<close>

text \<open>
  What \<open>serde\<close>'s derived \<open>Deserialize\<close> does with a field: a plain field must be present, an \<open>Option\<close>
  may be absent or null; other keys of the object are ignored.
\<close>

definition de_field :: "string \<Rightarrow> (Json \<Rightarrow> 'a option) \<Rightarrow> JsonMap \<Rightarrow> 'a option" where
  "de_field k f m = Option.bind (obj_get m k) f"

definition de_opt :: "string \<Rightarrow> (Json \<Rightarrow> 'a option) \<Rightarrow> JsonMap \<Rightarrow> 'a option option" where
  "de_opt k f m = (case obj_get m k of None \<Rightarrow> Some None | Some JNull \<Rightarrow> Some None
     | Some v \<Rightarrow> map_option Some (f v))"

fun de_all :: "(Json \<Rightarrow> 'a option) \<Rightarrow> Json list \<Rightarrow> 'a list option" where
  "de_all f [] = Some []"
| "de_all f (x # xs) = Option.bind (f x) (\<lambda>a. Option.bind (de_all f xs) (\<lambda>as. Some (a # as)))"

definition de_list :: "(Json \<Rightarrow> 'a option) \<Rightarrow> Json \<Rightarrow> 'a list option" where
  "de_list f v = Option.bind (as_array v) (de_all f)"

definition de_nat :: "nat \<Rightarrow> Json \<Rightarrow> nat option" where
  "de_nat bound v = Option.bind (as_u64 v) (\<lambda>n. if n < bound then Some n else None)"

lemma de_all_map: "(\<And>x. x \<in> set xs \<Longrightarrow> f (g x) = Some (h x)) \<Longrightarrow> de_all f (map g xs) = Some (map h xs)"
  by (induction xs) auto

lemma de_list_map:
  "(\<And>x. x \<in> set xs \<Longrightarrow> f (g x) = Some (h x)) \<Longrightarrow> de_list f (JArray (map g xs)) = Some (map h xs)"
  by (simp add: de_list_def de_all_map)

lemma de_nat_json [simp]: "de_nat b (json_nat n) = (if n < b then Some n else None)"
  by (simp add: de_nat_def)

section \<open>Values without floats\<close>

text \<open>The values a struct of texts, booleans and integers serialises to.\<close>

fun json_plain :: "Json \<Rightarrow> bool" where
  "json_plain (JFloat _) = False"
| "json_plain (JArray xs) = list_all json_plain xs"
| "json_plain (JObject m) = (obj_ok m \<and> list_all (\<lambda>e. json_plain (snd e)) m)"
| "json_plain _ = True"

lemma json_plain_put: "list_all (\<lambda>e. json_plain (snd e)) m \<Longrightarrow> json_plain v \<Longrightarrow>
    list_all (\<lambda>e. json_plain (snd e)) (obj_put k v m)"
  using set_obj_put [of k v m] by (auto simp: list_all_iff)

lemma json_plain_of: "list_all (\<lambda>e. json_plain (snd e)) es \<Longrightarrow> json_plain (JObject (obj_of es))"
proof -
  assume "list_all (\<lambda>e. json_plain (snd e)) es"
  then have "list_all (\<lambda>e. json_plain (snd e)) (obj_of es)"
    unfolding obj_of_def by (induction es rule: rev_induct) (auto simp: json_plain_put)
  then show ?thesis by (simp add: obj_ok_of)
qed

lemmas json_read = de_field_def de_opt_def json_opt_def obj_get_of

end
