(* ===== verification/Tasker_Serde.thy ===== *)
theory Tasker_Serde
  imports Json Tasker_Adjudicate
begin

text \<open>
  The JSON form of the Tasker's entities: what the derived \<open>Serialize\<close> and \<open>Deserialize\<close> of the structs
  in \<open>crates/jcode-tasker-types\<close> and of the \<open>Stored*\<close> structs of \<open>crates/jcode-tasker-rounds/src/lib.rs\<close>
  write and accept. The text forms of UUIDs, times and JSON belong to their crates and are parameters.
\<close>

record Texts =
  tx_uuid :: "Uuid \<Rightarrow> string"
  tx_parse_uuid :: "string \<Rightarrow> Uuid option"
  tx_time :: "DateTime \<Rightarrow> string"
  tx_parse_time :: "string \<Rightarrow> DateTime option"
  tx_json :: "Json \<Rightarrow> string"
  tx_read :: "string \<Rightarrow> Json option"

text \<open>Printing, then parsing, is the identity; for JSON, on values without floats.\<close>

definition texts_ok :: "Texts \<Rightarrow> bool" where
  "texts_ok tx \<longleftrightarrow> (\<forall>i. tx_parse_uuid tx (tx_uuid tx i) = Some i) \<and> (\<forall>d. tx_parse_time tx (tx_time tx d) = Some d) \<and>
     (\<forall>v. json_plain v \<longrightarrow> tx_read tx (tx_json tx v) = Some v)"

section \<open>Scalars\<close>

definition id_json :: "Texts \<Rightarrow> string \<Rightarrow> Uuid \<Rightarrow> Json" where
  "id_json tx prefix i = JString (typed_id_display prefix (tx_uuid tx) i)"

definition de_id :: "Texts \<Rightarrow> string \<Rightarrow> Json \<Rightarrow> Uuid option" where
  "de_id tx prefix v = (case as_str v of None \<Rightarrow> None
     | Some s \<Rightarrow> (case typed_id_from_str prefix (tx_parse_uuid tx) s of Inr i \<Rightarrow> Some i | Inl _ \<Rightarrow> None))"

definition time_json :: "Texts \<Rightarrow> DateTime \<Rightarrow> Json" where
  "time_json tx d = JString (tx_time tx d)"

definition de_time :: "Texts \<Rightarrow> Json \<Rightarrow> DateTime option" where
  "de_time tx v = Option.bind (as_str v) (tx_parse_time tx)"

definition u16_json :: "16 word \<Rightarrow> Json" where
  "u16_json w = json_nat (unat w)"

definition de_u16 :: "Json \<Rightarrow> 16 word option" where
  "de_u16 v = map_option of_nat (de_nat (2 ^ 16) v)"

definition u64_json :: "64 word \<Rightarrow> Json" where
  "u64_json w = json_nat (unat w)"

definition de_u64 :: "Json \<Rightarrow> 64 word option" where
  "de_u64 v = map_option of_nat (de_nat (2 ^ 64) v)"

lemma de_id_json [simp]: "texts_ok tx \<Longrightarrow> de_id tx p (id_json tx p i) = Some i"
  by (simp add: texts_ok_def de_id_def id_json_def typed_id_display_def typed_id_from_str_def strip_prefix_Some_iff
      split: option.splits)

lemma de_time_json [simp]: "texts_ok tx \<Longrightarrow> de_time tx (time_json tx d) = Some d"
  by (simp add: texts_ok_def de_time_def time_json_def)

lemma de_u16_json [simp]: "de_u16 (u16_json w) = Some w"
  using unsigned_less [of w] by (simp add: de_u16_def u16_json_def)

lemma de_u64_json [simp]: "de_u64 (u64_json w) = Some w"
  using unsigned_less [of w] by (simp add: de_u64_def u64_json_def)

section \<open>Enums\<close>

definition de_policy :: "Json \<Rightarrow> ConcurrencyPolicy option" where
  "de_policy v = Option.bind (as_object v) (\<lambda>m. Option.bind (de_field ''kind'' as_str m) (\<lambda>kind.
     if kind = ''exclusive'' then Some Exclusive
     else if kind = ''speculative'' then map_option Speculative (de_field ''max_candidates'' de_u16 m)
     else if kind = ''ensemble'' then Option.bind (de_field ''candidate_count'' de_u16 m) (\<lambda>n.
       map_option (Ensemble n) (de_field ''quorum'' de_u16 m))
     else None))"

definition policy_json :: "ConcurrencyPolicy \<Rightarrow> Json" where
  "policy_json p = JObject (obj_of (case p of
     Exclusive \<Rightarrow> [(''kind'', JString ''exclusive'')]
   | Speculative n \<Rightarrow> [(''kind'', JString ''speculative''), (''max_candidates'', u16_json n)]
   | Ensemble n q \<Rightarrow> [(''kind'', JString ''ensemble''), (''candidate_count'', u16_json n), (''quorum'', u16_json q)]))"

definition set_states :: "(string \<times> CandidateSetState) list" where
  "set_states = [(''open'', SetOpen), (''adjudicating'', SetAdjudicating), (''decided'', SetDecided),
     (''promoting'', SetPromoting), (''completed'', SetCompleted), (''cancelled'', SetCancelled)]"

definition candidate_states :: "(string \<times> CandidateState) list" where
  "candidate_states = [(''registered'', Registered), (''authoring'', Authoring), (''submitted'', Submitted),
     (''validating'', Validating), (''eligible'', Eligible), (''rejected'', Rejected), (''failed'', Failed),
     (''selected'', Selected), (''superseded'', Superseded), (''promoted'', Promoted)]"

definition resource_kinds :: "(string \<times> ResourceKind) list" where
  "resource_kinds = [(''file'', ResFile), (''directory'', ResDirectory), (''task'', ResTask), (''schema'', ResSchema),
     (''external'', ResExternal)]"

definition resource_accesses :: "(string \<times> ResourceAccess) list" where
  "resource_accesses = [(''read'', AccessRead), (''propose_write'', AccessProposeWrite)]"

definition de_enum :: "(string \<times> 'a) list \<Rightarrow> Json \<Rightarrow> 'a option" where
  "de_enum names v = Option.bind (as_str v) (map_of names)"

section \<open>Stored candidates\<close>

record StoredCandidateSet =
  ss_id :: CandidateSetId
  ss_project_id :: ProjectId
  ss_policy :: ConcurrencyPolicy
  ss_policy_version :: nat
  ss_state :: CandidateSetState

definition de_stored_set :: "Texts \<Rightarrow> Json \<Rightarrow> StoredCandidateSet option" where
  "de_stored_set tx v = Option.bind (as_object v) (\<lambda>m.
     Option.bind (de_field ''id'' (de_id tx ''cset_'') m) (\<lambda>i.
     Option.bind (de_field ''projectId'' (de_id tx ''proj_'') m) (\<lambda>project.
     Option.bind (de_field ''policy'' de_policy m) (\<lambda>policy.
     Option.bind (de_field ''policyVersion'' (de_nat (2 ^ 32)) m) (\<lambda>version.
     Option.bind (de_field ''state'' (de_enum set_states) m) (\<lambda>state.
     Some \<lparr>ss_id = i, ss_project_id = project, ss_policy = policy, ss_policy_version = version, ss_state = state\<rparr>))))))"

definition de_provenance :: "Json \<Rightarrow> CandidateProvenance option" where
  "de_provenance v = Option.bind (as_object v) (\<lambda>m.
     Option.bind (de_field ''sessionId'' as_str m) (\<lambda>session.
     Option.bind (de_field ''agentId'' as_str m) (\<lambda>agent.
     Option.bind (de_opt ''modelId'' as_str m) (\<lambda>model.
     Option.bind (de_opt ''workUnitId'' as_str m) (\<lambda>work.
     Option.bind (de_opt ''lineageDigest'' as_str m) (\<lambda>lineage.
     Some \<lparr>cp_session_id = session, cp_agent_id = agent, cp_model_id = model, cp_work_unit_id = work,
       cp_lineage_digest = lineage\<rparr>))))))"

definition de_resource_intent :: "Json \<Rightarrow> ResourceIntent option" where
  "de_resource_intent v = Option.bind (as_object v) (\<lambda>m.
     Option.bind (de_field ''kind'' (de_enum resource_kinds) m) (\<lambda>kind.
     Option.bind (de_field ''selector'' as_str m) (\<lambda>selector.
     Option.bind (de_field ''access'' (de_enum resource_accesses) m) (\<lambda>access.
     Option.bind (de_opt ''rationale'' as_str m) (\<lambda>rationale.
     Some \<lparr>ri_kind = kind, ri_selector = selector, ri_access = access, ri_rationale = rationale\<rparr>)))))"

definition de_stored_candidate :: "Texts \<Rightarrow> Json \<Rightarrow> Candidate option" where
  "de_stored_candidate tx v = Option.bind (as_object v) (\<lambda>m.
     Option.bind (de_field ''id'' (de_id tx ''cand_'') m) (\<lambda>i.
     Option.bind (de_field ''candidateSetId'' (de_id tx ''cset_'') m) (\<lambda>set_id.
     Option.bind (de_field ''state'' (de_enum candidate_states) m) (\<lambda>state.
     Option.bind (de_field ''baseCommit'' as_str m) (\<lambda>base.
     Option.bind (de_opt ''resultCommit'' as_str m) (\<lambda>result.
     Option.bind (de_opt ''diffDigest'' as_str m) (\<lambda>diff.
     Option.bind (de_opt ''summary'' as_str m) (\<lambda>summary.
     Option.bind (de_field ''provenance'' de_provenance m) (\<lambda>provenance.
     Option.bind (de_field ''resourceIntents'' (de_list de_resource_intent) m) (\<lambda>intents.
     Option.bind (de_opt ''supersedesCandidateId'' (de_id tx ''cand_'') m) (\<lambda>supersedes.
     Option.bind (de_field ''createdAt'' (de_time tx) m) (\<lambda>created.
     Option.bind (de_field ''updatedAt'' (de_time tx) m) (\<lambda>updated.
     Option.bind (de_opt ''submittedAt'' (de_time tx) m) (\<lambda>submitted.
     Some \<lparr>cd_id = i, cd_candidate_set_id = set_id, cd_state = state, cd_base_commit = base,
       cd_result_commit = result, cd_diff_digest = diff, cd_summary = summary, cd_provenance = provenance,
       cd_resource_intents = intents, cd_supersedes_candidate_id = supersedes, cd_created_at = created,
       cd_updated_at = updated, cd_submitted_at = submitted\<rparr>))))))))))))))"

section \<open>Ballots\<close>

definition validator_json :: "ValidatorIdentity \<Rightarrow> Json" where
  "validator_json v = JObject (obj_of [(''session_id'', JString (vi_session_id v)), (''agent_id'', JString (vi_agent_id v)),
     (''model_id'', json_opt JString (vi_model_id v)), (''lineage_digest'', JString (vi_lineage_digest v))])"

definition assessment_json :: "Texts \<Rightarrow> CandidateAssessment \<Rightarrow> Json" where
  "assessment_json tx a = JObject (obj_of [(''candidate_id'', id_json tx ''cand_'' (ca_candidate_id a)),
     (''eligible'', JBool (ca_eligible a)), (''approve'', JBool (ca_approve a)),
     (''acceptance_score'', u16_json (ca_acceptance_score a)), (''risk_score'', u16_json (ca_risk_score a)),
     (''complexity_score'', u16_json (ca_complexity_score a)), (''notes'', JArray (map JString (ca_notes a)))])"

definition ballot_json :: "Texts \<Rightarrow> AdjudicationBallot \<Rightarrow> Json" where
  "ballot_json tx b = JObject (obj_of [(''id'', id_json tx ''ballot_'' (ab_id b)),
     (''round_id'', id_json tx ''adj_'' (ab_round_id b)), (''validator'', validator_json (ab_validator b)),
     (''assessments'', JArray (map (assessment_json tx) (ab_assessments b))),
     (''ranking'', JArray (map (id_json tx ''cand_'') (ab_ranking b))), (''abstained'', JBool (ab_abstained b)),
     (''created_at'', time_json tx (ab_created_at b))])"

definition de_stored_validator :: "Json \<Rightarrow> ValidatorIdentity option" where
  "de_stored_validator v = Option.bind (as_object v) (\<lambda>m.
     Option.bind (de_opt ''sessionId'' as_str m) (\<lambda>session.
     Option.bind (de_opt ''agentId'' as_str m) (\<lambda>agent.
     Option.bind (de_opt ''modelId'' as_str m) (\<lambda>model.
     Option.bind (de_field ''lineageDigest'' as_str m) (\<lambda>lineage.
     Some \<lparr>vi_session_id = (case session of Some s \<Rightarrow> s | None \<Rightarrow> []),
       vi_agent_id = (case agent of Some s \<Rightarrow> s | None \<Rightarrow> []), vi_model_id = model, vi_lineage_digest = lineage\<rparr>)))))"

definition de_stored_assessment :: "Texts \<Rightarrow> Json \<Rightarrow> CandidateAssessment option" where
  "de_stored_assessment tx v = Option.bind (as_object v) (\<lambda>m.
     Option.bind (de_field ''candidateId'' (de_id tx ''cand_'') m) (\<lambda>candidate.
     Option.bind (de_field ''eligible'' as_bool m) (\<lambda>eligible.
     Option.bind (de_field ''approve'' as_bool m) (\<lambda>approve.
     Option.bind (de_field ''acceptanceScore'' de_u16 m) (\<lambda>acceptance.
     Option.bind (de_field ''riskScore'' de_u16 m) (\<lambda>risk.
     Option.bind (de_field ''complexityScore'' de_u16 m) (\<lambda>complexity.
     Option.bind (de_field ''notes'' (de_list as_str) m) (\<lambda>notes.
     Some \<lparr>ca_candidate_id = candidate, ca_eligible = eligible, ca_approve = approve,
       ca_acceptance_score = acceptance, ca_risk_score = risk, ca_complexity_score = complexity,
       ca_notes = notes\<rparr>))))))))"

definition de_stored_ballot :: "Texts \<Rightarrow> Json \<Rightarrow> AdjudicationBallot option" where
  "de_stored_ballot tx v = Option.bind (as_object v) (\<lambda>m.
     Option.bind (de_field ''id'' (de_id tx ''ballot_'') m) (\<lambda>i.
     Option.bind (de_field ''roundId'' (de_id tx ''adj_'') m) (\<lambda>round_id.
     Option.bind (de_field ''validator'' de_stored_validator m) (\<lambda>validator.
     Option.bind (de_field ''assessments'' (de_list (de_stored_assessment tx)) m) (\<lambda>assessments.
     Option.bind (de_field ''ranking'' (de_list (de_id tx ''cand_'')) m) (\<lambda>ranking.
     Option.bind (de_field ''abstained'' as_bool m) (\<lambda>abstained.
     Option.bind (de_field ''createdAt'' (de_time tx) m) (\<lambda>created.
     Some \<lparr>ab_id = i, ab_round_id = round_id, ab_validator = validator, ab_assessments = assessments,
       ab_ranking = ranking, ab_abstained = abstained, ab_created_at = created\<rparr>))))))))"

section \<open>Decisions\<close>

definition tally_json :: "Texts \<Rightarrow> CandidateTally \<Rightarrow> Json" where
  "tally_json tx t = JObject (obj_of [(''candidate_id'', id_json tx ''cand_'' (ct_candidate_id t)),
     (''hard_gate_passed'', JBool (ct_hard_gate_passed t)), (''approval_count'', json_nat (ct_approval_count t)),
     (''assessment_count'', json_nat (ct_assessment_count t)), (''evidence_weight'', u64_json (ct_evidence_weight t)),
     (''risk_score_total'', u64_json (ct_risk_score_total t)),
     (''complexity_score_total'', u64_json (ct_complexity_score_total t)),
     (''created_at'', time_json tx (ct_created_at t))])"

definition reason_json :: "EscalationReason \<Rightarrow> Json" where
  "reason_json r = (case r of
     NoEligibleCandidate \<Rightarrow> JString ''NoEligibleCandidate''
   | AbstentionStarvation usable abstentions required \<Rightarrow> JObject [(''AbstentionStarvation'', JObject (obj_of
       [(''usable_ballots'', json_nat usable), (''abstentions'', json_nat abstentions),
        (''required_valid_ballots'', json_nat required)]))]
   | InsufficientValidBallots usable required \<Rightarrow> JObject [(''InsufficientValidBallots'', JObject (obj_of
       [(''usable_ballots'', json_nat usable), (''required_valid_ballots'', json_nat required)]))]
   | QuorumUnreached leading required \<Rightarrow> JObject [(''QuorumUnreached'', JObject (obj_of
       [(''leading_approval_count'', json_nat leading), (''required_quorum'', u16_json required)]))])"

definition summary_json :: "Texts \<Rightarrow> DisagreementSummary \<Rightarrow> Json" where
  "summary_json tx d = JObject (obj_of [(''reason'', reason_json (ds_reason d)),
     (''required_quorum'', u16_json (ds_required_quorum d)),
     (''round_validity_threshold'', json_nat (ds_round_validity_threshold d)),
     (''expected_candidate_count'', json_nat (ds_expected_candidate_count d)),
     (''actual_candidate_count'', json_nat (ds_actual_candidate_count d)),
     (''usable_ballot_count'', json_nat (ds_usable_ballot_count d)),
     (''abstention_count'', json_nat (ds_abstention_count d)),
     (''candidate_tallies'', JArray (map (tally_json tx) (ds_candidate_tallies d))),
     (''suggested_source_candidate_ids'', JArray (map (id_json tx ''cand_'') (ds_suggested_source_candidate_ids d)))])"

definition decision_json :: "Texts \<Rightarrow> AdjudicationPolicyDecision \<Rightarrow> Json" where
  "decision_json tx d = JObject (obj_of (case d of
     PolSelect c \<Rightarrow> [(''outcome'', JString ''select''), (''candidate_id'', id_json tx ''cand_'' c)]
   | PolEscalation summary \<Rightarrow> [(''outcome'', JString ''escalation''), (''summary'', summary_json tx summary)]))"

definition de_tally :: "Texts \<Rightarrow> Json \<Rightarrow> CandidateTally option" where
  "de_tally tx v = Option.bind (as_object v) (\<lambda>m.
     Option.bind (de_field ''candidate_id'' (de_id tx ''cand_'') m) (\<lambda>candidate.
     Option.bind (de_field ''hard_gate_passed'' as_bool m) (\<lambda>passed.
     Option.bind (de_field ''approval_count'' as_u64 m) (\<lambda>approvals.
     Option.bind (de_field ''assessment_count'' as_u64 m) (\<lambda>assessments.
     Option.bind (de_field ''evidence_weight'' de_u64 m) (\<lambda>evidence.
     Option.bind (de_field ''risk_score_total'' de_u64 m) (\<lambda>risk.
     Option.bind (de_field ''complexity_score_total'' de_u64 m) (\<lambda>complexity.
     Option.bind (de_field ''created_at'' (de_time tx) m) (\<lambda>created.
     Some \<lparr>ct_candidate_id = candidate, ct_hard_gate_passed = passed, ct_approval_count = approvals,
       ct_assessment_count = assessments, ct_evidence_weight = evidence, ct_risk_score_total = risk,
       ct_complexity_score_total = complexity, ct_created_at = created\<rparr>)))))))))"

definition de_reason_fields :: "string \<Rightarrow> JsonMap \<Rightarrow> EscalationReason option" where
  "de_reason_fields tag m =
     (if tag = ''AbstentionStarvation'' then
        Option.bind (de_field ''usable_ballots'' as_u64 m) (\<lambda>usable.
        Option.bind (de_field ''abstentions'' as_u64 m) (\<lambda>abstentions.
        map_option (AbstentionStarvation usable abstentions) (de_field ''required_valid_ballots'' as_u64 m)))
      else if tag = ''InsufficientValidBallots'' then
        Option.bind (de_field ''usable_ballots'' as_u64 m) (\<lambda>usable.
        map_option (InsufficientValidBallots usable) (de_field ''required_valid_ballots'' as_u64 m))
      else if tag = ''QuorumUnreached'' then
        Option.bind (de_field ''leading_approval_count'' as_u64 m) (\<lambda>leading.
        map_option (QuorumUnreached leading) (de_field ''required_quorum'' de_u16 m))
      else None)"

definition de_reason :: "Json \<Rightarrow> EscalationReason option" where
  "de_reason v = (case v of
     JString s \<Rightarrow> if s = ''NoEligibleCandidate'' then Some NoEligibleCandidate else None
   | JObject [(tag, JNull)] \<Rightarrow> if tag = ''NoEligibleCandidate'' then Some NoEligibleCandidate else None
   | JObject [(tag, JObject m)] \<Rightarrow> de_reason_fields tag m
   | _ \<Rightarrow> None)"

definition de_summary :: "Texts \<Rightarrow> Json \<Rightarrow> DisagreementSummary option" where
  "de_summary tx v = Option.bind (as_object v) (\<lambda>m.
     Option.bind (de_field ''reason'' de_reason m) (\<lambda>reason.
     Option.bind (de_field ''required_quorum'' de_u16 m) (\<lambda>quorum.
     Option.bind (de_field ''round_validity_threshold'' as_u64 m) (\<lambda>threshold.
     Option.bind (de_field ''expected_candidate_count'' as_u64 m) (\<lambda>expected.
     Option.bind (de_field ''actual_candidate_count'' as_u64 m) (\<lambda>actual.
     Option.bind (de_field ''usable_ballot_count'' as_u64 m) (\<lambda>usable.
     Option.bind (de_field ''abstention_count'' as_u64 m) (\<lambda>abstentions.
     Option.bind (de_field ''candidate_tallies'' (de_list (de_tally tx)) m) (\<lambda>tallies.
     Option.bind (de_field ''suggested_source_candidate_ids'' (de_list (de_id tx ''cand_'')) m) (\<lambda>suggested.
     Some \<lparr>ds_reason = reason, ds_required_quorum = quorum, ds_round_validity_threshold = threshold,
       ds_expected_candidate_count = expected, ds_actual_candidate_count = actual, ds_usable_ballot_count = usable,
       ds_abstention_count = abstentions, ds_candidate_tallies = tallies,
       ds_suggested_source_candidate_ids = suggested\<rparr>))))))))))"

definition de_decision :: "Texts \<Rightarrow> Json \<Rightarrow> AdjudicationPolicyDecision option" where
  "de_decision tx v = Option.bind (as_object v) (\<lambda>m. Option.bind (de_field ''outcome'' as_str m) (\<lambda>outcome.
     if outcome = ''select'' then map_option PolSelect (de_field ''candidate_id'' (de_id tx ''cand_'') m)
     else if outcome = ''escalation'' then map_option PolEscalation (de_field ''summary'' (de_summary tx) m)
     else None))"

section \<open>Round trips\<close>

lemma de_tally_json: "texts_ok tx \<Longrightarrow> de_tally tx (tally_json tx t) = Some t"
  by (simp add: de_tally_def tally_json_def json_read)

lemma de_reason_json: "de_reason (reason_json r) = Some r"
  by (cases r) (simp_all add: de_reason_def reason_json_def de_reason_fields_def json_read)

lemma de_summary_json:
  assumes "texts_ok tx"
  shows "de_summary tx (summary_json tx d) = Some d"
proof -
  have "de_list (de_tally tx) (JArray (map (tally_json tx) ts)) = Some ts" for ts
    using de_list_map [of ts "de_tally tx" "tally_json tx" id] de_tally_json [OF assms] by simp
  moreover have "de_list (de_id tx ''cand_'') (JArray (map (id_json tx ''cand_'') is)) = Some is" for "is"
    using de_list_map [of "is" "de_id tx ''cand_''" "id_json tx ''cand_''" id] assms by simp
  ultimately show ?thesis by (simp add: de_summary_def summary_json_def json_read de_reason_json)
qed

lemma de_decision_json: "texts_ok tx \<Longrightarrow> de_decision tx (decision_json tx d) = Some d"
  by (cases d) (simp_all add: de_decision_def decision_json_def json_read de_summary_json)

lemma de_policy_json: "de_policy (policy_json p) = Some p"
  by (cases p) (simp_all add: de_policy_def policy_json_def json_read)

section \<open>Plain values\<close>

lemma json_plain_scalar [simp]: "json_plain (json_nat n)" "json_plain (u16_json w)" "json_plain (u64_json w')"
  "json_plain (id_json tx p i)" "json_plain (time_json tx d)" "json_plain (json_opt JString x)"
  by (simp_all add: json_nat_def u16_json_def u64_json_def id_json_def time_json_def json_opt_def split: option.split)

lemma json_plain_decision: "json_plain (decision_json tx d)"
proof -
  have single: "json_plain (JObject [(k, v)]) \<longleftrightarrow> json_plain v" for k v by (simp add: obj_ok_Cons)
  have "json_plain (reason_json r)" for r
    by (cases r) (simp_all add: reason_json_def single json_plain_of del: json_plain.simps(3))
  moreover have "json_plain (tally_json tx t)" for t
    unfolding tally_json_def by (rule json_plain_of) simp
  ultimately have "json_plain (summary_json tx s)" for s
    unfolding summary_json_def by (intro json_plain_of) (simp add: list_all_iff)
  then show ?thesis
    unfolding decision_json_def by (intro json_plain_of) (cases d; simp)
qed

end
