(* ===== verification/Store_Input.thy ===== *)
theory Store_Input
  imports Json Promo_Store
begin

text \<open>
  The inputs of the concurrency store (\<open>crates/jcode-tasker-pi/src/concurrency_store.rs\<close>): each mutation
  takes a JSON value, checks its fields, accepts snake and camel case keys, and keeps a canonical form.
  \<open>show_json\<close> is the text of a value, \<open>t\<close> the clock's RFC 3339 text.
\<close>

section \<open>Fields\<close>

definition ok_or :: "'e \<Rightarrow> 'a option \<Rightarrow> 'e + 'a" where
  "ok_or e x = (case x of Some a \<Rightarrow> Inr a | None \<Rightarrow> Inl e)"

lemma ok_or_simps [simp]: "ok_or e (Some a) = Inr a" "ok_or e None = Inl e"
  by (simp_all add: ok_or_def)

lemma ok_or_Inr [simp]: "ok_or e x = Inr a \<longleftrightarrow> x = Some a"
  by (cases x) simp_all

text \<open>\<open>.map(f).collect::<Result<Vec<_>, _>>()\<close>\<close>

fun collect_results :: "('a \<Rightarrow> 'e + 'b) \<Rightarrow> 'a list \<Rightarrow> 'e + 'b list" where
  "collect_results f [] = Inr []"
| "collect_results f (x # xs) = and_then (f x) (\<lambda>y. and_then (collect_results f xs) (\<lambda>ys. Inr (y # ys)))"

lemma collect_results_map:
  "(\<And>x. x \<in> set xs \<Longrightarrow> f x = Inr (g x)) \<Longrightarrow> collect_results f xs = Inr (map g xs)"
  by (induction xs) auto

definition invalid :: "string \<Rightarrow> string \<Rightarrow> StoreError" where
  "invalid field message = ErrInput field message"

definition get_any :: "JsonMap \<Rightarrow> string \<Rightarrow> string \<Rightarrow> Json option" where
  "get_any m snake camel = (case obj_get m snake of Some v \<Rightarrow> Some v | None \<Rightarrow> obj_get m camel)"

definition object_of :: "Json \<Rightarrow> string \<Rightarrow> StoreError + JsonMap" where
  "object_of v field = ok_or (invalid field ''must be a JSON object'') (as_object v)"

definition required_value :: "JsonMap \<Rightarrow> string \<Rightarrow> StoreError + Json" where
  "required_value m key = ok_or (invalid key ''is required'') (obj_get m key)"

definition required_value_any :: "JsonMap \<Rightarrow> string \<Rightarrow> string \<Rightarrow> StoreError + Json" where
  "required_value_any m snake camel = ok_or (invalid camel ''is required'') (get_any m snake camel)"

definition text_of :: "Json \<Rightarrow> string option" where
  "text_of v = (case as_str v of Some s \<Rightarrow> if trim s = [] then None else Some s | None \<Rightarrow> None)"

definition field_string :: "JsonMap \<Rightarrow> string \<Rightarrow> StoreError + string" where
  "field_string m key = ok_or (invalid key ''must be a non-empty string'') (Option.bind (obj_get m key) text_of)"

definition field_string_any :: "JsonMap \<Rightarrow> string \<Rightarrow> string \<Rightarrow> StoreError + string" where
  "field_string_any m snake camel =
     ok_or (invalid camel ''must be a non-empty string'') (Option.bind (get_any m snake camel) text_of)"

definition optional_string :: "JsonMap \<Rightarrow> string \<Rightarrow> StoreError + string option" where
  "optional_string m key = (case obj_get m key of None \<Rightarrow> Inr None
     | Some v \<Rightarrow> and_then (ok_or (invalid key ''must be a string when present'') (text_of v)) (\<lambda>s. Inr (Some s)))"

definition optional_string_any :: "JsonMap \<Rightarrow> string \<Rightarrow> string \<Rightarrow> StoreError + string option" where
  "optional_string_any m snake camel = (case get_any m snake camel of None \<Rightarrow> Inr None
     | Some v \<Rightarrow> and_then (ok_or (invalid camel ''must be a string when present'') (text_of v)) (\<lambda>s. Inr (Some s)))"

text \<open>\<open>u64::from_str\<close>: an optional plus sign, then digits, without overflow.\<close>

definition parse_u64 :: "string \<Rightarrow> nat option" where
  "parse_u64 s = (let ds = (case s of CHR ''+'' # r \<Rightarrow> r | _ \<Rightarrow> s)
     in if ds \<noteq> [] \<and> list_all is_ascii_digit ds \<and> digits_value ds 0 < 2 ^ 64 then Some (digits_value ds 0) else None)"

definition required_u64_any :: "JsonMap \<Rightarrow> string \<Rightarrow> string \<Rightarrow> StoreError + nat" where
  "required_u64_any m snake camel =
     and_then (ok_or (invalid camel ''is required'') (get_any m snake camel)) (\<lambda>v.
       ok_or (invalid camel ''must be a non-negative integer'')
         (case as_u64 v of Some n \<Rightarrow> Some n | None \<Rightarrow> Option.bind (as_str v) parse_u64))"

definition optional_bool :: "JsonMap \<Rightarrow> string \<Rightarrow> StoreError + bool option" where
  "optional_bool m key = (case obj_get m key of None \<Rightarrow> Inr None
     | Some v \<Rightarrow> and_then (ok_or (invalid key ''must be a boolean when present'') (as_bool v)) (\<lambda>b. Inr (Some b)))"

definition int_to_string :: "int \<Rightarrow> string" where
  "int_to_string i = (if i < 0 then CHR ''-'' # nat_to_string (nat (- i)) else nat_to_string (nat i))"

definition optional_timestamp :: "JsonMap \<Rightarrow> string \<Rightarrow> string \<Rightarrow> StoreError + string option" where
  "optional_timestamp m snake camel = (case get_any m snake camel of None \<Rightarrow> Inr None
     | Some v \<Rightarrow> (case as_str v of Some s \<Rightarrow> Inr (Some s)
       | None \<Rightarrow> (case as_i64 v of Some i \<Rightarrow> Inr (Some (int_to_string i))
         | None \<Rightarrow> Inl (invalid camel ''must be an RFC3339 string or integer timestamp''))))"

definition or_else :: "'a option \<Rightarrow> 'a \<Rightarrow> 'a" where
  "or_else x d = (case x of Some a \<Rightarrow> a | None \<Rightarrow> d)"

section \<open>Canonical forms\<close>

definition copy_field :: "JsonMap \<Rightarrow> JsonMap \<Rightarrow> string \<times> string \<Rightarrow> JsonMap" where
  "copy_field m r names = (case get_any m (fst names) (snd names) of Some v \<Rightarrow> obj_put (snd names) v r | None \<Rightarrow> r)"

definition canonical_provenance :: "Json \<Rightarrow> StoreError + Json" where
  "canonical_provenance v = and_then (object_of v ''provenance'') (\<lambda>m.
     let r = foldl (copy_field m) [] [(''session_id'', ''sessionId''), (''agent_id'', ''agentId''),
           (''model_id'', ''modelId''), (''work_unit_id'', ''workUnitId''), (''lineage_digest'', ''lineageDigest'')]
     in if r = [] then Inl (invalid ''provenance'' ''must contain provenance fields'') else Inr (JObject r))"

definition canonical_validator :: "Json \<Rightarrow> StoreError + Json" where
  "canonical_validator v = and_then (object_of v ''validator'') (\<lambda>m.
     let r = foldl (copy_field m) [] [(''session_id'', ''sessionId''), (''agent_id'', ''agentId''),
           (''model_id'', ''modelId''), (''lineage_digest'', ''lineageDigest'')]
     in if obj_get r ''lineageDigest'' = None then Inl (invalid ''validator.lineageDigest'' ''is required'')
        else Inr (JObject r))"

definition canonical_resource_intent :: "Json \<Rightarrow> StoreError + Json" where
  "canonical_resource_intent v =
     and_then (ok_or (invalid ''resource_intents'' ''each intent must be an object'') (as_object v)) (\<lambda>m.
     and_then (ok_or (invalid ''resource_intent.kind'' ''must be a string'') (Option.bind (obj_get m ''kind'') as_str)) (\<lambda>kind.
     if kind \<notin> {''file'', ''directory'', ''task'', ''schema'', ''external''}
     then Inl (invalid ''resource_intent.kind'' ''is not a known resource kind'') else
     and_then (ok_or (invalid ''resource_intent.selector'' ''must be non-empty'')
       (Option.bind (obj_get m ''selector'') text_of)) (\<lambda>selector.
     and_then (ok_or (invalid ''resource_intent.access'' ''must be a string'')
       (Option.bind (obj_get m ''access'') as_str)) (\<lambda>access.
     if access \<notin> {''read'', ''propose_write''}
     then Inl (invalid ''resource_intent.access'' ''is not a known resource access'') else
     let r = obj_of [(''kind'', JString kind), (''selector'', JString (chars_take 2000 selector)),
           (''access'', JString access)]
     in Inr (JObject (case Option.bind (obj_get m ''rationale'') as_str of
          Some s \<Rightarrow> obj_put ''rationale'' (JString (chars_take 2000 s)) r | None \<Rightarrow> r))))))"

definition copy_text :: "JsonMap \<Rightarrow> JsonMap \<Rightarrow> string \<Rightarrow> JsonMap" where
  "copy_text m r key = (case Option.bind (obj_get m key) as_str of
     Some s \<Rightarrow> obj_put key (JString (chars_take 2000 s)) r | None \<Rightarrow> r)"

definition canonical_evidence :: "Json \<Rightarrow> StoreError + Json" where
  "canonical_evidence v = (case as_str v of
     Some reference \<Rightarrow> Inr (JObject [(''ref'', JString (chars_take 2000 reference))])
   | None \<Rightarrow> and_then (ok_or (invalid ''evidence'' ''must be a reference string or object'') (as_object v)) (\<lambda>m.
       let r = foldl (copy_text m) [] [''id'', ''kind'', ''ref'', ''uri'', ''path'', ''digest'', ''label''];
           r = (case obj_get m ''metadata'' of Some d \<Rightarrow> obj_put ''metadata'' d r | None \<Rightarrow> r)
       in if r = [] then Inl (invalid ''evidence'' ''must contain a reference field'') else Inr (JObject r)))"

definition copy_flag :: "JsonMap \<Rightarrow> string \<Rightarrow> JsonMap \<Rightarrow> StoreError + JsonMap" where
  "copy_flag m key r = and_then (ok_or (invalid key ''must be a boolean'') (Option.bind (obj_get m key) as_bool)) (\<lambda>b.
     Inr (obj_put key (JBool b) r))"

definition copy_score :: "JsonMap \<Rightarrow> string \<Rightarrow> string \<Rightarrow> JsonMap \<Rightarrow> StoreError + JsonMap" where
  "copy_score m snake camel r =
     and_then (ok_or (invalid camel ''must be a non-negative integer'') (Option.bind (get_any m snake camel) as_u64)) (\<lambda>n.
       Inr (obj_put camel (json_nat n) r))"

definition canonical_assessment :: "Json \<Rightarrow> StoreError + Json" where
  "canonical_assessment v =
     and_then (ok_or (invalid ''assessments'' ''each assessment must be an object'') (as_object v)) (\<lambda>m.
     and_then (ok_or (invalid ''assessment.candidateId'' ''is required'')
       (Option.bind (get_any m ''candidate_id'' ''candidateId'') as_str)) (\<lambda>candidate.
     and_then (copy_flag m ''eligible'' (obj_put ''candidateId'' (JString candidate) [])) (\<lambda>r.
     and_then (copy_flag m ''approve'' r) (\<lambda>r.
     and_then (copy_score m ''acceptance_score'' ''acceptanceScore'' r) (\<lambda>r.
     and_then (copy_score m ''risk_score'' ''riskScore'' r) (\<lambda>r.
     and_then (copy_score m ''complexity_score'' ''complexityScore'' r) (\<lambda>r.
     case obj_get m ''notes'' of
       None \<Rightarrow> Inr (JObject (obj_put ''notes'' (JArray []) r))
     | Some v \<Rightarrow> and_then (ok_or (invalid ''assessment.notes'' ''must be an array'') (as_array v)) (\<lambda>notes.
         Inr (JObject (obj_put ''notes''
           (JArray (map (\<lambda>s. JString (chars_take 2000 s)) (List.map_filter as_str notes))) r))))))))))"

section \<open>Policies, decisions, states\<close>

definition validate_policy :: "Json \<Rightarrow> StoreError + unit" where
  "validate_policy v =
     and_then (ok_or (invalid ''policy'' ''must be an object'') (as_object v)) (\<lambda>m.
     and_then (ok_or (invalid ''policy.kind'' ''is required'') (Option.bind (obj_get m ''kind'') as_str)) (\<lambda>kind.
     if kind = ''exclusive'' then Inr ()
     else if kind = ''speculative'' then
       and_then (ok_or (invalid ''policy.maxCandidates'' ''is required'')
         (Option.bind (get_any m ''max_candidates'' ''maxCandidates'') as_u64)) (\<lambda>limit.
       if limit = 0 then Inl (invalid ''policy.maxCandidates'' ''must be greater than zero'') else Inr ())
     else if kind = ''ensemble'' then
       and_then (ok_or (invalid ''policy.candidateCount'' ''is required'')
         (Option.bind (get_any m ''candidate_count'' ''candidateCount'') as_u64)) (\<lambda>count.
       and_then (ok_or (invalid ''policy.quorum'' ''is required'') (Option.bind (obj_get m ''quorum'') as_u64)) (\<lambda>quorum.
       if count \<le> 1 \<or> quorum = 0 \<or> quorum > count
       then Inl (invalid ''policy.ensemble'' ''candidateCount must exceed one and quorum must be within it'')
       else Inr ()))
     else Inl (invalid ''policy.kind'' ''is not a known concurrency policy'')))"

definition validate_decision :: "Json \<Rightarrow> StoreError + unit" where
  "validate_decision v =
     and_then (ok_or (invalid ''decision'' ''must be an object'') (as_object v)) (\<lambda>m.
     and_then (ok_or (invalid ''decision.outcome'' ''is required'') (Option.bind (obj_get m ''outcome'') as_str)) (\<lambda>outcome.
     if outcome \<in> {''select'', ''synthesize'', ''blocked''} then Inr ()
     else Inl (invalid ''decision.outcome'' ''is not a known adjudication outcome'')))"

definition validate_candidate_state :: "string \<Rightarrow> StoreError + unit" where
  "validate_candidate_state state =
     (if state \<in> {''registered'', ''authoring'', ''submitted'', ''validating'', ''eligible'', ''rejected'', ''failed'',
        ''selected'', ''superseded'', ''promoted''} then Inr ()
      else Inl (invalid ''state'' ''is not a known candidate state''))"

section \<open>Parsers\<close>

definition parse_candidate_set :: "(Json \<Rightarrow> string) \<Rightarrow> string \<Rightarrow> Json \<Rightarrow> StoreError + CandidateSetData" where
  "parse_candidate_set show_json t v =
     and_then (object_of v ''candidate_set'') (\<lambda>m.
     and_then (required_value m ''policy'') (\<lambda>policy.
     and_then (validate_policy policy) (\<lambda>_.
     and_then (optional_string m ''state'') (\<lambda>state. let state = or_else state ''open'' in
     and_then (validate_candidate_set_state state) (\<lambda>_.
     and_then (field_string m ''id'') (\<lambda>i.
     and_then (field_string_any m ''project_id'' ''projectId'') (\<lambda>project_id.
     and_then (field_string_any m ''task_id'' ''taskId'') (\<lambda>task_id.
     and_then (required_u64_any m ''base_revision'' ''baseRevision'') (\<lambda>base_revision.
     and_then (field_string_any m ''base_commit'' ''baseCommit'') (\<lambda>base_commit.
     and_then (field_string_any m ''acceptance_digest'' ''acceptanceDigest'') (\<lambda>acceptance_digest.
     and_then (required_u64_any m ''policy_version'' ''policyVersion'') (\<lambda>policy_version.
     and_then (optional_timestamp m ''created_at'' ''createdAt'') (\<lambda>created_at.
     Inr \<lparr>sd_id = i, sd_project_id = project_id, sd_task_id = task_id, sd_base_revision = base_revision,
       sd_base_commit = base_commit, sd_acceptance_digest = acceptance_digest, sd_policy = show_json policy,
       sd_policy_version = policy_version, sd_state = state, sd_created_at = or_else created_at t\<rparr>)))))))))))))"

definition resource_intents_of :: "JsonMap \<Rightarrow> StoreError + Json list" where
  "resource_intents_of m = (case get_any m ''resource_intents'' ''resourceIntents'' of
     None \<Rightarrow> Inr []
   | Some v \<Rightarrow> (case as_array v of Some vs \<Rightarrow> collect_results canonical_resource_intent vs
     | None \<Rightarrow> Inl (invalid ''resource_intents'' ''must be a JSON array'')))"

definition parse_candidate :: "(Json \<Rightarrow> string) \<Rightarrow> string \<Rightarrow> Json \<Rightarrow> StoreError + CandidateRow" where
  "parse_candidate show_json t v =
     and_then (object_of v ''candidate'') (\<lambda>m.
     and_then (optional_string m ''state'') (\<lambda>state. let state = or_else state ''registered'' in
     and_then (validate_candidate_state state) (\<lambda>_.
     and_then (resource_intents_of m) (\<lambda>intents.
     and_then (required_value_any m ''provenance'' ''provenance'') (\<lambda>p.
     and_then (canonical_provenance p) (\<lambda>provenance.
     and_then (field_string m ''id'') (\<lambda>i.
     and_then (field_string_any m ''candidate_set_id'' ''candidateSetId'') (\<lambda>set_id.
     and_then (field_string_any m ''base_commit'' ''baseCommit'') (\<lambda>base_commit.
     and_then (optional_string_any m ''result_commit'' ''resultCommit'') (\<lambda>result_commit.
     and_then (optional_string_any m ''diff_digest'' ''diffDigest'') (\<lambda>diff_digest.
     and_then (optional_string m ''summary'') (\<lambda>summary.
     and_then (optional_string_any m ''supersedes_candidate_id'' ''supersedesCandidateId'') (\<lambda>supersedes.
     and_then (optional_timestamp m ''created_at'' ''createdAt'') (\<lambda>created_at.
     and_then (optional_timestamp m ''updated_at'' ''updatedAt'') (\<lambda>updated_at.
     and_then (optional_timestamp m ''submitted_at'' ''submittedAt'') (\<lambda>submitted_at.
     Inr \<lparr>cr_id = i, cr_candidate_set_id = set_id, cr_state = state, cr_base_commit = base_commit,
       cr_result_commit = result_commit, cr_diff_digest = diff_digest,
       cr_summary = map_option (chars_take 4000) summary, cr_provenance_json = show_json provenance,
       cr_supersedes_candidate_id = supersedes, cr_created_at = or_else created_at t,
       cr_updated_at = or_else updated_at t, cr_submitted_at = submitted_at,
       cr_resource_intents = map show_json intents, cr_evidence = []\<rparr>))))))))))))))))"

definition parse_round :: "(Json \<Rightarrow> string) \<Rightarrow> string \<Rightarrow> Json \<Rightarrow> StoreError + RoundRow" where
  "parse_round show_json t v =
     and_then (object_of v ''adjudication_round'') (\<lambda>m.
     and_then (required_u64_any m ''required_quorum'' ''requiredQuorum'') (\<lambda>quorum.
     if quorum = 0 \<or> quorum > 65535 then Inl (invalid ''required_quorum'' ''must fit a non-zero u16'') else
     and_then (case obj_get m ''decision'' of None \<Rightarrow> Inr ()
       | Some d \<Rightarrow> validate_decision d) (\<lambda>_.
     and_then (field_string m ''id'') (\<lambda>i.
     and_then (field_string_any m ''candidate_set_id'' ''candidateSetId'') (\<lambda>set_id.
     and_then (required_u64_any m ''policy_version'' ''policyVersion'') (\<lambda>policy_version.
     and_then (optional_timestamp m ''created_at'' ''createdAt'') (\<lambda>created_at.
     and_then (optional_timestamp m ''decided_at'' ''decidedAt'') (\<lambda>decided_at.
     Inr \<lparr>rr_id = i, rr_candidate_set_id = set_id, rr_policy_version = policy_version, rr_required_quorum = quorum,
       rr_decision_json = map_option show_json (obj_get m ''decision''), rr_created_at = or_else created_at t,
       rr_decided_at = decided_at\<rparr>))))))))"

definition ranking_text :: "Json \<Rightarrow> StoreError + Json" where
  "ranking_text v = (case as_str v of Some s \<Rightarrow> Inr (JString s)
     | None \<Rightarrow> Inl (invalid ''ranking'' ''candidate IDs must be strings''))"

definition parse_ballot :: "(Json \<Rightarrow> string) \<Rightarrow> string \<Rightarrow> Json \<Rightarrow> StoreError + BallotRow" where
  "parse_ballot show_json t v =
     and_then (object_of v ''adjudication_ballot'') (\<lambda>m.
     and_then (required_value_any m ''validator'' ''validator'') (\<lambda>d.
     and_then (canonical_validator d) (\<lambda>validator.
     and_then (required_value m ''assessments'') (\<lambda>a.
     and_then (case as_array a of Some vs \<Rightarrow> collect_results canonical_assessment vs
       | None \<Rightarrow> Inl (invalid ''assessments'' ''must be a JSON array'')) (\<lambda>assessments.
     and_then (required_value m ''ranking'') (\<lambda>r.
     and_then (case as_array r of Some vs \<Rightarrow> collect_results ranking_text vs
       | None \<Rightarrow> Inl (invalid ''ranking'' ''must be a JSON array'')) (\<lambda>ranking.
     and_then (field_string m ''id'') (\<lambda>i.
     and_then (field_string_any m ''round_id'' ''roundId'') (\<lambda>round_id.
     and_then (optional_bool m ''abstained'') (\<lambda>abstained.
     and_then (optional_timestamp m ''created_at'' ''createdAt'') (\<lambda>created_at.
     Inr \<lparr>br_id = i, br_round_id = round_id, br_validator_json = show_json validator,
       br_assessments_json = show_json (JArray assessments), br_ranking_json = show_json (JArray ranking),
       br_abstained = or_else abstained False, br_created_at = or_else created_at t\<rparr>)))))))))))"

definition parse_promotion_value :: "string \<Rightarrow> Json \<Rightarrow> StoreError + PromotionData" where
  "parse_promotion_value t v =
     and_then (object_of v ''promotion_intent'') (\<lambda>m.
     and_then (optional_string m ''state'') (\<lambda>state. let state = or_else state ''prepared'' in
     and_then (validate_promotion_state state) (\<lambda>_.
     and_then (field_string_any m ''canonical_ref'' ''canonicalRef'') (\<lambda>canonical_ref.
     if trim canonical_ref = [] then Inl (invalid ''canonical_ref'' ''must not be empty'') else
     and_then (field_string m ''id'') (\<lambda>i.
     and_then (field_string_any m ''project_id'' ''projectId'') (\<lambda>project_id.
     and_then (field_string_any m ''task_id'' ''taskId'') (\<lambda>task_id.
     and_then (field_string_any m ''candidate_set_id'' ''candidateSetId'') (\<lambda>set_id.
     and_then (field_string_any m ''candidate_id'' ''candidateId'') (\<lambda>candidate_id.
     and_then (required_u64_any m ''expected_revision'' ''expectedRevision'') (\<lambda>expected_revision.
     and_then (field_string_any m ''expected_commit'' ''expectedCommit'') (\<lambda>expected_commit.
     and_then (field_string_any m ''target_commit'' ''targetCommit'') (\<lambda>target_commit.
     and_then (optional_timestamp m ''created_at'' ''createdAt'') (\<lambda>created_at.
     Inr \<lparr>pd_id = i, pd_project_id = project_id, pd_task_id = task_id, pd_candidate_set_id = set_id,
       pd_candidate_id = candidate_id, pd_expected_revision = expected_revision,
       pd_expected_commit = expected_commit, pd_target_commit = target_commit,
       pd_canonical_ref = canonical_ref, pd_state = state, pd_created_at = or_else created_at t\<rparr>)))))))))))))"

end
