(* ===== verification/Store_Values.thy ===== *)
theory Store_Values
  imports Store_Input Promo_Intents
begin

text \<open>
  What the concurrency store gives its readers (\<open>crates/jcode-tasker-pi/src/concurrency_store.rs\<close>): the
  JSON value of a row, the lookups by id and the bounded projections of a set or a project.
  \<open>read_json\<close> parses a stored text. A query's \<open>ORDER BY ... LIMIT\<close> is a stable sort and a prefix.
\<close>

section \<open>Rows as values\<close>

definition text_value :: "(string \<Rightarrow> Json option) \<Rightarrow> string \<Rightarrow> StoreError + Json" where
  "text_value read_json s = ok_or ErrJson (read_json s)"

definition candidate_set_value :: "(string \<Rightarrow> Json option) \<Rightarrow> SetRow \<Rightarrow> StoreError + Json" where
  "candidate_set_value read_json row =
     and_then (text_value read_json (sr_policy_json row)) (\<lambda>policy.
     Inr (JObject (obj_of [(''id'', JString (sr_id row)), (''projectId'', JString (sr_project_id row)),
       (''taskId'', JString (sr_task_id row)), (''baseRevision'', json_nat (sr_base_revision row)),
       (''baseCommit'', JString (sr_base_commit row)), (''acceptanceDigest'', JString (sr_acceptance_digest row)),
       (''policy'', policy), (''policyVersion'', json_nat (sr_policy_version row)),
       (''state'', JString (sr_state row)), (''createdAt'', JString (sr_created_at row)),
       (''updatedAt'', JString (sr_updated_at row))])))"

definition candidate_value :: "(string \<Rightarrow> Json option) \<Rightarrow> CandidateRow \<Rightarrow> StoreError + Json" where
  "candidate_value read_json row =
     and_then (text_value read_json (cr_provenance_json row)) (\<lambda>provenance.
     and_then (collect_results (text_value read_json) (cr_resource_intents row)) (\<lambda>intents.
     and_then (collect_results (text_value read_json) (cr_evidence row)) (\<lambda>evidence.
     Inr (JObject (obj_of [(''id'', JString (cr_id row)), (''candidateSetId'', JString (cr_candidate_set_id row)),
       (''state'', JString (cr_state row)), (''baseCommit'', JString (cr_base_commit row)),
       (''resultCommit'', json_opt JString (cr_result_commit row)),
       (''diffDigest'', json_opt JString (cr_diff_digest row)), (''summary'', json_opt JString (cr_summary row)),
       (''provenance'', provenance), (''resourceIntents'', JArray intents), (''evidence'', JArray evidence),
       (''supersedesCandidateId'', json_opt JString (cr_supersedes_candidate_id row)),
       (''createdAt'', JString (cr_created_at row)), (''updatedAt'', JString (cr_updated_at row)),
       (''submittedAt'', json_opt JString (cr_submitted_at row))])))))"

definition ballot_value :: "(string \<Rightarrow> Json option) \<Rightarrow> BallotRow \<Rightarrow> StoreError + Json" where
  "ballot_value read_json row =
     and_then (text_value read_json (br_validator_json row)) (\<lambda>validator.
     and_then (text_value read_json (br_assessments_json row)) (\<lambda>assessments.
     and_then (text_value read_json (br_ranking_json row)) (\<lambda>ranking.
     Inr (JObject (obj_of [(''id'', JString (br_id row)), (''roundId'', JString (br_round_id row)),
       (''validator'', validator), (''assessments'', assessments), (''ranking'', ranking),
       (''abstained'', JBool (br_abstained row)), (''createdAt'', JString (br_created_at row))])))))"

definition round_ballots :: "Store \<Rightarrow> string \<Rightarrow> BallotRow list" where
  "round_ballots s i = sort_key (\<lambda>b. (br_created_at b, br_id b)) (filter (\<lambda>b. br_round_id b = i) (st_ballots s))"

definition round_value :: "(string \<Rightarrow> Json option) \<Rightarrow> Store \<Rightarrow> RoundRow \<Rightarrow> StoreError + Json" where
  "round_value read_json s row =
     and_then (collect_results (ballot_value read_json) (round_ballots s (rr_id row))) (\<lambda>ballots.
     and_then (case rr_decision_json row of None \<Rightarrow> Inr JNull | Some d \<Rightarrow> text_value read_json d) (\<lambda>decision.
     Inr (JObject (obj_of [(''id'', JString (rr_id row)), (''candidateSetId'', JString (rr_candidate_set_id row)),
       (''policyVersion'', json_nat (rr_policy_version row)), (''requiredQuorum'', json_nat (rr_required_quorum row)),
       (''decision'', decision), (''ballots'', JArray ballots), (''createdAt'', JString (rr_created_at row)),
       (''decidedAt'', json_opt JString (rr_decided_at row))]))))"

definition promotion_value :: "PromotionRow \<Rightarrow> StoreError + Json" where
  "promotion_value row = Inr (JObject (obj_of [(''id'', JString (pw_id row)), (''projectId'', JString (pw_project_id row)),
     (''taskId'', JString (pw_task_id row)), (''candidateSetId'', JString (pw_candidate_set_id row)),
     (''candidateId'', JString (pw_candidate_id row)), (''expectedRevision'', json_nat (pw_expected_revision row)),
     (''expectedCommit'', JString (pw_expected_commit row)), (''targetCommit'', JString (pw_target_commit row)),
     (''canonicalRef'', JString (pw_canonical_ref row)), (''state'', JString (pw_state row)),
     (''createdAt'', JString (pw_created_at row)), (''updatedAt'', JString (pw_updated_at row)),
     (''finalizedAt'', json_opt JString (pw_finalized_at row)),
     (''conflictReason'', json_opt JString (pw_conflict_reason row))]))"

section \<open>Lookups\<close>

definition lookup_value :: "('r \<Rightarrow> StoreError + Json) \<Rightarrow> 'r option \<Rightarrow> StoreError + Json option" where
  "lookup_value f row = (case row of None \<Rightarrow> Inr None | Some r \<Rightarrow> and_then (f r) (\<lambda>v. Inr (Some v)))"

definition get_candidate_set :: "(string \<Rightarrow> Json option) \<Rightarrow> Store \<Rightarrow> string \<Rightarrow> StoreError + Json option" where
  "get_candidate_set read_json s i = lookup_value (candidate_set_value read_json) (find_key sr_id i (st_sets s))"

definition get_candidate :: "(string \<Rightarrow> Json option) \<Rightarrow> Store \<Rightarrow> string \<Rightarrow> StoreError + Json option" where
  "get_candidate read_json s i = lookup_value (candidate_value read_json) (find_key cr_id i (st_candidates s))"

definition get_adjudication_round :: "(string \<Rightarrow> Json option) \<Rightarrow> Store \<Rightarrow> string \<Rightarrow> StoreError + Json option" where
  "get_adjudication_round read_json s i = lookup_value (round_value read_json s) (find_key rr_id i (st_rounds s))"

section \<open>Projections\<close>

definition set_candidates :: "Store \<Rightarrow> string \<Rightarrow> CandidateRow list" where
  "set_candidates s i =
     sort_key (\<lambda>c. (cr_created_at c, cr_id c)) (filter (\<lambda>c. cr_candidate_set_id c = i) (st_candidates s))"

definition candidate_set_projection :: "(string \<Rightarrow> Json option) \<Rightarrow> Store \<Rightarrow> string \<Rightarrow> nat \<Rightarrow> StoreError + Json" where
  "candidate_set_projection read_json s i limit =
     (let limit = bounded_limit limit in
      and_then (get_candidate_set read_json s i) (\<lambda>found.
      and_then (ok_or (ErrMissing ''candidate set'' i) found) (\<lambda>v.
      and_then (field_string (or_else (as_object v) []) ''projectId'') (\<lambda>project_id.
      and_then (collect_results (candidate_value read_json) (take limit (set_candidates s i))) (\<lambda>candidates.
      let count = length (set_candidates s i)
      in Inr (JObject (obj_of [(''projectId'', JString project_id), (''candidateSet'', v),
           (''candidates'', JArray candidates), (''count'', json_nat count), (''limit'', json_nat limit),
           (''truncated'', JBool (count > limit))])))))))"

definition active_candidate_set_projections :: "(string \<Rightarrow> Json option) \<Rightarrow> Store \<Rightarrow> StoreError + Json list" where
  "active_candidate_set_projections read_json s =
     collect_results (\<lambda>row.
         and_then (candidate_set_value read_json row) (\<lambda>v.
         and_then (collect_results (candidate_value read_json) (set_candidates s (sr_id row))) (\<lambda>candidates.
         Inr (JObject (obj_of [(''candidateSet'', v), (''candidates'', JArray candidates)])))))
       (sort_key (\<lambda>r. (sr_created_at r, sr_id r))
         (filter (\<lambda>r. sr_state r \<in> {''open'', ''adjudicating'', ''promoting''}) (st_sets s)))"

text \<open>A table's rows joined with the candidate set that gives their project.\<close>

definition in_project :: "Store \<Rightarrow> string \<Rightarrow> string \<Rightarrow> bool" where
  "in_project s project_id set_id \<longleftrightarrow> map_option sr_project_id (find_key sr_id set_id (st_sets s)) = Some project_id"

definition project_sets :: "Store \<Rightarrow> string \<Rightarrow> SetRow list" where
  "project_sets s p = sort_key (\<lambda>r. (sr_created_at r, sr_id r)) (filter (\<lambda>r. sr_project_id r = p) (st_sets s))"

definition project_candidates :: "Store \<Rightarrow> string \<Rightarrow> CandidateRow list" where
  "project_candidates s p = sort_key (\<lambda>c. (cr_created_at c, cr_id c))
     (filter (\<lambda>c. in_project s p (cr_candidate_set_id c)) (st_candidates s))"

definition project_rounds :: "Store \<Rightarrow> string \<Rightarrow> RoundRow list" where
  "project_rounds s p = sort_key (\<lambda>r. (rr_created_at r, rr_id r))
     (filter (\<lambda>r. in_project s p (rr_candidate_set_id r)) (st_rounds s))"

definition project_ballots :: "Store \<Rightarrow> string \<Rightarrow> BallotRow list" where
  "project_ballots s p = sort_key (\<lambda>b. (br_created_at b, br_id b))
     (filter (\<lambda>b. case find_key rr_id (br_round_id b) (st_rounds s) of
         None \<Rightarrow> False | Some r \<Rightarrow> in_project s p (rr_candidate_set_id r)) (st_ballots s))"

definition project_promotions :: "Store \<Rightarrow> string \<Rightarrow> PromotionRow list" where
  "project_promotions s p = sort_key (\<lambda>r. (pw_updated_at r, pw_id r)) (filter (\<lambda>r. pw_project_id r = p) (st_promotions s))"

text \<open>One row more than the limit is asked for, to see whether the list is cut.\<close>

definition bounded_values :: "'r list \<Rightarrow> nat \<Rightarrow> ('r \<Rightarrow> StoreError + Json) \<Rightarrow> StoreError + Json list \<times> bool" where
  "bounded_values rows limit convert = (let rows = take (limit + 1) rows in
     and_then (collect_results convert (take limit rows)) (\<lambda>values. Inr (values, length rows > limit)))"

definition project_counts :: "Store \<Rightarrow> string \<Rightarrow> Json" where
  "project_counts s p = JObject (obj_of [(''candidateSets'', json_nat (length (project_sets s p))),
     (''candidates'', json_nat (length (project_candidates s p))),
     (''adjudicationRounds'', json_nat (length (project_rounds s p))),
     (''adjudicationBallots'', json_nat (length (project_ballots s p))),
     (''promotionIntents'', json_nat (length (project_promotions s p)))])"

definition bounded_projection :: "(string \<Rightarrow> Json option) \<Rightarrow> Store \<Rightarrow> string \<Rightarrow> nat \<Rightarrow>
    StoreError + Json \<times> nat \<times> bool" where
  "bounded_projection read_json s p limit =
     (let limit = bounded_limit limit in
      and_then (bounded_values (project_sets s p) limit (candidate_set_value read_json)) (\<lambda>(sets, cut1).
      and_then (bounded_values (project_candidates s p) limit (candidate_value read_json)) (\<lambda>(candidates, cut2).
      and_then (bounded_values (project_rounds s p) limit (round_value read_json s)) (\<lambda>(rounds, cut3).
      and_then (bounded_values (project_ballots s p) limit (ballot_value read_json)) (\<lambda>(ballots, cut4).
      and_then (bounded_values (project_promotions s p) limit promotion_value) (\<lambda>(promotions, cut5).
      let truncated = (cut1 \<or> cut2 \<or> cut3 \<or> cut4 \<or> cut5)
      in Inr (JObject (obj_of [(''projectId'', JString p), (''candidateSets'', JArray sets),
           (''candidates'', JArray candidates), (''adjudicationRounds'', JArray rounds),
           (''adjudicationBallots'', JArray ballots), (''promotionIntents'', JArray promotions),
           (''counts'', project_counts s p), (''limit'', json_nat limit), (''truncated'', JBool truncated)]),
         limit, truncated)))))))"

lemma collect_results_Inr:
  "collect_results f xs = Inr ys \<longleftrightarrow> list_all2 (\<lambda>x y. f x = Inr y) xs ys"
  by (induction xs arbitrary: ys) (auto simp: and_then_Inr list_all2_Cons1)

lemma bounded_values_Inr:
  assumes "bounded_values rows limit f = Inr (vs, short)"
  shows "length vs = min limit (length rows)" "short \<longleftrightarrow> limit < length rows"
  using assms by (auto simp: bounded_values_def Let_def and_then_Inr collect_results_Inr dest!: list_all2_lengthD)

end
