(* ===== verification/Tasker_Rounds.thy ===== *)
theory Tasker_Rounds
  imports Tasker_Serde Store_Values
begin

text \<open>
  Adjudication rounds (\<open>crates/jcode-tasker-rounds/src/lib.rs\<close>): a round is opened over a candidate set,
  validators submit ballots one by one, and as soon as the remaining ballots cannot change the outcome the
  decision is persisted. The orchestrator's state is the concurrency store and, for a store in memory, a
  map of decisions. Each operation returns its result and the state it leaves, also when it fails.
\<close>

section \<open>Data\<close>

datatype RoundCompletion = RoundPending | RoundQuorumReached | RoundQuorumImpossible | RoundThresholdFailed | RoundNoEligible

definition completion_is_terminal :: "RoundCompletion \<Rightarrow> bool" where
  "completion_is_terminal c \<longleftrightarrow> c \<noteq> RoundPending"

record RoundOpened =
  ro_round_id :: AdjudicationRoundId
  ro_candidate_set_id :: CandidateSetId
  ro_policy_version :: nat
  ro_required_quorum :: "16 word"
  ro_expected_ballot_count :: nat
  ro_revision :: nat

record RoundProgress =
  rp_round_id :: AdjudicationRoundId
  rp_complete :: bool
  rp_completion :: RoundCompletion
  rp_decision :: "AdjudicationPolicyDecision option"
  rp_outcome :: AdjudicationOutcome
  rp_ballot_count :: nat
  rp_expected_ballot_count :: nat
  rp_revision :: nat

record RoundStatusProjection =
  rs_round_id :: AdjudicationRoundId
  rs_candidate_set_id :: CandidateSetId
  rs_round :: Json
  rs_ballots :: "AdjudicationBallot list"
  rs_ballot_count :: nat
  rs_limit :: nat
  rs_truncated :: bool
  rs_completion :: RoundCompletion
  rs_decision :: "AdjudicationPolicyDecision option"
  rs_outcome :: AdjudicationOutcome

datatype RoundError =
    RnPersistence StoreError
  | RnPolicy AdjudicationError
  | RnJson
  | RnRoundNotFound string
  | RnSetNotFound string
  | RnNoCandidates string
  | RnTruncated string nat
  | RnSetClosed string CandidateSetState
  | RnWrongRound string string string
  | RnEvidenceFree string
  | RnDuplicateValidator string string
  | RnDuplicateBallot string string
  | RnAlreadyDecided string
  | RnQuorumMismatch string "16 word" "16 word"
  | RnVersionMismatch string nat nat
  | RnDecisionDrift string Json Json
  | RnRevisionConflict string nat nat
  | RnInvalidDecision string
  | RnInvalidProjection string

definition map_err :: "('e \<Rightarrow> 'f) \<Rightarrow> 'e + 'a \<Rightarrow> 'f + 'a" where
  "map_err f r = (case r of Inl e \<Rightarrow> Inl (f e) | Inr a \<Rightarrow> Inr a)"

lemma map_err_simps [simp]: "map_err f (Inl e) = Inl (f e)" "map_err f (Inr a) = Inr a"
  by (simp_all add: map_err_def)

lemma map_err_Inr [simp]: "map_err f r = Inr a \<longleftrightarrow> r = Inr a"
  by (cases r) simp_all

text \<open>\<open>rn_in_memory\<close> is the test for the path \<open>:memory:\<close>.\<close>

record Runner =
  rn_store :: Store
  rn_memory :: "(AdjudicationRoundId \<times> AdjudicationPolicyDecision) list"
  rn_in_memory :: bool

definition new_runner :: "bool \<Rightarrow> Store \<Rightarrow> Runner" where
  "new_runner in_memory s = \<lparr>rn_store = s, rn_memory = [], rn_in_memory = in_memory\<rparr>"

definition store_step :: "(Store \<Rightarrow> StoreError + (Mutation \<times> Store)) \<Rightarrow> Runner \<Rightarrow> (RoundError + Mutation) \<times> Runner" where
  "store_step f rn = (case f (rn_store rn) of
     Inl e \<Rightarrow> (Inl (RnPersistence e), rn)
   | Inr (m, s) \<Rightarrow> (Inr m, rn\<lparr>rn_store := s\<rparr>))"

definition set_text :: "Texts \<Rightarrow> CandidateSetId \<Rightarrow> string" where
  "set_text tx i = typed_id_display ''cset_'' (tx_uuid tx) i"

definition round_text :: "Texts \<Rightarrow> AdjudicationRoundId \<Rightarrow> string" where
  "round_text tx i = typed_id_display ''adj_'' (tx_uuid tx) i"

definition ballot_text :: "Texts \<Rightarrow> BallotId \<Rightarrow> string" where
  "ballot_text tx i = typed_id_display ''ballot_'' (tx_uuid tx) i"

section \<open>Contexts\<close>

record CandidateSetContext =
  cx_candidate_set :: StoredCandidateSet
  cx_candidates :: "Candidate list"
  cx_required_quorum :: "16 word"
  cx_expected_ballot_count :: nat

record RoundContext =
  rx_round_value :: Json
  rx_round_id :: AdjudicationRoundId
  rx_project_id :: string
  rx_candidate_set :: StoredCandidateSet
  rx_candidates :: "Candidate list"
  rx_policy :: ConcurrencyPolicy
  rx_expected_ballot_count :: nat
  rx_ballots :: "AdjudicationBallot list"
  rx_decision :: "AdjudicationPolicyDecision option"

definition load_candidate_set_context :: "Texts \<Rightarrow> Runner \<Rightarrow> CandidateSetId \<Rightarrow> RoundError + CandidateSetContext" where
  "load_candidate_set_context tx rn set_id =
     (let i = set_text tx set_id in
      and_then (map_err RnPersistence (get_candidate_set (tx_read tx) (rn_store rn) i)) (\<lambda>found.
      and_then (ok_or (RnSetNotFound i) found) (\<lambda>v.
      and_then (ok_or RnJson (de_stored_set tx v)) (\<lambda>cset.
      and_then (map_err RnPolicy (adjudication_quorum (ss_policy cset))) (\<lambda>quorum.
      let expected = unat (candidate_limit (ss_policy cset)) in
      and_then (map_err RnPersistence (candidate_set_projection (tx_read tx) (rn_store rn) i 500)) (\<lambda>projection.
      let m = or_else (as_object projection) [] in
      if or_else (Option.bind (obj_get m ''truncated'') as_bool) False then Inl (RnTruncated i 500) else
      and_then (ok_or (RnInvalidProjection ''candidates'') (Option.bind (obj_get m ''candidates'') as_array)) (\<lambda>values.
      and_then (ok_or RnJson (de_all (de_stored_candidate tx) values)) (\<lambda>candidates.
      Inr \<lparr>cx_candidate_set = cset, cx_candidates = candidates, cx_required_quorum = quorum,
        cx_expected_ballot_count = expected\<rparr>))))))))"

record StoredRound =
  sd_set_id :: CandidateSetId
  sd_version :: nat
  sd_quorum :: "16 word"
  sd_decision :: "Json option"
  sd_ballots :: "AdjudicationBallot list"

definition de_stored_round :: "Texts \<Rightarrow> Json \<Rightarrow> StoredRound option" where
  "de_stored_round tx v = Option.bind (as_object v) (\<lambda>m.
     Option.bind (de_field ''candidateSetId'' (de_id tx ''cset_'') m) (\<lambda>set_id.
     Option.bind (de_field ''policyVersion'' (de_nat (2 ^ 32)) m) (\<lambda>version.
     Option.bind (de_field ''requiredQuorum'' de_u16 m) (\<lambda>quorum.
     Option.bind (de_opt ''decision'' Some m) (\<lambda>decision.
     Option.bind (de_field ''ballots'' (de_list (de_stored_ballot tx)) m) (\<lambda>ballots.
     Some \<lparr>sd_set_id = set_id, sd_version = version, sd_quorum = quorum, sd_decision = decision,
       sd_ballots = ballots\<rparr>))))))"

definition validator_key :: "ValidatorIdentity \<Rightarrow> string" where
  "validator_key v = ''agent='' @ vi_agent_id v @ '';session='' @ vi_session_id v @ '';model='' @
     (case vi_model_id v of Some m \<Rightarrow> m | None \<Rightarrow> []) @ '';lineage='' @ vi_lineage_digest v"

fun unique_ballots :: "Texts \<Rightarrow> AdjudicationRoundId \<Rightarrow> BallotId set \<Rightarrow> string set \<Rightarrow> AdjudicationBallot list \<Rightarrow>
    RoundError + unit" where
  "unique_ballots tx r ids keys [] = Inr ()"
| "unique_ballots tx r ids keys (b # bs) =
     (if ab_id b \<in> ids then Inl (RnDuplicateBallot (round_text tx r) (ballot_text tx (ab_id b)))
      else if validator_key (ab_validator b) \<in> keys
      then Inl (RnDuplicateValidator (round_text tx r) (validator_key (ab_validator b)))
      else unique_ballots tx r (insert (ab_id b) ids) (insert (validator_key (ab_validator b)) keys) bs)"

definition ensure_unique_ballots_and_validators :: "Texts \<Rightarrow> AdjudicationRoundId \<Rightarrow> AdjudicationBallot list \<Rightarrow>
    RoundError + unit" where
  "ensure_unique_ballots_and_validators tx r bs = unique_ballots tx r {} {} bs"

definition parse_decision :: "Texts \<Rightarrow> AdjudicationRoundId \<Rightarrow> Json \<Rightarrow> RoundError + AdjudicationPolicyDecision" where
  "parse_decision tx r v = ok_or (RnInvalidDecision (round_text tx r)) (de_decision tx v)"

definition load_round_context :: "Texts \<Rightarrow> Runner \<Rightarrow> AdjudicationRoundId \<Rightarrow> RoundError + RoundContext" where
  "load_round_context tx rn r =
     (let i = round_text tx r in
      and_then (map_err RnPersistence (get_adjudication_round (tx_read tx) (rn_store rn) i)) (\<lambda>found.
      and_then (ok_or (RnRoundNotFound i) found) (\<lambda>v.
      and_then (ok_or RnJson (de_stored_round tx v)) (\<lambda>stored.
      and_then (load_candidate_set_context tx rn (sd_set_id stored)) (\<lambda>cx.
      if sd_quorum stored \<noteq> cx_required_quorum cx
      then Inl (RnQuorumMismatch i (sd_quorum stored) (cx_required_quorum cx))
      else if sd_version stored \<noteq> ss_policy_version (cx_candidate_set cx)
      then Inl (RnVersionMismatch i (sd_version stored) (ss_policy_version (cx_candidate_set cx)))
      else
      and_then (ensure_unique_ballots_and_validators tx r (sd_ballots stored)) (\<lambda>_.
      and_then (case sd_decision stored of None \<Rightarrow> Inr None
        | Some d \<Rightarrow> and_then (parse_decision tx r d) (\<lambda>x. Inr (Some x))) (\<lambda>persisted.
      Inr \<lparr>rx_round_value = v, rx_round_id = r,
        rx_project_id = typed_id_display ''proj_'' (tx_uuid tx) (ss_project_id (cx_candidate_set cx)),
        rx_candidate_set = cx_candidate_set cx, rx_candidates = cx_candidates cx,
        rx_policy = ss_policy (cx_candidate_set cx), rx_expected_ballot_count = cx_expected_ballot_count cx,
        rx_ballots = sd_ballots stored,
        rx_decision = (case persisted of Some d \<Rightarrow> Some d | None \<Rightarrow> map_of (rn_memory rn) r)\<rparr>)))))))"

section \<open>Evaluation\<close>

definition validate_new_ballot :: "Texts \<Rightarrow> RoundContext \<Rightarrow> AdjudicationBallot \<Rightarrow> RoundError + unit" where
  "validate_new_ballot tx cx b =
     (let r = round_text tx (rx_round_id cx); key = validator_key (ab_validator b) in
      if ab_round_id b \<noteq> rx_round_id cx
      then Inl (RnWrongRound (ballot_text tx (ab_id b)) (round_text tx (ab_round_id b)) r)
      else if list_ex (\<lambda>x. ab_id x = ab_id b) (rx_ballots cx)
      then Inl (RnDuplicateBallot r (ballot_text tx (ab_id b)))
      else if list_ex (\<lambda>x. validator_key (ab_validator x) = key) (rx_ballots cx)
      then Inl (RnDuplicateValidator r key)
      else if \<not> ab_abstained b \<and> ab_assessments b = [] then Inl (RnEvidenceFree (ballot_text tx (ab_id b)))
      else map_err RnPolicy (validate_ballot b (set (map cd_id (rx_candidates cx)))))"

definition completion_for :: "AdjudicationOutcome \<Rightarrow> nat \<Rightarrow> nat \<Rightarrow> RoundCompletion" where
  "completion_for out ballots expected =
     (if selected_candidate_id out \<noteq> None then RoundQuorumReached
      else if filter ct_hard_gate_passed (ao_candidate_tallies out) = [] then RoundNoEligible
      else let remaining = expected - ballots in
        if ao_usable_ballot_count out + remaining < ao_round_validity_threshold out then RoundThresholdFailed
        else if \<not> list_ex (\<lambda>t. ct_hard_gate_passed t \<and> ct_approval_count t + remaining \<ge> unat (ao_required_quorum out))
            (ao_candidate_tallies out) then RoundQuorumImpossible
        else RoundPending)"

definition evaluate_context :: "Texts \<Rightarrow> RoundContext \<Rightarrow> RoundError + AdjudicationOutcome \<times> RoundCompletion" where
  "evaluate_context tx cx =
     and_then (map_err RnPolicy (adjudicate (rx_candidates cx) (rx_ballots cx) (rx_policy cx))) (\<lambda>out.
     if rx_decision cx \<noteq> None \<and> rx_decision cx \<noteq> Some (ao_decision out)
     then Inl (RnDecisionDrift (round_text tx (rx_round_id cx)) (decision_json tx (the (rx_decision cx)))
       (decision_json tx (ao_decision out)))
     else Inr (out, completion_for out (length (rx_ballots cx)) (rx_expected_ballot_count cx)))"

text \<open>One immediate transaction over the same database; \<open>t\<close> is the clock's text.\<close>

definition persist_tx :: "Texts \<Rightarrow> string \<Rightarrow> AdjudicationRoundId \<Rightarrow> string \<Rightarrow> AdjudicationPolicyDecision \<Rightarrow> nat \<Rightarrow> Store \<Rightarrow>
    RoundError + nat \<times> Store" where
  "persist_tx tx t r project_id d expected s =
     (let i = round_text tx r; v = decision_json tx d in
      and_then (case find_key rr_id i (st_rounds s) of
          None \<Rightarrow> Inl (RnRoundNotFound i)
        | Some row \<Rightarrow> (case find_key sr_id (rr_candidate_set_id row) (st_sets s) of
            None \<Rightarrow> Inl (RnRoundNotFound i)
          | Some sr \<Rightarrow> Inr (row, sr_project_id sr))) (\<lambda>(row, stored_project).
      if stored_project \<noteq> project_id then Inl (RnPersistence (ErrMissing ''round project'' i)) else
      let actual = current_revision s project_id in
      case rr_decision_json row of
        Some existing \<Rightarrow> (case tx_read tx existing of
            None \<Rightarrow> Inl RnJson
          | Some e \<Rightarrow> if e = v then Inr (actual, s) else Inl (RnDecisionDrift i e v))
      | None \<Rightarrow>
          if actual \<noteq> expected then Inl (RnRevisionConflict project_id expected actual)
          else if \<not> expected < 2 ^ 63
          then Inl (RnPersistence (ErrSchema (''project revision is too large for SQLite: '' @ nat_to_string expected)))
          else if project_id \<notin> fst ` set (st_revisions s) then Inl (RnRevisionConflict project_id expected 0)
          else Inr (expected + 1, s\<lparr>
            st_rounds := modify_key rr_id i (\<lambda>row. row\<lparr>rr_decision_json := Some (tx_json tx v), rr_decided_at := Some t\<rparr>)
              (st_rounds s),
            st_revisions := map (\<lambda>(p, n). (p, if p = project_id \<and> n = expected then n + 1 else n)) (st_revisions s)\<rparr>)))"

definition persist_decision :: "Texts \<Rightarrow> string \<Rightarrow> AdjudicationRoundId \<Rightarrow> string \<Rightarrow> AdjudicationPolicyDecision \<Rightarrow> nat \<Rightarrow>
    Runner \<Rightarrow> (RoundError + nat) \<times> Runner" where
  "persist_decision tx t r project_id d expected rn =
     (if rn_in_memory rn then (Inr expected, rn\<lparr>rn_memory := AList.update r d (rn_memory rn)\<rparr>)
      else case persist_tx tx t r project_id d expected (rn_store rn) of
        Inl e \<Rightarrow> (Inl e, rn)
      | Inr (revision, s) \<Rightarrow> (Inr revision, rn\<lparr>rn_store := s\<rparr>))"

definition progress :: "AdjudicationRoundId \<Rightarrow> nat \<Rightarrow> nat \<Rightarrow> RoundCompletion \<Rightarrow> AdjudicationPolicyDecision option \<Rightarrow>
    AdjudicationOutcome \<Rightarrow> nat \<Rightarrow> RoundProgress" where
  "progress r expected ballots completion decision out revision =
     \<lparr>rp_round_id = r, rp_complete = completion_is_terminal completion, rp_completion = completion, rp_decision = decision,
      rp_outcome = out, rp_ballot_count = ballots, rp_expected_ballot_count = expected, rp_revision = revision\<rparr>"

section \<open>Operations\<close>

text \<open>\<open>r\<close> is the fresh id of the round.\<close>

definition open_round :: "Texts \<Rightarrow> string \<Rightarrow> AdjudicationRoundId \<Rightarrow> CandidateSetId \<Rightarrow> nat \<Rightarrow> Runner \<Rightarrow>
    (RoundError + RoundOpened) \<times> Runner" where
  "open_round tx t r set_id expected rn =
     and_do (run_read (\<lambda>rn. load_candidate_set_context tx rn set_id) rn) (\<lambda>cx rn.
     if cx_candidates cx = [] then (Inl (RnNoCandidates (set_text tx set_id)), rn) else
     and_do (case ss_state (cx_candidate_set cx) of
         SetOpen \<Rightarrow> and_do (store_step (set_candidate_set_state t (set_text tx set_id) ''adjudicating'' expected) rn)
           (\<lambda>m rn. (Inr (snd m), rn))
       | SetAdjudicating \<Rightarrow> (Inr expected, rn)
       | state \<Rightarrow> (Inl (RnSetClosed (set_text tx set_id) state), rn)) (\<lambda>revision rn.
     and_do (store_step (\<lambda>s. and_then (parse_round (tx_json tx) t (JObject (obj_of
           [(''id'', id_json tx ''adj_'' r), (''candidateSetId'', id_json tx ''cset_'' set_id),
            (''policyVersion'', json_nat (ss_policy_version (cx_candidate_set cx))),
            (''requiredQuorum'', u16_json (cx_required_quorum cx)), (''createdAt'', JString t)])))
         (\<lambda>row. record_adjudication_round row revision s)) rn) (\<lambda>m rn.
     (Inr \<lparr>ro_round_id = r, ro_candidate_set_id = set_id,
        ro_policy_version = ss_policy_version (cx_candidate_set cx), ro_required_quorum = cx_required_quorum cx,
        ro_expected_ballot_count = cx_expected_ballot_count cx, ro_revision = snd m\<rparr>, rn))))"

definition submit_ballot :: "Texts \<Rightarrow> string \<Rightarrow> AdjudicationBallot \<Rightarrow> nat \<Rightarrow> Runner \<Rightarrow>
    (RoundError + RoundProgress) \<times> Runner" where
  "submit_ballot tx t b expected rn =
     (let r = ab_round_id b in
      and_do (run_read (\<lambda>rn. load_round_context tx rn r) rn) (\<lambda>cx rn.
      if rx_decision cx \<noteq> None then (Inl (RnAlreadyDecided (round_text tx r)), rn) else
      and_do (run_read (\<lambda>rn. validate_new_ballot tx cx b) rn) (\<lambda>_ rn.
      and_do (store_step (\<lambda>s. and_then (parse_ballot (tx_json tx) t (ballot_json tx b))
        (\<lambda>row. record_adjudication_ballot row expected s)) rn) (\<lambda>m rn.
      and_do (run_read (\<lambda>rn. load_round_context tx rn r) rn) (\<lambda>cx rn.
      and_do (run_read (\<lambda>rn. evaluate_context tx cx) rn) (\<lambda>(out, completion) rn.
      and_do (if completion_is_terminal completion
          then and_do (persist_decision tx t r (rx_project_id cx) (ao_decision out) (snd m) rn)
            (\<lambda>revision rn. (Inr (Some (ao_decision out), revision), rn))
          else (Inr (None, snd m), rn)) (\<lambda>(decision, revision) rn.
      (Inr (progress r (rx_expected_ballot_count cx) (length (rx_ballots cx)) completion decision out revision), rn))))))))"

definition replay_round :: "Texts \<Rightarrow> string \<Rightarrow> AdjudicationRoundId \<Rightarrow> Runner \<Rightarrow> (RoundError + RoundProgress) \<times> Runner" where
  "replay_round tx t r rn =
     and_do (run_read (\<lambda>rn. load_round_context tx rn r) rn) (\<lambda>cx rn.
     and_do (run_read (\<lambda>rn. evaluate_context tx cx) rn) (\<lambda>(out, completion) rn.
     let revision = current_revision (rn_store rn) (rx_project_id cx) in
     and_do (if completion_is_terminal completion
         then and_do (persist_decision tx t r (rx_project_id cx) (ao_decision out) revision rn)
           (\<lambda>revision rn. (Inr (Some (ao_decision out), revision), rn))
         else (Inr (rx_decision cx, revision), rn)) (\<lambda>(decision, revision) rn.
     (Inr (progress r (rx_expected_ballot_count cx) (length (rx_ballots cx)) completion decision out revision), rn))))"

definition round_status :: "Texts \<Rightarrow> Runner \<Rightarrow> AdjudicationRoundId \<Rightarrow> nat \<Rightarrow> RoundError + RoundStatusProjection" where
  "round_status tx rn r limit =
     and_then (load_round_context tx rn r) (\<lambda>cx.
     and_then (evaluate_context tx cx) (\<lambda>(out, completion).
     let limit = max 1 (min limit 500); truncated = length (rx_ballots cx) > limit;
         ballots = take limit (rx_ballots cx);
         round = (case as_object (rx_round_value cx) of
             None \<Rightarrow> rx_round_value cx
           | Some m \<Rightarrow> let m = obj_put ''truncated'' (JBool truncated) (obj_put ''limit'' (json_nat limit)
                 (obj_put ''ballots'' (JArray (map (ballot_json tx) ballots)) m))
               in JObject (case rx_decision cx of None \<Rightarrow> m | Some d \<Rightarrow> obj_put ''decision'' (decision_json tx d) m))
     in Inr \<lparr>rs_round_id = r, rs_candidate_set_id = ss_id (rx_candidate_set cx), rs_round = round,
          rs_ballots = ballots, rs_ballot_count = length (rx_ballots cx), rs_limit = limit,
          rs_truncated = truncated, rs_completion = completion, rs_decision = rx_decision cx, rs_outcome = out\<rparr>))"

end
