(* ===== verification/Rounds_Completion.thy ===== *)
theory Rounds_Completion
  imports Tasker_Rounds Tasker_Decision
begin

text \<open>
  When a round is terminal (\<open>completion_for\<close> of \<open>crates/jcode-tasker-rounds/src/lib.rs\<close>): the reasons it
  gives against the ballots that could still arrive.
\<close>

section \<open>Validation, declaratively\<close>

lemma collect_distinct_ok: "distinct ks \<Longrightarrow> set ks \<inter> seen = {} \<Longrightarrow> collect_distinct err seen ks = Inr (set ks \<union> seen)"
  by (induction err seen ks rule: collect_distinct.induct) auto

lemma validate_ballots_all: "validate_ballots known bs = Inr () \<longleftrightarrow> (\<forall>b \<in> set bs. validate_ballot b known = Inr ())"
  by (induction bs) (auto simp: and_then_Inr)

lemma validate_round_iff:
  "validate_round cs bs = Inr () \<longleftrightarrow> distinct (map cd_id cs) \<and> distinct (map ab_id bs) \<and>
     (\<forall>b \<in> set bs. validate_ballot b (cd_id ` set cs) = Inr ())"
proof
  assume v: "validate_round cs bs = Inr ()"
  then show "distinct (map cd_id cs) \<and> distinct (map ab_id bs) \<and> (\<forall>b \<in> set bs. validate_ballot b (cd_id ` set cs) = Inr ())"
    using validate_round_Inr [OF v] by (simp add: validate_ballots_all ballots_in_deterministic_order_def)
next
  assume a: "distinct (map cd_id cs) \<and> distinct (map ab_id bs) \<and> (\<forall>b \<in> set bs. validate_ballot b (cd_id ` set cs) = Inr ())"
  then have "candidate_ids cs = Inr (cd_id ` set cs)"
    unfolding candidate_ids_def by (subst collect_distinct_ok)
      (simp_all add: candidates_in_deterministic_order_def distinct_sorted_keys)
  moreover have "validate_ballot_ids bs = Inr ()"
    unfolding validate_ballot_ids_def using a
    by (subst collect_distinct_ok) (simp_all add: ballots_in_deterministic_order_def distinct_sorted_keys)
  ultimately show "validate_round cs bs = Inr ()"
    using a by (simp add: validate_round_def validate_ballots_all ballots_in_deterministic_order_def)
qed

lemma usable_count:
  "fst (snd (foldl tally_ballot (ts, u, n) bs)) = u + length (filter (\<lambda>b. \<not> ab_abstained b) bs)"
  by (induction bs arbitrary: ts u n) (simp_all add: tally_ballot_def)

lemma adjudicate_counts:
  assumes "adjudicate cs bs policy = Inr out"
  shows "ao_round_validity_threshold out = unat (ao_required_quorum out)"
    and "ao_usable_ballot_count out = length (filter (\<lambda>b. \<not> ab_abstained b) bs)"
    and "validate_round cs bs = Inr ()"
    and "\<exists>n. policy_parameters policy = Inr (n, ao_required_quorum out)"
    and "set (ao_candidate_tallies out) = final_tally cs bs ` set cs"
proof -
  obtain expected usable abstentions where p: "policy_parameters policy = Inr (expected, ao_required_quorum out)"
    and v: "validate_round cs bs = Inr ()"
    and ts: "ao_candidate_tallies out = sort_key tally_key (map (final_tally cs bs) (candidates_in_deterministic_order cs))"
    by (rule adjudicate_Inr [OF assms])
  show "validate_round cs bs = Inr ()" by (rule v)
  show "\<exists>n. policy_parameters policy = Inr (n, ao_required_quorum out)" using p by blast
  show "set (ao_candidate_tallies out) = final_tally cs bs ` set cs"
    by (simp add: ts candidates_in_deterministic_order_def)
  let ?r = "foldl tally_ballot (map (initial_tally (hard_gates cs bs)) (candidates_in_deterministic_order cs), 0, 0)
    (ballots_in_deterministic_order bs)"
  have "ao_round_validity_threshold out = unat (ao_required_quorum out) \<and> ao_usable_ballot_count out = fst (snd ?r)"
    using assms p v
    by (simp add: adjudicate_def evaluate_hard_gates_def Let_def split: prod.splits) (metis AdjudicationOutcome.select_convs(3-5))
  moreover have "length (filter (\<lambda>b. \<not> ab_abstained b) (ballots_in_deterministic_order bs)) =
      length (filter (\<lambda>b. \<not> ab_abstained b) bs)"
  proof -
    have "mset (filter (\<lambda>b. \<not> ab_abstained b) (ballots_in_deterministic_order bs)) = mset (filter (\<lambda>b. \<not> ab_abstained b) bs)"
      by (simp add: ballots_in_deterministic_order_def)
    then show ?thesis by (rule mset_eq_length)
  qed
  ultimately show "ao_round_validity_threshold out = unat (ao_required_quorum out)"
    "ao_usable_ballot_count out = length (filter (\<lambda>b. \<not> ab_abstained b) bs)" by (simp_all add: usable_count)
qed

lemma tally_of:
  assumes "adjudicate cs bs policy = Inr out"
  shows "(\<exists>t \<in> set (ao_candidate_tallies out). ct_hard_gate_passed t \<and> P (ct_approval_count t)) \<longleftrightarrow>
    (\<exists>c \<in> set cs. gated bs c \<and> P (approvals bs (cd_id c)))"
  using adjudicate_counts(5) [OF assms] final_tally_facts [OF adjudicate_counts(3) [OF assms]] by (auto simp: image_iff)

section \<open>More ballots\<close>

lemma gated_more: "gated (bs @ later) c \<Longrightarrow> gated bs c"
  by (auto simp: gated_def vetoed_def)

lemma approvals_append [simp]: "approvals (bs @ later) c = approvals bs c + approvals later c"
  by (simp add: approvals_def)

lemma approvals_le: "approvals bs c \<le> length bs"
  by (simp add: approvals_def)

lemma approvals_le_usable: "approvals bs c \<le> length (filter (\<lambda>b. \<not> ab_abstained b) bs)"
proof -
  have "length (filter (approves c) bs) \<le> length (filter (\<lambda>b. \<not> ab_abstained b) bs)"
    by (induction bs) (auto simp: approves_def)
  then show ?thesis by (simp add: approvals_def)
qed

lemma usable_append:
  "length (filter (\<lambda>b. \<not> ab_abstained b) (bs @ later)) \<le> length (filter (\<lambda>b. \<not> ab_abstained b) bs) + length later"
  by simp

definition approving :: "CandidateId \<Rightarrow> BallotId \<Rightarrow> AdjudicationBallot" where
  "approving c i = \<lparr>ab_id = i, ab_round_id = 0,
     ab_validator = \<lparr>vi_session_id = [], vi_agent_id = [], vi_model_id = None, vi_lineage_digest = []\<rparr>,
     ab_assessments = [\<lparr>ca_candidate_id = c, ca_eligible = True, ca_approve = True, ca_acceptance_score = 0,
       ca_risk_score = 0, ca_complexity_score = 0, ca_notes = []\<rparr>],
     ab_ranking = [], ab_abstained = False, ab_created_at = 0\<rparr>"

lemma approving_valid: "c \<in> known \<Longrightarrow> validate_ballot (approving c i) known = Inr ()"
  by (simp add: validate_ballot_def approving_def assessments_in_deterministic_order_def)

lemma approving_counts:
  "approvals (map (approving c) is) c = length is" "vetoed (map (approving c) is) d = False"
  by (induction "is") (auto simp: approvals_def approves_def approving_def vetoed_def)

lemma fresh_ids:
  assumes "length ids + n \<le> 2 ^ 128"
  shows "\<exists>is :: BallotId list. length is = n \<and> distinct is \<and> set is \<inter> set ids = {}"
proof -
  have "n \<le> card (UNIV - set ids :: BallotId set)"
    using assms card_length [of ids] card_Diff_subset [of "set ids" UNIV] by (simp add: card_word)
  then obtain S where "S \<subseteq> UNIV - set ids" "card S = n" "finite S"
    using obtain_subset_with_card_n by blast
  moreover obtain "is" where "set is = S" "distinct is" using finite_distinct_list [OF \<open>finite S\<close>] by blast
  ultimately show ?thesis using distinct_card [of "is"] by (intro exI [of _ "is"]) auto
qed

section \<open>Terminal rounds\<close>

definition selects :: "Candidate list \<Rightarrow> AdjudicationBallot list \<Rightarrow> ConcurrencyPolicy \<Rightarrow> bool" where
  "selects cs bs policy \<longleftrightarrow> (\<exists>out c. adjudicate cs bs policy = Inr out \<and> ao_decision out = PolSelect c)"

lemma selects_iff:
  "selects cs bs policy \<longleftrightarrow> (\<exists>n q. policy_parameters policy = Inr (n, q) \<and> validate_round cs bs = Inr () \<and>
     (\<exists>c \<in> set cs. gated bs c \<and> unat q \<le> approvals bs (cd_id c)))"
proof
  assume "selects cs bs policy"
  then obtain out c where out: "adjudicate cs bs policy = Inr out" and c: "ao_decision out = PolSelect c"
    by (auto simp: selects_def)
  show "\<exists>n q. policy_parameters policy = Inr (n, q) \<and> validate_round cs bs = Inr () \<and>
     (\<exists>c \<in> set cs. gated bs c \<and> unat q \<le> approvals bs (cd_id c))"
    using selection_facts [OF out] adjudicate_counts(3,4) [OF out] c by blast
next
  assume "\<exists>n q. policy_parameters policy = Inr (n, q) \<and> validate_round cs bs = Inr () \<and>
     (\<exists>c \<in> set cs. gated bs c \<and> unat q \<le> approvals bs (cd_id c))"
  then obtain n q where p: "policy_parameters policy = Inr (n, q)" and v: "validate_round cs bs = Inr ()"
    and c: "\<exists>c \<in> set cs. gated bs c \<and> unat q \<le> approvals bs (cd_id c)" by blast
  obtain out where out: "adjudicate cs bs policy = Inr out" using adjudicate_ok [OF p v] by blast
  have "ao_required_quorum out = q" using adjudicate_counts(4) [OF out] p by auto
  then show "selects cs bs policy" using selection_facts [OF out] c out by (auto simp: selects_def)
qed

lemma completion_reasons:
  assumes out: "adjudicate cs bs policy = Inr out" and n: "length bs \<le> n"
  defines "q \<equiv> unat (ao_required_quorum out)" and "remaining \<equiv> n - length bs"
  shows "completion_for out (length bs) n =
    (if \<exists>c. ao_decision out = PolSelect c then RoundQuorumReached
     else if \<not> (\<exists>c \<in> set cs. gated bs c) then RoundNoEligible
     else if length (filter (\<lambda>b. \<not> ab_abstained b) bs) + remaining < q then RoundThresholdFailed
     else if \<not> (\<exists>c \<in> set cs. gated bs c \<and> q \<le> approvals bs (cd_id c) + remaining) then RoundQuorumImpossible
     else RoundPending)"
proof -
  have sel: "selected_candidate_id out \<noteq> None \<longleftrightarrow> (\<exists>c. ao_decision out = PolSelect c)"
    by (cases "ao_decision out") (simp_all add: selected_candidate_id_def)
  have none: "filter ct_hard_gate_passed (ao_candidate_tallies out) = [] \<longleftrightarrow> \<not> (\<exists>c \<in> set cs. gated bs c)"
    using tally_of [OF out, of "\<lambda>_. True"] by (auto simp: filter_empty_conv)
  have reach: "list_ex (\<lambda>t. ct_hard_gate_passed t \<and> ct_approval_count t + remaining \<ge> q) (ao_candidate_tallies out) \<longleftrightarrow>
      (\<exists>c \<in> set cs. gated bs c \<and> q \<le> approvals bs (cd_id c) + remaining)"
    using tally_of [OF out, of "\<lambda>k. k + remaining \<ge> q"] by (simp add: list_ex_iff)
  show ?thesis
    unfolding completion_for_def sel none Let_def adjudicate_counts(1,2) [OF out] q_def [symmetric]
      remaining_def [symmetric] reach ..
qed

text \<open>A round that is terminal without a selection stays so whatever arrives; a pending one can still select.\<close>

lemma terminal_is_final:
  assumes out: "adjudicate cs bs policy = Inr out" and n: "length bs \<le> n"
    and terminal: "completion_is_terminal (completion_for out (length bs) n)" and "\<forall>c. ao_decision out \<noteq> PolSelect c"
    and later: "length (bs @ later) \<le> n"
  shows "\<not> selects cs (bs @ later) policy"
proof
  assume "selects cs (bs @ later) policy"
  then obtain k q c where p: "policy_parameters policy = Inr (k, q)" and c: "c \<in> set cs" "gated (bs @ later) c"
    and a: "unat q \<le> approvals (bs @ later) (cd_id c)" by (auto simp: selects_iff)
  have q: "q = ao_required_quorum out" using adjudicate_counts(4) [OF out] p by auto
  have g: "gated bs c" using gated_more c(2) .
  have m: "length later \<le> n - length bs" using later by simp
  have reach: "unat q \<le> approvals bs (cd_id c) + (n - length bs)"
    using a approvals_le [of later "cd_id c"] m by simp
  moreover have "unat q \<le> length (filter (\<lambda>b. \<not> ab_abstained b) bs) + (n - length bs)"
    using reach approvals_le_usable [of bs "cd_id c"] by linarith
  ultimately have "completion_for out (length bs) n = RoundPending"
    unfolding completion_reasons [OF out n] using assms(4) c(1) g q by auto
  then show False using terminal by (simp add: completion_is_terminal_def)
qed

lemma pending_can_select:
  assumes out: "adjudicate cs bs policy = Inr out" and n: "length bs \<le> n" "n \<le> 2 ^ 128"
    and pending: "completion_for out (length bs) n = RoundPending"
  shows "length bs < n \<and> (\<exists>later. length (bs @ later) \<le> n \<and> selects cs (bs @ later) policy)"
proof -
  let ?q = "ao_required_quorum out"
  have no: "\<not> (\<exists>c. ao_decision out = PolSelect c)"
    and "\<exists>c \<in> set cs. gated bs c \<and> unat ?q \<le> approvals bs (cd_id c) + (n - length bs)"
    using pending unfolding completion_reasons [OF out n(1)] by (auto split: if_splits)
  then obtain c where c: "c \<in> set cs" "gated bs c" and q: "unat ?q \<le> approvals bs (cd_id c) + (n - length bs)" by blast
  have v: "validate_round cs bs = Inr ()" by (rule adjudicate_counts(3) [OF out])
  obtain k where p: "policy_parameters policy = Inr (k, ?q)" using adjudicate_counts(4) [OF out] by blast
  have "\<not> selects cs bs policy" using no out by (auto simp: selects_def)
  then have "\<not> unat ?q \<le> approvals bs (cd_id c)" using c p v by (auto simp: selects_iff)
  then have less: "length bs < n" using q by (cases "length bs < n") auto
  obtain ids where ids: "length ids = n - length bs" "distinct ids" "set ids \<inter> set (map ab_id bs) = {}"
    using fresh_ids [of "map ab_id bs" "n - length bs"] n by auto
  let ?later = "map (approving (cd_id c)) ids"
  have ok: "validate_ballot (approving (cd_id c) x) (cd_id ` set cs) = Inr ()" for x
    using c(1) by (intro approving_valid) simp
  have i: "ab_id \<circ> approving d = id" for d by (simp add: fun_eq_iff approving_def)
  have "validate_round cs (bs @ ?later) = Inr ()"
    using v ids(2,3) c(1) by (auto simp: validate_round_iff i comp_assoc ok image_iff)
  moreover have "gated (bs @ ?later) c"
    using c(2) approving_counts(2) [of "cd_id c" ids "cd_id c"] by (auto simp: gated_def vetoed_def)
  moreover have "unat ?q \<le> approvals (bs @ ?later) (cd_id c)"
    using q ids(1) by (simp add: approving_counts)
  ultimately have "selects cs (bs @ ?later) policy" using p c(1) by (auto simp: selects_iff)
  moreover have "length (bs @ ?later) \<le> n" using ids(1) n(1) by simp
  ultimately show ?thesis using less by blast
qed

end
