(* ===== verification/Rounds_Load.thy ===== *)
theory Rounds_Load
  imports Rounds_Completion Promo_Revisions
begin

text \<open>
  What loading a candidate set or a round reads of the store.
\<close>

section \<open>What a loaded context says of the store\<close>

lemma text_inj: "texts_ok tx \<Longrightarrow> typed_id_display p (tx_uuid tx) i = typed_id_display p (tx_uuid tx) j \<longleftrightarrow> i = j"
  by (auto simp: typed_id_display_def texts_ok_def) (metis option.inject)

lemma de_id_text [simp]: "texts_ok tx \<Longrightarrow> de_id tx p (JString (typed_id_display p (tx_uuid tx) i)) = Some i"
  using de_id_json by (simp add: id_json_def)

definition set_loaded :: "Texts \<Rightarrow> Store \<Rightarrow> CandidateSetId \<Rightarrow> SetRow \<Rightarrow> CandidateSetContext \<Rightarrow> bool" where
  "set_loaded tx s i row cx \<longleftrightarrow> find_key sr_id (set_text tx i) (st_sets s) = Some row \<and>
     Option.bind (tx_read tx (sr_policy_json row)) de_policy = Some (ss_policy (cx_candidate_set cx)) \<and>
     de_id tx ''cset_'' (JString (sr_id row)) = Some (ss_id (cx_candidate_set cx)) \<and>
     de_id tx ''proj_'' (JString (sr_project_id row)) = Some (ss_project_id (cx_candidate_set cx)) \<and>
     sr_policy_version row = ss_policy_version (cx_candidate_set cx) \<and>
     adjudication_quorum (ss_policy (cx_candidate_set cx)) = Inr (cx_required_quorum cx) \<and>
     cx_expected_ballot_count cx = unat (candidate_limit (ss_policy (cx_candidate_set cx))) \<and>
     (\<exists>vals. collect_results (candidate_value (tx_read tx)) (set_candidates s (set_text tx i)) = Inr vals \<and>
       de_all (de_stored_candidate tx) vals = Some (cx_candidates cx))"

lemma projection_value:
  assumes "candidate_set_projection read s i n = Inr p"
  shows "\<exists>vals project_id v. p = JObject (obj_of [(''projectId'', JString project_id), (''candidateSet'', v),
      (''candidates'', JArray vals), (''count'', json_nat (length (set_candidates s i))),
      (''limit'', json_nat (bounded_limit n)), (''truncated'', JBool (length (set_candidates s i) > bounded_limit n))]) \<and>
    collect_results (candidate_value read) (take (bounded_limit n) (set_candidates s i)) = Inr vals"
  using assms by (auto simp: candidate_set_projection_def Let_def and_then_Inr)

lemma stored_set_value:
  assumes "candidate_set_value (tx_read tx) row = Inr v" and "de_stored_set tx v = Some c"
  shows "Option.bind (tx_read tx (sr_policy_json row)) de_policy = Some (ss_policy c) \<and>
    de_id tx ''cset_'' (JString (sr_id row)) = Some (ss_id c) \<and>
    de_id tx ''proj_'' (JString (sr_project_id row)) = Some (ss_project_id c) \<and>
    sr_policy_version row = ss_policy_version c"
  using assms by (auto simp: candidate_set_value_def text_value_def and_then_Inr de_stored_set_def bind_eq_Some_conv
      json_read split: if_splits)

lemma load_set_loaded:
  assumes "load_candidate_set_context tx rn i = Inr cx"
  shows "\<exists>row. set_loaded tx (rn_store rn) i row cx"
proof -
  let ?s = "rn_store rn" and ?i = "set_text tx i"
  from assms obtain v p vals where
    v: "get_candidate_set (tx_read tx) ?s ?i = Inr (Some v)" "de_stored_set tx v = Some (cx_candidate_set cx)"
    and q: "adjudication_quorum (ss_policy (cx_candidate_set cx)) = Inr (cx_required_quorum cx)"
      "cx_expected_ballot_count cx = unat (candidate_limit (ss_policy (cx_candidate_set cx)))"
    and p: "candidate_set_projection (tx_read tx) ?s ?i 500 = Inr p"
    and cut: "\<not> or_else (Option.bind (obj_get (or_else (as_object p) []) ''truncated'') as_bool) False"
    and vals: "Option.bind (obj_get (or_else (as_object p) []) ''candidates'') as_array = Some vals"
      "de_all (de_stored_candidate tx) vals = Some (cx_candidates cx)"
    unfolding load_candidate_set_context_def Let_def by (fastforce simp: and_then_Inr split: if_splits)
  from v(1) obtain row where row: "find_key sr_id ?i (st_sets ?s) = Some row" "candidate_set_value (tx_read tx) row = Inr v"
    by (auto simp: get_candidate_set_def lookup_value_def and_then_Inr split: option.splits)
  note stored_set_value [OF row(2) v(2)]
  moreover have "collect_results (candidate_value (tx_read tx)) (set_candidates ?s ?i) = Inr vals"
    using projection_value [OF p] cut vals(1) by (auto simp: json_read or_else_def bounded_limit_def MAX_PROJECTION_LIMIT_def)
  ultimately show ?thesis using row(1) q vals(2) by (auto simp: set_loaded_def)
qed

definition round_loaded :: "Texts \<Rightarrow> Runner \<Rightarrow> AdjudicationRoundId \<Rightarrow> RoundRow \<Rightarrow> RoundContext \<Rightarrow> bool" where
  "round_loaded tx rn r row cx \<longleftrightarrow>
     find_key rr_id (round_text tx r) (st_rounds (rn_store rn)) = Some row \<and> rx_round_id cx = r \<and>
     (\<exists>vals. collect_results (ballot_value (tx_read tx)) (round_ballots (rn_store rn) (round_text tx r)) = Inr vals \<and>
       de_all (de_stored_ballot tx) vals = Some (rx_ballots cx)) \<and>
     ensure_unique_ballots_and_validators tx r (rx_ballots cx) = Inr () \<and>
     (\<exists>i cc. de_id tx ''cset_'' (JString (rr_candidate_set_id row)) = Some i \<and>
       load_candidate_set_context tx rn i = Inr cc \<and> rx_candidates cx = cx_candidates cc \<and>
       rx_policy cx = ss_policy (cx_candidate_set cc) \<and>
       rx_expected_ballot_count cx = cx_expected_ballot_count cc \<and>
       rx_project_id cx = typed_id_display ''proj_'' (tx_uuid tx) (ss_project_id (cx_candidate_set cc))) \<and>
     (case rr_decision_json row of None \<Rightarrow> rx_decision cx = map_of (rn_memory rn) r
      | Some d \<Rightarrow> (\<exists>v. tx_read tx d = Some v \<and> (if v = JNull then rx_decision cx = map_of (rn_memory rn) r
          else de_decision tx v \<noteq> None \<and> rx_decision cx = de_decision tx v)))"

lemma de_opt_value: "de_opt k Some m = Some (case obj_get m k of None \<Rightarrow> None | Some v \<Rightarrow> if v = JNull then None else Some v)"
  by (auto simp: de_opt_def split: option.split Json.split)

definition round_fields :: "RoundRow \<Rightarrow> Json \<Rightarrow> Json list \<Rightarrow> JsonMap" where
  "round_fields row decision ballots = obj_of [(''id'', JString (rr_id row)),
     (''candidateSetId'', JString (rr_candidate_set_id row)), (''policyVersion'', json_nat (rr_policy_version row)),
     (''requiredQuorum'', json_nat (rr_required_quorum row)), (''decision'', decision), (''ballots'', JArray ballots),
     (''createdAt'', JString (rr_created_at row)), (''decidedAt'', json_opt JString (rr_decided_at row))]"

lemma round_fields_get:
  "obj_get (round_fields row d bs) ''candidateSetId'' = Some (JString (rr_candidate_set_id row))"
  "obj_get (round_fields row d bs) ''decision'' = Some d"
  "obj_get (round_fields row d bs) ''ballots'' = Some (JArray bs)"
  by (simp_all add: round_fields_def obj_get_of)

lemma stored_round_fields:
  assumes "de_stored_round tx (JObject (round_fields row d vals)) = Some c"
  shows "de_id tx ''cset_'' (JString (rr_candidate_set_id row)) = Some (sd_set_id c)"
    and "sd_decision c = (if d = JNull then None else Some d)"
    and "de_all (de_stored_ballot tx) vals = Some (sd_ballots c)"
  using assms unfolding de_stored_round_def
  by (auto simp: bind_eq_Some_conv de_field_def de_opt_value round_fields_get de_list_def)

text \<open>What a successful load went through.\<close>

definition round_parts :: "Texts \<Rightarrow> Runner \<Rightarrow> AdjudicationRoundId \<Rightarrow> RoundRow \<Rightarrow> Json list \<Rightarrow> Json \<Rightarrow> StoredRound \<Rightarrow>
    CandidateSetContext \<Rightarrow> AdjudicationPolicyDecision option \<Rightarrow> bool" where
  "round_parts tx rn r row vals d c cc persisted \<longleftrightarrow>
     find_key rr_id (round_text tx r) (st_rounds (rn_store rn)) = Some row \<and>
     collect_results (ballot_value (tx_read tx)) (round_ballots (rn_store rn) (round_text tx r)) = Inr vals \<and>
     (case rr_decision_json row of None \<Rightarrow> Inr JNull | Some d \<Rightarrow> text_value (tx_read tx) d) = Inr d \<and>
     de_stored_round tx (JObject (round_fields row d vals)) = Some c \<and>
     load_candidate_set_context tx rn (sd_set_id c) = Inr cc \<and>
     sd_quorum c = cx_required_quorum cc \<and> sd_version c = ss_policy_version (cx_candidate_set cc) \<and>
     ensure_unique_ballots_and_validators tx r (sd_ballots c) = Inr () \<and>
     (case sd_decision c of None \<Rightarrow> Inr None | Some d \<Rightarrow> and_then (parse_decision tx r d) (\<lambda>x. Inr (Some x))) = Inr persisted"

definition round_context :: "Texts \<Rightarrow> Runner \<Rightarrow> AdjudicationRoundId \<Rightarrow> RoundRow \<Rightarrow> Json list \<Rightarrow> Json \<Rightarrow> StoredRound \<Rightarrow>
    CandidateSetContext \<Rightarrow> AdjudicationPolicyDecision option \<Rightarrow> RoundContext" where
  "round_context tx rn r row vals d c cc persisted =
     \<lparr>rx_round_value = JObject (round_fields row d vals), rx_round_id = r,
        rx_project_id = typed_id_display ''proj_'' (tx_uuid tx) (ss_project_id (cx_candidate_set cc)),
        rx_candidate_set = cx_candidate_set cc, rx_candidates = cx_candidates cc,
        rx_policy = ss_policy (cx_candidate_set cc), rx_expected_ballot_count = cx_expected_ballot_count cc,
        rx_ballots = sd_ballots c,
        rx_decision = (case persisted of Some d \<Rightarrow> Some d | None \<Rightarrow> map_of (rn_memory rn) r)\<rparr>"

lemma round_row_value:
  "find_key rr_id i (st_rounds s) = Some row \<Longrightarrow> collect_results (ballot_value read) (round_ballots s i) = Inr vals \<Longrightarrow>
   (case rr_decision_json row of None \<Rightarrow> Inr JNull | Some d \<Rightarrow> text_value read d) = Inr d \<Longrightarrow>
   get_adjudication_round read s i = Inr (Some (JObject (round_fields row d vals)))"
  using find_key_Some [of rr_id i "st_rounds s" row]
  by (simp add: get_adjudication_round_def lookup_value_def round_value_def round_fields_def)

lemma load_roundI:
  "round_parts tx rn r row vals d c cc persisted \<Longrightarrow>
   load_round_context tx rn r = Inr (round_context tx rn r row vals d c cc persisted)"
  using round_row_value [of "round_text tx r" "rn_store rn" row "tx_read tx" vals d]
  unfolding round_parts_def load_round_context_def Let_def
  by (simp add: round_context_def)

lemma load_roundE:
  assumes "load_round_context tx rn r = Inr cx"
  shows "\<exists>row vals d c cc persisted. round_parts tx rn r row vals d c cc persisted \<and>
    cx = round_context tx rn r row vals d c cc persisted"
proof -
  let ?s = "rn_store rn" and ?i = "round_text tx r"
  note load = assms [unfolded load_round_context_def Let_def]
  obtain v where v: "get_adjudication_round (tx_read tx) ?s ?i = Inr (Some v)"
    using load by (cases "get_adjudication_round (tx_read tx) ?s ?i") (auto simp: ok_or_def split: option.splits)
  then obtain row where row: "find_key rr_id ?i (st_rounds ?s) = Some row" "round_value (tx_read tx) ?s row = Inr v"
    unfolding get_adjudication_round_def lookup_value_def by (auto simp: and_then_Inr split: option.splits)
  have i: "rr_id row = ?i" using find_key_Some [OF row(1)] by simp
  obtain c where c: "de_stored_round tx v = Some c" using load v by (cases "de_stored_round tx v") simp_all
  from row(2) obtain vals d where vals: "collect_results (ballot_value (tx_read tx)) (round_ballots ?s ?i) = Inr vals"
    and d: "(case rr_decision_json row of None \<Rightarrow> Inr JNull | Some d \<Rightarrow> text_value (tx_read tx) d) = Inr d"
    and vv: "v = JObject (round_fields row d vals)"
    unfolding round_value_def and_then_Inr round_fields_def i by blast
  obtain cc where cc: "load_candidate_set_context tx rn (sd_set_id c) = Inr cc"
    using load v c by (cases "load_candidate_set_context tx rn (sd_set_id c)") simp_all
  have q: "sd_quorum c = cx_required_quorum cc" "sd_version c = ss_policy_version (cx_candidate_set cc)"
    using load v c cc by (simp_all split: if_splits)
  let ?p = "case sd_decision c of None \<Rightarrow> Inr None | Some d \<Rightarrow> and_then (parse_decision tx r d) (\<lambda>x. Inr (Some x))"
  obtain w where w: "ensure_unique_ballots_and_validators tx r (sd_ballots c) = Inr w"
    using load v c cc q by (cases "ensure_unique_ballots_and_validators tx r (sd_ballots c)") simp_all
  obtain persisted where p: "?p = Inr persisted" using load v c cc q w by (cases ?p) simp_all
  have parts: "round_parts tx rn r row vals d c cc persisted"
    unfolding round_parts_def using row(1) vals d c cc q w p vv by simp
  then show ?thesis using load_roundI [OF parts] assms by (metis sum.inject(2))
qed

lemma load_round_loaded:
  assumes "load_round_context tx rn r = Inr cx"
  shows "\<exists>row. round_loaded tx rn r row cx"
proof -
  from load_roundE [OF assms] obtain row vals d c cc persisted where
    parts: "round_parts tx rn r row vals d c cc persisted" and cx: "cx = round_context tx rn r row vals d c cc persisted"
    by blast
  note p = parts [unfolded round_parts_def]
  from p have "de_stored_round tx (JObject (round_fields row d vals)) = Some c" by blast
  note c = stored_round_fields [OF this]
  have dec: "case rr_decision_json row of None \<Rightarrow> rx_decision cx = map_of (rn_memory rn) r
      | Some d \<Rightarrow> (\<exists>v. tx_read tx d = Some v \<and> (if v = JNull then rx_decision cx = map_of (rn_memory rn) r
          else de_decision tx v \<noteq> None \<and> rx_decision cx = de_decision tx v))"
  proof (cases "rr_decision_json row")
    case None
    then show ?thesis using p c(2) by (auto simp: cx round_context_def)
  next
    case (Some s)
    then have "tx_read tx s = Some d" using p by (simp add: text_value_def)
    then show ?thesis using p c(2) Some
      by (cases "de_decision tx d"; cases persisted; cases "d = JNull") (simp_all add: cx round_context_def parse_decision_def)
  qed
  have "\<exists>j cc. de_id tx ''cset_'' (JString (rr_candidate_set_id row)) = Some j \<and>
       load_candidate_set_context tx rn j = Inr cc \<and> rx_candidates cx = cx_candidates cc \<and>
       rx_policy cx = ss_policy (cx_candidate_set cc) \<and>
       rx_expected_ballot_count cx = cx_expected_ballot_count cc \<and>
       rx_project_id cx = typed_id_display ''proj_'' (tx_uuid tx) (ss_project_id (cx_candidate_set cc))"
    using c(1) p by (intro exI [of _ "sd_set_id c"] exI [of _ cc]) (simp add: cx round_context_def)
  then show ?thesis
    using p c(3) dec unfolding round_loaded_def by (intro exI [of _ row]) (simp add: cx round_context_def)
qed

end
