(* ===== verification/Rounds_Invariant.thy ===== *)
theory Rounds_Invariant
  imports Rounds_Load
begin

text \<open>
  What holds of every round in every state its orchestrator can reach: a persisted decision is the
  adjudication of the persisted ballots and final, an undecided round is still open or empty, and there
  are never more ballots than slots.
\<close>

section \<open>What is stored of a round\<close>

definition stored_decision :: "Texts \<Rightarrow> string option \<Rightarrow> AdjudicationPolicyDecision option \<Rightarrow>
    AdjudicationPolicyDecision option option" where
  "stored_decision tx text mem = (case text of None \<Rightarrow> Some mem
     | Some d \<Rightarrow> (case tx_read tx d of None \<Rightarrow> None
       | Some v \<Rightarrow> if v = JNull then Some mem else map_option Some (de_decision tx v)))"

definition seen_core :: "Texts \<Rightarrow> Runner \<Rightarrow> AdjudicationRoundId \<Rightarrow> Candidate list \<Rightarrow> ConcurrencyPolicy \<Rightarrow>
    AdjudicationPolicyDecision option \<Rightarrow> bool" where
  "seen_core tx rn r cs p d \<longleftrightarrow> (\<exists>row i srow.
     find_key rr_id (round_text tx r) (st_rounds (rn_store rn)) = Some row \<and>
     de_id tx ''cset_'' (JString (rr_candidate_set_id row)) = Some i \<and>
     find_key sr_id (set_text tx i) (st_sets (rn_store rn)) = Some srow \<and>
     Option.bind (tx_read tx (sr_policy_json srow)) de_policy = Some p \<and>
     (\<exists>vals. collect_results (candidate_value (tx_read tx)) (set_candidates (rn_store rn) (set_text tx i)) = Inr vals \<and>
       de_all (de_stored_candidate tx) vals = Some cs) \<and>
     stored_decision tx (rr_decision_json row) (map_of (rn_memory rn) r) = Some d)"

definition seen_ballots :: "Texts \<Rightarrow> Store \<Rightarrow> AdjudicationRoundId \<Rightarrow> AdjudicationBallot list \<Rightarrow> bool" where
  "seen_ballots tx s r bs \<longleftrightarrow> (\<exists>vals. collect_results (ballot_value (tx_read tx)) (round_ballots s (round_text tx r)) = Inr vals \<and>
     de_all (de_stored_ballot tx) vals = Some bs) \<and> ensure_unique_ballots_and_validators tx r bs = Inr ()"

definition seen :: "Texts \<Rightarrow> Runner \<Rightarrow> AdjudicationRoundId \<Rightarrow> Candidate list \<Rightarrow> AdjudicationBallot list \<Rightarrow>
    ConcurrencyPolicy \<Rightarrow> AdjudicationPolicyDecision option \<Rightarrow> bool" where
  "seen tx rn r cs bs p d \<longleftrightarrow> seen_core tx rn r cs p d \<and> seen_ballots tx (rn_store rn) r bs"

lemma load_seen:
  assumes "load_round_context tx rn r = Inr cx"
  shows "seen tx rn r (rx_candidates cx) (rx_ballots cx) (rx_policy cx) (rx_decision cx)"
    and "rx_expected_ballot_count cx = unat (candidate_limit (rx_policy cx))" and "rx_round_id cx = r"
    and "\<exists>row i srow pid. find_key rr_id (round_text tx r) (st_rounds (rn_store rn)) = Some row \<and>
      de_id tx ''cset_'' (JString (rr_candidate_set_id row)) = Some i \<and>
      find_key sr_id (set_text tx i) (st_sets (rn_store rn)) = Some srow \<and>
      de_id tx ''proj_'' (JString (sr_project_id srow)) = Some pid \<and>
      rx_project_id cx = typed_id_display ''proj_'' (tx_uuid tx) pid"
proof -
  obtain row where "round_loaded tx rn r row cx" using load_round_loaded [OF assms] by blast
  note l = this [unfolded round_loaded_def]
  from l obtain i cc where i: "de_id tx ''cset_'' (JString (rr_candidate_set_id row)) = Some i"
    and "load_candidate_set_context tx rn i = Inr cc"
    and cx: "rx_candidates cx = cx_candidates cc" "rx_policy cx = ss_policy (cx_candidate_set cc)"
      "rx_expected_ballot_count cx = cx_expected_ballot_count cc"
      "rx_project_id cx = typed_id_display ''proj_'' (tx_uuid tx) (ss_project_id (cx_candidate_set cc))" by blast
  then obtain srow where s: "set_loaded tx (rn_store rn) i srow cc" using load_set_loaded by blast
  note s = s [unfolded set_loaded_def]
  have "stored_decision tx (rr_decision_json row) (map_of (rn_memory rn) r) = Some (rx_decision cx)"
    using l by (auto simp: stored_decision_def split: option.splits if_splits)
  then show "seen tx rn r (rx_candidates cx) (rx_ballots cx) (rx_policy cx) (rx_decision cx)"
    unfolding seen_def seen_core_def seen_ballots_def using l s i cx
    by (intro conjI exI [of _ row] exI [of _ i] exI [of _ srow]) simp_all
  show "rx_expected_ballot_count cx = unat (candidate_limit (rx_policy cx))" using cx s by simp
  show "rx_round_id cx = r" using l by blast
  show "\<exists>row i srow pid. find_key rr_id (round_text tx r) (st_rounds (rn_store rn)) = Some row \<and>
      de_id tx ''cset_'' (JString (rr_candidate_set_id row)) = Some i \<and>
      find_key sr_id (set_text tx i) (st_sets (rn_store rn)) = Some srow \<and>
      de_id tx ''proj_'' (JString (sr_project_id srow)) = Some pid \<and>
      rx_project_id cx = typed_id_display ''proj_'' (tx_uuid tx) pid"
    using l i s cx by blast
qed

lemma seen_core_fun: "seen_core tx rn r cs p d \<Longrightarrow> seen_core tx rn r cs' p' d' \<Longrightarrow> cs' = cs \<and> p' = p \<and> d' = d"
  unfolding seen_core_def by auto

section \<open>Frames\<close>

text \<open>The stores agree on the sets, up to their state, and on the candidates.\<close>

definition same_sets :: "Store \<Rightarrow> Store \<Rightarrow> bool" where
  "same_sets s s' \<longleftrightarrow> st_candidates s' = st_candidates s \<and>
     (\<forall>i. map_option (\<lambda>row. (sr_policy_json row, sr_project_id row)) (find_key sr_id i (st_sets s')) =
       map_option (\<lambda>row. (sr_policy_json row, sr_project_id row)) (find_key sr_id i (st_sets s)))"

lemma same_sets_eq: "st_candidates s' = st_candidates s \<Longrightarrow> st_sets s' = st_sets s \<Longrightarrow> same_sets s s'"
  by (simp add: same_sets_def)

lemma same_sets_sym: "same_sets s s' \<Longrightarrow> same_sets s' s"
  by (simp add: same_sets_def)

lemma same_sets_row:
  assumes "same_sets s s'" and "find_key sr_id i (st_sets s) = Some srow"
  shows "\<exists>srow'. find_key sr_id i (st_sets s') = Some srow' \<and> sr_policy_json srow' = sr_policy_json srow \<and>
    sr_project_id srow' = sr_project_id srow"
proof -
  have "map_option (\<lambda>row. (sr_policy_json row, sr_project_id row)) (find_key sr_id i (st_sets s')) =
      Some (sr_policy_json srow, sr_project_id srow)"
    using assms unfolding same_sets_def by simp
  then show ?thesis by (auto simp: map_option_eq_Some)
qed

text \<open>What is seen of a round depends on the set of its row, its ballots and its decision.\<close>

definition same_round :: "Texts \<Rightarrow> AdjudicationRoundId \<Rightarrow> Runner \<Rightarrow> Runner \<Rightarrow> bool" where
  "same_round tx r rn rn' \<longleftrightarrow> same_sets (rn_store rn) (rn_store rn') \<and>
     find_key rr_id (round_text tx r) (st_rounds (rn_store rn')) = find_key rr_id (round_text tx r) (st_rounds (rn_store rn)) \<and>
     round_ballots (rn_store rn') (round_text tx r) = round_ballots (rn_store rn) (round_text tx r) \<and>
     map_of (rn_memory rn') r = map_of (rn_memory rn) r"

lemma set_candidates_cong: "same_sets s s' \<Longrightarrow> set_candidates s' i = set_candidates s i"
  by (simp add: same_sets_def set_candidates_def)

lemma seen_core_frame:
  assumes same: "same_sets (rn_store rn) (rn_store rn')"
    and "find_key rr_id (round_text tx r) (st_rounds (rn_store rn')) = find_key rr_id (round_text tx r) (st_rounds (rn_store rn))"
    and "map_of (rn_memory rn') r = map_of (rn_memory rn) r"
    and "seen_core tx rn' r cs p d"
  shows "seen_core tx rn r cs p d"
proof -
  note same = same_sets_sym [OF same]
  from assms(4) obtain row i srow where
    row: "find_key rr_id (round_text tx r) (st_rounds (rn_store rn')) = Some row"
      "de_id tx ''cset_'' (JString (rr_candidate_set_id row)) = Some i"
    and srow: "find_key sr_id (set_text tx i) (st_sets (rn_store rn')) = Some srow"
    and rest: "Option.bind (tx_read tx (sr_policy_json srow)) de_policy = Some p"
     "\<exists>vals. collect_results (candidate_value (tx_read tx)) (set_candidates (rn_store rn') (set_text tx i)) = Inr vals \<and>
       de_all (de_stored_candidate tx) vals = Some cs"
     "stored_decision tx (rr_decision_json row) (map_of (rn_memory rn') r) = Some d" unfolding seen_core_def by blast
  obtain srow' where srow': "find_key sr_id (set_text tx i) (st_sets (rn_store rn)) = Some srow'"
    "sr_policy_json srow' = sr_policy_json srow" using same_sets_row [OF same srow] by blast
  show ?thesis
    unfolding seen_core_def using assms(2,3) row rest srow' set_candidates_cong [OF same]
    by (intro exI [of _ row] exI [of _ i] exI [of _ srow']) simp
qed

lemma seen_frame: "same_round tx r rn rn' \<Longrightarrow> seen tx rn' r cs bs p d \<Longrightarrow> seen tx rn r cs bs p d"
  using seen_core_frame [of rn rn' tx r cs p d] by (auto simp: same_round_def seen_def seen_ballots_def)

section \<open>The transactions behind the operations\<close>

lemma revisions_only:
  "ensure_revision s p e = Inr (s1, a) \<Longrightarrow> \<exists>rv. s1 = s\<lparr>st_revisions := rv\<rparr>"
  "bump_revision s p a = Inr (s2, r) \<Longrightarrow> \<exists>rv. s2 = s\<lparr>st_revisions := rv\<rparr>"
  using ensure_revision_effect(3) [of s p e s1 a] bump_revision_effect [of s p a s2 r] by blast+

lemma set_state_effect:
  assumes "set_candidate_set_state t i st e s = Inr (m, s')"
  shows "same_sets s s' \<and> st_rounds s' = st_rounds s \<and> st_ballots s' = st_ballots s \<and>
    sr_project_id ` set (st_sets s') \<subseteq> sr_project_id ` set (st_sets s)"
proof -
  let ?f = "\<lambda>row. row\<lparr>sr_state := st, sr_updated_at := t\<rparr>"
  obtain rv where s': "s' = s\<lparr>st_sets := modify_key sr_id i ?f (st_sets s), st_revisions := rv\<rparr>"
    using assms by (auto simp: set_candidate_set_state_def and_then_Inr split: if_splits dest!: revisions_only)
  have "map_option (\<lambda>row. (sr_policy_json row, sr_project_id row)) (find_key sr_id j (modify_key sr_id i ?f (st_sets s))) =
      map_option (\<lambda>row. (sr_policy_json row, sr_project_id row)) (find_key sr_id j (st_sets s))" for j
    by (cases "j = i"; cases "find_key sr_id j (st_sets s)") (auto simp: find_key_modify)
  then show ?thesis
    using set_modify_key_subset [of sr_id i ?f "st_sets s"] by (auto simp: s' same_sets_def)
qed

lemma record_round_effect:
  assumes "record_adjudication_round row e s = Inr (m, s')"
  shows "rr_id row \<notin> rr_id ` set (st_rounds s) \<and> (\<exists>rv. s' = s\<lparr>st_rounds := st_rounds s @ [row], st_revisions := rv\<rparr>)"
  using assms
  by (auto simp: record_adjudication_round_def and_then_Inr insert_row_def split: if_splits dest!: revisions_only)

lemma record_ballot_effect:
  assumes "record_adjudication_ballot b e s = Inr (m, s')"
  shows "\<exists>p rv. round_project s (br_round_id b) = Inr p \<and> s' = s\<lparr>st_ballots := st_ballots s @ [b], st_revisions := rv\<rparr> \<and>
    snd m = current_revision s' p \<and> snd m < 2 ^ 63 \<and> p \<in> fst ` set (st_revisions s')"
proof -
  obtain p s1 a rows s2 r where p: "round_project s (br_round_id b) = Inr p"
    and s1: "ensure_revision s p e = Inr (s1, a)" and rows: "rows = st_ballots s1 @ [b]"
    and s2: "bump_revision (s1\<lparr>st_ballots := rows\<rparr>) p a = Inr (s2, r)" and m: "snd m = r" "s' = s2"
    using assms by (auto simp: record_adjudication_ballot_def and_then_Inr insert_row_def split: if_splits)
  have "advanced p e s r s2" by (rule guarded_txs(4) [OF s1 s2])
  then have r: "r = current_revision s' p" "0 < r" using m by (auto simp: advanced_def)
  then have "map_of (st_revisions s') p \<noteq> None" by (auto simp: current_revision_def split: option.splits)
  then have "p \<in> fst ` set (st_revisions s')" by (simp add: map_of_eq_None_iff)
  moreover have "r < 2 ^ 63" using s2 by (auto simp: bump_revision_def to_i64_def and_then_Inr split: if_splits)
  moreover obtain rv where "s' = s\<lparr>st_ballots := st_ballots s @ [b], st_revisions := rv\<rparr>"
    using revisions_only(1) [OF s1] revisions_only(2) [OF s2] rows m by auto
  ultimately show ?thesis using p r m by auto
qed

section \<open>Adjudication with one ballot more\<close>

lemma candidate_limit_bounds:
  assumes "policy_parameters p = Inr q"
  shows "0 < unat (candidate_limit p)"
  using assms by (cases p) (auto simp: policy_parameters_def policy_validate_def candidate_limit_def unat_gt_0
      split: if_splits)

lemma candidate_limit_small: "unat (candidate_limit p) \<le> 2 ^ 128"
proof -
  have "unat (candidate_limit p) < 2 ^ LENGTH(16)" by (rule unsigned_less)
  then show ?thesis by simp
qed

lemma adjudicate_fewer:
  assumes "adjudicate cs bs' p = Inr out'" and "mset bs' = add_mset x (mset bs)"
  shows "\<exists>out. adjudicate cs bs p = Inr out"
proof -
  have v: "validate_round cs bs' = Inr ()" by (rule adjudicate_counts(3) [OF assms(1)])
  obtain n where q: "policy_parameters p = Inr (n, ao_required_quorum out')"
    using adjudicate_counts(4) [OF assms(1)] by blast
  have "set bs \<subseteq> set bs'" using arg_cong [OF assms(2), of set_mset] by auto
  moreover have "distinct (map ab_id bs)"
  proof -
    have "distinct (map ab_id bs') \<longleftrightarrow> distinct (map ab_id (x # bs))"
      by (rule mset_eq_imp_distinct_iff) (use assms(2) in simp)
    then show ?thesis using v by (simp add: validate_round_iff)
  qed
  ultimately have "validate_round cs bs = Inr ()" using v by (auto simp: validate_round_iff)
  then show ?thesis using adjudicate_ok [OF q] by blast
qed

definition fine :: "Candidate list \<Rightarrow> AdjudicationBallot list \<Rightarrow> ConcurrencyPolicy \<Rightarrow> AdjudicationPolicyDecision option \<Rightarrow> bool" where
  "fine cs bs p d \<longleftrightarrow> (\<forall>out. adjudicate cs bs p = Inr out \<longrightarrow>
     length bs \<le> unat (candidate_limit p) \<and>
     (case d of
        Some x \<Rightarrow> x = ao_decision out \<and> completion_for out (length bs) (unat (candidate_limit p)) \<noteq> RoundPending
      | None \<Rightarrow> bs = [] \<or> completion_for out (length bs) (unat (candidate_limit p)) = RoundPending))"

text \<open>An undecided round has a slot left for the next ballot.\<close>

lemma fine_room:
  assumes "fine cs bs p None" and "adjudicate cs bs' p = Inr out'" and "mset bs' = add_mset x (mset bs)"
  shows "length bs' \<le> unat (candidate_limit p)"
proof -
  obtain out where out: "adjudicate cs bs p = Inr out" using adjudicate_fewer [OF assms(2,3)] by blast
  then have le: "length bs \<le> unat (candidate_limit p)"
    and c: "bs = [] \<or> completion_for out (length bs) (unat (candidate_limit p)) = RoundPending"
    using assms(1) by (auto simp: fine_def)
  have "length bs < unat (candidate_limit p)"
    using c
  proof
    assume "bs = []"
    moreover have "0 < unat (candidate_limit p)"
      using adjudicate_counts(4) [OF out] candidate_limit_bounds by blast
    ultimately show ?thesis by simp
  next
    assume "completion_for out (length bs) (unat (candidate_limit p)) = RoundPending"
    from pending_can_select [OF out le candidate_limit_small this] show ?thesis by blast
  qed
  moreover have "length bs' = Suc (length bs)" using arg_cong [OF assms(3), of size] by simp
  ultimately show ?thesis by simp
qed

section \<open>The invariant\<close>

definition tables_ok :: "Texts \<Rightarrow> Store \<Rightarrow> bool" where
  "tables_ok tx s \<longleftrightarrow> (\<forall>b \<in> set (st_ballots s). br_round_id b \<in> rr_id ` set (st_rounds s)) \<and>
     (\<forall>row \<in> set (st_rounds s). (\<exists>i. rr_candidate_set_id row = set_text tx i) \<and>
       (rr_decision_json row = None \<or> (\<exists>d. rr_decision_json row = Some (tx_json tx (decision_json tx d))))) \<and>
     (\<forall>p \<in> sr_project_id ` set (st_sets s). \<exists>j. p = typed_id_display ''proj_'' (tx_uuid tx) j)"

definition memory_ok :: "Texts \<Rightarrow> Runner \<Rightarrow> bool" where
  "memory_ok tx rn \<longleftrightarrow> (\<forall>r. map_of (rn_memory rn) r \<noteq> None \<longrightarrow> round_text tx r \<in> rr_id ` set (st_rounds (rn_store rn)))"

definition all_fine :: "Texts \<Rightarrow> Runner \<Rightarrow> bool" where
  "all_fine tx rn \<longleftrightarrow> (\<forall>r cs bs p d. seen tx rn r cs bs p d \<longrightarrow> fine cs bs p d)"

definition rounds_inv :: "Texts \<Rightarrow> Runner \<Rightarrow> bool" where
  "rounds_inv tx rn \<longleftrightarrow> tables_ok tx (rn_store rn) \<and> memory_ok tx rn \<and> all_fine tx rn"

lemma rounds_inv_fine: "rounds_inv tx rn \<Longrightarrow> seen tx rn r cs bs p d \<Longrightarrow> fine cs bs p d"
  unfolding rounds_inv_def all_fine_def by blast

lemma rounds_inv_new:
  assumes "st_rounds s = []" and "st_ballots s = []"
    and "\<forall>p \<in> sr_project_id ` set (st_sets s). \<exists>j. p = typed_id_display ''proj_'' (tx_uuid tx) j"
  shows "rounds_inv tx (new_runner m s)"
  using assms by (simp add: rounds_inv_def tables_ok_def memory_ok_def all_fine_def new_runner_def seen_def seen_core_def)

text \<open>Every round but possibly one looks the same as before.\<close>

definition others_fine :: "Texts \<Rightarrow> AdjudicationRoundId \<Rightarrow> Runner \<Rightarrow> bool" where
  "others_fine tx r rn \<longleftrightarrow> (\<forall>q cs bs p d. q \<noteq> r \<and> seen tx rn q cs bs p d \<longrightarrow> fine cs bs p d)"

lemma rounds_inv_others: "rounds_inv tx rn \<Longrightarrow> others_fine tx r rn"
  by (auto simp: others_fine_def rounds_inv_def all_fine_def)

lemma others_fine_step:
  assumes "others_fine tx r rn" and "\<And>q. q \<noteq> r \<Longrightarrow> same_round tx q rn rn'"
  shows "others_fine tx r rn'"
  using assms seen_frame unfolding others_fine_def by blast

lemma all_fineI:
  "others_fine tx r rn \<Longrightarrow> (\<And>cs bs p d. seen tx rn r cs bs p d \<Longrightarrow> fine cs bs p d) \<Longrightarrow> all_fine tx rn"
  unfolding others_fine_def all_fine_def by metis

lemma all_fine_step:
  assumes inv: "rounds_inv tx rn" and same: "\<And>q. q \<noteq> r \<Longrightarrow> same_round tx q rn rn'"
    and this_round: "\<And>cs bs p d. seen tx rn' r cs bs p d \<Longrightarrow> fine cs bs p d"
  shows "all_fine tx rn'"
  by (rule all_fineI [OF others_fine_step [OF rounds_inv_others [OF inv] same] this_round])

lemma all_fine_same:
  assumes inv: "rounds_inv tx rn" and same: "\<And>q. same_round tx q rn rn'"
  shows "all_fine tx rn'"
  by (rule all_fine_step [OF inv, of 0]) (use same seen_frame [OF same] rounds_inv_fine [OF inv] in blast)+

lemma inv_set_state:
  assumes "rounds_inv tx rn" and "set_candidate_set_state t i st e (rn_store rn) = Inr (m, s')"
  shows "rounds_inv tx (rn\<lparr>rn_store := s'\<rparr>)"
proof -
  note eff = set_state_effect [OF assms(2)]
  have "same_round tx r rn (rn\<lparr>rn_store := s'\<rparr>)" for r
    using eff by (simp add: same_round_def round_ballots_def)
  then have "all_fine tx (rn\<lparr>rn_store := s'\<rparr>)" by (rule all_fine_same [OF assms(1)])
  moreover have "tables_ok tx s'" using assms(1) eff by (auto simp: rounds_inv_def tables_ok_def)
  moreover have "memory_ok tx (rn\<lparr>rn_store := s'\<rparr>)" using assms(1) eff by (simp add: rounds_inv_def memory_ok_def)
  ultimately show ?thesis by (simp add: rounds_inv_def)
qed

lemma round_texts: "texts_ok tx \<Longrightarrow> round_text tx r = round_text tx q \<longleftrightarrow> r = q"
  by (simp add: round_text_def text_inj)

lemma inv_record_round:
  assumes inv: "rounds_inv tx rn" and tx: "texts_ok tx"
    and rec: "record_adjudication_round row e (rn_store rn) = Inr (m, s')"
    and row: "rr_id row = round_text tx r" "rr_candidate_set_id row = set_text tx i" "rr_decision_json row = None"
  shows "rounds_inv tx (rn\<lparr>rn_store := s'\<rparr>)"
proof -
  let ?s = "rn_store rn" and ?rn = "rn\<lparr>rn_store := s'\<rparr>"
  obtain rv where new: "round_text tx r \<notin> rr_id ` set (st_rounds ?s)"
    and s': "s' = ?s\<lparr>st_rounds := st_rounds ?s @ [row], st_revisions := rv\<rparr>"
    using record_round_effect [OF rec] row(1) by auto
  have tables: "tables_ok tx ?s" and mem: "memory_ok tx rn" using inv by (simp_all add: rounds_inv_def)
  have none: "map_of (rn_memory rn) r = None"
    using mem new unfolding memory_ok_def by (cases "map_of (rn_memory rn) r") auto
  have "filter (\<lambda>b. br_round_id b = round_text tx r) (st_ballots ?s) = []"
    using tables new unfolding tables_ok_def filter_empty_conv by metis
  then have empty: "round_ballots s' (round_text tx r) = []" by (simp add: round_ballots_def s')
  have "find_key rr_id (round_text tx r) (st_rounds ?s) = None" using new by (simp add: find_key_None_iff)
  then have found: "find_key rr_id (round_text tx r) (st_rounds s') = Some row"
    using row(1) by (simp add: s' find_key_append)
  have "all_fine tx ?rn"
  proof (rule all_fine_step [OF inv, of r])
    fix q assume "q \<noteq> r"
    then show "same_round tx q rn ?rn"
      using row(1) round_texts [OF tx, of r q]
      by (auto simp: same_round_def s' same_sets_eq round_ballots_def find_key_append split: option.split)
  next
    fix cs bs p d assume "seen tx ?rn r cs bs p d"
    then have "bs = []" "d = None"
      using empty none row(3) found unfolding seen_def seen_core_def seen_ballots_def by (auto simp: stored_decision_def)
    then show "fine cs bs p d" by (simp add: fine_def)
  qed
  moreover have "tables_ok tx s'" using tables row by (auto simp: tables_ok_def s')
  moreover have "memory_ok tx ?rn" using mem by (auto simp: memory_ok_def s')
  ultimately show ?thesis by (simp add: rounds_inv_def)
qed

end
