(* ===== verification/Rounds_Reach.thy ===== *)
theory Rounds_Reach
  imports Rounds_Invariant
begin

text \<open>
  Every operation of the round orchestrator keeps the invariant, also when it fails half-way; the states
  it can reach.
\<close>

section \<open>One ballot more in the store\<close>

lemma collected_decode:
  "collect_results f rows = Inr vals \<Longrightarrow> de_all g vals = Some bs \<Longrightarrow>
   map (\<lambda>row. case f row of Inr v \<Rightarrow> g v | Inl _ \<Rightarrow> None) rows = map Some bs"
  by (induction rows arbitrary: vals bs) (auto simp: and_then_Inr bind_eq_Some_conv)

lemma ballot_added_eq:
  assumes "seen_ballots tx s r bs" and "seen_ballots tx s' r bs'" and "st_ballots s' = st_ballots s @ [b]"
    and "br_round_id b = round_text tx r"
  shows "\<exists>x. (case ballot_value (tx_read tx) b of Inr v \<Rightarrow> de_stored_ballot tx v | Inl _ \<Rightarrow> None) = Some x \<and>
    mset bs' = add_mset x (mset bs)"
proof -
  let ?f = "\<lambda>row. case ballot_value (tx_read tx) row of Inr v \<Rightarrow> de_stored_ballot tx v | Inl _ \<Rightarrow> None"
  have d: "map ?f (round_ballots s (round_text tx r)) = map Some bs" "map ?f (round_ballots s' (round_text tx r)) = map Some bs'"
    using assms(1,2) collected_decode unfolding seen_ballots_def by blast+
  have "mset (round_ballots s' (round_text tx r)) = add_mset b (mset (round_ballots s (round_text tx r)))"
    using assms(3,4) by (simp add: round_ballots_def)
  then have "image_mset ?f (mset (round_ballots s' (round_text tx r))) =
      add_mset (?f b) (image_mset ?f (mset (round_ballots s (round_text tx r))))" by simp
  then have m: "image_mset Some (mset bs') = add_mset (?f b) (image_mset Some (mset bs))"
    using d by (metis mset_map)
  then have "?f b \<in># image_mset Some (mset bs')" by simp
  then obtain x where x: "?f b = Some x" by auto
  have "image_mset the (image_mset Some (mset bs')) = image_mset the (add_mset (?f b) (image_mset Some (mset bs)))"
    using m by simp
  then have "mset bs' = add_mset x (mset bs)" using x by (simp add: multiset.map_comp comp_def)
  then show ?thesis using x by blast
qed

lemma ballot_added:
  "seen_ballots tx s r bs \<Longrightarrow> seen_ballots tx s' r bs' \<Longrightarrow> st_ballots s' = st_ballots s @ [b] \<Longrightarrow>
   br_round_id b = round_text tx r \<Longrightarrow> \<exists>x. mset bs' = add_mset x (mset bs)"
  using ballot_added_eq by blast

lemma load_set_frame:
  "st_sets (rn_store rn') = st_sets (rn_store rn) \<Longrightarrow> st_candidates (rn_store rn') = st_candidates (rn_store rn) \<Longrightarrow>
   load_candidate_set_context tx rn' = load_candidate_set_context tx rn"
  by (simp add: fun_eq_iff load_candidate_set_context_def get_candidate_set_def candidate_set_projection_def
      set_candidates_def)

text \<open>A round that loaded before loads with the new ballot, when that can be read and is new.\<close>

lemma load_after_ballot:
  assumes load: "load_round_context tx rn r = Inr cx"
    and s: "st_rounds s' = st_rounds (rn_store rn)" "st_sets s' = st_sets (rn_store rn)"
      "st_candidates s' = st_candidates (rn_store rn)"
    and bs: "seen_ballots tx s' r bs"
  shows "\<exists>cx'. load_round_context tx (rn\<lparr>rn_store := s'\<rparr>) r = Inr cx'"
proof -
  from load_roundE [OF load] obtain row vals d c cc persisted where
    p: "round_parts tx rn r row vals d c cc persisted" by blast
  note p = p [unfolded round_parts_def]
  from bs obtain vals' where vals': "collect_results (ballot_value (tx_read tx)) (round_ballots s' (round_text tx r)) = Inr vals'"
      "de_all (de_stored_ballot tx) vals' = Some bs" and u: "ensure_unique_ballots_and_validators tx r bs = Inr ()"
    unfolding seen_ballots_def by blast
  have "de_stored_round tx (JObject (round_fields row d vals')) = Some (c\<lparr>sd_ballots := bs\<rparr>)"
    using p vals'(2) unfolding de_stored_round_def
    by (auto simp: bind_eq_Some_conv de_field_def de_opt_value round_fields_def obj_get_of de_list_def split: if_splits)
  then have "round_parts tx (rn\<lparr>rn_store := s'\<rparr>) r row vals' d (c\<lparr>sd_ballots := bs\<rparr>) cc persisted"
    unfolding round_parts_def using p vals' u s load_set_frame [of "rn\<lparr>rn_store := s'\<rparr>" rn tx] by simp
  then show ?thesis using load_roundI by blast
qed

lemma parse_ballot_round:
  assumes "parse_ballot show_json t (ballot_json tx b) = Inr row"
  shows "br_round_id row = round_text tx (ab_round_id b)"
  using assms unfolding parse_ballot_def
  by (auto simp: and_then_Inr object_of_def ballot_json_def field_string_any_def get_any_def obj_get_of text_of_def
      id_json_def round_text_def split: if_splits)

section \<open>Persisting a decision\<close>

lemma stored_decision_written:
  "texts_ok tx \<Longrightarrow> stored_decision tx (Some (tx_json tx (decision_json tx x))) m = Some (Some x)"
proof -
  assume tx: "texts_ok tx"
  then have "tx_read tx (tx_json tx (decision_json tx x)) = Some (decision_json tx x)"
    using json_plain_decision by (simp add: texts_ok_def)
  moreover have "decision_json tx x \<noteq> JNull" by (simp add: decision_json_def)
  ultimately show ?thesis using de_decision_json [OF tx] by (simp add: stored_decision_def)
qed

definition decided_row :: "Texts \<Rightarrow> string \<Rightarrow> AdjudicationPolicyDecision \<Rightarrow> RoundRow \<Rightarrow> RoundRow" where
  "decided_row tx t x row = row\<lparr>rr_decision_json := Some (tx_json tx (decision_json tx x)), rr_decided_at := Some t\<rparr>"

lemma decided_keys: "rr_id ` set (modify_key rr_id i (decided_row tx t x) rows) = rr_id ` set rows"
  using arg_cong [OF map_key_modify [of rr_id "decided_row tx t x" i rows], of set] by (simp add: decided_row_def)

lemma tables_ok_decided:
  assumes "tables_ok tx s"
  shows "tables_ok tx (s\<lparr>st_rounds := modify_key rr_id i (decided_row tx t x) (st_rounds s), st_revisions := rv\<rparr>)"
proof -
  let ?ok = "\<lambda>row. (\<exists>i. rr_candidate_set_id row = set_text tx i) \<and>
    (rr_decision_json row = None \<or> (\<exists>d. rr_decision_json row = Some (tx_json tx (decision_json tx d))))"
  have "?ok row" if "row \<in> set (modify_key rr_id i (decided_row tx t x) (st_rounds s))" for row
  proof -
    from that obtain q where "q \<in> set (st_rounds s)" "row = q \<or> row = decided_row tx t x q"
      using set_modify_key_subset [of rr_id i "decided_row tx t x" "st_rounds s"] by blast
    then show ?thesis using assms unfolding tables_ok_def by (auto simp: decided_row_def)
  qed
  then show ?thesis using assms by (simp add: tables_ok_def decided_keys)
qed

lemma persist_effect:
  assumes "persist_tx tx t r project x e s = Inr (n, s')"
  shows "\<exists>row. find_key rr_id (round_text tx r) (st_rounds s) = Some row \<and>
    ((s' = s \<and> (\<exists>old. rr_decision_json row = Some old \<and> tx_read tx old = Some (decision_json tx x))) \<or>
     (rr_decision_json row = None \<and>
      (\<exists>rv. s' = s\<lparr>st_rounds := modify_key rr_id (round_text tx r) (decided_row tx t x) (st_rounds s), st_revisions := rv\<rparr>)))"
proof -
  obtain row where row: "find_key rr_id (round_text tx r) (st_rounds s) = Some row"
    using assms by (cases "find_key rr_id (round_text tx r) (st_rounds s)") (simp_all add: persist_tx_def Let_def)
  obtain sr where sr: "find_key sr_id (rr_candidate_set_id row) (st_sets s) = Some sr"
    using assms row by (cases "find_key sr_id (rr_candidate_set_id row) (st_sets s)") (simp_all add: persist_tx_def Let_def)
  show ?thesis
  proof (cases "rr_decision_json row")
    case None
    then show ?thesis using assms row sr
      by (auto simp: persist_tx_def Let_def decided_row_def [abs_def] split: if_splits)
  next
    case (Some old)
    then show ?thesis using assms row sr
      by (auto simp: persist_tx_def Let_def split: if_splits option.splits)
  qed
qed

lemma persist_ok:
  assumes "find_key rr_id (round_text tx r) (st_rounds s) = Some row" and "rr_decision_json row = None"
    and "find_key sr_id (rr_candidate_set_id row) (st_sets s) = Some sr"
    and "current_revision s (sr_project_id sr) = e" and "e < 2 ^ 63" and "sr_project_id sr \<in> fst ` set (st_revisions s)"
  shows "\<exists>s'. persist_tx tx t r (sr_project_id sr) x e s = Inr (e + 1, s')"
  using assms by (simp add: persist_tx_def Let_def)

text \<open>The decision may be persisted before the invariant holds for its round again.\<close>

lemma inv_persist:
  assumes tx: "texts_ok tx" and tables: "tables_ok tx (rn_store rn)" and mem: "memory_ok tx rn"
    and others: "others_fine tx r rn"
    and known: "\<And>cs bs p d. seen tx rn r cs bs p d \<Longrightarrow> fine cs bs p (Some x) \<and> (d = None \<or> d = Some x)"
    and row: "find_key rr_id (round_text tx r) (st_rounds (rn_store rn)) = Some row"
    and persist: "persist_decision tx t r project x e rn = (Inr n, rn')"
  shows "rounds_inv tx rn'"
proof (cases "rn_in_memory rn")
  case True
  then have rn': "rn' = rn\<lparr>rn_memory := AList.update r x (rn_memory rn)\<rparr>" using persist by (simp add: persist_decision_def)
  have memory: "map_of (rn_memory rn') = (map_of (rn_memory rn))(r \<mapsto> x)" by (simp add: rn' update_conv')
  have "others_fine tx r rn'"
    by (rule others_fine_step [OF others]) (simp add: same_round_def rn' same_sets_eq update_conv')
  moreover have "fine cs bs p d" if seen: "seen tx rn' r cs bs p d" for cs bs p d
  proof -
    have "seen_core tx rn' r cs p d" "seen_ballots tx (rn_store rn) r bs" using seen by (simp_all add: seen_def rn')
    then obtain d0 where core: "seen_core tx rn r cs p d0" and d: "d = Some x \<or> d = d0"
      using row unfolding seen_core_def memory by (auto simp: rn' stored_decision_def split: option.splits if_splits)
    then have "seen tx rn r cs bs p d0" using \<open>seen_ballots tx (rn_store rn) r bs\<close> by (simp add: seen_def)
    from known [OF this] have "fine cs bs p (Some x)" "d0 = None \<or> d0 = Some x" by blast+
    moreover have "d \<noteq> None"
      using \<open>seen_core tx rn' r cs p d\<close> unfolding seen_core_def memory
      by (auto simp: stored_decision_def split: option.splits if_splits)
    ultimately show ?thesis using d by auto
  qed
  ultimately have "all_fine tx rn'" by (rule all_fineI)
  moreover have "round_text tx r \<in> rr_id ` set (st_rounds (rn_store rn))"
    using find_key_Some [OF row] by force
  then have "memory_ok tx rn'"
    using mem unfolding memory_ok_def memory by (auto simp: rn')
  ultimately show ?thesis using tables by (simp add: rounds_inv_def rn')
next
  case False
  then obtain s' where p: "persist_tx tx t r project x e (rn_store rn) = Inr (n, s')" and rn': "rn' = rn\<lparr>rn_store := s'\<rparr>"
    using persist by (auto simp: persist_decision_def split: sum.splits prod.splits)
  from persist_effect [OF p] row consider
      (kept) old where "s' = rn_store rn" "rr_decision_json row = Some old" "tx_read tx old = Some (decision_json tx x)"
    | (written) rv where "s' = rn_store rn\<lparr>st_rounds := modify_key rr_id (round_text tx r) (decided_row tx t x)
        (st_rounds (rn_store rn)), st_revisions := rv\<rparr>"
    by auto
  then show ?thesis
  proof cases
    case kept
    have "d = Some x" if "seen tx rn r cs bs p d" for cs bs p d
      using that row kept de_decision_json [OF tx] unfolding seen_def seen_core_def
      by (auto simp: stored_decision_def decision_json_def split: if_splits)
    then have "all_fine tx rn" using all_fineI [OF others] known by metis
    then show ?thesis using tables mem by (simp add: rounds_inv_def rn' kept)
  next
    case written
    have ids: "rr_id (decided_row tx t x q) = rr_id q" for q by (simp add: decided_row_def)
    have found: "find_key rr_id (round_text tx r) (st_rounds s') = Some (decided_row tx t x row)"
      using row by (simp add: written find_key_modify ids)
    have "others_fine tx r rn'"
    proof (rule others_fine_step [OF others])
      fix q assume "q \<noteq> r"
      then show "same_round tx q rn rn'"
        using round_texts [OF tx, of q r] by (simp add: same_round_def rn' written same_sets_eq find_key_modify ids round_ballots_def)
    qed
    moreover have "fine cs bs p d" if seen: "seen tx rn' r cs bs p d" for cs bs p d
    proof -
      have d: "d = Some x"
        using seen found stored_decision_written [OF tx] unfolding seen_def seen_core_def
        by (auto simp: rn' decided_row_def)
      have b: "seen_ballots tx (rn_store rn) r bs"
        using seen by (simp add: seen_def rn' written seen_ballots_def round_ballots_def)
      have row_ok: "rr_decision_json row = None \<or> (\<exists>d. rr_decision_json row = Some (tx_json tx (decision_json tx d)))"
        using tables find_key_Some [OF row] unfolding tables_ok_def by blast
      then obtain d0 where "stored_decision tx (rr_decision_json row) (map_of (rn_memory rn) r) = Some d0"
        using stored_decision_written [OF tx] by (auto simp: stored_decision_def)
      then have "seen_core tx rn r cs p d0"
        using seen found row unfolding seen_def seen_core_def
        by (auto simp: rn' written decided_row_def set_candidates_def)
      then show ?thesis using known b d by (auto simp: seen_def)
    qed
    ultimately have "all_fine tx rn'" by (rule all_fineI)
    moreover have "tables_ok tx s'" unfolding written by (rule tables_ok_decided [OF tables])
    moreover have "memory_ok tx rn'" using mem by (simp add: memory_ok_def rn' written decided_keys)
    ultimately show ?thesis by (simp add: rounds_inv_def rn')
  qed
qed

end
