(* ===== verification/Rounds_Steps.thy ===== *)
theory Rounds_Steps
  imports Rounds_Reach
begin

text \<open>
  Opening a round, submitting a ballot and replaying keep the invariant of the rounds, whether they succeed
  or fail at any of their steps; the states the orchestrator can reach.
\<close>

section \<open>Opening\<close>

lemma parsed_round:
  assumes "parse_round sj t (JObject (obj_of [(''id'', id_json tx ''adj_'' r), (''candidateSetId'', id_json tx ''cset_'' i),
      (''policyVersion'', json_nat n), (''requiredQuorum'', u16_json q), (''createdAt'', JString t)])) = Inr row"
  shows "rr_id row = round_text tx r" and "rr_candidate_set_id row = set_text tx i" and "rr_decision_json row = None"
  using assms unfolding parse_round_def
  by (auto simp: and_then_Inr object_of_def field_string_def field_string_any_def get_any_def obj_get_of text_of_def
      id_json_def round_text_def set_text_def split: if_splits)

lemma store_step_cases:
  obtains e where "store_step f rn = (Inl e, rn)"
  | m s where "f (rn_store rn) = Inr (m, s)" and "store_step f rn = (Inr m, rn\<lparr>rn_store := s\<rparr>)"
  by (cases "f (rn_store rn)") (auto simp: store_step_def)

lemma inv_open:
  assumes tx: "texts_ok tx" and inv: "rounds_inv tx rn"
  shows "rounds_inv tx (snd (open_round tx t r i expected rn))"
proof (cases "load_candidate_set_context tx rn i")
  case (Inl e)
  then show ?thesis using inv by (simp add: open_round_def and_do_read)
next
  case (Inr cx)
  show ?thesis
  proof (cases "cx_candidates cx = []")
    case True
    then show ?thesis using inv Inr by (simp add: open_round_def and_do_read)
  next
    case False
    let ?step = "case ss_state (cx_candidate_set cx) of
         SetOpen \<Rightarrow> and_do (store_step (set_candidate_set_state t (set_text tx i) ''adjudicating'' expected) rn)
           (\<lambda>m rn. (Inr (snd m), rn))
       | SetAdjudicating \<Rightarrow> (Inr expected, rn)
       | state \<Rightarrow> (Inl (RnSetClosed (set_text tx i) state), rn)"
    obtain res rn1 where step: "?step = (res, rn1)" by (cases ?step)
    have inv1: "rounds_inv tx rn1"
    proof (cases "ss_state (cx_candidate_set cx) = SetOpen")
      case True
      then show ?thesis
        using step inv inv_set_state [OF inv]
        by (cases rule: store_step_cases [of "set_candidate_set_state t (set_text tx i) ''adjudicating'' expected" rn]) auto
    next
      case False
      then show ?thesis using step inv by (cases "ss_state (cx_candidate_set cx)") auto
    qed
    show ?thesis
    proof (cases res)
      case (Inl e)
      then show ?thesis using Inr False step inv1 by (simp add: open_round_def and_do_read)
    next
      case res: (Inr revision)
      let ?put = "\<lambda>s. and_then (parse_round (tx_json tx) t (JObject (obj_of
           [(''id'', id_json tx ''adj_'' r), (''candidateSetId'', id_json tx ''cset_'' i),
            (''policyVersion'', json_nat (ss_policy_version (cx_candidate_set cx))),
            (''requiredQuorum'', u16_json (cx_required_quorum cx)), (''createdAt'', JString t)])))
         (\<lambda>row. record_adjudication_round row revision s)"
      show ?thesis
      proof (cases rule: store_step_cases [of ?put rn1])
        case (1 e)
        then show ?thesis using Inr False step res inv1 by (simp add: open_round_def and_do_read)
      next
        case (2 m s)
        then obtain row where "parse_round (tx_json tx) t (JObject (obj_of
           [(''id'', id_json tx ''adj_'' r), (''candidateSetId'', id_json tx ''cset_'' i),
            (''policyVersion'', json_nat (ss_policy_version (cx_candidate_set cx))),
            (''requiredQuorum'', u16_json (cx_required_quorum cx)), (''createdAt'', JString t)])) = Inr row"
          and rec: "record_adjudication_round row revision (rn_store rn1) = Inr (m, s)" by (auto simp: and_then_Inr)
        then have "rounds_inv tx (rn1\<lparr>rn_store := s\<rparr>)"
          using parsed_round by (intro inv_record_round [OF inv1 tx rec]) blast+
        then show ?thesis using Inr False step res 2(2) by (simp add: open_round_def and_do_read)
      qed
    qed
  qed
qed

section \<open>A recorded ballot\<close>

lemma seen_fun: "seen tx rn r cs bs p d \<Longrightarrow> seen tx rn r cs' bs' p' d' \<Longrightarrow> cs' = cs \<and> bs' = bs \<and> p' = p \<and> d' = d"
  using seen_core_fun unfolding seen_def seen_ballots_def by fastforce

lemma undecided_row:
  assumes "texts_ok tx" and "tables_ok tx s" and "row \<in> set (st_rounds s)"
    and "stored_decision tx (rr_decision_json row) mem = Some None"
  shows "rr_decision_json row = None"
proof -
  have "rr_decision_json row = None \<or> (\<exists>d. rr_decision_json row = Some (tx_json tx (decision_json tx d)))"
    using assms(2,3) unfolding tables_ok_def by blast
  then show ?thesis using assms(1,4) stored_decision_written by auto
qed

lemma recorded_keeps:
  assumes tx: "texts_ok tx" and inv: "rounds_inv tx rn" and b: "br_round_id b = round_text tx r"
    and rec: "record_adjudication_ballot b e (rn_store rn) = Inr (m, s')"
  shows "tables_ok tx s'" and "memory_ok tx (rn\<lparr>rn_store := s'\<rparr>)" and "others_fine tx r (rn\<lparr>rn_store := s'\<rparr>)"
proof -
  obtain p rv where p: "round_project (rn_store rn) (br_round_id b) = Inr p"
    and s': "s' = (rn_store rn)\<lparr>st_ballots := st_ballots (rn_store rn) @ [b], st_revisions := rv\<rparr>"
    using record_ballot_effect [OF rec] by blast
  have "find_key rr_id (br_round_id b) (st_rounds (rn_store rn)) \<noteq> None"
    using p by (auto simp: round_project_def split: option.splits)
  then have "br_round_id b \<in> rr_id ` set (st_rounds (rn_store rn))" by (simp add: find_key_None_iff)
  then show "tables_ok tx s'" using inv by (auto simp: rounds_inv_def tables_ok_def s')
  show "memory_ok tx (rn\<lparr>rn_store := s'\<rparr>)" using inv by (simp add: rounds_inv_def memory_ok_def s')
  show "others_fine tx r (rn\<lparr>rn_store := s'\<rparr>)"
  proof (rule others_fine_step [OF rounds_inv_others [OF inv]])
    fix q assume "q \<noteq> r"
    then show "same_round tx q rn (rn\<lparr>rn_store := s'\<rparr>)"
      using b round_texts [OF tx, of r q] by (auto simp: same_round_def s' same_sets_eq round_ballots_def)
  qed
qed

lemma recorded_seen:
  assumes inv: "rounds_inv tx rn" and b: "br_round_id b = round_text tx r"
    and load: "load_round_context tx rn r = Inr cx" and undecided: "rx_decision cx = None"
    and rec: "record_adjudication_ballot b e (rn_store rn) = Inr (m, s')"
    and now: "seen tx (rn\<lparr>rn_store := s'\<rparr>) r cs bs' p d"
  shows "d = None \<and> (\<exists>bs x. fine cs bs p None \<and> mset bs' = add_mset x (mset bs))"
proof -
  obtain rv where s': "s' = (rn_store rn)\<lparr>st_ballots := st_ballots (rn_store rn) @ [b], st_revisions := rv\<rparr>"
    using record_ballot_effect [OF rec] by blast
  note old = load_seen(1) [OF load]
  have "seen_core tx rn r cs p d"
    by (rule seen_core_frame [of rn "rn\<lparr>rn_store := s'\<rparr>"]) (use now in \<open>simp_all add: seen_def s' same_sets_eq\<close>)
  then have same: "cs = rx_candidates cx" "p = rx_policy cx" "d = rx_decision cx"
    using old seen_core_fun unfolding seen_def by blast+
  have "seen_ballots tx (rn_store rn) r (rx_ballots cx)" "seen_ballots tx s' r bs'" using old now by (simp_all add: seen_def)
  then obtain x where "mset bs' = add_mset x (mset (rx_ballots cx))"
    using ballot_added b by (fastforce simp: s')
  moreover have "fine cs (rx_ballots cx) p None" using rounds_inv_fine [OF inv old] same undecided by simp
  ultimately show ?thesis using same undecided by blast
qed

lemma recorded_unreadable:
  assumes tx: "texts_ok tx" and inv: "rounds_inv tx rn" and b: "br_round_id b = round_text tx r"
    and load: "load_round_context tx rn r = Inr cx"
    and rec: "record_adjudication_ballot b e (rn_store rn) = Inr (m, s')"
    and fail: "load_round_context tx (rn\<lparr>rn_store := s'\<rparr>) r = Inl err"
  shows "rounds_inv tx (rn\<lparr>rn_store := s'\<rparr>)"
proof -
  obtain rv where s': "s' = (rn_store rn)\<lparr>st_ballots := st_ballots (rn_store rn) @ [b], st_revisions := rv\<rparr>"
    using record_ballot_effect [OF rec] by blast
  have "\<not> seen_ballots tx s' r bs" for bs
    using load_after_ballot [OF load, of s' bs] fail by (auto simp: s')
  then have "all_fine tx (rn\<lparr>rn_store := s'\<rparr>)"
    by (intro all_fineI [OF recorded_keeps(3) [OF tx inv b rec]]) (simp add: seen_def)
  then show ?thesis using recorded_keeps [OF tx inv b rec] by (simp add: rounds_inv_def)
qed

lemma project_of_loaded:
  assumes tx: "texts_ok tx" and tables: "tables_ok tx (rn_store rn)" and load: "load_round_context tx rn r = Inr cx"
  shows "\<exists>row srow. find_key rr_id (round_text tx r) (st_rounds (rn_store rn)) = Some row \<and>
    find_key sr_id (rr_candidate_set_id row) (st_sets (rn_store rn)) = Some srow \<and> rx_project_id cx = sr_project_id srow"
proof -
  from load_seen(4) [OF load] obtain row i srow pid where
    row: "find_key rr_id (round_text tx r) (st_rounds (rn_store rn)) = Some row"
      "de_id tx ''cset_'' (JString (rr_candidate_set_id row)) = Some i"
    and srow: "find_key sr_id (set_text tx i) (st_sets (rn_store rn)) = Some srow"
      "de_id tx ''proj_'' (JString (sr_project_id srow)) = Some pid"
      "rx_project_id cx = typed_id_display ''proj_'' (tx_uuid tx) pid" by blast
  obtain j where "rr_candidate_set_id row = set_text tx j"
    using tables find_key_Some [OF row(1)] unfolding tables_ok_def by blast
  then have "rr_candidate_set_id row = set_text tx i" using row(2) tx by (simp add: set_text_def)
  moreover have "sr_project_id srow \<in> sr_project_id ` set (st_sets (rn_store rn))" using find_key_Some [OF srow(1)] by simp
  then obtain k where "sr_project_id srow = typed_id_display ''proj_'' (tx_uuid tx) k"
    using tables unfolding tables_ok_def by blast
  then have "rx_project_id cx = sr_project_id srow" using srow(2,3) tx by simp
  ultimately show ?thesis using row(1) srow(1) by metis
qed

section \<open>Submitting and replaying\<close>

lemma persist_after_ballot:
  assumes tx: "texts_ok tx" and inv: "rounds_inv tx rn" and b: "br_round_id b = round_text tx r"
    and rec: "record_adjudication_ballot b e (rn_store rn) = Inr (m, s')"
    and load: "load_round_context tx (rn\<lparr>rn_store := s'\<rparr>) r = Inr cx" and undecided: "rx_decision cx = None"
  shows "\<exists>n rn'. persist_decision tx t r (rx_project_id cx) x (snd m) (rn\<lparr>rn_store := s'\<rparr>) = (Inr n, rn')"
proof (cases "rn_in_memory rn")
  case True
  then show ?thesis by (simp add: persist_decision_def)
next
  case False
  obtain p rv where p: "round_project (rn_store rn) (br_round_id b) = Inr p"
    and s': "s' = (rn_store rn)\<lparr>st_ballots := st_ballots (rn_store rn) @ [b], st_revisions := rv\<rparr>"
    and revision: "snd m = current_revision s' p" "snd m < 2 ^ 63" "p \<in> fst ` set (st_revisions s')"
    using record_ballot_effect [OF rec] by blast
  have tables: "tables_ok tx s'" by (rule recorded_keeps(1) [OF tx inv b rec])
  obtain row srow where row: "find_key rr_id (round_text tx r) (st_rounds s') = Some row"
    and srow: "find_key sr_id (rr_candidate_set_id row) (st_sets s') = Some srow" "rx_project_id cx = sr_project_id srow"
    using project_of_loaded [OF tx _ load] tables by auto
  have "p = sr_project_id srow" using p row srow(1) by (simp add: round_project_def b s')
  moreover have "rr_decision_json row = None"
  proof (rule undecided_row [OF tx tables])
    show "row \<in> set (st_rounds s')" using find_key_Some [OF row] by simp
    show "stored_decision tx (rr_decision_json row) (map_of (rn_memory rn) r) = Some None"
      using load_seen(1) [OF load] row undecided unfolding seen_def seen_core_def by auto
  qed
  ultimately obtain s2 where "persist_tx tx t r (sr_project_id srow) x (snd m) s' = Inr (snd m + 1, s2)"
    using persist_ok [OF row _ srow(1)] revision by metis
  then show ?thesis using False srow(2) by (simp add: persist_decision_def)
qed

lemma evaluated:
  assumes "evaluate_context tx cx = Inr (out, c)"
  shows "adjudicate (rx_candidates cx) (rx_ballots cx) (rx_policy cx) = Inr out"
    and "rx_decision cx = None \<or> rx_decision cx = Some (ao_decision out)"
    and "c = completion_for out (length (rx_ballots cx)) (rx_expected_ballot_count cx)"
  using assms by (auto simp: evaluate_context_def and_then_Inr map_err_def split: if_splits sum.splits)

lemma not_evaluated:
  assumes "evaluate_context tx cx = Inl e" and "rx_decision cx = None"
  shows "\<exists>err. adjudicate (rx_candidates cx) (rx_ballots cx) (rx_policy cx) = Inl err"
  using assms by (cases "adjudicate (rx_candidates cx) (rx_ballots cx) (rx_policy cx)") (simp_all add: evaluate_context_def map_err_def)

lemma inv_submit:
  assumes tx: "texts_ok tx" and inv: "rounds_inv tx rn"
  shows "rounds_inv tx (snd (submit_ballot tx t b expected rn))"
proof (cases "load_round_context tx rn (ab_round_id b)")
  case (Inl e)
  then show ?thesis using inv by (simp add: submit_ballot_def Let_def and_do_read)
next
  case load: (Inr cx)
  let ?r = "ab_round_id b"
  let ?put = "\<lambda>s. and_then (parse_ballot (tx_json tx) t (ballot_json tx b)) (\<lambda>row. record_adjudication_ballot row expected s)"
  show ?thesis
  proof (cases "rx_decision cx = None \<and> validate_new_ballot tx cx b = Inr () \<and> (\<exists>m. ?put (rn_store rn) = Inr m)")
    case False
    then show ?thesis using inv load
      by (cases "rx_decision cx"; cases "validate_new_ballot tx cx b"; cases "?put (rn_store rn)")
        (simp_all add: submit_ballot_def Let_def and_do_read store_step_def)
  next
    case True
    then have was: "rx_decision cx = None" by simp
    from True obtain m s' where rec0: "?put (rn_store rn) = Inr (m, s')" by force
    then obtain row where row: "parse_ballot (tx_json tx) t (ballot_json tx b) = Inr row"
      and rec: "record_adjudication_ballot row expected (rn_store rn) = Inr (m, s')" by (auto simp: and_then_Inr)
    note b = parse_ballot_round [OF row]
    let ?rn = "rn\<lparr>rn_store := s'\<rparr>"
    note keeps = recorded_keeps [OF tx inv b rec]
    let ?rest = "and_do (run_read (\<lambda>rn. load_round_context tx rn ?r) ?rn) (\<lambda>cx rn.
      and_do (run_read (\<lambda>rn. evaluate_context tx cx) rn) (\<lambda>(out, completion) rn.
      and_do (if completion_is_terminal completion
          then and_do (persist_decision tx t ?r (rx_project_id cx) (ao_decision out) (snd m) rn)
            (\<lambda>revision rn. (Inr (Some (ao_decision out), revision), rn))
          else (Inr (None, snd m), rn)) (\<lambda>(decision, revision) rn.
      (Inr (progress ?r (rx_expected_ballot_count cx) (length (rx_ballots cx)) completion decision out revision), rn))))"
    have run: "submit_ballot tx t b expected rn = ?rest"
      using True load rec0 by (simp add: submit_ballot_def Let_def and_do_read store_step_def)
    have "rounds_inv tx (snd ?rest)"
    proof (cases "load_round_context tx ?rn ?r")
      case (Inl e)
      then show ?thesis using recorded_unreadable [OF tx inv b load rec Inl] by (simp add: and_do_read)
    next
      case (Inr cx')
      note load' = load_seen [OF Inr]
      have undecided: "rx_decision cx' = None"
        using recorded_seen [OF inv b load was rec load'(1)] by blast
      have one: "cs = rx_candidates cx' \<and> bs = rx_ballots cx' \<and> p = rx_policy cx' \<and> d = None"
        if "seen tx ?rn ?r cs bs p d" for cs bs p d
        using seen_fun [OF load'(1) that] undecided by blast
      have ok: "rounds_inv tx ?rn" if "fine (rx_candidates cx') (rx_ballots cx') (rx_policy cx') None"
      proof -
        have "all_fine tx ?rn" by (rule all_fineI [OF keeps(3)]) (use that one in blast)
        then show ?thesis using keeps by (simp add: rounds_inv_def)
      qed
      show ?thesis
      proof (cases "evaluate_context tx cx'")
        case (Inl e)
        then have "fine (rx_candidates cx') (rx_ballots cx') (rx_policy cx') None"
          using not_evaluated undecided by (fastforce simp: fine_def)
        then show ?thesis using Inr Inl ok by (simp add: and_do_read)
      next
        case ev: (Inr oc)
        then obtain out c where oc: "oc = (out, c)" by (cases oc)
        note e = evaluated [OF ev [unfolded oc]]
        obtain bs x where "fine (rx_candidates cx') bs (rx_policy cx') None" "mset (rx_ballots cx') = add_mset x (mset bs)"
          using recorded_seen [OF inv b load was rec load'(1)] by blast
        then have room: "length (rx_ballots cx') \<le> unat (candidate_limit (rx_policy cx'))"
          using fine_room e(1) by blast
        show ?thesis
        proof (cases "c = RoundPending")
          case True
          then have "fine (rx_candidates cx') (rx_ballots cx') (rx_policy cx') None"
            using e room load'(2) by (auto simp: fine_def)
          then show ?thesis using Inr ev oc True ok by (simp add: and_do_read completion_is_terminal_def)
        next
          case False
          obtain n rn' where p: "persist_decision tx t ?r (rx_project_id cx') (ao_decision out) (snd m) ?rn = (Inr n, rn')"
            using persist_after_ballot [OF tx inv b rec Inr undecided] by blast
          have now: "fine (rx_candidates cx') (rx_ballots cx') (rx_policy cx') (Some (ao_decision out))"
            using e room load'(2) False by (simp add: fine_def)
          have known: "fine cs bs p (Some (ao_decision out)) \<and> (d = None \<or> d = Some (ao_decision out))"
            if "seen tx ?rn ?r cs bs p d" for cs bs p d
            using one [OF that] now by simp
          obtain row' where row': "find_key rr_id (round_text tx ?r) (st_rounds (rn_store ?rn)) = Some row'"
            using load'(4) by blast
          have "tables_ok tx (rn_store ?rn)" using keeps(1) by simp
          then have "rounds_inv tx rn'"
            using inv_persist [OF tx _ keeps(2,3) known row' p] by blast
          then show ?thesis using Inr ev oc False p by (simp add: and_do_read completion_is_terminal_def)
        qed
      qed
    qed
    then show ?thesis by (simp add: run)
  qed
qed

lemma persist_failed: "persist_decision tx t r project x e rn = (Inl err, rn') \<Longrightarrow> rn' = rn"
  by (auto simp: persist_decision_def split: if_splits sum.splits prod.splits)

lemma inv_replay:
  assumes tx: "texts_ok tx" and inv: "rounds_inv tx rn"
  shows "rounds_inv tx (snd (replay_round tx t r rn))"
proof (cases "load_round_context tx rn r")
  case (Inl e)
  then show ?thesis using inv by (simp add: replay_round_def and_do_read)
next
  case load: (Inr cx)
  note s = load_seen [OF load]
  show ?thesis
  proof (cases "evaluate_context tx cx")
    case (Inl e)
    then show ?thesis using inv load by (simp add: replay_round_def and_do_read)
  next
    case ev: (Inr oc)
    then obtain out c where oc: "oc = (out, c)" by (cases oc)
    note e = evaluated [OF ev [unfolded oc]]
    let ?revision = "current_revision (rn_store rn) (rx_project_id cx)"
    obtain res rn' where p: "persist_decision tx t r (rx_project_id cx) (ao_decision out) ?revision rn = (res, rn')"
      by (cases "persist_decision tx t r (rx_project_id cx) (ao_decision out) ?revision rn")
    show ?thesis
    proof (cases "c = RoundPending")
      case True
      then show ?thesis using inv load ev oc by (simp add: replay_round_def and_do_read completion_is_terminal_def Let_def)
    next
      case False
      have "rounds_inv tx rn'"
      proof (cases res)
        case (Inl err)
        then show ?thesis using persist_failed p inv by blast
      next
        case (Inr n)
        have "length (rx_ballots cx) \<le> unat (candidate_limit (rx_policy cx))"
          using rounds_inv_fine [OF inv s(1)] e(1) by (simp add: fine_def)
        then have now: "fine (rx_candidates cx) (rx_ballots cx) (rx_policy cx) (Some (ao_decision out))"
          using e s(2) False by (simp add: fine_def)
        have known: "fine cs bs p (Some (ao_decision out)) \<and> (d = None \<or> d = Some (ao_decision out))"
          if "seen tx rn r cs bs p d" for cs bs p d
          using seen_fun [OF s(1) that] now e(2) by metis
        obtain row where row: "find_key rr_id (round_text tx r) (st_rounds (rn_store rn)) = Some row"
          using s(4) by blast
        have "tables_ok tx (rn_store rn)" "memory_ok tx rn" using inv by (simp_all add: rounds_inv_def)
        then show ?thesis
          using inv_persist [OF tx _ _ rounds_inv_others [OF inv] known row p [unfolded Inr]] by blast
      qed
      then show ?thesis using load ev oc False p
        by (cases res) (simp_all add: replay_round_def and_do_read completion_is_terminal_def Let_def)
    qed
  qed
qed

end
