(* ===== verification/Rounds_Ballots.thy ===== *)
theory Rounds_Ballots
  imports Rounds_Steps
begin

text \<open>
  A ballot on its way through the store: the JSON the orchestrator writes, the canonical row the store
  keeps and the value that is read back. Only notes longer than 2000 characters change.
\<close>

section \<open>Texts that are not blank\<close>

lemma trim_first_not_blank:
  assumes "s \<noteq> []" and "hd s \<notin> hd ` set ws_chars"
  shows "trim s \<noteq> []"
proof
  have ne: "p \<noteq> []" if "p \<in> set ws_chars" for p using that by (auto simp: ws_chars_def)
  have "strip_any ws_chars s = None"
    by (rule strip_any_None [OF assms(1)]) (metis assms(2) image_eqI ne)
  then have "trim_start s = s" by (simp add: trim_start_def trim_pats.simps)
  moreover assume "trim s = []"
  ultimately have "trim_pats (map rev ws_chars) (rev s) = []" by (simp add: trim_def trim_end_def trim_end_pats_def)
  then obtain p where "p \<in> set ws_chars" "last (rev s) = last (rev p)"
    using trim_pats_Nil_last assms(1) by fastforce
  then show False using assms ne by (metis image_eqI last_rev)
qed

lemma text_of_id:
  "text_of (JString (typed_id_display ''ballot_'' f i)) = Some (typed_id_display ''ballot_'' f i)"
  "text_of (JString (typed_id_display ''adj_'' f i)) = Some (typed_id_display ''adj_'' f i)"
  "text_of (JString (typed_id_display ''cset_'' f i)) = Some (typed_id_display ''cset_'' f i)"
  "text_of (JString (typed_id_display ''proj_'' f i)) = Some (typed_id_display ''proj_'' f i)"
  using trim_first_not_blank [of "typed_id_display ''ballot_'' f i"] trim_first_not_blank [of "typed_id_display ''adj_'' f i"]
    trim_first_not_blank [of "typed_id_display ''cset_'' f i"] trim_first_not_blank [of "typed_id_display ''proj_'' f i"]
  by (simp_all add: text_of_def typed_id_display_def ws_chars_def)

section \<open>The canonical forms\<close>

definition clip_notes :: "CandidateAssessment \<Rightarrow> CandidateAssessment" where
  "clip_notes a = a\<lparr>ca_notes := map (chars_take 2000) (ca_notes a)\<rparr>"

definition canonical_validator_of :: "ValidatorIdentity \<Rightarrow> Json" where
  "canonical_validator_of v = JObject (obj_of [(''sessionId'', JString (vi_session_id v)),
     (''agentId'', JString (vi_agent_id v)), (''modelId'', json_opt JString (vi_model_id v)),
     (''lineageDigest'', JString (vi_lineage_digest v))])"

definition canonical_assessment_of :: "Texts \<Rightarrow> CandidateAssessment \<Rightarrow> Json" where
  "canonical_assessment_of tx a = JObject (obj_of [(''candidateId'', id_json tx ''cand_'' (ca_candidate_id a)),
     (''eligible'', JBool (ca_eligible a)), (''approve'', JBool (ca_approve a)),
     (''acceptanceScore'', u16_json (ca_acceptance_score a)), (''riskScore'', u16_json (ca_risk_score a)),
     (''complexityScore'', u16_json (ca_complexity_score a)),
     (''notes'', JArray (map (\<lambda>s. JString (chars_take 2000 s)) (ca_notes a)))])"

lemma canonical_validator: "canonical_validator (validator_json v) = Inr (canonical_validator_of v)"
  by (simp add: canonical_validator_def validator_json_def object_of_def copy_field_def get_any_def obj_get_of
      canonical_validator_of_def Let_def) (simp add: obj_of_def obj_get_def)

lemma strings_of: "List.map_filter as_str (map JString xs) = xs"
  by (induction xs) (simp_all add: List.map_filter_def)

lemma canonical_assessment: "canonical_assessment (assessment_json tx a) = Inr (canonical_assessment_of tx a)"
  by (simp add: canonical_assessment_def assessment_json_def copy_flag_def copy_score_def get_any_def obj_get_of
      id_json_def u16_json_def strings_of canonical_assessment_of_def) (simp add: obj_of_def)

lemma read_validator: "de_stored_validator (canonical_validator_of v) = Some v"
  by (cases "vi_model_id v") (simp_all add: de_stored_validator_def canonical_validator_of_def json_read)

lemma read_assessment: "texts_ok tx \<Longrightarrow> de_stored_assessment tx (canonical_assessment_of tx a) = Some (clip_notes a)"
  using de_list_map [of "ca_notes a" as_str "\<lambda>s. JString (chars_take 2000 s)" "chars_take 2000"]
  by (simp add: de_stored_assessment_def canonical_assessment_of_def json_read clip_notes_def)

lemma plain_canonical:
  "json_plain (canonical_validator_of v)" "json_plain (canonical_assessment_of tx a)"
  unfolding canonical_validator_of_def canonical_assessment_of_def by (rule json_plain_of; simp add: list_all_iff)+

section \<open>The ballot's row\<close>

definition ballot_row :: "Texts \<Rightarrow> AdjudicationBallot \<Rightarrow> BallotRow" where
  "ballot_row tx b = \<lparr>br_id = ballot_text tx (ab_id b), br_round_id = round_text tx (ab_round_id b),
     br_validator_json = tx_json tx (canonical_validator_of (ab_validator b)),
     br_assessments_json = tx_json tx (JArray (map (canonical_assessment_of tx) (ab_assessments b))),
     br_ranking_json = tx_json tx (JArray (map (id_json tx ''cand_'') (ab_ranking b))),
     br_abstained = ab_abstained b, br_created_at = tx_time tx (ab_created_at b)\<rparr>"

definition clip_ballot :: "AdjudicationBallot \<Rightarrow> AdjudicationBallot" where
  "clip_ballot b = b\<lparr>ab_assessments := map clip_notes (ab_assessments b)\<rparr>"

lemma parsed_ballot: "parse_ballot (tx_json tx) t (ballot_json tx b) = Inr (ballot_row tx b)"
proof -
  have a: "collect_results canonical_assessment (map (assessment_json tx) as) = Inr (map (canonical_assessment_of tx) as)" for as
    by (induction as) (simp_all add: canonical_assessment)
  have r: "collect_results ranking_text (map (id_json tx ''cand_'') is) = Inr (map (id_json tx ''cand_'') is)" for "is"
    by (induction "is") (simp_all add: ranking_text_def id_json_def)
  show ?thesis
    by (simp add: parse_ballot_def ballot_json_def object_of_def required_value_any_def required_value_def get_any_def
        obj_get_of canonical_validator a r field_string_def field_string_any_def optional_bool_def optional_timestamp_def
        or_else_def time_json_def ballot_row_def ballot_text_def round_text_def)
      (simp add: id_json_def text_of_id)
qed

lemma read_ballot:
  assumes tx: "texts_ok tx"
  shows "\<exists>v. ballot_value (tx_read tx) (ballot_row tx b) = Inr v \<and> de_stored_ballot tx v = Some (clip_ballot b)"
proof -
  have read: "json_plain v \<Longrightarrow> tx_read tx (tx_json tx v) = Some v" for v using tx by (simp add: texts_ok_def)
  have "json_plain (JArray (map (canonical_assessment_of tx) as))" for as by (simp add: list_all_iff plain_canonical)
  moreover have "json_plain (JArray (map (id_json tx ''cand_'') is))" for "is" by (simp add: list_all_iff)
  ultimately have v: "ballot_value (tx_read tx) (ballot_row tx b) = Inr (JObject (obj_of
      [(''id'', JString (ballot_text tx (ab_id b))), (''roundId'', JString (round_text tx (ab_round_id b))),
       (''validator'', canonical_validator_of (ab_validator b)),
       (''assessments'', JArray (map (canonical_assessment_of tx) (ab_assessments b))),
       (''ranking'', JArray (map (id_json tx ''cand_'') (ab_ranking b))), (''abstained'', JBool (ab_abstained b)),
       (''createdAt'', JString (tx_time tx (ab_created_at b)))]))"
    by (simp add: ballot_value_def ballot_row_def text_value_def read plain_canonical del: json_plain.simps)
  have "de_list (de_stored_assessment tx) (JArray (map (canonical_assessment_of tx) as)) = Some (map clip_notes as)" for as
    using read_assessment [OF tx] by (rule de_list_map)
  moreover have "de_list (de_id tx ''cand_'') (JArray (map (id_json tx ''cand_'') is)) = Some is" for "is"
    using de_list_map [of "is" "de_id tx ''cand_''" "id_json tx ''cand_''" id] tx by simp
  moreover have "de_time tx (JString (tx_time tx d)) = Some d" for d using tx by (simp add: de_time_def texts_ok_def)
  ultimately show ?thesis
    unfolding v using tx
    by (simp add: de_stored_ballot_def json_read read_validator ballot_text_def round_text_def clip_ballot_def)
qed

end
