(* ===== verification/Rounds_Demo.thy ===== *)
theory Rounds_Demo
  imports Rounds_Ballots
begin

text \<open>
  An example for the theorems about rounds: text forms that satisfy the laws the model relies on, and a
  store with an ensemble of two candidates. The forms are not those of the real crates; JSON is written
  in postfix order.
\<close>

section \<open>Text forms\<close>

definition push_char :: "char \<Rightarrow> Json list \<Rightarrow> Json list option" where
  "push_char c st = (case st of JString s # r \<Rightarrow> Some (JString (c # s) # r) | _ \<Rightarrow> None)"

definition demo_op :: "char \<Rightarrow> Json list \<Rightarrow> Json list option" where
  "demo_op k st =
     (if k = CHR ''n'' then Some (JNull # st)
      else if k = CHR ''t'' then Some (JBool True # st)
      else if k = CHR ''f'' then Some (JBool False # st)
      else if k = CHR ''0'' then Some (JInt 0 # st)
      else if k = CHR ''s'' then Some (JString [] # st)
      else if k = CHR ''a'' then Some (JArray [] # st)
      else if k = CHR ''o'' then Some (JObject [] # st)
      else if k = CHR ''+'' then (case st of JInt i # r \<Rightarrow> Some (JInt (i + 1) # r) | _ \<Rightarrow> None)
      else if k = CHR ''-'' then (case st of JInt i # r \<Rightarrow> Some (JInt (i - 1) # r) | _ \<Rightarrow> None)
      else if k = CHR '','' then (case st of v # JArray vs # r \<Rightarrow> Some (JArray (v # vs) # r) | _ \<Rightarrow> None)
      else if k = CHR '':'' then (case st of v # JString s # JObject m # r \<Rightarrow> Some (JObject ((s, v) # m) # r) | _ \<Rightarrow> None)
      else None)"

fun demo_run :: "string \<Rightarrow> Json list \<Rightarrow> Json list option" where
  "demo_run [] st = Some st"
| "demo_run [k] st = demo_op k st"
| "demo_run (k # c # cs) st =
     (if k = CHR ''c'' then Option.bind (push_char c st) (demo_run cs)
      else Option.bind (demo_op k st) (demo_run (c # cs)))"

fun demo_chars :: "string \<Rightarrow> string" where
  "demo_chars [] = ''s''"
| "demo_chars (c # cs) = demo_chars cs @ [CHR ''c'', c]"

fun demo_print :: "Json \<Rightarrow> string" and demo_items :: "Json list \<Rightarrow> string" and
    demo_entries :: "(string \<times> Json) list \<Rightarrow> string" where
  "demo_print JNull = ''n''"
| "demo_print (JBool b) = (if b then ''t'' else ''f'')"
| "demo_print (JInt i) = ''0'' @ replicate (nat i) CHR ''+'' @ replicate (nat (- i)) CHR ''-''"
| "demo_print (JFloat w) = ''n''"
| "demo_print (JString s) = demo_chars s"
| "demo_print (JArray vs) = demo_items vs"
| "demo_print (JObject m) = demo_entries m"
| "demo_items [] = ''a''"
| "demo_items (v # vs) = demo_items vs @ demo_print v @ '',''"
| "demo_entries [] = ''o''"
| "demo_entries ((k, v) # m) = demo_entries m @ demo_chars k @ demo_print v @ '':''"

definition demo_read :: "string \<Rightarrow> Json option" where
  "demo_read s = Option.bind (demo_run s []) (\<lambda>st. case st of [v] \<Rightarrow> Some v | _ \<Rightarrow> None)"

definition demo_time :: "int \<Rightarrow> string" where
  "demo_time d = (if d < 0 then ''-'' else ''+'') @ nat_to_string (nat \<bar>d\<bar>)"

definition demo_parse_time :: "string \<Rightarrow> int option" where
  "demo_parse_time s = (case s of [] \<Rightarrow> None | c # ds \<Rightarrow>
     Some (if c = CHR ''-'' then - int (digits_value ds 0) else int (digits_value ds 0)))"

definition demo_texts :: Texts where
  "demo_texts = \<lparr>tx_uuid = \<lambda>i. nat_to_string (unat i), tx_parse_uuid = \<lambda>s. Some (of_nat (digits_value s 0)),
     tx_time = demo_time, tx_parse_time = demo_parse_time, tx_json = demo_print, tx_read = demo_read\<rparr>"

lemma run_op: "k \<noteq> CHR ''c'' \<Longrightarrow> demo_run (k # cs) st = Option.bind (demo_op k st) (demo_run cs)"
  by (cases cs; cases "demo_op k st") simp_all

lemma run_chars: "demo_run (demo_chars s @ cs) st = demo_run cs (JString s # st)"
  by (induction s arbitrary: cs) (simp_all add: run_op demo_op_def push_char_def)

lemma run_up: "demo_run (replicate n CHR ''+'' @ cs) (JInt i # st) = demo_run cs (JInt (i + int n) # st)"
  by (induction n arbitrary: i) (simp_all add: run_op demo_op_def algebra_simps)

lemma run_down: "demo_run (replicate n CHR ''-'' @ cs) (JInt i # st) = demo_run cs (JInt (i - int n) # st)"
  by (induction n arbitrary: i) (simp_all add: run_op demo_op_def algebra_simps)

lemma run_print:
  "json_plain v \<Longrightarrow> demo_run (demo_print v @ cs) st = demo_run cs (v # st)"
  "list_all json_plain vs \<Longrightarrow> demo_run (demo_items vs @ cs) st = demo_run cs (JArray vs # st)"
  "list_all (\<lambda>e. json_plain (snd e)) m \<Longrightarrow> demo_run (demo_entries m @ cs) st = demo_run cs (JObject m # st)"
  by (induction v and vs and m arbitrary: cs st and cs st and cs st rule: demo_print_demo_items_demo_entries.induct)
    (simp_all add: run_op demo_op_def run_chars run_up run_down)

lemma demo_texts_ok: "texts_ok demo_texts"
proof -
  have "demo_read (demo_print v) = Some v" if "json_plain v" for v
    using run_print(1) [OF that, of "[]" "[]"] by (simp add: demo_read_def)
  moreover have "demo_parse_time (demo_time d) = Some d" for d
    by (simp add: demo_parse_time_def demo_time_def digits_value_nat_to_string)
  ultimately show ?thesis by (simp add: texts_ok_def demo_texts_def digits_value_nat_to_string)
qed

section \<open>A set and a round\<close>

definition demo_provenance :: Json where
  "demo_provenance = JObject (obj_of [(''agentId'', JString ''author''), (''sessionId'', JString ''s1'')])"

definition demo_set_row :: "Texts \<Rightarrow> SetRow" where
  "demo_set_row tx = \<lparr>sr_id = set_text tx 1, sr_project_id = typed_id_display ''proj_'' (tx_uuid tx) 9, sr_task_id = ''task'',
     sr_base_revision = 0, sr_base_commit = ''base'', sr_acceptance_digest = ''digest'',
     sr_policy_json = tx_json tx (policy_json Exclusive), sr_policy_version = 1, sr_state = ''open'',
     sr_created_at = tx_time tx 0, sr_updated_at = tx_time tx 0\<rparr>"

definition demo_candidate_row :: "Texts \<Rightarrow> string \<Rightarrow> CandidateRow" where
  "demo_candidate_row tx cst = \<lparr>cr_id = typed_id_display ''cand_'' (tx_uuid tx) 2, cr_candidate_set_id = set_text tx 1,
     cr_state = cst, cr_base_commit = ''base'', cr_result_commit = Some ''result'', cr_diff_digest = None,
     cr_summary = None, cr_provenance_json = tx_json tx demo_provenance, cr_supersedes_candidate_id = None,
     cr_created_at = tx_time tx 0, cr_updated_at = tx_time tx 0, cr_submitted_at = None,
     cr_resource_intents = [], cr_evidence = []\<rparr>"

definition demo_store :: "Texts \<Rightarrow> string \<Rightarrow> Store" where
  "demo_store tx cst = \<lparr>st_revisions = [], st_sets = [demo_set_row tx], st_candidates = [demo_candidate_row tx cst],
     st_rounds = [], st_ballots = [], st_promotions = [], st_events = []\<rparr>"

definition demo_loaded :: "CandidateState \<Rightarrow> Candidate" where
  "demo_loaded cs = \<lparr>cd_id = 2, cd_candidate_set_id = 1, cd_state = cs, cd_base_commit = ''base'',
     cd_result_commit = Some ''result'', cd_diff_digest = None, cd_summary = None,
     cd_provenance = \<lparr>cp_session_id = ''s1'', cp_agent_id = ''author'', cp_model_id = None, cp_work_unit_id = None,
       cp_lineage_digest = None\<rparr>,
     cd_resource_intents = [], cd_supersedes_candidate_id = None, cd_created_at = 0, cd_updated_at = 0,
     cd_submitted_at = None\<rparr>"

definition demo_set :: "CandidateSetState \<Rightarrow> StoredCandidateSet" where
  "demo_set st = \<lparr>ss_id = 1, ss_project_id = 9, ss_policy = Exclusive, ss_policy_version = 1, ss_state = st\<rparr>"

definition demo_context :: "CandidateSetState \<Rightarrow> CandidateState \<Rightarrow> CandidateSetContext" where
  "demo_context st cs = \<lparr>cx_candidate_set = demo_set st, cx_candidates = [demo_loaded cs], cx_required_quorum = 1,
     cx_expected_ballot_count = 1\<rparr>"

lemma texts_read:
  assumes "texts_ok tx"
  shows "json_plain v \<Longrightarrow> tx_read tx (tx_json tx v) = Some v" "de_time tx (JString (tx_time tx d)) = Some d"
  using assms by (simp_all add: texts_ok_def de_time_def)

lemma demo_set_loads:
  assumes tx: "texts_ok tx"
    and s: "st_sets (rn_store rn) = [demo_set_row tx\<lparr>sr_state := st, sr_updated_at := t\<rparr>]"
      "st_candidates (rn_store rn) = [demo_candidate_row tx cst]"
    and st: "map_of set_states st = Some state" "map_of candidate_states cst = Some cs"
  shows "load_candidate_set_context tx rn 1 = Inr (demo_context state cs)"
proof -
  have plain: "json_plain (policy_json Exclusive)" "json_plain demo_provenance"
    unfolding policy_json_def demo_provenance_def by (rule json_plain_of; simp)+
  let ?set = "JObject (obj_of [(''id'', JString (set_text tx 1)),
      (''projectId'', JString (typed_id_display ''proj_'' (tx_uuid tx) 9)),
      (''taskId'', JString ''task''), (''baseRevision'', json_nat 0), (''baseCommit'', JString ''base''),
      (''acceptanceDigest'', JString ''digest''), (''policy'', policy_json Exclusive), (''policyVersion'', json_nat 1),
      (''state'', JString st), (''createdAt'', JString (tx_time tx 0)), (''updatedAt'', JString t)])"
  have set: "get_candidate_set (tx_read tx) (rn_store rn) (set_text tx 1) = Inr (Some ?set)"
    by (simp add: get_candidate_set_def lookup_value_def s demo_set_row_def candidate_set_value_def text_value_def
        texts_read [OF tx] plain)
  have typed: "de_stored_set tx ?set = Some (demo_set state)"
    using st tx de_policy_json [of Exclusive] by (simp add: de_stored_set_def json_read set_text_def de_enum_def demo_set_def)
  let ?candidate = "JObject (obj_of [(''id'', JString (typed_id_display ''cand_'' (tx_uuid tx) 2)),
       (''candidateSetId'', JString (set_text tx 1)),
       (''state'', JString cst), (''baseCommit'', JString ''base''),
       (''resultCommit'', JString ''result''), (''diffDigest'', JNull), (''summary'', JNull),
       (''provenance'', demo_provenance), (''resourceIntents'', JArray []), (''evidence'', JArray []),
       (''supersedesCandidateId'', JNull), (''createdAt'', JString (tx_time tx 0)),
       (''updatedAt'', JString (tx_time tx 0)), (''submittedAt'', JNull)])"
  have candidates: "set_candidates (rn_store rn) (set_text tx 1) = [demo_candidate_row tx cst]"
    by (simp add: set_candidates_def s demo_candidate_row_def)
  have candidate: "candidate_value (tx_read tx) (demo_candidate_row tx cst) = Inr ?candidate"
    by (simp add: candidate_value_def demo_candidate_row_def text_value_def texts_read [OF tx] plain json_opt_def)
  have "de_provenance demo_provenance = Some (cd_provenance (demo_loaded cs))"
    by (simp add: de_provenance_def demo_provenance_def json_read demo_loaded_def)
  then have typed_candidate: "de_stored_candidate tx ?candidate = Some (demo_loaded cs)"
    using tx texts_read(2) [OF tx]
    by (simp add: de_stored_candidate_def json_read set_text_def de_enum_def st(2) de_list_def demo_loaded_def)
  have "field_string (or_else (as_object ?set) []) ''projectId'' = Inr (typed_id_display ''proj_'' (tx_uuid tx) 9)"
    by (simp add: field_string_def or_else_def obj_get_of text_of_id)
  then have projection: "candidate_set_projection (tx_read tx) (rn_store rn) (set_text tx 1) 500 = Inr (JObject (obj_of
      [(''projectId'', JString (typed_id_display ''proj_'' (tx_uuid tx) 9)), (''candidateSet'', ?set),
       (''candidates'', JArray [?candidate]), (''count'', json_nat 1), (''limit'', json_nat 500),
       (''truncated'', JBool False)]))"
    by (simp add: candidate_set_projection_def Let_def set candidates candidate bounded_limit_def MAX_PROJECTION_LIMIT_def
        del: ok_or_Inr)
  have "adjudication_quorum Exclusive = Inr 1" "unat (candidate_limit Exclusive) = 1" by code_simp+
  then show ?thesis
    using typed typed_candidate
    by (simp add: load_candidate_set_context_def Let_def set projection map_err_def demo_set_def demo_context_def
        or_else_def obj_get_of)
qed

definition demo_round_row :: "Texts \<Rightarrow> string \<Rightarrow> RoundRow" where
  "demo_round_row tx t = \<lparr>rr_id = round_text tx 3, rr_candidate_set_id = set_text tx 1, rr_policy_version = 1,
     rr_required_quorum = 1, rr_decision_json = None, rr_created_at = t, rr_decided_at = None\<rparr>"

definition demo_opened :: "Texts \<Rightarrow> string \<Rightarrow> string \<Rightarrow> Store" where
  "demo_opened tx cst t = (demo_store tx cst)\<lparr>st_revisions := [(typed_id_display ''proj_'' (tx_uuid tx) 9, 2)],
     st_sets := [demo_set_row tx\<lparr>sr_state := ''adjudicating'', sr_updated_at := t\<rparr>],
     st_rounds := [demo_round_row tx t]\<rparr>"

definition demo_adjudicating :: "Texts \<Rightarrow> string \<Rightarrow> string \<Rightarrow> Store" where
  "demo_adjudicating tx cst t = (demo_store tx cst)\<lparr>st_revisions := [(typed_id_display ''proj_'' (tx_uuid tx) 9, 1)],
     st_sets := [demo_set_row tx\<lparr>sr_state := ''adjudicating'', sr_updated_at := t\<rparr>]\<rparr>"

lemma demo_set_adjudicating:
  "set_candidate_set_state t (set_text tx 1) ''adjudicating'' 0 (demo_store tx cst) =
    Inr ((set_text tx 1, 1), demo_adjudicating tx cst t)"
  by (simp add: set_candidate_set_state_def validate_candidate_set_state_def candidate_set_project_def demo_store_def
      demo_set_row_def ensure_revision_def current_revision_def bump_revision_def to_i64_def demo_adjudicating_def)

lemma demo_round_recorded:
  "record_adjudication_round (demo_round_row tx t) 1 (demo_adjudicating tx cst t) =
    Inr ((round_text tx 3, 2), demo_opened tx cst t)"
  by (simp add: record_adjudication_round_def candidate_set_project_def demo_store_def demo_set_row_def
      ensure_revision_def current_revision_def bump_revision_def to_i64_def insert_row_def demo_round_row_def
      demo_opened_def demo_adjudicating_def)

lemma demo_open:
  assumes tx: "texts_ok tx" and cst: "map_of candidate_states cst = Some cs"
  shows "snd (open_round tx t 3 1 0 (new_runner m (demo_store tx cst))) = new_runner m (demo_opened tx cst t)"
proof -
  have "load_candidate_set_context tx (new_runner m (demo_store tx cst)) 1 = Inr (demo_context SetOpen cs)"
    by (rule demo_set_loads [OF tx, where st = "''open''" and t = "tx_time tx 0" and cst = cst])
      (simp_all add: cst new_runner_def demo_store_def demo_set_row_def set_states_def)
  moreover have "parse_round (tx_json tx) t (JObject (obj_of
           [(''id'', id_json tx ''adj_'' 3), (''candidateSetId'', id_json tx ''cset_'' 1),
            (''policyVersion'', json_nat 1), (''requiredQuorum'', u16_json 1), (''createdAt'', JString t)])) =
      Inr (demo_round_row tx t)"
    by (simp add: parse_round_def object_of_def required_u64_any_def field_string_def field_string_any_def get_any_def
        obj_get_of optional_timestamp_def or_else_def u16_json_def demo_round_row_def round_text_def set_text_def)
      (simp add: id_json_def text_of_id)
  ultimately show ?thesis
    using demo_set_adjudicating [of t tx cst] demo_round_recorded [of tx t cst]
    by (simp add: open_round_def and_do_read demo_context_def demo_set_def store_step_def new_runner_def)
qed

definition demo_round :: "Texts \<Rightarrow> CandidateState \<Rightarrow> string \<Rightarrow> RoundContext" where
  "demo_round tx cs t = \<lparr>rx_round_value = JObject (round_fields (demo_round_row tx t) JNull []), rx_round_id = 3,
     rx_project_id = typed_id_display ''proj_'' (tx_uuid tx) 9, rx_candidate_set = demo_set SetAdjudicating,
     rx_candidates = [demo_loaded cs], rx_policy = Exclusive, rx_expected_ballot_count = 1, rx_ballots = [],
     rx_decision = None\<rparr>"

lemma demo_round_loads_as:
  assumes tx: "texts_ok tx" and st: "map_of set_states st = Some state" "map_of candidate_states cst = Some cs"
    and s: "st_sets (rn_store rn) = [demo_set_row tx\<lparr>sr_state := st, sr_updated_at := u\<rparr>]"
      "st_candidates (rn_store rn) = [demo_candidate_row tx cst]" "st_rounds (rn_store rn) = [demo_round_row tx t]"
      "st_ballots (rn_store rn) = []"
  shows "load_round_context tx rn 3 =
    Inr ((demo_round tx cs t)\<lparr>rx_candidate_set := demo_set state, rx_decision := map_of (rn_memory rn) 3\<rparr>)"
proof -
  let ?c = "\<lparr>sd_set_id = 1, sd_version = 1, sd_quorum = 1, sd_decision = None, sd_ballots = []\<rparr>"
  have set: "load_candidate_set_context tx rn 1 = Inr (demo_context state cs)"
    by (rule demo_set_loads [OF tx s(1,2) st])
  have "de_stored_round tx (JObject (round_fields (demo_round_row tx t) JNull [])) = Some ?c"
    using tx by (simp add: de_stored_round_def round_fields_def json_read demo_round_row_def de_list_def set_text_def de_u16_def)
  then have "round_parts tx rn 3 (demo_round_row tx t) [] JNull ?c (demo_context state cs) None"
    using set by (simp add: round_parts_def s demo_round_row_def
        round_ballots_def demo_context_def demo_set_def ensure_unique_ballots_and_validators_def)
  from load_roundI [OF this] show ?thesis
    by (simp add: round_context_def demo_round_def demo_context_def demo_set_def)
qed

lemma demo_round_loads:
  assumes "texts_ok tx" and "map_of candidate_states cst = Some cs"
  shows "load_round_context tx (new_runner m (demo_opened tx cst t)) 3 = Inr (demo_round tx cs t)"
  using demo_round_loads_as [OF assms(1) _ assms(2), of "''adjudicating''" SetAdjudicating "new_runner m (demo_opened tx cst t)" t t]
  by (simp add: new_runner_def demo_opened_def demo_store_def set_states_def demo_round_def)

definition demo_vote :: AdjudicationBallot where
  "demo_vote = \<lparr>ab_id = 5, ab_round_id = 3,
     ab_validator = \<lparr>vi_session_id = ''v1'', vi_agent_id = ''checker'', vi_model_id = None, vi_lineage_digest = ''l1''\<rparr>,
     ab_assessments = [\<lparr>ca_candidate_id = 2, ca_eligible = True, ca_approve = True, ca_acceptance_score = 9,
       ca_risk_score = 1, ca_complexity_score = 1, ca_notes = [''fine'']\<rparr>],
     ab_ranking = [2], ab_abstained = False, ab_created_at = 7\<rparr>"

lemma demo_vote_facts:
  "validate_new_ballot tx (demo_round tx cs t) demo_vote = Inr ()"
  "\<exists>out. adjudicate [demo_loaded cs] [] Exclusive = Inr out"
  "clip_ballot demo_vote = demo_vote"
proof -
  have v: "validate_ballot demo_vote {2} = Inr ()" "policy_parameters Exclusive = Inr (1, 1)" by code_simp+
  have "validate_round [demo_loaded cs] [] = Inr ()" by (simp add: validate_round_iff)
  note ok = adjudicate_ok [OF v(2) this]
  show "clip_ballot demo_vote = demo_vote" by code_simp
  show "\<exists>out. adjudicate [demo_loaded cs] [] Exclusive = Inr out" by (rule ok)
  show "validate_new_ballot tx (demo_round tx cs t) demo_vote = Inr ()"
    using v(1) by (simp add: validate_new_ballot_def Let_def demo_round_def demo_loaded_def map_err_def)
      (simp add: demo_vote_def)
qed

end
