(* ===== verification/Rounds_Submit.thy ===== *)
theory Rounds_Submit
  imports Rounds_Ballots
begin

text \<open>
  A ballot that passes validation, at the current revision and with a fresh id, is counted: the submission
  succeeds, the round loads again with the ballot, and the decision is persisted as soon as the completion
  is terminal.
\<close>

section \<open>Uniqueness\<close>

lemma unique_ballots_iff:
  "unique_ballots tx r ids keys bs = Inr () \<longleftrightarrow> distinct (map ab_id bs) \<and> set (map ab_id bs) \<inter> ids = {} \<and>
     distinct (map (\<lambda>b. validator_key (ab_validator b)) bs) \<and> set (map (\<lambda>b. validator_key (ab_validator b)) bs) \<inter> keys = {}"
  by (induction tx r ids keys bs rule: unique_ballots.induct) auto

lemma ensure_unique_iff:
  "ensure_unique_ballots_and_validators tx r bs = Inr () \<longleftrightarrow>
     distinct (map ab_id bs) \<and> distinct (map (\<lambda>b. validator_key (ab_validator b)) bs)"
  by (simp add: ensure_unique_ballots_and_validators_def unique_ballots_iff)

lemma distinct_key_add:
  "mset ys = add_mset x (mset xs) \<Longrightarrow> distinct (map f ys) \<longleftrightarrow> f x \<notin> f ` set xs \<and> distinct (map f xs)"
  using mset_eq_imp_distinct_iff [of "map f ys" "map f (x # xs)"] by simp

lemma new_ballot_valid:
  assumes "validate_new_ballot tx cx b = Inr ()"
  shows "ab_round_id b = rx_round_id cx" and "ab_id b \<notin> ab_id ` set (rx_ballots cx)"
    and "validator_key (ab_validator b) \<notin> (\<lambda>b. validator_key (ab_validator b)) ` set (rx_ballots cx)"
    and "validate_ballot b (cd_id ` set (rx_candidates cx)) = Inr ()"
  using assms by (auto simp: validate_new_ballot_def Let_def list_ex_iff map_err_def split: if_splits sum.splits)

lemma clip_simps [simp]:
  "ab_id (clip_ballot b) = ab_id b" "ab_round_id (clip_ballot b) = ab_round_id b"
  "ab_validator (clip_ballot b) = ab_validator b"
  by (simp_all add: clip_ballot_def)

lemma clip_valid: "validate_ballot (clip_ballot b) known = validate_ballot b known"
proof -
  have id: "ca_candidate_id (clip_notes a) = ca_candidate_id a" for a by (simp add: clip_notes_def)
  then have "map ca_candidate_id (sort_key ca_candidate_id (map clip_notes as)) = map ca_candidate_id (sort_key ca_candidate_id as)" for as
    by (simp add: sort_key_map comp_def)
  then show ?thesis
    by (simp add: validate_ballot_def clip_ballot_def assessments_in_deterministic_order_def)
qed

lemma adjudicate_added:
  assumes out: "adjudicate cs bs p = Inr out" and new: "mset bs' = add_mset x (mset bs)"
    and x: "ab_id x \<notin> ab_id ` set bs" "validate_ballot x (cd_id ` set cs) = Inr ()"
  shows "\<exists>out'. adjudicate cs bs' p = Inr out'"
proof -
  have "set bs' = insert x (set bs)" using arg_cong [OF new, of set_mset] by simp
  then have "validate_round cs bs' = Inr ()"
    using adjudicate_counts(3) [OF out] x distinct_key_add [OF new, of ab_id] by (simp add: validate_round_iff)
  then show ?thesis using adjudicate_counts(4) [OF out] adjudicate_ok by blast
qed

section \<open>Recording and reading back\<close>

lemma record_ok:
  assumes "round_project s (br_round_id b) = Inr p" and "current_revision s p = e" and "e + 1 < 2 ^ 63"
    and "br_id b \<notin> br_id ` set (st_ballots s)"
  shows "\<exists>s'. record_adjudication_ballot b e s = Inr ((br_id b, e + 1), s')"
proof -
  obtain rv where "ensure_revision s p e = Inr (s\<lparr>st_revisions := rv\<rparr>, e)"
    using ensure_revision_ok assms(2) by blast
  then obtain s1 where "ensure_revision s p e = Inr (s1, e)" "st_ballots s1 = st_ballots s" by auto
  then show ?thesis
    using assms by (simp add: record_adjudication_ballot_def insert_row_def bump_revision_def to_i64_def)
qed

lemma decode_each:
  "\<forall>row \<in> set rows. \<exists>v x. f row = Inr v \<and> g v = Some x \<Longrightarrow>
   \<exists>vals xs. collect_results f rows = Inr vals \<and> de_all g vals = Some xs"
  by (induction rows) fastforce+

lemma decoded_each:
  "collect_results f rows = Inr vals \<Longrightarrow> de_all g vals = Some xs \<Longrightarrow> row \<in> set rows \<Longrightarrow>
   \<exists>v x. f row = Inr v \<and> g v = Some x"
  by (induction rows arbitrary: vals xs) (auto simp: and_then_Inr bind_eq_Some_conv)

lemma reload_after_ballot:
  assumes tx: "texts_ok tx" and old: "seen_ballots tx s r bs"
    and s': "st_ballots s' = st_ballots s @ [ballot_row tx b]" and r: "ab_round_id b = r"
    and new: "ab_id b \<notin> ab_id ` set bs" "validator_key (ab_validator b) \<notin> (\<lambda>b. validator_key (ab_validator b)) ` set bs"
  shows "\<exists>bs'. seen_ballots tx s' r bs' \<and> mset bs' = add_mset (clip_ballot b) (mset bs)"
proof -
  let ?i = "round_text tx r" and ?f = "\<lambda>row. case ballot_value (tx_read tx) row of Inr v \<Rightarrow> de_stored_ballot tx v | Inl _ \<Rightarrow> None"
  obtain vals where old': "collect_results (ballot_value (tx_read tx)) (round_ballots s ?i) = Inr vals"
    "de_all (de_stored_ballot tx) vals = Some bs" using old unfolding seen_ballots_def by blast
  have rows: "mset (round_ballots s' ?i) = add_mset (ballot_row tx b) (mset (round_ballots s ?i))"
    using r by (simp add: round_ballots_def s' ballot_row_def)
  then have "set (round_ballots s' ?i) = insert (ballot_row tx b) (set (round_ballots s ?i))"
    by (metis set_mset_add_mset_insert set_mset_mset)
  then have "\<forall>row \<in> set (round_ballots s' ?i). \<exists>v x. ballot_value (tx_read tx) row = Inr v \<and> de_stored_ballot tx v = Some x"
    using decoded_each [OF old'] read_ballot [OF tx, of b] by (metis insert_iff)
  then obtain vals' bs' where new': "collect_results (ballot_value (tx_read tx)) (round_ballots s' ?i) = Inr vals'"
    "de_all (de_stored_ballot tx) vals' = Some bs'" using decode_each by blast
  have d: "map ?f (round_ballots s ?i) = map Some bs" "map ?f (round_ballots s' ?i) = map Some bs'"
    using collected_decode [OF old'] collected_decode [OF new'] by blast+
  have "?f (ballot_row tx b) = Some (clip_ballot b)" using read_ballot [OF tx, of b] by auto
  then have "image_mset Some (mset bs') = add_mset (Some (clip_ballot b)) (image_mset Some (mset bs))"
    using arg_cong [OF rows, of "image_mset ?f"] d by (metis image_mset_add_mset mset_map)
  then have "image_mset the (image_mset Some (mset bs')) = image_mset the (add_mset (Some (clip_ballot b)) (image_mset Some (mset bs)))"
    by simp
  then have m: "mset bs' = add_mset (clip_ballot b) (mset bs)" by (simp add: multiset.map_comp comp_def)
  have "ensure_unique_ballots_and_validators tx r bs' = Inr ()"
    using old new unfolding seen_ballots_def ensure_unique_iff
    by (simp add: distinct_key_add [OF m, of ab_id] distinct_key_add [OF m, of "\<lambda>b. validator_key (ab_validator b)"])
  then show ?thesis using new' m unfolding seen_ballots_def by blast
qed

section \<open>Reading a persisted decision back\<close>

lemma load_decided_memory:
  assumes load: "load_round_context tx rn r = Inr cx" and "rx_decision cx = None"
  shows "load_round_context tx (rn\<lparr>rn_memory := AList.update r x (rn_memory rn)\<rparr>) r = Inr (cx\<lparr>rx_decision := Some x\<rparr>)"
proof -
  let ?rn = "rn\<lparr>rn_memory := AList.update r x (rn_memory rn)\<rparr>"
  from load_roundE [OF load] obtain row vals d c cc persisted where
    p: "round_parts tx rn r row vals d c cc persisted" and cx: "cx = round_context tx rn r row vals d c cc persisted" by blast
  have "persisted = None" using assms(2) by (auto simp: cx round_context_def split: option.splits)
  moreover have "round_parts tx ?rn r row vals d c cc persisted"
    using p load_set_frame [of ?rn rn tx] by (simp add: round_parts_def)
  ultimately show ?thesis using load_roundI by (fastforce simp: cx round_context_def update_conv')
qed

lemma load_decided_row:
  assumes tx: "texts_ok tx" and load: "load_round_context tx rn r = Inr cx"
    and s': "s' = (rn_store rn)\<lparr>st_rounds := modify_key rr_id (round_text tx r) (decided_row tx t x) (st_rounds (rn_store rn)),
      st_revisions := rv\<rparr>"
  shows "\<exists>cx'. load_round_context tx (rn\<lparr>rn_store := s'\<rparr>) r = Inr cx' \<and> rx_decision cx' = Some x \<and>
    rx_ballots cx' = rx_ballots cx \<and> rx_candidates cx' = rx_candidates cx \<and> rx_policy cx' = rx_policy cx"
proof -
  let ?rn = "rn\<lparr>rn_store := s'\<rparr>" and ?d = "decision_json tx x"
  from load_roundE [OF load] obtain row vals d c cc persisted where
    p: "round_parts tx rn r row vals d c cc persisted" and cx: "cx = round_context tx rn r row vals d c cc persisted"
    by blast
  note p = p [unfolded round_parts_def]
  let ?row = "decided_row tx t x row" and ?c = "c\<lparr>sd_decision := Some ?d\<rparr>"
  have "find_key rr_id (round_text tx r) (st_rounds s') = Some ?row"
    using p by (simp add: s' find_key_modify decided_row_def)
  moreover have "text_value (tx_read tx) (tx_json tx ?d) = Inr ?d"
    using tx json_plain_decision by (simp add: text_value_def texts_ok_def)
  moreover have "?d \<noteq> JNull" by (simp add: decision_json_def)
  then have "de_stored_round tx (JObject (round_fields ?row ?d vals)) = Some ?c"
    using p unfolding de_stored_round_def
    by (auto simp: bind_eq_Some_conv de_field_def de_opt_value round_fields_def obj_get_of decided_row_def split: if_splits)
  ultimately have "round_parts tx ?rn r ?row vals ?d ?c cc (Some x)"
    using p tx load_set_frame [of ?rn rn tx]
    by (simp add: round_parts_def s' round_ballots_def decided_row_def parse_decision_def de_decision_json)
  then show ?thesis using load_roundI by (fastforce simp: round_context_def cx)
qed

lemma load_decided:
  assumes tx: "texts_ok tx" and load: "load_round_context tx rn r = Inr cx" and undecided: "rx_decision cx = None"
    and tables: "tables_ok tx (rn_store rn)" and persist: "persist_decision tx t r project x e rn = (Inr n, rn')"
  shows "\<exists>cx'. load_round_context tx rn' r = Inr cx' \<and> rx_decision cx' = Some x \<and> rx_ballots cx' = rx_ballots cx \<and>
    rx_candidates cx' = rx_candidates cx \<and> rx_policy cx' = rx_policy cx"
proof (cases "rn_in_memory rn")
  case True
  then show ?thesis using load_decided_memory [OF load undecided] persist by (auto simp: persist_decision_def)
next
  case False
  then obtain s' where p: "persist_tx tx t r project x e (rn_store rn) = Inr (n, s')" and rn': "rn' = rn\<lparr>rn_store := s'\<rparr>"
    using persist by (auto simp: persist_decision_def split: sum.splits prod.splits)
  from persist_effect [OF p] obtain row where row: "find_key rr_id (round_text tx r) (st_rounds (rn_store rn)) = Some row"
    and eff: "(s' = rn_store rn \<and> (\<exists>old. rr_decision_json row = Some old \<and> tx_read tx old = Some (decision_json tx x))) \<or>
     (\<exists>rv. s' = rn_store rn\<lparr>st_rounds := modify_key rr_id (round_text tx r) (decided_row tx t x) (st_rounds (rn_store rn)),
        st_revisions := rv\<rparr>)" by blast
  have "rr_decision_json row = None"
  proof (rule undecided_row [OF tx tables])
    show "row \<in> set (st_rounds (rn_store rn))" using find_key_Some [OF row] by simp
    show "stored_decision tx (rr_decision_json row) (map_of (rn_memory rn) r) = Some None"
      using load_seen(1) [OF load] row undecided unfolding seen_def seen_core_def by auto
  qed
  then show ?thesis using eff load_decided_row [OF tx load] rn' by auto
qed

section \<open>A ballot that counts\<close>

lemma submit_counted:
  assumes tx: "texts_ok tx" and inv: "rounds_inv tx rn" and load: "load_round_context tx rn (ab_round_id b) = Inr cx"
    and undecided: "rx_decision cx = None"
    and adj: "adjudicate (rx_candidates cx) (rx_ballots cx) (rx_policy cx) = Inr out"
    and valid: "validate_new_ballot tx cx b = Inr ()"
    and fresh: "ballot_text tx (ab_id b) \<notin> br_id ` set (st_ballots (rn_store rn))"
    and e: "current_revision (rn_store rn) (rx_project_id cx) = e" "e + 1 < 2 ^ 63"
  shows "\<exists>p rn' cx' out'. submit_ballot tx t b e rn = (Inr p, rn') \<and> load_round_context tx rn' (ab_round_id b) = Inr cx' \<and>
    rx_candidates cx' = rx_candidates cx \<and> rx_policy cx' = rx_policy cx \<and>
    mset (rx_ballots cx') = add_mset (clip_ballot b) (mset (rx_ballots cx)) \<and>
    adjudicate (rx_candidates cx) (rx_ballots cx') (rx_policy cx) = Inr out' \<and>
    rp_completion p = completion_for out' (length (rx_ballots cx')) (unat (candidate_limit (rx_policy cx))) \<and>
    rp_decision p = (if rp_completion p = RoundPending then None else Some (ao_decision out')) \<and>
    rx_decision cx' = rp_decision p"
proof -
  let ?r = "ab_round_id b" and ?row = "ballot_row tx b"
  have b: "br_round_id ?row = round_text tx ?r" "br_id ?row = ballot_text tx (ab_id b)" by (simp_all add: ballot_row_def)
  have tables: "tables_ok tx (rn_store rn)" using inv by (simp add: rounds_inv_def)
  obtain row srow where "find_key rr_id (round_text tx ?r) (st_rounds (rn_store rn)) = Some row"
    "find_key sr_id (rr_candidate_set_id row) (st_sets (rn_store rn)) = Some srow" "rx_project_id cx = sr_project_id srow"
    using project_of_loaded [OF tx tables load] by blast
  then have "round_project (rn_store rn) (br_round_id ?row) = Inr (rx_project_id cx)" by (simp add: round_project_def b)
  then obtain s' where rec: "record_adjudication_ballot ?row e (rn_store rn) = Inr ((br_id ?row, e + 1), s')"
    using record_ok e fresh b by metis
  then obtain rv where s': "s' = (rn_store rn)\<lparr>st_ballots := st_ballots (rn_store rn) @ [?row], st_revisions := rv\<rparr>"
    using record_ballot_effect by blast
  let ?rn = "rn\<lparr>rn_store := s'\<rparr>"
  note v = new_ballot_valid [OF valid]
  have old: "seen_ballots tx (rn_store rn) ?r (rx_ballots cx)" using load_seen(1) [OF load] by (simp add: seen_def)
  obtain bs' where bs': "seen_ballots tx s' ?r bs'" and m: "mset bs' = add_mset (clip_ballot b) (mset (rx_ballots cx))"
    using reload_after_ballot [OF tx old, of s' b] v by (auto simp: s')
  obtain cx1 where load1: "load_round_context tx ?rn ?r = Inr cx1"
    using load_after_ballot [OF load _ _ _ bs'] by (auto simp: s')
  note seen1 = load_seen [OF load1]
  have undecided1: "rx_decision cx1 = None"
    using recorded_seen [OF inv b(1) load undecided rec seen1(1)] by blast
  have core: "seen_core tx rn ?r (rx_candidates cx1) (rx_policy cx1) (rx_decision cx1)"
    by (rule seen_core_frame [of rn ?rn]) (use seen1(1) in \<open>simp_all add: seen_def s' same_sets_eq\<close>)
  then have same: "rx_candidates cx1 = rx_candidates cx" "rx_policy cx1 = rx_policy cx"
    using load_seen(1) [OF load] seen_core_fun unfolding seen_def by blast+
  have "seen_ballots tx s' ?r (rx_ballots cx1)" using seen1(1) by (simp add: seen_def)
  then have bs1: "rx_ballots cx1 = bs'" using bs' unfolding seen_ballots_def by auto
  obtain out' where out': "adjudicate (rx_candidates cx) bs' (rx_policy cx) = Inr out'"
    using adjudicate_added [OF adj m] v by (auto simp: clip_valid)
  let ?c = "completion_for out' (length bs') (unat (candidate_limit (rx_policy cx)))"
  have ev: "evaluate_context tx cx1 = Inr (out', ?c)"
    using out' undecided1 seen1(2) by (simp add: evaluate_context_def same bs1 map_err_def)
  have run: "submit_ballot tx t b e rn = and_do (if completion_is_terminal ?c
      then and_do (persist_decision tx t ?r (rx_project_id cx1) (ao_decision out') (e + 1) ?rn)
        (\<lambda>revision rn. (Inr (Some (ao_decision out'), revision), rn))
      else (Inr (None, e + 1), ?rn)) (\<lambda>(decision, revision) rn.
    (Inr (progress ?r (rx_expected_ballot_count cx1) (length bs') ?c decision out' revision), rn))"
    using load undecided valid rec load1 ev
    by (simp add: submit_ballot_def Let_def and_do_read parsed_ballot store_step_def bs1)
  show ?thesis
  proof (cases "?c = RoundPending")
    case True
    then have "submit_ballot tx t b e rn =
        (Inr (progress ?r (rx_expected_ballot_count cx1) (length bs') ?c None out' (e + 1)), ?rn)"
      by (simp add: run completion_is_terminal_def)
    then show ?thesis using True load1 m out' undecided1 bs1 same
      by (intro exI conjI) (assumption | simp add: progress_def)+
  next
    case False
    obtain n rn' where p: "persist_decision tx t ?r (rx_project_id cx1) (ao_decision out') (e + 1) ?rn = (Inr n, rn')"
      using persist_after_ballot [OF tx inv b(1) rec load1 undecided1, of t "ao_decision out'"] by auto
    have "submit_ballot tx t b e rn =
        (Inr (progress ?r (rx_expected_ballot_count cx1) (length bs') ?c (Some (ao_decision out')) out' n), rn')"
      using False p by (simp add: run completion_is_terminal_def)
    moreover obtain cx' where "load_round_context tx rn' ?r = Inr cx'" "rx_decision cx' = Some (ao_decision out')"
      "rx_ballots cx' = bs'" "rx_candidates cx' = rx_candidates cx" "rx_policy cx' = rx_policy cx"
      using load_decided [OF tx load1 undecided1 _ p] recorded_keeps(1) [OF tx inv b(1) rec] bs1 same by auto
    ultimately show ?thesis using False m out'
      by (intro exI conjI) (assumption | simp add: progress_def)+
  qed
qed

end
