(* ===== verification/Rounds_Safety.thy ===== *)
theory Rounds_Safety
  imports Rounds_Demo Rounds_Submit Promo_Recovery
begin

text \<open>
  The properties of adjudication rounds: what a reachable orchestrator holds, what a submission does, when a
  round is complete, and three gaps between the round orchestrator and the rest of the Tasker.
\<close>

section \<open>Reachable orchestrators\<close>

text \<open>One operation, whether it succeeds or fails: the state it leaves is the second component.\<close>

inductive round_step :: "Texts \<Rightarrow> Runner \<Rightarrow> Runner \<Rightarrow> bool" for tx :: Texts where
  Step_open: "round_step tx rn (snd (open_round tx t r i e rn))"
| Step_submit: "round_step tx rn (snd (submit_ballot tx t b e rn))"
| Step_replay: "round_step tx rn (snd (replay_round tx t r rn))"

lemma round_step_inv: "round_step tx rn rn' \<Longrightarrow> texts_ok tx \<and> rounds_inv tx rn \<Longrightarrow> texts_ok tx \<and> rounds_inv tx rn'"
  by (induction rule: round_step.induct) (simp_all add: inv_open inv_submit inv_replay)

interpretation rounds: invariant_system "round_step tx" "\<lambda>rn. texts_ok tx \<and> rounds_inv tx rn" for tx
  by unfold_locales (rule round_step_inv)

text \<open>A store without rounds, whose projects have typed identifiers.\<close>

definition fresh_rounds :: "Texts \<Rightarrow> Store \<Rightarrow> bool" where
  "fresh_rounds tx s \<longleftrightarrow> st_rounds s = [] \<and> st_ballots s = [] \<and>
     (\<forall>row \<in> set (st_sets s). \<exists>j. sr_project_id row = typed_id_display ''proj_'' (tx_uuid tx) j)"

lemma reachable_rounds:
  assumes "texts_ok tx" and "fresh_rounds tx s" and "(round_step tx)\<^sup>*\<^sup>* (new_runner m s) rn"
  shows "rounds_inv tx rn"
  using rounds.steps_inv [OF assms(3)] assms(1,2) rounds_inv_new [of s tx m] by (auto simp: fresh_rounds_def)

lemma round_state:
  assumes "texts_ok tx" and "rounds_inv tx rn" and load: "load_round_context tx rn r = Inr cx"
    and out: "adjudicate (rx_candidates cx) (rx_ballots cx) (rx_policy cx) = Inr out"
  shows "length (rx_ballots cx) \<le> rx_expected_ballot_count cx \<and>
    (case rx_decision cx of
       Some d \<Rightarrow> d = ao_decision out \<and> completion_for out (length (rx_ballots cx)) (rx_expected_ballot_count cx) \<noteq> RoundPending
     | None \<Rightarrow> rx_ballots cx = [] \<or>
         completion_for out (length (rx_ballots cx)) (rx_expected_ballot_count cx) = RoundPending) \<and>
    evaluate_context tx cx = Inr (out, completion_for out (length (rx_ballots cx)) (rx_expected_ballot_count cx))"
proof -
  note s = load_seen [OF load]
  have fine: "fine (rx_candidates cx) (rx_ballots cx) (rx_policy cx) (rx_decision cx)"
    by (rule rounds_inv_fine [OF assms(2) s(1)])
  then have "rx_decision cx = None \<or> rx_decision cx = Some (ao_decision out)"
    using out by (auto simp: fine_def split: option.splits)
  then have "evaluate_context tx cx = Inr (out, completion_for out (length (rx_ballots cx)) (rx_expected_ballot_count cx))"
    using out by (auto simp: evaluate_context_def map_err_def)
  then show ?thesis using fine out unfolding s(2) fine_def by blast
qed

section \<open>What the orchestrator guarantees\<close>

text \<open>C18 In every state the orchestrator reaches from a store without rounds by opening, submitting and
  replaying, in any order and with any failures, a round that loads and whose ballots adjudicate has at most
  as many ballots as slots; if it is decided, the decision is the adjudication of exactly the stored ballots
  and the round was complete; if it is undecided, it has no ballot or is still pending. So a replay never
  finds drift.\<close>

theorem round_invariant:
  assumes "texts_ok tx" and "fresh_rounds tx s" and "(round_step tx)\<^sup>*\<^sup>* (new_runner m s) rn"
    and "load_round_context tx rn r = Inr cx"
    and "adjudicate (rx_candidates cx) (rx_ballots cx) (rx_policy cx) = Inr out"
  shows "length (rx_ballots cx) \<le> rx_expected_ballot_count cx \<and>
    (case rx_decision cx of
       Some d \<Rightarrow> d = ao_decision out \<and> completion_for out (length (rx_ballots cx)) (rx_expected_ballot_count cx) \<noteq> RoundPending
     | None \<Rightarrow> rx_ballots cx = [] \<or>
         completion_for out (length (rx_ballots cx)) (rx_expected_ballot_count cx) = RoundPending) \<and>
    evaluate_context tx cx = Inr (out, completion_for out (length (rx_ballots cx)) (rx_expected_ballot_count cx))"
  by (rule round_state [OF assms(1) reachable_rounds [OF assms(1-3)] assms(4,5)])

text \<open>C19 A ballot that passes validation, carries a fresh id and names the current revision is counted: the
  submission succeeds, the round loads again with exactly that ballot added (its notes cut to 2000
  characters), the reported completion is that of the new ballots, and the decision is reported and stored
  exactly when the round is complete.\<close>

theorem submit_ballot_outcome:
  assumes "texts_ok tx" and "fresh_rounds tx s" and "(round_step tx)\<^sup>*\<^sup>* (new_runner m s) rn"
    and "load_round_context tx rn (ab_round_id b) = Inr cx" and "rx_decision cx = None"
    and "adjudicate (rx_candidates cx) (rx_ballots cx) (rx_policy cx) = Inr out"
    and "validate_new_ballot tx cx b = Inr ()"
    and "ballot_text tx (ab_id b) \<notin> br_id ` set (st_ballots (rn_store rn))"
    and "current_revision (rn_store rn) (rx_project_id cx) = e" and "e + 1 < 2 ^ 63"
  shows "\<exists>p rn' cx' out'. submit_ballot tx t b e rn = (Inr p, rn') \<and> load_round_context tx rn' (ab_round_id b) = Inr cx' \<and>
    rx_candidates cx' = rx_candidates cx \<and> rx_policy cx' = rx_policy cx \<and>
    mset (rx_ballots cx') = add_mset (clip_ballot b) (mset (rx_ballots cx)) \<and>
    adjudicate (rx_candidates cx) (rx_ballots cx') (rx_policy cx) = Inr out' \<and>
    rp_completion p = completion_for out' (length (rx_ballots cx')) (unat (candidate_limit (rx_policy cx))) \<and>
    rp_decision p = (if rp_completion p = RoundPending then None else Some (ao_decision out')) \<and>
    rx_decision cx' = rp_decision p"
  using submit_counted [OF assms(1) reachable_rounds [OF assms(1-3)] assms(4-10)] .

text \<open>C21 What the store keeps of a ballot: the orchestrator's JSON always parses into a row, and the value
  read back from that row is the ballot with its notes cut to 2000 characters.\<close>

theorem ballot_roundtrip:
  assumes "texts_ok tx"
  shows "\<exists>row v. parse_ballot (tx_json tx) t (ballot_json tx b) = Inr row \<and> ballot_value (tx_read tx) row = Inr v \<and>
    de_stored_ballot tx v = Some (clip_ballot b)"
  using parsed_ballot [of tx t b] read_ballot [OF assms, of b] by blast

text \<open>C20 A round is complete exactly when it has selected a candidate or no ballots that still fit its slots
  could make it select one, in particular when its slots are full: completion is neither early nor late.\<close>

theorem round_completion_spec:
  assumes out: "adjudicate cs bs policy = Inr out" and n: "length bs \<le> n" "n \<le> 2 ^ 128"
  shows "completion_is_terminal (completion_for out (length bs) n) \<longleftrightarrow>
    (\<exists>c. ao_decision out = PolSelect c) \<or> (\<forall>later. length (bs @ later) \<le> n \<longrightarrow> \<not> selects cs (bs @ later) policy)"
proof
  assume "completion_is_terminal (completion_for out (length bs) n)"
  then show "(\<exists>c. ao_decision out = PolSelect c) \<or> (\<forall>later. length (bs @ later) \<le> n \<longrightarrow> \<not> selects cs (bs @ later) policy)"
    using terminal_is_final [OF out n(1)] by blast
next
  assume final: "(\<exists>c. ao_decision out = PolSelect c) \<or> (\<forall>later. length (bs @ later) \<le> n \<longrightarrow> \<not> selects cs (bs @ later) policy)"
  show "completion_is_terminal (completion_for out (length bs) n)"
  proof (rule ccontr)
    assume "\<not> completion_is_terminal (completion_for out (length bs) n)"
    then have pending: "completion_for out (length bs) n = RoundPending" by (simp add: completion_is_terminal_def)
    then have "\<not> (\<exists>c. ao_decision out = PolSelect c)"
      unfolding completion_reasons [OF out n(1)] by (auto split: if_splits)
    then show False using final pending_can_select [OF out n pending] by blast
  qed
qed

section \<open>Gaps\<close>

text \<open>A store in which no candidate may be adjudicated.\<close>

definition unvalidated :: "Store \<Rightarrow> bool" where
  "unvalidated s \<longleftrightarrow> (\<forall>c \<in> set (st_candidates s). cr_state c \<notin> {''eligible'', ''selected''})"

text \<open>A transaction of the store whose new candidates are not registered in one of these states.\<close>

definition authoring_tx :: "Store \<Rightarrow> Store \<Rightarrow> bool" where
  "authoring_tx s s' \<longleftrightarrow> store_tx s s' \<and> (\<forall>c \<in> set (st_candidates s').
     cr_id c \<in> cr_id ` set (st_candidates s) \<or> cr_state c \<notin> {''eligible'', ''selected''})"

lemma update_states:
  "c \<in> set (modify_key cr_id i f rows) \<Longrightarrow> (\<And>q. cr_state (f q) = st) \<Longrightarrow> c \<in> set rows \<or> cr_state c = st"
  using set_modify_key_subset [of cr_id i f rows] by auto

lemma promoted_states:
  "c \<in> set (modify_key cr_id i (\<lambda>c. c\<lparr>cr_state := ''promoted'', cr_updated_at := t\<rparr>) rows) \<Longrightarrow>
   c \<in> set rows \<or> cr_state c = ''promoted''"
  using set_modify_key_subset [of cr_id i "\<lambda>c. c\<lparr>cr_state := ''promoted'', cr_updated_at := t\<rparr>" rows] by auto

lemma store_tx_states:
  assumes "store_tx s s'" and "c \<in> set (st_candidates s')"
  shows "c \<in> set (st_candidates s) \<or> cr_state c \<in> {''submitted'', ''promoted''} \<or> cr_id c \<notin> cr_id ` set (st_candidates s)"
  using assms(1)
proof (cases rule: store_tx.cases)
  case (Tx_register d e m)
  then show ?thesis using assms(2)
    by (auto simp: register_candidate_def and_then_Inr insert_row_def split: if_splits dest!: bump_candidates ensure_tables(2))
next
  case (Tx_submit t d ev e m)
  from submit_rows [OF this] obtain d' where st: "cr_state d' = ''submitted''"
    and rows: "case find_key cr_id (cr_id d') (st_candidates s) of
      Some existing \<Rightarrow> \<not> candidate_state_is_immutable (cr_state existing) \<and>
        st_candidates s' = modify_key cr_id (cr_id d') (update_candidate d') (st_candidates s)
    | None \<Rightarrow> insert_row cr_id d' (st_candidates s) = Inr (st_candidates s')" by blast
  have "cr_state (update_candidate d' q) = ''submitted''" for q by (simp add: update_candidate_def st)
  then show ?thesis using assms(2) rows st update_states [of c "cr_id d'" "update_candidate d'" "st_candidates s"]
    by (cases "find_key cr_id (cr_id d') (st_candidates s)") (auto simp: insert_row_iff)
next
  case (Tx_finalize t j e m)
  then show ?thesis using assms(2) unfolding finalize_promotion_def
    by (auto simp: and_then_Inr finalize_promotion_tx_eq split: if_splits
        dest!: bump_candidates ensure_tables(2) dest: promoted_states)
qed (use assms(2) other_tx_keeps_candidates in auto)

lemma unvalidated_step: "authoring_tx s s' \<Longrightarrow> unvalidated s \<Longrightarrow> unvalidated s'"
  using store_tx_states unfolding authoring_tx_def unvalidated_def by fastforce

interpretation authoring: invariant_system authoring_tx unvalidated
  by unfold_locales (rule unvalidated_step)

lemma loaded_candidates:
  assumes "load_round_context tx rn r = Inr cx" and "x \<in> set (rx_candidates cx)"
  shows "\<exists>row \<in> set (st_candidates (rn_store rn)). map_of candidate_states (cr_state row) = Some (cd_state x) \<and>
    de_id tx ''cand_'' (JString (cr_id row)) = Some (cd_id x)"
proof -
  from load_seen(1) [OF assms(1)] obtain i vals where
    vals: "collect_results (candidate_value (tx_read tx)) (set_candidates (rn_store rn) (set_text tx i)) = Inr vals"
      "de_all (de_stored_candidate tx) vals = Some (rx_candidates cx)"
    unfolding seen_def seen_core_def by blast
  have "map Some (rx_candidates cx) = map (\<lambda>row. case candidate_value (tx_read tx) row of Inr v \<Rightarrow> de_stored_candidate tx v
      | Inl _ \<Rightarrow> None) (set_candidates (rn_store rn) (set_text tx i))"
    using collected_decode [OF vals] by simp
  then have "Some x \<in> set (map (\<lambda>row. case candidate_value (tx_read tx) row of Inr v \<Rightarrow> de_stored_candidate tx v
      | Inl _ \<Rightarrow> None) (set_candidates (rn_store rn) (set_text tx i)))"
    using assms(2) by (metis image_eqI list.set_map)
  then obtain row v where row: "row \<in> set (st_candidates (rn_store rn))" "candidate_value (tx_read tx) row = Inr v"
    "de_stored_candidate tx v = Some x"
    by (auto simp: set_candidates_def split: sum.splits)
  then have "map_of candidate_states (cr_state row) = Some (cd_state x) \<and> de_id tx ''cand_'' (JString (cr_id row)) = Some (cd_id x)"
    by (auto simp: candidate_value_def and_then_Inr de_stored_candidate_def bind_eq_Some_conv json_read de_enum_def)
  then show ?thesis using row(1) by blast
qed

lemma adjudicable_state:
  "map_of candidate_states st = Some cs \<Longrightarrow> is_eligible_for_adjudication cs \<longleftrightarrow> st \<in> {''eligible'', ''selected''}"
  by (auto simp: candidate_states_def is_eligible_for_adjudication_def split: if_splits)

text \<open>C22 No transaction of the store ever makes a candidate adjudicable: from a store in which no candidate is
  eligible or selected, whatever is created, registered (not already as eligible), submitted, moved between set
  states, recorded, promoted or rolled back, every round that loads and adjudicates selects nobody and is
  complete for want of an eligible candidate, whatever its ballots say.\<close>

theorem no_selection_without_eligible:
  assumes "unvalidated s" and "authoring_tx\<^sup>*\<^sup>* s s'" and store: "rn_store rn = s'"
    and load: "load_round_context tx rn r = Inr cx"
    and out: "adjudicate (rx_candidates cx) (rx_ballots cx) (rx_policy cx) = Inr out"
  shows "(\<forall>c. ao_decision out \<noteq> PolSelect c) \<and> completion_for out n k = RoundNoEligible"
proof -
  have "unvalidated (rn_store rn)" using authoring.steps_inv [OF assms(2,1)] store by simp
  then have none: "\<not> gated (rx_ballots cx) x" if "x \<in> set (rx_candidates cx)" for x
    using loaded_candidates [OF load that] adjudicable_state unfolding unvalidated_def gated_def by metis
  then have sel: "\<forall>c. ao_decision out \<noteq> PolSelect c" using selection_facts [OF out] by blast
  then have "selected_candidate_id out = None" by (cases "ao_decision out") (simp_all add: selected_candidate_id_def)
  moreover have "filter ct_hard_gate_passed (ao_candidate_tallies out) = []"
    using tally_of [OF out, of "\<lambda>_. True"] none by (auto simp: filter_empty_conv)
  ultimately show ?thesis using sel by (simp add: completion_for_def)
qed

text \<open>C23 A round cannot be replayed or shown once the candidate it selected is promoted: finalizing the
  promotion moves the candidate out of the adjudicable states, so adjudicating the same ballots no longer
  yields the stored decision and both operations fail.\<close>

theorem promoted_round_unreadable:
  assumes intent: "promotion_intent (rn_store rn) j = Some row" "pw_state row = ''ref_updated''"
      "pw_candidate_id row = typed_id_display ''cand_'' (tx_uuid tx) c"
    and rows: "distinct (map cr_id (st_candidates (rn_store rn)))"
      "\<forall>q \<in> set (st_candidates (rn_store rn)). \<exists>i. cr_id q = typed_id_display ''cand_'' (tx_uuid tx) i"
    and tx: "texts_ok tx" and fin: "finalize_promotion u j e (rn_store rn) = Inr (m, s')"
    and load: "load_round_context tx (rn\<lparr>rn_store := s'\<rparr>) r = Inr cx" and dec: "rx_decision cx = Some (PolSelect c)"
  shows "\<exists>err. replay_round tx t r (rn\<lparr>rn_store := s'\<rparr>) = (Inl err, rn\<lparr>rn_store := s'\<rparr>) \<and>
    round_status tx (rn\<lparr>rn_store := s'\<rparr>) r limit = Inl err"
proof -
  let ?f = "\<lambda>q. q\<lparr>cr_state := ''promoted'', cr_updated_at := u\<rparr>"
  have cands: "st_candidates s' = modify_key cr_id (pw_candidate_id row) ?f (st_candidates (rn_store rn))"
    using fin intent(1,2) unfolding finalize_promotion_def promotion_intent_def
    by (auto simp: load_promotion_tx_def and_then_Inr finalize_promotion_tx_eq insert_promotion_event_def
        update_promotion_def dest!: bump_candidates ensure_tables(2))
  have promoted: "cd_state x = Promoted" if "x \<in> set (rx_candidates cx)" "cd_id x = c" for x
  proof -
    note x = that
    obtain q where q: "q \<in> set (st_candidates s')" "map_of candidate_states (cr_state q) = Some (cd_state x)"
      "de_id tx ''cand_'' (JString (cr_id q)) = Some c"
      using loaded_candidates [OF load x(1)] x(2) by auto
    then obtain q0 where q0: "q0 \<in> set (st_candidates (rn_store rn))"
      "q = (if cr_id q0 = pw_candidate_id row then ?f q0 else q0)"
      unfolding cands modify_key_map [OF rows(1)] by auto
    then obtain i where i: "cr_id q0 = typed_id_display ''cand_'' (tx_uuid tx) i" using rows(2) by blast
    have "cr_id q = cr_id q0" using q0(2) by simp
    then have "i = c" using q(3) i tx by simp
    then have "q = ?f q0" using q0(2) i intent(3) by simp
    then show ?thesis using q(2) by (simp add: candidate_states_def)
  qed
  have "\<exists>err. evaluate_context tx cx = Inl err"
  proof (cases "adjudicate (rx_candidates cx) (rx_ballots cx) (rx_policy cx)")
    case (Inl err)
    then show ?thesis by (simp add: evaluate_context_def map_err_def)
  next
    case (Inr out)
    have "ao_decision out \<noteq> PolSelect c"
    proof
      assume "ao_decision out = PolSelect c"
      then obtain x where "x \<in> set (rx_candidates cx)" "cd_id x = c" "gated (rx_ballots cx) x"
        using selection_facts [OF Inr] by blast
      then show False using promoted by (auto simp: gated_def is_eligible_for_adjudication_def)
    qed
    then show ?thesis using Inr dec by (simp add: evaluate_context_def map_err_def)
  qed
  then show ?thesis using load by (auto simp: replay_round_def round_status_def and_do_read)
qed

definition camel_policy :: "nat \<Rightarrow> Json" where
  "camel_policy n = JObject (obj_of [(''kind'', JString ''speculative''), (''maxCandidates'', json_nat n)])"

lemma create_row:
  assumes "create_candidate_set d e s = Inr (m, s')"
  shows "\<exists>row. sr_id row = sd_id d \<and> sr_policy_json row = sd_policy d \<and> st_sets s' = st_sets s @ [row] \<and>
    sd_id d \<notin> sr_id ` set (st_sets s)"
proof -
  let ?row = "\<lparr>sr_id = sd_id d, sr_project_id = sd_project_id d, sr_task_id = sd_task_id d,
            sr_base_revision = sd_base_revision d, sr_base_commit = sd_base_commit d,
            sr_acceptance_digest = sd_acceptance_digest d, sr_policy_json = sd_policy d,
            sr_policy_version = sd_policy_version d, sr_state = sd_state d, sr_created_at = sd_created_at d,
            sr_updated_at = sd_created_at d\<rparr>"
  obtain s1 a s2 r where "ensure_revision s (sd_project_id d) e = Inr (s1, a)"
    "sd_id d \<notin> sr_id ` set (st_sets s1)"
    "bump_revision (s1\<lparr>st_sets := st_sets s1 @ [?row]\<rparr>) (sd_project_id d) a = Inr (s2, r)" "s' = s2"
    using assms by (auto simp: create_candidate_set_def and_then_Inr insert_row_iff split: if_splits)
  then show ?thesis by (intro exI [of _ ?row]) (auto dest!: revisions_only)
qed

text \<open>A policy in camel case passes the store's validation, is stored as it is and can never be read by the
  orchestrator: every attempt to open a round over the set fails and changes nothing.\<close>

theorem camel_policy_never_opens:
  assumes tx: "texts_ok tx" and input: "as_object v = Some entries" "obj_get entries ''policy'' = Some (camel_policy n)"
    and n: "0 < n" and parsed: "parse_candidate_set (tx_json tx) u v = Inr d" and id: "sd_id d = set_text tx i"
    and made: "create_candidate_set d e0 s = Inr (m, s')" and store: "rn_store rn = s'"
  shows "validate_policy (camel_policy n) = Inr () \<and> open_round tx t r i e rn = (Inl RnJson, rn)"
proof -
  have valid: "validate_policy (camel_policy n) = Inr ()"
    using n by (simp add: validate_policy_def camel_policy_def get_any_def obj_get_of)
  have policy: "sd_policy d = tx_json tx (camel_policy n)"
    using parsed input by (auto simp: parse_candidate_set_def and_then_Inr Let_def object_of_def required_value_def)
  obtain row where "sr_id row = set_text tx i" "st_sets s' = st_sets s @ [row]" "set_text tx i \<notin> sr_id ` set (st_sets s)"
    and policy_text: "sr_policy_json row = tx_json tx (camel_policy n)"
    using create_row [OF made] id policy by auto
  then have row: "find_key sr_id (set_text tx i) (st_sets s') = Some row"
    by (simp add: find_key_append find_key_None_iff [symmetric])
  have "json_plain (camel_policy n)" unfolding camel_policy_def by (rule json_plain_of) simp
  then have read: "tx_read tx (sr_policy_json row) = Some (camel_policy n)" using policy_text tx by (simp add: texts_ok_def)
  obtain w where w: "candidate_set_value (tx_read tx) row = Inr w" "de_stored_set tx w = None"
  proof -
    have "de_policy (camel_policy n) = None" by (simp add: de_policy_def camel_policy_def json_read)
    then show thesis using that read
      by (simp add: candidate_set_value_def text_value_def de_stored_set_def json_read bind_eq_None_conv)
  qed
  then have "load_candidate_set_context tx rn i = Inl RnJson"
    using row w store by (simp add: load_candidate_set_context_def get_candidate_set_def lookup_value_def map_err_def ok_or_def)
  then show ?thesis using valid by (simp add: open_round_def and_do_read)
qed

section \<open>Witnesses\<close>

definition demo_ready :: "bool \<Rightarrow> string \<Rightarrow> Runner" where
  "demo_ready m cst = new_runner m (demo_opened demo_texts cst ''now'')"

lemma demo_fresh: "fresh_rounds demo_texts (demo_store demo_texts cst)"
  by (simp add: fresh_rounds_def demo_store_def demo_set_row_def) blast

lemma demo_ready_reached:
  "map_of candidate_states cst = Some cs \<Longrightarrow>
   (round_step demo_texts)\<^sup>*\<^sup>* (new_runner m (demo_store demo_texts cst)) (demo_ready m cst)"
  using Step_open [of demo_texts "new_runner m (demo_store demo_texts cst)" "''now''" 3 1 0] demo_open [OF demo_texts_ok]
  by (auto simp: demo_ready_def)

lemma demo_ready_loads:
  "map_of candidate_states cst = Some cs \<Longrightarrow>
   load_round_context demo_texts (demo_ready m cst) 3 = Inr (demo_round demo_texts cs ''now'')"
  unfolding demo_ready_def by (rule demo_round_loads [OF demo_texts_ok])

lemma demo_eligible: "map_of candidate_states ''eligible'' = Some Eligible"
  by (simp add: candidate_states_def)

lemma demo_vote_round: "ab_round_id demo_vote = 3" "ab_id demo_vote = 5"
  by (simp_all add: demo_vote_def)

lemma demo_round_fields:
  "rx_candidates (demo_round tx cs t) = [demo_loaded cs]" "rx_policy (demo_round tx cs t) = Exclusive"
  "rx_ballots (demo_round tx cs t) = []" "rx_decision (demo_round tx cs t) = None"
  "rx_project_id (demo_round tx cs t) = typed_id_display ''proj_'' (tx_uuid tx) 9"
  by (simp_all add: demo_round_def)

lemma demo_ready_store:
  "st_ballots (rn_store (demo_ready m cst)) = []"
  "current_revision (rn_store (demo_ready m cst)) (typed_id_display ''proj_'' (tx_uuid demo_texts) 9) = 2"
  by (simp_all add: demo_ready_def new_runner_def demo_opened_def demo_store_def current_revision_def)

text \<open>The vote for the only candidate selects it: the round is decided after one ballot.\<close>

lemma demo_selected:
  assumes "adjudicate [demo_loaded Eligible] [demo_vote] Exclusive = Inr out"
  shows "ao_decision out = PolSelect 2" and "completion_for out 1 n = RoundQuorumReached"
proof -
  have facts: "gated [demo_vote] (demo_loaded Eligible)" "approvals [demo_vote] 2 = 1" by code_simp+
  have "policy_parameters Exclusive = Inr (1, 1)" by code_simp
  then have "ao_required_quorum out = 1" using adjudicate_counts(4) [OF assms] by auto
  then show sel: "ao_decision out = PolSelect 2"
    using selection_facts [OF assms] facts by (auto simp: demo_loaded_def)
  show "completion_for out 1 n = RoundQuorumReached" by (simp add: completion_for_def selected_candidate_id_def sel)
qed

theorem submit_ballot_outcome_witness:
  "\<exists>p rn. submit_ballot demo_texts ''later'' demo_vote 2 (demo_ready False ''eligible'') = (Inr p, rn) \<and>
     rp_completion p = RoundQuorumReached \<and> rp_decision p = Some (PolSelect 2)"
proof -
  note l = demo_ready_loads [OF demo_eligible, of False] and v = demo_vote_facts
  obtain out where out: "adjudicate [demo_loaded Eligible] [] Exclusive = Inr out" using v(2) by blast
  have fresh: "ballot_text demo_texts 5 \<notin> br_id ` set (st_ballots (rn_store (demo_ready False ''eligible'')))"
    by (simp add: demo_ready_store)
  have small: "2 + 1 < (2 :: nat) ^ 63" by simp
  from submit_ballot_outcome [OF demo_texts_ok demo_fresh demo_ready_reached [OF demo_eligible], of False demo_vote
      "demo_round demo_texts Eligible ''now''", unfolded demo_vote_round demo_round_fields,
      OF l refl out v(1) fresh demo_ready_store(2) small, of "''later''"]
  obtain p rn cx' out' where r: "submit_ballot demo_texts ''later'' demo_vote 2 (demo_ready False ''eligible'') = (Inr p, rn)"
    and "load_round_context demo_texts rn 3 = Inr cx'" and m: "mset (rx_ballots cx') = add_mset (clip_ballot demo_vote) (mset [])"
    and out': "adjudicate [demo_loaded Eligible] (rx_ballots cx') Exclusive = Inr out'"
    and p: "rp_completion p = completion_for out' (length (rx_ballots cx')) (unat (candidate_limit Exclusive))"
      "rp_decision p = (if rp_completion p = RoundPending then None else Some (ao_decision out'))"
    by blast
  have b: "rx_ballots cx' = [demo_vote]" using m v(3) by simp
  have "adjudicate [demo_loaded Eligible] [demo_vote] Exclusive = Inr out'" using out' b by simp
  note sel = demo_selected [OF this]
  have "rp_completion p = RoundQuorumReached" using p(1) sel(2) by (simp add: b)
  then show ?thesis using r p(2) sel(1) by auto
qed

lemma demo_decided:
  "\<exists>rn cx out. (round_step demo_texts)\<^sup>*\<^sup>* (new_runner False (demo_store demo_texts ''eligible'')) rn \<and>
     load_round_context demo_texts rn 3 = Inr cx \<and> rx_ballots cx = [demo_vote] \<and>
     adjudicate (rx_candidates cx) (rx_ballots cx) (rx_policy cx) = Inr out \<and> rx_decision cx = Some (PolSelect 2) \<and>
     ao_decision out = PolSelect 2"
proof -
  let ?rn = "demo_ready False ''eligible''"
  note reached = demo_ready_reached [OF demo_eligible, of False]
  obtain out where out: "adjudicate [demo_loaded Eligible] [] Exclusive = Inr out" using demo_vote_facts(2) by blast
  have fresh: "ballot_text demo_texts 5 \<notin> br_id ` set (st_ballots (rn_store ?rn))" by (simp add: demo_ready_store)
  have small: "2 + 1 < (2 :: nat) ^ 63" by simp
  from submit_counted [OF demo_texts_ok reachable_rounds [OF demo_texts_ok demo_fresh reached], of demo_vote
      "demo_round demo_texts Eligible ''now''", unfolded demo_vote_round demo_round_fields,
      OF demo_ready_loads [OF demo_eligible] refl out demo_vote_facts(1) fresh demo_ready_store(2) small, of "''later''"]
  obtain p rn cx out' where r: "submit_ballot demo_texts ''later'' demo_vote 2 ?rn = (Inr p, rn)"
    and l: "load_round_context demo_texts rn 3 = Inr cx" and same: "rx_candidates cx = [demo_loaded Eligible]" "rx_policy cx = Exclusive"
    and m: "mset (rx_ballots cx) = add_mset (clip_ballot demo_vote) (mset [])"
    and out': "adjudicate [demo_loaded Eligible] (rx_ballots cx) Exclusive = Inr out'"
    and p: "rp_completion p = completion_for out' (length (rx_ballots cx)) (unat (candidate_limit Exclusive))"
      "rp_decision p = (if rp_completion p = RoundPending then None else Some (ao_decision out'))"
      "rx_decision cx = rp_decision p" by blast
  have b: "rx_ballots cx = [demo_vote]" using m demo_vote_facts(3) by simp
  have o: "adjudicate [demo_loaded Eligible] [demo_vote] Exclusive = Inr out'" using out' b by simp
  note sel = demo_selected [OF o]
  have "rp_completion p = RoundQuorumReached" using p(1) sel(2) by (simp add: b)
  then have "rx_decision cx = Some (PolSelect 2)" using p(2,3) sel(1) by simp
  moreover have "round_step demo_texts ?rn rn"
    using Step_submit [of demo_texts ?rn "''later''" demo_vote 2] r by simp
  then have "(round_step demo_texts)\<^sup>*\<^sup>* (new_runner False (demo_store demo_texts ''eligible'')) rn"
    by (rule rtranclp.rtrancl_into_rtrancl [OF reached])
  ultimately show ?thesis using l same b o sel(1)
    by (intro exI [of _ rn] exI [of _ cx] exI [of _ out']) simp
qed

theorem round_invariant_witness:
  "\<exists>rn cx out. (round_step demo_texts)\<^sup>*\<^sup>* (new_runner False (demo_store demo_texts ''eligible'')) rn \<and>
     load_round_context demo_texts rn 3 = Inr cx \<and> rx_ballots cx = [demo_vote] \<and> rx_decision cx = Some (PolSelect 2) \<and>
     1 \<le> rx_expected_ballot_count cx \<and> evaluate_context demo_texts cx =
       Inr (out, completion_for out (length (rx_ballots cx)) (rx_expected_ballot_count cx))"
proof -
  obtain rn cx out where r: "(round_step demo_texts)\<^sup>*\<^sup>* (new_runner False (demo_store demo_texts ''eligible'')) rn"
    "load_round_context demo_texts rn 3 = Inr cx" "rx_ballots cx = [demo_vote]"
    "adjudicate (rx_candidates cx) (rx_ballots cx) (rx_policy cx) = Inr out" "rx_decision cx = Some (PolSelect 2)"
    using demo_decided by blast
  show ?thesis
    using round_invariant [OF demo_texts_ok demo_fresh r(1,2,4)] r
    by (intro exI [of _ rn] exI [of _ cx] exI [of _ out]) simp
qed

theorem ballot_roundtrip_witness:
  "\<exists>row v. parse_ballot (tx_json demo_texts) ''now'' (ballot_json demo_texts demo_vote) = Inr row \<and>
     ballot_value (tx_read demo_texts) row = Inr v \<and> de_stored_ballot demo_texts v = Some demo_vote"
  using ballot_roundtrip [OF demo_texts_ok, of "''now''" demo_vote] demo_vote_facts(3) by simp

text \<open>One approval of two: the second ballot can still select, so the round is pending.\<close>

theorem round_completion_spec_witness:
  "\<exists>out. adjudicate demo_candidates [demo_ballot 7 False [(1, True)]] (Ensemble 2 2) = Inr out \<and>
     \<not> completion_is_terminal (completion_for out 1 2)"
proof -
  let ?b = "demo_ballot 7 False [(1, True)]" and ?later = "[demo_ballot 6 False [(1, True)]]"
  have v: "validate_round demo_candidates [?b] = Inr ()" "policy_parameters (Ensemble 2 2) = Inr (2, 2)"
    "validate_round demo_candidates ([?b] @ ?later) = Inr ()" by code_simp+
  obtain out where out: "adjudicate demo_candidates [?b] (Ensemble 2 2) = Inr out" using adjudicate_ok [OF v(2,1)] by blast
  have facts: "\<exists>c \<in> set demo_candidates. gated ([?b] @ ?later) c \<and> unat (2 :: 16 word) \<le> approvals ([?b] @ ?later) (cd_id c)"
    "\<not> (\<exists>c \<in> set demo_candidates. gated [?b] c \<and> unat (2 :: 16 word) \<le> approvals [?b] (cd_id c))" by code_simp+
  have "selects demo_candidates ([?b] @ ?later) (Ensemble 2 2)" using v facts(1) by (auto simp: selects_iff)
  moreover have "\<not> selects demo_candidates [?b] (Ensemble 2 2)" using v facts(2) by (auto simp: selects_iff)
  then have "\<not> (\<exists>c. ao_decision out = PolSelect c)" using out by (auto simp: selects_def)
  ultimately have "\<not> completion_is_terminal (completion_for out (length [?b]) 2)"
    using round_completion_spec [OF out, of 2] by fastforce
  then show ?thesis using out by auto
qed

text \<open>A set moves to adjudication and a round is recorded; its only candidate is submitted.\<close>

theorem no_selection_without_eligible_witness:
  "\<exists>out. adjudicate [demo_loaded Submitted] [] Exclusive = Inr out \<and> completion_for out 0 1 = RoundNoEligible"
proof -
  let ?tx = demo_texts and ?st = "''submitted''"
  have st: "map_of candidate_states ?st = Some Submitted" by (simp add: candidate_states_def)
  have start: "unvalidated (demo_store ?tx ?st)" by (simp add: unvalidated_def demo_store_def demo_candidate_row_def)
  have "authoring_tx (demo_store ?tx ?st) (demo_adjudicating ?tx ?st ''now'')"
    using Tx_set_state [OF demo_set_adjudicating [of "''now''" ?tx ?st]]
    by (simp add: authoring_tx_def demo_store_def demo_adjudicating_def)
  moreover have "authoring_tx (demo_adjudicating ?tx ?st ''now'') (demo_opened ?tx ?st ''now'')"
    using Tx_round [OF demo_round_recorded [of ?tx "''now''" ?st]]
    by (simp add: authoring_tx_def demo_store_def demo_adjudicating_def demo_opened_def)
  ultimately have path: "authoring_tx\<^sup>*\<^sup>* (demo_store ?tx ?st) (demo_opened ?tx ?st ''now'')" by simp
  obtain out where out: "adjudicate [demo_loaded Submitted] [] Exclusive = Inr out" using demo_vote_facts(2) by blast
  have store: "rn_store (demo_ready False ?st) = demo_opened ?tx ?st ''now''" by (simp add: demo_ready_def new_runner_def)
  show ?thesis
    using no_selection_without_eligible [OF start path store demo_ready_loads [OF st], unfolded demo_round_fields, OF out]
      out by blast
qed

definition demo_intent :: PromotionRow where
  "demo_intent = \<lparr>pw_id = ''p1'', pw_project_id = typed_id_display ''proj_'' (tx_uuid demo_texts) 9, pw_task_id = ''task'',
     pw_candidate_set_id = set_text demo_texts 1, pw_candidate_id = typed_id_display ''cand_'' (tx_uuid demo_texts) 2,
     pw_expected_revision = 2, pw_expected_commit = ''base'', pw_target_commit = ''result'',
     pw_canonical_ref = ''refs/heads/main'', pw_state = ''ref_updated'', pw_created_at = ''now'', pw_updated_at = ''now'',
     pw_finalized_at = None, pw_conflict_reason = None\<rparr>"

text \<open>A decided round of an in-memory orchestrator whose winner waits for the end of its promotion.\<close>

definition demo_promoting :: Runner where
  "demo_promoting = \<lparr>rn_store = (demo_opened demo_texts ''eligible'' ''now'')\<lparr>st_promotions := [demo_intent]\<rparr>,
     rn_memory = [(3, PolSelect 2)], rn_in_memory = True\<rparr>"

definition demo_promoted :: Store where
  "demo_promoted = (case finalize_promotion (tx_time demo_texts 0) ''p1'' 2 (rn_store demo_promoting) of
     Inr (_, s) \<Rightarrow> s | Inl _ \<Rightarrow> rn_store demo_promoting)"

theorem promoted_round_unreadable_witness:
  "\<exists>err. replay_round demo_texts ''later'' 3 (demo_promoting\<lparr>rn_store := demo_promoted\<rparr>) =
     (Inl err, demo_promoting\<lparr>rn_store := demo_promoted\<rparr>)"
proof -
  let ?tx = demo_texts and ?u = "tx_time demo_texts 0" and ?s = "rn_store demo_promoting"
  obtain m where fin: "finalize_promotion ?u ''p1'' 2 ?s = Inr (m, demo_promoted)"
    and tables: "st_sets demo_promoted = [demo_set_row ?tx\<lparr>sr_state := ''completed'', sr_updated_at := ?u\<rparr>]"
      "st_candidates demo_promoted = [demo_candidate_row ?tx ''promoted'']"
      "st_rounds demo_promoted = [demo_round_row ?tx ''now'']" "st_ballots demo_promoted = []"
    by (simp add: demo_promoted_def finalize_promotion_def load_promotion_tx_def demo_promoting_def demo_intent_def
        demo_opened_def demo_store_def ensure_revision_def current_revision_def bump_revision_def to_i64_def
        finalize_promotion_tx_eq insert_promotion_event_def update_promotion_def demo_candidate_row_def demo_set_row_def)
  have load: "load_round_context ?tx (demo_promoting\<lparr>rn_store := demo_promoted\<rparr>) 3 =
      Inr ((demo_round ?tx Promoted ''now'')\<lparr>rx_candidate_set := demo_set SetCompleted, rx_decision := Some (PolSelect 2)\<rparr>)"
    using demo_round_loads_as [OF demo_texts_ok, of "''completed''" SetCompleted "''promoted''" Promoted
        "demo_promoting\<lparr>rn_store := demo_promoted\<rparr>" ?u "''now''"] tables
    by (simp add: set_states_def candidate_states_def demo_promoting_def)
  have intent: "promotion_intent ?s ''p1'' = Some demo_intent" "pw_state demo_intent = ''ref_updated''"
    "pw_candidate_id demo_intent = typed_id_display ''cand_'' (tx_uuid ?tx) 2"
    by (simp_all add: promotion_intent_def demo_promoting_def demo_intent_def)
  have rows: "distinct (map cr_id (st_candidates ?s))"
    "\<forall>q \<in> set (st_candidates ?s). \<exists>i. cr_id q = typed_id_display ''cand_'' (tx_uuid ?tx) i"
    by (auto simp: demo_promoting_def demo_opened_def demo_store_def demo_candidate_row_def)
  show ?thesis
    using promoted_round_unreadable [OF intent rows demo_texts_ok fin load, of "''later''"] by auto
qed

definition demo_camel_input :: Json where
  "demo_camel_input = JObject (obj_of [(''id'', JString (set_text demo_texts 1)),
     (''projectId'', JString (typed_id_display ''proj_'' (tx_uuid demo_texts) 9)), (''taskId'', JString ''task''),
     (''baseRevision'', json_nat 0), (''baseCommit'', JString ''base''), (''acceptanceDigest'', JString ''digest''),
     (''policy'', camel_policy 3), (''policyVersion'', json_nat 1)])"

theorem camel_policy_never_opens_witness:
  "\<exists>d m s. parse_candidate_set (tx_json demo_texts) ''now'' demo_camel_input = Inr d \<and>
     create_candidate_set d 0 empty_store = Inr (m, s) \<and>
     open_round demo_texts ''now'' 3 1 1 (new_runner False s) = (Inl RnJson, new_runner False s)"
proof -
  let ?v = demo_camel_input
  obtain entries where v: "as_object ?v = Some entries" "obj_get entries ''policy'' = Some (camel_policy 3)"
    by (simp add: demo_camel_input_def obj_get_of)
  have valid: "validate_policy (camel_policy 3) = Inr ()"
    by (simp add: validate_policy_def camel_policy_def get_any_def obj_get_of)
  obtain d where d: "parse_candidate_set (tx_json demo_texts) ''now'' ?v = Inr d" "sd_id d = set_text demo_texts 1"
    "sd_base_revision d = 0" "sd_policy_version d = 1"
  proof -
    have "text_of (JString ''task'') = Some ''task''" "text_of (JString ''base'') = Some ''base''"
      "text_of (JString ''digest'') = Some ''digest''" by code_simp+
    moreover have "text_of (JString (set_text demo_texts 1)) = Some (set_text demo_texts 1)"
      by (simp add: set_text_def text_of_id)
    ultimately show thesis
      using that valid by (simp add: demo_camel_input_def parse_candidate_set_def object_of_def required_value_def obj_get_of
          optional_string_def Let_def or_else_def validate_candidate_set_state_def field_string_def field_string_any_def
          get_any_def required_u64_any_def optional_timestamp_def text_of_id)
  qed
  obtain m s where s: "create_candidate_set d 0 empty_store = Inr (m, s)"
    using d(3,4) by (simp add: create_candidate_set_def empty_store_def ensure_revision_def current_revision_def
        to_i64_def insert_row_def bump_revision_def)
  have "open_round demo_texts ''now'' 3 1 1 (new_runner False s) = (Inl RnJson, new_runner False s)"
    using camel_policy_never_opens [OF demo_texts_ok v _ d(1,2) s, of "new_runner False s"] by (simp add: new_runner_def)
  then show ?thesis using d(1) s by blast
qed

end
