(* ===== verification/Schema_Dialect.thy ===== *)
theory Schema_Dialect
  imports Json
begin

text \<open>
  The schema dialects of the model providers (\<open>jcode-schema-dialect\<close>: \<open>keyword.rs\<close>, \<open>dialect.rs\<close>): the role
  of each JSON Schema keyword, a provider's allow-list and rewrites, and the normalisation of a tool schema
  into a dialect. A schema is a \<^typ>\<open>Json\<close> value; a \<open>Map\<close> that the code edits in place is passed and returned.
\<close>

section \<open>Keywords\<close>

datatype KeywordRole = Subschema | SubschemaMap | SubschemaArray | Data

definition SUBSCHEMA_MAP_KEYWORDS :: "string list" where
  "SUBSCHEMA_MAP_KEYWORDS =
     [''properties'', ''patternProperties'', ''$defs'', ''definitions'', ''dependentSchemas'']"

definition SUBSCHEMA_KEYWORDS :: "string list" where
  "SUBSCHEMA_KEYWORDS =
     [''items'', ''additionalItems'', ''additionalProperties'', ''contains'', ''propertyNames'', ''not'',
      ''if'', ''then'', ''else'', ''unevaluatedItems'', ''unevaluatedProperties'', ''contentSchema'']"

definition SUBSCHEMA_ARRAY_KEYWORDS :: "string list" where
  "SUBSCHEMA_ARRAY_KEYWORDS = [''allOf'', ''anyOf'', ''oneOf'', ''prefixItems'']"

definition DATA_KEYWORDS :: "string list" where
  "DATA_KEYWORDS = [''enum'', ''const'', ''default'', ''examples'', ''required'']"

definition keyword_role :: "string \<Rightarrow> KeywordRole" where
  "keyword_role key =
     (if key \<in> set SUBSCHEMA_MAP_KEYWORDS then SubschemaMap
      else if key \<in> set SUBSCHEMA_KEYWORDS then Subschema
      else if key \<in> set SUBSCHEMA_ARRAY_KEYWORDS then SubschemaArray
      else if key \<in> set DATA_KEYWORDS then Data
      else Data)"

definition LOAD_BEARING_KEYWORDS :: "string list" where
  "LOAD_BEARING_KEYWORDS =
     [''type'', ''properties'', ''items'', ''required'', ''enum'', ''description'']"

definition is_droppable :: "string \<Rightarrow> bool" where
  "is_droppable key \<longleftrightarrow> key \<notin> set LOAD_BEARING_KEYWORDS"

section \<open>Dialects\<close>

record DialectTransforms =
  tf_flatten_top_level_combiners :: bool
  tf_flatten_all_combiners :: bool
  tf_require_properties_on_objects :: bool
  tf_prune_dangling_required :: bool
  tf_const_as_enum :: bool
  tf_one_of_as_any_of :: bool
  tf_merge_all_of_branches :: bool

record DialectSpec =
  dialect_id :: string
  supported_keywords :: "string list"
  supported_string_formats :: "string list"
  transforms :: DialectTransforms

definition UNIVERSAL_KEYWORDS :: "string list" where
  "UNIVERSAL_KEYWORDS = [''type'', ''properties'', ''items'', ''required'', ''enum'', ''title'']"

definition supports :: "DialectSpec \<Rightarrow> string \<Rightarrow> bool" where
  "supports spec key \<longleftrightarrow> key \<in> set UNIVERSAL_KEYWORDS \<or> key \<in> set (supported_keywords spec)"

definition supports_format :: "DialectSpec \<Rightarrow> string \<Rightarrow> bool" where
  "supports_format spec f \<longleftrightarrow>
     supported_string_formats spec = [] \<or> f \<in> set (supported_string_formats spec)"

definition validate :: "DialectSpec \<Rightarrow> string + unit" where
  "validate spec = (case find (\<lambda>key. \<not> supports spec key) LOAD_BEARING_KEYWORDS of
       Some key \<Rightarrow> Inl (''dialect `'' @ dialect_id spec @ ''` does not support load-bearing keyword `'' @ key @ ''`'')
     | None \<Rightarrow> (case find (\<lambda>key. key \<in> set UNIVERSAL_KEYWORDS) (supported_keywords spec) of
         Some key \<Rightarrow> Inl (''dialect `'' @ dialect_id spec @ ''` redundantly lists universal keyword `'' @ key @ ''`'')
       | None \<Rightarrow> Inr ()))"

record LearnedQuirks =
  rejected_keywords :: "string list"
  rejected_formats :: "string list"

definition no_quirks :: LearnedQuirks where
  "no_quirks = \<lparr>rejected_keywords = [], rejected_formats = []\<rparr>"

definition quirks_is_empty :: "LearnedQuirks \<Rightarrow> bool" where
  "quirks_is_empty q \<longleftrightarrow> rejected_keywords q = [] \<and> rejected_formats q = []"

section \<open>Rewrites of one object\<close>

text \<open>\<open>entry(key).or_insert(value)\<close>.\<close>

definition obj_or_insert :: "string \<Rightarrow> 'v \<Rightarrow> (string \<times> 'v) list \<Rightarrow> (string \<times> 'v) list" where
  "obj_or_insert k v m = (case obj_get m k of None \<Rightarrow> obj_put k v m | Some _ \<Rightarrow> m)"

definition or_insert_all :: "JsonMap \<Rightarrow> JsonMap \<Rightarrow> JsonMap" where
  "or_insert_all props branch_props = foldl (\<lambda>ps e. obj_or_insert (fst e) (snd e) ps) props branch_props"

definition push_new :: "string list \<Rightarrow> string list \<Rightarrow> string list" where
  "push_new names new = foldl (\<lambda>ns n. if n \<in> set ns then ns else ns @ [n]) names new"

definition str_items :: "Json list \<Rightarrow> string list" where
  "str_items xs = List.map_filter as_str xs"

definition is_object_typed :: "JsonMap \<Rightarrow> bool" where
  "is_object_typed m = (case obj_get m ''type'' of
       Some (JString t) \<Rightarrow> t = ''object''
     | Some (JArray types) \<Rightarrow> list_ex (\<lambda>t. as_str t = Some ''object'') types
     | _ \<Rightarrow> False)"

definition prune_dangling_required :: "JsonMap \<Rightarrow> JsonMap" where
  "prune_dangling_required out = (case obj_get out ''properties'' of
       Some (JObject properties) \<Rightarrow>
         (let defined = map fst properties in
          case obj_get out ''required'' of
            Some (JArray required) \<Rightarrow>
              (let kept = filter (\<lambda>name. case as_str name of Some n \<Rightarrow> n \<in> set defined | None \<Rightarrow> False) required in
               if kept = [] then obj_remove ''required'' out
               else obj_put ''required'' (JArray kept) out)
          | _ \<Rightarrow> out)
     | _ \<Rightarrow> out)"

text \<open>One branch of an \<open>allOf\<close>: the object so far, the collected properties and required names.\<close>

definition merge_branch :: "JsonMap \<times> JsonMap \<times> string list \<Rightarrow> Json \<Rightarrow> JsonMap \<times> JsonMap \<times> string list" where
  "merge_branch acc branch_value = (case acc of (out, props, required) \<Rightarrow>
     (case as_object branch_value of
        None \<Rightarrow> (out, props, required)
      | Some branch \<Rightarrow>
         (let out = (case (obj_get out ''type'', obj_get branch ''type'') of
                       (None, Some t) \<Rightarrow> obj_put ''type'' t out | _ \<Rightarrow> out);
              props = (case Option.bind (obj_get branch ''properties'') as_object of
                         Some bp \<Rightarrow> or_insert_all props bp | None \<Rightarrow> props);
              required = (case Option.bind (obj_get branch ''required'') as_array of
                            Some br \<Rightarrow> push_new required (str_items br) | None \<Rightarrow> required)
          in (out, props, required))))"

definition merge_all_of_branches :: "JsonMap \<Rightarrow> JsonMap" where
  "merge_all_of_branches out = (case obj_get out ''allOf'' of
       Some (JArray branches) \<Rightarrow>
         (let out = obj_remove ''allOf'' out;
              props = (case Option.bind (obj_get out ''properties'') as_object of Some p \<Rightarrow> p | None \<Rightarrow> []);
              required = (case Option.bind (obj_get out ''required'') as_array of
                            Some names \<Rightarrow> str_items names | None \<Rightarrow> []);
              (out, props, required) = foldl merge_branch (out, props, required) branches;
              out = (if props = [] then out else obj_put ''properties'' (JObject props) out);
              out = (if required = [] then obj_remove ''required'' out
                     else obj_put ''required'' (JArray (map JString required)) out)
          in prune_dangling_required out)
     | _ \<Rightarrow> obj_remove ''allOf'' out)"

section \<open>The walk\<close>

text \<open>
  An array under a key that is there already (\<open>oneOf\<close> renamed onto \<open>anyOf\<close>) extends it; otherwise the value
  replaces what is there.
\<close>

definition put_or_extend :: "string \<Rightarrow> Json \<Rightarrow> JsonMap \<Rightarrow> JsonMap" where
  "put_or_extend key normalized out = (case obj_get out key of
       Some (JArray existing) \<Rightarrow>
         (case normalized of
            JArray incoming \<Rightarrow> obj_put key (JArray (existing @ incoming)) out
          | _ \<Rightarrow> out)
     | _ \<Rightarrow> obj_put key normalized out)"

text \<open>One key of an object: \<open>normalized\<close> is its value walked according to the role of the key.\<close>

definition walk_entry ::
    "DialectSpec \<Rightarrow> LearnedQuirks \<Rightarrow> JsonMap \<Rightarrow> string \<Rightarrow> Json \<Rightarrow> Json \<Rightarrow> JsonMap" where
  "walk_entry spec quirks out key v normalized =
     (let out_key = (if key = ''oneOf'' \<and> tf_one_of_as_any_of (transforms spec) then ''anyOf'' else key);
          dropped_by_quirk = (key \<in> set (rejected_keywords quirks))
      in if (\<not> supports spec out_key \<or> dropped_by_quirk) \<and> is_droppable key then
           (if key = ''const'' \<and> tf_const_as_enum (transforms spec)
            then obj_put ''enum'' (JArray [v]) out else out)
         else if key = ''format'' then
           (case as_str v of
              Some f \<Rightarrow> if supports_format spec f \<and> f \<notin> set (rejected_formats quirks)
                        then obj_put key v out else out
            | None \<Rightarrow> out)
         else put_or_extend out_key normalized out)"

definition shape_object :: "DialectSpec \<Rightarrow> JsonMap \<Rightarrow> JsonMap" where
  "shape_object spec out =
     (let out = (if tf_prune_dangling_required (transforms spec) then prune_dangling_required out else out);
          out = (if tf_merge_all_of_branches (transforms spec) then merge_all_of_branches out else out)
      in if tf_require_properties_on_objects (transforms spec) \<and> is_object_typed out
         then obj_or_insert ''properties'' (JObject []) out else out)"

lemma size_entry: "e \<in> set m \<Longrightarrow> size (snd e) < size (JObject m)"
  by (induction m) auto

lemma size_item: "x \<in> set xs \<Longrightarrow> size x < size (JArray xs)"
  by (induction xs) auto

function (sequential) walk :: "DialectSpec \<Rightarrow> LearnedQuirks \<Rightarrow> Json \<Rightarrow> Json"
and walk_value :: "DialectSpec \<Rightarrow> LearnedQuirks \<Rightarrow> string \<Rightarrow> Json \<Rightarrow> Json" where
  "walk spec quirks (JObject m) =
     JObject (shape_object spec
       (foldl (\<lambda>out e. walk_entry spec quirks out (fst e) (snd e) (walk_value spec quirks (fst e) (snd e))) [] m))"
| "walk spec quirks (JArray items) = JArray (map (walk spec quirks) items)"
| "walk spec quirks schema = schema"
| "walk_value spec quirks key v = (case keyword_role key of
       SubschemaMap \<Rightarrow> (case v of
           JObject children \<Rightarrow> JObject (map (\<lambda>c. (fst c, walk spec quirks (snd c))) children)
         | other \<Rightarrow> other)
     | SubschemaArray \<Rightarrow> (case v of
           JArray items \<Rightarrow> JArray (map (walk spec quirks) items)
         | other \<Rightarrow> walk spec quirks other)
     | Subschema \<Rightarrow> walk spec quirks v
     | Data \<Rightarrow> v)"
  by pat_completeness auto

termination
proof (relation "measure (\<lambda>p. case p of Inl (_, _, v) \<Rightarrow> 2 * size v | Inr (_, _, _, v) \<Rightarrow> 2 * size v + 1)")
qed (auto dest!: size_entry size_item)

end
