(* ===== verification/Schema_Flatten.thy ===== *)
theory Schema_Flatten
  imports Schema_Dialect
begin

text \<open>
  The collapse of \<open>anyOf\<close>, \<open>oneOf\<close> and \<open>allOf\<close> (at the root or at every depth) and the normalisation of a
  schema that applies the walk and the collapse (\<open>dialect.rs\<close>, \<open>lib.rs\<close> of \<open>jcode-schema-dialect\<close>).
\<close>

section \<open>Root combiners\<close>

definition union_branch :: "string \<Rightarrow> JsonMap \<times> string list \<Rightarrow> Json \<Rightarrow> JsonMap \<times> string list" where
  "union_branch keyword acc branch_value = (case acc of (props, all_of_required) \<Rightarrow>
     (case as_object branch_value of
        None \<Rightarrow> (props, all_of_required)
      | Some branch \<Rightarrow>
         (case Option.bind (obj_get branch ''properties'') as_object of
            Some bp \<Rightarrow> or_insert_all props bp | None \<Rightarrow> props,
          if keyword = ''allOf''
          then (case Option.bind (obj_get branch ''required'') as_array of
                  Some br \<Rightarrow> push_new all_of_required (str_items br) | None \<Rightarrow> all_of_required)
          else all_of_required)))"

definition union_keyword ::
    "JsonMap \<times> JsonMap \<times> string list \<times> bool \<Rightarrow> string \<Rightarrow> JsonMap \<times> JsonMap \<times> string list \<times> bool" where
  "union_keyword acc keyword = (case acc of (output, props, req, saw) \<Rightarrow>
     (case obj_get output keyword of
        Some (JArray branches) \<Rightarrow>
          (let (props, req) = foldl (union_branch keyword) (props, req) branches
           in (obj_remove keyword output, props, req, True))
      | _ \<Rightarrow> (obj_remove keyword output, props, req, saw)))"

definition promote_required :: "string list \<Rightarrow> JsonMap \<Rightarrow> JsonMap" where
  "promote_required names output =
     (if names = [] then output
      else let output = obj_or_insert ''required'' (JArray []) output in
        (case obj_get output ''required'' of
           Some (JArray required) \<Rightarrow>
             obj_put ''required'' (JArray (foldl (\<lambda>r n.
               if list_ex (\<lambda>x. as_str x = Some n) r then r else r @ [JString n]) required names)) output
         | _ \<Rightarrow> output))"

definition flatten_top_level_combiners :: "Json \<Rightarrow> Json" where
  "flatten_top_level_combiners schema = (case as_object schema of
       None \<Rightarrow> schema
     | Some output \<Rightarrow>
        (let props = (case Option.bind (obj_get output ''properties'') as_object of Some p \<Rightarrow> p | None \<Rightarrow> []);
             (output, props, req, saw) =
               foldl union_keyword (output, props, [], False) [''oneOf'', ''anyOf'', ''allOf'']
         in if \<not> saw then JObject output
            else let output = obj_put ''type'' (JString ''object'') output;
                     output = obj_put ''properties'' (JObject props) output
                 in JObject (prune_dangling_required (promote_required req output))))"

section \<open>Combiners at every depth\<close>

definition merge_property :: "Json \<Rightarrow> Json \<Rightarrow> Json" where
  "merge_property parent branch = (case (as_object parent, as_object branch) of
       (Some parent_map, Some branch_map) \<Rightarrow> JObject (or_insert_all branch_map parent_map)
     | _ \<Rightarrow> parent)"

definition merge_named :: "JsonMap \<Rightarrow> JsonMap \<Rightarrow> JsonMap" where
  "merge_named existing incoming = foldl (\<lambda>ps e. (case obj_get ps (fst e) of
       Some parent \<Rightarrow> obj_put (fst e) (merge_property parent (snd e)) ps
     | None \<Rightarrow> obj_put (fst e) (snd e) ps)) existing incoming"

definition merge_sibling :: "JsonMap \<Rightarrow> string \<Rightarrow> Json \<Rightarrow> JsonMap" where
  "merge_sibling flattened key sibling = (case (obj_get flattened key, sibling) of
       (Some (JObject existing), JObject incoming) \<Rightarrow>
         if key = ''properties'' then obj_put key (JObject (merge_named existing incoming)) flattened
         else flattened
     | (Some _, _) \<Rightarrow> flattened
     | (None, _) \<Rightarrow> obj_put key sibling flattened)"

text \<open>The first of \<open>anyOf\<close>, \<open>oneOf\<close>, \<open>allOf\<close> that holds a branch, with that branch.\<close>

fun first_combiner :: "JsonMap \<Rightarrow> string list \<Rightarrow> (string \<times> Json) option" where
  "first_combiner m [] = None"
| "first_combiner m (combiner # cs) = (case obj_get m combiner of
       Some (JArray (first # _)) \<Rightarrow> Some (combiner, first)
     | _ \<Rightarrow> first_combiner m cs)"

lemma obj_get_SomeD: "obj_get m k = Some v \<Longrightarrow> (k, v) \<in> set m"
  by (simp add: obj_get_def map_of_SomeD)

lemma first_combiner_Some:
  "first_combiner m cs = Some (c, f) \<Longrightarrow> c \<in> set cs \<and> (\<exists>fs. obj_get m c = Some (JArray (f # fs)))"
  by (induction m cs rule: first_combiner.induct) (auto split: option.splits Json.splits list.splits)

lemma size_first_combiner:
  assumes "first_combiner m cs = Some p"
  shows "size (snd p) < size (JObject m)"
proof -
  obtain fs where "(fst p, JArray (snd p # fs)) \<in> set m"
    using first_combiner_Some [of m cs "fst p" "snd p"] assms obj_get_SomeD by fastforce
  then have "size (JArray (snd p # fs)) < size (JObject m)" using size_entry by fastforce
  then show ?thesis by simp
qed

function (sequential) flatten_all_combiners :: "Json \<Rightarrow> Json" where
  "flatten_all_combiners (JObject m) = (case first_combiner m [''anyOf'', ''oneOf'', ''allOf''] of
       Some p \<Rightarrow>
         (case flatten_all_combiners (snd p) of
            JObject branch \<Rightarrow>
              JObject (prune_dangling_required
                (foldl (\<lambda>flattened e. if fst e = fst p then flattened
                          else merge_sibling flattened (fst e) (flatten_all_combiners (snd e))) branch m))
          | other \<Rightarrow> other)
     | None \<Rightarrow> JObject (map (\<lambda>e. (fst e, flatten_all_combiners (snd e))) m))"
| "flatten_all_combiners (JArray items) = JArray (map flatten_all_combiners items)"
| "flatten_all_combiners schema = schema"
  by pat_completeness auto

termination
  by (relation "measure size")
    (auto dest: size_entry size_item size_first_combiner simp del: first_combiner.simps)

section \<open>Normalisation\<close>

definition apply_with_quirks :: "Json \<Rightarrow> DialectSpec \<Rightarrow> LearnedQuirks \<Rightarrow> Json" where
  "apply_with_quirks schema spec quirks =
     (let out = walk spec quirks schema;
          out = (if tf_flatten_all_combiners (transforms spec) then flatten_all_combiners out
                 else if tf_flatten_top_level_combiners (transforms spec)
                 then flatten_top_level_combiners out else out)
      in if tf_require_properties_on_objects (transforms spec)
         then (case as_object out of
                 Some m \<Rightarrow>
                   if m = [] then JObject (obj_put ''properties'' (JObject [])
                                            (obj_put ''type'' (JString ''object'') m))
                   else out
               | None \<Rightarrow> JObject (obj_of [(''type'', JString ''object''), (''properties'', JObject [])]))
         else out)"

definition apply_dialect :: "Json \<Rightarrow> DialectSpec \<Rightarrow> Json" where
  "apply_dialect schema spec = apply_with_quirks schema spec no_quirks"

end
