(* ===== verification/Schema_Registry.thy ===== *)
theory Schema_Registry
  imports Schema_Flatten
begin

text \<open>
  The table of dialects (\<open>registry.rs\<close>) and the checks a normalised schema must pass (\<open>conformance.rs\<close>).
\<close>

section \<open>Registered dialects\<close>

definition DEFAULT_TRANSFORMS :: DialectTransforms where
  "DEFAULT_TRANSFORMS =
     \<lparr>tf_flatten_top_level_combiners = False, tf_flatten_all_combiners = False,
      tf_require_properties_on_objects = False, tf_prune_dangling_required = False,
      tf_const_as_enum = False, tf_one_of_as_any_of = False, tf_merge_all_of_branches = False\<rparr>"

definition OPENAI :: DialectSpec where
  "OPENAI =
     \<lparr>dialect_id = ''openai'',
      supported_keywords =
        [''description'', ''default'', ''examples'', ''format'', ''anyOf'', ''oneOf'', ''allOf'', ''$defs'',
         ''definitions'', ''$ref'', ''$schema'', ''const'', ''additionalProperties'', ''patternProperties'',
         ''prefixItems'', ''minimum'', ''maximum'', ''exclusiveMinimum'', ''exclusiveMaximum'',
         ''multipleOf'', ''minLength'', ''maxLength'', ''pattern'', ''minItems'', ''maxItems'', ''nullable''],
      supported_string_formats =
        [''date-time'', ''time'', ''date'', ''duration'', ''email'', ''hostname'', ''ipv4'', ''ipv6'', ''uuid''],
      transforms = DEFAULT_TRANSFORMS\<lparr>tf_one_of_as_any_of := True, tf_merge_all_of_branches := True\<rparr>\<rparr>"

definition GEMINI :: DialectSpec where
  "GEMINI =
     \<lparr>dialect_id = ''gemini'',
      supported_keywords =
        [''description'', ''default'', ''format'', ''anyOf'', ''nullable'', ''minimum'', ''maximum'',
         ''minItems'', ''maxItems'', ''minLength'', ''maxLength'', ''pattern'', ''example''],
      supported_string_formats = [],
      transforms = DEFAULT_TRANSFORMS\<lparr>tf_prune_dangling_required := True, tf_const_as_enum := True,
        tf_one_of_as_any_of := True\<rparr>\<rparr>"

definition ANTHROPIC :: DialectSpec where
  "ANTHROPIC =
     \<lparr>dialect_id = ''anthropic'',
      supported_keywords =
        [''description'', ''default'', ''examples'', ''format'', ''anyOf'', ''oneOf'', ''allOf'', ''not'',
         ''if'', ''then'', ''else'', ''$defs'', ''definitions'', ''$ref'', ''$schema'', ''$comment'',
         ''const'', ''additionalProperties'', ''patternProperties'', ''propertyNames'', ''prefixItems'',
         ''contains'', ''uniqueItems'', ''minimum'', ''maximum'', ''exclusiveMinimum'',
         ''exclusiveMaximum'', ''multipleOf'', ''minLength'', ''maxLength'', ''pattern'', ''minItems'',
         ''maxItems'', ''minProperties'', ''maxProperties'', ''dependentRequired'', ''dependentSchemas'',
         ''nullable''],
      supported_string_formats = [],
      transforms = DEFAULT_TRANSFORMS\<lparr>tf_flatten_top_level_combiners := True,
        tf_require_properties_on_objects := True\<rparr>\<rparr>"

definition OPENROUTER :: DialectSpec where
  "OPENROUTER =
     \<lparr>dialect_id = ''openrouter'',
      supported_keywords = supported_keywords OPENAI,
      supported_string_formats = [],
      transforms = DEFAULT_TRANSFORMS\<lparr>tf_flatten_top_level_combiners := True,
        tf_require_properties_on_objects := True\<rparr>\<rparr>"

definition ANTIGRAVITY_CLAUDE :: DialectSpec where
  "ANTIGRAVITY_CLAUDE =
     \<lparr>dialect_id = ''antigravity-claude'',
      supported_keywords = supported_keywords GEMINI,
      supported_string_formats = [],
      transforms = DEFAULT_TRANSFORMS\<lparr>tf_flatten_all_combiners := True, tf_prune_dangling_required := True,
        tf_const_as_enum := True, tf_one_of_as_any_of := True\<rparr>\<rparr>"

definition ANTIGRAVITY_BRIDGE :: DialectSpec where
  "ANTIGRAVITY_BRIDGE =
     \<lparr>dialect_id = ''antigravity-bridge'',
      supported_keywords =
        [''description'', ''default'', ''format'', ''anyOf'', ''nullable'', ''minimum'', ''maximum'',
         ''pattern'', ''example''],
      supported_string_formats = [],
      transforms = DEFAULT_TRANSFORMS\<lparr>tf_flatten_all_combiners := True, tf_prune_dangling_required := True,
        tf_const_as_enum := True, tf_one_of_as_any_of := True\<rparr>\<rparr>"

definition ALL_DIALECTS :: "DialectSpec list" where
  "ALL_DIALECTS = [OPENAI, GEMINI, ANTHROPIC, OPENROUTER, ANTIGRAVITY_CLAUDE, ANTIGRAVITY_BRIDGE]"

definition by_id :: "string \<Rightarrow> DialectSpec option" where
  "by_id i = find (\<lambda>spec. dialect_id spec = i) ALL_DIALECTS"

lemmas registry_defs = DEFAULT_TRANSFORMS_def OPENAI_def GEMINI_def ANTHROPIC_def OPENROUTER_def
  ANTIGRAVITY_CLAUDE_def ANTIGRAVITY_BRIDGE_def

section \<open>Conformance checks\<close>

record ConformanceError =
  ce_path :: string
  ce_message :: string

definition check_required :: "JsonMap \<Rightarrow> Json \<Rightarrow> string \<Rightarrow> ConformanceError list" where
  "check_required m required path = (case obj_get m ''properties'' of
       Some (JObject properties) \<Rightarrow>
         (case as_array required of
            None \<Rightarrow> []
          | Some names \<Rightarrow>
              map (\<lambda>name. \<lparr>ce_path = path, ce_message =
                  ''`required` names `'' @ name @ ''`, which this object does not declare''\<rparr>)
                (filter (\<lambda>name. obj_get properties name = None) (str_items names)))
     | _ \<Rightarrow> [])"

definition key_errors :: "DialectSpec \<Rightarrow> JsonMap \<Rightarrow> string \<Rightarrow> string \<Rightarrow> Json \<Rightarrow> ConformanceError list" where
  "key_errors spec m path key v =
     (if supports spec key then []
      else [\<lparr>ce_path = path, ce_message =
        ''keyword `'' @ key @ ''` is not in dialect `'' @ dialect_id spec @ ''`''\<rparr>]) @
     (case as_str v of
        Some f \<Rightarrow> if key = ''format'' \<and> \<not> supports_format spec f
          then [\<lparr>ce_path = path, ce_message =
            ''format `'' @ f @ ''` is not in dialect `'' @ dialect_id spec @ ''`''\<rparr>] else []
      | None \<Rightarrow> []) @
     (if tf_flatten_all_combiners (transforms spec) \<and> key \<in> {''anyOf'', ''oneOf'', ''allOf''}
      then [\<lparr>ce_path = path, ce_message =
        ''combiner `'' @ key @ ''` survived a dialect that flattens all combiners''\<rparr>] else []) @
     (if tf_prune_dangling_required (transforms spec) \<and> key = ''required''
      then check_required m v path else [])"

definition object_errors :: "DialectSpec \<Rightarrow> JsonMap \<Rightarrow> string \<Rightarrow> ConformanceError list" where
  "object_errors spec m path =
     (if tf_require_properties_on_objects (transforms spec)
         \<and> obj_get m ''type'' = Some (JString ''object'') \<and> obj_get m ''properties'' = None
      then [\<lparr>ce_path = path, ce_message = ''object schema is missing `properties`''\<rparr>] else [])"

definition index_path :: "string \<Rightarrow> nat \<Rightarrow> string" where
  "index_path path idx = path @ ''['' @ nat_to_string idx @ '']''"

definition key_path :: "string \<Rightarrow> string \<Rightarrow> string" where
  "key_path path key = path @ ''.'' @ key"

lemma size_enumerated: "(i, x) \<in> set (enumerate n xs) \<Longrightarrow> size x < size (JArray xs)"
  using in_set_enumerate_eq [of "(i, x)" n xs] nth_mem [of "i - n" xs] size_item [of x xs] by auto

function (sequential) conform :: "DialectSpec \<Rightarrow> Json \<Rightarrow> string \<Rightarrow> ConformanceError list"
and conform_value :: "DialectSpec \<Rightarrow> string \<Rightarrow> Json \<Rightarrow> string \<Rightarrow> ConformanceError list" where
  "conform spec (JObject m) path =
     concat (map (\<lambda>e. key_errors spec m path (fst e) (snd e)
                      @ conform_value spec (fst e) (snd e) (key_path path (fst e))) m)
     @ object_errors spec m path"
| "conform spec (JArray items) path =
     concat (map (\<lambda>(idx, item). conform spec item (index_path path idx)) (enumerate 0 items))"
| "conform spec schema path = []"
| "conform_value spec key v child_path = (case keyword_role key of
       SubschemaMap \<Rightarrow> (case v of
           JObject children \<Rightarrow>
             concat (map (\<lambda>c. conform spec (snd c) (key_path child_path (fst c))) children)
         | _ \<Rightarrow> [])
     | SubschemaArray \<Rightarrow> (case v of
           JArray items \<Rightarrow>
             concat (map (\<lambda>(idx, item). conform spec item (index_path child_path idx)) (enumerate 0 items))
         | _ \<Rightarrow> [])
     | Subschema \<Rightarrow> conform spec v child_path
     | Data \<Rightarrow> [])"
  by pat_completeness auto

termination
  by (relation "measure (\<lambda>p. case p of Inl (_, v, _) \<Rightarrow> 2 * size v | Inr (_, _, v, _) \<Rightarrow> 2 * size v + 1)")
    (auto dest!: size_entry size_enumerated)

definition must_not_contain_unsupported_constructs :: "Json \<Rightarrow> DialectSpec \<Rightarrow> ConformanceError list" where
  "must_not_contain_unsupported_constructs schema spec = conform spec schema ''$''"

text \<open>What a normalised schema keeps of its source.\<close>

definition lost_keywords :: "JsonMap \<Rightarrow> JsonMap \<Rightarrow> string \<Rightarrow> ConformanceError list" where
  "lost_keywords original normalized path =
     map (\<lambda>key. \<lparr>ce_path = path, ce_message = ''load-bearing keyword `'' @ key @ ''` was dropped''\<rparr>)
       (filter (\<lambda>key. obj_get original key \<noteq> None \<and> obj_get normalized key = None \<and> key \<noteq> ''required'')
          LOAD_BEARING_KEYWORDS)"

lemma size_get: "obj_get m k = Some v \<Longrightarrow> size v < size (JObject m)"
  using obj_get_SomeD [of m k v] size_entry [of "(k, v)" m] by simp

function (sequential) compare_meaning :: "Json \<Rightarrow> Json \<Rightarrow> string \<Rightarrow> ConformanceError list" where
  "compare_meaning (JObject original) (JObject normalized) path =
     lost_keywords original normalized path @
     (case obj_get original ''properties'' of
        Some (JObject original_props) \<Rightarrow>
          (case obj_get normalized ''properties'' of
             Some (JObject normalized_props) \<Rightarrow>
               concat (map (\<lambda>e. (case obj_get normalized_props (fst e) of
                   Some child \<Rightarrow>
                     compare_meaning (snd e) child (key_path (path @ ''.properties'') (fst e))
                 | None \<Rightarrow> [\<lparr>ce_path = path, ce_message = ''property `'' @ fst e @ ''` disappeared''\<rparr>]))
                 original_props)
           | _ \<Rightarrow> [])
      | _ \<Rightarrow> [])"
| "compare_meaning original normalized path = []"
  by pat_completeness auto

termination
  by (relation "measure (\<lambda>(v, _, _). size v)") (auto dest!: size_get size_entry)

definition must_preserve_meaning :: "Json \<Rightarrow> Json \<Rightarrow> ConformanceError list" where
  "must_preserve_meaning original normalized = compare_meaning original normalized ''$''"

text \<open>Properties that say nothing of what they accept.\<close>

definition declares_a_type :: "Json \<Rightarrow> bool" where
  "declares_a_type schema = (case as_object schema of
       None \<Rightarrow> as_bool schema \<noteq> None
     | Some m \<Rightarrow> list_ex (\<lambda>keyword. obj_get m keyword \<noteq> None)
         [''type'', ''enum'', ''const'', ''anyOf'', ''oneOf'', ''allOf'', ''$ref'', ''properties'', ''items''])"

function (sequential) untyped :: "Json \<Rightarrow> string \<Rightarrow> ConformanceError list" where
  "untyped (JObject m) path =
     (case obj_get m ''properties'' of
        Some (JObject properties) \<Rightarrow>
          concat (map (\<lambda>e. let child = key_path (path @ ''.properties'') (fst e) in
             (if declares_a_type (snd e) then []
              else [\<lparr>ce_path = child, ce_message = ''property declares no type, enum, or combiner, so the OpenAI ''
                  @ ''strict validator would reject the whole catalog''\<rparr>])
             @ untyped (snd e) child) properties)
      | _ \<Rightarrow> [])
     @ concat (map (\<lambda>e. if fst e = ''properties'' \<or> keyword_role (fst e) = Data then []
                        else untyped (snd e) (key_path path (fst e))) m)"
| "untyped (JArray items) path =
     concat (map (\<lambda>(idx, item). untyped item (index_path path idx)) (enumerate 0 items))"
| "untyped schema path = []"
  by pat_completeness auto

termination
  by (relation "measure (\<lambda>(v, _). size v)") (auto dest!: size_get size_entry size_enumerated)

definition untyped_properties :: "Json \<Rightarrow> ConformanceError list" where
  "untyped_properties schema = untyped schema ''$''"

end
