(* ===== verification/Schema_Clean.thy ===== *)
theory Schema_Clean
  imports Schema_Registry
begin

text \<open>
  What holds at every schema position of a normalised schema. A law about the entries of an object that the
  rewrites respect (the locale \<open>entry_law\<close>) carries through \<open>walk\<close> and the root collapse; it is interpreted on
  the entries the walk admits and on the schemas they hold.
\<close>

section \<open>Entries of objects\<close>

definition entries :: "(string \<Rightarrow> Json \<Rightarrow> bool) \<Rightarrow> JsonMap \<Rightarrow> bool" where
  "entries F m \<longleftrightarrow> list_all (\<lambda>e. F (fst e) (snd e)) m"

lemma entries_Nil [simp]: "entries F []"
  by (simp add: entries_def)

lemma entries_Cons [simp]: "entries F (e # m) \<longleftrightarrow> F (fst e) (snd e) \<and> entries F m"
  by (simp add: entries_def)

lemma entries_mem: "entries F m \<Longrightarrow> (k, v) \<in> set m \<Longrightarrow> F k v"
  by (auto simp: entries_def list_all_iff)

lemma entries_put: "entries F m \<Longrightarrow> F k v \<Longrightarrow> entries F (obj_put k v m)"
proof (unfold entries_def list_all_iff, rule ballI)
  fix e assume "\<forall>e \<in> set m. F (fst e) (snd e)" "F k v" "e \<in> set (obj_put k v m)"
  then show "F (fst e) (snd e)" using set_obj_put [of k v m] by (cases "e = (k, v)") auto
qed

lemma entries_remove: "entries F m \<Longrightarrow> entries F (obj_remove k m)"
  by (simp add: obj_remove_def entries_def list_all_iff)

lemma entries_get: "entries F m \<Longrightarrow> obj_get m k = Some v \<Longrightarrow> F k v"
  by (rule entries_mem [OF _ obj_get_SomeD])

lemma entries_or_insert: "entries F m \<Longrightarrow> F k v \<Longrightarrow> entries F (obj_or_insert k v m)"
  by (simp add: obj_or_insert_def entries_put split: option.split)

lemma entries_or_insert_all:
  "entries F m \<Longrightarrow> entries F n \<Longrightarrow> entries F (or_insert_all m n)"
  unfolding or_insert_all_def by (induction n arbitrary: m) (auto intro!: entries_or_insert)

lemma entries_put_or_extend:
  assumes "entries F out" and "F k w"
    and "\<And>a b. obj_get out k = Some (JArray a) \<Longrightarrow> w = JArray b \<Longrightarrow> F k (JArray (a @ b))"
  shows "entries F (put_or_extend k w out)"
proof (cases "\<exists>a b. obj_get out k = Some (JArray a) \<and> w = JArray b")
  case True
  then show ?thesis using assms by (auto simp: put_or_extend_def intro!: entries_put)
next
  case False
  then have "put_or_extend k w out \<in> {out, obj_put k w out}"
    by (auto simp: put_or_extend_def split: option.split Json.split)
  then show ?thesis using assms(1,2) entries_put [of F out k w] by auto
qed

lemma obj_ok_or_insert: "obj_ok m \<Longrightarrow> obj_ok (obj_or_insert k v m)"
  by (simp add: obj_or_insert_def obj_ok_put split: option.split)

lemma obj_ok_or_insert_all: "obj_ok m \<Longrightarrow> obj_ok (or_insert_all m n)"
  unfolding or_insert_all_def by (induction n arbitrary: m) (auto intro!: obj_ok_or_insert)

lemma obj_get_or_insert [simp]:
  "obj_get (obj_or_insert k v m) j = (if j = k \<and> obj_get m k = None then Some v else obj_get m j)"
  by (auto simp: obj_or_insert_def split: option.split)

lemma obj_get_iff: "obj_ok m \<Longrightarrow> (k, v) \<in> set m \<longleftrightarrow> obj_get m k = Some v"
  by (simp add: obj_ok_def obj_get_def strict_sorted_iff)

lemma obj_get_None_iff: "obj_get m k = None \<longleftrightarrow> k \<notin> fst ` set m"
  by (simp add: obj_get_def map_of_eq_None_iff)

lemma str_items_iff: "n \<in> set (str_items xs) \<longleftrightarrow> JString n \<in> set xs"
proof -
  have "as_str x = Some n \<longleftrightarrow> x = JString n" for x by (cases x) auto
  then show ?thesis by (auto simp: str_items_def set_map_filter)
qed

lemma as_object_Some [simp]: "as_object v = Some m \<longleftrightarrow> v = JObject m"
  by (cases v) auto

lemma as_array_Some [simp]: "as_array v = Some m \<longleftrightarrow> v = JArray m"
  by (cases v) auto

lemma as_str_Some [simp]: "as_str v = Some m \<longleftrightarrow> v = JString m"
  by (cases v) auto

lemma obj_ok_prune: "obj_ok m \<Longrightarrow> obj_ok (prune_dangling_required m)"
  by (simp add: prune_dangling_required_def Let_def obj_ok_put obj_ok_remove split: option.split Json.split)

lemma get_prune: "k \<noteq> ''required'' \<Longrightarrow> obj_get (prune_dangling_required m) k = obj_get m k"
  by (auto simp: prune_dangling_required_def Let_def split: option.split Json.split)

text \<open>After the pruning every required name is declared, when the object declares properties.\<close>

definition required_ok :: "JsonMap \<Rightarrow> bool" where
  "required_ok m \<longleftrightarrow> (case (obj_get m ''properties'', obj_get m ''required'') of
     (Some (JObject ps), Some (JArray r)) \<Rightarrow> \<forall>n. JString n \<in> set r \<longrightarrow> obj_get ps n \<noteq> None
   | _ \<Rightarrow> True)"

lemma required_ok_prune: "required_ok (prune_dangling_required m)"
proof (cases "obj_get m ''properties''")
  case (Some p)
  show ?thesis
  proof (cases p)
    case (JObject ps)
    show ?thesis
    proof (cases "obj_get m ''required''")
      case (Some r)
      then show ?thesis using JObject \<open>obj_get m ''properties'' = Some p\<close>
        by (cases r) (auto simp: required_ok_def prune_dangling_required_def Let_def obj_get_None_iff)
    qed (use JObject Some in \<open>simp add: required_ok_def prune_dangling_required_def Let_def\<close>)
  qed (use Some in \<open>simp_all add: required_ok_def prune_dangling_required_def\<close>)
qed (simp add: required_ok_def prune_dangling_required_def)

lemma required_ok_remove: "k \<noteq> ''properties'' \<Longrightarrow> required_ok m \<Longrightarrow> required_ok (obj_remove k m)"
  by (auto simp: required_ok_def split: option.splits Json.splits)

section \<open>Laws the rewrites respect\<close>

locale entry_law =
  fixes F :: "string \<Rightarrow> Json \<Rightarrow> bool" and G :: "Json \<Rightarrow> bool"
  assumes F_type: "F ''type'' v"
    and F_required: "F ''required'' v"
    and F_properties: "F ''properties'' (JObject ps) \<longleftrightarrow> entries (\<lambda>_. G) ps"
    and F_branch: "kw \<in> {''oneOf'', ''anyOf'', ''allOf''} \<Longrightarrow> F kw (JArray bs) \<Longrightarrow> JObject b \<in> set bs \<Longrightarrow>
      obj_get b ''properties'' = Some (JObject ps) \<Longrightarrow> entries (\<lambda>_. G) ps"
begin

abbreviation props :: "JsonMap \<Rightarrow> bool" where
  "props ps \<equiv> entries (\<lambda>_. G) ps"

lemma prune: "entries F m \<Longrightarrow> entries F (prune_dangling_required m)"
  by (simp add: prune_dangling_required_def Let_def entries_put entries_remove F_required
      split: option.split Json.split)

lemma own_props:
  assumes "entries F m"
  shows "props (case Option.bind (obj_get m ''properties'') as_object of Some p \<Rightarrow> p | None \<Rightarrow> [])"
proof (cases "Option.bind (obj_get m ''properties'') as_object")
  case (Some p)
  then have "obj_get m ''properties'' = Some (JObject p)" by (auto simp: bind_eq_Some_conv)
  then show ?thesis using entries_get [OF assms] F_properties Some by auto
qed simp

lemma insert_branch_props:
  assumes "props ps" and "\<And>b bp. v = JObject b \<Longrightarrow> obj_get b ''properties'' = Some (JObject bp) \<Longrightarrow> props bp"
    and "v = JObject b"
  shows "props (case Option.bind (obj_get b ''properties'') as_object of
           Some bp \<Rightarrow> or_insert_all ps bp | None \<Rightarrow> ps)"
proof (cases "Option.bind (obj_get b ''properties'') as_object")
  case (Some bp)
  then have "props bp" using assms by (auto simp: bind_eq_Some_conv)
  then show ?thesis using entries_or_insert_all assms(1) Some by simp
qed (use assms in simp)

lemma merge_branch:
  assumes "entries F out" and "props ps"
    and "\<And>b bp. v = JObject b \<Longrightarrow> obj_get b ''properties'' = Some (JObject bp) \<Longrightarrow> props bp"
    and "merge_branch (out, ps, req) v = (out', ps', req')"
  shows "entries F out' \<and> props ps'"
proof (cases "as_object v")
  case (Some b)
  have "entries F (case (obj_get out ''type'', obj_get b ''type'') of
          (None, Some t) \<Rightarrow> obj_put ''type'' t out | _ \<Rightarrow> out)"
    using assms(1) by (simp add: entries_put F_type split: option.split)
  moreover have "props (case Option.bind (obj_get b ''properties'') as_object of
      Some bp \<Rightarrow> or_insert_all ps bp | None \<Rightarrow> ps)"
    using insert_branch_props [OF assms(2,3)] Some by simp
  ultimately show ?thesis
    using assms(4) unfolding merge_branch_def prod.case Some option.case Let_def prod.inject by metis
qed (use assms in \<open>simp add: merge_branch_def\<close>)

lemma merge_branches:
  "entries F out \<Longrightarrow> props ps \<Longrightarrow>
   (\<And>b bp. JObject b \<in> set bs \<Longrightarrow> obj_get b ''properties'' = Some (JObject bp) \<Longrightarrow> props bp) \<Longrightarrow>
   foldl merge_branch (out, ps, req) bs = (out', ps', req') \<Longrightarrow> entries F out' \<and> props ps'"
proof (induction bs arbitrary: out ps req)
  case (Cons v bs)
  obtain out1 ps1 req1 where step: "merge_branch (out, ps, req) v = (out1, ps1, req1)"
    by (cases "merge_branch (out, ps, req) v") auto
  have "entries F out1 \<and> props ps1"
    by (rule merge_branch [OF Cons.prems(1,2) _ step]) (use Cons.prems(3) in auto)
  moreover have "foldl merge_branch (out1, ps1, req1) bs = (out', ps', req')"
    using Cons.prems(4) step by simp
  ultimately show ?case using Cons.IH [of out1 ps1 req1] Cons.prems(3) by (meson list.set_intros(2))
qed simp

lemma merge_all_of:
  assumes m: "entries F m"
  shows "entries F (merge_all_of_branches m)"
proof (cases "\<exists>bs. obj_get m ''allOf'' = Some (JArray bs)")
  case True
  then obtain bs where bs: "obj_get m ''allOf'' = Some (JArray bs)" by blast
  let ?m = "obj_remove ''allOf'' m"
  let ?ps = "case Option.bind (obj_get ?m ''properties'') as_object of Some p \<Rightarrow> p | None \<Rightarrow> []"
  let ?rq = "case Option.bind (obj_get ?m ''required'') as_array of Some names \<Rightarrow> str_items names | None \<Rightarrow> []"
  obtain out ps req where fold: "foldl merge_branch (?m, ?ps, ?rq) bs = (out, ps, req)"
    by (cases "foldl merge_branch (?m, ?ps, ?rq) bs") auto
  have m': "entries F ?m" by (rule entries_remove [OF m])
  have branches: "props bp" if "JObject b \<in> set bs" "obj_get b ''properties'' = Some (JObject bp)" for b bp
    using F_branch [of "''allOf''" bs b bp] entries_get [OF m bs] that by simp
  have res: "entries F out" "props ps" using merge_branches [OF m' own_props [OF m'] branches fold] by auto
  have "entries F (if ps = [] then out else obj_put ''properties'' (JObject ps) out)"
    using res by (simp add: entries_put F_properties)
  then show ?thesis
    using bs fold by (simp add: merge_all_of_branches_def Let_def prune entries_put entries_remove F_required)
qed (use m in \<open>auto simp: merge_all_of_branches_def entries_remove split: option.split Json.split\<close>)

lemma shape:
  assumes m: "entries F m"
  shows "entries F (shape_object spec m)"
proof -
  let ?p = "if tf_prune_dangling_required (transforms spec) then prune_dangling_required m else m"
  let ?a = "if tf_merge_all_of_branches (transforms spec) then merge_all_of_branches ?p else ?p"
  have "entries F ?p" using m by (simp add: prune)
  then have "entries F ?a" using merge_all_of by simp
  then show ?thesis
    unfolding shape_object_def Let_def using F_properties [of "[]"]
    by (simp add: entries_or_insert)
qed

lemma union_branch:
  assumes "props ps"
    and "\<And>b bp. v = JObject b \<Longrightarrow> obj_get b ''properties'' = Some (JObject bp) \<Longrightarrow> props bp"
  shows "props (fst (union_branch kw (ps, req) v))"
proof (cases "as_object v")
  case (Some b)
  then show ?thesis using insert_branch_props [OF assms] by (simp add: union_branch_def)
qed (use assms in \<open>simp add: union_branch_def\<close>)

lemma union_branches:
  "props ps \<Longrightarrow> (\<And>b bp. JObject b \<in> set bs \<Longrightarrow> obj_get b ''properties'' = Some (JObject bp) \<Longrightarrow> props bp) \<Longrightarrow>
   props (fst (foldl (union_branch kw) (ps, req) bs))"
proof (induction bs arbitrary: ps req)
  case (Cons v bs)
  obtain ps1 req1 where step: "union_branch kw (ps, req) v = (ps1, req1)"
    by (cases "union_branch kw (ps, req) v") auto
  have "props (fst (union_branch kw (ps, req) v))"
    by (rule union_branch [OF Cons.prems(1)]) (use Cons.prems(2) in auto)
  then have "props ps1" using step by simp
  then have "props (fst (foldl (union_branch kw) (ps1, req1) bs))"
    by (rule Cons.IH) (use Cons.prems(2) in auto)
  then show ?case using step by simp
qed simp

lemma union_keyword:
  assumes "entries F out" and "props ps" and "kw \<in> {''oneOf'', ''anyOf'', ''allOf''}"
    and "union_keyword (out, ps, req, saw) kw = (out', ps', req', saw')"
  shows "entries F out' \<and> props ps'"
proof (cases "\<exists>bs. obj_get out kw = Some (JArray bs)")
  case True
  then obtain bs where bs: "obj_get out kw = Some (JArray bs)" by blast
  have "props bp" if "JObject b \<in> set bs" "obj_get b ''properties'' = Some (JObject bp)" for b bp
    using F_branch [OF assms(3), of bs b bp] entries_get [OF assms(1) bs] that by simp
  then have "props (fst (foldl (union_branch kw) (ps, req) bs))" using union_branches [OF assms(2)] by blast
  then show ?thesis
    using assms(1,4) bs by (auto simp: union_keyword_def entries_remove Let_def split: prod.splits)
next
  case False
  then have "union_keyword (out, ps, req, saw) kw = (obj_remove kw out, ps, req, saw)"
    by (auto simp: union_keyword_def split: option.split Json.split)
  then show ?thesis using assms(1,2,4) by (simp add: entries_remove)
qed

lemma union_keywords:
  "entries F out \<Longrightarrow> props ps \<Longrightarrow> set kws \<subseteq> {''oneOf'', ''anyOf'', ''allOf''} \<Longrightarrow>
   foldl union_keyword (out, ps, req, saw) kws = (out', ps', req', saw') \<Longrightarrow> entries F out' \<and> props ps'"
proof (induction kws arbitrary: out ps req saw)
  case (Cons kw kws)
  obtain out1 ps1 req1 saw1 where step: "union_keyword (out, ps, req, saw) kw = (out1, ps1, req1, saw1)"
    by (cases "union_keyword (out, ps, req, saw) kw") auto
  have "entries F out1 \<and> props ps1" using union_keyword [OF Cons.prems(1,2) _ step] Cons.prems(3) by simp
  then show ?case using Cons.IH [of out1 ps1 req1 saw1] Cons.prems(3,4) step by simp
qed simp

lemma promote: "entries F m \<Longrightarrow> entries F (promote_required names m)"
  by (simp add: promote_required_def Let_def entries_put entries_or_insert F_required
      split: option.split Json.split)

lemma flatten_top:
  assumes m: "entries F m"
  shows "\<exists>n. flatten_top_level_combiners (JObject m) = JObject n \<and> entries F n"
proof -
  let ?ps = "case Option.bind (obj_get m ''properties'') as_object of Some p \<Rightarrow> p | None \<Rightarrow> []"
  obtain out ps req saw where fold:
    "foldl union_keyword (m, ?ps, [], False) [''oneOf'', ''anyOf'', ''allOf''] = (out, ps, req, saw)"
    by (cases "foldl union_keyword (m, ?ps, [], False) [''oneOf'', ''anyOf'', ''allOf'']") auto
  have res: "entries F out" "props ps" using union_keywords [OF m own_props [OF m] _ fold] by auto
  let ?n = "prune_dangling_required (promote_required req
              (obj_put ''properties'' (JObject ps) (obj_put ''type'' (JString ''object'') out)))"
  have "entries F ?n"
    using res by (intro prune promote entries_put) (simp_all add: F_type F_properties)
  moreover have "flatten_top_level_combiners (JObject m) = JObject (if saw then ?n else out)"
    unfolding flatten_top_level_combiners_def as_object.simps option.case Let_def fold prod.case by simp
  ultimately show ?thesis using res(1) by auto
qed

end

end
