(* ===== verification/Schema_Walk.thy ===== *)
theory Schema_Walk
  imports Schema_Clean
begin

text \<open>
  Predicates over the objects at the schema positions of a value, and their truth after the walk: the
  conformance check is such a predicate, and so is the absence of a keyword or of a format.
\<close>

section \<open>Order of the keys\<close>

lemma obj_ok_merge_branch: "obj_ok (fst acc) \<Longrightarrow> obj_ok (fst (merge_branch acc v))"
  by (cases acc) (simp add: merge_branch_def Let_def obj_ok_put split: option.split)

lemma obj_ok_merge_branches: "obj_ok (fst acc) \<Longrightarrow> obj_ok (fst (foldl merge_branch acc bs))"
  by (induction bs arbitrary: acc) (simp_all add: obj_ok_merge_branch)

lemma obj_ok_merge_all_of:
  assumes "obj_ok m"
  shows "obj_ok (merge_all_of_branches m)"
proof (cases "\<exists>bs. obj_get m ''allOf'' = Some (JArray bs)")
  case True
  then obtain bs where bs: "obj_get m ''allOf'' = Some (JArray bs)" by blast
  let ?m = "obj_remove ''allOf'' m"
  let ?ps = "case Option.bind (obj_get ?m ''properties'') as_object of Some p \<Rightarrow> p | None \<Rightarrow> []"
  let ?rq = "case Option.bind (obj_get ?m ''required'') as_array of Some names \<Rightarrow> str_items names | None \<Rightarrow> []"
  obtain out ps req where fold: "foldl merge_branch (?m, ?ps, ?rq) bs = (out, ps, req)"
    by (cases "foldl merge_branch (?m, ?ps, ?rq) bs") auto
  have "obj_ok out" using obj_ok_merge_branches [of "(?m, ?ps, ?rq)" bs] assms fold by (simp add: obj_ok_remove)
  then show ?thesis
    using bs fold by (simp add: merge_all_of_branches_def Let_def obj_ok_prune obj_ok_put obj_ok_remove)
qed (use assms in \<open>auto simp: merge_all_of_branches_def obj_ok_remove split: option.split Json.split\<close>)

lemma obj_ok_shape: "obj_ok m \<Longrightarrow> obj_ok (shape_object spec m)"
  by (simp add: shape_object_def Let_def obj_ok_or_insert obj_ok_merge_all_of obj_ok_prune)

text \<open>An entry is dropped, turned into an \<open>enum\<close>, kept as a format, or put under its new name.\<close>

lemma walk_entry_cases:
  "walk_entry spec q out k v w \<in>
    {out, obj_put ''enum'' (JArray [v]) out, obj_put ''format'' v out,
     put_or_extend (if k = ''oneOf'' \<and> tf_one_of_as_any_of (transforms spec) then ''anyOf'' else k) w out}"
  unfolding walk_entry_def Let_def by (simp split: option.split)

lemma obj_ok_put_or_extend: "obj_ok out \<Longrightarrow> obj_ok (put_or_extend k w out)"
  by (simp add: put_or_extend_def obj_ok_put split: option.split Json.split)

lemma obj_ok_walk_entry:
  assumes "obj_ok out"
  shows "obj_ok (walk_entry spec q out k v w)"
  using walk_entry_cases [of spec q out k v w] assms
  by (elim insertE) (simp_all only: empty_iff obj_ok_put obj_ok_put_or_extend)

lemma obj_ok_union_keyword: "obj_ok (fst acc) \<Longrightarrow> obj_ok (fst (union_keyword acc kw))"
  by (cases acc) (auto simp: union_keyword_def obj_ok_remove Let_def split: option.split Json.split prod.split)

lemma obj_ok_union_keywords: "obj_ok (fst acc) \<Longrightarrow> obj_ok (fst (foldl union_keyword acc kws))"
  by (induction kws arbitrary: acc) (simp_all add: obj_ok_union_keyword)

lemma obj_ok_promote: "obj_ok m \<Longrightarrow> obj_ok (promote_required names m)"
  by (simp add: promote_required_def Let_def obj_ok_put obj_ok_or_insert split: option.split Json.split)

section \<open>Schema positions\<close>

function (sequential) schema_all :: "(JsonMap \<Rightarrow> bool) \<Rightarrow> Json \<Rightarrow> bool"
and value_all :: "(JsonMap \<Rightarrow> bool) \<Rightarrow> string \<Rightarrow> Json \<Rightarrow> bool" where
  "schema_all Q (JObject m) \<longleftrightarrow> Q m \<and> list_all (\<lambda>e. value_all Q (fst e) (snd e)) m"
| "schema_all Q (JArray xs) \<longleftrightarrow> list_all (schema_all Q) xs"
| "schema_all Q v \<longleftrightarrow> True"
| "value_all Q k v \<longleftrightarrow> (case keyword_role k of
       SubschemaMap \<Rightarrow> (case v of JObject cs \<Rightarrow> list_all (\<lambda>c. schema_all Q (snd c)) cs | _ \<Rightarrow> True)
     | SubschemaArray \<Rightarrow> (case v of JArray xs \<Rightarrow> list_all (schema_all Q) xs | _ \<Rightarrow> True)
     | Subschema \<Rightarrow> schema_all Q v
     | Data \<Rightarrow> True)"
  by pat_completeness auto
termination
  by (relation "measure (\<lambda>p. case p of Inl (_, v) \<Rightarrow> 2 * size v | Inr (_, _, v) \<Rightarrow> 2 * size v + 1)")
    (auto dest!: size_entry size_item)

declare value_all.simps [simp del] schema_all.simps(1) [simp del]

lemma schema_all_object: "schema_all Q (JObject m) \<longleftrightarrow> Q m \<and> entries (value_all Q) m"
  by (simp add: entries_def schema_all.simps(1))

lemma roles [simp]:
  "keyword_role ''properties'' = SubschemaMap" "keyword_role ''anyOf'' = SubschemaArray"
  "keyword_role ''oneOf'' = SubschemaArray" "keyword_role ''allOf'' = SubschemaArray"
  "keyword_role ''type'' = Data" "keyword_role ''required'' = Data" "keyword_role ''enum'' = Data"
  "keyword_role ''format'' = Data" "keyword_role ''const'' = Data"
  by (simp_all add: keyword_role_def SUBSCHEMA_MAP_KEYWORDS_def SUBSCHEMA_KEYWORDS_def
      SUBSCHEMA_ARRAY_KEYWORDS_def DATA_KEYWORDS_def)

lemma value_all_data: "keyword_role k = Data \<Longrightarrow> value_all Q k v"
  by (simp add: value_all.simps)

lemma value_all_append:
  "value_all Q k (JArray xs) \<Longrightarrow> value_all Q k (JArray ys) \<Longrightarrow> value_all Q k (JArray (xs @ ys))"
  by (auto simp: value_all.simps split: KeywordRole.split)

interpretation clean: entry_law "value_all Q" "schema_all Q" for Q
proof
  fix kw bs b ps
  assume "kw \<in> {''oneOf'', ''anyOf'', ''allOf''}" "value_all Q kw (JArray bs)" "JObject b \<in> set bs"
    and ps: "obj_get b ''properties'' = Some (JObject ps)"
  then have "list_all (schema_all Q) bs" by (elim insertE) (auto simp: value_all.simps)
  then have "schema_all Q (JObject b)" using \<open>JObject b \<in> set bs\<close> by (simp add: list_all_iff)
  then have "value_all Q ''properties'' (JObject ps)"
    using ps entries_get [of "value_all Q" b] by (simp only: schema_all_object)
  then show "entries (\<lambda>_. schema_all Q) ps" by (simp add: value_all.simps entries_def)
qed (simp_all add: value_all.simps entries_def)

section \<open>What the walk admits\<close>

definition admitted :: "DialectSpec \<Rightarrow> LearnedQuirks \<Rightarrow> string \<Rightarrow> Json \<Rightarrow> bool" where
  "admitted spec q k v \<longleftrightarrow> supports spec k
     \<and> (is_droppable k \<and> k \<in> set (rejected_keywords q) \<longrightarrow> k = ''anyOf'' \<and> tf_one_of_as_any_of (transforms spec))
     \<and> (k = ''format'' \<longrightarrow> (\<exists>f. v = JString f \<and> supports_format spec f \<and> f \<notin> set (rejected_formats q)))"

lemma admitted_kept: "k \<in> {''type'', ''properties'', ''required'', ''enum''} \<Longrightarrow> admitted spec q k v"
  by (auto simp: admitted_def supports_def UNIVERSAL_KEYWORDS_def is_droppable_def LOAD_BEARING_KEYWORDS_def)

interpretation admit: entry_law "admitted spec q" "\<lambda>_. True" for spec q
  by unfold_locales (simp_all add: admitted_kept entries_def list_all_iff)

lemma validate_supports: "validate spec = Inr () \<Longrightarrow> \<not> is_droppable k \<Longrightarrow> supports spec k"
  by (auto simp: validate_def find_None_iff is_droppable_def split: option.splits)

lemma admitted_walk_entry:
  assumes valid: "validate spec = Inr ()" and out: "entries (admitted spec q) out"
  shows "entries (admitted spec q) (walk_entry spec q out k v w)"
proof -
  let ?k = "if k = ''oneOf'' \<and> tf_one_of_as_any_of (transforms spec) then ''anyOf'' else k"
  consider (drop) "(\<not> supports spec ?k \<or> k \<in> set (rejected_keywords q)) \<and> is_droppable k"
    | (format) "\<not> ((\<not> supports spec ?k \<or> k \<in> set (rejected_keywords q)) \<and> is_droppable k)" "k = ''format''"
    | (keep) "\<not> ((\<not> supports spec ?k \<or> k \<in> set (rejected_keywords q)) \<and> is_droppable k)" "k \<noteq> ''format''"
    by blast
  then show ?thesis
  proof cases
    case drop
    then show ?thesis
      unfolding walk_entry_def Let_def using out by (simp add: entries_put admitted_kept)
  next
    case format
    have "is_droppable ''format''" by (simp add: is_droppable_def LOAD_BEARING_KEYWORDS_def)
    then have "admitted spec q ''format'' (JString f)"
      if "supports_format spec f" "f \<notin> set (rejected_formats q)" for f
      using that format by (auto simp: admitted_def)
    moreover have "walk_entry spec q out k v w = (case as_str v of
        Some f \<Rightarrow> if supports_format spec f \<and> f \<notin> set (rejected_formats q) then obj_put ''format'' v out else out
      | None \<Rightarrow> out)"
      unfolding walk_entry_def Let_def using format by auto
    ultimately show ?thesis using out by (cases v) (simp_all add: entries_put)
  next
    case keep
    have "admitted spec q ?k x" for x
    proof (cases "k = ''oneOf'' \<and> tf_one_of_as_any_of (transforms spec)")
      case True
      then have "supports spec ''anyOf''" using keep(1) by (simp add: is_droppable_def LOAD_BEARING_KEYWORDS_def)
      then show ?thesis using True by (simp add: admitted_def)
    next
      case False
      then have "supports spec k \<and> k \<notin> set (rejected_keywords q) \<or> \<not> is_droppable k"
        using keep(1) by (simp split: if_splits)
      then have "supports spec k" "is_droppable k \<Longrightarrow> k \<notin> set (rejected_keywords q)"
        using validate_supports [OF valid, of k] by blast+
      then have "admitted spec q k x" using keep(2) unfolding admitted_def by blast
      then show ?thesis by (simp only: False if_False)
    qed
    note adm = this
    have "walk_entry spec q out k v w = put_or_extend ?k w out"
      unfolding walk_entry_def Let_def by (simp only: keep if_False)
    then show ?thesis using out adm by (simp add: entries_put_or_extend)
  qed
qed

lemma value_all_walk_entry:
  assumes out: "entries (value_all Q) out" and w: "value_all Q k w"
  shows "entries (value_all Q) (walk_entry spec q out k v w)"
proof -
  let ?k = "if k = ''oneOf'' \<and> tf_one_of_as_any_of (transforms spec) then ''anyOf'' else k"
  have wk: "value_all Q ?k w" using w by (auto simp: value_all.simps)
  have "entries (value_all Q) (put_or_extend ?k w out)"
    by (rule entries_put_or_extend [OF out wk]) (use value_all_append entries_get [OF out] wk in blast)
  moreover have "entries (value_all Q) (obj_put ''enum'' x out)" "entries (value_all Q) (obj_put ''format'' x out)" for x
    using out by (simp_all add: entries_put value_all_data)
  ultimately show ?thesis
    using out walk_entry_cases [of spec q out k v w] by (elim insertE) (simp_all only: empty_iff)
qed

text \<open>The object that the entries of \<open>m\<close> build up, before it is shaped.\<close>

definition walked_entries :: "DialectSpec \<Rightarrow> LearnedQuirks \<Rightarrow> JsonMap \<Rightarrow> JsonMap" where
  "walked_entries spec q m =
     foldl (\<lambda>out e. walk_entry spec q out (fst e) (snd e) (walk_value spec q (fst e) (snd e))) [] m"

lemma walk_object: "walk spec q (JObject m) = JObject (shape_object spec (walked_entries spec q m))"
  by (simp add: walked_entries_def)

lemma walked_entries_law:
  assumes "P []" and "\<And>out e. P out \<Longrightarrow> e \<in> set m \<Longrightarrow>
    P (walk_entry spec q out (fst e) (snd e) (walk_value spec q (fst e) (snd e)))"
  shows "P (walked_entries spec q m)"
  using assms(2) unfolding walked_entries_def
proof (induction m rule: rev_induct)
  case (snoc e m)
  then show ?case by simp
qed (simp add: assms(1))

lemma admitted_walked: "validate spec = Inr () \<Longrightarrow> entries (admitted spec q) (walked_entries spec q m)"
  by (rule walked_entries_law) (simp_all add: admitted_walk_entry)

lemma obj_ok_walked: "obj_ok (walked_entries spec q m)"
  by (rule walked_entries_law) (simp_all add: obj_ok_walk_entry)

declare walk.simps(1) [simp del] walk_value.simps [simp del]

lemma schema_all_walk_aux:
  assumes "\<And>m. obj_ok m \<Longrightarrow> entries (admitted spec q) m \<Longrightarrow> Q (shape_object spec m)" and "validate spec = Inr ()"
  shows "spec' = spec \<Longrightarrow> q' = q \<Longrightarrow> schema_all Q (walk spec' q' v)"
    and "spec' = spec \<Longrightarrow> q' = q \<Longrightarrow> value_all Q k (walk_value spec' q' k v)"
proof (induction spec' q' v and spec' q' k v rule: walk_walk_value.induct)
  case (1 spec' q' m)
  then have vals: "value_all Q (fst e) (walk_value spec q (fst e) (snd e))" if "e \<in> set m" for e
    using that by blast
  have "entries (value_all Q) (walked_entries spec q m)"
    by (rule walked_entries_law) (simp_all add: value_all_walk_entry vals)
  then have "entries (value_all Q) (shape_object spec (walked_entries spec q m))" by (rule clean.shape)
  moreover have "Q (shape_object spec (walked_entries spec q m))"
    using assms(1) [OF obj_ok_walked admitted_walked [OF assms(2)]] .
  ultimately show ?case using 1 by (simp only: walk_object schema_all_object)
next
  case (2 spec' q' items)
  then show ?case by (simp add: list_all_iff)
next
  case (4 spec' q' k v)
  then show ?case
    by (cases v) (auto simp: value_all.simps walk_value.simps walk_object list_all_iff split: KeywordRole.splits)
qed simp_all

lemmas schema_all_walk = schema_all_walk_aux(1) [OF _ _ refl refl]

text \<open>The root collapse and the object wrapper keep such a predicate when they establish it at the root.\<close>

definition root_object :: "DialectSpec \<Rightarrow> Json \<Rightarrow> Json" where
  "root_object spec out = (if tf_require_properties_on_objects (transforms spec)
     then (case as_object out of
             Some m \<Rightarrow>
               if m = [] then JObject (obj_put ''properties'' (JObject [])
                                        (obj_put ''type'' (JString ''object'') m))
               else out
           | None \<Rightarrow> JObject (obj_of [(''type'', JString ''object''), (''properties'', JObject [])]))
     else out)"

lemma apply_steps: "apply_with_quirks v spec q = root_object spec
   (if tf_flatten_all_combiners (transforms spec) then flatten_all_combiners (walk spec q v)
    else if tf_flatten_top_level_combiners (transforms spec) then flatten_top_level_combiners (walk spec q v)
    else walk spec q v)"
  by (simp add: apply_with_quirks_def root_object_def Let_def)

end
