(* ===== verification/Schema_Conform.thy ===== *)
theory Schema_Conform
  imports Schema_Walk
begin

text \<open>
  The conformance check as a predicate over schema positions, the objects that the normalisation produces, and
  the keywords and formats it leaves out.
\<close>

section \<open>The check as a predicate\<close>

definition required_declared :: "JsonMap \<Rightarrow> Json \<Rightarrow> bool" where
  "required_declared m r \<longleftrightarrow> (case obj_get m ''properties'' of
     Some (JObject ps) \<Rightarrow> (case r of JArray names \<Rightarrow>
       list_all (\<lambda>n. obj_get ps n \<noteq> None) (str_items names) | _ \<Rightarrow> True)
   | _ \<Rightarrow> True)"

definition key_conforms :: "DialectSpec \<Rightarrow> JsonMap \<Rightarrow> string \<Rightarrow> Json \<Rightarrow> bool" where
  "key_conforms spec m k v \<longleftrightarrow> supports spec k
     \<and> (case as_str v of Some f \<Rightarrow> k = ''format'' \<longrightarrow> supports_format spec f | None \<Rightarrow> True)
     \<and> \<not> (tf_flatten_all_combiners (transforms spec) \<and> k \<in> {''anyOf'', ''oneOf'', ''allOf''})
     \<and> (tf_prune_dangling_required (transforms spec) \<and> k = ''required'' \<longrightarrow> required_declared m v)"

definition object_conforms :: "DialectSpec \<Rightarrow> JsonMap \<Rightarrow> bool" where
  "object_conforms spec m \<longleftrightarrow> entries (key_conforms spec m) m
     \<and> \<not> (tf_require_properties_on_objects (transforms spec)
          \<and> obj_get m ''type'' = Some (JString ''object'') \<and> obj_get m ''properties'' = None)"

lemma check_required_Nil: "check_required m v path = [] \<longleftrightarrow> required_declared m v"
proof (cases "obj_get m ''properties''")
  case (Some p)
  then show ?thesis
    by (cases p; cases v) (simp_all add: check_required_def required_declared_def list_all_iff filter_empty_conv)
qed (simp add: check_required_def required_declared_def)

lemma if_Nil: "(if b then [] else [x]) = [] \<longleftrightarrow> b" "(if b then xs else []) = [] \<longleftrightarrow> (b \<longrightarrow> xs = [])"
  by auto

lemma key_errors_Nil: "key_errors spec m path k v = [] \<longleftrightarrow> key_conforms spec m k v"
  unfolding key_errors_def key_conforms_def append_is_Nil_conv if_Nil check_required_Nil
  by (cases v) (auto simp: if_Nil)

lemma object_errors_Nil: "entries (key_conforms spec m) m \<Longrightarrow> object_errors spec m path = [] \<longleftrightarrow> object_conforms spec m"
  by (simp add: object_errors_def object_conforms_def)

lemma list_all_enumerate: "list_all (\<lambda>(i, x). P x) (enumerate n xs) \<longleftrightarrow> list_all P xs"
  by (induction xs arbitrary: n) auto

lemma enumerate_all:
  "(\<And>i x. (i, x) \<in> set (enumerate 0 xs) \<Longrightarrow> P i x \<longleftrightarrow> R x) \<Longrightarrow>
   (\<forall>p \<in> set (enumerate 0 xs). case p of (i, x) \<Rightarrow> P i x) \<longleftrightarrow> list_all R xs"
  using list_all_enumerate [of R 0 xs] by (auto simp: list_all_iff)

declare conform_value.simps [simp del] conform.simps(1) [simp del]

lemma conform_Nil:
  "conform spec v path = [] \<longleftrightarrow> schema_all (object_conforms spec) v"
  "conform_value spec k v path = [] \<longleftrightarrow> value_all (object_conforms spec) k v"
proof (induction spec v path and spec k v path rule: conform_conform_value.induct)
  case (1 spec m path)
  have "concat (map (\<lambda>e. key_errors spec m path (fst e) (snd e)
            @ conform_value spec (fst e) (snd e) (key_path path (fst e))) m) = [] \<longleftrightarrow>
      entries (key_conforms spec m) m \<and> entries (value_all (object_conforms spec)) m"
    using 1 by (auto simp: key_errors_Nil entries_def list_all_iff)
  moreover have "object_conforms spec m \<Longrightarrow> entries (key_conforms spec m) m" by (simp add: object_conforms_def)
  ultimately show ?case
    unfolding conform.simps(1) append_is_Nil_conv schema_all_object
    using object_errors_Nil [of spec m path] by blast
next
  case (2 spec items path)
  have "conform spec (JArray items) path = [] \<longleftrightarrow>
      (\<forall>p \<in> set (enumerate 0 items). case p of (i, x) \<Rightarrow> conform spec x (index_path path i) = [])"
    by auto
  also have "\<dots> \<longleftrightarrow> list_all (schema_all (object_conforms spec)) items"
    by (rule enumerate_all) (use 2 in simp)
  finally show ?case by simp
next
  case (4 spec k v path)
  show ?case
  proof (cases "keyword_role k")
    case SubschemaMap
    show ?thesis
    proof (cases v)
      case (JObject cs)
      have "conform spec (snd c) (key_path path (fst c)) = [] \<longleftrightarrow> schema_all (object_conforms spec) (snd c)"
        if "c \<in> set cs" for c
        using 4(2) [OF SubschemaMap JObject that] by blast
      then show ?thesis
        using SubschemaMap JObject by (simp add: value_all.simps conform_value.simps list_all_iff)
    qed (use SubschemaMap in \<open>simp_all add: value_all.simps conform_value.simps\<close>)
  next
    case SubschemaArray
    show ?thesis
    proof (cases v)
      case (JArray items)
      have "conform_value spec k v path = [] \<longleftrightarrow>
          (\<forall>p \<in> set (enumerate 0 items). case p of (i, x) \<Rightarrow> conform spec x (index_path path i) = [])"
        using SubschemaArray JArray by (auto simp: conform_value.simps)
      also have "\<dots> \<longleftrightarrow> list_all (schema_all (object_conforms spec)) items"
        by (rule enumerate_all) (use 4(3) SubschemaArray JArray in simp)
      finally show ?thesis using SubschemaArray JArray by (simp add: value_all.simps)
    qed (use SubschemaArray in \<open>simp_all add: value_all.simps conform_value.simps\<close>)
  qed (use 4(1) in \<open>simp_all add: value_all.simps conform_value.simps\<close>)
qed simp_all

lemma unsupported_Nil:
  "must_not_contain_unsupported_constructs v spec = [] \<longleftrightarrow> schema_all (object_conforms spec) v"
  by (simp add: must_not_contain_unsupported_constructs_def conform_Nil)

section \<open>Shaped objects\<close>

text \<open>What the rewrites establish at an object: pruned required names, and properties where an object type asks for them.\<close>

definition shaped :: "DialectSpec \<Rightarrow> JsonMap \<Rightarrow> bool" where
  "shaped spec m \<longleftrightarrow> obj_ok m
     \<and> (tf_prune_dangling_required (transforms spec) \<and> \<not> tf_require_properties_on_objects (transforms spec)
        \<longrightarrow> required_ok m)
     \<and> (tf_require_properties_on_objects (transforms spec) \<and> obj_get m ''type'' = Some (JString ''object'')
        \<longrightarrow> obj_get m ''properties'' \<noteq> None)"

lemma required_ok_merge: "required_ok m \<Longrightarrow> required_ok (merge_all_of_branches m)"
  by (auto simp: merge_all_of_branches_def Let_def required_ok_prune required_ok_remove
      split: option.split Json.split prod.split)

lemma shaped_shape:
  assumes "obj_ok m"
  shows "shaped spec (shape_object spec m)"
proof -
  let ?t = "transforms spec"
  let ?p = "if tf_prune_dangling_required ?t then prune_dangling_required m else m"
  define a where "a = (if tf_merge_all_of_branches ?t then merge_all_of_branches ?p else ?p)"
  have s: "shape_object spec m =
      (if tf_require_properties_on_objects ?t \<and> is_object_typed a then obj_or_insert ''properties'' (JObject []) a else a)"
    by (simp only: shape_object_def Let_def a_def)
  have pruned: "required_ok a" if "tf_prune_dangling_required ?t"
    using that by (simp add: a_def required_ok_merge required_ok_prune)
  have ok: "obj_ok (shape_object spec m)" by (rule obj_ok_shape [OF assms])
  show ?thesis
  proof (cases "tf_require_properties_on_objects ?t \<and> is_object_typed a")
    case True
    then have "shape_object spec m = obj_or_insert ''properties'' (JObject []) a" using s by simp
    then have "obj_get (shape_object spec m) ''properties'' \<noteq> None" by simp
    then show ?thesis using ok True unfolding shaped_def by blast
  next
    case False
    then have a: "shape_object spec m = a" using s by auto
    have "obj_get a ''type'' \<noteq> Some (JString ''object'')" if "tf_require_properties_on_objects ?t"
      using False that by (auto simp: is_object_typed_def)
    then show ?thesis using ok pruned unfolding shaped_def a by blast
  qed
qed

lemma fst_union_keyword: "fst (union_keyword acc kw) = obj_remove kw (fst acc)"
  by (cases acc) (auto simp: union_keyword_def Let_def split: option.split Json.split prod.split)

lemma fst_union_keywords: "fst (foldl union_keyword acc kws) = foldl (\<lambda>m kw. obj_remove kw m) (fst acc) kws"
  by (induction kws arbitrary: acc) (simp_all add: fst_union_keyword)

lemma get_promote: "k \<noteq> ''required'' \<Longrightarrow> obj_get (promote_required names m) k = obj_get m k"
  by (simp add: promote_required_def Let_def split: option.split Json.split)

lemma flatten_top_cases:
  fixes m
  defines "out \<equiv> foldl (\<lambda>m kw. obj_remove kw m) m [''oneOf'', ''anyOf'', ''allOf'']"
  shows "flatten_top_level_combiners (JObject m) = JObject out \<or>
    (\<exists>req ps. flatten_top_level_combiners (JObject m) = JObject (prune_dangling_required (promote_required req
       (obj_put ''properties'' (JObject ps) (obj_put ''type'' (JString ''object'') out)))))"
proof -
  let ?ps = "case Option.bind (obj_get m ''properties'') as_object of Some p \<Rightarrow> p | None \<Rightarrow> []"
  obtain out' ps req saw where fold:
    "foldl union_keyword (m, ?ps, [], False) [''oneOf'', ''anyOf'', ''allOf''] = (out', ps, req, saw)"
    by (cases "foldl union_keyword (m, ?ps, [], False) [''oneOf'', ''anyOf'', ''allOf'']") auto
  have "out' = out"
    using fst_union_keywords [of "(m, ?ps, [], False)" "[''oneOf'', ''anyOf'', ''allOf'']"]
    unfolding fold out_def by (simp only: fst_conv)
  then show ?thesis
    unfolding flatten_top_level_combiners_def as_object.simps option.case Let_def fold prod.case by auto
qed

lemma shaped_flatten_top:
  assumes "shaped spec m" and "flatten_top_level_combiners (JObject m) = JObject n"
  shows "shaped spec n"
proof -
  let ?out = "foldl (\<lambda>m kw. obj_remove kw m) m [''oneOf'', ''anyOf'', ''allOf'']"
  consider "n = ?out" | req ps where "n = prune_dangling_required (promote_required req
       (obj_put ''properties'' (JObject ps) (obj_put ''type'' (JString ''object'') ?out)))"
    using flatten_top_cases [of m] assms(2) by auto
  then show ?thesis
  proof cases
    case 1
    then show ?thesis using assms(1) by (simp add: shaped_def obj_ok_remove required_ok_remove)
  next
    case (2 req ps)
    have "obj_ok n" unfolding 2 using assms(1)
      by (simp add: shaped_def obj_ok_prune obj_ok_promote obj_ok_put obj_ok_remove)
    moreover have "required_ok n" unfolding 2 by (rule required_ok_prune)
    moreover have "obj_get n ''properties'' \<noteq> None" unfolding 2 by (simp add: get_prune get_promote)
    ultimately show ?thesis by (simp add: shaped_def)
  qed
qed

lemma shaped_empty_object:
  "shaped spec (obj_put ''properties'' (JObject []) (obj_put ''type'' (JString ''object'') []))"
  "shaped spec (obj_of [(''type'', JString ''object''), (''properties'', JObject [])])"
  by (simp_all add: shaped_def obj_of_def required_ok_def obj_ok_def obj_get_def)

section \<open>Normalised schemas\<close>

lemma walked_root:
  assumes "validate spec = Inr ()"
    and "\<And>m. entries (admitted spec q) m \<Longrightarrow> shaped spec m \<Longrightarrow> Q m"
    and "walk spec q v = JObject m"
  shows "entries (admitted spec q) m" and "shaped spec m" and "entries (value_all Q) m"
proof -
  obtain m0 where v: "v = JObject m0" using assms(3) by (cases v) auto
  then have m: "m = shape_object spec (walked_entries spec q m0)" using assms(3) by (simp add: walk_object)
  show "entries (admitted spec q) m" unfolding m by (rule admit.shape [OF admitted_walked [OF assms(1)]])
  show "shaped spec m" unfolding m by (rule shaped_shape [OF obj_ok_walked])
  have "schema_all Q (walk spec q v)"
    by (rule schema_all_walk [OF _ assms(1)]) (simp add: assms(2) admit.shape shaped_shape)
  then show "entries (value_all Q) m" using assms(3) by (simp add: schema_all_object)
qed

lemma apply_all:
  assumes valid: "validate spec = Inr ()" and nf: "\<not> tf_flatten_all_combiners (transforms spec)"
    and Q: "\<And>m. entries (admitted spec q) m \<Longrightarrow> shaped spec m \<Longrightarrow> Q m"
  shows "schema_all Q (apply_with_quirks v spec q)"
proof -
  have walked: "schema_all Q (walk spec q v)"
    by (rule schema_all_walk [OF _ valid]) (simp add: Q admit.shape shaped_shape)
  let ?out = "if tf_flatten_top_level_combiners (transforms spec) then flatten_top_level_combiners (walk spec q v)
    else walk spec q v"
  have out: "schema_all Q ?out"
  proof (cases "\<exists>m. walk spec q v = JObject m")
    case True
    then obtain m where m: "walk spec q v = JObject m" by blast
    have root: "entries (admitted spec q) m" "shaped spec m" "entries (value_all Q) m"
      using walked_root [OF valid _ m, of Q] Q by blast+
    obtain n where n: "flatten_top_level_combiners (JObject m) = JObject n" and "entries (admitted spec q) n"
      using admit.flatten_top [OF root(1)] by blast
    moreover have "entries (value_all Q) n" using clean.flatten_top [OF root(3)] n by auto
    ultimately have "schema_all Q (JObject n)"
      using Q shaped_flatten_top [OF root(2) n] by (simp add: schema_all_object)
    then show ?thesis using walked m n by simp
  next
    case False
    then have "flatten_top_level_combiners (walk spec q v) = walk spec q v"
      by (cases "walk spec q v") (simp_all add: flatten_top_level_combiners_def)
    then show ?thesis using walked by simp
  qed
  have empty: "schema_all Q (JObject m)"
    if "m = obj_put ''properties'' (JObject []) (obj_put ''type'' (JString ''object'') [])
      \<or> m = obj_of [(''type'', JString ''object''), (''properties'', JObject [])]" for m
  proof -
    have "entries (admitted spec q) m" "entries (value_all Q) m"
      using that by (auto simp: obj_of_def intro!: entries_put admitted_kept) (auto simp: value_all.simps)
    then show ?thesis using Q shaped_empty_object that by (auto simp: schema_all_object)
  qed
  have "schema_all Q (root_object spec ?out)"
    using out empty by (cases ?out) (simp_all add: root_object_def)
  then show ?thesis by (simp only: apply_steps nf if_False)
qed

lemma object_conforms_shaped:
  assumes m: "entries (admitted spec q) m" "shaped spec m"
    and spec: "\<not> tf_flatten_all_combiners (transforms spec)"
      "\<not> (tf_prune_dangling_required (transforms spec) \<and> tf_require_properties_on_objects (transforms spec))"
  shows "object_conforms spec m"
proof -
  have "key_conforms spec m k v" if kv: "(k, v) \<in> set m" for k v
  proof -
    have adm: "admitted spec q k v" by (rule entries_mem [OF m(1) kv])
    moreover have "required_declared m v" if "k = ''required''" "required_ok m"
      using that kv m(2) obj_get_iff [of m k v]
      by (auto simp: shaped_def required_declared_def required_ok_def list_all_iff str_items_iff
          split: option.splits Json.splits)
    ultimately show ?thesis
      using spec m(2) unfolding key_conforms_def admitted_def shaped_def by (auto split: option.splits)
  qed
  then have "entries (key_conforms spec m) m" by (auto simp: entries_def list_all_iff)
  then show ?thesis using m(2) by (auto simp: object_conforms_def shaped_def)
qed

end
