(* ===== verification/Schema_Meaning.thy ===== *)
theory Schema_Meaning
  imports Schema_Conform
begin

text \<open>
  What the normalisation keeps of a schema: its load-bearing keywords other than \<open>required\<close>, and every declared
  property with its own normalised declaration.
\<close>

section \<open>Values as the parser builds them\<close>

fun json_ok :: "Json \<Rightarrow> bool" where
  "json_ok (JArray xs) \<longleftrightarrow> list_all json_ok xs"
| "json_ok (JObject m) \<longleftrightarrow> obj_ok m \<and> list_all (\<lambda>e. json_ok (snd e)) m"
| "json_ok _ \<longleftrightarrow> True"

lemma json_ok_get: "json_ok (JObject m) \<Longrightarrow> obj_get m k = Some v \<Longrightarrow> json_ok v"
  using obj_get_SomeD by (fastforce simp: list_all_iff)

section \<open>Objects that keep what another one says\<close>

definition declares :: "JsonMap \<Rightarrow> string \<Rightarrow> bool" where
  "declares m name \<longleftrightarrow> (\<exists>ps. obj_get m ''properties'' = Some (JObject ps) \<and> obj_get ps name \<noteq> None)"

definition requires :: "JsonMap \<Rightarrow> string \<Rightarrow> bool" where
  "requires m name \<longleftrightarrow> (\<exists>r. obj_get m ''required'' = Some (JArray r) \<and> JString name \<in> set r)"

text \<open>The entries other than combiners stay as they are (the type of a root may become \<open>object\<close>, when \<open>root\<close>
  says so), properties are added at most, and a declared name stays required.\<close>

definition plain_key :: "string \<Rightarrow> bool" where
  "plain_key k \<longleftrightarrow> k \<notin> {''required'', ''properties'', ''oneOf'', ''anyOf'', ''allOf''}"

definition same_entries :: "bool \<Rightarrow> JsonMap \<Rightarrow> JsonMap \<Rightarrow> bool" where
  "same_entries root m n \<longleftrightarrow> (\<forall>k v. plain_key k \<longrightarrow> obj_get m k = Some v \<longrightarrow>
     obj_get n k = Some v \<or> root \<and> k = ''type'' \<and> obj_get n k = Some (JString ''object''))"

definition extends :: "JsonMap \<Rightarrow> JsonMap \<Rightarrow> bool" where
  "extends ps qs \<longleftrightarrow> (\<forall>j c. obj_get ps j = Some c \<longrightarrow> obj_get qs j = Some c)"

definition more_properties :: "JsonMap \<Rightarrow> JsonMap \<Rightarrow> bool" where
  "more_properties m n \<longleftrightarrow> (obj_get m ''properties'' \<noteq> None \<longrightarrow> obj_get n ''properties'' \<noteq> None) \<and>
     (\<forall>ps. obj_get m ''properties'' = Some (JObject ps) \<longrightarrow>
        (\<exists>qs. obj_get n ''properties'' = Some (JObject qs) \<and> extends ps qs))"

definition keeps :: "bool \<Rightarrow> JsonMap \<Rightarrow> JsonMap \<Rightarrow> bool" where
  "keeps root m n \<longleftrightarrow> same_entries root m n \<and> more_properties m n \<and>
     (\<forall>name. requires m name \<longrightarrow> declares m name \<longrightarrow> requires n name)"

lemma extends_refl [simp]: "extends ps ps"
  by (simp add: extends_def)

lemma extends_trans: "extends ps qs \<Longrightarrow> extends qs rs \<Longrightarrow> extends ps rs"
  by (simp add: extends_def)

lemma same_entries_get:
  "same_entries root m n \<Longrightarrow> plain_key k \<Longrightarrow> obj_get m k = Some v \<Longrightarrow>
    obj_get n k = Some v \<or> root \<and> k = ''type'' \<and> obj_get n k = Some (JString ''object'')"
  by (simp add: same_entries_def)

lemma same_entries_trans:
  assumes "same_entries root m n" and "same_entries root n l"
  shows "same_entries root m l"
  unfolding same_entries_def
proof (intro allI impI)
  fix k v assume k: "plain_key k" and v: "obj_get m k = Some v"
  show "obj_get l k = Some v \<or> root \<and> k = ''type'' \<and> obj_get l k = Some (JString ''object'')"
    using same_entries_get [OF assms(1) k v] same_entries_get [OF assms(2) k] by (elim disjE conjE) auto
qed

lemma more_properties_trans: "more_properties m n \<Longrightarrow> more_properties n l \<Longrightarrow> more_properties m l"
  unfolding more_properties_def by (meson extends_trans)

lemma same_entriesI: "(\<And>k. plain_key k \<Longrightarrow> obj_get n k = obj_get m k) \<Longrightarrow> same_entries root m n"
  by (simp add: same_entries_def)

lemma more_propertiesI: "obj_get n ''properties'' = obj_get m ''properties'' \<Longrightarrow> more_properties m n"
  by (simp add: more_properties_def)

lemma plain_key_cases:
  "plain_key k \<Longrightarrow> k \<noteq> ''required'' \<and> k \<noteq> ''properties'' \<and> k \<noteq> ''oneOf'' \<and> k \<noteq> ''anyOf'' \<and> k \<noteq> ''allOf''"
  by (simp add: plain_key_def)

lemma plain_keys [simp]:
  "plain_key ''type''" "plain_key ''description''" "plain_key ''enum''" "plain_key ''items''"
  by (simp_all add: plain_key_def)

lemma keeps_refl [simp]: "keeps root m m"
  by (simp add: keeps_def same_entriesI more_propertiesI)

lemma more_declares: "more_properties m n \<Longrightarrow> declares m name \<Longrightarrow> declares n name"
  unfolding more_properties_def declares_def extends_def by fastforce

lemma keeps_trans: "keeps root m n \<Longrightarrow> keeps root n l \<Longrightarrow> keeps root m l"
  unfolding keeps_def by (meson same_entries_trans more_properties_trans more_declares)

lemma keeps_root: "keeps False m n \<Longrightarrow> keeps root m n"
  by (simp add: keeps_def same_entries_def)

lemma keeps_same:
  assumes "\<And>k. k \<notin> {''required'', ''oneOf'', ''anyOf'', ''allOf''} \<Longrightarrow> obj_get n k = obj_get m k"
    and "\<And>name. requires m name \<Longrightarrow> declares m name \<Longrightarrow> requires n name"
  shows "keeps root m n"
  using assms plain_key_cases by (simp add: keeps_def same_entriesI more_propertiesI)

lemma requires_put: "k \<noteq> ''required'' \<Longrightarrow> requires (obj_put k v m) name \<longleftrightarrow> requires m name"
  by (simp add: requires_def)

lemma requires_insert: "k \<noteq> ''required'' \<Longrightarrow> requires (obj_or_insert k v m) name \<longleftrightarrow> requires m name"
  by (simp add: requires_def)

lemma requires_prune:
  assumes "requires m name" and "declares m name"
  shows "requires (prune_dangling_required m) name"
proof -
  obtain ps r where ps: "obj_get m ''properties'' = Some (JObject ps)" "name \<in> fst ` set ps"
    and r: "obj_get m ''required'' = Some (JArray r)" "JString name \<in> set r"
    using assms by (auto simp: requires_def declares_def obj_get_None_iff)
  let ?kept = "filter (\<lambda>x. case as_str x of Some n \<Rightarrow> n \<in> set (map fst ps) | None \<Rightarrow> False) r"
  have in_kept: "JString name \<in> set ?kept" using ps(2) r(2) by simp
  then have "?kept \<noteq> []" by (metis empty_iff empty_set)
  then have "prune_dangling_required m = obj_put ''required'' (JArray ?kept) m"
    using ps(1) r(1) by (simp only: prune_dangling_required_def option.case Json.case Let_def if_False)
  then show ?thesis using in_kept by (simp add: requires_def)
qed

lemma keeps_prune: "keeps root m (prune_dangling_required m)"
  by (rule keeps_same) (simp_all add: get_prune requires_prune)

lemma keeps_remove: "k \<in> {''oneOf'', ''anyOf'', ''allOf''} \<Longrightarrow> keeps root m (obj_remove k m)"
  by (rule keeps_same) (auto simp: requires_def)

lemma keeps_names:
  assumes "\<And>name. requires m name \<Longrightarrow> name \<in> set req"
  shows "keeps root m (if req = [] then obj_remove ''required'' m else obj_put ''required'' (JArray (map JString req)) m)"
  using assms by (intro keeps_same) (auto simp: requires_def)

lemma keeps_promote: "keeps root m (promote_required names m)"
proof (rule keeps_same)
  fix name assume "requires m name"
  then obtain r where r: "obj_get m ''required'' = Some (JArray r)" "JString name \<in> set r"
    by (auto simp: requires_def)
  let ?f = "\<lambda>r n. if list_ex (\<lambda>x. as_str x = Some n) r then r else r @ [JString n]"
  have "JString name \<in> set (foldl ?f r names)" using r(2) by (induction names arbitrary: r) auto
  then show "requires (promote_required names m) name"
    using r by (simp add: promote_required_def requires_def)
qed (simp add: promote_required_def Let_def split: option.split Json.split)

lemma keeps_type: "root \<Longrightarrow> keeps root m (obj_put ''type'' (JString ''object'') m)"
  by (simp add: keeps_def same_entries_def more_propertiesI requires_put)

lemma keeps_new_type: "obj_get m ''type'' = None \<Longrightarrow> keeps root m (obj_put ''type'' v m)"
  by (simp add: keeps_def same_entries_def more_propertiesI requires_put)

lemma keeps_insert: "keeps root m (obj_or_insert ''properties'' v m)"
  using plain_key_cases by (simp add: keeps_def same_entries_def more_properties_def requires_insert)

lemma keeps_properties:
  assumes "\<And>ps. obj_get m ''properties'' = Some (JObject ps) \<Longrightarrow> extends ps qs"
  shows "keeps root m (obj_put ''properties'' (JObject qs) m)"
  using assms plain_key_cases by (simp add: keeps_def same_entries_def more_properties_def requires_put)

lemma obj_get_or_insert_all: "obj_get ps j = Some c \<Longrightarrow> obj_get (or_insert_all ps qs) j = Some c"
  unfolding or_insert_all_def
proof (induction qs arbitrary: ps)
  case (Cons e qs)
  have "obj_get (obj_or_insert (fst e) (snd e) ps) j = Some c" using Cons.prems by auto
  then show ?case using Cons.IH by simp
qed simp

lemma extends_branch: "extends ps (case x of Some bp \<Rightarrow> or_insert_all ps bp | None \<Rightarrow> ps)"
  by (simp add: extends_def obj_get_or_insert_all split: option.split)

lemma set_push_new: "set (push_new names new) = set names \<union> set new"
  unfolding push_new_def by (induction new arbitrary: names) auto

definition branch_law :: "JsonMap \<times> JsonMap \<times> string list \<Rightarrow> JsonMap \<times> JsonMap \<times> string list \<Rightarrow> bool" where
  "branch_law a b \<longleftrightarrow> keeps False (fst a) (fst b) \<and>
     (\<forall>k \<in> {''properties'', ''required''}. obj_get (fst b) k = obj_get (fst a) k) \<and>
     extends (fst (snd a)) (fst (snd b)) \<and> set (snd (snd a)) \<subseteq> set (snd (snd b))"

lemma branch_law_refl: "branch_law a a"
  by (simp add: branch_law_def)

lemma branch_law_trans: "branch_law a b \<Longrightarrow> branch_law b c \<Longrightarrow> branch_law a c"
  unfolding branch_law_def by (intro conjI) (blast intro: keeps_trans, simp, blast intro: extends_trans, blast)

lemma branch_law_step: "branch_law (out, ps, req) (merge_branch (out, ps, req) v)"
proof (cases "as_object v")
  case (Some b)
  let ?out = "case (obj_get out ''type'', obj_get b ''type'') of
      (None, Some t) \<Rightarrow> obj_put ''type'' t out | _ \<Rightarrow> out"
  have "keeps False out ?out \<and> (\<forall>k \<in> {''properties'', ''required''}. obj_get ?out k = obj_get out k)"
    by (simp add: keeps_new_type split: option.split)
  moreover have "set req \<subseteq> set (case Option.bind (obj_get b ''required'') as_array of
      Some br \<Rightarrow> push_new req (str_items br) | None \<Rightarrow> req)" by (simp add: set_push_new split: option.split)
  ultimately show ?thesis
    using extends_branch [of ps "Option.bind (obj_get b ''properties'') as_object"]
    unfolding merge_branch_def branch_law_def prod.case Some option.case Let_def fst_conv snd_conv by blast
qed (simp add: merge_branch_def branch_law_refl)

lemma branch_law_steps: "branch_law acc (foldl merge_branch acc bs)"
proof (induction bs arbitrary: acc)
  case (Cons v bs)
  have "branch_law acc (merge_branch acc v)" using branch_law_step by (cases acc) metis
  then show ?case using Cons.IH branch_law_trans by simp
qed (simp add: branch_law_refl)

lemma keeps_own:
  "extends (case Option.bind (obj_get m ''properties'') as_object of Some p \<Rightarrow> p | None \<Rightarrow> []) qs \<Longrightarrow>
   obj_get m ''properties'' = Some (JObject ps) \<Longrightarrow> extends ps qs"
  by simp

lemma keeps_merge_all_of: "keeps False m (merge_all_of_branches m)"
proof (cases "\<exists>bs. obj_get m ''allOf'' = Some (JArray bs)")
  case True
  then obtain bs where bs: "obj_get m ''allOf'' = Some (JArray bs)" by blast
  let ?m = "obj_remove ''allOf'' m"
  let ?ps = "case Option.bind (obj_get ?m ''properties'') as_object of Some p \<Rightarrow> p | None \<Rightarrow> []"
  let ?rq = "case Option.bind (obj_get ?m ''required'') as_array of Some names \<Rightarrow> str_items names | None \<Rightarrow> []"
  obtain out ps req where fold: "foldl merge_branch (?m, ?ps, ?rq) bs = (out, ps, req)"
    by (cases "foldl merge_branch (?m, ?ps, ?rq) bs") auto
  have res: "keeps False ?m out" "obj_get out ''properties'' = obj_get ?m ''properties''"
      "obj_get out ''required'' = obj_get ?m ''required''" "extends ?ps ps" "set ?rq \<subseteq> set req"
    using branch_law_steps [of "(?m, ?ps, ?rq)" bs] unfolding fold branch_law_def fst_conv snd_conv by blast+
  let ?out = "if ps = [] then out else obj_put ''properties'' (JObject ps) out"
  let ?req = "if req = [] then obj_remove ''required'' ?out
    else obj_put ''required'' (JArray (map JString req)) ?out"
  have "keeps False out (obj_put ''properties'' (JObject ps) out)"
    by (rule keeps_properties) (use res(2) keeps_own [OF res(4)] in simp)
  then have "keeps False out ?out" by simp
  moreover have "keeps False ?out ?req"
  proof (rule keeps_names)
    fix name assume "requires ?out name"
    then obtain r where r: "obj_get ?m ''required'' = Some (JArray r)" "JString name \<in> set r"
      using res(3) by (auto simp: requires_def split: if_splits)
    then have "name \<in> set ?rq" by (simp add: str_items_iff)
    then show "name \<in> set req" using res(5) by blast
  qed
  ultimately have "keeps False ?m ?req" using res(1) by (blast intro: keeps_trans)
  moreover have "keeps False m ?m" by (rule keeps_remove) simp
  ultimately have "keeps False m (prune_dangling_required ?req)" by (blast intro: keeps_trans keeps_prune)
  moreover have "merge_all_of_branches m = prune_dangling_required ?req"
    unfolding merge_all_of_branches_def bs option.case Json.case Let_def fold prod.case ..
  ultimately show ?thesis by simp
next
  case False
  then have "merge_all_of_branches m = obj_remove ''allOf'' m"
    by (auto simp: merge_all_of_branches_def split: option.split Json.split)
  then show ?thesis by (simp add: keeps_remove)
qed

lemma keeps_shape: "keeps False m (shape_object spec m)"
proof -
  define p where "p = (if tf_prune_dangling_required (transforms spec) then prune_dangling_required m else m)"
  define a where "a = (if tf_merge_all_of_branches (transforms spec) then merge_all_of_branches p else p)"
  have "keeps False m p" "keeps False p a" by (simp_all add: p_def a_def keeps_prune keeps_merge_all_of)
  moreover have "keeps False a (shape_object spec m)"
    by (simp add: shape_object_def Let_def keeps_insert flip: p_def a_def)
  ultimately show ?thesis using keeps_trans by blast
qed

lemma union_branch_extends: "extends ps (fst (union_branch kw (ps, req) v))"
  by (simp add: union_branch_def extends_branch split: option.split)

lemma union_branches_extends: "extends ps (fst (foldl (union_branch kw) (ps, req) bs))"
proof (induction bs arbitrary: ps req)
  case (Cons v bs)
  obtain ps1 req1 where step: "union_branch kw (ps, req) v = (ps1, req1)"
    by (cases "union_branch kw (ps, req) v") auto
  then show ?case
    using union_branch_extends [of ps kw req v] Cons.IH [of ps1 req1] extends_trans [of ps ps1] by simp
qed simp

lemma union_keywords_extends:
  "foldl union_keyword (out, ps, req, saw) kws = (out', ps', req', saw') \<Longrightarrow> extends ps ps'"
proof (induction kws arbitrary: out ps req saw)
  case (Cons kw kws)
  obtain out1 ps1 req1 saw1 where step: "union_keyword (out, ps, req, saw) kw = (out1, ps1, req1, saw1)"
    by (cases "union_keyword (out, ps, req, saw) kw") auto
  have "extends ps ps1"
  proof (cases "\<exists>bs. obj_get out kw = Some (JArray bs)")
    case True
    then obtain bs where "obj_get out kw = Some (JArray bs)" by blast
    then show ?thesis using step union_branches_extends [of ps kw req bs]
      by (auto simp: union_keyword_def Let_def split: prod.splits)
  next
    case False
    then have "union_keyword (out, ps, req, saw) kw = (obj_remove kw out, ps, req, saw)"
      by (auto simp: union_keyword_def split: option.split Json.split)
    then show ?thesis using step by simp
  qed
  moreover have "foldl union_keyword (out1, ps1, req1, saw1) kws = (out', ps', req', saw')"
    using Cons.prems step by simp
  ultimately show ?case using Cons.IH extends_trans by blast
qed simp

lemma keeps_union_keywords:
  "set kws \<subseteq> {''oneOf'', ''anyOf'', ''allOf''} \<Longrightarrow> keeps root (fst acc) (fst (foldl union_keyword acc kws))"
proof (induction kws arbitrary: acc)
  case (Cons kw kws)
  have "keeps root (fst acc) (fst (union_keyword acc kw))" using Cons.prems by (simp add: fst_union_keyword keeps_remove)
  then show ?case using Cons keeps_trans by simp
qed simp

lemma keeps_flatten_top:
  assumes "flatten_top_level_combiners (JObject m) = JObject n"
  shows "keeps True m n"
proof -
  let ?ps = "case Option.bind (obj_get m ''properties'') as_object of Some p \<Rightarrow> p | None \<Rightarrow> []"
  obtain out ps req saw where fold:
    "foldl union_keyword (m, ?ps, [], False) [''oneOf'', ''anyOf'', ''allOf''] = (out, ps, req, saw)"
    by (cases "foldl union_keyword (m, ?ps, [], False) [''oneOf'', ''anyOf'', ''allOf'']") auto
  have out: "keeps True m out"
    using keeps_union_keywords [of "[''oneOf'', ''anyOf'', ''allOf'']" True "(m, ?ps, [], False)"]
    unfolding fold by simp
  let ?t = "obj_put ''type'' (JString ''object'') m"
  have get: "obj_get out ''properties'' = obj_get m ''properties''"
  proof -
    have "obj_get (fst (foldl union_keyword acc kws)) ''properties'' = obj_get (fst acc) ''properties''"
      if "set kws \<subseteq> {''oneOf'', ''anyOf'', ''allOf''}" for acc :: "JsonMap \<times> JsonMap \<times> string list \<times> bool" and kws
      using that by (induction kws arbitrary: acc) (auto simp: fst_union_keyword)
    then show ?thesis using fold by (metis fst_conv list.set(1,2) order_refl)
  qed
  let ?n = "prune_dangling_required (promote_required req
              (obj_put ''properties'' (JObject ps) (obj_put ''type'' (JString ''object'') out)))"
  have "keeps True (obj_put ''type'' (JString ''object'') out)
      (obj_put ''properties'' (JObject ps) (obj_put ''type'' (JString ''object'') out))"
    by (rule keeps_properties) (use get keeps_own [OF union_keywords_extends [OF fold]] in simp)
  then have "keeps True m ?n" using out keeps_type [OF TrueI] keeps_promote keeps_prune keeps_trans by meson
  moreover have "flatten_top_level_combiners (JObject m) = JObject (if saw then ?n else out)"
    unfolding flatten_top_level_combiners_def as_object.simps option.case Let_def fold prod.case by simp
  ultimately show ?thesis using out assms by (auto split: if_splits)
qed

section \<open>The walk\<close>

lemma put_or_extend_get:
  "obj_get (put_or_extend k w out) j = (if j = k then obj_get (put_or_extend k w out) k else obj_get out j)"
  by (simp add: put_or_extend_def split: option.split Json.split)

lemma put_or_extend_there: "obj_get (put_or_extend k w out) k \<noteq> None"
  by (simp add: put_or_extend_def split: option.split Json.split)

lemma walk_entry_kept:
  assumes "\<not> is_droppable k"
  shows "walk_entry spec q out k v w = put_or_extend k w out"
proof -
  have "k \<noteq> ''oneOf''" "k \<noteq> ''format''" using assms by (auto simp: is_droppable_def LOAD_BEARING_KEYWORDS_def)
  then show ?thesis using assms by (simp add: walk_entry_def)
qed

text \<open>Only \<open>const\<close> writes the entry of another keyword that is not a combiner: \<open>enum\<close>.\<close>

lemma walk_entry_other:
  assumes "k \<noteq> j" and "j \<noteq> ''anyOf''" and "j = ''enum'' \<longrightarrow> k \<noteq> ''const''"
  shows "obj_get (walk_entry spec q out k v w) j = obj_get out j"
proof -
  have "obj_get (put_or_extend k' w out) j = obj_get out j" if "k' \<noteq> j" for k'
    using that put_or_extend_get [of k' w out j] by simp
  moreover have "walk_entry spec q out k v w \<in> {out, put_or_extend (if k = ''oneOf'' \<and>
      tf_one_of_as_any_of (transforms spec) then ''anyOf'' else k) w out}
    \<or> k = ''format'' \<and> walk_entry spec q out k v w = obj_put k v out
    \<or> k = ''const'' \<and> walk_entry spec q out k v w = obj_put ''enum'' (JArray [v]) out"
    unfolding walk_entry_def Let_def by (simp split: option.split)
  ultimately show ?thesis using assms by (auto split: if_splits)
qed

lemma walk_entry_const:
  "obj_get (walk_entry spec q out ''const'' v w) ''enum'' \<in> {obj_get out ''enum'', Some (JArray [v])}"
proof -
  have "obj_get (put_or_extend ''const'' w out) ''enum'' = obj_get out ''enum''"
    using put_or_extend_get [of "''const''" w out "''enum''"] by simp
  then show ?thesis using walk_entry_cases [of spec q out "''const''" v w] by auto
qed

lemma walk_entries_other:
  assumes "j \<notin> fst ` set m" and "j \<noteq> ''anyOf''" and "j = ''enum'' \<longrightarrow> ''const'' \<notin> fst ` set m"
  shows "obj_get (foldl (\<lambda>out e. walk_entry spec q out (fst e) (snd e) (walk_value spec q (fst e) (snd e))) out m) j =
    obj_get out j"
  using assms
proof (induction m arbitrary: out)
  case (Cons e m)
  have "obj_get (walk_entry spec q out (fst e) (snd e) (walk_value spec q (fst e) (snd e))) j = obj_get out j"
    using Cons.prems by (intro walk_entry_other) auto
  moreover have "j \<notin> fst ` set m" "j = ''enum'' \<longrightarrow> ''const'' \<notin> fst ` set m" using Cons.prems by auto
  ultimately show ?case using Cons.IH Cons.prems(2) by simp
qed simp

lemma put_or_extend_new: "obj_get out k = None \<Longrightarrow> put_or_extend k w out = obj_put k w out"
  by (simp add: put_or_extend_def)

text \<open>A load-bearing entry is walked by its role.\<close>

lemma walked_key:
  assumes "obj_ok m" and "\<not> is_droppable k" and "k \<noteq> ''enum''" and "obj_get m k = Some v"
  shows "obj_get (walked_entries spec q m) k = Some (walk_value spec q k v)"
proof -
  let ?f = "\<lambda>out e. walk_entry spec q out (fst e) (snd e) (walk_value spec q (fst e) (snd e))"
  obtain xs ys where m: "m = xs @ (k, v) # ys" using obj_get_SomeD [OF assms(4)] by (meson split_list)
  then have out: "k \<notin> fst ` set xs" "k \<notin> fst ` set ys" using assms(1) by (auto simp: obj_ok_def strict_sorted_iff)
  have any: "k \<noteq> ''anyOf''" using assms(2) by (auto simp: is_droppable_def LOAD_BEARING_KEYWORDS_def)
  have "obj_get (foldl ?f [] xs) k = None"
    using walk_entries_other [OF out(1) any, of spec q "[]"] assms(3) by simp
  then show ?thesis
    unfolding walked_entries_def m
    by (simp add: walk_entries_other [OF out(2) any] assms(3) walk_entry_kept [OF assms(2)] put_or_extend_new)
qed

text \<open>An \<open>enum\<close> comes after a \<open>const\<close> that is sent as one, and adds its values to it.\<close>

lemma walked_enum:
  assumes "obj_ok m" and "obj_get m ''enum'' = Some (JArray vs)"
  shows "\<exists>us. obj_get (walked_entries spec q m) ''enum'' = Some (JArray (us @ vs))"
proof -
  let ?f = "\<lambda>out e. walk_entry spec q out (fst e) (snd e) (walk_value spec q (fst e) (snd e))"
  obtain xs ys where m: "m = xs @ (''enum'', JArray vs) # ys" using obj_get_SomeD [OF assms(2)] by (meson split_list)
  have order: "\<forall>e \<in> set ys. ''enum'' < fst e" and xs: "''enum'' \<notin> fst ` set xs"
    using assms(1) by (auto simp: m obj_ok_def sorted_wrt_append)
  have skip: "k \<notin> fst ` set ys" if "\<not> ''enum'' < k" for k
  proof
    assume "k \<in> fst ` set ys"
    then obtain e where "e \<in> set ys" "k = fst e" by blast
    then show False using order that by blast
  qed
  have ys: "''enum'' \<notin> fst ` set ys" "''const'' \<notin> fst ` set ys" by (rule skip, code_simp)+
  have "obj_get (foldl ?f [] xs) ''enum'' = None \<or> (\<exists>us. obj_get (foldl ?f [] xs) ''enum'' = Some (JArray us))"
    using xs
  proof (induction xs rule: rev_induct)
    case (snoc e xs)
    then show ?case
    proof (cases "fst e = ''const''")
      case True
      then show ?thesis
        using snoc walk_entry_const [of spec q "foldl ?f [] xs" "snd e" "walk_value spec q (fst e) (snd e)"] by auto
    next
      case False
      have e: "fst e \<noteq> ''enum''" and tl: "''enum'' \<notin> fst ` set xs" using snoc.prems by auto
      have "obj_get (?f (foldl ?f [] xs) e) ''enum'' = obj_get (foldl ?f [] xs) ''enum''"
        by (rule walk_entry_other [OF e]) (simp_all add: False)
      then show ?thesis using snoc.IH [OF tl] by simp
    qed
  qed simp
  then obtain us where "obj_get (put_or_extend ''enum'' (JArray vs) (foldl ?f [] xs)) ''enum'' = Some (JArray (us @ vs))"
    by (auto simp: put_or_extend_def intro: that [of "[]"])
  moreover have "walk_value spec q ''enum'' (JArray vs) = JArray vs" and "\<not> is_droppable ''enum''"
    by (simp_all add: walk_value.simps keyword_role_def SUBSCHEMA_MAP_KEYWORDS_def SUBSCHEMA_KEYWORDS_def
        SUBSCHEMA_ARRAY_KEYWORDS_def is_droppable_def LOAD_BEARING_KEYWORDS_def)
  ultimately show ?thesis
    unfolding walked_entries_def m by (auto simp: walk_entries_other [OF ys(1)] ys(2) walk_entry_kept)
qed

lemma walk_value_roles:
  "walk_value spec q ''description'' v = v" "walk_value spec q ''type'' v = v" "walk_value spec q ''required'' v = v"
  "walk_value spec q ''items'' v = walk spec q v"
  "walk_value spec q ''properties'' (JObject ps) = JObject (map (\<lambda>c. (fst c, walk spec q (snd c))) ps)"
  by (simp_all add: walk_value.simps keyword_role_def SUBSCHEMA_MAP_KEYWORDS_def SUBSCHEMA_KEYWORDS_def
      SUBSCHEMA_ARRAY_KEYWORDS_def DATA_KEYWORDS_def)

lemma load_bearing [simp]:
  "\<not> is_droppable ''description''" "\<not> is_droppable ''type''" "\<not> is_droppable ''required''"
  "\<not> is_droppable ''items''" "\<not> is_droppable ''properties''"
  by (simp_all add: is_droppable_def LOAD_BEARING_KEYWORDS_def)

lemma obj_get_map: "obj_get (map (\<lambda>c. (fst c, f (snd c))) ps) k = map_option f (obj_get ps k)"
  by (induction ps) (auto simp: obj_get_def)

lemma walked_properties:
  "obj_ok m \<Longrightarrow> obj_get m ''properties'' = Some (JObject ps) \<Longrightarrow>
   obj_get (walked_entries spec q m) ''properties'' = Some (JObject (map (\<lambda>c. (fst c, walk spec q (snd c))) ps))"
  by (simp add: walked_key walk_value_roles)

lemma walk_entry_monotone:
  assumes "obj_get out j \<noteq> None"
  shows "obj_get (walk_entry spec q out k v w) j \<noteq> None"
proof -
  have "obj_get (put_or_extend k' w out) j \<noteq> None" for k'
    using assms put_or_extend_there [of k' w out] put_or_extend_get [of k' w out j] by (cases "j = k'") simp_all
  then show ?thesis
    using walk_entry_cases [of spec q out k v w] assms by (elim insertE) (simp_all only: obj_get_put split: if_splits, simp_all)
qed

lemma walked_there:
  assumes "obj_get m k \<noteq> None" and "\<not> is_droppable k"
  shows "obj_get (walked_entries spec q m) k \<noteq> None"
proof -
  let ?f = "\<lambda>out e. walk_entry spec q out (fst e) (snd e) (walk_value spec q (fst e) (snd e))"
  have "obj_get out k \<noteq> None \<or> k \<in> fst ` set m \<Longrightarrow> obj_get (foldl ?f out m) k \<noteq> None" for out
  proof (induction m arbitrary: out)
    case (Cons e m)
    have "obj_get (?f out e) k \<noteq> None \<or> k \<in> fst ` set m"
    proof (cases "fst e = k")
      case True
      then show ?thesis using put_or_extend_there walk_entry_kept assms(2) by auto
    next
      case False
      then show ?thesis using Cons.prems walk_entry_monotone by auto
    qed
    then show ?case using Cons.IH by simp
  qed simp
  then show ?thesis using assms(1) by (simp add: walked_entries_def obj_get_None_iff)
qed

section \<open>Nothing is lost\<close>

text \<open>
  What a normalised schema keeps of its source. A value that is not an object or an array stays as it is; an array
  keeps its elements' meaning in place. An object keeps its description and type (at a root whose combiners are
  collapsed the type may become \<open>object\<close>), every value of its \<open>enum\<close>, the meaning of its \<open>items\<close> and of each
  declared property, and it still requires each declared name it required.
\<close>

inductive meaning_kept :: "bool \<Rightarrow> Json \<Rightarrow> Json \<Rightarrow> bool" where
  same: "(\<nexists>xs. v = JArray xs) \<Longrightarrow> (\<nexists>m. v = JObject m) \<Longrightarrow> meaning_kept root v v"
| items: "list_all2 (meaning_kept False) xs ys \<Longrightarrow> meaning_kept root (JArray xs) (JArray ys)"
| object: "(\<And>d. obj_get m ''description'' = Some d \<Longrightarrow> obj_get n ''description'' = Some d) \<Longrightarrow>
    (\<And>t. obj_get m ''type'' = Some t \<Longrightarrow>
       obj_get n ''type'' = Some t \<or> root \<and> obj_get n ''type'' = Some (JString ''object'')) \<Longrightarrow>
    (\<And>vs. obj_get m ''enum'' = Some (JArray vs) \<Longrightarrow> \<exists>ws. obj_get n ''enum'' = Some (JArray ws) \<and> set vs \<subseteq> set ws) \<Longrightarrow>
    (\<And>c. obj_get m ''items'' = Some c \<Longrightarrow> \<exists>d. obj_get n ''items'' = Some d \<and> meaning_kept False c d) \<Longrightarrow>
    (\<And>ps. obj_get m ''properties'' = Some (JObject ps) \<Longrightarrow> \<exists>qs. obj_get n ''properties'' = Some (JObject qs) \<and>
       (\<forall>j c. obj_get ps j = Some c \<longrightarrow> (\<exists>d. obj_get qs j = Some d \<and> meaning_kept False c d))) \<Longrightarrow>
    (\<And>name. requires m name \<Longrightarrow> declares m name \<Longrightarrow> requires n name) \<Longrightarrow>
    meaning_kept root (JObject m) (JObject n)"

inductive_cases meaning_keptE: "meaning_kept root (JObject m) w"

lemma meaning_object:
  assumes ok: "json_ok (JObject m)" and n: "keeps root (walked_entries spec q m) n"
    and children: "\<And>c. size c < size (JObject m) \<Longrightarrow> json_ok c \<Longrightarrow> meaning_kept False c (walk spec q c)"
  shows "meaning_kept root (JObject m) (JObject n)"
proof (rule meaning_kept.object)
  have m: "obj_ok m" using ok by simp
  note key = walked_key [OF m, of _ _ spec q]
  have kept: "obj_get n k = Some w \<or> root \<and> k = ''type'' \<and> obj_get n k = Some (JString ''object'')"
    if "plain_key k" "obj_get (walked_entries spec q m) k = Some w" for k w
    using n that same_entries_get unfolding keeps_def by blast
  show "obj_get n ''description'' = Some d" if "obj_get m ''description'' = Some d" for d
    using kept [of "''description''"] key [OF _ _ that] by (simp add: walk_value_roles)
  show "obj_get n ''type'' = Some t \<or> root \<and> obj_get n ''type'' = Some (JString ''object'')"
    if "obj_get m ''type'' = Some t" for t
    using kept [of "''type''"] key [OF _ _ that] by (simp add: walk_value_roles)
  show "\<exists>ws. obj_get n ''enum'' = Some (JArray ws) \<and> set vs \<subseteq> set ws" if vs: "obj_get m ''enum'' = Some (JArray vs)" for vs
  proof -
    obtain us where "obj_get (walked_entries spec q m) ''enum'' = Some (JArray (us @ vs))"
      using walked_enum [OF m vs] by blast
    then show ?thesis using kept [of "''enum''"] by simp
  qed
  show "\<exists>d. obj_get n ''items'' = Some d \<and> meaning_kept False c d" if c: "obj_get m ''items'' = Some c" for c
    using kept [of "''items''"] key [OF _ _ c] children [OF size_get [OF c] json_ok_get [OF ok c]]
    by (simp add: walk_value_roles)
  show "\<exists>qs. obj_get n ''properties'' = Some (JObject qs) \<and>
       (\<forall>j c. obj_get ps j = Some c \<longrightarrow> (\<exists>d. obj_get qs j = Some d \<and> meaning_kept False c d))"
    if ps: "obj_get m ''properties'' = Some (JObject ps)" for ps
  proof -
    obtain qs where qs: "obj_get n ''properties'' = Some (JObject qs)"
      and sub: "\<forall>j c. obj_get (map (\<lambda>c. (fst c, walk spec q (snd c))) ps) j = Some c \<longrightarrow> obj_get qs j = Some c"
      using n walked_properties [OF m ps, of spec q] unfolding keeps_def more_properties_def extends_def by blast
    have "obj_get qs j = Some (walk spec q c) \<and> meaning_kept False c (walk spec q c)" if c: "obj_get ps j = Some c" for j c
    proof -
      have "size c < size (JObject m)" using size_get [OF ps] size_get [OF c] by simp
      moreover have "json_ok c" by (rule json_ok_get [OF json_ok_get [OF ok ps] c])
      ultimately show ?thesis using children sub c obj_get_map [of "walk spec q" ps j] by simp
    qed
    then show ?thesis using qs by blast
  qed
  show "requires n name" if "requires m name" "declares m name" for name
  proof -
    obtain r where r: "obj_get m ''required'' = Some (JArray r)" "JString name \<in> set r"
      using \<open>requires m name\<close> unfolding requires_def by blast
    obtain ps where ps: "obj_get m ''properties'' = Some (JObject ps)" "obj_get ps name \<noteq> None"
      using \<open>declares m name\<close> unfolding declares_def by blast
    have "requires (walked_entries spec q m) name"
      using key [OF _ _ r(1)] r(2) by (simp add: requires_def walk_value_roles)
    moreover have "declares (walked_entries spec q m) name"
      using walked_properties [OF m ps(1), of spec q] ps(2) by (simp add: declares_def obj_get_map)
    ultimately show ?thesis using n unfolding keeps_def by blast
  qed
qed

lemma meaning_walk: "json_ok v \<Longrightarrow> meaning_kept False v (walk spec q v)"
proof (induction v rule: measure_induct_rule [where f = size])
  case (less v)
  show ?case
  proof (cases v)
    case (JObject m)
    have "meaning_kept False (JObject m) (JObject (shape_object spec (walked_entries spec q m)))"
      by (rule meaning_object [OF _ keeps_shape]) (use less JObject in auto)
    then show ?thesis using JObject by (simp only: walk_object)
  next
    case (JArray xs)
    have "meaning_kept False x (walk spec q x)" if "x \<in> set xs" for x
      using less.IH [of x] less.prems JArray that size_item [OF that] by (simp add: list_all_iff)
    then have "list_all2 (meaning_kept False) xs (map (walk spec q) xs)" by (auto simp: list_all2_conv_all_nth)
    then show ?thesis using JArray by (simp add: meaning_kept.items)
  qed (simp_all add: meaning_kept.same)
qed

lemma compare_keeps:
  assumes ok: "json_ok (JObject m)" and n: "keeps root (walked_entries spec q m) n"
    and children: "\<And>ps j c p. obj_get m ''properties'' = Some (JObject ps) \<Longrightarrow> obj_get ps j = Some c \<Longrightarrow>
      compare_meaning c (walk spec q c) p = []"
  shows "compare_meaning (JObject m) (JObject n) path = []"
proof -
  have m: "obj_ok m" using ok by simp
  have "obj_get n k \<noteq> None" if load: "k \<in> set LOAD_BEARING_KEYWORDS" "k \<noteq> ''required''" and there: "obj_get m k \<noteq> None" for k
  proof -
    have "\<not> is_droppable k" using load(1) by (simp add: is_droppable_def)
    then obtain w where w: "obj_get (walked_entries spec q m) k = Some w"
      using walked_there [OF there] by blast
    show ?thesis
    proof (cases "k = ''properties''")
      case True
      then show ?thesis using n w unfolding keeps_def more_properties_def by simp
    next
      case False
      then have "plain_key k" using load by (auto simp: LOAD_BEARING_KEYWORDS_def plain_key_def)
      then show ?thesis using n w same_entries_get unfolding keeps_def by (metis option.distinct(1))
    qed
  qed
  then have "lost_keywords m n path = []" by (auto simp: lost_keywords_def filter_empty_conv)
  moreover have "(case obj_get qs (fst e) of
        Some child \<Rightarrow> compare_meaning (snd e) child (key_path (path @ ''.properties'') (fst e))
      | None \<Rightarrow> [\<lparr>ce_path = path, ce_message = ''property `'' @ fst e @ ''` disappeared''\<rparr>]) = []"
    if ps: "obj_get m ''properties'' = Some (JObject ps)" and qs: "obj_get n ''properties'' = Some (JObject qs)"
      and e: "e \<in> set ps" for ps qs e
  proof -
    have "obj_ok ps" using json_ok_get [OF ok ps] by simp
    then have get: "obj_get ps (fst e) = Some (snd e)" using e obj_get_iff [of ps "fst e" "snd e"] by simp
    have "obj_get qs (fst e) = Some (walk spec q (snd e))"
      using n qs get obj_get_map [of "walk spec q" ps "fst e"] walked_properties [OF m ps, of spec q]
      unfolding keeps_def more_properties_def extends_def by auto
    then show ?thesis using children [OF ps get] by simp
  qed
  ultimately show ?thesis by (auto split: option.split Json.split)
qed

lemma compare_walk: "json_ok v \<Longrightarrow> compare_meaning v (walk spec q v) path = []"
proof (induction v arbitrary: path rule: measure_induct_rule [where f = size])
  case (less v)
  show ?case
  proof (cases v)
    case (JObject m)
    have "compare_meaning (JObject m) (JObject (shape_object spec (walked_entries spec q m))) path = []"
    proof (rule compare_keeps [OF _ keeps_shape])
      fix ps j c p
      assume ps: "obj_get m ''properties'' = Some (JObject ps)" and c: "obj_get ps j = Some c"
      have "size c < size v" using size_get [OF ps] size_get [OF c] JObject by simp
      moreover have "json_ok c" using less.prems ps c json_ok_get JObject by metis
      ultimately show "compare_meaning c (walk spec q c) p = []" by (rule less.IH)
    qed (use less.prems JObject in simp)
    then show ?thesis using JObject by (simp only: walk_object)
  qed simp_all
qed

text \<open>The root: the walk, the collapse of its combiners where the dialect asks for it, and the empty schema.\<close>

lemma applied_object:
  assumes nf: "\<not> tf_flatten_all_combiners (transforms spec)"
  shows "\<exists>l. apply_with_quirks (JObject m) spec q = JObject l \<and>
    keeps (tf_flatten_top_level_combiners (transforms spec)) (walked_entries spec q m) l"
proof -
  let ?root = "tf_flatten_top_level_combiners (transforms spec)"
  define w where "w = shape_object spec (walked_entries spec q m)"
  let ?out = "if ?root then flatten_top_level_combiners (JObject w) else JObject w"
  have w: "keeps ?root (walked_entries spec q m) w" by (simp add: w_def keeps_root keeps_shape)
  have "\<exists>n. ?out = JObject n \<and> keeps ?root w n"
  proof (cases ?root)
    case True
    obtain n where "flatten_top_level_combiners (JObject w) = JObject n" using flatten_top_cases [of w] by blast
    then show ?thesis using True keeps_flatten_top by auto
  qed simp
  then obtain n where n: "?out = JObject n" "keeps ?root (walked_entries spec q m) n" using w keeps_trans by blast
  have "\<exists>l. root_object spec (JObject n) = JObject l \<and> keeps ?root n l"
    by (cases "tf_require_properties_on_objects (transforms spec) \<and> n = []")
      (auto simp: root_object_def keeps_def same_entries_def more_properties_def requires_def)
  then obtain l where l: "root_object spec (JObject n) = JObject l" "keeps ?root n l" by blast
  have "apply_with_quirks (JObject m) spec q = root_object spec ?out"
    unfolding apply_steps walk_object w_def by (simp only: nf if_False)
  then show ?thesis using n(1) l(1) keeps_trans [OF n(2) l(2)] by auto
qed

lemma compare_apply:
  assumes "json_ok v" and "\<not> tf_flatten_all_combiners (transforms spec)"
  shows "must_preserve_meaning v (apply_with_quirks v spec q) = []"
proof (cases v)
  case (JObject m)
  obtain l where l: "apply_with_quirks (JObject m) spec q = JObject l"
    "keeps (tf_flatten_top_level_combiners (transforms spec)) (walked_entries spec q m) l"
    using applied_object [OF assms(2)] by blast
  have "compare_meaning (JObject m) (JObject l) ''$'' = []"
    by (rule compare_keeps [OF _ l(2)]) (use assms(1) JObject json_ok_get compare_walk in \<open>blast | simp\<close>)+
  then show ?thesis using l(1) JObject by (simp only: must_preserve_meaning_def)
qed (simp_all add: must_preserve_meaning_def)

lemma meaning_apply:
  assumes "json_ok (JObject m)" and "\<not> tf_flatten_all_combiners (transforms spec)"
  shows "meaning_kept (tf_flatten_top_level_combiners (transforms spec)) (JObject m) (apply_with_quirks (JObject m) spec q)"
proof -
  obtain l where l: "apply_with_quirks (JObject m) spec q = JObject l"
    "keeps (tf_flatten_top_level_combiners (transforms spec)) (walked_entries spec q m) l"
    using applied_object [OF assms(2)] by blast
  then show ?thesis using meaning_object [OF assms(1) l(2)] meaning_walk by simp
qed

end
