(* ===== verification/Schema_Recovery.thy ===== *)
theory Schema_Recovery
  imports Schema_Meaning
begin

text \<open>
  Recovery from a provider's schema rejection (\<open>rejection.rs\<close>, \<open>quirks.rs\<close>, \<open>lib.rs\<close>): the construct an error
  text names, the store of rejected constructs per dialect, and the answer to the caller. The store is the cached
  content of the quirk file, passed and returned; it is \<open>None\<close> when no path for the file can be found, and then
  every access starts from an empty file. Writing the file is best effort and not modelled.
\<close>

section \<open>Reading an error text\<close>

record SchemaRejection =
  sr_keywords :: "string list"
  sr_format :: "string option"
  sr_tool :: "string option"

definition rejection_keyword :: "SchemaRejection \<Rightarrow> string option" where
  "rejection_keyword r = (case sr_keywords r of [] \<Rightarrow> None | k # _ \<Rightarrow> Some k)"

definition is_actionable :: "SchemaRejection \<Rightarrow> bool" where
  "is_actionable r \<longleftrightarrow> sr_keywords r \<noteq> [] \<or> sr_format r \<noteq> None"

definition is_quote :: "char \<Rightarrow> bool" where
  "is_quote c \<longleftrightarrow> c = CHR 0x27 \<or> c = CHR 0x22"

definition clean_token :: "string \<Rightarrow> string option" where
  "clean_token token =
     (let token = trim (trim_end_pats [[CHR 0x5C]] (trim_pats [[CHR 0x5C]] (trim token)))
      in if token \<noteq> [] then Some token else None)"

definition extract_quoted_after :: "string \<Rightarrow> string \<Rightarrow> string option" where
  "extract_quoted_after message marker = (case find_sub marker message of
       None \<Rightarrow> None
     | Some start \<Rightarrow>
        (case dropWhile (\<lambda>c. \<not> is_quote c) (drop (start + length marker) message) of
           [] \<Rightarrow> None
         | quote_char # after \<Rightarrow>
             if quote_char \<in> set after then clean_token (takeWhile (\<lambda>c. c \<noteq> quote_char) after) else None))"

text \<open>The loop over the occurrences of a marker, which its callers give as a non-empty literal.\<close>

function extract_all_from :: "string \<Rightarrow> string \<Rightarrow> string list \<Rightarrow> string list" where
  "extract_all_from message marker found = (case find_sub marker message of
       None \<Rightarrow> found
     | Some offset \<Rightarrow>
        (let here = drop offset message;
             found = (case extract_quoted_after here marker of
                        Some token \<Rightarrow> if token \<in> set found then found else found @ [token]
                      | None \<Rightarrow> found)
         in if marker = [] then found else extract_all_from (drop (length marker) here) marker found))"
  by pat_completeness auto
termination
proof (relation "measure (\<lambda>(message, _). length message)")
  fix message marker :: string and found :: "string list" and offset here fnd
  assume off: "find_sub marker message = Some offset" and here: "here = drop offset message" and "marker \<noteq> []"
  then have "0 < length marker" "offset + length marker \<le> length message" using find_sub_Some [OF off] by auto
  then have "length message - (length marker + offset) < length message" by arith
  then show "((drop (length marker) here, marker, fnd), message, marker, found) \<in> measure (\<lambda>(message, _). length message)"
    by (simp add: here)
qed simp

declare extract_all_from.simps [simp del]

definition extract_all_quoted_after :: "string \<Rightarrow> string \<Rightarrow> string list" where
  "extract_all_quoted_after message marker = extract_all_from message marker []"

definition extract_quoted_before :: "string \<Rightarrow> string \<Rightarrow> string option" where
  "extract_quoted_before message marker = (case find_sub marker message of
       None \<Rightarrow> None
     | Some end_pos \<Rightarrow>
        (case dropWhile (\<lambda>c. \<not> is_quote c) (rev (trim_end (take end_pos message))) of
           [] \<Rightarrow> None
         | quote_char # before \<Rightarrow>
             if quote_char \<in> set before then clean_token (rev (takeWhile (\<lambda>c. c \<noteq> quote_char) before)) else None))"

definition extract_tool :: "string \<Rightarrow> string option" where
  "extract_tool message = extract_quoted_after message ''for function''"

definition classify :: "string \<Rightarrow> SchemaRejection option" where
  "classify message =
     (let tool = extract_tool message;
          names = (if str_contains message ''Cannot find field''
                   then extract_all_quoted_after message ''Unknown name'' else [])
      in if names \<noteq> [] then Some \<lparr>sr_keywords = names, sr_format = None, sr_tool = tool\<rparr>
         else (case extract_quoted_before message ''is not a valid format'' of
           Some f \<Rightarrow> Some \<lparr>sr_keywords = [], sr_format = Some f, sr_tool = tool\<rparr>
         | None \<Rightarrow> (case extract_quoted_before message ''is not permitted'' of
             Some keyword \<Rightarrow> Some \<lparr>sr_keywords = [keyword], sr_format = None, sr_tool = tool\<rparr>
           | None \<Rightarrow>
               if str_contains message ''are not defined in the schema properties''
               then Some \<lparr>sr_keywords = [''required''], sr_format = None, sr_tool = tool\<rparr>
               else if str_contains message (''must have a '' @ quoted ''type'' @ '' key'')
                 \<or> str_contains message ''is not of type''
               then Some \<lparr>sr_keywords = [], sr_format = None, sr_tool = tool\<rparr>
               else if str_contains message ''does not support oneOf, allOf, or anyOf''
                 \<or> str_contains message ''input_schema'' \<and> str_contains message ''JSON Schema draft 2020-12''
               then Some \<lparr>sr_keywords = [''anyOf''], sr_format = None, sr_tool = tool\<rparr>
               else None)))"

definition is_schema_error :: "string \<Rightarrow> bool" where
  "is_schema_error message =
     (if classify message \<noteq> None then True
      else let lowered = to_ascii_lowercase message in
        str_contains lowered ''invalid_function_parameters''
        \<or> str_contains lowered ''invalid schema for function''
        \<or> str_contains lowered ''function_declarations'' \<and> str_contains lowered ''invalid'')"

fun schema_contains_keyword :: "Json \<Rightarrow> string \<Rightarrow> bool" where
  "schema_contains_keyword (JObject m) keyword =
     list_ex (\<lambda>e. fst e = keyword \<or> schema_contains_keyword (snd e) keyword) m"
| "schema_contains_keyword (JArray items) keyword = list_ex (\<lambda>i. schema_contains_keyword i keyword) items"
| "schema_contains_keyword _ keyword = False"

section \<open>The quirk store\<close>

record QuirkEntry =
  qe_rejected_keywords :: "string list"
  qe_rejected_formats :: "string list"

type_synonym QuirkFile = "(string \<times> QuirkEntry) list"
type_synonym QuirkStore = "QuirkFile option"

definition empty_entry :: QuirkEntry where
  "empty_entry = \<lparr>qe_rejected_keywords = [], qe_rejected_formats = []\<rparr>"

definition with_store :: "(QuirkFile \<Rightarrow> 'a \<times> QuirkFile) \<Rightarrow> QuirkStore \<Rightarrow> 'a \<times> QuirkStore" where
  "with_store f st = (case st of
       None \<Rightarrow> (fst (f []), None)
     | Some file \<Rightarrow> (let (result, file) = f file in (result, Some file)))"

definition learned_for :: "string \<Rightarrow> QuirkStore \<Rightarrow> LearnedQuirks" where
  "learned_for i st = fst (with_store (\<lambda>file.
     (case obj_get file i of
        Some entry \<Rightarrow> \<lparr>rejected_keywords = qe_rejected_keywords entry, rejected_formats = qe_rejected_formats entry\<rparr>
      | None \<Rightarrow> no_quirks, file)) st)"

definition record_rejection ::
    "string \<Rightarrow> string option \<Rightarrow> string option \<Rightarrow> QuirkStore \<Rightarrow> bool \<times> QuirkStore" where
  "record_rejection i keyword fmt = with_store (\<lambda>file.
     (let entry = (case obj_get file i of Some e \<Rightarrow> e | None \<Rightarrow> empty_entry);
          (entry, changed) = (case keyword of
             Some k \<Rightarrow> if k \<in> set (qe_rejected_keywords entry) then (entry, False)
                       else (entry\<lparr>qe_rejected_keywords := qe_rejected_keywords entry @ [k]\<rparr>, True)
           | None \<Rightarrow> (entry, False));
          (entry, changed) = (case fmt of
             Some f \<Rightarrow> if f \<in> set (qe_rejected_formats entry) then (entry, changed)
                       else (entry\<lparr>qe_rejected_formats := qe_rejected_formats entry @ [f]\<rparr>, True)
           | None \<Rightarrow> (entry, changed))
      in (changed, obj_put i entry file)))"

definition record_keyword :: "string \<Rightarrow> string \<Rightarrow> QuirkStore \<Rightarrow> bool \<times> QuirkStore" where
  "record_keyword i keyword = record_rejection i (Some keyword) None"

definition record_format :: "string \<Rightarrow> string \<Rightarrow> QuirkStore \<Rightarrow> bool \<times> QuirkStore" where
  "record_format i f = record_rejection i None (Some f)"

definition forget :: "string \<Rightarrow> QuirkStore \<Rightarrow> QuirkStore" where
  "forget i st = snd (with_store (\<lambda>file. ((), obj_remove i file)) st)"

section \<open>The answer to a rejection\<close>

definition normalize_schema :: "Json \<Rightarrow> DialectSpec \<Rightarrow> QuirkStore \<Rightarrow> Json" where
  "normalize_schema schema spec st =
     (let learned = learned_for (dialect_id spec) st in
      if quirks_is_empty learned then apply_dialect schema spec else apply_with_quirks schema spec learned)"

datatype RecoveryAction =
    NotSchemaRelated
  | RetryWithoutConstruct string
  | Unrecoverable string

fun learn_keywords ::
    "DialectSpec \<Rightarrow> string list \<Rightarrow> string list \<Rightarrow> QuirkStore \<Rightarrow> (RecoveryAction + string list) \<times> QuirkStore" where
  "learn_keywords spec [] described st = (Inr described, st)"
| "learn_keywords spec (keyword # ks) described st =
     (if \<not> is_droppable keyword then
        (Inl (Unrecoverable (''provider `'' @ dialect_id spec @ ''` rejected the load-bearing keyword `'' @ keyword
           @ ''`, which cannot be stripped without changing what the tool accepts; ''
           @ ''the dialect's transforms need a real fix'')), st)
      else
        (let (news, st) = record_keyword (dialect_id spec) keyword st
         in learn_keywords spec ks (if news then described @ [''keyword `'' @ keyword @ ''`''] else described) st))"

definition recover_from_error :: "string \<Rightarrow> DialectSpec \<Rightarrow> QuirkStore \<Rightarrow> RecoveryAction \<times> QuirkStore" where
  "recover_from_error message spec st = (case classify message of
       None \<Rightarrow>
         (if is_schema_error message
          then Unrecoverable (''provider `'' @ dialect_id spec @ ''` rejected the tool schemas but did not name ''
            @ ''the construct; the raw error is the only diagnostic available'')
          else NotSchemaRelated, st)
     | Some rejection \<Rightarrow>
        (case learn_keywords spec (sr_keywords rejection) [] st of
           (Inl answer, st) \<Rightarrow> (answer, st)
         | (Inr described, st) \<Rightarrow>
            (let (described, st) = (case sr_format rejection of
                   Some f \<Rightarrow>
                     (let (news, st) = record_format (dialect_id spec) f st
                      in (if news then described @ [''format `'' @ f @ ''`''] else described, st))
                 | None \<Rightarrow> (described, st))
             in if described \<noteq> [] then
                  (RetryWithoutConstruct (''provider `'' @ dialect_id spec @ ''` rejected ''
                     @ join '' and '' described
                     @ (case sr_tool rejection of Some t \<Rightarrow> '' (from tool `'' @ t @ ''`)'' | None \<Rightarrow> [])
                     @ ''; stripping it and retrying, and remembering it for future requests''), st)
                else
                  (Unrecoverable
                    (if is_actionable rejection
                     then ''provider `'' @ dialect_id spec @ ''` rejected ''
                       @ (case rejection_keyword rejection of Some k \<Rightarrow> k
                          | None \<Rightarrow> (case sr_format rejection of Some f \<Rightarrow> f | None \<Rightarrow> ''a schema construct''))
                       @ '' again after it was already being stripped, so the construct is not what actually failed''
                     else ''provider `'' @ dialect_id spec
                       @ ''` reported a schema error naming no actionable construct''), st))))"

definition learn_from_error :: "string \<Rightarrow> DialectSpec \<Rightarrow> QuirkStore \<Rightarrow> string option \<times> QuirkStore" where
  "learn_from_error message spec st = (case recover_from_error message spec st of
       (NotSchemaRelated, st) \<Rightarrow> (None, st)
     | (RetryWithoutConstruct description, st) \<Rightarrow>
         (Some (description @ ''. This request failed, but the next one will not send it.''), st)
     | (Unrecoverable hint, st) \<Rightarrow> (Some hint, st))"

section \<open>What the store learns\<close>

text \<open>The constructs learned for a dialect: keywords and formats.\<close>

definition learned_keywords :: "string \<Rightarrow> QuirkFile \<Rightarrow> string set" where
  "learned_keywords i qf = set (rejected_keywords (learned_for i (Some qf)))"

definition learned_formats :: "string \<Rightarrow> QuirkFile \<Rightarrow> string set" where
  "learned_formats i qf = set (rejected_formats (learned_for i (Some qf)))"

lemmas learned_defs = learned_keywords_def learned_formats_def learned_for_def with_store_def no_quirks_def

lemma record_keyword_learns:
  "\<exists>qf'. record_keyword i k (Some qf) = (k \<notin> learned_keywords i qf, Some qf')
     \<and> (\<forall>j. learned_keywords j qf' = (if j = i then insert k (learned_keywords i qf) else learned_keywords j qf))
     \<and> (\<forall>j. learned_formats j qf' = learned_formats j qf)"
proof (cases "obj_get qf i")
  case None
  then show ?thesis
    by (auto simp: record_keyword_def record_rejection_def learned_defs empty_entry_def Let_def)
next
  case (Some entry)
  then show ?thesis
    by (auto simp: record_keyword_def record_rejection_def learned_defs Let_def)
qed

lemma record_format_learns:
  "\<exists>qf'. record_format i f (Some qf) = (f \<notin> learned_formats i qf, Some qf')
     \<and> (\<forall>j. learned_formats j qf' = (if j = i then insert f (learned_formats i qf) else learned_formats j qf))
     \<and> (\<forall>j. learned_keywords j qf' = learned_keywords j qf)"
proof (cases "obj_get qf i")
  case None
  then show ?thesis
    by (auto simp: record_format_def record_rejection_def learned_defs empty_entry_def Let_def)
next
  case (Some entry)
  then show ?thesis
    by (auto simp: record_format_def record_rejection_def learned_defs Let_def)
qed

text \<open>The keywords an error names are recorded up to the first load-bearing one.\<close>

lemma learn_keywords_learns:
  "\<exists>qf'. snd (learn_keywords spec ks described (Some qf)) = Some qf'
     \<and> (\<forall>j. learned_formats j qf' = learned_formats j qf)
     \<and> (\<forall>j. learned_keywords j qf \<subseteq> learned_keywords j qf'
          \<and> learned_keywords j qf' \<subseteq> learned_keywords j qf \<union> (if j = dialect_id spec then set ks else {}))
     \<and> (case fst (learn_keywords spec ks described (Some qf)) of
          Inl answer \<Rightarrow> (\<exists>hint. answer = Unrecoverable hint)
        | Inr described' \<Rightarrow> set ks \<subseteq> learned_keywords (dialect_id spec) qf'
            \<and> (described' = [] \<longleftrightarrow> described = [] \<and> set ks \<subseteq> learned_keywords (dialect_id spec) qf))"
proof (induction ks arbitrary: described qf)
  case (Cons k ks)
  show ?case
  proof (cases "is_droppable k")
    case True
    let ?i = "dialect_id spec"
    obtain qf1 where rec: "record_keyword ?i k (Some qf) = (k \<notin> learned_keywords ?i qf, Some qf1)"
      and kw: "\<And>j. learned_keywords j qf1 = (if j = ?i then insert k (learned_keywords ?i qf) else learned_keywords j qf)"
      and fm: "\<And>j. learned_formats j qf1 = learned_formats j qf"
      using record_keyword_learns [of ?i k qf] by blast
    define d where "d = (if k \<notin> learned_keywords ?i qf then described @ [''keyword `'' @ k @ ''`''] else described)"
    have step: "learn_keywords spec (k # ks) described (Some qf) = learn_keywords spec ks d (Some qf1)"
      using True rec by (simp add: d_def)
    obtain qf' where ih: "snd (learn_keywords spec ks d (Some qf1)) = Some qf'"
      "\<And>j. learned_formats j qf' = learned_formats j qf1"
      "\<And>j. learned_keywords j qf1 \<subseteq> learned_keywords j qf'"
      "\<And>j. learned_keywords j qf' \<subseteq> learned_keywords j qf1 \<union> (if j = ?i then set ks else {})"
      "case fst (learn_keywords spec ks d (Some qf1)) of
          Inl answer \<Rightarrow> (\<exists>hint. answer = Unrecoverable hint)
        | Inr described' \<Rightarrow> set ks \<subseteq> learned_keywords ?i qf'
            \<and> (described' = [] \<longleftrightarrow> d = [] \<and> set ks \<subseteq> learned_keywords ?i qf1)"
      using Cons.IH [of d qf1] by blast
    have "learned_keywords j qf \<subseteq> learned_keywords j qf'" for j
      using kw [of j] ih(3) [of j] by (auto split: if_splits)
    moreover have "learned_keywords j qf' \<subseteq> learned_keywords j qf \<union> (if j = ?i then set (k # ks) else {})" for j
      using kw [of j] ih(4) [of j] by (auto split: if_splits)
    moreover have "k \<in> learned_keywords ?i qf'" using kw [of ?i] ih(3) [of ?i] by auto
    moreover have "case fst (learn_keywords spec ks d (Some qf1)) of
          Inl answer \<Rightarrow> (\<exists>hint. answer = Unrecoverable hint)
        | Inr described' \<Rightarrow> set (k # ks) \<subseteq> learned_keywords ?i qf'
            \<and> (described' = [] \<longleftrightarrow> described = [] \<and> set (k # ks) \<subseteq> learned_keywords ?i qf)"
    proof (cases "fst (learn_keywords spec ks d (Some qf1))")
      case (Inl answer)
      then show ?thesis using ih(5) by simp
    next
      case (Inr described')
      have "d = [] \<and> set ks \<subseteq> learned_keywords ?i qf1 \<longleftrightarrow>
          described = [] \<and> set (k # ks) \<subseteq> learned_keywords ?i qf" using kw [of ?i] by (auto simp: d_def)
      then show ?thesis using ih(5) Inr \<open>k \<in> learned_keywords ?i qf'\<close> by simp
    qed
    ultimately show ?thesis unfolding step using ih(1,2) fm by (intro exI [of _ qf']) simp
  qed simp
qed simp

definition named :: "string \<Rightarrow> DialectSpec \<Rightarrow> (string \<times> string + string \<times> string) set" where
  "named message spec = (case classify message of None \<Rightarrow> {} | Some r \<Rightarrow>
     (\<lambda>k. Inl (dialect_id spec, k)) ` set (sr_keywords r)
     \<union> (\<lambda>f. Inr (dialect_id spec, f)) ` set_option (sr_format r))"

definition learned :: "QuirkFile \<Rightarrow> (string \<times> string + string \<times> string) set" where
  "learned qf = {Inl (i, k) | i k. k \<in> learned_keywords i qf} \<union> {Inr (i, f) | i f. f \<in> learned_formats i qf}"

lemma mem_learned [simp]:
  "Inl (i, k) \<in> learned qf \<longleftrightarrow> k \<in> learned_keywords i qf" "Inr (i, f) \<in> learned qf \<longleftrightarrow> f \<in> learned_formats i qf"
  by (simp_all add: learned_def)

lemma learned_subsetI:
  assumes "\<And>i k. k \<in> learned_keywords i qf \<Longrightarrow> Inl (i, k) \<in> X"
    and "\<And>i f. f \<in> learned_formats i qf \<Longrightarrow> Inr (i, f) \<in> X"
  shows "learned qf \<subseteq> X"
proof
  fix x assume "x \<in> learned qf"
  then show "x \<in> X" using assms by (cases x) auto
qed

text \<open>
  A rejection teaches at most what it names; the answer is a retry exactly when it taught something, and then all
  it names is known.
\<close>

lemma recover_learns:
  "\<exists>qf'. snd (recover_from_error message spec (Some qf)) = Some qf'
     \<and> learned qf \<subseteq> learned qf' \<and> learned qf' \<subseteq> learned qf \<union> named message spec
     \<and> (\<forall>d. fst (recover_from_error message spec (Some qf)) = RetryWithoutConstruct d \<longrightarrow>
          named message spec \<subseteq> learned qf' \<and> \<not> named message spec \<subseteq> learned qf)
     \<and> (named message spec \<subseteq> learned qf \<and> classify message \<noteq> None \<longrightarrow>
          (\<exists>hint. fst (recover_from_error message spec (Some qf)) = Unrecoverable hint))"
proof (cases "classify message")
  case None
  then show ?thesis by (simp add: recover_from_error_def)
next
  case (Some r)
  let ?i = "dialect_id spec"
  let ?ks = "sr_keywords r"
  obtain qf1 where l: "snd (learn_keywords spec ?ks [] (Some qf)) = Some qf1"
    "\<And>j. learned_formats j qf1 = learned_formats j qf"
    "\<And>j. learned_keywords j qf \<subseteq> learned_keywords j qf1"
    "\<And>j. learned_keywords j qf1 \<subseteq> learned_keywords j qf \<union> (if j = ?i then set ?ks else {})"
    "case fst (learn_keywords spec ?ks [] (Some qf)) of
        Inl answer \<Rightarrow> (\<exists>hint. answer = Unrecoverable hint)
      | Inr described' \<Rightarrow> set ?ks \<subseteq> learned_keywords ?i qf1
          \<and> (described' = [] \<longleftrightarrow> set ?ks \<subseteq> learned_keywords ?i qf)"
    using learn_keywords_learns [of spec ?ks "[]" qf] unfolding simp_thms by blast
  have grow: "learned qf \<subseteq> learned qf1" by (rule learned_subsetI) (use l(2,3) in auto)
  have named: "learned qf1 \<subseteq> learned qf \<union> named message spec"
  proof (rule learned_subsetI)
    fix i k assume "k \<in> learned_keywords i qf1"
    then have "k \<in> learned_keywords i qf \<or> i = ?i \<and> k \<in> set ?ks" using l(4) [of i] by (auto split: if_splits)
    then show "Inl (i, k) \<in> learned qf \<union> named message spec" using Some by (auto simp: named_def)
  qed (use l(2) in simp)
  show ?thesis
  proof (cases "fst (learn_keywords spec ?ks [] (Some qf))")
    case (Inl answer)
    then obtain hint where "answer = Unrecoverable hint" using l(5) by auto
    then have "learn_keywords spec ?ks [] (Some qf) = (Inl (Unrecoverable hint), Some qf1)"
      using Inl l(1) by (simp add: prod_eq_iff)
    then have "recover_from_error message spec (Some qf) = (Unrecoverable hint, Some qf1)"
      using Some by (simp add: recover_from_error_def)
    then show ?thesis using grow named by simp
  next
    case (Inr described)
    then have ks: "learn_keywords spec ?ks [] (Some qf) = (Inr described, Some qf1)"
      using l(1) by (simp add: prod_eq_iff)
    have all: "set ?ks \<subseteq> learned_keywords ?i qf1" and d: "described = [] \<longleftrightarrow> set ?ks \<subseteq> learned_keywords ?i qf"
      using l(5) Inr by auto
    show ?thesis
    proof (cases "sr_format r")
      case None
      have "named message spec \<subseteq> learned qf1"
        using all unfolding learned_def named_def Some option.case None by auto
      moreover have "described = [] \<longleftrightarrow> named message spec \<subseteq> learned qf"
        using d unfolding learned_def named_def Some option.case None by auto
      ultimately show ?thesis
        using Some None ks grow named by (auto simp: recover_from_error_def Let_def)
    next
      case (Some f)
      obtain qf2 where rec: "record_format ?i f (Some qf1) = (f \<notin> learned_formats ?i qf1, Some qf2)"
        and fm: "\<And>j. learned_formats j qf2 = (if j = ?i then insert f (learned_formats ?i qf1) else learned_formats j qf1)"
        and kw: "\<And>j. learned_keywords j qf2 = learned_keywords j qf1"
        using record_format_learns [of ?i f qf1] by blast
      have n: "named message spec = (\<lambda>k. Inl (?i, k)) ` set ?ks \<union> {Inr (?i, f)}"
        by (simp add: named_def \<open>classify message = Some r\<close> Some)
      have l2: "learned qf2 = learned qf1 \<union> {Inr (?i, f)}"
        unfolding learned_def using fm kw by (auto split: if_splits)
      have "named message spec \<subseteq> learned qf2"
        using all unfolding n l2 by (auto simp: learned_def)
      moreover have "described = [] \<and> f \<in> learned_formats ?i qf1 \<longleftrightarrow> named message spec \<subseteq> learned qf"
        using d l(2) unfolding n by (auto simp: learned_def)
      moreover have "learned qf2 \<subseteq> learned qf \<union> named message spec" using named unfolding n l2 by blast
      moreover have "learned qf \<subseteq> learned qf2" using grow l2 by blast
      ultimately show ?thesis
        using Some \<open>classify message = Some r\<close> ks rec by (auto simp: recover_from_error_def Let_def)
    qed
  qed
qed

text \<open>A run of rejections: the answers and the store.\<close>

fun recoveries :: "(string \<times> DialectSpec) list \<Rightarrow> QuirkStore \<Rightarrow> RecoveryAction list \<times> QuirkStore" where
  "recoveries [] st = ([], st)"
| "recoveries (m # ms) st =
     (let (answer, st) = recover_from_error (fst m) (snd m) st; (answers, st) = recoveries ms st
      in (answer # answers, st))"

fun is_retry :: "RecoveryAction \<Rightarrow> bool" where
  "is_retry (RetryWithoutConstruct _) = True"
| "is_retry _ = False"

lemma recoveries_keep:
  "\<exists>qf'. snd (recoveries ms (Some qf)) = Some qf' \<and> learned qf \<subseteq> learned qf'"
proof (induction ms arbitrary: qf)
  case (Cons m ms)
  obtain qf1 where "snd (recover_from_error (fst m) (snd m) (Some qf)) = Some qf1" "learned qf \<subseteq> learned qf1"
    using recover_learns [of "fst m" "snd m" qf] by blast
  then show ?case using Cons.IH [of qf1] by (auto simp: Let_def split: prod.splits)
qed simp

definition named_by :: "(string \<times> DialectSpec) list \<Rightarrow> (string \<times> string + string \<times> string) set" where
  "named_by ms = (\<Union>m \<in> set ms. named (fst m) (snd m))"

lemma finite_named: "finite (named message spec)"
  by (simp add: named_def split: option.split)

lemma finite_named_by: "finite (named_by ms)"
  by (simp add: named_by_def finite_named)

lemma retries_le: "length (filter is_retry (fst (recoveries ms (Some qf)))) \<le> card (named_by ms - learned qf)"
proof (induction ms arbitrary: qf)
  case (Cons m ms)
  let ?a = "fst (recover_from_error (fst m) (snd m) (Some qf))"
  obtain qf1 where f: "snd (recover_from_error (fst m) (snd m) (Some qf)) = Some qf1" "learned qf \<subseteq> learned qf1"
    and retry: "\<And>d. ?a = RetryWithoutConstruct d \<Longrightarrow>
      named (fst m) (snd m) \<subseteq> learned qf1 \<and> \<not> named (fst m) (snd m) \<subseteq> learned qf"
    using recover_learns [of "fst m" "snd m" qf] by blast
  let ?rest = "named_by ms - learned qf1"
  let ?full = "named_by (m # ms) - learned qf"
  have fin: "finite ?full" by (simp add: finite_named_by)
  have sub: "?rest \<subseteq> ?full" using f(2) by (auto simp: named_by_def)
  have count: "length (filter is_retry (fst (recoveries (m # ms) (Some qf)))) =
      (if is_retry ?a then 1 else 0) + length (filter is_retry (fst (recoveries ms (Some qf1))))"
    using f(1) by (auto simp: Let_def split: prod.splits)
  have "(if is_retry ?a then 1 else 0) + card ?rest \<le> card ?full"
  proof (cases "is_retry ?a")
    case True
    then obtain d where "?a = RetryWithoutConstruct d" by (cases ?a) auto
    then obtain x where x: "x \<in> named (fst m) (snd m)" "x \<in> learned qf1" "x \<notin> learned qf" using retry by blast
    then have "?rest \<subset> ?full" using sub by (auto simp: named_by_def)
    then have "card ?rest < card ?full" by (rule psubset_card_mono [OF fin])
    then show ?thesis using True by simp
  next
    case False
    then show ?thesis using card_mono [OF fin sub] by simp
  qed
  then show ?case using Cons.IH [of qf1] count by linarith
qed simp

end
