(* ===== verification/Schema_Safety.thy ===== *)
theory Schema_Safety
  imports Schema_Recovery
begin

text \<open>
  The properties of the schema dialects: what is sent conforms to the dialect and keeps the meaning of the tool,
  a rejected construct is not sent again, the retries are bounded; and inputs on which the collapse of combiners
  at every depth, the check itself or the recovery do not do what their comments say.
\<close>

section \<open>Demonstration schemas\<close>

definition json_map :: "(string \<times> Json) list \<Rightarrow> Json" where
  "json_map es = JObject (obj_of es)"

definition typed :: "string \<Rightarrow> Json" where
  "typed t = json_map [(''type'', JString t)]"

definition hostile_schema :: Json where
  "hostile_schema = json_map [(''type'', JString ''object''),
     (''properties'', json_map
       [(''url'', json_map [(''type'', JString ''string''), (''format'', JString ''uri''), (''description'', JString ''where'')]),
        (''data'', json_map [(''type'', JString ''object''), (''propertyNames'', typed ''string'')]),
        (''mode'', json_map [(''oneOf'', JArray [json_map [(''const'', JString ''a'')], typed ''integer''])])]),
     (''required'', JArray [JString ''url'', JString ''ghost'']),
     (''x-vendor'', typed ''nested'')]"

section \<open>What is sent\<close>

text \<open>C25 A dialect that passes \<open>validate\<close>, does not collapse combiners at every depth and does not both prune required
  names and require \<open>properties\<close> sends, whatever the schema and whatever has been learned, only what its own
  conformance check accepts: supported keywords and formats at every depth, no dangling \<open>required\<close> and no object
  schema without \<open>properties\<close> where the dialect asks for that. OpenAI, Gemini, Anthropic and OpenRouter are such.
\<close>

theorem dialect_output_conforms:
  assumes "validate spec = Inr ()" and "\<not> tf_flatten_all_combiners (transforms spec)"
    and "\<not> (tf_prune_dangling_required (transforms spec) \<and> tf_require_properties_on_objects (transforms spec))"
  shows "must_not_contain_unsupported_constructs (apply_with_quirks v spec q) spec = []"
  unfolding unsupported_Nil by (rule apply_all [OF assms(1,2)]) (rule object_conforms_shaped [OF _ _ assms(2,3)])

theorem dialect_output_conforms_witness:
  "list_all (\<lambda>spec. must_not_contain_unsupported_constructs (apply_with_quirks hostile_schema spec no_quirks) spec = []
      \<and> must_not_contain_unsupported_constructs hostile_schema spec \<noteq> []) [OPENAI, GEMINI, ANTHROPIC, OPENROUTER]"
proof -
  let ?ok = "\<lambda>spec. validate spec = Inr () \<and> \<not> tf_flatten_all_combiners (transforms spec)
    \<and> \<not> (tf_prune_dangling_required (transforms spec) \<and> tf_require_properties_on_objects (transforms spec))"
  have "?ok OPENAI" "?ok GEMINI" "?ok ANTHROPIC" "?ok OPENROUTER" by code_simp+
  then have "list_all (\<lambda>spec. must_not_contain_unsupported_constructs
      (apply_with_quirks hostile_schema spec no_quirks) spec = []) [OPENAI, GEMINI, ANTHROPIC, OPENROUTER]"
    by (simp add: dialect_output_conforms)
  moreover have "list_all (\<lambda>spec. must_not_contain_unsupported_constructs hostile_schema spec \<noteq> [])
      [OPENAI, GEMINI, ANTHROPIC, OPENROUTER]" by code_simp
  ultimately show ?thesis by simp
qed

text \<open>C26 A dialect that does not collapse combiners at every depth keeps the meaning of any schema object the parser can
  build (keys in order), whatever has been learned. The repository's own check of it finds nothing. And at the root,
  at \<open>items\<close> and at every property, however deep along these, the description and the type stay as they are (the
  type of the root may become \<open>object\<close> where the dialect collapses the combiners there), every value of an \<open>enum\<close>
  array is still in it, \<open>items\<close> and every declared property are still there with their own meaning, and every
  required name that is declared is still required. Other keywords and combiners may go.
\<close>

theorem dialect_preserves_meaning:
  assumes "json_ok (JObject m)" and "\<not> tf_flatten_all_combiners (transforms spec)"
  shows "meaning_kept (tf_flatten_top_level_combiners (transforms spec)) (JObject m) (apply_with_quirks (JObject m) spec q)
    \<and> must_preserve_meaning (JObject m) (apply_with_quirks (JObject m) spec q) = []"
  using meaning_apply [OF assms] compare_apply [OF assms] by blast

definition hostile_map :: JsonMap where
  "hostile_map = obj_of [(''type'', JString ''object''),
     (''properties'', json_map
       [(''url'', json_map [(''type'', JString ''string''), (''format'', JString ''uri''), (''description'', JString ''where'')]),
        (''tags'', json_map [(''items'', json_map [(''enum'', JArray [JString ''a'']), (''const'', JString ''b'')])])]),
     (''required'', JArray [JString ''url'', JString ''ghost'']),
     (''x-vendor'', typed ''nested'')]"

text \<open>For Gemini; a schema without properties would not keep it.\<close>

theorem dialect_preserves_meaning_witness:
  "meaning_kept False (JObject hostile_map) (apply_with_quirks (JObject hostile_map) GEMINI no_quirks)
   \<and> apply_with_quirks (JObject hostile_map) GEMINI no_quirks \<noteq> JObject hostile_map
   \<and> \<not> meaning_kept False (JObject hostile_map) (json_map [(''type'', JString ''object''), (''properties'', json_map [])])"
proof (intro conjI)
  have "json_ok (JObject hostile_map)" "\<not> tf_flatten_all_combiners (transforms GEMINI)"
    "\<not> tf_flatten_top_level_combiners (transforms GEMINI)" by code_simp+
  then show "meaning_kept False (JObject hostile_map) (apply_with_quirks (JObject hostile_map) GEMINI no_quirks)"
    using dialect_preserves_meaning [of hostile_map GEMINI no_quirks] by simp
  show "apply_with_quirks (JObject hostile_map) GEMINI no_quirks \<noteq> JObject hostile_map" by code_simp
  show "\<not> meaning_kept False (JObject hostile_map) (json_map [(''type'', JString ''object''), (''properties'', json_map [])])"
  proof
    assume kept: "meaning_kept False (JObject hostile_map) (json_map [(''type'', JString ''object''), (''properties'', json_map [])])"
    have "case obj_get hostile_map ''properties'' of Some (JObject ps) \<Rightarrow> obj_get ps ''url'' \<noteq> None | _ \<Rightarrow> False"
      by code_simp
    then obtain ps c where ps: "obj_get hostile_map ''properties'' = Some (JObject ps)" "obj_get ps ''url'' = Some c"
      by (auto split: option.splits Json.splits)
    have gone: "obj_get (obj_of [(''type'', JString ''object''), (''properties'', JObject (obj_of []))]) ''properties'' =
        Some (JObject [])" by code_simp
    show False
      using kept unfolding json_map_def by (rule meaning_keptE) (use ps gone in fastforce)
  qed
qed

section \<open>Recovery\<close>

lemma normalize_schema_eq: "normalize_schema v spec st = apply_with_quirks v spec (learned_for (dialect_id spec) st)"
  by (cases "learned_for (dialect_id spec) st")
    (simp add: normalize_schema_def apply_dialect_def no_quirks_def quirks_is_empty_def Let_def)

lemma learn_keywords_droppable:
  "fst (learn_keywords spec ks described st) = Inr d \<Longrightarrow> k \<in> set ks \<Longrightarrow> is_droppable k"
  by (induction ks arbitrary: described st) (auto split: if_splits prod.splits)

lemma retry_droppable:
  "recover_from_error message spec st = (RetryWithoutConstruct d, st') \<Longrightarrow> classify message = Some r \<Longrightarrow>
   st = Some qf \<Longrightarrow> k \<in> set (sr_keywords r) \<Longrightarrow> is_droppable k"
proof -
  assume a: "recover_from_error message spec st = (RetryWithoutConstruct d, st')" "classify message = Some r"
    and qf: "st = Some qf" and k: "k \<in> set (sr_keywords r)"
  show "is_droppable k"
  proof (cases "fst (learn_keywords spec (sr_keywords r) [] st)")
    case (Inl answer)
    then obtain hint where "answer = Unrecoverable hint"
      using learn_keywords_learns [of spec "sr_keywords r" "[]" qf] qf by auto
    then have "fst (recover_from_error message spec st) = Unrecoverable hint"
      using a(2) Inl by (auto simp: recover_from_error_def split: prod.split sum.split)
    then show ?thesis using a(1) by simp
  next
    case (Inr described)
    then show ?thesis by (rule learn_keywords_droppable [OF _ k])
  qed
qed

lemma admitted_absent:
  assumes m: "entries (admitted spec q) m" and "is_droppable k" and "k \<in> set (rejected_keywords q)"
    and "\<not> (k = ''anyOf'' \<and> tf_one_of_as_any_of (transforms spec))"
  shows "obj_get m k = None"
proof (rule ccontr)
  assume "obj_get m k \<noteq> None"
  then obtain v where "obj_get m k = Some v" by blast
  then have "admitted spec q k v" by (rule entries_get [OF m])
  then show False using assms(2-4) by (simp add: admitted_def)
qed

lemma admitted_format:
  assumes m: "entries (admitted spec q) m" and "f \<in> set (rejected_formats q)"
  shows "obj_get m ''format'' \<noteq> Some (JString f)"
proof
  assume "obj_get m ''format'' = Some (JString f)"
  then have "admitted spec q ''format'' (JString f)" by (rule entries_get [OF m])
  then show False using assms(2) by (simp add: admitted_def)
qed

text \<open>C27 With a path for the quirk file and a dialect that passes \<open>validate\<close> and does not collapse combiners at every
  depth: when a rejection is answered with a retry, the next normalised schema has none of the keywords the rejection
  named at any schema position and no \<open>format\<close> of the value it named. The one exception is \<open>anyOf\<close> in a dialect
  that renames \<open>oneOf\<close> to it.
\<close>

theorem rejected_construct_not_sent:
  assumes "recover_from_error message spec (Some qf) = (RetryWithoutConstruct d, st)" and "classify message = Some r"
    and "validate spec = Inr ()" and "\<not> tf_flatten_all_combiners (transforms spec)"
  shows "schema_all (\<lambda>m.
      (\<forall>k \<in> set (sr_keywords r). obj_get m k = None \<or> k = ''anyOf'' \<and> tf_one_of_as_any_of (transforms spec))
      \<and> (\<forall>f. sr_format r = Some f \<longrightarrow> obj_get m ''format'' \<noteq> Some (JString f)))
    (normalize_schema v spec st)"
proof -
  obtain qf' where st: "st = Some qf'" and named: "named message spec \<subseteq> learned qf'"
    using recover_learns [of message spec qf] assms(1) by auto
  let ?q = "learned_for (dialect_id spec) st"
  have kw: "k \<in> set (rejected_keywords ?q)" "is_droppable k" if "k \<in> set (sr_keywords r)" for k
    using named that retry_droppable [OF assms(1,2) refl that] assms(2) st
    by (auto simp: named_def learned_keywords_def)
  have fm: "f \<in> set (rejected_formats ?q)" if "sr_format r = Some f" for f
    using named that assms(2) st by (auto simp: named_def learned_formats_def)
  show ?thesis
    unfolding normalize_schema_eq
  proof (rule apply_all [OF assms(3,4)], intro conjI ballI allI impI)
    fix m k assume m: "entries (admitted spec ?q) m" and k: "k \<in> set (sr_keywords r)"
    show "obj_get m k = None \<or> k = ''anyOf'' \<and> tf_one_of_as_any_of (transforms spec)"
      using admitted_absent [OF m kw(2) [OF k] kw(1) [OF k]] by blast
  next
    fix m f assume m: "entries (admitted spec ?q) m" and f: "sr_format r = Some f"
    show "obj_get m ''format'' \<noteq> Some (JString f)" by (rule admitted_format [OF m fm [OF f]])
  qed
qed

definition min_items_error :: string where
  "min_items_error = ''In context=(), '' @ quoted ''minItems'' @ '' is not permitted.''"

definition ids_schema :: Json where
  "ids_schema = json_map [(''type'', JString ''array''), (''minItems'', JInt 1), (''items'', typed ''string'')]"

theorem rejected_construct_not_sent_witness:
  "is_retry (fst (recover_from_error min_items_error GEMINI (Some [])))
   \<and> schema_all (\<lambda>m. obj_get m ''minItems'' = None)
       (normalize_schema ids_schema GEMINI (snd (recover_from_error min_items_error GEMINI (Some []))))
   \<and> \<not> schema_all (\<lambda>m. obj_get m ''minItems'' = None) (normalize_schema ids_schema GEMINI (Some []))"
proof -
  let ?r = "recover_from_error min_items_error GEMINI (Some [])"
  have retry: "is_retry (fst ?r)" by code_simp
  then obtain d where d: "?r = (RetryWithoutConstruct d, snd ?r)" by (cases "fst ?r"; cases ?r) auto
  have r: "classify min_items_error = Some \<lparr>sr_keywords = [''minItems''], sr_format = None, sr_tool = None\<rparr>"
    by code_simp
  have "validate GEMINI = Inr ()" "\<not> tf_flatten_all_combiners (transforms GEMINI)" by code_simp+
  then have "schema_all (\<lambda>m. obj_get m ''minItems'' = None) (normalize_schema ids_schema GEMINI (snd ?r))"
    using rejected_construct_not_sent [OF d r, of ids_schema] by simp
  moreover have "\<not> schema_all (\<lambda>m. obj_get m ''minItems'' = None) (normalize_schema ids_schema GEMINI (Some []))"
    by code_simp
  ultimately show ?thesis using retry by blast
qed

text \<open>C28 With a path for the quirk file, retries are bounded: over any run of rejections there are at most as many retries
  as the rejections name constructs not learned before, and a rejection answered with a retry is unrecoverable when
  it comes again, whatever came in between.
\<close>

theorem recovery_retries_bounded:
  "length (filter is_retry (fst (recoveries ms (Some qf)))) \<le> card (named_by ms - learned qf)
   \<and> (recover_from_error message spec (Some qf) = (RetryWithoutConstruct d, st) \<longrightarrow>
       (\<exists>hint. fst (recover_from_error message spec (snd (recoveries ms st))) = Unrecoverable hint))"
proof (intro conjI impI)
  assume r: "recover_from_error message spec (Some qf) = (RetryWithoutConstruct d, st)"
  obtain qf1 where st: "st = Some qf1" and n: "named message spec \<subseteq> learned qf1"
    using recover_learns [of message spec qf] r by auto
  obtain qf2 where "snd (recoveries ms st) = Some qf2" "named message spec \<subseteq> learned qf2"
    using recoveries_keep [of ms qf1] st n by auto
  moreover have "classify message \<noteq> None"
  proof
    assume "classify message = None"
    then show False using r by (simp add: recover_from_error_def split: if_splits)
  qed
  ultimately show "\<exists>hint. fst (recover_from_error message spec (snd (recoveries ms st))) = Unrecoverable hint"
    using recover_learns [of message spec qf2] by auto
qed (rule retries_le)

theorem recovery_retries_bounded_witness:
  "is_retry (fst (recover_from_error min_items_error GEMINI (Some [])))
   \<and> (\<exists>hint. fst (recover_from_error min_items_error GEMINI
        (snd (recoveries [(min_items_error, OPENAI)] (snd (recover_from_error min_items_error GEMINI (Some []))))))
      = Unrecoverable hint)"
proof -
  let ?r = "recover_from_error min_items_error GEMINI (Some [])"
  have retry: "is_retry (fst ?r)" by code_simp
  then obtain d where "?r = (RetryWithoutConstruct d, snd ?r)" by (cases "fst ?r"; cases ?r) auto
  then show ?thesis
    using retry recovery_retries_bounded [of "[(min_items_error, OPENAI)]" "[]" min_items_error GEMINI d "snd ?r"] by blast
qed

section \<open>What is not as documented\<close>

text \<open>A branch that only marks a property with \<open>true\<close> replaces the parent's declaration of it.\<close>

definition label_schema :: Json where
  "label_schema = json_map [(''type'', JString ''object''),
     (''properties'', json_map [(''label'', json_map [(''type'', JString ''string''), (''description'', JString ''shown'')])]),
     (''anyOf'', JArray [json_map [(''properties'', json_map [(''label'', JBool True)]), (''required'', JArray [JString ''label''])]])]"

lemma marked_property_loses_declaration:
  "apply_dialect label_schema ANTIGRAVITY_CLAUDE = json_map [(''type'', JString ''object''),
     (''properties'', json_map [(''label'', JBool True)]), (''required'', JArray [JString ''label''])]
   \<and> must_preserve_meaning label_schema (apply_dialect label_schema ANTIGRAVITY_CLAUDE) = []"
  by (intro conjI; code_simp)

text \<open>A \<open>required\<close> list of the chosen branch replaces the parent's.\<close>

lemma parent_required_lost:
  "apply_dialect (json_map [(''type'', JString ''object''), (''required'', JArray [JString ''a'']),
       (''properties'', json_map [(''a'', typed ''string''), (''b'', typed ''string'')]),
       (''anyOf'', JArray [json_map [(''required'', JArray [JString ''b''])]])]) ANTIGRAVITY_CLAUDE
   = json_map [(''type'', JString ''object''), (''required'', JArray [JString ''b'']),
       (''properties'', json_map [(''a'', typed ''string''), (''b'', typed ''string'')])]"
  by code_simp

text \<open>Merged declarations can require a name that only the other one could have declared, and are not pruned again.\<close>

definition nested_required_schema :: Json where
  "nested_required_schema = json_map [(''type'', JString ''object''),
     (''properties'', json_map [(''p'', json_map [(''type'', JString ''object''), (''properties'', json_map [(''y'', typed ''string'')])])]),
     (''anyOf'', JArray [json_map [(''properties'', json_map [(''p'', json_map [(''required'', JArray [JString ''x''])])])]])]"

lemma merged_declaration_dangles:
  "must_not_contain_unsupported_constructs (apply_dialect nested_required_schema ANTIGRAVITY_CLAUDE) ANTIGRAVITY_CLAUDE \<noteq> []"
  by code_simp

text \<open>The collapse walks into data, and an empty \<open>anyOf\<close> survives it.\<close>

lemma collapse_rewrites_data:
  "apply_dialect (json_map [(''type'', JString ''object''), (''default'', json_map [(''anyOf'', JArray [JString ''a'', JString ''b''])])])
     ANTIGRAVITY_CLAUDE = json_map [(''type'', JString ''object''), (''default'', JString ''a'')]
   \<and> must_not_contain_unsupported_constructs (apply_dialect (json_map [(''anyOf'', JArray [])]) ANTIGRAVITY_CLAUDE)
      ANTIGRAVITY_CLAUDE \<noteq> []"
  by (intro conjI; code_simp)

text \<open>
  Where \<open>allOf\<close> is not supported, a schema that declares its properties in \<open>allOf\<close> branches is sent without any,
  and the check of the meaning does not notice.
\<close>

definition all_of_schema :: Json where
  "all_of_schema = json_map [(''type'', JString ''object''),
     (''allOf'', JArray [json_map [(''properties'', json_map [(''p'', typed ''string'')])]])]"

lemma all_of_tool_emptied:
  "apply_dialect all_of_schema GEMINI = typed ''object''
   \<and> must_preserve_meaning all_of_schema (apply_dialect all_of_schema GEMINI) = []
   \<and> apply_dialect all_of_schema OPENAI = json_map [(''type'', JString ''object''), (''properties'', json_map [(''p'', typed ''string'')])]"
  by (intro conjI; code_simp)

text \<open>A learned rejection of \<open>anyOf\<close> does not stop the \<open>oneOf\<close> that the dialect renames to it.\<close>

definition unknown_any_of_error :: string where
  "unknown_any_of_error = ''Unknown name '' @ quoted ''anyOf'' @ '' at '' @ quoted ''x'' @ '': Cannot find field.''"

lemma rejected_any_of_still_sent:
  "is_retry (fst (recover_from_error unknown_any_of_error GEMINI (Some [])))
   \<and> normalize_schema (json_map [(''oneOf'', JArray [typed ''string''])]) GEMINI
       (snd (recover_from_error unknown_any_of_error GEMINI (Some []))) = json_map [(''anyOf'', JArray [typed ''string''])]"
  by (intro conjI; code_simp)

text \<open>Without a path for the quirk file every rejection of the same construct is answered with a retry.\<close>

lemma no_store_retries_again:
  "fst (recoveries (replicate n (message, spec)) None) = replicate n (fst (recover_from_error message spec None))"
proof -
  have "snd (learn_keywords spec ks described None) = None" for ks described
    by (induction ks arbitrary: described) (auto simp: record_keyword_def record_rejection_def with_store_def)
  then have "snd (recover_from_error message spec None) = None"
    by (auto simp: recover_from_error_def record_format_def record_rejection_def with_store_def Let_def
        split: option.split sum.split prod.split dest: arg_cong [of _ _ snd])
  then show ?thesis by (induction n) (auto simp: Let_def split: prod.splits)
qed

end
