(* ===== verification/Spec2Isabelle.thy ===== *)
theory Spec2Isabelle
  imports Dag_Properties Plan_Bridge Risk_Properties Dag_Sim Tasker_Decision Tasker_Mutation
    Swarm_Channels Compact_Text Promo_Safety Rounds_Safety Schema_Safety
begin

text \<open>
  A verification library for the orchestration core of jcode, a coding-agent harness in Rust. The
  theories translate the crates that decide what the agents may do, in which order and with which
  result; all paths below are under \<open>src/crates/\<close>.

  \<^bold>\<open>Parts and interaction.\<close>
  A swarm of agents works on one plan. \<open>jcode-plan\<close> keeps it twice: as stored items
  (\<open>VersionedPlan\<close>, \<open>PlanItem\<close>, what is persisted and shown) and as the task graph its engine
  (\<open>dag/\<close>) seeds, expands, dispatches and completes; \<open>bridge.rs\<close> lifts the first into the second
  and lowers it again after every operation. Agents find each other through the channel index of
  \<open>jcode-swarm-core\<close>. A shell command an agent wants to run passes \<open>jcode-command-risk\<close>: tokenizer,
  path policy, assessment and the reflection gate. A conversation that no longer fits is cut by
  \<open>jcode-compaction-core\<close>. The Tasker lets several agents author candidates for one task:
  \<open>jcode-tasker-types\<close> holds the domain and adjudication, \<open>jcode-tasker-pi\<close> the revision-guarded
  store and the admission of canonical writes, \<open>jcode-tasker-git\<close> the refs and worktrees of
  candidates, \<open>jcode-tasker-promotion\<close> the saga that moves the canonical ref to the winner and
  recovers from a crash between its steps, \<open>jcode-tasker-rounds\<close> the rounds in which validators vote on the
  candidates. Every request to a model provider carries the schemas of all tools: \<open>jcode-schema-dialect\<close>
  rewrites them into the subset the provider accepts and learns from its rejections.

  \<^bold>\<open>Theories and sources.\<close>
  \<^item> \<open>Prelude\<close>: UTF-8 text as byte strings, keyed lists, stable sorts, errors as sums
    (\<open>and_then\<close>), state passing (\<open>run_tx\<close>, \<open>run_read\<close>, \<open>and_do\<close>), the locales \<open>keyed_store\<close> and
    \<open>invariant_system\<close>. \<open>Kahn\<close>: the worklist of Kahn's algorithm that both graphs use.
  \<^item> \<open>Confidence\<close>, \<open>Dag_Model\<close> (\<open>jcode-plan/src/dag/mod.rs\<close>), \<open>Dag_Schedule\<close> (\<open>dag/schedule.rs\<close>),
    \<open>Dag_Ops\<close> (\<open>dag/ops.rs\<close>), \<open>Dag_Sim\<close> (\<open>dag/sim.rs\<close>). \<open>TaskGraph\<close> is a record whose node vector is
    a list searched by id, as in the code; an operation returns a \<open>DagError\<close> or the new graph.
    \<open>Dag_Invariant\<close>, \<open>Dag_Preserve\<close>, \<open>Dag_Growth\<close>: the invariant \<open>dag_wf\<close> and its preservation by
    every operation; \<open>Dag_Guarantees\<close>, \<open>Dag_Replay\<close>, \<open>Dag_Mentions\<close>, \<open>Dag_Properties\<close>: what follows.
  \<^item> \<open>Plan_Store\<close>, \<open>Plan_Graph\<close>, \<open>Plan_Schedule\<close> (\<open>jcode-plan/src/lib.rs\<close>) and \<open>Plan_Bridge\<close>
    (\<open>bridge.rs\<close>): the stored plan, its own cycle check, summary, scheduling queries and task control,
    and the agreement of both schedulers.
  \<^item> \<open>Risk_Tokenize\<close>, \<open>Risk_Paths\<close>, \<open>Risk_Assess\<close>, \<open>Risk_Gate\<close> (\<open>tokenize.rs\<close>, \<open>paths.rs\<close>, \<open>lib.rs\<close>,
    \<open>gate.rs\<close> of \<open>jcode-command-risk\<close>, and the bash tool that calls it); \<open>Risk_Resolve\<close> and
    \<open>Risk_Properties\<close>: path resolution against a reference, the protected set, the gate's decision.
  \<^item> \<open>Swarm_Channels\<close> (\<open>ChannelIndex\<close>): the two nested maps and the relation they represent.
  \<^item> \<open>Compact_Cutoff\<close>, \<open>Compact_Text\<close> (\<open>jcode-message-types\<close>, \<open>jcode-compaction-core\<close>, the hard
    compaction of \<open>jcode-base\<close>): safe cut points, truncation of tool results, image recovery.
  \<^item> \<open>Tasker_Types\<close>, \<open>Tasker_Adjudicate\<close>, \<open>Tasker_Decision\<close> (\<open>jcode-tasker-types\<close>), \<open>Tasker_Mutation\<close>
    (\<open>jcode-tasker-pi/src/mutation_policy.rs\<close>): life cycles, validation, hard gates, tallies, the
    decision; which canonical writes running candidates exclude.
  \<^item> \<open>Promo_Store\<close>, \<open>Promo_Intents\<close> (\<open>jcode-tasker-pi/src/concurrency_store.rs\<close>): tables as lists of
    rows, one definition per transaction. \<open>Promo_Revisions\<close>: the locale \<open>guarded_mutation\<close> of optimistic
    concurrency with its interpretation on each mutation. \<open>Promo_Invariant\<close>: the step relation over all
    transactions and the store's invariant. \<open>Promo_Recovery\<close>: histories of intents, immutability of
    submissions, reconciliation.
  \<^item> \<open>Json\<close>: JSON values, accessors and the derived deserialisation of a struct. \<open>Store_Input\<close>,
    \<open>Store_Values\<close> (\<open>concurrency_store.rs\<close>): the parsers that turn JSON inputs into rows, rows as JSON, the
    bounded projections. \<open>Tasker_Serde\<close>: the entities as JSON.
  \<^item> \<open>Tasker_Rounds\<close> (\<open>jcode-tasker-rounds/src/lib.rs\<close>): the round orchestrator. \<open>Runner\<close> is its state, the
    store and the decisions of an in-memory store; each operation returns its result and the state it
    leaves, also when it fails. \<open>Rounds_Completion\<close>: completion against what later ballots can do.
    \<open>Rounds_Load\<close>: what a load reads. \<open>Rounds_Invariant\<close>, \<open>Rounds_Reach\<close>, \<open>Rounds_Steps\<close>: the invariant of
    all rounds and its preservation. \<open>Rounds_Ballots\<close>, \<open>Rounds_Submit\<close>: the round trip of a ballot and the
    submission that counts. \<open>Rounds_Demo\<close>: text forms and a store for the examples. \<open>Rounds_Safety\<close>: the
    properties.
  \<^item> \<open>Git_Refs\<close>, \<open>Git_Laws\<close> (\<open>jcode-tasker-git\<close>): the adapter over a \<open>git\<close> program that is a parameter,
    and \<open>git_laws\<close>, the documented behaviour of the subcommands it calls: what \<open>show-ref\<close> and \<open>rev-parse\<close>
    print (\<open>^{tree}\<close> of a commit is another object), and that \<open>update-ref\<close> writes only the refs it is given
    and makes a single update of full oids or leaves it. Symbolic refs are in it, concurrent writers and
    hooks are not. A concrete repository of refs over commits and trees has these laws.
  \<^item> \<open>Promo_Saga\<close>, \<open>Promo_Safety\<close> (\<open>jcode-tasker-promotion\<close>): the saga over store and git.
  \<^item> \<open>Schema_Dialect\<close> (\<open>keyword.rs\<close>, \<open>dialect.rs\<close> of \<open>jcode-schema-dialect\<close>): keyword roles, allow-lists, the
    rewrites of one object and the walk. \<open>Schema_Flatten\<close>: the collapse of combiners and the application of
    a dialect. \<open>Schema_Registry\<close> (\<open>registry.rs\<close>, \<open>conformance.rs\<close>): the six dialects and the checks.
    \<open>Schema_Clean\<close>: the locale \<open>entry_law\<close>, what the rewrites keep of the entries of an object.
    \<open>Schema_Walk\<close>, \<open>Schema_Conform\<close>: predicates over schema positions and the conformance of what is sent.
    \<open>Schema_Meaning\<close>: what the rewriting keeps. \<open>Schema_Recovery\<close> (\<open>rejection.rs\<close>, \<open>quirks.rs\<close>, \<open>lib.rs\<close>):
    error texts, the store of learned rejections, the answer. \<open>Schema_Safety\<close>: the properties.

  \<^bold>\<open>What the lemmas show.\<close>
  Invariants: of the task graph under its engine, of the concurrency store under its transactions, of
  the rounds under their orchestrator, of the channel index. Refinement and equivalence: Kahn's worklist finds exactly the nodes that are on or
  behind a cycle; both schedulers agree; lift after lower is the identity on what a plan stores;
  adjudication ignores the order of its inputs; path resolution is the reference on name lists. Safety:
  a composite waits for its children and gate, a spelled-out command that destroys a protected path is denied, a promotion
  never overwrites a commit it did not expect, a persisted decision is the adjudication of the persisted
  ballots, a normalised schema passes the check of its dialect and keeps the meaning of the tool. Liveness and termination: the scheduler is
  never stuck, the simulator returns, the retries after schema rejections are bounded, recovery reaches a final state except in the case that is stated. Several
  properties state where the code departs from its documentation.

  \<^bold>\<open>Bounds and fuel.\<close>
  Loops over a finite structure are structural or have a measure: the worklist by its visited ids and
  stack length, the tokenizer and the assessment by the characters left. The simulator's loop is bounded
  by its own step limit, a parameter, so no fuel is added. Nested scripts of a command are assessed to
  the depth the source fixes. \<open>u16\<close>, \<open>u64\<close> and \<open>f64\<close> values where wrap-around, saturation or rounding
  matters are words and exact binary fractions; collection sizes are naturals. SQLite integers are
  naturals checked against \<open>2 ^ 63\<close>.

  \<^bold>\<open>Parameters.\<close>
  Clock readings, fresh UUIDs, SQLite's storage, the \<open>git\<close> program and the scripted workers of the
  simulator are arguments of the definitions that use them. The text forms of UUIDs, times and JSON are the
  record \<open>Texts\<close>; the theorems about rounds need \<open>texts_ok\<close>, that what is printed reads back (for JSON,
  values without floats).

  \<^bold>\<open>Not modelled.\<close>
  Terminal and desktop interfaces, rendering, provider runtimes and wire formats, telemetry, logging and
  set-up are input and output around this core. The server and tools of \<open>jcode-app-core\<close> and the session,
  memory and background compaction of \<open>jcode-base\<close> are asynchronous code over sockets, files and models;
  of them only the bash gate and the hard compaction are taken. Floating-point embeddings and similarity
  scores are left out. Of the Tasker, the lane orchestration (processes, worktrees and model sessions
  around the modelled store, rounds and promotion), the SQL projections of the task store, its migrations
  and the event mirror are left out.
\<close>

end
